(* ===== verification/Esc_Prelude.thy ===== *)
theory Esc_Prelude
  imports Main "HOL-Library.Word" "HOL-Library.Monad_Syntax"
begin

unbundle bit_operations_syntax

text \<open>
  Shared vocabulary of the development: the integer types and the rounding macros of the i586
  configuration (the default target of the build), the error codes the components return, the
  collections of simplification rules, and the lemmas on machine words, half-open address
  ranges and lists that the component theories rest on.

  An assertion that fails, a call of \<^verbatim>\<open>Util::panic\<close> and a null-pointer dereference stop the
  kernel. An operation that contains one of them returns an \<^typ>\<open>'a option\<close>, with \<^term>\<open>None\<close>
  for the stopped kernel.
\<close>

section \<open>Integer types\<close>

type_synonym u8 = "8 word"
type_synonym u16 = "16 word"
type_synonym u32 = "32 word"
type_synonym u64 = "64 word"
type_synonym uintptr_t = u32
type_synonym size_t = u32
type_synonym ulong = u32
type_synonym frameno_t = u32
type_synonym time_t = u32
type_synonym tid_t = nat
type_synonym ref = nat

section \<open>Constants and macros\<close>

definition PAGE_BITS :: nat where
  "PAGE_BITS = 12"

definition PAGE_SIZE :: size_t where
  "PAGE_SIZE = 4096"

definition BYTES_2_PAGES :: "size_t \<Rightarrow> size_t" where
  "BYTES_2_PAGES b = drop_bit PAGE_BITS (b + (PAGE_SIZE - 1))"

definition ROUND_DN :: "size_t \<Rightarrow> size_t \<Rightarrow> size_t" where
  "ROUND_DN count align = count AND NOT (align - 1)"

definition ROUND_UP :: "size_t \<Rightarrow> size_t \<Rightarrow> size_t" where
  "ROUND_UP count align = (count + align - 1) AND NOT (align - 1)"

definition ROUND_PAGE_DN :: "size_t \<Rightarrow> size_t" where
  "ROUND_PAGE_DN count = ROUND_DN count PAGE_SIZE"

definition ROUND_PAGE_UP :: "size_t \<Rightarrow> size_t" where
  "ROUND_PAGE_UP count = ROUND_UP count PAGE_SIZE"

text \<open>The error codes of \<^verbatim>\<open>errno.h\<close> that the modelled operations return, negated.\<close>

definition EBADF :: int where "EBADF = 2"
definition EFAULT :: int where "EFAULT = 6"
definition EINTR :: int where "EINTR = 7"
definition EINVAL :: int where "EINVAL = 8"
definition EMFILE :: int where "EMFILE = 10"
definition ENOMEM :: int where "ENOMEM = 20"

named_theorems errno_defs
named_theorems wrap_simps
named_theorems range_simps

lemmas [errno_defs] = EBADF_def EFAULT_def EINTR_def EINVAL_def EMFILE_def ENOMEM_def

section \<open>Words without wrap-around\<close>

lemma unat_plus_nowrap [wrap_simps]:
  "unat (a::u32) + unat b < 2 ^ 32 \<Longrightarrow> unat (a + b) = unat a + unat b"
  by (simp add: unat_word_ariths)

lemma unat_minus_le [wrap_simps]:
  "b \<le> a \<Longrightarrow> unat ((a::u32) - b) = unat a - unat b"
  by (rule unat_sub)

lemma word_le_unat: "(a::u32) \<le> b \<longleftrightarrow> unat a \<le> unat b"
  by (rule word_le_nat_alt)

lemma word_less_unat: "(a::u32) < b \<longleftrightarrow> unat a < unat b"
  by (rule word_less_nat_alt)

lemma word_eq_unat: "(a::u32) = b \<longleftrightarrow> unat a = unat b"
  by (simp add: word_unat_eq_iff)

lemmas unat_order = word_le_unat word_less_unat word_eq_unat

lemma unat_lt_2p32 [simp]: "unat (a::u32) < 4294967296"
  using unsigned_less [of a] by simp

lemma unat_of_nat_u32 [wrap_simps]: "n < 2 ^ 32 \<Longrightarrow> unat (word_of_nat n :: u32) = n"
  by (simp add: unsigned_of_nat take_bit_nat_eq_self)

section \<open>Rounding to pages\<close>

lemma unat_and_0xFFF: "unat ((w::u32) AND 0xFFF) = unat w mod 4096"
proof -
  have "(0xFFF::u32) = mask 12" by (simp add: mask_eq_exp_minus_1)
  then have "w AND 0xFFF = take_bit 12 w" by (simp add: take_bit_eq_mask)
  then show ?thesis by (simp add: take_bit_eq_mod unat_mod)
qed

lemma page_aligned_iff: "(w::u32) AND 0xFFF = 0 \<longleftrightarrow> unat w mod 4096 = 0"
  by (metis unat_and_0xFFF unat_eq_zero)

lemma word_and_not_mask: "(w::u32) AND NOT m = w - (w AND m)"
proof -
  have "w - (w AND m) = w AND NOT (w AND m)"
    by (rule disjunctive_diff_eq_and_not) (rule bit_eqI, auto simp: bit_simps)
  also have "\<dots> = w AND NOT m"
    by (rule bit_eqI) (auto simp: bit_simps)
  finally show ?thesis by simp
qed

lemma unat_ROUND_PAGE_DN: "unat (ROUND_PAGE_DN w) = unat w div 4096 * 4096"
proof -
  have "w AND 0xFFF \<le> w" by (rule word_and_le2)
  then have "unat (w - (w AND 0xFFF)) = unat w - unat w mod 4096"
    by (simp add: unat_minus_le unat_and_0xFFF)
  moreover have "ROUND_PAGE_DN w = w - (w AND 0xFFF)"
    by (simp add: ROUND_PAGE_DN_def ROUND_DN_def PAGE_SIZE_def flip: word_and_not_mask)
  ultimately show ?thesis by (simp add: minus_mod_eq_div_mult)
qed

lemma unat_ROUND_PAGE_UP:
  assumes "unat w + 4095 < 2 ^ 32"
  shows "unat (ROUND_PAGE_UP w) = (unat w + 4095) div 4096 * 4096"
proof -
  have "ROUND_PAGE_UP w = ROUND_PAGE_DN (w + 4095)"
    by (simp add: ROUND_PAGE_DN_def ROUND_PAGE_UP_def ROUND_DN_def ROUND_UP_def PAGE_SIZE_def
        add_diff_eq [symmetric])
  moreover have "unat (w + 4095) = unat w + 4095"
    using assms by (simp add: unat_plus_nowrap)
  ultimately show ?thesis by (simp add: unat_ROUND_PAGE_DN)
qed

lemma unat_BYTES_2_PAGES:
  assumes "unat w + 4095 < 2 ^ 32"
  shows "unat (BYTES_2_PAGES w) = (unat w + 4095) div 4096"
proof -
  have "unat (w + 4095) = unat w + 4095"
    using assms by (simp add: unat_plus_nowrap)
  then show ?thesis
    by (simp add: BYTES_2_PAGES_def PAGE_SIZE_def PAGE_BITS_def drop_bit_eq_div unat_div)
qed

lemma upt_split:
  assumes "i < n"
  shows "[0..<n] = [0..<i] @ i # [Suc i..<n]"
  using assms upt_add_eq_append [of 0 i "n - i"] by (simp add: upt_conv_Cons)

end
