(* ===== verification/Range_Manager.thy ===== *)
theory Range_Manager
  imports Esc_Prelude
begin

text \<open>
  The contract between a manager of address ranges and the code that asks it for memory, and
  what the client may conclude from it: however it interleaves its requests and releases, the
  ranges it holds never overlap, none of them is free, and nothing gets lost.
\<close>

definition rng :: "nat \<times> nat \<Rightarrow> nat set" where
  "rng r = {fst r..<fst r + snd r}"

text \<open>A client asks for a size, or gives back one of the ranges it holds, by position.\<close>

datatype range_op = Get nat | Put nat

fun range_client ::
  "(nat \<Rightarrow> 's \<Rightarrow> (nat \<times> 's) option) \<Rightarrow> (nat \<Rightarrow> nat \<Rightarrow> 's \<Rightarrow> 's) \<Rightarrow>
   range_op list \<Rightarrow> 's \<Rightarrow> (nat \<times> nat) list \<Rightarrow> 's \<times> (nat \<times> nat) list" where
  "range_client alloc release [] s live = (s, live)"
| "range_client alloc release (Get n # ops) s live =
     (case alloc n s of
        None \<Rightarrow> range_client alloc release ops s live
      | Some (a, s') \<Rightarrow> range_client alloc release ops s' ((a, n) # live))"
| "range_client alloc release (Put i # ops) s live =
     (if i < length live then
        range_client alloc release ops (release (fst (live ! i)) (snd (live ! i)) s)
          (take i live @ drop (Suc i) live)
      else range_client alloc release ops s live)"

fun ops_valid :: "(nat \<Rightarrow> bool) \<Rightarrow> range_op list \<Rightarrow> bool" where
  "ops_valid valid [] = True"
| "ops_valid valid (Get n # ops) = (valid n \<and> ops_valid valid ops)"
| "ops_valid valid (Put i # ops) = ops_valid valid ops"

text \<open>The ranges in use are disjoint from each other and from the free ones.\<close>

definition live_ok ::
  "nat set \<Rightarrow> (nat \<Rightarrow> bool) \<Rightarrow> nat set \<Rightarrow> nat set \<Rightarrow> (nat \<times> nat) list \<Rightarrow> bool" where
  "live_ok space valid F free live \<longleftrightarrow>
     (\<forall>r\<in>set live. valid (snd r) \<and> rng r \<subseteq> space \<and> rng r \<inter> free = {}) \<and>
     sorted_wrt (\<lambda>p q. rng p \<inter> rng q = {}) live \<and>
     free \<union> (\<Union>r\<in>set live. rng r) = F"

lemma live_ok_Cons:
  assumes "live_ok space valid F free live" "valid n" "free \<subseteq> space" "rng (a, n) \<subseteq> free"
  shows "live_ok space valid F (free - rng (a, n)) ((a, n) # live)"
  using assms unfolding live_ok_def by (auto; blast)

lemma live_ok_remove:
  assumes ok: "live_ok space valid F free live" and i: "i < length live"
  shows "live_ok space valid F (free \<union> rng (live ! i)) (take i live @ drop (Suc i) live)"
    and "rng (live ! i) \<inter> free = {}" and "rng (live ! i) \<subseteq> space" and "valid (snd (live ! i))"
proof -
  let ?l = "take i live" and ?r = "drop (Suc i) live"
  have live: "live = ?l @ live ! i # ?r" using i by (simp add: id_take_nth_drop)
  have ok': "live_ok space valid F free (?l @ live ! i # ?r)" using ok live by simp
  then show "live_ok space valid F (free \<union> rng (live ! i)) (?l @ ?r)"
    unfolding live_ok_def sorted_wrt_append by (auto; blast)
  show "rng (live ! i) \<inter> free = {}" "rng (live ! i) \<subseteq> space" "valid (snd (live ! i))"
    using ok i by (auto simp: live_ok_def)
qed

locale range_manager =
  fixes inv :: "'s \<Rightarrow> bool"
    and free_of :: "'s \<Rightarrow> nat set"
    and space :: "nat set"
    and valid :: "nat \<Rightarrow> bool"
    and alloc :: "nat \<Rightarrow> 's \<Rightarrow> (nat \<times> 's) option"
    and release :: "nat \<Rightarrow> nat \<Rightarrow> 's \<Rightarrow> 's"
  assumes free_space: "inv s \<Longrightarrow> free_of s \<subseteq> space"
    and alloc_inv: "inv s \<Longrightarrow> valid n \<Longrightarrow> alloc n s = Some (a, s') \<Longrightarrow> inv s'"
    and alloc_free: "inv s \<Longrightarrow> valid n \<Longrightarrow> alloc n s = Some (a, s') \<Longrightarrow>
      rng (a, n) \<subseteq> free_of s \<and> free_of s' = free_of s - rng (a, n)"
    and release_inv: "inv s \<Longrightarrow> valid n \<Longrightarrow> rng (a, n) \<subseteq> space \<Longrightarrow>
      rng (a, n) \<inter> free_of s = {} \<Longrightarrow> inv (release a n s)"
    and release_free: "inv s \<Longrightarrow> valid n \<Longrightarrow> rng (a, n) \<subseteq> space \<Longrightarrow>
      rng (a, n) \<inter> free_of s = {} \<Longrightarrow> free_of (release a n s) = free_of s \<union> rng (a, n)"
begin

lemma client_run:
  assumes "inv s" "live_ok space valid F (free_of s) live" "ops_valid valid ops"
    and "range_client alloc release ops s live = (s', live')"
  shows "inv s' \<and> live_ok space valid F (free_of s') live'"
  using assms
proof (induction ops arbitrary: s live)
  case Nil
  then show ?case by simp
next
  case (Cons op ops)
  show ?case
  proof (cases op)
    case (Get n)
    show ?thesis
    proof (cases "alloc n s")
      case None
      then show ?thesis using Cons Get by auto
    next
      case (Some p)
      obtain a s1 where p: "p = (a, s1)" by (cases p)
      have "valid n" using Cons.prems(3) Get by simp
      note facts = alloc_inv [OF Cons.prems(1) this Some [unfolded p]]
        alloc_free [OF Cons.prems(1) this Some [unfolded p]]
      have "live_ok space valid F (free_of s1) ((a, n) # live)"
        using live_ok_Cons [OF Cons.prems(2) \<open>valid n\<close> free_space [OF Cons.prems(1)]] facts by simp
      then show ?thesis
        using Cons.IH [of s1 "(a, n) # live"] facts Cons.prems Get Some p by auto
    qed
  next
    case (Put i)
    show ?thesis
    proof (cases "i < length live")
      case True
      note rem = live_ok_remove [OF Cons.prems(2) True]
      have "inv (release (fst (live ! i)) (snd (live ! i)) s)"
        using release_inv [OF Cons.prems(1) rem(4), of "fst (live ! i)"] rem by simp
      moreover have "free_of (release (fst (live ! i)) (snd (live ! i)) s) = free_of s \<union> rng (live ! i)"
        using release_free [OF Cons.prems(1) rem(4), of "fst (live ! i)"] rem by simp
      ultimately show ?thesis
        using Cons.IH rem(1) Cons.prems True Put by simp
    next
      case False
      then show ?thesis using Cons Put by simp
    qed
  qed
qed

lemma client_start:
  assumes "inv s" "ops_valid valid ops" "range_client alloc release ops s [] = (s', live)"
  shows "inv s'" and "live_ok space valid (free_of s) (free_of s') live"
  using client_run [OF assms(1) _ assms(2,3), of "free_of s"] by (auto simp: live_ok_def)

end

end
