(* ===== verification/VMFreeMap.thy ===== *)
theory VMFreeMap
  imports Range_Manager
begin

text \<open>
  The map of free virtual memory of a process (\<^verbatim>\<open>kernel/src/mem/vmfreemap.cc\<close>): a singly
  linked list of areas, sorted by address, that hands out and takes back address ranges. The
  list is private to the map and its nodes are never shared, so it is a HOL list here; the
  argument \<open>ok\<close> of an operation says whether its call of \<^verbatim>\<open>Cache::alloc\<close> returned memory.
  Addresses and sizes are 32-bit words, and all sums wrap around as in the code.
\<close>

section \<open>Data and operations\<close>

record vm_area =
  va_addr :: uintptr_t
  va_size :: size_t

definition VMFreeMap_init ::
  "bool \<Rightarrow> uintptr_t \<Rightarrow> size_t \<Rightarrow> vm_area list \<Rightarrow> bool \<times> vm_area list" where
  "VMFreeMap_init ok addr sz fm =
     (if \<not> ok then (False, fm)
      else (True, [\<lparr>va_addr = addr, va_size = sz\<rparr>]))"

definition VMFreeMap_destroy :: "vm_area list \<Rightarrow> vm_area list" where
  "VMFreeMap_destroy fm = []"

text \<open>
  The loop of \<^verbatim>\<open>allocate\<close> looks for the first area that is large enough and takes the range
  from its front; an area that becomes empty is unlinked.
\<close>

fun VMFreeMap_take :: "size_t \<Rightarrow> vm_area list \<Rightarrow> uintptr_t \<times> vm_area list" where
  "VMFreeMap_take sz [] = (0, [])"
| "VMFreeMap_take sz (a # as) =
     (if va_size a \<ge> sz then
        (va_addr a,
         (if va_size a - sz = 0 then as
          else a\<lparr>va_size := va_size a - sz, va_addr := va_addr a + sz\<rparr> # as))
      else
        (case VMFreeMap_take sz as of (res, as') \<Rightarrow> (res, a # as')))"

definition VMFreeMap_allocate ::
  "size_t \<Rightarrow> vm_area list \<Rightarrow> (uintptr_t \<times> vm_area list) option" where
  "VMFreeMap_allocate sz fm =
     (if sz AND 0xFFF \<noteq> 0 then None else Some (VMFreeMap_take sz fm))"

text \<open>
  The loop of \<^verbatim>\<open>allocateAt\<close>; \<open>p\<close> says whether there is a previous area. The areas passed by
  the loop stay as they are, so the unlinking through \<open>p\<close> is the rest of the list.
\<close>

fun VMFreeMap_takeAt ::
  "bool \<Rightarrow> uintptr_t \<Rightarrow> size_t \<Rightarrow> bool \<Rightarrow> vm_area list \<Rightarrow> bool \<times> vm_area list" where
  "VMFreeMap_takeAt ok addr sz p [] = (False, [])"
| "VMFreeMap_takeAt ok addr sz p (a # as) =
     (if addr > va_addr a + va_size a then
        (case VMFreeMap_takeAt ok addr sz True as of (res, as') \<Rightarrow> (res, a # as'))
      else if addr + sz > va_addr a + va_size a \<or> (\<not> p \<and> addr < va_addr a) then
        (False, a # as)
      else if addr = va_addr a \<and> sz = va_size a then (True, as)
      else if addr = va_addr a then
        (True, a\<lparr>va_addr := va_addr a + sz, va_size := va_size a - sz\<rparr> # as)
      else if addr + sz = va_addr a + va_size a then
        (True, a\<lparr>va_size := va_size a - sz\<rparr> # as)
      else if \<not> ok then (False, a # as)
      else
        (let na = \<lparr>va_addr = va_addr a, va_size = addr - va_addr a\<rparr> in
         (True, na # a\<lparr>va_addr := addr + sz,
                       va_size := va_size a - (va_size na + sz)\<rparr> # as)))"

definition VMFreeMap_allocateAt ::
  "bool \<Rightarrow> uintptr_t \<Rightarrow> size_t \<Rightarrow> vm_area list \<Rightarrow> bool \<times> vm_area list" where
  "VMFreeMap_allocateAt ok addr sz fm = VMFreeMap_takeAt ok addr sz False fm"

text \<open>
  The merge step of \<^verbatim>\<open>free\<close> works on the previous area \<open>p\<close>, if any, and the areas \<open>ns\<close> behind
  the freed range; its result starts with the previous area.
\<close>

definition VMFreeMap_merge ::
  "bool \<Rightarrow> uintptr_t \<Rightarrow> size_t \<Rightarrow> vm_area option \<Rightarrow> vm_area list \<Rightarrow> vm_area list" where
  "VMFreeMap_merge ok addr sz p ns =
     (let new = (if ok then [\<lparr>va_addr = addr, va_size = sz\<rparr>] else []) in
      case (p, ns) of
        (Some p, n # ns') \<Rightarrow>
          if va_addr p + va_size p = addr \<and> addr + sz = va_addr n then
            p\<lparr>va_size := va_size p + (sz + va_size n)\<rparr> # ns'
          else if va_addr p + va_size p = addr then
            p\<lparr>va_size := va_size p + sz\<rparr> # n # ns'
          else if addr + sz = va_addr n then
            p # n\<lparr>va_addr := va_addr n - sz, va_size := va_size n + sz\<rparr> # ns'
          else p # new @ n # ns'
      | (Some p, []) \<Rightarrow>
          if va_addr p + va_size p = addr then [p\<lparr>va_size := va_size p + sz\<rparr>]
          else p # new
      | (None, n # ns') \<Rightarrow>
          if addr + sz = va_addr n then
            n\<lparr>va_addr := va_addr n - sz, va_size := va_size n + sz\<rparr> # ns'
          else new @ n # ns'
      | (None, []) \<Rightarrow> new)"

fun VMFreeMap_put ::
  "bool \<Rightarrow> uintptr_t \<Rightarrow> size_t \<Rightarrow> vm_area option \<Rightarrow> vm_area list \<Rightarrow> vm_area list" where
  "VMFreeMap_put ok addr sz p [] = VMFreeMap_merge ok addr sz p []"
| "VMFreeMap_put ok addr sz p (n # ns) =
     (if addr > va_addr n then
        (case p of None \<Rightarrow> [] | Some a \<Rightarrow> [a]) @ VMFreeMap_put ok addr sz (Some n) ns
      else VMFreeMap_merge ok addr sz p (n # ns))"

definition VMFreeMap_free ::
  "bool \<Rightarrow> uintptr_t \<Rightarrow> size_t \<Rightarrow> vm_area list \<Rightarrow> vm_area list option" where
  "VMFreeMap_free ok addr sz fm =
     (if sz AND 0xFFF \<noteq> 0 then None else Some (VMFreeMap_put ok addr sz None fm))"

fun VMFreeMap_getSize :: "size_t \<Rightarrow> size_t \<Rightarrow> vm_area list \<Rightarrow> size_t \<times> size_t" where
  "VMFreeMap_getSize tot areas [] = (tot, areas)"
| "VMFreeMap_getSize tot areas (a # as) = VMFreeMap_getSize (tot + va_size a) (areas + 1) as"

section \<open>Abstraction and invariant\<close>

text \<open>
  The map stands for the set of its free addresses. It is well formed when every area is
  non-empty and ends inside the address space, and when there is a used address between any
  two areas; the last point says that neighbouring free ranges are always merged.
\<close>

definition area_end :: "vm_area \<Rightarrow> nat" where
  "area_end a = unat (va_addr a) + unat (va_size a)"

definition area_range :: "vm_area \<Rightarrow> nat set" where
  "area_range a = {unat (va_addr a)..<area_end a}"

definition free_set :: "vm_area list \<Rightarrow> nat set" where
  "free_set as = (\<Union>a\<in>set as. area_range a)"

definition area_ok :: "vm_area \<Rightarrow> bool" where
  "area_ok a \<longleftrightarrow> 0 < unat (va_size a) \<and> area_end a < 2 ^ 32"

fun vmfm_inv :: "vm_area list \<Rightarrow> bool" where
  "vmfm_inv [] = True"
| "vmfm_inv (a # as) =
     (area_ok a \<and> (\<forall>b\<in>set as. area_end a < unat (va_addr b)) \<and> vmfm_inv as)"

lemma free_set_simps [simp]:
  "free_set [] = {}"
  "free_set (a # as) = area_range a \<union> free_set as"
  by (auto simp: free_set_def)

lemma area_start_in_range: "area_ok a \<Longrightarrow> unat (va_addr a) \<in> area_range a"
  by (auto simp: area_ok_def area_range_def area_end_def)

text \<open>
  A lower bound of the areas is a lower bound of the free addresses, so the invariant can be
  stated on the set that the list stands for.
\<close>

lemma free_set_lower_iff:
  "vmfm_inv as \<Longrightarrow> (\<forall>b\<in>set as. l < unat (va_addr b)) \<longleftrightarrow> (\<forall>x\<in>free_set as. l < x)"
  by (induction as) (auto dest!: area_start_in_range simp: area_range_def)

lemma vmfm_inv_Cons:
  "vmfm_inv (a # as) \<longleftrightarrow> area_ok a \<and> (\<forall>x\<in>free_set as. area_end a < x) \<and> vmfm_inv as"
  using free_set_lower_iff by auto

declare vmfm_inv.simps(2) [simp del]
declare vmfm_inv_Cons [simp]

lemma vmfm_inv_disjoint: "vmfm_inv (a # as) \<Longrightarrow> area_range a \<inter> free_set as = {}"
  by (fastforce simp: area_range_def)

lemma area_ok_word_end: "area_ok a \<Longrightarrow> unat (va_addr a + va_size a) = area_end a"
  by (simp add: area_ok_def area_end_def wrap_simps)

lemma vmfm_inv_all_ok: "vmfm_inv as \<Longrightarrow> a \<in> set as \<Longrightarrow> area_ok a"
  by (induction as) auto

text \<open>Merging is complete: the list is determined by the set of free addresses.\<close>

lemma vmfm_inv_head:
  assumes "vmfm_inv (a # as)"
  shows "unat (va_addr a) \<in> free_set (a # as)"
    and "x \<in> free_set (a # as) \<Longrightarrow> unat (va_addr a) \<le> x"
    and "area_end a \<notin> free_set (a # as)"
  using assms area_start_in_range [of a]
  by (auto simp: area_range_def area_end_def)

lemma vmfm_inv_same_head:
  assumes inv: "vmfm_inv (a # as)" "vmfm_inv (b # bs)"
    and eq: "free_set (a # as) = free_set (b # bs)"
  shows "a = b"
proof -
  have addr: "unat (va_addr a) = unat (va_addr b)"
    using vmfm_inv_head(1,2) inv eq by (metis le_antisym)
  have no_gap: "\<not> area_end c < area_end d"
    if "vmfm_inv (c # cs)" "vmfm_inv (d # ds)" "free_set (c # cs) = free_set (d # ds)"
      "unat (va_addr c) = unat (va_addr d)" for c d cs ds
  proof
    assume "area_end c < area_end d"
    then have "area_end c \<in> area_range d"
      using that(4) by (simp add: area_range_def area_end_def)
    then show False
      using vmfm_inv_head(3) [OF that(1)] that(3) by auto
  qed
  have "area_end a = area_end b"
    using no_gap [OF inv eq addr] no_gap [OF inv(2,1) eq [symmetric] addr [symmetric]] by simp
  then have "va_addr a = va_addr b" "va_size a = va_size b"
    using addr by (auto simp: area_end_def unat_order)
  then show ?thesis by simp
qed

lemma vmfm_inv_canonical:
  "vmfm_inv as \<Longrightarrow> vmfm_inv bs \<Longrightarrow> free_set as = free_set bs \<Longrightarrow> as = bs"
proof (induction as arbitrary: bs)
  case Nil
  then show ?case
    by (cases bs) (auto dest: area_start_in_range)
next
  case (Cons a as)
  then obtain b bs' where bs: "bs = b # bs'"
    by (cases bs) (auto dest: area_start_in_range)
  have "a = b" using vmfm_inv_same_head Cons.prems bs by blast
  moreover have "free_set as = free_set bs'"
    using vmfm_inv_disjoint Cons.prems bs \<open>a = b\<close> by (auto simp del: vmfm_inv_Cons)
  ultimately show ?case using Cons bs by auto
qed

section \<open>Allocation\<close>

text \<open>One area, cut at its front.\<close>

lemma area_cut_front:
  assumes ok: "area_ok a" and le: "sz \<le> va_size a"
    and b: "b = a\<lparr>va_size := va_size a - sz, va_addr := va_addr a + sz\<rparr>"
  shows "area_end b = area_end a"
    and "unat (va_addr b) = unat (va_addr a) + unat sz"
    and "unat (va_size b) = unat (va_size a) - unat sz"
proof -
  have "unat (va_addr a) + unat sz < 2 ^ 32"
    using ok le by (simp add: area_ok_def area_end_def unat_order)
  then show "unat (va_addr b) = unat (va_addr a) + unat sz"
    by (simp add: b wrap_simps)
  moreover show "unat (va_size b) = unat (va_size a) - unat sz"
    using le by (simp add: b wrap_simps)
  ultimately show "area_end b = area_end a"
    using le by (simp add: area_end_def unat_order)
qed

lemma VMFreeMap_take_none:
  "\<forall>a\<in>set as. va_size a < sz \<Longrightarrow> VMFreeMap_take sz as = (0, as)"
  by (induction as) (auto split: prod.splits)

lemma VMFreeMap_take_some:
  assumes "vmfm_inv as" and "\<exists>a\<in>set as. sz \<le> va_size a" and "0 < sz"
    and "VMFreeMap_take sz as = (r, as')"
  shows "vmfm_inv as' \<and> {unat r..<unat r + unat sz} \<subseteq> free_set as \<and>
    free_set as' = free_set as - {unat r..<unat r + unat sz} \<and> unat r \<in> unat ` va_addr ` set as"
  using assms
proof (induction as arbitrary: as')
  case Nil
  then show ?case by simp
next
  case (Cons a as)
  note inv = Cons.prems(1)
  then have ok: "area_ok a" and above: "\<forall>x\<in>free_set as. area_end a < x" by auto
  show ?case
  proof (cases "sz \<le> va_size a")
    case True
    let ?b = "a\<lparr>va_size := va_size a - sz, va_addr := va_addr a + sz\<rparr>"
    note cut = area_cut_front [OF ok True refl]
    have rest: "free_set as \<inter> {unat (va_addr a)..<unat (va_addr a) + unat sz} = {}"
      using vmfm_inv_disjoint [OF inv] True
      by (auto simp: area_range_def area_end_def unat_order disjoint_iff)
    show ?thesis
    proof (cases "va_size a = sz")
      case eq: True
      then show ?thesis
        using Cons.prems rest
        by (auto simp: area_range_def area_end_def)
    next
      case False
      then have lt: "unat sz < unat (va_size a)" using True by (auto simp: unat_order)
      have "area_ok ?b" using ok lt cut by (auto simp: area_ok_def)
      moreover have "area_range ?b = area_range a - {unat (va_addr a)..<unat (va_addr a) + unat sz}"
        using cut by (auto simp: area_range_def)
      ultimately show ?thesis
        using Cons.prems rest False True above cut(1) lt
        by (auto simp: area_range_def area_end_def)
    qed
  next
    case False
    then obtain as1 where as1: "VMFreeMap_take sz as = (r, as1)" "as' = a # as1"
      using Cons.prems(4) by (auto split: prod.splits)
    have IH: "vmfm_inv as1 \<and> {unat r..<unat r + unat sz} \<subseteq> free_set as \<and>
      free_set as1 = free_set as - {unat r..<unat r + unat sz} \<and> unat r \<in> unat ` va_addr ` set as"
      using Cons.IH Cons.prems False as1 by auto
    moreover have "area_range a \<inter> {unat r..<unat r + unat sz} = {}"
      using IH vmfm_inv_disjoint [OF inv] by blast
    ultimately show ?thesis
      using as1(2) ok above by auto
  qed
qed

section \<open>Release\<close>

abbreviation vm_range :: "uintptr_t \<Rightarrow> size_t \<Rightarrow> nat set" where
  "vm_range addr sz \<equiv> {unat addr..<unat addr + unat sz}"

text \<open>What \<^verbatim>\<open>free\<close> may be called with: a non-empty range inside the address space.\<close>

definition vm_range_ok :: "uintptr_t \<Rightarrow> size_t \<Rightarrow> bool" where
  "vm_range_ok addr sz \<longleftrightarrow> 0 < unat sz \<and> unat addr + unat sz < 2 ^ 32"

lemma vm_range_word_end: "vm_range_ok addr sz \<Longrightarrow> unat (addr + sz) = unat addr + unat sz"
  by (simp add: vm_range_ok_def wrap_simps)

lemma area_grow_end:
  assumes "area_ok p" "vm_range_ok addr sz" "area_end p = unat addr"
  shows "area_ok (p\<lparr>va_size := va_size p + sz\<rparr>)"
    and "area_end (p\<lparr>va_size := va_size p + sz\<rparr>) = unat addr + unat sz"
    and "area_range (p\<lparr>va_size := va_size p + sz\<rparr>) = area_range p \<union> vm_range addr sz"
  using assms by (auto simp: area_ok_def area_end_def vm_range_ok_def area_range_def wrap_simps)

lemma area_grow_front:
  assumes "area_ok n" "vm_range_ok addr sz" "unat (va_addr n) = unat addr + unat sz"
  defines "n' \<equiv> n\<lparr>va_addr := va_addr n - sz, va_size := va_size n + sz\<rparr>"
  shows "area_ok n'" and "area_end n' = area_end n"
    and "area_range n' = area_range n \<union> vm_range addr sz"
proof -
  have "unat (va_addr n - sz) = unat addr"
    using assms by (simp add: wrap_simps unat_order)
  moreover have "unat (va_size n + sz) = unat (va_size n) + unat sz"
    using assms by (simp add: wrap_simps area_ok_def area_end_def)
  ultimately show "area_ok n'" "area_end n' = area_end n"
    "area_range n' = area_range n \<union> vm_range addr sz"
    using assms by (auto simp: area_ok_def area_end_def area_range_def vm_range_ok_def)
qed

lemma area_grow_both:
  assumes "area_ok p" "area_ok n" "vm_range_ok addr sz" "area_end p = unat addr"
    "unat (va_addr n) = unat addr + unat sz"
  defines "p' \<equiv> p\<lparr>va_size := va_size p + (sz + va_size n)\<rparr>"
  shows "area_ok p'" and "area_end p' = area_end n"
    and "area_range p' = area_range p \<union> vm_range addr sz \<union> area_range n"
proof -
  have "unat (sz + va_size n) = unat sz + unat (va_size n)"
    using assms by (simp add: wrap_simps area_ok_def area_end_def)
  then have "unat (va_size p + (sz + va_size n)) = unat (va_size p) + unat sz + unat (va_size n)"
    using assms by (simp add: wrap_simps area_ok_def area_end_def)
  then show "area_ok p'" "area_end p' = area_end n"
    "area_range p' = area_range p \<union> vm_range addr sz \<union> area_range n"
    using assms by (auto simp: area_ok_def area_end_def area_range_def vm_range_ok_def)
qed

lemma area_new:
  assumes "vm_range_ok addr sz"
  shows "area_ok \<lparr>va_addr = addr, va_size = sz\<rparr>"
    and "area_end \<lparr>va_addr = addr, va_size = sz\<rparr> = unat addr + unat sz"
    and "area_range \<lparr>va_addr = addr, va_size = sz\<rparr> = vm_range addr sz"
  using assms by (auto simp: area_ok_def area_end_def vm_range_ok_def area_range_def)

text \<open>A range between two areas that it does not meet lies between their ends.\<close>

lemma vm_range_after:
  assumes "area_ok p" "vm_range_ok addr sz" "area_range p \<inter> vm_range addr sz = {}"
    "unat (va_addr p) < unat addr"
  shows "area_end p \<le> unat addr"
proof (rule ccontr)
  assume "\<not> ?thesis"
  then have "unat addr \<in> area_range p \<inter> vm_range addr sz"
    using assms by (auto simp: area_range_def vm_range_ok_def)
  then show False using assms(3) by blast
qed

lemma vm_range_before:
  assumes "area_ok n" "vm_range_ok addr sz" "area_range n \<inter> vm_range addr sz = {}"
    "unat addr \<le> unat (va_addr n)"
  shows "unat addr + unat sz \<le> unat (va_addr n)"
proof (rule ccontr)
  assume "\<not> ?thesis"
  then have "unat (va_addr n) \<in> area_range n \<inter> vm_range addr sz"
    using assms(1,2,4) area_start_in_range by (simp add: not_le)
  then show False using assms(3) by blast
qed

abbreviation opt_list :: "'a option \<Rightarrow> 'a list" where
  "opt_list p \<equiv> (case p of None \<Rightarrow> [] | Some a \<Rightarrow> [a])"

lemma VMFreeMap_merge_correct:
  assumes inv: "vmfm_inv (opt_list p @ ns)" and rg: "vm_range_ok addr sz"
    and dis: "free_set (opt_list p @ ns) \<inter> vm_range addr sz = {}"
    and prev: "\<And>a. p = Some a \<Longrightarrow> unat (va_addr a) < unat addr"
    and nxt: "\<And>n ns'. ns = n # ns' \<Longrightarrow> unat addr \<le> unat (va_addr n)"
  shows "vmfm_inv (VMFreeMap_merge True addr sz p ns) \<and>
    free_set (VMFreeMap_merge True addr sz p ns) = free_set (opt_list p @ ns) \<union> vm_range addr sz"
proof (cases ns)
  case Nil
  show ?thesis
  proof (cases p)
    case None
    then show ?thesis using Nil area_new [OF rg] by (simp add: VMFreeMap_merge_def)
  next
    case (Some a)
    have a: "area_ok a" "area_end a \<le> unat addr"
      using inv dis Some Nil vm_range_after [OF _ rg _ prev [OF Some]] by auto
    have t: "va_addr a + va_size a = addr \<longleftrightarrow> area_end a = unat addr"
      using a by (auto simp: word_eq_unat area_ok_word_end)
    show ?thesis
      using Some Nil a t area_grow_end [OF a(1) rg] area_new [OF rg]
      by (auto simp: VMFreeMap_merge_def)
  qed
next
  case (Cons n ns')
  have n: "area_ok n" "area_range n \<inter> vm_range addr sz = {}" "vmfm_inv (n # ns')"
    using inv dis Cons by (auto split: option.splits)
  have bef: "unat addr + unat sz \<le> unat (va_addr n)"
    using vm_range_before [OF n(1) rg n(2) nxt [OF Cons]] .
  have tn: "addr + sz = va_addr n \<longleftrightarrow> unat (va_addr n) = unat addr + unat sz"
    by (auto simp: word_eq_unat vm_range_word_end [OF rg])
  have below: "\<forall>x\<in>free_set (n # ns'). unat (va_addr n) \<le> x"
    by (rule ballI) (rule vmfm_inv_head(2) [OF n(3)])
  have gap: "unat addr + unat sz < x"
    if "unat (va_addr n) \<noteq> unat addr + unat sz" "x \<in> area_range n \<or> x \<in> free_set ns'" for x
  proof -
    have "unat (va_addr n) \<le> x" using that(2) below by auto
    then show ?thesis using that(1) bef by simp
  qed
  show ?thesis
  proof (cases p)
    case None
    then show ?thesis
      using Cons n tn gap area_grow_front [OF n(1) rg] area_new [OF rg]
      by (auto simp: VMFreeMap_merge_def)
  next
    case (Some a)
    have a: "area_ok a" "area_end a \<le> unat addr" "\<forall>x\<in>free_set (n # ns'). area_end a < x"
      using inv dis Some Cons vm_range_after [OF _ rg _ prev [OF Some]] by auto
    have t: "va_addr a + va_size a = addr \<longleftrightarrow> area_end a = unat addr"
      using a by (auto simp: word_eq_unat area_ok_word_end)
    consider "area_end a = unat addr" "unat (va_addr n) = unat addr + unat sz"
      | "area_end a = unat addr" "unat (va_addr n) \<noteq> unat addr + unat sz"
      | "area_end a \<noteq> unat addr" "unat (va_addr n) = unat addr + unat sz"
      | "area_end a \<noteq> unat addr" "unat (va_addr n) \<noteq> unat addr + unat sz" by blast
    then show ?thesis
    proof cases
      case 1
      then show ?thesis
        using Some Cons n a t tn area_grow_both [OF a(1) n(1) rg]
        by (auto simp: VMFreeMap_merge_def)
    next
      case 2
      then show ?thesis
        using Some Cons n a t tn gap area_grow_end [OF a(1) rg]
        by (auto simp: VMFreeMap_merge_def)
    next
      case 3
      then show ?thesis
        using Some Cons n a t tn area_grow_front [OF n(1) rg]
        by (auto simp: VMFreeMap_merge_def)
    next
      case 4
      then show ?thesis
        using Some Cons n a t tn gap area_new [OF rg]
        by (auto simp: VMFreeMap_merge_def)
    qed
  qed
qed

lemma VMFreeMap_put_correct:
  assumes "vmfm_inv (opt_list p @ ns)" and "vm_range_ok addr sz"
    and "free_set (opt_list p @ ns) \<inter> vm_range addr sz = {}"
    and "\<And>a. p = Some a \<Longrightarrow> unat (va_addr a) < unat addr"
  shows "vmfm_inv (VMFreeMap_put True addr sz p ns) \<and>
    free_set (VMFreeMap_put True addr sz p ns) = free_set (opt_list p @ ns) \<union> vm_range addr sz"
  using assms
proof (induction ns arbitrary: p)
  case Nil
  then show ?case using VMFreeMap_merge_correct [of p "[]"] by simp
next
  case (Cons n ns)
  show ?case
  proof (cases "addr > va_addr n")
    case True
    let ?r = "VMFreeMap_put True addr sz (Some n) ns"
    have n: "vmfm_inv (n # ns)" "free_set (n # ns) \<inter> vm_range addr sz = {}"
      using Cons.prems(1,3) by (auto split: option.splits)
    have IH: "vmfm_inv ?r" "free_set ?r = free_set (n # ns) \<union> vm_range addr sz"
      using Cons.IH [of "Some n"] n True Cons.prems(2) by (auto simp: unat_order)
    show ?thesis
    proof (cases p)
      case None
      then show ?thesis using IH True by simp
    next
      case (Some a)
      have "area_end a < unat (va_addr n)"
        using Cons.prems(1) Some area_start_in_range [of n] by auto
      then show ?thesis
        using IH True Some Cons.prems(1) by (auto simp: unat_order)
    qed
  next
    case False
    then show ?thesis
      using VMFreeMap_merge_correct [OF Cons.prems] by (auto simp: unat_order)
  qed
qed

text \<open>
  When no memory is left for a new node, the freed range is lost: the map keeps its old
  contents. It is never damaged.
\<close>

lemma VMFreeMap_put_nomem:
  "VMFreeMap_put False addr sz p ns = VMFreeMap_put True addr sz p ns \<or>
   VMFreeMap_put False addr sz p ns = opt_list p @ ns"
proof (induction ns arbitrary: p)
  case Nil
  then show ?case by (auto simp: VMFreeMap_merge_def split: option.splits)
next
  case (Cons n ns)
  show ?case
    using Cons.IH [of "Some n"]
    by (auto simp: VMFreeMap_merge_def split: option.splits)
qed

section \<open>Allocation at a given address\<close>

lemma area_split_middle:
  assumes a: "area_ok a" and rg: "vm_range_ok addr sz"
    and lo: "unat (va_addr a) < unat addr" and hi: "unat addr + unat sz < area_end a"
  defines "na \<equiv> \<lparr>va_addr = va_addr a, va_size = addr - va_addr a\<rparr>"
  defines "b \<equiv> a\<lparr>va_addr := addr + sz, va_size := va_size a - (va_size na + sz)\<rparr>"
  shows "area_ok na" and "area_ok b" and "area_end na = unat addr" and "area_end b = area_end a"
    and "unat (va_addr b) = unat addr + unat sz" and "unat (va_addr na) = unat (va_addr a)"
proof -
  have na: "unat (va_size na) = unat addr - unat (va_addr a)"
    using lo by (simp add: na_def wrap_simps unat_order)
  moreover have "unat (va_size na) + unat sz < 2 ^ 32"
    using na a hi lo unfolding area_ok_def by linarith
  ultimately have "unat (va_size na + sz) = unat addr - unat (va_addr a) + unat sz"
    by (simp add: wrap_simps)
  then have sz: "unat (va_size b) = unat (va_size a) - (unat addr - unat (va_addr a) + unat sz)"
    using hi lo by (simp add: b_def wrap_simps unat_order area_end_def)
  show "unat (va_addr b) = unat addr + unat sz"
    using vm_range_word_end [OF rg] by (simp add: b_def)
  then show "area_end b = area_end a" and "area_ok b"
    using sz a hi lo by (auto simp: area_end_def area_ok_def)
  show "area_end na = unat addr" and "area_ok na" and "unat (va_addr na) = unat (va_addr a)"
    using na a lo hi by (auto simp: area_end_def area_ok_def na_def)
qed

lemma VMFreeMap_takeAt_start:
  assumes inv: "vmfm_inv (b # bs)" and rg: "vm_range_ok addr sz"
    and start: "addr = va_addr b" and hi: "unat addr + unat sz \<le> area_end b"
    and run: "VMFreeMap_takeAt True addr sz p (b # bs) = (res, as')"
  shows "res \<and> vmfm_inv as' \<and> free_set as' = free_set (b # bs) - vm_range addr sz"
proof -
  have b: "area_ok b" "\<forall>x\<in>free_set bs. area_end b < x" using inv by auto
  have le: "sz \<le> va_size b" using hi start by (simp add: unat_order area_end_def)
  have tests: "\<not> addr > va_addr b + va_size b" "\<not> addr + sz > va_addr b + va_size b"
    using start hi area_ok_word_end [OF b(1)] vm_range_word_end [OF rg]
    by (auto simp: unat_order area_end_def)
  have rest: "free_set bs \<inter> vm_range addr sz = {}"
    using b(2) hi by fastforce
  show ?thesis
  proof (cases "sz = va_size b")
    case True
    then show ?thesis
      using run tests start inv rest by (auto simp: area_range_def area_end_def)
  next
    case False
    let ?b = "b\<lparr>va_addr := va_addr b + sz, va_size := va_size b - sz\<rparr>"
    have cut: "area_end ?b = area_end b" "unat (va_addr ?b) = unat (va_addr b) + unat sz"
      "unat (va_size ?b) = unat (va_size b) - unat sz"
      using area_cut_front [OF b(1) le refl] by (auto simp: area_end_def)
    have "unat sz < unat (va_size b)" using le False by (auto simp: unat_order)
    then show ?thesis
      using run tests start inv rest False cut b by (auto simp: area_ok_def area_range_def)
  qed
qed

lemma VMFreeMap_takeAt_inner:
  assumes inv: "vmfm_inv (b # bs)" and rg: "vm_range_ok addr sz"
    and lt: "unat (va_addr b) < unat addr" and hi: "unat addr + unat sz \<le> area_end b"
    and run: "VMFreeMap_takeAt True addr sz p (b # bs) = (res, as')"
  shows "res \<and> vmfm_inv as' \<and> free_set as' = free_set (b # bs) - vm_range addr sz"
proof -
  have b: "area_ok b" "\<forall>x\<in>free_set bs. area_end b < x" using inv by auto
  have lo: "unat addr < area_end b" using hi rg by (simp add: vm_range_ok_def)
  have above: "\<forall>x\<in>free_set bs. unat addr < x"
    using b(2) lo by (meson less_trans)
  have rest: "free_set bs \<inter> vm_range addr sz = {}"
    using b(2) hi by fastforce
  have tests: "\<not> addr > va_addr b + va_size b" "\<not> addr + sz > va_addr b + va_size b"
    "\<not> addr < va_addr b" "addr \<noteq> va_addr b"
    "addr + sz = va_addr b + va_size b \<longleftrightarrow> unat addr + unat sz = area_end b"
    using lt lo hi area_ok_word_end [OF b(1)] vm_range_word_end [OF rg] by (auto simp: unat_order)
  show ?thesis
  proof (cases "unat addr + unat sz = area_end b")
    case True
    let ?b = "b\<lparr>va_size := va_size b - sz\<rparr>"
    have "sz \<le> va_size b" using True lt by (simp add: unat_order area_end_def)
    then have "unat (va_size ?b) = unat (va_size b) - unat sz" by (simp add: wrap_simps)
    then have "area_end ?b = unat addr" "unat (va_addr ?b) = unat (va_addr b)" "area_ok ?b"
      using True lt b(1) by (auto simp: area_end_def area_ok_def)
    then show ?thesis
      using run tests True inv rest lo above lt by (auto simp: area_range_def)
  next
    case False
    then have "unat addr + unat sz < area_end b" using hi by simp
    note sp = area_split_middle [OF b(1) rg lt this]
    show ?thesis
      using run tests False inv rest lo rg sp lt above
      by (auto simp: area_range_def Let_def vm_range_ok_def)
  qed
qed

lemma VMFreeMap_takeAt_correct:
  assumes "vmfm_inv as" "vm_range_ok addr sz" "a \<in> set as" "vm_range addr sz \<subseteq> area_range a"
    and "VMFreeMap_takeAt True addr sz p as = (res, as')"
  shows "res \<and> vmfm_inv as' \<and> free_set as' = free_set as - vm_range addr sz"
  using assms
proof (induction as arbitrary: p as')
  case Nil
  then show ?case by simp
next
  case (Cons b bs)
  note rg = Cons.prems(2)
  have inv: "area_ok b" "\<forall>x\<in>free_set bs. area_end b < x" "vmfm_inv bs"
    using Cons.prems(1) by auto
  have first: "unat addr \<in> area_range a" and last: "unat addr + unat sz \<le> area_end a"
    using Cons.prems(4) rg by (auto simp: vm_range_ok_def area_range_def)
  show ?case
  proof (cases "a = b")
    case False
    then have "unat addr \<in> free_set bs" using first Cons.prems(3) by (auto simp: free_set_def)
    then have gt: "addr > va_addr b + va_size b"
      using inv(2) area_ok_word_end [OF inv(1)] by (simp add: word_less_unat)
    obtain as1 where as1: "VMFreeMap_takeAt True addr sz True bs = (res, as1)" "as' = b # as1"
      using Cons.prems(5) gt by (auto split: prod.splits)
    have "res \<and> vmfm_inv as1 \<and> free_set as1 = free_set bs - vm_range addr sz"
      using Cons.IH [OF inv(3) rg _ Cons.prems(4) as1(1)] Cons.prems(3) False by auto
    moreover have "area_range b \<inter> vm_range addr sz = {}"
      using gt area_ok_word_end [OF inv(1)] by (auto simp: area_range_def word_less_unat)
    ultimately show ?thesis using as1(2) inv by auto
  next
    case True
    then consider "addr = va_addr b" | "unat (va_addr b) < unat addr"
      using first by (auto simp: area_range_def unat_order le_less)
    then show ?thesis
      using VMFreeMap_takeAt_start [OF Cons.prems(1) rg _ _ Cons.prems(5)]
        VMFreeMap_takeAt_inner [OF Cons.prems(1) rg _ _ Cons.prems(5)] last True
      by cases auto
  qed
qed

section \<open>The contract with the address-space code\<close>

text \<open>
  \<^verbatim>\<open>VirtMem\<close> reads the result 0 of \<^verbatim>\<open>allocate\<close> as "no room", so the address 0 must not be
  free, and it asks for whole pages.
\<close>

definition vmfm_alloc :: "nat \<Rightarrow> vm_area list \<Rightarrow> (nat \<times> vm_area list) option" where
  "vmfm_alloc n fm =
     (case VMFreeMap_allocate (word_of_nat n) fm of
        None \<Rightarrow> None
      | Some (r, fm') \<Rightarrow> if r = 0 then None else Some (unat r, fm'))"

definition vmfm_release :: "nat \<Rightarrow> nat \<Rightarrow> vm_area list \<Rightarrow> vm_area list" where
  "vmfm_release a n fm =
     (case VMFreeMap_free True (word_of_nat a) (word_of_nat n) fm of
        None \<Rightarrow> fm
      | Some fm' \<Rightarrow> fm')"

definition vmfm_valid :: "nat \<Rightarrow> bool" where
  "vmfm_valid n \<longleftrightarrow> 0 < n \<and> n < 2 ^ 32 \<and> n mod 4096 = 0"

definition vmfm_space :: "nat set" where
  "vmfm_space = {1..<2 ^ 32 - 1}"

definition vmfm_ok :: "vm_area list \<Rightarrow> bool" where
  "vmfm_ok fm \<longleftrightarrow> vmfm_inv fm \<and> 0 \<notin> free_set fm"

lemma free_set_bound: "vmfm_inv fm \<Longrightarrow> x \<in> free_set fm \<Longrightarrow> x < 2 ^ 32 - 1"
  by (induction fm) (auto simp: area_ok_def area_range_def)

lemma vmfm_valid_word:
  assumes "vmfm_valid n"
  shows "unat (word_of_nat n :: u32) = n" and "(word_of_nat n :: u32) AND 0xFFF = 0"
    and "0 < (word_of_nat n :: u32)"
proof -
  show *: "unat (word_of_nat n :: u32) = n"
    using assms by (simp add: vmfm_valid_def unat_of_nat_u32)
  show "(word_of_nat n :: u32) AND 0xFFF = 0"
    using assms by (simp add: page_aligned_iff * vmfm_valid_def)
  show "0 < (word_of_nat n :: u32)"
    using assms by (simp add: word_less_unat * vmfm_valid_def)
qed

lemma VMFreeMap_take_ok:
  assumes ok: "vmfm_ok fm" and pos: "0 < sz" and run: "VMFreeMap_take sz fm = (r, fm')"
    and fits: "\<not> (\<forall>a\<in>set fm. va_size a < sz)"
  shows "r \<noteq> 0" and "vmfm_ok fm'" and "vm_range r sz \<subseteq> free_set fm"
    and "free_set fm' = free_set fm - vm_range r sz"
proof -
  have "\<exists>a\<in>set fm. sz \<le> va_size a" using fits by (auto simp: not_less)
  note take = VMFreeMap_take_some [OF _ this pos run]
  show "vmfm_ok fm'" and sub: "vm_range r sz \<subseteq> free_set fm"
    and "free_set fm' = free_set fm - vm_range r sz"
    using take ok unfolding vmfm_ok_def by auto
  have "unat r \<in> vm_range r sz" using pos by (simp add: word_less_unat)
  then show "r \<noteq> 0" using sub ok unfolding vmfm_ok_def by (metis subsetD unat_0)
qed

lemma vmfm_alloc_some:
  assumes ok: "vmfm_ok fm" and n: "vmfm_valid n" and run: "vmfm_alloc n fm = Some (a, fm')"
  shows "vmfm_ok fm' \<and> rng (a, n) \<subseteq> free_set fm \<and> free_set fm' = free_set fm - rng (a, n)"
proof -
  note w = vmfm_valid_word [OF n]
  obtain r where r: "VMFreeMap_take (word_of_nat n) fm = (r, fm')" "r \<noteq> 0" "a = unat r"
    using run w by (auto simp: vmfm_alloc_def VMFreeMap_allocate_def split: if_splits prod.splits)
  then have "\<not> (\<forall>b\<in>set fm. va_size b < word_of_nat n)"
    using VMFreeMap_take_none [of fm "word_of_nat n"] by auto
  note take = VMFreeMap_take_ok [OF ok w(3) r(1) this]
  show ?thesis
    using take r(3) w(1) by (auto simp: rng_def)
qed

lemma vmfm_release_some:
  assumes ok: "vmfm_ok fm" and n: "vmfm_valid n" and sp: "rng (a, n) \<subseteq> vmfm_space"
    and dis: "rng (a, n) \<inter> free_set fm = {}"
  shows "vmfm_ok (vmfm_release a n fm) \<and>
    free_set (vmfm_release a n fm) = free_set fm \<union> rng (a, n)"
proof -
  note w = vmfm_valid_word [OF n]
  have "0 < n" using n by (simp add: vmfm_valid_def)
  then have a: "0 < a" "a + n < 2 ^ 32"
    using sp by (auto simp: rng_def vmfm_space_def subset_iff dest: spec [of _ "a + n - 1"])
  then have wa: "unat (word_of_nat a :: u32) = a" by (simp add: unat_of_nat_u32)
  have rel: "vmfm_release a n fm = VMFreeMap_put True (word_of_nat a) (word_of_nat n) None fm"
    using w(2) by (simp add: vmfm_release_def VMFreeMap_free_def)
  show ?thesis
    unfolding rel
    using VMFreeMap_put_correct [of None fm "word_of_nat a" "word_of_nat n"] ok a dis wa w(1) \<open>0 < n\<close>
    by (auto simp: vmfm_ok_def vm_range_ok_def rng_def Int_commute)
qed

interpretation vmfm: range_manager vmfm_ok free_set vmfm_space vmfm_valid vmfm_alloc vmfm_release
proof unfold_locales
  fix fm :: "vm_area list"
  assume ok: "vmfm_ok fm"
  show "free_set fm \<subseteq> vmfm_space"
  proof
    fix x
    assume x: "x \<in> free_set fm"
    have "x < 2 ^ 32 - 1" using ok x free_set_bound unfolding vmfm_ok_def by blast
    moreover have "x \<noteq> 0" using ok x unfolding vmfm_ok_def by metis
    ultimately show "x \<in> vmfm_space" by (simp add: vmfm_space_def)
  qed
qed (use vmfm_alloc_some vmfm_release_some in blast)+

section \<open>Properties\<close>

lemma free_set_card: "vmfm_inv as \<Longrightarrow> card (free_set as) = sum_list (map (unat \<circ> va_size) as)"
proof (induction as)
  case (Cons a as)
  have "finite (free_set as)" by (auto simp: free_set_def area_range_def)
  moreover have "card (area_range a) = unat (va_size a)"
    by (simp add: area_range_def area_end_def)
  ultimately show ?case
    using Cons vmfm_inv_disjoint [OF Cons.prems] by (simp add: card_Un_disjoint area_range_def)
qed simp

lemma getSize_sum: "VMFreeMap_getSize t c as =
  (t + word_of_nat (sum_list (map (unat \<circ> va_size) as)), c + word_of_nat (length as))"
  by (induction as arbitrary: t c) (simp_all add: add.assoc)

text \<open>
  C4: On a well-formed map, \<^verbatim>\<open>allocate\<close> either finds no area of the requested size, and then
  returns 0 and leaves the map alone, or it returns the start of a range that was free, the
  free addresses afterwards are exactly the others, and the map stays well formed.
\<close>

theorem VMFreeMap_allocate_correct:
  assumes "vmfm_ok fm" and "sz AND 0xFFF = 0" and "0 < sz"
  shows "\<exists>r fm'. VMFreeMap_allocate sz fm = Some (r, fm') \<and>
    (if \<forall>a\<in>set fm. va_size a < sz then r = 0 \<and> fm' = fm
     else r \<noteq> 0 \<and> vmfm_ok fm' \<and> vm_range r sz \<subseteq> free_set fm \<and>
          free_set fm' = free_set fm - vm_range r sz)"
proof -
  obtain r fm' where run: "VMFreeMap_take sz fm = (r, fm')" by fastforce
  have "VMFreeMap_allocate sz fm = Some (r, fm')"
    using assms(2) run by (simp add: VMFreeMap_allocate_def)
  moreover note VMFreeMap_take_ok [OF assms(1,3) run]
  ultimately show ?thesis
    using VMFreeMap_take_none [of fm sz] run by auto
qed

theorem VMFreeMap_allocate_correct_witness:
  "\<exists>r fm'. VMFreeMap_allocate 0x2000
      [\<lparr>va_addr = 0x1000, va_size = 0x1000\<rparr>, \<lparr>va_addr = 0x4000, va_size = 0x3000\<rparr>] = Some (r, fm') \<and>
     r \<noteq> 0 \<and> vmfm_ok fm'"
  using VMFreeMap_allocate_correct [of
      "[\<lparr>va_addr = 0x1000, va_size = 0x1000\<rparr>, \<lparr>va_addr = 0x4000, va_size = 0x3000\<rparr>]" "0x2000"]
  by (simp add: vmfm_ok_def area_ok_def area_end_def area_range_def) auto



text \<open>
  C29: \<^verbatim>\<open>allocateAt\<close> with a range that lies inside a free area takes exactly this range out of
  the map and reports success, whether the range is the whole area, its beginning, its end or
  its middle.
\<close>

theorem VMFreeMap_allocateAt_correct:
  assumes "vmfm_inv fm" and "vm_range_ok addr sz" and "a \<in> set fm"
    and "vm_range addr sz \<subseteq> area_range a"
  shows "\<exists>fm'. VMFreeMap_allocateAt True addr sz fm = (True, fm') \<and> vmfm_inv fm' \<and>
    free_set fm' = free_set fm - vm_range addr sz"
  using VMFreeMap_takeAt_correct [OF assms, of False]
  by (cases "VMFreeMap_takeAt True addr sz False fm") (auto simp: VMFreeMap_allocateAt_def)

theorem VMFreeMap_allocateAt_correct_witness:
  "\<exists>fm'. VMFreeMap_allocateAt True 0x5000 0x1000
      [\<lparr>va_addr = 0x1000, va_size = 0x1000\<rparr>, \<lparr>va_addr = 0x4000, va_size = 0x3000\<rparr>] = (True, fm') \<and>
     vmfm_inv fm'"
  using VMFreeMap_allocateAt_correct [of
      "[\<lparr>va_addr = 0x1000, va_size = 0x1000\<rparr>, \<lparr>va_addr = 0x4000, va_size = 0x3000\<rparr>]" "0x5000"
      "0x1000" "\<lparr>va_addr = 0x4000, va_size = 0x3000\<rparr>"]
  by (auto simp: vm_range_ok_def area_ok_def area_end_def area_range_def)



text \<open>
  C5: \<^verbatim>\<open>getSize\<close> reports the number of free addresses and the number of areas.
\<close>

theorem VMFreeMap_getSize_correct:
  assumes "vmfm_inv fm"
  shows "VMFreeMap_getSize 0 0 fm = (word_of_nat (card (free_set fm)), word_of_nat (length fm))"
  using assms by (simp add: getSize_sum free_set_card)

theorem VMFreeMap_getSize_correct_witness:
  "VMFreeMap_getSize 0 0 [\<lparr>va_addr = 0x1000, va_size = 0x1000\<rparr>] =
   (word_of_nat (card (free_set [\<lparr>va_addr = 0x1000, va_size = 0x1000\<rparr>])), 1)"
  using VMFreeMap_getSize_correct [of "[\<lparr>va_addr = 0x1000, va_size = 0x1000\<rparr>]"]
  by (simp add: area_ok_def area_end_def)

lemma allocateAt_gap_wraps:
  assumes "vmfm_inv (a # b # bs)" and "area_end a < unat addr"
    and hi: "unat addr + unat sz \<le> unat (va_addr b)" and pos: "0 < sz"
  shows "VMFreeMap_allocateAt True addr sz (a # b # bs) =
      (True, a # \<lparr>va_addr = va_addr b, va_size = addr - va_addr b\<rparr> #
        b\<lparr>va_addr := addr + sz, va_size := va_size b - (addr - va_addr b + sz)\<rparr> # bs)"
    and "\<not> area_ok \<lparr>va_addr = va_addr b, va_size = addr - va_addr b\<rparr>"
proof -
  have ok: "area_ok a" "area_ok b" using assms(1) by auto
  have sz: "0 < unat sz" using pos by (simp add: word_less_unat)
  have "vm_range_ok addr sz"
    using hi sz ok(2) by (auto simp: vm_range_ok_def area_ok_def area_end_def)
  then have ends: "unat (va_addr a + va_size a) = area_end a"
    "unat (va_addr b + va_size b) = area_end b" "unat (addr + sz) = unat addr + unat sz"
    using ok area_ok_word_end vm_range_word_end by auto
  have b: "unat (va_addr b) < area_end b" using ok(2) by (simp add: area_ok_def area_end_def)
  have tests: "addr > va_addr a + va_size a" "\<not> addr > va_addr b + va_size b"
    "\<not> addr + sz > va_addr b + va_size b" "addr \<noteq> va_addr b" "addr + sz \<noteq> va_addr b + va_size b"
    using ends assms(2) hi b sz by (auto simp: unat_order)
  then show "VMFreeMap_allocateAt True addr sz (a # b # bs) =
      (True, a # \<lparr>va_addr = va_addr b, va_size = addr - va_addr b\<rparr> #
        b\<lparr>va_addr := addr + sz, va_size := va_size b - (addr - va_addr b + sz)\<rparr> # bs)"
    by (simp add: VMFreeMap_allocateAt_def Let_def)
  have "unat (va_addr b) + unat (addr - va_addr b) \<ge> 2 ^ 32"
    using hi sz unat_sub_if_size [of addr "va_addr b"] by (simp add: word_size)
  then show "\<not> area_ok \<lparr>va_addr = va_addr b, va_size = addr - va_addr b\<rparr>"
    by (simp add: area_ok_def area_end_def)
qed

text \<open>
  C5: The guard of \<^verbatim>\<open>allocateAt\<close> does not see a range that lies in the used gap between two
  areas: it looks at the start of the found area only when there is no previous one. The call
  reports success for a range of which no address is free, and the map it leaves is not well
  formed, since the size \<^verbatim>\<open>addr - a->addr\<close> of the node it adds has wrapped around.
\<close>

theorem VMFreeMap_allocateAt_gap:
  assumes inv: "vmfm_inv (a # b # bs)" and lo: "area_end a < unat addr"
    and hi: "unat addr + unat sz \<le> unat (va_addr b)" and pos: "0 < sz"
  shows "\<exists>fm'. VMFreeMap_allocateAt True addr sz (a # b # bs) = (True, fm') \<and> \<not> vmfm_inv fm' \<and>
    vm_range addr sz \<inter> free_set (a # b # bs) = {}"
proof -
  have "vmfm_inv (b # bs)" using inv by simp
  then have "vm_range addr sz \<inter> free_set (a # b # bs) = {}"
    using lo hi vmfm_inv_head(2) [of b bs] by (fastforce simp: area_range_def)
  then show ?thesis
    using allocateAt_gap_wraps [OF assms] by auto
qed

theorem VMFreeMap_allocateAt_gap_witness:
  "\<exists>fm'. VMFreeMap_allocateAt True 0x3000 0x1000
      [\<lparr>va_addr = 0x1000, va_size = 0x1000\<rparr>, \<lparr>va_addr = 0x5000, va_size = 0x1000\<rparr>] = (True, fm') \<and>
     \<not> vmfm_inv fm'"
  using VMFreeMap_allocateAt_gap [of "\<lparr>va_addr = 0x1000, va_size = 0x1000\<rparr>"
      "\<lparr>va_addr = 0x5000, va_size = 0x1000\<rparr>" "[]" "0x3000" "0x1000"]
  by (auto simp: area_ok_def area_end_def area_range_def)

end
