(* ===== verification/Linked_Lists.thy ===== *)
theory Linked_Lists
  imports Esc_Prelude
begin

text \<open>
  The intrusive linked lists of the kernel (\<^verbatim>\<open>include/esc/col/dlist.h\<close> and \<^verbatim>\<open>slist.h\<close>). The
  links are fields of the items, so all lists whose items are of one class share one store of
  links. An item is a reference, a null pointer is \<^term>\<open>None\<close>, and an operation that follows a
  null pointer returns \<^term>\<open>None\<close>. The length counts items in memory and cannot wrap around.

  The lists refine HOL lists: \<open>dl_rep\<close> and \<open>sl_rep\<close> relate the links and the head and tail
  pointers to the sequence of items. The contract of both, with the frame condition for other
  lists in the same store, is the locale \<open>item_queue\<close>.
\<close>

section \<open>Links and list heads\<close>

record links =
  l_next :: "ref \<Rightarrow> ref option"
  l_prev :: "ref \<Rightarrow> ref option"

record lhead =
  l_head :: "ref option"
  l_tail :: "ref option"
  l_len :: nat

definition set_next :: "ref \<Rightarrow> ref option \<Rightarrow> links \<Rightarrow> links" where
  "set_next e n st = st\<lparr>l_next := (l_next st)(e := n)\<rparr>"

definition set_prev :: "ref \<Rightarrow> ref option \<Rightarrow> links \<Rightarrow> links" where
  "set_prev e p st = st\<lparr>l_prev := (l_prev st)(e := p)\<rparr>"

definition list_clear :: "lhead \<Rightarrow> lhead" where
  "list_clear l = \<lparr>l_head = None, l_tail = None, l_len = 0\<rparr>"

section \<open>The doubly linked list\<close>

definition DList_prepend :: "ref \<Rightarrow> links \<Rightarrow> lhead \<Rightarrow> links \<times> lhead" where
  "DList_prepend e st l =
     (let st = set_prev e None st;
          st = set_next e (l_head l) st;
          st = (case l_head l of None \<Rightarrow> st | Some h \<Rightarrow> set_prev h (Some e) st);
          l = (if l_tail l = None then l\<lparr>l_tail := Some e\<rparr> else l)
      in (st, l\<lparr>l_head := Some e, l_len := l_len l + 1\<rparr>))"

definition DList_append :: "ref \<Rightarrow> links \<Rightarrow> lhead \<Rightarrow> (links \<times> lhead) option" where
  "DList_append e st l =
     do {
       (st, l) \<leftarrow> (if l_head l = None then Some (st, l\<lparr>l_head := Some e\<rparr>)
                  else case l_tail l of
                         None \<Rightarrow> None
                       | Some t \<Rightarrow> Some (set_next t (Some e) st, l));
       let st = set_prev e (l_tail l) st;
       let st = set_next e None st;
       Some (st, l\<lparr>l_tail := Some e, l_len := l_len l + 1\<rparr>)
     }"

definition DList_removeFirst :: "links \<Rightarrow> lhead \<Rightarrow> ref option \<times> links \<times> lhead" where
  "DList_removeFirst st l =
     (case l_head l of
        None \<Rightarrow> (None, st, l)
      | Some first \<Rightarrow>
          (let h = l_next st first;
               l = l\<lparr>l_head := h\<rparr>;
               st = (case h of None \<Rightarrow> st | Some h \<Rightarrow> set_prev h None st);
               l = (if l_tail l = Some first then l\<lparr>l_tail := None\<rparr> else l)
           in (Some first, st, l\<lparr>l_len := l_len l - 1\<rparr>)))"

definition DList_remove :: "ref \<Rightarrow> links \<Rightarrow> lhead \<Rightarrow> links \<times> lhead" where
  "DList_remove e st l =
     (let st = (case l_prev st e of None \<Rightarrow> st | Some p \<Rightarrow> set_next p (l_next st e) st);
          st = (case l_next st e of None \<Rightarrow> st | Some n \<Rightarrow> set_prev n (l_prev st e) st);
          l = (if l_head l = Some e then l\<lparr>l_head := l_next st e\<rparr> else l);
          l = (if l_tail l = Some e then l\<lparr>l_tail := l_prev st e\<rparr> else l)
      in (st, l\<lparr>l_len := l_len l - 1\<rparr>))"

section \<open>The singly linked list\<close>

definition SList_append :: "ref \<Rightarrow> links \<Rightarrow> lhead \<Rightarrow> (links \<times> lhead) option" where
  "SList_append e st l =
     do {
       (st, l) \<leftarrow> (if l_head l = None then Some (st, l\<lparr>l_head := Some e\<rparr>)
                  else case l_tail l of
                         None \<Rightarrow> None
                       | Some t \<Rightarrow> Some (set_next t (Some e) st, l));
       let l = l\<lparr>l_tail := Some e\<rparr>;
       let st = set_next e None st;
       Some (st, l\<lparr>l_len := l_len l + 1\<rparr>)
     }"

definition SList_insert :: "ref option \<Rightarrow> ref \<Rightarrow> links \<Rightarrow> lhead \<Rightarrow> links \<times> lhead" where
  "SList_insert p e st l =
     (let st = set_next e (case p of Some p \<Rightarrow> l_next st p | None \<Rightarrow> l_head l) st;
          (st, l) = (case p of Some p \<Rightarrow> (set_next p (Some e) st, l)
                     | None \<Rightarrow> (st, l\<lparr>l_head := Some e\<rparr>));
          l = (if l_next st e = None then l\<lparr>l_tail := Some e\<rparr> else l)
      in (st, l\<lparr>l_len := l_len l + 1\<rparr>))"

definition SList_removeAt :: "ref option \<Rightarrow> ref \<Rightarrow> links \<Rightarrow> lhead \<Rightarrow> links \<times> lhead" where
  "SList_removeAt p e st l =
     (let (st, l) = (case p of Some p \<Rightarrow> (set_next p (l_next st e) st, l)
                     | None \<Rightarrow> (st, l\<lparr>l_head := l_next st e\<rparr>));
          l = (if l_next st e = None then l\<lparr>l_tail := p\<rparr> else l)
      in (st, l\<lparr>l_len := l_len l - 1\<rparr>))"

text \<open>
  The search of \<^verbatim>\<open>remove\<close> walks the links from \<open>t\<close>, with \<open>p\<close> behind it, until it meets \<open>e\<close> or
  the end. A cycle in the links would make it run forever; the fuel bounds the number of steps,
  and \<open>None\<close> is running out of it.
\<close>

fun SList_find :: "nat \<Rightarrow> ref \<Rightarrow> links \<Rightarrow> ref option \<Rightarrow> ref option \<Rightarrow> (ref option \<times> ref option) option" where
  "SList_find 0 e st p t = None"
| "SList_find (Suc fuel) e st p t =
     (case t of
        None \<Rightarrow> Some (p, None)
      | Some x \<Rightarrow> if x = e then Some (p, Some x) else SList_find fuel e st (Some x) (l_next st x))"

definition SList_remove :: "nat \<Rightarrow> ref \<Rightarrow> links \<Rightarrow> lhead \<Rightarrow> (bool \<times> links \<times> lhead) option" where
  "SList_remove fuel e st l =
     do {
       (p, t) \<leftarrow> SList_find fuel e st None (l_head l);
       if t = None then Some (False, st, l)
       else let (st, l) = SList_removeAt p e st l in Some (True, st, l)
     }"

text \<open>
  \<^verbatim>\<open>removeFirst\<close> tests the length, not the head: on a list whose length is positive and whose
  head is null it follows the null pointer.
\<close>

definition SList_removeFirst :: "links \<Rightarrow> lhead \<Rightarrow> (ref option \<times> links \<times> lhead) option" where
  "SList_removeFirst st l =
     (if l_len l = 0 then Some (None, st, l)
      else case l_head l of
             None \<Rightarrow> None
           | Some res \<Rightarrow> let (st, l) = SList_removeAt None res st l in Some (Some res, st, l))"

section \<open>Segments of links\<close>

abbreviation first_or :: "ref list \<Rightarrow> ref option \<Rightarrow> ref option" where
  "first_or xs n \<equiv> (case xs of [] \<Rightarrow> n | x # _ \<Rightarrow> Some x)"

abbreviation last_or :: "ref option \<Rightarrow> ref list \<Rightarrow> ref option" where
  "last_or p xs \<equiv> (if xs = [] then p else Some (last xs))"

lemma first_or_append [simp]: "xs \<noteq> [] \<Longrightarrow> first_or (xs @ ys) n = first_or xs n"
  by (cases xs) auto

fun nseg :: "links \<Rightarrow> ref list \<Rightarrow> ref option \<Rightarrow> bool" where
  "nseg st [] n = True"
| "nseg st (x # xs) n = (l_next st x = first_or xs n \<and> nseg st xs n)"

fun pseg :: "links \<Rightarrow> ref option \<Rightarrow> ref list \<Rightarrow> bool" where
  "pseg st p [] = True"
| "pseg st p (x # xs) = (l_prev st x = p \<and> pseg st (Some x) xs)"

definition sl_rep :: "links \<Rightarrow> lhead \<Rightarrow> ref list \<Rightarrow> bool" where
  "sl_rep st l xs \<longleftrightarrow> distinct xs \<and> nseg st xs None \<and>
     l_head l = first_or xs None \<and> l_tail l = last_or None xs \<and> l_len l = length xs"

definition dl_rep :: "links \<Rightarrow> lhead \<Rightarrow> ref list \<Rightarrow> bool" where
  "dl_rep st l xs \<longleftrightarrow> sl_rep st l xs \<and> pseg st None xs"

lemma links_upd_simps [simp]:
  "l_next (set_next e n st) = (l_next st)(e := n)" "l_prev (set_next e n st) = l_prev st"
  "l_prev (set_prev e p st) = (l_prev st)(e := p)" "l_next (set_prev e p st) = l_next st"
  by (simp_all add: set_next_def set_prev_def)

lemma nseg_append: "nseg st (xs @ ys) n \<longleftrightarrow> nseg st xs (first_or ys n) \<and> nseg st ys n"
  by (induction xs) (auto split: list.splits)

lemma pseg_append: "pseg st p (xs @ ys) \<longleftrightarrow> pseg st p xs \<and> pseg st (last_or p xs) ys"
  by (induction xs arbitrary: p) auto

lemma nseg_cong: "(\<And>x. x \<in> set xs \<Longrightarrow> l_next st' x = l_next st x) \<Longrightarrow> nseg st' xs n = nseg st xs n"
  by (induction xs) auto

lemma pseg_cong: "(\<And>x. x \<in> set xs \<Longrightarrow> l_prev st' x = l_prev st x) \<Longrightarrow> pseg st' p xs = pseg st p xs"
  by (induction xs arbitrary: p) auto

lemma nseg_frame [simp]: "e \<notin> set xs \<Longrightarrow> nseg (set_next e m st) xs n = nseg st xs n"
  by (rule nseg_cong) auto

lemma pseg_frame [simp]: "e \<notin> set xs \<Longrightarrow> pseg (set_prev e q st) p xs = pseg st p xs"
  by (rule pseg_cong) auto

lemma seg_other [simp]:
  "nseg (set_prev e q st) xs n = nseg st xs n" "pseg (set_next e m st) p xs = pseg st p xs"
  by (rule nseg_cong, simp) (rule pseg_cong, simp)

text \<open>Redirecting the last link of a segment.\<close>

lemma nseg_snoc: "nseg st (xs @ [x]) n \<longleftrightarrow> nseg st xs (Some x) \<and> l_next st x = n"
  by (simp add: nseg_append)

lemma nseg_redirect:
  assumes "nseg st xs n" "distinct xs" "xs \<noteq> []"
  shows "nseg (set_next (last xs) m st) xs m"
proof -
  obtain ys y where xs: "xs = ys @ [y]" using assms(3) by (cases xs rule: rev_cases) auto
  then show ?thesis using assms(1,2) by (simp add: nseg_snoc)
qed

lemma pseg_redirect:
  assumes "pseg st p (x # xs)" "x \<notin> set xs"
  shows "pseg (set_prev x q st) q (x # xs)"
  using assms by simp

section \<open>Refinement to sequences\<close>

text \<open>What an operation may touch: the links of the items in the list and of its argument.\<close>

definition links_same :: "ref set \<Rightarrow> links \<Rightarrow> links \<Rightarrow> bool" where
  "links_same S st st' \<longleftrightarrow>
     (\<forall>x. x \<notin> S \<longrightarrow> l_next st' x = l_next st x \<and> l_prev st' x = l_prev st x)"

lemma links_same_frame:
  assumes "links_same S st st'" "set ys \<inter> S = {}"
  shows "sl_rep st' l ys = sl_rep st l ys" and "dl_rep st' l ys = dl_rep st l ys"
proof -
  have same: "l_next st' x = l_next st x" "l_prev st' x = l_prev st x" if "x \<in> set ys" for x
    using assms that by (auto simp: links_same_def disjoint_iff)
  have "nseg st' ys n = nseg st ys n" for n by (rule nseg_cong) (rule same(1))
  moreover have "pseg st' p ys = pseg st p ys" for p by (rule pseg_cong) (rule same(2))
  ultimately show "sl_rep st' l ys = sl_rep st l ys" "dl_rep st' l ys = dl_rep st l ys"
    by (auto simp: sl_rep_def dl_rep_def)
qed

lemma sl_rep_clear: "sl_rep st (list_clear l) []" and dl_rep_clear: "dl_rep st (list_clear l) []"
  by (simp_all add: sl_rep_def dl_rep_def list_clear_def)

lemma DList_append_rep:
  assumes "dl_rep st l xs" "e \<notin> set xs"
  shows "\<exists>st' l'. DList_append e st l = Some (st', l') \<and> dl_rep st' l' (xs @ [e]) \<and>
    links_same (insert e (set xs)) st st'"
proof (cases "xs = []")
  case True
  then show ?thesis
    using assms by (auto simp: DList_append_def dl_rep_def sl_rep_def links_same_def)
next
  case False
  then have l: "l_head l \<noteq> None" "l_tail l = Some (last xs)" "l_len l = length xs"
    using assms by (auto simp: dl_rep_def sl_rep_def split: list.splits)
  have "nseg (set_next (last xs) (Some e) st) xs (Some e)"
    using assms(1) False by (auto simp: dl_rep_def sl_rep_def intro: nseg_redirect)
  then show ?thesis
    using assms l False
    by (auto simp: DList_append_def dl_rep_def sl_rep_def nseg_append pseg_append
        links_same_def split: list.splits)
qed

lemma SList_append_rep:
  assumes "sl_rep st l xs" "e \<notin> set xs"
  shows "\<exists>st' l'. SList_append e st l = Some (st', l') \<and> sl_rep st' l' (xs @ [e]) \<and>
    links_same (insert e (set xs)) st st'"
proof (cases "xs = []")
  case True
  then show ?thesis
    using assms by (auto simp: SList_append_def sl_rep_def links_same_def)
next
  case False
  then have l: "l_head l \<noteq> None" "l_tail l = Some (last xs)" "l_len l = length xs"
    using assms by (auto simp: sl_rep_def split: list.splits)
  have "nseg (set_next (last xs) (Some e) st) xs (Some e)"
    using assms(1) False by (auto simp: sl_rep_def intro: nseg_redirect)
  then show ?thesis
    using assms l False
    by (auto simp: SList_append_def sl_rep_def nseg_append links_same_def split: list.splits)
qed

lemma DList_prepend_rep:
  assumes "dl_rep st l xs" "e \<notin> set xs" "DList_prepend e st l = (st', l')"
  shows "dl_rep st' l' (e # xs) \<and> links_same (insert e (set xs)) st st'"
  using assms
  by (cases xs) (auto simp: DList_prepend_def dl_rep_def sl_rep_def links_same_def Let_def)

lemma DList_removeFirst_rep:
  assumes "dl_rep st l (x # xs)" "DList_removeFirst st l = (r, st', l')"
  shows "r = Some x \<and> dl_rep st' l' xs \<and> links_same (set (x # xs)) st st'"
  using assms
  by (cases xs) (auto simp: DList_removeFirst_def dl_rep_def sl_rep_def links_same_def Let_def)

lemma DList_removeFirst_empty: "dl_rep st l [] \<Longrightarrow> DList_removeFirst st l = (None, st, l)"
  by (simp add: DList_removeFirst_def dl_rep_def sl_rep_def)

lemma SList_removeFirst_rep:
  assumes "sl_rep st l (x # xs)"
  shows "\<exists>st' l'. SList_removeFirst st l = Some (Some x, st', l') \<and> sl_rep st' l' xs \<and>
    links_same (set (x # xs)) st st'"
  using assms
  by (cases xs) (auto simp: SList_removeFirst_def SList_removeAt_def sl_rep_def links_same_def Let_def)

lemma SList_removeFirst_empty: "sl_rep st l [] \<Longrightarrow> SList_removeFirst st l = Some (None, st, l)"
  by (simp add: SList_removeFirst_def sl_rep_def)

text \<open>Unlinking an item from the middle: the segments before and behind it are joined.\<close>

lemma nseg_unlink:
  assumes "nseg st (xs @ e # ys) n" "distinct (xs @ e # ys)"
  shows "xs = [] \<Longrightarrow> nseg st ys n"
    and "xs \<noteq> [] \<Longrightarrow> nseg (set_next (last xs) (first_or ys n) st) (xs @ ys) n"
proof -
  show "nseg st ys n" if "xs = []" using assms that by simp
  assume ne: "xs \<noteq> []"
  have "nseg (set_next (last xs) (first_or ys n) st) xs (first_or ys n)"
    using assms ne by (intro nseg_redirect) (auto simp: nseg_append)
  moreover have "last xs \<notin> set ys" using assms(2) last_in_set [OF ne] by auto
  ultimately show "nseg (set_next (last xs) (first_or ys n) st) (xs @ ys) n"
    using assms(1) by (simp add: nseg_append)
qed

lemma pseg_unlink:
  assumes "pseg st p (xs @ e # ys)" "distinct (xs @ e # ys)"
  shows "ys = [] \<Longrightarrow> pseg st p xs"
    and "ys \<noteq> [] \<Longrightarrow> pseg (set_prev (hd ys) (last_or p xs) st) p (xs @ ys)"
  using assms by (auto simp: pseg_append neq_Nil_conv)

lemma dl_rep_split:
  assumes "dl_rep st l (xs @ e # ys)"
  shows "l_prev st e = last_or None xs" "l_next st e = first_or ys None"
    "l_head l = Some e \<longleftrightarrow> xs = []" "l_tail l = Some e \<longleftrightarrow> ys = []"
proof -
  show "l_prev st e = last_or None xs" "l_next st e = first_or ys None"
    using assms by (auto simp: dl_rep_def sl_rep_def nseg_append pseg_append)
  show "l_head l = Some e \<longleftrightarrow> xs = []"
    using assms by (cases xs) (auto simp: dl_rep_def sl_rep_def)
  show "l_tail l = Some e \<longleftrightarrow> ys = []"
    using assms by (cases ys rule: rev_cases) (auto simp: dl_rep_def sl_rep_def)
qed

lemma DList_remove_split:
  assumes rep: "dl_rep st l (xs @ e # ys)" and run: "DList_remove e st l = (st', l')"
  shows "dl_rep st' l' (xs @ ys) \<and> links_same (set (xs @ e # ys)) st st'"
proof -
  note sp = dl_rep_split [OF rep]
  have dis: "distinct (xs @ e # ys)" and n: "nseg st (xs @ e # ys) None"
    and p: "pseg st None (xs @ e # ys)"
    using rep by (auto simp: dl_rep_def sl_rep_def)
  define st1 where "st1 = (if xs = [] then st else set_next (last xs) (first_or ys None) st)"
  define st2 where "st2 = (if ys = [] then st1 else set_prev (hd ys) (last_or None xs) st1)"
  have e1: "l_next st1 e = first_or ys None" "l_prev st1 = l_prev st"
    using dis sp(2) last_in_set [of xs] by (auto simp: st1_def)
  have e2: "l_next st2 = l_next st1" "l_prev st2 e = last_or None xs"
    using dis sp(1) e1(2) by (auto simp: st2_def neq_Nil_conv)
  have st': "st' = st2"
    and l': "l_len l' = l_len l - 1" "l_head l' = (if xs = [] then first_or ys None else l_head l)"
      "l_tail l' = (if ys = [] then last_or None xs else l_tail l)"
    using run sp e1 e2
    by (auto simp: DList_remove_def Let_def st1_def st2_def neq_Nil_conv split: list.splits)
  have "nseg st1 (xs @ ys) None"
    using nseg_unlink [OF n dis] by (auto simp: st1_def)
  then have "nseg st2 (xs @ ys) None" by (auto simp: st2_def)
  moreover have "pseg st1 None (xs @ e # ys)" using p by (auto simp: st1_def)
  then have "pseg st2 None (xs @ ys)"
    using pseg_unlink [OF _ dis] by (auto simp: st2_def)
  moreover have "links_same (set (xs @ e # ys)) st st2"
    using last_in_set [of xs] by (auto simp: links_same_def st1_def st2_def neq_Nil_conv)
  ultimately show ?thesis
    using rep l' dis unfolding st' by (auto simp: dl_rep_def sl_rep_def split: list.splits)
qed

lemma DList_remove_rep:
  assumes "dl_rep st l xs" "e \<in> set xs" "DList_remove e st l = (st', l')"
  shows "dl_rep st' l' (remove1 e xs) \<and> links_same (set xs) st st'"
proof -
  obtain as bs where "xs = as @ e # bs" "e \<notin> set as" using split_list_first [OF assms(2)] by blast
  then show ?thesis
    using DList_remove_split [of st l as e bs] assms(1,3) by (simp add: remove1_append)
qed

lemma SList_find_rep:
  assumes "nseg st xs None" "length xs < fuel"
  shows "SList_find fuel e st p (first_or xs None) =
    Some (if e \<in> set xs then (last_or p (takeWhile (\<lambda>x. x \<noteq> e) xs), Some e) else (last_or p xs, None))"
  using assms
proof (induction xs arbitrary: p fuel)
  case Nil
  then show ?case by (cases fuel) auto
next
  case (Cons x xs)
  then obtain f where "fuel = Suc f" "length xs < f" by (cases fuel) auto
  then show ?case using Cons by auto
qed

lemma SList_removeAt_rep:
  assumes rep: "sl_rep st l (xs @ e # ys)" and run: "SList_removeAt (last_or None xs) e st l = (st', l')"
  shows "sl_rep st' l' (xs @ ys) \<and> links_same (set (xs @ e # ys)) st st'"
proof -
  have dis: "distinct (xs @ e # ys)" and n: "nseg st (xs @ e # ys) None" "l_next st e = first_or ys None"
    using rep by (auto simp: sl_rep_def nseg_append)
  note un = nseg_unlink [OF n(1) dis]
  show ?thesis
  proof (cases "xs = []")
    case True
    then show ?thesis
      using rep run un n(2) by (cases ys) (auto simp: SList_removeAt_def sl_rep_def links_same_def Let_def)
  next
    case False
    then have ne: "e \<noteq> last xs" using dis last_in_set [OF False] by auto
    have st': "st' = set_next (last xs) (first_or ys None) st"
      and l': "l_head l' = l_head l" "l_len l' = l_len l - 1"
        "l_tail l' = (if ys = [] then Some (last xs) else l_tail l)"
      using run False n(2) ne by (auto simp: SList_removeAt_def Let_def neq_Nil_conv split: list.splits)
    then show ?thesis
      using rep un(2) False dis by (auto simp: sl_rep_def links_same_def)
  qed
qed

lemma SList_remove_rep:
  assumes rep: "sl_rep st l xs" and fuel: "length xs < fuel"
  shows "\<exists>st' l'. SList_remove fuel e st l = Some (e \<in> set xs, st', l') \<and>
    sl_rep st' l' (remove1 e xs) \<and> links_same (set xs) st st'"
proof -
  have find: "SList_find fuel e st None (l_head l) =
    Some (if e \<in> set xs then (last_or None (takeWhile (\<lambda>x. x \<noteq> e) xs), Some e) else (last_or None xs, None))"
    using SList_find_rep [OF _ fuel] rep by (auto simp: sl_rep_def)
  show ?thesis
  proof (cases "e \<in> set xs")
    case False
    then show ?thesis
      using find rep by (auto simp: SList_remove_def remove1_idem links_same_def)
  next
    case True
    then obtain as bs where xs: "xs = as @ e # bs" "e \<notin> set as"
      using split_list_first [OF True] by blast
    then have "takeWhile (\<lambda>x. x \<noteq> e) xs = as" by (auto simp: takeWhile_append)
    moreover obtain st' l' where "SList_removeAt (last_or None as) e st l = (st', l')" by fastforce
    ultimately show ?thesis
      using find xs SList_removeAt_rep [of st l as e bs] rep True
      by (auto simp: SList_remove_def remove1_append)
  qed
qed

lemma SList_insert_rep:
  assumes rep: "sl_rep st l (xs @ ys)" and e: "e \<notin> set (xs @ ys)"
    and run: "SList_insert (last_or None xs) e st l = (st', l')"
  shows "sl_rep st' l' (xs @ e # ys) \<and> links_same (insert e (set (xs @ ys))) st st'"
proof (cases "xs = []")
  case True
  then show ?thesis
    using assms by (cases ys) (auto simp: SList_insert_def sl_rep_def links_same_def Let_def)
next
  case False
  have nx: "nseg st xs (first_or ys None)" "nseg st ys None" "distinct xs" "l_next st (last xs) = first_or ys None"
  proof -
    show "nseg st xs (first_or ys None)" "nseg st ys None" "distinct xs"
      using rep by (auto simp: sl_rep_def nseg_append)
    then show "l_next st (last xs) = first_or ys None"
      using False by (metis append_butlast_last_id nseg_snoc)
  qed
  have "nseg (set_next (last xs) (Some e) st) xs (Some e)"
    using nx False by (intro nseg_redirect) auto
  moreover have ne: "last xs \<notin> set ys" "last xs \<noteq> e"
    using rep e last_in_set [OF False] by (auto simp: sl_rep_def)
  moreover have st': "st' = set_next (last xs) (Some e) (set_next e (first_or ys None) st)"
    and l': "l_head l' = l_head l" "l_len l' = l_len l + 1"
      "l_tail l' = (if ys = [] then Some e else l_tail l)"
    using run False nx(4) ne(2) by (auto simp: SList_insert_def Let_def neq_Nil_conv split: list.splits)
  moreover have "nseg st' xs (Some e)"
    unfolding st' using nx(1,3) e False by (intro nseg_redirect) auto
  ultimately show ?thesis
    using rep e False nx
    by (auto simp: sl_rep_def links_same_def nseg_append)
qed

section \<open>The contract of an item queue\<close>

text \<open>
  What the scheduler, the semaphores and the other users of the lists do with them, once on
  the links and once on a sequence. The sequence run is \<^term>\<open>None\<close> when the user breaks the
  contract: it must not add an item that is in the list, nor remove one that is not.
\<close>

datatype item_op = Append ref | RemoveFirst | Remove ref

fun item_run ::
  "(ref \<Rightarrow> links \<Rightarrow> lhead \<Rightarrow> (links \<times> lhead) option) \<Rightarrow>
   (links \<Rightarrow> lhead \<Rightarrow> (ref option \<times> links \<times> lhead) option) \<Rightarrow>
   (ref \<Rightarrow> links \<Rightarrow> lhead \<Rightarrow> (links \<times> lhead) option) \<Rightarrow>
   item_op list \<Rightarrow> links \<Rightarrow> lhead \<Rightarrow> (ref option list \<times> links \<times> lhead) option" where
  "item_run app rf rm [] st l = Some ([], st, l)"
| "item_run app rf rm (Append e # ops) st l =
     do { (st, l) \<leftarrow> app e st l; item_run app rf rm ops st l }"
| "item_run app rf rm (RemoveFirst # ops) st l =
     do { (r, st, l) \<leftarrow> rf st l; (rs, st, l) \<leftarrow> item_run app rf rm ops st l; Some (r # rs, st, l) }"
| "item_run app rf rm (Remove e # ops) st l =
     do { (st, l) \<leftarrow> rm e st l; item_run app rf rm ops st l }"

fun seq_run :: "item_op list \<Rightarrow> ref list \<Rightarrow> (ref option list \<times> ref list) option" where
  "seq_run [] xs = Some ([], xs)"
| "seq_run (Append e # ops) xs = (if e \<in> set xs then None else seq_run ops (xs @ [e]))"
| "seq_run (RemoveFirst # ops) xs =
     do { (rs, ys) \<leftarrow> seq_run ops (tl xs); Some (first_or xs None # rs, ys) }"
| "seq_run (Remove e # ops) xs = (if e \<in> set xs then seq_run ops (remove1 e xs) else None)"

fun op_items :: "item_op list \<Rightarrow> ref set" where
  "op_items [] = {}"
| "op_items (Append e # ops) = insert e (op_items ops)"
| "op_items (RemoveFirst # ops) = op_items ops"
| "op_items (Remove e # ops) = op_items ops"

lemma links_same_refl: "links_same S st st"
  by (simp add: links_same_def)

lemma links_same_trans:
  "links_same S st st1 \<Longrightarrow> links_same T st1 st2 \<Longrightarrow> S \<subseteq> U \<Longrightarrow> T \<subseteq> U \<Longrightarrow> links_same U st st2"
  unfolding links_same_def by (metis subsetD)

locale item_queue =
  fixes rep :: "links \<Rightarrow> lhead \<Rightarrow> ref list \<Rightarrow> bool"
    and app :: "ref \<Rightarrow> links \<Rightarrow> lhead \<Rightarrow> (links \<times> lhead) option"
    and rf :: "links \<Rightarrow> lhead \<Rightarrow> (ref option \<times> links \<times> lhead) option"
    and rm :: "ref \<Rightarrow> links \<Rightarrow> lhead \<Rightarrow> (links \<times> lhead) option"
  assumes app: "rep st l xs \<Longrightarrow> e \<notin> set xs \<Longrightarrow>
      \<exists>st' l'. app e st l = Some (st', l') \<and> rep st' l' (xs @ [e]) \<and>
        links_same (insert e (set xs)) st st'"
    and rf: "rep st l xs \<Longrightarrow>
      \<exists>st' l'. rf st l = Some (first_or xs None, st', l') \<and> rep st' l' (tl xs) \<and>
        links_same (set xs) st st'"
    and rm: "rep st l xs \<Longrightarrow> e \<in> set xs \<Longrightarrow>
      \<exists>st' l'. rm e st l = Some (st', l') \<and> rep st' l' (remove1 e xs) \<and> links_same (set xs) st st'"
begin

lemma simulation:
  assumes "rep st l xs" "seq_run ops xs = Some (rs, ys)"
  shows "\<exists>st' l'. item_run app rf rm ops st l = Some (rs, st', l') \<and> rep st' l' ys \<and>
    links_same (set xs \<union> op_items ops) st st'"
  using assms
proof (induction ops arbitrary: st l xs rs)
  case Nil
  then show ?case by (auto simp: links_same_refl)
next
  case (Cons op ops)
  show ?case
  proof (cases op)
    case (Append e)
    then have e: "e \<notin> set xs" "seq_run ops (xs @ [e]) = Some (rs, ys)"
      using Cons.prems(2) by (auto split: if_splits)
    obtain st1 l1 where s1: "app e st l = Some (st1, l1)" "rep st1 l1 (xs @ [e])"
      "links_same (insert e (set xs)) st st1"
      using app [OF Cons.prems(1) e(1)] by blast
    obtain st2 l2 where "item_run app rf rm ops st1 l1 = Some (rs, st2, l2)" "rep st2 l2 ys"
      "links_same (set (xs @ [e]) \<union> op_items ops) st1 st2"
      using Cons.IH [OF s1(2) e(2)] by blast
    then show ?thesis
      using s1 Append links_same_trans [OF s1(3), of "set (xs @ [e]) \<union> op_items ops" st2] by auto
  next
    case RemoveFirst
    then obtain rs' where r: "rs = first_or xs None # rs'" "seq_run ops (tl xs) = Some (rs', ys)"
      using Cons.prems(2) by (auto split: bind_splits)
    obtain st1 l1 where s1: "rf st l = Some (first_or xs None, st1, l1)" "rep st1 l1 (tl xs)"
      "links_same (set xs) st st1"
      using rf [OF Cons.prems(1)] by blast
    obtain st2 l2 where "item_run app rf rm ops st1 l1 = Some (rs', st2, l2)" "rep st2 l2 ys"
      "links_same (set (tl xs) \<union> op_items ops) st1 st2"
      using Cons.IH [OF s1(2) r(2)] by blast
    moreover have "set (tl xs) \<subseteq> set xs" by (cases xs) auto
    ultimately show ?thesis
      using s1 RemoveFirst r
        links_same_trans [OF s1(3), of "set (tl xs) \<union> op_items ops" st2 "set xs \<union> op_items ops"]
      by auto
  next
    case (Remove e)
    then have e: "e \<in> set xs" "seq_run ops (remove1 e xs) = Some (rs, ys)"
      using Cons.prems(2) by (auto split: if_splits)
    obtain st1 l1 where s1: "rm e st l = Some (st1, l1)" "rep st1 l1 (remove1 e xs)"
      "links_same (set xs) st st1"
      using rm [OF Cons.prems(1) e(1)] by blast
    obtain st2 l2 where "item_run app rf rm ops st1 l1 = Some (rs, st2, l2)" "rep st2 l2 ys"
      "links_same (set (remove1 e xs) \<union> op_items ops) st1 st2"
      using Cons.IH [OF s1(2) e(2)] by blast
    moreover have "set (remove1 e xs) \<subseteq> set xs" by (rule set_remove1_subset)
    ultimately show ?thesis
      using s1 Remove
        links_same_trans [OF s1(3), of "set (remove1 e xs) \<union> op_items ops" st2 "set xs \<union> op_items ops"]
      by auto
  qed
qed

end

definition DList_rf :: "links \<Rightarrow> lhead \<Rightarrow> (ref option \<times> links \<times> lhead) option" where
  "DList_rf st l = Some (DList_removeFirst st l)"

definition DList_rm :: "ref \<Rightarrow> links \<Rightarrow> lhead \<Rightarrow> (links \<times> lhead) option" where
  "DList_rm e st l = Some (DList_remove e st l)"

text \<open>The search of \<^verbatim>\<open>SList::remove\<close> gets one step more than the list is long.\<close>

definition SList_rm :: "ref \<Rightarrow> links \<Rightarrow> lhead \<Rightarrow> (links \<times> lhead) option" where
  "SList_rm e st l = do { (_, st, l) \<leftarrow> SList_remove (Suc (l_len l)) e st l; Some (st, l) }"

interpretation dlist: item_queue dl_rep DList_append DList_rf DList_rm
proof unfold_locales
  fix st l xs
  assume "dl_rep st l xs"
  then show "\<exists>st' l'. DList_rf st l = Some (first_or xs None, st', l') \<and> dl_rep st' l' (tl xs) \<and>
    links_same (set xs) st st'"
    using DList_removeFirst_empty DList_removeFirst_rep
    by (cases xs; cases "DList_removeFirst st l") (force simp: DList_rf_def links_same_refl)+
next
  fix st l xs e
  assume "dl_rep st l xs" "e \<in> set xs"
  then show "\<exists>st' l'. DList_rm e st l = Some (st', l') \<and> dl_rep st' l' (remove1 e xs) \<and>
    links_same (set xs) st st'"
    using DList_remove_rep by (cases "DList_remove e st l") (auto simp: DList_rm_def)
qed (rule DList_append_rep)

interpretation slist: item_queue sl_rep SList_append SList_removeFirst SList_rm
proof unfold_locales
  fix st l xs
  assume "sl_rep st l xs"
  then show "\<exists>st' l'. SList_removeFirst st l = Some (first_or xs None, st', l') \<and>
    sl_rep st' l' (tl xs) \<and> links_same (set xs) st st'"
    using SList_removeFirst_empty SList_removeFirst_rep
    by (cases xs) (force simp: links_same_refl)+
next
  fix st l xs e
  assume rep: "sl_rep st l xs" and "e \<in> set xs"
  then have "length xs < Suc (l_len l)" by (simp add: sl_rep_def)
  then show "\<exists>st' l'. SList_rm e st l = Some (st', l') \<and> sl_rep st' l' (remove1 e xs) \<and>
    links_same (set xs) st st'"
    using SList_remove_rep [OF rep, of "Suc (l_len l)" e] by (auto simp: SList_rm_def)
qed (rule SList_append_rep)

section \<open>Properties\<close>

text \<open>
  C15: Any sequence of appends, removals of the first and removals of a given item behaves on a
  doubly linked list as on the sequence of its items, as long as no item is added twice or
  removed while absent: no null pointer is followed, the same items come out, and a second list
  in the same store whose items do not take part is left as it was.
\<close>

theorem DList_simulation:
  assumes "dl_rep st l xs" and "seq_run ops xs = Some (rs, ys)"
    and "dl_rep st l2 zs" and "set zs \<inter> (set xs \<union> op_items ops) = {}"
  shows "\<exists>st' l'. item_run DList_append DList_rf DList_rm ops st l = Some (rs, st', l') \<and>
    dl_rep st' l' ys \<and> dl_rep st' l2 zs"
  using dlist.simulation [OF assms(1,2)] links_same_frame(2) assms(3,4) by blast

theorem DList_simulation_witness:
  "\<exists>st' l'. item_run DList_append DList_rf DList_rm
      [Append 1, Append 2, Append 3, Remove 2, RemoveFirst, RemoveFirst, RemoveFirst]
      \<lparr>l_next = Map.empty, l_prev = Map.empty\<rparr> \<lparr>l_head = None, l_tail = None, l_len = 0\<rparr> =
      Some ([Some 1, Some 3, None], st', l')"
  using DList_simulation [of "\<lparr>l_next = Map.empty, l_prev = Map.empty\<rparr>"
      "\<lparr>l_head = None, l_tail = None, l_len = 0\<rparr>" "[]"
      "[Append 1, Append 2, Append 3, Remove 2, RemoveFirst, RemoveFirst, RemoveFirst]"
      "[Some 1, Some 3, None]" "[]" "\<lparr>l_head = None, l_tail = None, l_len = 0\<rparr>" "[]"]
  by (auto simp: dl_rep_def sl_rep_def)

text \<open>
  C7: The same for the singly linked list, whose removal of a given item searches the list; the
  search ends within one step more than the list is long.
\<close>

theorem SList_simulation:
  assumes "sl_rep st l xs" and "seq_run ops xs = Some (rs, ys)"
    and "sl_rep st l2 zs" and "set zs \<inter> (set xs \<union> op_items ops) = {}"
  shows "\<exists>st' l'. item_run SList_append SList_removeFirst SList_rm ops st l = Some (rs, st', l') \<and>
    sl_rep st' l' ys \<and> sl_rep st' l2 zs"
  using slist.simulation [OF assms(1,2)] links_same_frame(1) assms(3,4) by blast

theorem SList_simulation_witness:
  "\<exists>st' l'. item_run SList_append SList_removeFirst SList_rm
      [Append 1, Append 2, Append 3, Remove 2, RemoveFirst, RemoveFirst, RemoveFirst]
      \<lparr>l_next = Map.empty, l_prev = Map.empty\<rparr> \<lparr>l_head = None, l_tail = None, l_len = 0\<rparr> =
      Some ([Some 1, Some 3, None], st', l')"
  using SList_simulation [of "\<lparr>l_next = Map.empty, l_prev = Map.empty\<rparr>"
      "\<lparr>l_head = None, l_tail = None, l_len = 0\<rparr>" "[]"
      "[Append 1, Append 2, Append 3, Remove 2, RemoveFirst, RemoveFirst, RemoveFirst]"
      "[Some 1, Some 3, None]" "[]" "\<lparr>l_head = None, l_tail = None, l_len = 0\<rparr>" "[]"]
  by (auto simp: sl_rep_def)

end
