(* ===== verification/Sched.thy ===== *)
theory Sched
  imports Linked_Lists
begin

text \<open>
  The scheduler (\<^verbatim>\<open>kernel/src/task/sched.cc\<close>, with the fields and small methods of
  \<^verbatim>\<open>kernel/include/task/thread.h\<close> it works on): ready queues by priority, the mask of non-empty
  queues, the lists of threads that wait for an event, and the choice of the next thread.

  A thread is a reference into the store \<open>threads\<close>. The queues are doubly linked lists of
  threads; they are HOL lists here, which the simulation of theory \<open>Linked_Lists\<close> justifies as
  long as a thread is in at most one list, and this is part of the invariant. Removing a thread
  from a list it is not in breaks the contract of \<^verbatim>\<open>DList::remove\<close>; it stops the model, as a
  failed assertion does. The argument \<open>now\<close> is the time stamp counter.
\<close>

section \<open>Threads\<close>

datatype tstate = RUNNING | READY | BLOCKED | ZOMBIE

record thread =
  t_flags :: u8
  t_priority :: nat
  t_state :: tstate
  t_newState :: tstate
  t_event :: nat
  t_evobject :: u32
  t_waitstart :: u64
  t_blocked :: u64
  t_prioGoodCnt :: u8
  t_sigmask :: u32

definition MAX_PRIO :: nat where "MAX_PRIO = 4"
definition EV_COUNT :: nat where "EV_COUNT = 8"
definition T_IDLE :: u8 where "T_IDLE = 1"
definition T_IGNSIGS :: u8 where "T_IGNSIGS = 2"
definition PRIO_FORGIVE_CNT :: u8 where "PRIO_FORGIVE_CNT = 8"

definition is_idle :: "thread \<Rightarrow> bool" where
  "is_idle t \<longleftrightarrow> t_flags t AND T_IDLE \<noteq> 0"

definition isIgnoringSigs :: "thread \<Rightarrow> bool" where
  "isIgnoringSigs t \<longleftrightarrow> t_flags t AND T_IGNSIGS \<noteq> 0"

definition hasSignal :: "thread \<Rightarrow> bool" where
  "hasSignal t \<longleftrightarrow> \<not> isIgnoringSigs t \<and> t_sigmask t \<noteq> 0"

section \<open>The state of the scheduler\<close>

record sched =
  threads :: "ref \<Rightarrow> thread"
  rdyQueues :: "nat \<Rightarrow> ref list"
  evlists :: "nat \<Rightarrow> ref list"
  readyMask :: ulong
  rdyCount :: nat
  idleThreads :: "ref option list"

definition upd_thread :: "ref \<Rightarrow> (thread \<Rightarrow> thread) \<Rightarrow> sched \<Rightarrow> sched" where
  "upd_thread t f s = s\<lparr>threads := (threads s)(t := f (threads s t))\<rparr>"

text \<open>The static zero initialisation and \<^verbatim>\<open>Sched::init\<close>; a failed allocation stops the kernel.\<close>

definition Sched_init :: "bool \<Rightarrow> nat \<Rightarrow> (ref \<Rightarrow> thread) \<Rightarrow> sched option" where
  "Sched_init ok cpus T =
     (if \<not> ok then None
      else Some \<lparr>threads = T, rdyQueues = (\<lambda>_. []), evlists = (\<lambda>_. []), readyMask = 0, rdyCount = 0,
                 idleThreads = replicate cpus None\<rparr>)"

fun fill_idle :: "ref \<Rightarrow> ref option list \<Rightarrow> ref option list" where
  "fill_idle t [] = []"
| "fill_idle t (x # xs) = (if x = None then Some t # xs else x # fill_idle t xs)"

definition Sched_addIdleThread :: "ref \<Rightarrow> sched \<Rightarrow> sched" where
  "Sched_addIdleThread t s = s\<lparr>idleThreads := fill_idle t (idleThreads s)\<rparr>"

section \<open>Operations\<close>

definition Sched_enqueue :: "ref \<Rightarrow> sched \<Rightarrow> sched" where
  "Sched_enqueue t s =
     (let prio = t_priority (threads s t) in
      s\<lparr>rdyQueues := (rdyQueues s)(prio := rdyQueues s prio @ [t]),
        readyMask := readyMask s OR push_bit prio 1,
        rdyCount := rdyCount s + 1\<rparr>)"

definition Sched_enqueueQuick :: "ref \<Rightarrow> sched \<Rightarrow> sched" where
  "Sched_enqueueQuick t s =
     (let prio = t_priority (threads s t) in
      s\<lparr>rdyQueues := (rdyQueues s)(prio := t # rdyQueues s prio),
        readyMask := readyMask s OR push_bit prio 1,
        rdyCount := rdyCount s + 1\<rparr>)"

definition Sched_dequeue :: "ref \<Rightarrow> sched \<Rightarrow> sched option" where
  "Sched_dequeue t s =
     (let prio = t_priority (threads s t) in
      if t \<notin> set (rdyQueues s prio) then None
      else
        let q = remove1 t (rdyQueues s prio) in
        Some (s\<lparr>rdyQueues := (rdyQueues s)(prio := q),
                readyMask := (if length q = 0 then readyMask s AND NOT (push_bit prio 1)
                              else readyMask s),
                rdyCount := rdyCount s - 1\<rparr>))"

definition Sched_removeFromEventlist :: "ref \<Rightarrow> sched \<Rightarrow> sched option" where
  "Sched_removeFromEventlist t s =
     (let ev = t_event (threads s t) in
      if ev = 0 then Some s
      else if t \<notin> set (evlists s (ev - 1)) then None
      else Some (upd_thread t (\<lambda>x. x\<lparr>t_event := 0\<rparr>)
             (s\<lparr>evlists := (evlists s)(ev - 1 := remove1 t (evlists s (ev - 1)))\<rparr>)))"

text \<open>\<^verbatim>\<open>setReadyState\<close> says whether the thread has to be enqueued.\<close>

definition Sched_setReadyState :: "ref \<Rightarrow> sched \<Rightarrow> (bool \<times> sched) option" where
  "Sched_setReadyState t s =
     (case t_state (threads s t) of
        ZOMBIE \<Rightarrow> Some (False, s)
      | READY \<Rightarrow> Some (False, s)
      | BLOCKED \<Rightarrow>
          do {
            s \<leftarrow> Sched_removeFromEventlist t s;
            Some (True, upd_thread t (\<lambda>x. x\<lparr>t_state := READY\<rparr>) s)
          }
      | RUNNING \<Rightarrow> None)"

definition add_blocked_time :: "u64 \<Rightarrow> ref \<Rightarrow> sched \<Rightarrow> sched" where
  "add_blocked_time now t s =
     (if t_waitstart (threads s t) > 0 then
        upd_thread t (\<lambda>x. x\<lparr>t_blocked := t_blocked x + (now - t_waitstart x), t_waitstart := 0\<rparr>) s
      else s)"

definition Sched_setReady :: "u64 \<Rightarrow> ref \<Rightarrow> sched \<Rightarrow> sched option" where
  "Sched_setReady now t s =
     (if is_idle (threads s t) then Some s
      else
        let s = add_blocked_time now t s in
        if t_state (threads s t) = RUNNING then
          do {
            s \<leftarrow> Sched_removeFromEventlist t s;
            Some (upd_thread t (\<lambda>x. x\<lparr>t_newState := READY\<rparr>) s)
          }
        else
          do {
            (b, s) \<leftarrow> Sched_setReadyState t s;
            if b then (if t_event (threads s t) \<noteq> 0 then None else Some (Sched_enqueue t s))
            else Some s
          })"

definition Sched_setReadyQuick :: "u64 \<Rightarrow> ref \<Rightarrow> sched \<Rightarrow> sched option" where
  "Sched_setReadyQuick now t s =
     (if is_idle (threads s t) then Some s
      else
        let s = add_blocked_time now t s in
        if t_state (threads s t) = RUNNING then
          do {
            s \<leftarrow> Sched_removeFromEventlist t s;
            Some (upd_thread t (\<lambda>x. x\<lparr>t_newState := READY\<rparr>) s)
          }
        else if t_state (threads s t) = READY then
          (if t_event (threads s t) \<noteq> 0 then None
           else do { s \<leftarrow> Sched_dequeue t s; Some (Sched_enqueueQuick t s) })
        else
          do {
            (b, s) \<leftarrow> Sched_setReadyState t s;
            if b then (if t_event (threads s t) \<noteq> 0 then None else Some (Sched_enqueueQuick t s))
            else Some s
          })"

definition Sched_setBlocked :: "u64 \<Rightarrow> ref \<Rightarrow> sched \<Rightarrow> sched option" where
  "Sched_setBlocked now t s =
     do {
       s \<leftarrow> (case t_state (threads s t) of
              ZOMBIE \<Rightarrow> Some s
            | BLOCKED \<Rightarrow> Some s
            | RUNNING \<Rightarrow> Some (upd_thread t (\<lambda>x. x\<lparr>t_newState := BLOCKED\<rparr>) s)
            | READY \<Rightarrow> Sched_dequeue t (upd_thread t (\<lambda>x. x\<lparr>t_state := BLOCKED\<rparr>) s));
       Some (upd_thread t (\<lambda>x. x\<lparr>t_waitstart := now\<rparr>) s)
     }"

definition Sched_wait :: "u64 \<Rightarrow> ref \<Rightarrow> ref \<Rightarrow> nat \<Rightarrow> u32 \<Rightarrow> sched \<Rightarrow> sched option" where
  "Sched_wait now running t event object s =
     (if t_event (threads s t) \<noteq> 0 \<or> running \<noteq> t then None
      else
        do {
          s \<leftarrow> Sched_setBlocked now t
                 (upd_thread t (\<lambda>x. x\<lparr>t_event := event, t_evobject := object\<rparr>) s);
          Some (if event \<noteq> 0 then
                  s\<lparr>evlists := (evlists s)(event - 1 := evlists s (event - 1) @ [t])\<rparr>
                else s)
        })"

text \<open>
  The loop of \<^verbatim>\<open>wakeup\<close> advances its iterator before it takes the current thread out of the list,
  so it visits the threads that were in the list at the start.
\<close>

fun Sched_wakeup_loop :: "u64 \<Rightarrow> nat \<Rightarrow> u32 \<Rightarrow> bool \<Rightarrow> ref list \<Rightarrow> sched \<Rightarrow> sched option" where
  "Sched_wakeup_loop now event object all [] s = Some s"
| "Sched_wakeup_loop now event object all (t # ts) s =
     (if t_event (threads s t) \<noteq> event then None
      else if t_evobject (threads s t) = 0 \<or> t_evobject (threads s t) = object then
        do {
          s \<leftarrow> Sched_removeFromEventlist t s;
          s \<leftarrow> Sched_setReady now t s;
          if all then Sched_wakeup_loop now event object all ts s else Some s
        }
      else Sched_wakeup_loop now event object all ts s)"

definition Sched_wakeup :: "u64 \<Rightarrow> nat \<Rightarrow> u32 \<Rightarrow> bool \<Rightarrow> sched \<Rightarrow> sched option" where
  "Sched_wakeup now event object all s =
     (if \<not> (1 \<le> event \<and> event \<le> EV_COUNT) then None
      else Sched_wakeup_loop now event object all (evlists s (event - 1)) s)"

definition Sched_removeThread :: "ref \<Rightarrow> sched \<Rightarrow> sched option" where
  "Sched_removeThread t s =
     do {
       s \<leftarrow> (case t_state (threads s t) of
              RUNNING \<Rightarrow> Some s
            | BLOCKED \<Rightarrow> Sched_removeFromEventlist t s
            | READY \<Rightarrow> Sched_dequeue t s
            | ZOMBIE \<Rightarrow> None);
       Some (upd_thread t (\<lambda>x. x\<lparr>t_newState := ZOMBIE\<rparr>) s)
     }"

text \<open>
  The search of \<^verbatim>\<open>perform\<close> for the next thread, from the highest priority down; \<open>t\<close> is the
  variable the loop assigns, which keeps its last value when no iteration leaves the loop.
\<close>

fun Sched_pick :: "nat \<Rightarrow> ref option \<Rightarrow> ref option \<Rightarrow> sched \<Rightarrow> ref option \<times> sched" where
  "Sched_pick 0 old t s = (t, s)"
| "Sched_pick (Suc i) old t s =
     (case rdyQueues s i of
        [] \<Rightarrow> Sched_pick i old None s
      | x # xs \<Rightarrow>
          if rdyCount s > 1 \<and> old = Some x then
            Sched_pick i old (Some x) (s\<lparr>rdyQueues := (rdyQueues s)(i := xs @ [x])\<rparr>)
          else
            (Some x, s\<lparr>rdyQueues := (rdyQueues s)(i := xs),
                       readyMask := (if length xs = 0 then readyMask s AND NOT (push_bit i 1)
                                     else readyMask s),
                       rdyCount := rdyCount s - 1\<rparr>))"

text \<open>
  The new state of the old thread. The left result is the early return for a pending signal.
\<close>

definition Sched_retire :: "ref option \<Rightarrow> sched \<Rightarrow> (sched + sched) option" where
  "Sched_retire old s =
     (case old of
        None \<Rightarrow> Some (Inr s)
      | Some t \<Rightarrow>
          if is_idle (threads s t) then Some (Inr (upd_thread t (\<lambda>x. x\<lparr>t_state := BLOCKED\<rparr>) s))
          else if t_state (threads s t) \<noteq> RUNNING then None
          else if t_newState (threads s t) \<noteq> ZOMBIE \<and> hasSignal (threads s t) then
            do {
              s \<leftarrow> Sched_removeFromEventlist t
                     (upd_thread t (\<lambda>x. x\<lparr>t_newState := READY, t_waitstart := 0\<rparr>) s);
              Some (Inl s)
            }
          else
            (case t_newState (threads s t) of
               READY \<Rightarrow>
                 if t_event (threads s t) \<noteq> 0 then None
                 else Some (Inr (Sched_enqueue t (upd_thread t (\<lambda>x. x\<lparr>t_state := READY\<rparr>) s)))
             | BLOCKED \<Rightarrow> Some (Inr (upd_thread t (\<lambda>x. x\<lparr>t_state := BLOCKED\<rparr>) s))
             | ZOMBIE \<Rightarrow> Some (Inr (upd_thread t (\<lambda>x. x\<lparr>t_state := ZOMBIE\<rparr>) s))
             | RUNNING \<Rightarrow> None))"

text \<open>
  \<^verbatim>\<open>perform\<close> returns the thread to run; its second result says whether it asks \<^verbatim>\<open>SMP::wakeupCPU\<close>
  to start another processor.
\<close>

definition Sched_perform :: "ref option \<Rightarrow> nat \<Rightarrow> sched \<Rightarrow> (ref \<times> bool \<times> sched) option" where
  "Sched_perform old cpu s =
     do {
       r \<leftarrow> Sched_retire old s;
       (case r of
          Inl s \<Rightarrow> (case old of None \<Rightarrow> None | Some t \<Rightarrow> Some (t, False, s))
        | Inr s \<Rightarrow>
            (let (t, s) = Sched_pick (Suc MAX_PRIO) old None s in
             case t of
               None \<Rightarrow>
                 (if cpu < length (idleThreads s) then
                    (case idleThreads s ! cpu of
                       None \<Rightarrow> None
                     | Some t \<Rightarrow>
                         Some (t, rdyCount s > 0, upd_thread t (\<lambda>x. x\<lparr>t_state := RUNNING\<rparr>) s))
                  else None)
             | Some t \<Rightarrow>
                 Some (t, rdyCount s > 0,
                   upd_thread t (\<lambda>x. x\<lparr>t_state := RUNNING, t_newState := READY\<rparr>) s)))
     }"

definition set_prio :: "ref \<Rightarrow> nat \<Rightarrow> sched \<Rightarrow> sched option" where
  "set_prio t p s =
     (if p > MAX_PRIO then None else Some (upd_thread t (\<lambda>x. x\<lparr>t_priority := p\<rparr>) s))"

text \<open>Changing the priority takes a ready thread out of its queue and puts it into the new one.\<close>

definition move_prio :: "ref \<Rightarrow> nat \<Rightarrow> sched \<Rightarrow> sched option" where
  "move_prio t p s =
     do {
       s \<leftarrow> (if t_state (threads s t) = READY then Sched_dequeue t s else Some s);
       s \<leftarrow> set_prio t p s;
       Some (if t_state (threads s t) = READY then Sched_enqueue t s else s)
     }"

definition Sched_adjustPrio :: "u64 \<Rightarrow> ref \<Rightarrow> u64 \<Rightarrow> sched \<Rightarrow> sched option" where
  "Sched_adjustPrio now t tot s =
     do {
       let s = (if t_waitstart (threads s t) > 0 then
                  upd_thread t (\<lambda>x. x\<lparr>t_blocked := t_blocked x + (now - t_waitstart x),
                                      t_waitstart := now\<rparr>) s
                else s);
       s \<leftarrow>
         (if t_blocked (threads s t) < tot div 6 then
            do {
              s \<leftarrow> (if t_priority (threads s t) > 0
                     then move_prio t (t_priority (threads s t) - 1) s else Some s);
              Some (upd_thread t (\<lambda>x. x\<lparr>t_prioGoodCnt := 0\<rparr>) s)
            }
          else if t_blocked (threads s t) \<ge> tot div 2 then
            (if t_priority (threads s t) < MAX_PRIO then
               let s = upd_thread t (\<lambda>x. x\<lparr>t_prioGoodCnt := t_prioGoodCnt x + 1\<rparr>) s in
               if t_prioGoodCnt (threads s t) = PRIO_FORGIVE_CNT then
                 do {
                   s \<leftarrow> move_prio t (t_priority (threads s t) + 1) s;
                   Some (upd_thread t (\<lambda>x. x\<lparr>t_prioGoodCnt := 0\<rparr>) s)
                 }
               else Some s
             else Some s)
          else Some s);
       Some (upd_thread t (\<lambda>x. x\<lparr>t_blocked := 0\<rparr>) s)
     }"

text \<open>\<^verbatim>\<open>Thread::haveHigherPrio\<close> looks at the mask only.\<close>

definition haveHigherPrio :: "ref \<Rightarrow> sched \<Rightarrow> bool" where
  "haveHigherPrio t s \<longleftrightarrow>
     readyMask s AND NOT (push_bit (t_priority (threads s t) + 1) 1 - 1) \<noteq> 0"

section \<open>Invariant\<close>

text \<open>
  A thread is in the ready queue of its priority exactly if its state is ready, and in the list
  of an event exactly if it waits for it; the counter and the mask agree with the queues. Since
  a ready thread waits for no event, no thread is in two lists.
\<close>

definition q_ok :: "(ref \<Rightarrow> thread) \<Rightarrow> (nat \<Rightarrow> ref list) \<Rightarrow> ulong \<Rightarrow> nat \<Rightarrow> bool" where
  "q_ok T Q M C \<longleftrightarrow>
     (\<forall>i t. t \<in> set (Q i) \<longleftrightarrow> t_state (T t) = READY \<and> t_priority (T t) = i) \<and>
     (\<forall>i. distinct (Q i)) \<and>
     C = (\<Sum>i\<le>MAX_PRIO. length (Q i)) \<and>
     (\<forall>i. bit M i \<longleftrightarrow> Q i \<noteq> [])"

definition e_ok :: "(ref \<Rightarrow> thread) \<Rightarrow> (nat \<Rightarrow> ref list) \<Rightarrow> bool" where
  "e_ok T E \<longleftrightarrow> (\<forall>e t. t \<in> set (E e) \<longleftrightarrow> t_event (T t) = Suc e) \<and> (\<forall>e. distinct (E e))"

definition thread_ok :: "thread \<Rightarrow> bool" where
  "thread_ok x \<longleftrightarrow> t_priority x \<le> MAX_PRIO \<and> t_event x \<le> EV_COUNT \<and>
     (t_state x = READY \<longrightarrow> t_event x = 0 \<and> \<not> is_idle x) \<and>
     (t_event x \<noteq> 0 \<longrightarrow> \<not> is_idle x \<and>
        (t_state x = BLOCKED \<or> t_state x = RUNNING \<and> t_newState x = BLOCKED))"

definition sched_inv :: "sched \<Rightarrow> bool" where
  "sched_inv s \<longleftrightarrow> q_ok (threads s) (rdyQueues s) (readyMask s) (rdyCount s) \<and>
     e_ok (threads s) (evlists s) \<and> (\<forall>t. thread_ok (threads s t))"

lemma bit_mask_set: "p \<le> MAX_PRIO \<Longrightarrow> bit (m OR 2 ^ p :: ulong) i \<longleftrightarrow> bit m i \<or> i = p"
  by (auto simp: bit_simps MAX_PRIO_def)

lemma bit_mask_clear: "p \<le> MAX_PRIO \<Longrightarrow> bit (m AND NOT (2 ^ p) :: ulong) i \<longleftrightarrow> bit m i \<and> i \<noteq> p"
  by (auto simp: bit_simps MAX_PRIO_def dest: bit_imp_le_length)

lemma sum_len_upd:
  assumes "p \<le> MAX_PRIO"
  shows "(\<Sum>i\<le>MAX_PRIO. length ((Q(p := q)) i)) + length (Q p) =
    (\<Sum>i\<le>MAX_PRIO. length (Q i)) + length q"
proof -
  have split: "(\<Sum>i\<le>MAX_PRIO. f i) = f p + (\<Sum>i\<in>{..MAX_PRIO} - {p}. f i)" for f :: "nat \<Rightarrow> nat"
    using assms by (intro sum.remove) auto
  have "(\<Sum>i\<in>{..MAX_PRIO} - {p}. length ((Q(p := q)) i)) = (\<Sum>i\<in>{..MAX_PRIO} - {p}. length (Q i))"
    by (intro sum.cong) auto
  then show ?thesis
    using split [of "\<lambda>i. length ((Q(p := q)) i)"] split [of "\<lambda>i. length (Q i)"] by simp
qed

lemma q_ok_add:
  assumes "q_ok T Q M C" "t_state (T t) \<noteq> READY" "t_state x = READY" "t_priority x = p" "p \<le> MAX_PRIO"
    and "set q = insert t (set (Q p))" "distinct q" "length q = length (Q p) + 1"
  shows "q_ok (T(t := x)) (Q(p := q)) (M OR push_bit p 1) (C + 1)"
proof -
  have "q \<noteq> []" using assms(8) by auto
  moreover have "C + 1 = (\<Sum>i\<le>MAX_PRIO. length ((Q(p := q)) i))"
    using sum_len_upd [OF assms(5), of Q q] assms(1,8) by (simp add: q_ok_def)
  ultimately show ?thesis
    using assms unfolding q_ok_def by (auto simp: bit_mask_set)
qed

lemma q_ok_del:
  assumes "q_ok T Q M C" "t_state (T t) = READY" "t_priority (T t) = p" "p \<le> MAX_PRIO"
    and "t_state x \<noteq> READY" "q = remove1 t (Q p)"
  shows "q_ok (T(t := x)) (Q(p := q)) (if length q = 0 then M AND NOT (push_bit p 1) else M) (C - 1)"
proof -
  have t: "t \<in> set (Q p)" using assms by (simp add: q_ok_def)
  then have "length q + 1 = length (Q p)"
    using assms(6) by (simp add: length_remove1) (metis Suc_pred length_pos_if_in_set)
  then have "C - 1 = (\<Sum>i\<le>MAX_PRIO. length ((Q(p := q)) i))"
    using sum_len_upd [OF assms(4), of Q q] assms(1) by (simp add: q_ok_def)
  moreover have "Q p \<noteq> []" using t by auto
  moreover have "set q = set (Q p) - {t}" using assms(1,6) by (simp add: q_ok_def)
  ultimately show ?thesis
    using assms unfolding q_ok_def by (auto simp: bit_mask_clear)
qed

lemma q_ok_same:
  assumes "q_ok T Q M C" "t_state x = READY \<longleftrightarrow> t_state (T t) = READY"
    and "t_state x = READY \<Longrightarrow> t_priority x = t_priority (T t)"
  shows "q_ok (T(t := x)) Q M C"
  using assms unfolding q_ok_def by auto

lemma e_ok_add:
  assumes "e_ok T E" "t_event (T t) = 0" "t_event x = Suc e"
  shows "e_ok (T(t := x)) (E(e := E e @ [t]))"
  using assms unfolding e_ok_def by auto

lemma e_ok_del:
  assumes "e_ok T E" "t_event (T t) = Suc e" "t_event x = 0"
  shows "e_ok (T(t := x)) (E(e := remove1 t (E e)))"
  using assms unfolding e_ok_def by auto

lemma e_ok_same:
  assumes "e_ok T E" "t_event x = t_event (T t)"
  shows "e_ok (T(t := x)) E"
  using assms unfolding e_ok_def by auto

lemmas upd_simps [simp] = upd_thread_def

lemma sched_inv_upd:
  assumes "sched_inv s" "thread_ok (f (threads s t))" "t_event (f (threads s t)) = t_event (threads s t)"
    and "t_state (f (threads s t)) = READY \<longleftrightarrow> t_state (threads s t) = READY"
    and "t_state (f (threads s t)) = READY \<Longrightarrow> t_priority (f (threads s t)) = t_priority (threads s t)"
  shows "sched_inv (upd_thread t f s)"
  using assms unfolding sched_inv_def by (auto intro: q_ok_same e_ok_same)

lemma sched_inv_thread: "sched_inv s \<Longrightarrow> thread_ok (threads s t)"
  by (simp add: sched_inv_def)

lemma sched_inv_queued: "sched_inv s \<Longrightarrow> t \<in> set (rdyQueues s i) \<longleftrightarrow>
    t_state (threads s t) = READY \<and> t_priority (threads s t) = i"
  by (simp add: sched_inv_def q_ok_def)

text \<open>Taking a thread out of the list of its event.\<close>

lemma removeFromEventlist_inv:
  assumes "sched_inv s"
  shows "\<exists>s'. Sched_removeFromEventlist t s = Some s' \<and> sched_inv s' \<and>
    threads s' = (threads s)(t := (threads s t)\<lparr>t_event := 0\<rparr>) \<and>
    rdyQueues s' = rdyQueues s \<and> readyMask s' = readyMask s \<and> rdyCount s' = rdyCount s \<and>
    idleThreads s' = idleThreads s"
proof (cases "t_event (threads s t)")
  case 0
  then show ?thesis using assms by (auto simp: Sched_removeFromEventlist_def)
next
  case (Suc e)
  then have "t \<in> set (evlists s e)" using assms by (simp add: sched_inv_def e_ok_def)
  moreover have "thread_ok ((threads s t)\<lparr>t_event := 0\<rparr>)"
    using sched_inv_thread [OF assms, of t] by (auto simp: thread_ok_def is_idle_def)
  ultimately show ?thesis
    using assms Suc
    by (auto simp: Sched_removeFromEventlist_def sched_inv_def intro!: q_ok_same e_ok_del)
qed

text \<open>Entering and leaving the ready queues.\<close>

lemma enqueue_inv:
  assumes inv: "sched_inv s" and "t_state (threads s t) \<noteq> READY" "t_event (threads s t) = 0"
    and f: "t_state (f (threads s t)) = READY" "t_event (f (threads s t)) = 0"
      "thread_ok (f (threads s t))"
  shows "sched_inv (Sched_enqueue t (upd_thread t f s))"
    and "sched_inv (Sched_enqueueQuick t (upd_thread t f s))"
proof -
  let ?p = "t_priority (f (threads s t))"
  have p: "?p \<le> MAX_PRIO" using f by (simp add: thread_ok_def)
  have new: "t \<notin> set (rdyQueues s ?p)" "distinct (rdyQueues s ?p)"
    using inv assms(2) by (auto simp: sched_inv_def q_ok_def)
  have e: "e_ok ((threads s)(t := f (threads s t))) (evlists s)"
    using inv assms(3) f by (auto simp: sched_inv_def intro: e_ok_same)
  have q: "q_ok (threads s) (rdyQueues s) (readyMask s) (rdyCount s)"
    using inv by (simp add: sched_inv_def)
  note add = q_ok_add [OF q assms(2) f(1) refl p]
  show "sched_inv (Sched_enqueue t (upd_thread t f s))"
    using add [of "rdyQueues s ?p @ [t]"] e new inv f(3)
    by (auto simp: sched_inv_def Sched_enqueue_def Let_def)
  show "sched_inv (Sched_enqueueQuick t (upd_thread t f s))"
    using add [of "t # rdyQueues s ?p"] e new inv f(3)
    by (auto simp: sched_inv_def Sched_enqueueQuick_def Let_def)
qed

lemma dequeue_inv:
  assumes inv: "sched_inv s" and rdy: "t_state (threads s t) = READY"
    and f: "t_state (f (threads s t)) \<noteq> READY" "t_event (f (threads s t)) = 0"
      "thread_ok (f (threads s t))"
  shows "\<exists>s'. Sched_dequeue t s = Some s' \<and> sched_inv (upd_thread t f s') \<and>
    threads s' = threads s \<and> idleThreads s' = idleThreads s"
proof -
  let ?p = "t_priority (threads s t)"
  have ok: "thread_ok (threads s t)" using inv by (rule sched_inv_thread)
  have t: "t \<in> set (rdyQueues s ?p)" using inv rdy by (simp add: sched_inv_queued)
  have p: "?p \<le> MAX_PRIO" and ev: "t_event (threads s t) = 0" using ok rdy by (auto simp: thread_ok_def)
  have "e_ok ((threads s)(t := f (threads s t))) (evlists s)"
    using inv ev f by (auto simp: sched_inv_def intro: e_ok_same)
  moreover have q: "q_ok (threads s) (rdyQueues s) (readyMask s) (rdyCount s)"
    using inv by (simp add: sched_inv_def)
  note q_ok_del [OF q rdy refl p f(1) refl]
  ultimately show ?thesis
    using t inv f(3) by (auto simp: Sched_dequeue_def Let_def sched_inv_def)
qed

lemma dequeue_upd_commute:
  "t_priority (f (threads s t)) = t_priority (threads s t) \<Longrightarrow>
   Sched_dequeue t (upd_thread t f s) = map_option (upd_thread t f) (Sched_dequeue t s)"
  by (simp add: Sched_dequeue_def Let_def)

text \<open>Every operation that touches one thread leaves the others alone.\<close>

definition only_thread :: "ref \<Rightarrow> sched \<Rightarrow> sched \<Rightarrow> bool" where
  "only_thread t s s' \<longleftrightarrow> (\<forall>u. u \<noteq> t \<longrightarrow> threads s' u = threads s u) \<and> idleThreads s' = idleThreads s"

lemma add_blocked_time_inv:
  assumes "sched_inv s"
  shows "sched_inv (add_blocked_time now t s) \<and>
    (\<exists>b w. add_blocked_time now t s = upd_thread t (\<lambda>x. x\<lparr>t_blocked := b, t_waitstart := w\<rparr>) s)"
proof -
  have ok: "thread_ok ((threads s t)\<lparr>t_blocked := b, t_waitstart := w\<rparr>)" for b w
    using sched_inv_thread [OF assms, of t] by (auto simp: thread_ok_def is_idle_def)
  have "sched_inv (upd_thread t (\<lambda>x. x\<lparr>t_blocked := b, t_waitstart := w\<rparr>) s)" for b w
    using assms ok by (intro sched_inv_upd) auto
  moreover have "\<exists>b w. add_blocked_time now t s = upd_thread t (\<lambda>x. x\<lparr>t_blocked := b, t_waitstart := w\<rparr>) s"
  proof (cases "t_waitstart (threads s t) > 0")
    case True
    then show ?thesis by (auto simp: add_blocked_time_def)
  next
    case False
    then have "add_blocked_time now t s = upd_thread t (\<lambda>x. x\<lparr>t_blocked := t_blocked (threads s t),
        t_waitstart := t_waitstart (threads s t)\<rparr>) s"
      by (simp add: add_blocked_time_def)
    then show ?thesis by blast
  qed
  ultimately show ?thesis by metis
qed

lemma setReadyState_inv:
  assumes inv: "sched_inv s" and st: "t_state (threads s t) = BLOCKED" "\<not> is_idle (threads s t)"
  shows "\<exists>s1. Sched_setReadyState t s = Some (True, upd_thread t (\<lambda>x. x\<lparr>t_state := READY\<rparr>) s1) \<and>
    sched_inv s1 \<and> threads s1 = (threads s)(t := (threads s t)\<lparr>t_event := 0\<rparr>) \<and>
    rdyQueues s1 = rdyQueues s \<and> idleThreads s1 = idleThreads s"
proof -
  obtain s1 where s1: "Sched_removeFromEventlist t s = Some s1" "sched_inv s1"
    "threads s1 = (threads s)(t := (threads s t)\<lparr>t_event := 0\<rparr>)"
    "rdyQueues s1 = rdyQueues s" "idleThreads s1 = idleThreads s"
    using removeFromEventlist_inv [OF inv] by blast
  then show ?thesis
    using st by (intro exI [of _ s1]) (simp add: Sched_setReadyState_def)
qed

text \<open>Making a thread ready: no assertion can fail.\<close>

lemma setReady_blocked:
  assumes inv: "sched_inv s" and st: "t_state (threads s t) = BLOCKED" "\<not> is_idle (threads s t)"
  shows "\<exists>s'. Sched_setReady now t s = Some s' \<and> sched_inv s' \<and> only_thread t s s' \<and>
      t_state (threads s' t) = READY \<and>
      rdyQueues s' = (rdyQueues s)(t_priority (threads s t) := rdyQueues s (t_priority (threads s t)) @ [t])"
    and "\<exists>s'. Sched_setReadyQuick now t s = Some s' \<and> sched_inv s' \<and> only_thread t s s' \<and>
      t_state (threads s' t) = READY \<and>
      rdyQueues s' = (rdyQueues s)(t_priority (threads s t) := t # rdyQueues s (t_priority (threads s t)))"
proof -
  obtain b w where add: "sched_inv (add_blocked_time now t s)"
    "add_blocked_time now t s = upd_thread t (\<lambda>x. x\<lparr>t_blocked := b, t_waitstart := w\<rparr>) s"
    using add_blocked_time_inv [OF inv] by blast
  let ?s = "add_blocked_time now t s"
  have st': "t_state (threads ?s t) = BLOCKED" "\<not> is_idle (threads ?s t)"
    using st add(2) by (auto simp: is_idle_def)
  obtain s1 where s1: "Sched_setReadyState t ?s = Some (True, upd_thread t (\<lambda>x. x\<lparr>t_state := READY\<rparr>) s1)"
    "sched_inv s1" "threads s1 = (threads ?s)(t := (threads ?s t)\<lparr>t_event := 0\<rparr>)"
    "rdyQueues s1 = rdyQueues ?s" "idleThreads s1 = idleThreads ?s"
    using setReadyState_inv [OF add(1) st'] by blast
  have ok: "thread_ok ((threads s1 t)\<lparr>t_state := READY\<rparr>)"
    using sched_inv_thread [OF s1(2), of t] s1(3) st' by (auto simp: thread_ok_def is_idle_def)
  note enq = enqueue_inv [OF s1(2), of t "\<lambda>x. x\<lparr>t_state := READY\<rparr>"]
  show "\<exists>s'. Sched_setReady now t s = Some s' \<and> sched_inv s' \<and> only_thread t s s' \<and>
      t_state (threads s' t) = READY \<and>
      rdyQueues s' = (rdyQueues s)(t_priority (threads s t) := rdyQueues s (t_priority (threads s t)) @ [t])"
    using enq(1) s1 st st' ok add(2)
    by (auto simp: Sched_setReady_def Let_def only_thread_def Sched_enqueue_def)
  show "\<exists>s'. Sched_setReadyQuick now t s = Some s' \<and> sched_inv s' \<and> only_thread t s s' \<and>
      t_state (threads s' t) = READY \<and>
      rdyQueues s' = (rdyQueues s)(t_priority (threads s t) := t # rdyQueues s (t_priority (threads s t)))"
    using enq(2) s1 st st' ok add(2)
    by (auto simp: Sched_setReadyQuick_def Let_def only_thread_def Sched_enqueueQuick_def)
qed

lemma setReady_inv:
  assumes inv: "sched_inv s"
  shows "\<exists>s'. Sched_setReady now t s = Some s' \<and> sched_inv s' \<and> only_thread t s s'"
proof (cases "is_idle (threads s t) \<or> t_state (threads s t) = BLOCKED")
  case True
  show ?thesis
  proof (cases "is_idle (threads s t)")
    case True
    then show ?thesis using inv by (simp add: Sched_setReady_def only_thread_def)
  next
    case False
    with True show ?thesis using setReady_blocked(1) [OF inv, of t now] by blast
  qed
next
  case False
  obtain b w where add: "sched_inv (add_blocked_time now t s)"
    "add_blocked_time now t s = upd_thread t (\<lambda>x. x\<lparr>t_blocked := b, t_waitstart := w\<rparr>) s"
    using add_blocked_time_inv [OF inv] by blast
  let ?s = "add_blocked_time now t s"
  show ?thesis
  proof (cases "t_state (threads s t) = RUNNING")
    case True
    obtain s1 where s1: "Sched_removeFromEventlist t ?s = Some s1" "sched_inv s1"
      "threads s1 = (threads ?s)(t := (threads ?s t)\<lparr>t_event := 0\<rparr>)" "idleThreads s1 = idleThreads ?s"
      using removeFromEventlist_inv [OF add(1)] by blast
    have "thread_ok ((threads s1 t)\<lparr>t_newState := READY\<rparr>)"
      using sched_inv_thread [OF s1(2), of t] s1(3) True add(2) by (auto simp: thread_ok_def is_idle_def)
    then have "sched_inv (upd_thread t (\<lambda>x. x\<lparr>t_newState := READY\<rparr>) s1)"
      using s1(2) by (intro sched_inv_upd) auto
    then show ?thesis
      using False True s1 add(2) by (auto simp: Sched_setReady_def Let_def only_thread_def)
  next
    case no: False
    then have "t_state (threads s t) = READY \<or> t_state (threads s t) = ZOMBIE"
      using False by (cases "t_state (threads s t)") auto
    then show ?thesis
      using False add
      by (auto simp: Sched_setReady_def Sched_setReadyState_def Let_def only_thread_def)
  qed
qed

lemma setBlocked_inv:
  assumes inv: "sched_inv s"
  shows "\<exists>s'. Sched_setBlocked now t s = Some s' \<and> sched_inv s' \<and> only_thread t s s' \<and>
    (t_state (threads s t) = READY \<longrightarrow> t_state (threads s' t) = BLOCKED) \<and>
    (t_state (threads s t) = RUNNING \<longrightarrow> t_newState (threads s' t) = BLOCKED)"
proof -
  note ok = sched_inv_thread [OF inv, of t]
  show ?thesis
  proof (cases "t_state (threads s t)")
    case READY
    let ?f = "\<lambda>x. x\<lparr>t_state := BLOCKED, t_waitstart := now\<rparr>"
    obtain s1 where s1: "Sched_dequeue t s = Some s1" "sched_inv (upd_thread t ?f s1)"
      "threads s1 = threads s" "idleThreads s1 = idleThreads s"
      using dequeue_inv [OF inv READY, of ?f] ok READY by (auto simp: thread_ok_def is_idle_def)
    have "Sched_dequeue t (upd_thread t (\<lambda>x. x\<lparr>t_state := BLOCKED\<rparr>) s) =
        Some (upd_thread t (\<lambda>x. x\<lparr>t_state := BLOCKED\<rparr>) s1)"
      using s1(1) by (subst dequeue_upd_commute) simp_all
    then show ?thesis
      using s1 READY by (auto simp: Sched_setBlocked_def only_thread_def)
  next
    case RUNNING
    have "sched_inv (upd_thread t (\<lambda>x. x\<lparr>t_newState := BLOCKED, t_waitstart := now\<rparr>) s)"
      using inv ok RUNNING by (intro sched_inv_upd) (auto simp: thread_ok_def is_idle_def)
    then show ?thesis using RUNNING by (auto simp: Sched_setBlocked_def only_thread_def)
  next
    case BLOCKED
    have "sched_inv (upd_thread t (\<lambda>x. x\<lparr>t_waitstart := now\<rparr>) s)"
      using inv ok BLOCKED by (intro sched_inv_upd) (auto simp: thread_ok_def is_idle_def)
    then show ?thesis using BLOCKED by (auto simp: Sched_setBlocked_def only_thread_def)
  next
    case ZOMBIE
    have "sched_inv (upd_thread t (\<lambda>x. x\<lparr>t_waitstart := now\<rparr>) s)"
      using inv ok ZOMBIE by (intro sched_inv_upd) (auto simp: thread_ok_def is_idle_def)
    then show ?thesis using ZOMBIE by (auto simp: Sched_setBlocked_def only_thread_def)
  qed
qed

lemma wait_inv:
  assumes inv: "sched_inv s" and t: "t_state (threads s t) = RUNNING" "t_event (threads s t) = 0"
    "\<not> is_idle (threads s t)" and ev: "event \<le> EV_COUNT"
  shows "\<exists>s'. Sched_wait now t t event object s = Some s' \<and> sched_inv s' \<and> only_thread t s s' \<and>
    t_newState (threads s' t) = BLOCKED \<and> t_event (threads s' t) = event \<and>
    t_evobject (threads s' t) = object"
proof -
  let ?x = "(threads s t)\<lparr>t_event := event, t_evobject := object, t_newState := BLOCKED, t_waitstart := now\<rparr>"
  have ok: "thread_ok ?x"
    using sched_inv_thread [OF inv, of t] t ev by (auto simp: thread_ok_def is_idle_def)
  have q: "q_ok ((threads s)(t := ?x)) (rdyQueues s) (readyMask s) (rdyCount s)"
    using inv t by (intro q_ok_same) (auto simp: sched_inv_def)
  show ?thesis
  proof (cases event)
    case 0
    have "e_ok ((threads s)(t := ?x)) (evlists s)"
      using inv t 0 by (intro e_ok_same) (auto simp: sched_inv_def)
    then show ?thesis
      using inv t ok q 0 by (auto simp: Sched_wait_def Sched_setBlocked_def sched_inv_def only_thread_def)
  next
    case (Suc e)
    have "e_ok ((threads s)(t := ?x)) ((evlists s)(e := evlists s e @ [t]))"
      using inv t Suc by (intro e_ok_add) (auto simp: sched_inv_def)
    then show ?thesis
      using inv t ok q Suc by (auto simp: Sched_wait_def Sched_setBlocked_def sched_inv_def only_thread_def)
  qed
qed

lemma removeThread_inv:
  assumes inv: "sched_inv s"
    and t: "t_state (threads s t) = BLOCKED \<or> t_state (threads s t) = RUNNING \<and> t_event (threads s t) = 0"
  shows "\<exists>s'. Sched_removeThread t s = Some s' \<and> sched_inv s' \<and> only_thread t s s' \<and>
    t_newState (threads s' t) = ZOMBIE"
proof -
  have keep: "sched_inv (upd_thread t (\<lambda>x. x\<lparr>t_newState := ZOMBIE\<rparr>) s1)"
    if "sched_inv s1" "t_event (threads s1 t) = 0" for s1
    using that sched_inv_thread [OF that(1), of t]
    by (intro sched_inv_upd) (auto simp: thread_ok_def is_idle_def)
  show ?thesis
  proof (cases "t_state (threads s t) = RUNNING")
    case True
    then show ?thesis using keep [OF inv] t by (simp add: Sched_removeThread_def only_thread_def)
  next
    case False
    obtain s1 where s1: "Sched_removeFromEventlist t s = Some s1" "sched_inv s1"
      "threads s1 = (threads s)(t := (threads s t)\<lparr>t_event := 0\<rparr>)" "idleThreads s1 = idleThreads s"
      using removeFromEventlist_inv [OF inv] by blast
    have "t_state (threads s t) = BLOCKED" using False t by simp
    then show ?thesis using keep [OF s1(2)] s1 by (simp add: Sched_removeThread_def only_thread_def)
  qed
qed

section \<open>Waking threads\<close>

text \<open>What \<^verbatim>\<open>wakeup\<close> does to a thread it takes out of the list of its event.\<close>

definition woken :: "u64 \<Rightarrow> thread \<Rightarrow> thread" where
  "woken now x =
     (let x = (if t_waitstart x > 0 then
                 x\<lparr>t_blocked := t_blocked x + (now - t_waitstart x), t_waitstart := 0\<rparr>
               else x)
      in if t_state x = RUNNING then x\<lparr>t_event := 0, t_newState := READY\<rparr>
         else x\<lparr>t_event := 0, t_state := READY\<rparr>)"

definition wakes :: "u32 \<Rightarrow> thread \<Rightarrow> bool" where
  "wakes object x \<longleftrightarrow> t_evobject x = 0 \<or> t_evobject x = object"

lemma setReady_woken:
  assumes inv: "sched_inv s" and ev: "t_event (threads s t) = 0" and idle: "\<not> is_idle (threads s t)"
    and st: "t_state (threads s t) = BLOCKED \<or> t_state (threads s t) = RUNNING"
  shows "\<exists>s'. Sched_setReady now t s = Some s' \<and> threads s' = (threads s)(t := woken now (threads s t))"
proof -
  let ?s = "add_blocked_time now t s"
  have x: "threads ?s t = (let x = threads s t in if t_waitstart x > 0 then
      x\<lparr>t_blocked := t_blocked x + (now - t_waitstart x), t_waitstart := 0\<rparr> else x)"
    by (simp add: add_blocked_time_def Let_def)
  have others: "threads ?s = (threads s)(t := threads ?s t)"
    by (auto simp: add_blocked_time_def)
  have evs: "t_event (threads ?s t) = 0" and sts: "t_state (threads ?s t) = t_state (threads s t)"
    using ev by (simp_all add: add_blocked_time_def)
  then have rem: "Sched_removeFromEventlist t ?s = Some ?s"
    by (simp add: Sched_removeFromEventlist_def)
  have nop: "y\<lparr>t_event := 0\<rparr> = y" if "t_event y = 0" for y :: thread
    using that by simp
  show ?thesis
  proof (cases "t_state (threads s t) = RUNNING")
    case True
    then show ?thesis
      using idle rem sts others evs x
      by (simp add: Sched_setReady_def Let_def woken_def nop fun_upd_upd split: if_splits)
  next
    case False
    then have "t_state (threads s t) = BLOCKED" using st by simp
    then show ?thesis
      using idle rem sts others evs x
      by (simp add: Sched_setReady_def Sched_setReadyState_def Sched_enqueue_def Let_def woken_def nop
          split: if_splits)
  qed
qed

lemma wake_one:
  assumes inv: "sched_inv s" and ev: "t_event (threads s t) \<noteq> 0"
  shows "\<exists>s1 s2. Sched_removeFromEventlist t s = Some s1 \<and> Sched_setReady now t s1 = Some s2 \<and>
    sched_inv s2 \<and> threads s2 = (threads s)(t := woken now (threads s t)) \<and>
    idleThreads s2 = idleThreads s"
proof -
  obtain s1 where s1: "Sched_removeFromEventlist t s = Some s1" "sched_inv s1"
      "threads s1 = (threads s)(t := (threads s t)\<lparr>t_event := 0\<rparr>)" "idleThreads s1 = idleThreads s"
    using removeFromEventlist_inv [OF inv] by blast
  have t: "\<not> is_idle (threads s t)" "t_state (threads s t) = BLOCKED \<or> t_state (threads s t) = RUNNING"
    using sched_inv_thread [OF inv, of t] ev by (auto simp: thread_ok_def)
  then have t1: "t_event (threads s1 t) = 0" "\<not> is_idle (threads s1 t)"
      "t_state (threads s1 t) = BLOCKED \<or> t_state (threads s1 t) = RUNNING"
    using s1(3) by (auto simp: is_idle_def)
  obtain s2 where s2: "Sched_setReady now t s1 = Some s2" "threads s2 = (threads s1)(t := woken now (threads s1 t))"
    using setReady_woken [OF s1(2) t1] by blast
  have "sched_inv s2" "idleThreads s2 = idleThreads s1"
    using setReady_inv [OF s1(2), of now t] s2(1) by (auto simp: only_thread_def)
  moreover have "woken now ((threads s t)\<lparr>t_event := 0\<rparr>) = woken now (threads s t)"
    by (simp add: woken_def Let_def)
  ultimately show ?thesis using s1 s2 by auto
qed

definition wake_targets :: "u32 \<Rightarrow> bool \<Rightarrow> (ref \<Rightarrow> thread) \<Rightarrow> ref list \<Rightarrow> ref list" where
  "wake_targets object all T ts =
     (let ws = filter (\<lambda>t. wakes object (T t)) ts in if all then ws else take 1 ws)"

lemma wakeup_loop_spec:
  assumes "sched_inv s" "event \<noteq> 0" "distinct ts" "\<forall>t\<in>set ts. t_event (threads s t) = event"
  shows "\<exists>s'. Sched_wakeup_loop now event object all ts s = Some s' \<and> sched_inv s' \<and>
    threads s' = (\<lambda>t. if t \<in> set (wake_targets object all (threads s) ts)
                      then woken now (threads s t) else threads s t) \<and>
    idleThreads s' = idleThreads s"
  using assms
proof (induction ts arbitrary: s)
  case Nil
  then show ?case by (auto simp: wake_targets_def)
next
  case (Cons t ts)
  show ?case
  proof (cases "wakes object (threads s t)")
    case False
    obtain s' where "Sched_wakeup_loop now event object all ts s = Some s'" "sched_inv s'"
      "threads s' = (\<lambda>t. if t \<in> set (wake_targets object all (threads s) ts)
                      then woken now (threads s t) else threads s t)" "idleThreads s' = idleThreads s"
      using Cons.IH [of s] Cons.prems by auto
    then show ?thesis
      using Cons.prems False by (auto simp: wake_targets_def wakes_def)
  next
    case True
    obtain s1 s2 where s12: "Sched_removeFromEventlist t s = Some s1" "Sched_setReady now t s1 = Some s2"
      "sched_inv s2" "threads s2 = (threads s)(t := woken now (threads s t))" "idleThreads s2 = idleThreads s"
      using wake_one [of s t now] Cons.prems by auto
    show ?thesis
    proof (cases all)
      case False
      then show ?thesis
        using Cons.prems True s12 by (auto simp: wake_targets_def wakes_def)
    next
      case all: True
      have same: "threads s2 u = threads s u" if "u \<in> set ts" for u
        using that Cons.prems(3) s12(4) by auto
      then have tg: "wake_targets object all (threads s2) ts = wake_targets object all (threads s) ts"
        unfolding wake_targets_def Let_def by (metis (mono_tags, lifting) filter_cong)
      obtain s' where s': "Sched_wakeup_loop now event object all ts s2 = Some s'" "sched_inv s'"
        "threads s' = (\<lambda>t. if t \<in> set (wake_targets object all (threads s2) ts)
                        then woken now (threads s2 t) else threads s2 t)" "idleThreads s' = idleThreads s2"
        using Cons.IH [of s2] Cons.prems s12(3) same by auto
      have "Sched_wakeup_loop now event object all (t # ts) s = Some s'"
        using Cons.prems True s12 s' all by (simp add: wakes_def)
      moreover have "threads s' = (\<lambda>u. if u \<in> set (wake_targets object all (threads s) (t # ts))
                        then woken now (threads s u) else threads s u)"
        using s'(3) tg True all Cons.prems(3) s12(4) by (auto simp: wake_targets_def fun_eq_iff)
      ultimately show ?thesis using s' s12 by auto
    qed
  qed
qed

lemma wakeup_spec:
  assumes inv: "sched_inv s" and ev: "1 \<le> event" "event \<le> EV_COUNT"
  shows "\<exists>s'. Sched_wakeup now event object all s = Some s' \<and> sched_inv s' \<and>
    threads s' = (\<lambda>t. if t \<in> set (wake_targets object all (threads s) (evlists s (event - 1)))
                      then woken now (threads s t) else threads s t) \<and>
    idleThreads s' = idleThreads s"
  using wakeup_loop_spec [OF inv, of event "evlists s (event - 1)" now object all] inv ev
  by (simp add: Sched_wakeup_def sched_inv_def e_ok_def)

section \<open>Priorities\<close>

lemma move_prio_inv:
  assumes inv: "sched_inv s" and p: "p \<le> MAX_PRIO"
  shows "\<exists>s'. move_prio t p s = Some s' \<and> sched_inv s' \<and>
    threads s' = (threads s)(t := (threads s t)\<lparr>t_priority := p\<rparr>) \<and> idleThreads s' = idleThreads s"
proof (cases "t_state (threads s t) = READY")
  case True
  note ok = sched_inv_thread [OF inv, of t]
  let ?f = "\<lambda>x. x\<lparr>t_state := BLOCKED\<rparr>" and ?g = "\<lambda>x. x\<lparr>t_state := READY, t_priority := p\<rparr>"
  obtain s1 where s1: "Sched_dequeue t s = Some s1" "sched_inv (upd_thread t ?f s1)"
      "threads s1 = threads s" "idleThreads s1 = idleThreads s"
    using dequeue_inv [OF inv True, of ?f] ok True by (auto simp: thread_ok_def is_idle_def)
  have "sched_inv (Sched_enqueue t (upd_thread t ?g (upd_thread t ?f s1)))"
    using s1 ok True p by (intro enqueue_inv(1) [OF s1(2)]) (auto simp: thread_ok_def is_idle_def)
  moreover have "(threads s t)\<lparr>t_state := READY, t_priority := p\<rparr> = (threads s t)\<lparr>t_priority := p\<rparr>"
    using True by (cases "threads s t") simp
  then have "upd_thread t ?g (upd_thread t ?f s1) = upd_thread t (\<lambda>x. x\<lparr>t_priority := p\<rparr>) s1"
    unfolding upd_thread_def using s1(3) by (simp del: thread.update_convs)
  ultimately show ?thesis
    using True s1 p by (simp add: move_prio_def set_prio_def Sched_enqueue_def Let_def)
next
  case False
  have "sched_inv (upd_thread t (\<lambda>x. x\<lparr>t_priority := p\<rparr>) s)"
    using inv False p sched_inv_thread [OF inv, of t]
    by (intro sched_inv_upd) (auto simp: thread_ok_def is_idle_def)
  then show ?thesis using False p by (simp add: move_prio_def set_prio_def)
qed

lemma sched_inv_stats:
  assumes "sched_inv s"
    and "\<And>x. t_flags (f x) = t_flags x" "\<And>x. t_priority (f x) = t_priority x"
      "\<And>x. t_state (f x) = t_state x" "\<And>x. t_newState (f x) = t_newState x" "\<And>x. t_event (f x) = t_event x"
  shows "sched_inv (upd_thread t f s)"
  using assms sched_inv_thread [OF assms(1), of t]
  by (intro sched_inv_upd) (auto simp: thread_ok_def is_idle_def)

text \<open>
  The priority that \<^verbatim>\<open>adjustPrio\<close> computes, from the time the thread was blocked in the last
  period, and the new value of the counter of good periods.
\<close>

definition adjusted :: "u64 \<Rightarrow> u64 \<Rightarrow> thread \<Rightarrow> nat \<times> u8" where
  "adjusted blk tot x =
     (if blk < tot div 6 then (t_priority x - 1, 0)
      else if blk \<ge> tot div 2 \<and> t_priority x < MAX_PRIO then
        (if t_prioGoodCnt x + 1 = PRIO_FORGIVE_CNT then (t_priority x + 1, 0)
         else (t_priority x, t_prioGoodCnt x + 1))
      else (t_priority x, t_prioGoodCnt x))"

lemma adjustPrio_spec:
  assumes inv: "sched_inv s" and x_def: "x = threads s t"
    and blk_def: "blk = (if t_waitstart x > 0 then t_blocked x + (now - t_waitstart x) else t_blocked x)"
  shows "\<exists>s'. Sched_adjustPrio now t tot s = Some s' \<and> sched_inv s' \<and> idleThreads s' = idleThreads s \<and>
    threads s' = (threads s)(t := x\<lparr>t_priority := fst (adjusted blk tot x),
      t_prioGoodCnt := snd (adjusted blk tot x), t_blocked := 0,
      t_waitstart := (if t_waitstart x > 0 then now else t_waitstart x)\<rparr>)"
proof -
  define w where "w = (if t_waitstart x > 0 then now else t_waitstart x)"
  define s1 where "s1 = upd_thread t (\<lambda>y. y\<lparr>t_blocked := blk, t_waitstart := w\<rparr>) s"
  have s1: "(if t_waitstart (threads s t) > 0 then
      upd_thread t (\<lambda>x. x\<lparr>t_blocked := t_blocked x + (now - t_waitstart x), t_waitstart := now\<rparr>) s
      else s) = s1"
    by (simp add: s1_def w_def blk_def x_def)
  have inv1: "sched_inv s1" unfolding s1_def by (intro sched_inv_stats [OF inv]) simp_all
  have pr: "t_priority x \<le> MAX_PRIO"
    using sched_inv_thread [OF inv, of t] by (simp add: thread_ok_def x_def)
  have x1: "threads s1 t = x\<lparr>t_blocked := blk, t_waitstart := w\<rparr>" "threads s1 = (threads s)(t := threads s1 t)"
    "idleThreads s1 = idleThreads s"
    by (simp_all add: s1_def x_def)
  have adj: "Sched_adjustPrio now t tot s =
     do { s \<leftarrow>
         (if blk < tot div 6 then
            do {
              s \<leftarrow> (if t_priority x > 0 then move_prio t (t_priority x - 1) s1 else Some s1);
              Some (upd_thread t (\<lambda>x. x\<lparr>t_prioGoodCnt := 0\<rparr>) s)
            }
          else if blk \<ge> tot div 2 then
            (if t_priority x < MAX_PRIO then
               let s = upd_thread t (\<lambda>x. x\<lparr>t_prioGoodCnt := t_prioGoodCnt x + 1\<rparr>) s1 in
               if t_prioGoodCnt x + 1 = PRIO_FORGIVE_CNT then
                 do {
                   s \<leftarrow> move_prio t (t_priority x + 1) s;
                   Some (upd_thread t (\<lambda>x. x\<lparr>t_prioGoodCnt := 0\<rparr>) s)
                 }
               else Some s
             else Some s1)
          else Some s1);
       Some (upd_thread t (\<lambda>x. x\<lparr>t_blocked := 0\<rparr>) s) }"
    unfolding Sched_adjustPrio_def s1 Let_def using x1(1) by simp
  have fin: "sched_inv (upd_thread t (\<lambda>x. x\<lparr>t_blocked := 0\<rparr>) s2)"
    "sched_inv (upd_thread t (\<lambda>x. x\<lparr>t_prioGoodCnt := 0, t_blocked := 0\<rparr>) s2)" if "sched_inv s2" for s2
    using that by (intro sched_inv_stats; simp)+
  define goal where "goal s' \<longleftrightarrow> Sched_adjustPrio now t tot s = Some s' \<and> sched_inv s' \<and>
    idleThreads s' = idleThreads s \<and>
    threads s' = (threads s)(t := x\<lparr>t_priority := fst (adjusted blk tot x),
      t_prioGoodCnt := snd (adjusted blk tot x), t_blocked := 0, t_waitstart := w\<rparr>)" for s'
  consider (low) "blk < tot div 6" "t_priority x > 0" | (low0) "blk < tot div 6" "t_priority x = 0"
    | (up) "\<not> blk < tot div 6" "blk \<ge> tot div 2" "t_priority x < MAX_PRIO" "t_prioGoodCnt x + 1 = PRIO_FORGIVE_CNT"
    | (good) "\<not> blk < tot div 6" "blk \<ge> tot div 2" "t_priority x < MAX_PRIO" "t_prioGoodCnt x + 1 \<noteq> PRIO_FORGIVE_CNT"
    | (none) "\<not> blk < tot div 6" "\<not> (blk \<ge> tot div 2 \<and> t_priority x < MAX_PRIO)"
    by blast
  then have "\<exists>s'. goal s'"
  proof cases
    case low
    have "t_priority x - 1 \<le> MAX_PRIO" using pr by simp
    then obtain s2 where "move_prio t (t_priority x - 1) s1 = Some s2" "sched_inv s2"
      "threads s2 = (threads s1)(t := (threads s1 t)\<lparr>t_priority := t_priority x - 1\<rparr>)" "idleThreads s2 = idleThreads s1"
      using move_prio_inv [OF inv1] by blast
    then have "goal (upd_thread t (\<lambda>x. x\<lparr>t_prioGoodCnt := 0, t_blocked := 0\<rparr>) s2)"
      using low adj fin(2) [of s2] x1 unfolding goal_def by (simp add: adjusted_def fun_eq_iff)
    then show ?thesis ..
  next
    case low0
    then have "goal (upd_thread t (\<lambda>x. x\<lparr>t_prioGoodCnt := 0, t_blocked := 0\<rparr>) s1)"
      using adj fin(2) [OF inv1] x1 unfolding goal_def by (simp add: adjusted_def fun_eq_iff)
    then show ?thesis ..
  next
    case up
    let ?s = "upd_thread t (\<lambda>x. x\<lparr>t_prioGoodCnt := t_prioGoodCnt x + 1\<rparr>) s1"
    have "sched_inv ?s" by (intro sched_inv_stats [OF inv1]) simp_all
    moreover have "t_priority x + 1 \<le> MAX_PRIO" using up(3) by simp
    ultimately obtain s2 where "move_prio t (t_priority x + 1) ?s = Some s2" "sched_inv s2"
      "threads s2 = (threads ?s)(t := (threads ?s t)\<lparr>t_priority := t_priority x + 1\<rparr>)" "idleThreads s2 = idleThreads ?s"
      using move_prio_inv by blast
    then have "goal (upd_thread t (\<lambda>x. x\<lparr>t_prioGoodCnt := 0, t_blocked := 0\<rparr>) s2)"
      using up adj fin(2) [of s2] x1 unfolding goal_def by (simp add: adjusted_def fun_eq_iff)
    then show ?thesis ..
  next
    case good
    have "sched_inv (upd_thread t (\<lambda>x. x\<lparr>t_prioGoodCnt := t_prioGoodCnt x + 1, t_blocked := 0\<rparr>) s1)"
      by (intro sched_inv_stats [OF inv1]) simp_all
    then have "goal (upd_thread t (\<lambda>x. x\<lparr>t_prioGoodCnt := t_prioGoodCnt x + 1, t_blocked := 0\<rparr>) s1)"
      using good adj x1 unfolding goal_def by (simp add: adjusted_def fun_eq_iff)
    then show ?thesis ..
  next
    case none
    then have "goal (upd_thread t (\<lambda>x. x\<lparr>t_blocked := 0\<rparr>) s1)"
      using adj fin(1) [OF inv1] x1 unfolding goal_def by (auto simp: adjusted_def fun_eq_iff)
    then show ?thesis ..
  qed
  then show ?thesis by (simp add: goal_def w_def)
qed

section \<open>Choosing the next thread\<close>

definition skipped :: "ref option \<Rightarrow> sched \<Rightarrow> nat \<Rightarrow> bool" where
  "skipped old s k \<longleftrightarrow> rdyQueues s k = [] \<or> (rdyCount s > 1 \<and> old = Some (hd (rdyQueues s k)))"

lemma pick_cases:
  assumes single: "\<And>k. old = Some (hd (rdyQueues s k)) \<Longrightarrow> rdyQueues s k \<noteq> [] \<Longrightarrow> tl (rdyQueues s k) = []"
    and prio: "\<And>k u. u \<in> set (rdyQueues s k) \<Longrightarrow> t_priority (threads s u) = k"
  shows "(\<exists>j x s'. j < i \<and> \<not> skipped old s j \<and> x = hd (rdyQueues s j) \<and>
      (\<forall>k. j < k \<and> k < i \<longrightarrow> skipped old s k) \<and>
      Sched_dequeue x s = Some s' \<and> Sched_pick i old t0 s = (Some x, s')) \<or>
    ((\<forall>k<i. skipped old s k) \<and> snd (Sched_pick i old t0 s) = s \<and>
      ((\<forall>k<i. rdyQueues s k = []) \<and> 0 < i \<longrightarrow> fst (Sched_pick i old t0 s) = None))"
    (is "?taken i t0 \<or> ?none i t0")
proof (induction i arbitrary: t0)
  case 0
  then show ?case by simp
next
  case (Suc i)
  have step: "?taken (Suc i) t0 \<or> ?none (Suc i) t0"
    if sk: "skipped old s i" and pk: "Sched_pick (Suc i) old t0 s = Sched_pick i old t1 s"
      and t1: "rdyQueues s i = [] \<Longrightarrow> t1 = None" for t1
  proof -
    have all: "(\<forall>k. j < k \<and> k < Suc i \<longrightarrow> skipped old s k)" if "\<forall>k. j < k \<and> k < i \<longrightarrow> skipped old s k" for j
      using that sk by (auto simp: less_Suc_eq)
    show ?thesis
      using Suc.IH [of t1]
    proof
      assume "?taken i t1"
      then show ?thesis using pk all by (metis less_SucI)
    next
      assume "?none i t1"
      then have "?none (Suc i) t0"
        using pk sk t1 by (cases "i = 0") (auto simp: less_Suc_eq)
      then show ?thesis ..
    qed
  qed
  show ?case
  proof (cases "rdyQueues s i")
    case Nil
    then show ?thesis by (intro step [of None]) (simp_all add: skipped_def)
  next
    case (Cons x xs)
    show ?thesis
    proof (cases "rdyCount s > 1 \<and> old = Some x")
      case True
      then have "xs = []" using single [of i] Cons by simp
      then have "s\<lparr>rdyQueues := (rdyQueues s)(i := xs @ [x])\<rparr> = s"
        using Cons by (metis append_Nil fun_upd_triv sched.surjective sched.update_convs(2))
      then show ?thesis
        using True Cons by (intro step [of "Some x"]) (simp_all add: skipped_def)
    next
      case False
      have "Sched_dequeue x s = Some (snd (Sched_pick (Suc i) old t0 s))"
        using False Cons prio [of x i] by (auto simp: Sched_dequeue_def Let_def)
      then have "?taken (Suc i) t0"
        using False Cons by (intro exI [of _ i] exI [of _ x]) (auto simp: skipped_def)
      then show ?thesis ..
    qed
  qed
qed

text \<open>What may run on a processor when \<^verbatim>\<open>perform\<close> is called.\<close>

definition cur_ok :: "ref option \<Rightarrow> sched \<Rightarrow> bool" where
  "cur_ok old s \<longleftrightarrow> (case old of None \<Rightarrow> True
     | Some t \<Rightarrow> is_idle (threads s t) \<or>
         t_state (threads s t) = RUNNING \<and> t_newState (threads s t) \<noteq> RUNNING)"

definition stays :: "ref option \<Rightarrow> sched \<Rightarrow> bool" where
  "stays old s \<longleftrightarrow> (case old of None \<Rightarrow> False
     | Some t \<Rightarrow> \<not> is_idle (threads s t) \<and> t_newState (threads s t) \<noteq> ZOMBIE \<and> hasSignal (threads s t))"

definition requeues :: "ref option \<Rightarrow> sched \<Rightarrow> bool" where
  "requeues old s \<longleftrightarrow> (case old of None \<Rightarrow> False
     | Some t \<Rightarrow> \<not> is_idle (threads s t) \<and> t_newState (threads s t) = READY)"

lemma removeFromEventlist_commute:
  assumes "\<And>x. t_event (f x) = t_event x" "\<And>x. (f x)\<lparr>t_event := 0\<rparr> = f (x\<lparr>t_event := 0\<rparr>)"
  shows "Sched_removeFromEventlist t (upd_thread t f s) =
    map_option (upd_thread t f) (Sched_removeFromEventlist t s)"
  using assms by (simp add: Sched_removeFromEventlist_def Let_def)

lemma retire_stays:
  assumes inv: "sched_inv s" and cur: "cur_ok old s" and st: "stays old s"
  shows "\<exists>t s'. old = Some t \<and> Sched_retire old s = Some (Inl s') \<and> sched_inv s' \<and> only_thread t s s' \<and>
    t_state (threads s' t) = RUNNING \<and> t_newState (threads s' t) = READY \<and> t_event (threads s' t) = 0 \<and>
    rdyQueues s' = rdyQueues s"
proof -
  obtain t where t: "old = Some t" "\<not> is_idle (threads s t)" "t_newState (threads s t) \<noteq> ZOMBIE"
    "hasSignal (threads s t)" "t_state (threads s t) = RUNNING"
    using st cur by (auto simp: stays_def cur_ok_def split: option.splits)
  let ?f = "\<lambda>x. x\<lparr>t_newState := READY, t_waitstart := 0\<rparr>"
  obtain s1 where s1: "Sched_removeFromEventlist t s = Some s1" "sched_inv s1"
      "threads s1 = (threads s)(t := (threads s t)\<lparr>t_event := 0\<rparr>)" "idleThreads s1 = idleThreads s"
      "rdyQueues s1 = rdyQueues s"
    using removeFromEventlist_inv [OF inv] by blast
  have "Sched_removeFromEventlist t (upd_thread t ?f s) = Some (upd_thread t ?f s1)"
    using s1(1) by (subst removeFromEventlist_commute) simp_all
  moreover have "sched_inv (upd_thread t ?f s1)"
    using s1(2,3) t sched_inv_thread [OF s1(2), of t]
    by (intro sched_inv_upd) (auto simp: thread_ok_def is_idle_def)
  ultimately show ?thesis
    using t s1 by (simp add: Sched_retire_def only_thread_def)
qed

lemma retire_leaves:
  assumes inv: "sched_inv s" and cur: "cur_ok old s" and st: "\<not> stays old s"
  shows "\<exists>s'. Sched_retire old s = Some (Inr s') \<and> sched_inv s' \<and> idleThreads s' = idleThreads s \<and>
    (\<forall>u. t_priority (threads s' u) = t_priority (threads s u) \<and> is_idle (threads s' u) = is_idle (threads s u)) \<and>
    (\<forall>u. old \<noteq> Some u \<longrightarrow> threads s' u = threads s u) \<and>
    rdyQueues s' = (if requeues old s then
      (rdyQueues s)(t_priority (threads s (the old)) := rdyQueues s (t_priority (threads s (the old))) @ [the old])
      else rdyQueues s)"
proof (cases old)
  case None
  then show ?thesis using inv by (simp add: Sched_retire_def requeues_def)
next
  case (Some t)
  note ok = sched_inv_thread [OF inv, of t]
  show ?thesis
  proof (cases "is_idle (threads s t)")
    case True
    have "sched_inv (upd_thread t (\<lambda>x. x\<lparr>t_state := BLOCKED\<rparr>) s)"
      using inv ok True by (intro sched_inv_upd) (auto simp: thread_ok_def is_idle_def)
    then show ?thesis using Some True by (simp add: Sched_retire_def requeues_def is_idle_def)
  next
    case False
    have run: "t_state (threads s t) = RUNNING" "t_newState (threads s t) \<noteq> RUNNING"
      and sig: "t_newState (threads s t) = ZOMBIE \<or> \<not> hasSignal (threads s t)"
      using cur st Some False by (auto simp: cur_ok_def stays_def)
    show ?thesis
    proof (cases "t_newState (threads s t) = READY")
      case True
      then have ev: "t_event (threads s t) = 0" using ok run by (auto simp: thread_ok_def)
      have "sched_inv (Sched_enqueue t (upd_thread t (\<lambda>x. x\<lparr>t_state := READY\<rparr>) s))"
        using run ev ok False by (intro enqueue_inv(1) [OF inv]) (auto simp: thread_ok_def is_idle_def)
      then show ?thesis
        using Some False run sig True ev
        by (simp add: Sched_retire_def requeues_def Sched_enqueue_def Let_def is_idle_def)
    next
      case nr: False
      let ?ns = "t_newState (threads s t)"
      have "sched_inv (upd_thread t (\<lambda>x. x\<lparr>t_state := ?ns\<rparr>) s)"
        using inv ok run nr False
        by (intro sched_inv_upd) (auto simp: thread_ok_def is_idle_def)
      then show ?thesis
        using Some False run sig nr
        by (cases ?ns) (auto simp: Sched_retire_def requeues_def is_idle_def)
    qed
  qed
qed

lemma q_two:
  assumes inv: "sched_inv s" and ab: "t_state (threads s a) = READY" "t_state (threads s b) = READY" "a \<noteq> b"
  shows "rdyCount s > 1"
proof -
  let ?Q = "rdyQueues s" and ?p = "\<lambda>u. t_priority (threads s u)"
  have cnt: "rdyCount s = (\<Sum>i\<le>MAX_PRIO. length (?Q i))" and dist: "distinct (?Q k)" for k
    using inv by (simp_all add: sched_inv_def q_ok_def)
  have pr: "?p a \<le> MAX_PRIO" "?p b \<le> MAX_PRIO"
    using inv by (simp_all add: sched_inv_def thread_ok_def)
  have mem: "a \<in> set (?Q (?p a))" "b \<in> set (?Q (?p b))" using inv ab by (simp_all add: sched_inv_queued)
  show ?thesis
  proof (cases "?p a = ?p b")
    case True
    then have "{a, b} \<subseteq> set (?Q (?p a))" using mem by simp
    then have "card {a, b} \<le> length (?Q (?p a))" by (metis List.finite_set card_length card_mono le_trans)
    also have "\<dots> \<le> rdyCount s" unfolding cnt using pr by (intro member_le_sum) auto
    finally show ?thesis using ab(3) by simp
  next
    case False
    have "(\<Sum>i\<in>{?p a, ?p b}. length (?Q i)) \<le> rdyCount s"
      unfolding cnt using pr by (intro sum_mono2) auto
    then have "length (?Q (?p a)) + length (?Q (?p b)) \<le> rdyCount s" using False by simp
    moreover have "length (?Q (?p a)) > 0" "length (?Q (?p b)) > 0" using mem by (auto simp: length_pos_if_in_set)
    ultimately show ?thesis by linarith
  qed
qed

text \<open>The choice among the queues, once the old thread is the last one of its queue, if at all.\<close>

lemma pick_spec:
  assumes inv: "sched_inv s"
    and last: "\<And>k t. old = Some t \<Longrightarrow> t \<in> set (rdyQueues s k) \<Longrightarrow> last (rdyQueues s k) = t"
  defines "R \<equiv> {u. t_state (threads s u) = READY}"
  shows "(R - set_option old \<noteq> {} \<and> (\<exists>x s'. Sched_pick (Suc MAX_PRIO) old None s = (Some x, s') \<and>
            Sched_dequeue x s = Some s' \<and> x \<in> R - set_option old \<and>
            x = hd (rdyQueues s (t_priority (threads s x))) \<and>
            (\<forall>u\<in>R - set_option old. t_priority (threads s u) \<le> t_priority (threads s x)))) \<or>
         (\<exists>x s'. old = Some x \<and> R = {x} \<and> Sched_pick (Suc MAX_PRIO) old None s = (Some x, s') \<and>
            Sched_dequeue x s = Some s') \<or>
         (R = {} \<and> Sched_pick (Suc MAX_PRIO) old None s = (None, s))"
proof -
  let ?Q = "rdyQueues s"
  have q: "u \<in> set (?Q k) \<longleftrightarrow> u \<in> R \<and> t_priority (threads s u) = k" for u k
    unfolding R_def using inv by (simp add: sched_inv_queued)
  have dist: "distinct (?Q k)" for k using inv by (simp add: sched_inv_def q_ok_def)
  have pr: "t_priority (threads s u) < Suc MAX_PRIO" for u
    using sched_inv_thread [OF inv, of u] by (simp add: thread_ok_def)
  have single: "tl (?Q k) = []" if "old = Some (hd (?Q k))" "?Q k \<noteq> []" for k
    using last [OF that(1), of k] that(2) dist [of k] by (cases "?Q k") (auto split: if_splits)
  have cnt: "rdyCount s = (\<Sum>i\<le>MAX_PRIO. length (?Q i))" using inv by (simp add: sched_inv_def q_ok_def)
  have two: "rdyCount s > 1" if "a \<in> R" "b \<in> R" "a \<noteq> b" for a b
    using q_two [OF inv] that unfolding R_def by blast
  consider (taken) j x s' where "j < Suc MAX_PRIO" "\<not> skipped old s j" "x = hd (?Q j)"
      "\<forall>k. j < k \<and> k < Suc MAX_PRIO \<longrightarrow> skipped old s k"
      "Sched_dequeue x s = Some s'" "Sched_pick (Suc MAX_PRIO) old None s = (Some x, s')"
    | (none) "\<forall>k<Suc MAX_PRIO. skipped old s k" "snd (Sched_pick (Suc MAX_PRIO) old None s) = s"
      "(\<forall>k<Suc MAX_PRIO. ?Q k = []) \<longrightarrow> fst (Sched_pick (Suc MAX_PRIO) old None s) = None"
    using pick_cases [of old s "Suc MAX_PRIO" None] single q by blast
  then show ?thesis
  proof cases
    case taken
    have "x \<in> set (?Q j)" using taken(2,3) by (auto simp: skipped_def)
    then have x: "x \<in> R" "t_priority (threads s x) = j" using q by simp_all
    have nonempty: "\<not> (rdyCount s > 1 \<and> old = Some x)" using taken(2,3) by (auto simp: skipped_def)
    show ?thesis
    proof (cases "old = Some x")
      case True
      have "R = {x}" using nonempty True two [OF x(1)] x(1) by auto
      then show ?thesis using True taken by blast
    next
      case False
      have "t_priority (threads s u) \<le> j" if u: "u \<in> R - set_option old" for u
      proof (rule ccontr)
        assume "\<not> t_priority (threads s u) \<le> j"
        then have sk: "skipped old s (t_priority (threads s u))" using taken(4) pr by simp
        have uq: "u \<in> set (?Q (t_priority (threads s u)))" using u q by simp
        then have "?Q (t_priority (threads s u)) = [u]"
          using sk single [of "t_priority (threads s u)"] u
          by (cases "?Q (t_priority (threads s u))") (auto simp: skipped_def)
        then show False using sk u by (simp add: skipped_def)
      qed
      moreover have "x \<in> R - set_option old" using False x(1) by auto
      ultimately show ?thesis using x(2) taken(3,5,6) by blast
    qed
  next
    case none
    have "R = {}"
    proof (rule ccontr)
      assume "R \<noteq> {}"
      then obtain u where u: "u \<in> R" by blast
      let ?k = "t_priority (threads s u)"
      have "?Q ?k \<noteq> []" using q [of u ?k] u by auto
      then have o: "rdyCount s > 1" "old = Some (hd (?Q ?k))"
        using none(1) pr by (auto simp: skipped_def)
      have "?Q j = []" if j: "j \<noteq> ?k" "j \<le> MAX_PRIO" for j
      proof (rule ccontr)
        assume ne: "?Q j \<noteq> []"
        then have "hd (?Q j) = hd (?Q ?k)" using none(1) j o(2) by (auto simp: skipped_def less_Suc_eq_le)
        then have "hd (?Q ?k) \<in> set (?Q j)" "hd (?Q ?k) \<in> set (?Q ?k)"
          using ne \<open>?Q ?k \<noteq> []\<close> by (metis list.set_sel(1))+
        then show False using q j(1) by auto
      qed
      then have "rdyCount s = length (?Q ?k)"
        unfolding cnt using pr [of u] by (subst sum.remove [of _ ?k]) auto
      moreover have "length (?Q ?k) = 1" using single [of ?k] o \<open>?Q ?k \<noteq> []\<close> by (cases "?Q ?k") auto
      ultimately show False using o by simp
    qed
    moreover have "?Q k = []" for k using q [of _ k] \<open>R = {}\<close> by (cases "?Q k") auto
    ultimately show ?thesis using none by (metis prod.collapse)
  qed
qed

definition ready_set :: "sched \<Rightarrow> ref set" where
  "ready_set s = {u. t_state (threads s u) = READY}"

lemma perform_leaves:
  assumes inv: "sched_inv s" and cur: "cur_ok old s" and st: "\<not> stays old s"
    and cpu: "cpu < length (idleThreads s)" "idleThreads s ! cpu = Some idle" "is_idle (threads s idle)"
  shows "\<exists>t w s'. Sched_perform old cpu s = Some (t, w, s') \<and> sched_inv s' \<and>
    t_state (threads s' t) = RUNNING \<and>
    (if ready_set s \<noteq> {} then
       t \<in> ready_set s \<and> t = hd (rdyQueues s (t_priority (threads s t))) \<and>
       (\<forall>u\<in>ready_set s. t_priority (threads s u) \<le> t_priority (threads s t))
     else t = (if requeues old s then the old else idle))"
proof -
  obtain s1 where s1: "Sched_retire old s = Some (Inr s1)" "sched_inv s1" "idleThreads s1 = idleThreads s"
    "\<And>u. t_priority (threads s1 u) = t_priority (threads s u)" "\<And>u. is_idle (threads s1 u) = is_idle (threads s u)"
    "\<And>u. old \<noteq> Some u \<Longrightarrow> threads s1 u = threads s u"
    "rdyQueues s1 = (if requeues old s then
      (rdyQueues s)(t_priority (threads s (the old)) := rdyQueues s (t_priority (threads s (the old))) @ [the old])
      else rdyQueues s)"
    using retire_leaves [OF inv cur st] by blast
  let ?R = "ready_set s" and ?R1 = "{u. t_state (threads s1 u) = READY}"
  have q: "u \<in> set (rdyQueues s k) \<longleftrightarrow> u \<in> ?R \<and> t_priority (threads s u) = k" for u k
    using inv by (simp add: sched_inv_queued ready_set_def)
  have q1: "u \<in> ?R1 \<longleftrightarrow> u \<in> set (rdyQueues s1 (t_priority (threads s u)))" for u
    using sched_inv_queued [OF s1(2), of u] s1(4) by simp
  have old: "t \<notin> ?R" if "old = Some t" for t
    using cur sched_inv_thread [OF inv, of t] that by (auto simp: cur_ok_def ready_set_def thread_ok_def)
  have R1: "?R1 = (if requeues old s then insert (the old) ?R else ?R)"
    unfolding set_eq_iff q1 s1(7) by (auto simp: q)
  have Rdiff: "?R1 - set_option old = ?R"
    using old R1 by (cases old) (auto simp: requeues_def)
  have last: "last (rdyQueues s1 k) = t" if "old = Some t" "t \<in> set (rdyQueues s1 k)" for k t
  proof -
    have "t \<notin> set (rdyQueues s k)" using q old [OF that(1)] by simp
    then show ?thesis using that unfolding s1(7) by (simp split: if_splits)
  qed
  have hd_eq: "hd (rdyQueues s1 (t_priority (threads s x))) = hd (rdyQueues s (t_priority (threads s x)))"
    if "x \<in> ?R" for x
  proof -
    have "rdyQueues s (t_priority (threads s x)) \<noteq> []" using that q [of x "t_priority (threads s x)"] by auto
    then show ?thesis unfolding s1(7) by auto
  qed
  have run: "\<exists>w s'. Sched_perform old cpu s = Some (x, w, s') \<and> sched_inv s' \<and> t_state (threads s' x) = RUNNING"
    if "Sched_pick (Suc MAX_PRIO) old None s1 = (Some x, s2)" "Sched_dequeue x s1 = Some s2" "x \<in> ?R1" for x s2
  proof -
    let ?f = "\<lambda>x. x\<lparr>t_state := RUNNING, t_newState := READY\<rparr>"
    have "sched_inv (upd_thread x ?f s2)"
      using dequeue_inv [OF s1(2), of x ?f] that sched_inv_thread [OF s1(2), of x]
      by (auto simp: thread_ok_def is_idle_def)
    then show ?thesis using that s1(1) by (simp add: Sched_perform_def)
  qed
  have "(?R \<noteq> {} \<and> (\<exists>x s'. Sched_pick (Suc MAX_PRIO) old None s1 = (Some x, s') \<and>
            Sched_dequeue x s1 = Some s' \<and> x \<in> ?R \<and>
            x = hd (rdyQueues s1 (t_priority (threads s1 x))) \<and>
            (\<forall>u\<in>?R. t_priority (threads s1 u) \<le> t_priority (threads s1 x)))) \<or>
         (\<exists>x s'. old = Some x \<and> ?R1 = {x} \<and> Sched_pick (Suc MAX_PRIO) old None s1 = (Some x, s') \<and>
            Sched_dequeue x s1 = Some s') \<or>
         (?R1 = {} \<and> Sched_pick (Suc MAX_PRIO) old None s1 = (None, s1))"
    using pick_spec [OF s1(2), of old] last unfolding Rdiff by simp
  then show ?thesis
  proof (elim disjE exE conjE)
    fix x s2
    assume x: "?R \<noteq> {}" "Sched_pick (Suc MAX_PRIO) old None s1 = (Some x, s2)"
      "Sched_dequeue x s1 = Some s2" "x \<in> ?R" "x = hd (rdyQueues s1 (t_priority (threads s1 x)))"
      "\<forall>u\<in>?R. t_priority (threads s1 u) \<le> t_priority (threads s1 x)"
    have x1: "x \<in> ?R1" using x(4) R1 by simp
    have "x = hd (rdyQueues s (t_priority (threads s x)))" using x(5) hd_eq [OF x(4)] s1(4) by simp
    moreover have "\<forall>u\<in>?R. t_priority (threads s u) \<le> t_priority (threads s x)" using x(6) s1(4) by simp
    ultimately show ?thesis using run [OF x(2,3) x1] x(1,4) by auto
  next
    fix x s2
    assume x: "old = Some x" "?R1 = {x}" "Sched_pick (Suc MAX_PRIO) old None s1 = (Some x, s2)"
      "Sched_dequeue x s1 = Some s2"
    have R: "?R = {}" using Rdiff x(1,2) by simp
    then have "requeues old s" using R1 x(2) by (metis insert_not_empty)
    then show ?thesis using run [OF x(3,4)] x(1,2) R by simp
  next
    assume idle: "?R1 = {}" "Sched_pick (Suc MAX_PRIO) old None s1 = (None, s1)"
    have R: "?R = {}" "\<not> requeues old s" using R1 idle(1) by (simp_all split: if_splits)
    have id: "is_idle (threads s1 idle)" using s1(5) cpu(3) by simp
    have "sched_inv (upd_thread idle (\<lambda>x. x\<lparr>t_state := RUNNING\<rparr>) s1)"
      using s1(2) sched_inv_thread [OF s1(2), of idle] id
      by (intro sched_inv_upd) (auto simp: thread_ok_def is_idle_def)
    then show ?thesis using s1(1,3) cpu R idle(2) by (simp add: Sched_perform_def)
  qed
qed

section \<open>All interleavings\<close>

lemma setReadyQuick_inv:
  assumes inv: "sched_inv s"
  shows "\<exists>s'. Sched_setReadyQuick now t s = Some s' \<and> sched_inv s' \<and> only_thread t s s'"
proof (cases "t_state (threads s t) = READY \<and> \<not> is_idle (threads s t)")
  case False
  show ?thesis
  proof (cases "is_idle (threads s t) \<or> t_state (threads s t) \<noteq> BLOCKED")
    case True
    then have "Sched_setReadyQuick now t s = Sched_setReady now t s"
      using False
      by (cases "t_state (threads s t)")
        (auto simp: Sched_setReadyQuick_def Sched_setReady_def Sched_setReadyState_def add_blocked_time_def)
    then show ?thesis using setReady_inv [OF inv] by simp
  next
    case False
    then show ?thesis using setReady_blocked(2) [OF inv, of t now] by blast
  qed
next
  case True
  obtain b w where add: "sched_inv (add_blocked_time now t s)"
    "add_blocked_time now t s = upd_thread t (\<lambda>x. x\<lparr>t_blocked := b, t_waitstart := w\<rparr>) s"
    using add_blocked_time_inv [OF inv] by blast
  let ?s = "add_blocked_time now t s" and ?f = "\<lambda>x. x\<lparr>t_state := BLOCKED\<rparr>"
  have rdy: "t_state (threads ?s t) = READY" using True add(2) by simp
  note ok = sched_inv_thread [OF add(1), of t]
  obtain s1 where s1: "Sched_dequeue t ?s = Some s1" "sched_inv (upd_thread t ?f s1)"
      "threads s1 = threads ?s" "idleThreads s1 = idleThreads ?s"
    using dequeue_inv [OF add(1) rdy, of ?f] ok rdy by (auto simp: thread_ok_def is_idle_def)
  have "sched_inv (Sched_enqueueQuick t (upd_thread t (\<lambda>x. x\<lparr>t_state := READY\<rparr>) (upd_thread t ?f s1)))"
    using s1 ok rdy by (intro enqueue_inv(2) [OF s1(2)]) (auto simp: thread_ok_def is_idle_def)
  moreover have "(threads ?s t)\<lparr>t_state := READY\<rparr> = threads ?s t"
    using rdy by (cases "threads ?s t") simp
  then have "upd_thread t (\<lambda>x. x\<lparr>t_state := READY\<rparr>) (upd_thread t ?f s1) = s1"
    using s1(3) by simp
  moreover have "t_event (threads ?s t) = 0" using ok rdy by (simp add: thread_ok_def)
  ultimately have "Sched_setReadyQuick now t s = Some (Sched_enqueueQuick t s1) \<and> sched_inv (Sched_enqueueQuick t s1)"
    using True s1(1) rdy by (simp add: Sched_setReadyQuick_def)
  then show ?thesis using s1(3,4) add(2) by (simp add: only_thread_def Sched_enqueueQuick_def Let_def)
qed

text \<open>
  One call of a function of the scheduler, under the lock, as its callers may make it. The
  side conditions are those under which the callers run: \<^verbatim>\<open>wait\<close> is called by the running thread
  for itself, \<^verbatim>\<open>removeThread\<close> for a thread that is running or blocked, and \<^verbatim>\<open>perform\<close> with the thread
  that ran on the processor.
\<close>

inductive sched_step :: "sched \<Rightarrow> sched \<Rightarrow> bool" where
  setReady: "Sched_setReady now t s = Some s' \<Longrightarrow> sched_step s s'"
| setReadyQuick: "Sched_setReadyQuick now t s = Some s' \<Longrightarrow> sched_step s s'"
| setBlocked: "Sched_setBlocked now t s = Some s' \<Longrightarrow> sched_step s s'"
| wait: "\<lbrakk>t_state (threads s t) = RUNNING; \<not> is_idle (threads s t); event \<le> EV_COUNT;
    Sched_wait now t t event object s = Some s'\<rbrakk> \<Longrightarrow> sched_step s s'"
| wakeup: "Sched_wakeup now event object all s = Some s' \<Longrightarrow> sched_step s s'"
| removeThread: "\<lbrakk>t_state (threads s t) = BLOCKED \<or> t_state (threads s t) = RUNNING \<and> t_event (threads s t) = 0;
    Sched_removeThread t s = Some s'\<rbrakk> \<Longrightarrow> sched_step s s'"
| adjustPrio: "Sched_adjustPrio now t tot s = Some s' \<Longrightarrow> sched_step s s'"
| perform: "\<lbrakk>cur_ok old s; cpu < length (idleThreads s); idleThreads s ! cpu = Some idle;
    is_idle (threads s idle); Sched_perform old cpu s = Some (t, w, s')\<rbrakk> \<Longrightarrow> sched_step s s'"
| signal: "sched_step s (upd_thread t (\<lambda>x. x\<lparr>t_sigmask := m\<rparr>) s)"

lemma perform_inv:
  assumes "sched_inv s" "cur_ok old s" "cpu < length (idleThreads s)" "idleThreads s ! cpu = Some idle"
    "is_idle (threads s idle)" "Sched_perform old cpu s = Some (t, w, s')"
  shows "sched_inv s'"
proof (cases "stays old s")
  case True
  then show ?thesis using retire_stays [OF assms(1,2)] assms(6) by (auto simp: Sched_perform_def)
next
  case False
  then show ?thesis using perform_leaves [OF assms(1,2) False assms(3-5)] assms(6) by auto
qed

lemma sched_step_inv:
  assumes "sched_step s s'" "sched_inv s"
  shows "sched_inv s'"
  using assms
proof (cases rule: sched_step.cases)
  case (setReady now t) then show ?thesis using setReady_inv [OF assms(2), of now t] by auto
next
  case (setReadyQuick now t) then show ?thesis using setReadyQuick_inv [OF assms(2), of now t] by auto
next
  case (setBlocked now t) then show ?thesis using setBlocked_inv [OF assms(2), of now t] by auto
next
  case (wait t event now object)
  moreover have "t_event (threads s t) = 0" using wait(4) by (simp add: Sched_wait_def split: if_splits)
  ultimately show ?thesis using wait_inv [OF assms(2), of t event now object] by auto
next
  case (wakeup now event object all)
  then have "1 \<le> event" "event \<le> EV_COUNT" by (auto simp: Sched_wakeup_def split: if_splits)
  then show ?thesis using wakeup wakeup_spec [OF assms(2), of event now object all] by auto
next
  case (removeThread t) then show ?thesis using removeThread_inv [OF assms(2), of t] by auto
next
  case (adjustPrio now t tot) then show ?thesis using adjustPrio_spec [OF assms(2) refl refl, of now t tot] by auto
next
  case (perform old cpu idle t w) then show ?thesis using perform_inv assms(2) by blast
next
  case (signal t m)
  then show ?thesis using assms(2) by (simp only:) (intro sched_inv_stats; simp)
qed

lemma sched_steps_inv: "sched_step\<^sup>*\<^sup>* s s' \<Longrightarrow> sched_inv s \<Longrightarrow> sched_inv s'"
  by (induction rule: rtranclp_induct) (auto intro: sched_step_inv)

text \<open>The threads at boot: nothing is queued, and every thread is blocked and waits for nothing.\<close>

definition sched_boot :: "sched \<Rightarrow> bool" where
  "sched_boot s \<longleftrightarrow> Sched_init True (length (idleThreads s)) (threads s) = Some (s\<lparr>idleThreads := replicate (length (idleThreads s)) None\<rparr>) \<and>
     (\<forall>t. t_state (threads s t) = BLOCKED \<and> t_event (threads s t) = 0 \<and> t_priority (threads s t) \<le> MAX_PRIO)"

lemma sched_boot_inv: "sched_boot s \<Longrightarrow> sched_inv s"
  by (cases s) (auto simp: sched_boot_def Sched_init_def sched_inv_def q_ok_def e_ok_def thread_ok_def)

section \<open>Properties\<close>

text \<open>C2: \<^verbatim>\<open>Sched::perform\<close> never runs into an assertion and keeps the invariant of the scheduler.
  A running thread with a deliverable signal keeps the processor. Otherwise, if threads are ready,
  the next one is the first one of the queue of the highest priority that any ready thread has, and
  not the old thread; if none is ready, the old thread continues if it wants to, and the idle
  thread of the processor runs if not.\<close>

theorem Sched_perform_correct:
  assumes "sched_inv s" "cur_ok old s"
    and "cpu < length (idleThreads s)" "idleThreads s ! cpu = Some idle" "is_idle (threads s idle)"
  shows "\<exists>t w s'. Sched_perform old cpu s = Some (t, w, s') \<and> sched_inv s' \<and>
    t_state (threads s' t) = RUNNING \<and>
    (if stays old s then old = Some t \<and> t_event (threads s' t) = 0
     else if ready_set s \<noteq> {} then
       old \<noteq> Some t \<and> t \<in> ready_set s \<and> t = hd (rdyQueues s (t_priority (threads s t))) \<and>
       (\<forall>u\<in>ready_set s. t_priority (threads s u) \<le> t_priority (threads s t))
     else t = (if requeues old s then the old else idle))"
proof (cases "stays old s")
  case True
  then show ?thesis
    using retire_stays [OF assms(1,2)] by (auto simp: Sched_perform_def)
next
  case False
  have "old \<noteq> Some t" if "t \<in> ready_set s" for t
    using that assms(2) sched_inv_thread [OF assms(1), of t]
    by (auto simp: cur_ok_def ready_set_def thread_ok_def)
  then show ?thesis using perform_leaves [OF assms(1,2) False assms(3-5)] False by metis
qed


definition ex_thread :: "nat \<Rightarrow> tstate \<Rightarrow> thread" where
  "ex_thread prio st = \<lparr>t_flags = 0, t_priority = prio, t_state = st, t_newState = READY, t_event = 0,
     t_evobject = 0, t_waitstart = 0, t_blocked = 0, t_prioGoodCnt = 0, t_sigmask = 0\<rparr>"

definition ex_sched :: sched where
  "ex_sched = \<lparr>threads = (\<lambda>_. ex_thread 0 BLOCKED)
     (1 := ex_thread 4 RUNNING, 2 := ex_thread 2 READY, 3 := ex_thread 3 READY,
      5 := (ex_thread 3 BLOCKED)\<lparr>t_event := 2, t_evobject := 7, t_waitstart := 10\<rparr>,
      6 := (ex_thread 3 BLOCKED)\<lparr>t_event := 2, t_evobject := 8\<rparr>,
      9 := (ex_thread 0 BLOCKED)\<lparr>t_flags := T_IDLE\<rparr>),
     rdyQueues = (\<lambda>_. [])(2 := [2], 3 := [3]), evlists = (\<lambda>_. [])(1 := [5, 6]),
     readyMask = 12, rdyCount = 2, idleThreads = [Some 9]\<rparr>"

lemma ex_mask: "bit (12 :: ulong) i \<longleftrightarrow> i = 2 \<or> i = 3"
proof -
  have mask: "(12 :: ulong) = push_bit 2 1 OR push_bit 3 1" by (simp add: push_bit_eq_mult)
  show ?thesis unfolding mask bit_or_iff bit_push_bit_iff bit_1_iff by auto
qed

lemma ex_sched_inv: "sched_inv ex_sched"
proof -
  have "q_ok (threads ex_sched) (rdyQueues ex_sched) (readyMask ex_sched) (rdyCount ex_sched)"
  proof -
    have mask: "readyMask ex_sched = 12" by (simp add: ex_sched_def)
    have "bit (readyMask ex_sched) i \<longleftrightarrow> rdyQueues ex_sched i \<noteq> []" for i
      unfolding mask ex_mask by (simp add: ex_sched_def)
    moreover have "rdyCount ex_sched = (\<Sum>i\<le>MAX_PRIO. length (rdyQueues ex_sched i))"
      by (simp add: ex_sched_def MAX_PRIO_def numeral_eq_Suc)
    moreover have "t \<in> set (rdyQueues ex_sched i) \<longleftrightarrow>
        t_state (threads ex_sched t) = READY \<and> t_priority (threads ex_sched t) = i" for t i
      by (auto simp: ex_sched_def ex_thread_def)
    moreover have "distinct (rdyQueues ex_sched i)" for i by (simp add: ex_sched_def)
    ultimately show ?thesis unfolding q_ok_def by blast
  qed
  moreover have "e_ok (threads ex_sched) (evlists ex_sched)"
    by (auto simp: e_ok_def ex_sched_def ex_thread_def)
  moreover have "thread_ok (threads ex_sched t)" for t
    by (auto simp: thread_ok_def ex_sched_def ex_thread_def is_idle_def T_IDLE_def MAX_PRIO_def EV_COUNT_def)
  ultimately show ?thesis by (simp add: sched_inv_def)
qed

theorem Sched_perform_correct_witness:
  "\<exists>w s'. Sched_perform (Some 1) 0 ex_sched = Some (3, w, s') \<and> sched_inv s'"
proof -
  have "cur_ok (Some 1) ex_sched" "\<not> stays (Some 1) ex_sched"
    by (simp_all add: cur_ok_def stays_def hasSignal_def ex_sched_def ex_thread_def)
  moreover have R: "ready_set ex_sched = {2, 3}"
    by (auto simp: ready_set_def ex_sched_def ex_thread_def)
  ultimately show ?thesis
    using Sched_perform_correct [OF ex_sched_inv, of "Some 1" 0 9]
    by (auto simp: ex_sched_def ex_thread_def is_idle_def T_IDLE_def)
qed

text \<open>C14: \<^verbatim>\<open>Sched::wakeup\<close> wakes the threads of the list of the event whose object is 0 or the given
  one, all of them or the first one: they wait for nothing afterwards, the blocked ones are ready,
  and the ones that are still running on their way into the wait are ready as soon as they give up
  the processor, so that no wakeup is lost. All other threads stay as they are.\<close>

theorem Sched_wakeup_correct:
  assumes "sched_inv s" "1 \<le> event" "event \<le> EV_COUNT"
  shows "\<exists>s'. Sched_wakeup now event object all s = Some s' \<and> sched_inv s' \<and>
    (\<forall>t. if t \<in> set (wake_targets object all (threads s) (evlists s (event - 1)))
         then t_event (threads s' t) = 0 \<and>
           (if t_state (threads s t) = RUNNING
            then t_state (threads s' t) = RUNNING \<and> t_newState (threads s' t) = READY
            else t_state (threads s' t) = READY)
         else threads s' t = threads s t)"
  using wakeup_spec [OF assms, of now object all] by (auto simp: woken_def Let_def)

theorem Sched_wakeup_correct_witness:
  "\<exists>s'. Sched_wakeup 30 2 7 True ex_sched = Some s' \<and> t_state (threads s' 5) = READY \<and>
     threads s' 6 = threads ex_sched 6"
proof -
  have w: "wake_targets 7 True (threads ex_sched) (evlists ex_sched 1) = [5]"
    by (simp add: wake_targets_def wakes_def ex_sched_def ex_thread_def)
  have st: "t_state (threads ex_sched 5) = BLOCKED" by (simp add: ex_sched_def ex_thread_def)
  obtain s' where s': "Sched_wakeup 30 2 7 True ex_sched = Some s'"
    "\<forall>t. if t \<in> set [5] then t_event (threads s' t) = 0 \<and>
           (if t_state (threads ex_sched t) = RUNNING
            then t_state (threads s' t) = RUNNING \<and> t_newState (threads s' t) = READY
            else t_state (threads s' t) = READY)
         else threads s' t = threads ex_sched t"
    using Sched_wakeup_correct [OF ex_sched_inv, of 2 30 7 True] w by (auto simp: EV_COUNT_def)
  then show ?thesis using st spec [OF s'(2), of 5] spec [OF s'(2), of 6] by simp
qed

text \<open>C1: whatever functions of the scheduler the threads and processors call, in any order, from
  the boot state on: a thread is in at most one ready queue, and then it is ready and has that
  priority; it is in at most one list of an event, and then it waits for that event; no thread
  is in a ready queue and in the list of an event, so the link fields of a thread serve one list
  at a time; and the counter and the mask agree with the queues.\<close>

theorem Sched_reachable:
  assumes "sched_boot s0" "sched_step\<^sup>*\<^sup>* s0 s"
  shows "(\<forall>t i. t \<in> set (rdyQueues s i) \<longleftrightarrow> t_state (threads s t) = READY \<and> t_priority (threads s t) = i) \<and>
    (\<forall>t e. t \<in> set (evlists s e) \<longleftrightarrow> t_event (threads s t) = Suc e) \<and>
    (\<forall>t i e. \<not> (t \<in> set (rdyQueues s i) \<and> t \<in> set (evlists s e))) \<and>
    (\<forall>i. distinct (rdyQueues s i) \<and> distinct (evlists s i) \<and> (bit (readyMask s) i \<longleftrightarrow> rdyQueues s i \<noteq> [])) \<and>
    rdyCount s = (\<Sum>i\<le>MAX_PRIO. length (rdyQueues s i))"
proof -
  have "sched_inv s" using sched_steps_inv [OF assms(2) sched_boot_inv [OF assms(1)]] .
  then show ?thesis unfolding sched_inv_def q_ok_def e_ok_def thread_ok_def by auto
qed

definition ex_boot :: sched where
  "ex_boot = \<lparr>threads = (\<lambda>_. ex_thread 2 BLOCKED), rdyQueues = (\<lambda>_. []), evlists = (\<lambda>_. []),
     readyMask = 0, rdyCount = 0, idleThreads = []\<rparr>"

theorem Sched_reachable_witness:
  "\<exists>s. sched_step\<^sup>*\<^sup>* ex_boot s \<and> t_state (threads s 1) = READY \<and> 1 \<in> set (rdyQueues s 2) \<and>
     (\<forall>e. 1 \<notin> set (evlists s e))"
proof -
  let ?s = "Sched_enqueue 1 (upd_thread 1 (\<lambda>x. x\<lparr>t_state := READY\<rparr>) ex_boot)"
  have "Sched_setReady 5 1 ex_boot = Some ?s"
    by (simp add: Sched_setReady_def Sched_setReadyState_def Sched_removeFromEventlist_def
        add_blocked_time_def ex_boot_def ex_thread_def is_idle_def)
  then have steps: "sched_step\<^sup>*\<^sup>* ex_boot ?s" by (blast intro: sched_step.setReady)
  have boot: "sched_boot ex_boot" by (simp add: sched_boot_def Sched_init_def ex_boot_def ex_thread_def MAX_PRIO_def)
  have "t_state (threads ?s 1) = READY" "1 \<in> set (rdyQueues ?s 2)"
    by (simp_all add: Sched_enqueue_def ex_boot_def ex_thread_def Let_def)
  then show ?thesis using Sched_reachable [OF boot steps] steps by blast
qed

text \<open>C34: \<^verbatim>\<open>Sched::adjustPrio\<close> never runs into an assertion: it lowers the priority by one, but not
  below 0, if the thread was blocked for less than a sixth of the period; it raises it by one, but
  not above the maximum, when the thread was blocked for at least half of the period for the
  eighth time in a row of such periods; and a ready thread moves to the queue of its new priority,
  so that the invariant is kept.\<close>

theorem Sched_adjustPrio_correct:
  assumes "sched_inv s"
    and "x = threads s t"
    and "blk = (if t_waitstart x > 0 then t_blocked x + (now - t_waitstart x) else t_blocked x)"
  shows "\<exists>s'. Sched_adjustPrio now t tot s = Some s' \<and> sched_inv s' \<and>
    (\<forall>u. u \<noteq> t \<longrightarrow> threads s' u = threads s u) \<and>
    t_state (threads s' t) = t_state x \<and> t_blocked (threads s' t) = 0 \<and>
    t_priority (threads s' t) \<le> MAX_PRIO \<and>
    t_priority (threads s' t) =
      (if blk < tot div 6 then t_priority x - 1
       else if tot div 2 \<le> blk \<and> t_priority x < MAX_PRIO \<and> t_prioGoodCnt x + 1 = 8 then t_priority x + 1
       else t_priority x) \<and>
    (t_state x = READY \<longrightarrow> t \<in> set (rdyQueues s' (t_priority (threads s' t))))"
proof -
  obtain s' where s': "Sched_adjustPrio now t tot s = Some s'" "sched_inv s'"
    "threads s' = (threads s)(t := x\<lparr>t_priority := fst (adjusted blk tot x),
      t_prioGoodCnt := snd (adjusted blk tot x), t_blocked := 0,
      t_waitstart := (if t_waitstart x > 0 then now else t_waitstart x)\<rparr>)"
    using adjustPrio_spec [OF assms, of tot] by blast
  moreover have "t_priority (threads s' t) \<le> MAX_PRIO"
    using sched_inv_thread [OF s'(2)] by (simp add: thread_ok_def)
  ultimately show ?thesis
    using sched_inv_queued [OF s'(2), of t] by (auto simp: adjusted_def PRIO_FORGIVE_CNT_def)
qed

theorem Sched_adjustPrio_correct_witness:
  "\<exists>s'. Sched_adjustPrio 100 3 60 ex_sched = Some s' \<and> t_priority (threads s' 3) = 2 \<and>
     3 \<in> set (rdyQueues s' 2)"
proof -
  have "t_priority (threads ex_sched 3) = 3" "t_state (threads ex_sched 3) = READY"
    "t_waitstart (threads ex_sched 3) = 0" "t_blocked (threads ex_sched 3) = 0"
    by (simp_all add: ex_sched_def ex_thread_def)
  moreover have "(0 :: u64) < 60 div 6" by (simp add: word_less_unat unat_div)
  ultimately show ?thesis
    using Sched_adjustPrio_correct [OF ex_sched_inv refl refl, of 100 3 60] by auto
qed

text \<open>\<^verbatim>\<open>Thread::haveHigherPrio\<close>, which only looks at the mask, answers whether some ready
  thread has a higher priority than the given one.\<close>

theorem haveHigherPrio_correct:
  assumes "sched_inv s"
  shows "haveHigherPrio t s \<longleftrightarrow>
    (\<exists>u. t_state (threads s u) = READY \<and> t_priority (threads s u) > t_priority (threads s t))"
proof -
  let ?p = "t_priority (threads s t)"
  have "push_bit (?p + 1) (1 :: ulong) - 1 = mask (?p + 1)"
    by (simp add: mask_eq_exp_minus_1)
  then have "haveHigherPrio t s \<longleftrightarrow> (\<exists>i. bit (readyMask s AND NOT (mask (?p + 1))) i)"
    unfolding haveHigherPrio_def using bit_eqI [of "readyMask s AND NOT (mask (?p + 1))" 0] by auto
  also have "\<dots> \<longleftrightarrow> (\<exists>i. bit (readyMask s) i \<and> ?p < i)"
  proof -
    have "bit (readyMask s AND NOT (mask (?p + 1))) i \<longleftrightarrow> bit (readyMask s) i \<and> ?p < i" for i
      using bit_imp_le_length [of "readyMask s" i] by (auto simp: bit_and_iff bit_not_iff bit_mask_iff)
    then show ?thesis by simp
  qed
  also have "\<dots> \<longleftrightarrow> (\<exists>i. rdyQueues s i \<noteq> [] \<and> ?p < i)"
    using assms by (simp add: sched_inv_def q_ok_def)
  also have "\<dots> \<longleftrightarrow> (\<exists>i u. u \<in> set (rdyQueues s i) \<and> ?p < i)"
    by (metis list.set_intros(1) list.exhaust list.set(1) empty_iff)
  finally show ?thesis using assms by (auto simp: sched_inv_queued)
qed

theorem haveHigherPrio_correct_witness: "haveHigherPrio 2 ex_sched \<and> \<not> haveHigherPrio 1 ex_sched"
proof -
  have "t_state (threads ex_sched 3) = READY" "t_priority (threads ex_sched 3) > t_priority (threads ex_sched 2)"
    by (simp_all add: ex_sched_def ex_thread_def)
  moreover have "\<not> t_priority (threads ex_sched u) > t_priority (threads ex_sched 1)" for u
    by (simp add: ex_sched_def ex_thread_def)
  ultimately show ?thesis
    unfolding haveHigherPrio_correct [OF ex_sched_inv] by blast
qed

end
