(* ===== verification/Sync.thy ===== *)
theory Sync
  imports Linked_Lists
begin

text \<open>
  Blocking synchronisation (\<^verbatim>\<open>kernel/src/blockedlist.cc\<close>, \<^verbatim>\<open>semaphore.cc\<close>, \<^verbatim>\<open>mutex.cc\<close> and their
  headers). \<^verbatim>\<open>BaseSem::down\<close> gives up the processor in the middle; it is the two functions
  \<open>BaseSem_enter\<close> (up to the switch) and \<open>BaseSem_leave\<close> (after it), and the step relations below
  interleave them with the calls of other threads. Each part runs under the spin lock of the
  semaphore, so it is one step.

  The waiting threads form a sequence; the last section goes down to the link fields, which the
  list shares with the ready queues. The counter is an \<^verbatim>\<open>int\<close>; its absolute value is bounded by
  the number of threads and the initial value, so it does not wrap.
\<close>

section \<open>Blocked lists and semaphores\<close>

definition BlockedList_block :: "ref \<Rightarrow> ref list \<Rightarrow> ref list" where
  "BlockedList_block t ws = ws @ [t]"

definition BlockedList_remove :: "ref \<Rightarrow> ref list \<Rightarrow> ref list" where
  "BlockedList_remove t ws = remove1 t ws"

text \<open>The first result is the thread that is made ready.\<close>

definition BlockedList_wakeup :: "ref list \<Rightarrow> ref option \<times> ref list" where
  "BlockedList_wakeup ws = (case ws of [] \<Rightarrow> (None, []) | t # ts \<Rightarrow> (Some t, ts))"

record sem =
  sm_value :: int
  sm_waiters :: "ref list"

definition BaseSem :: "int \<Rightarrow> sem" where
  "BaseSem v = \<lparr>sm_value = v, sm_waiters = []\<rparr>"

definition BaseSem_enter :: "ref \<Rightarrow> sem \<Rightarrow> bool \<times> sem" where
  "BaseSem_enter t s =
     (let s = s\<lparr>sm_value := sm_value s - 1\<rparr> in
      if sm_value s < 0 \<or> length (sm_waiters s) > 0 then
        (True, s\<lparr>sm_waiters := BlockedList_block t (sm_waiters s)\<rparr>)
      else (False, s))"

definition BaseSem_up :: "sem \<Rightarrow> ref option \<times> sem" where
  "BaseSem_up s =
     (let s = s\<lparr>sm_value := sm_value s + 1\<rparr>;
          (w, ws) = BlockedList_wakeup (sm_waiters s)
      in (w, s\<lparr>sm_waiters := ws\<rparr>))"

definition BaseSem_leave :: "bool \<Rightarrow> bool \<Rightarrow> ref \<Rightarrow> sem \<Rightarrow> bool \<times> ref option \<times> sem" where
  "BaseSem_leave allowSigs sig t s =
     (if allowSigs \<and> sig then
        let s = s\<lparr>sm_waiters := BlockedList_remove t (sm_waiters s)\<rparr>;
            (w, s) = BaseSem_up s
        in (False, w, s)
      else (True, None, s))"

definition BaseSem_tryDown :: "sem \<Rightarrow> bool \<times> sem" where
  "BaseSem_tryDown s =
     (if sm_value s > 0 \<and> length (sm_waiters s) = 0 then (True, s\<lparr>sm_value := sm_value s - 1\<rparr>)
      else (False, s))"

section \<open>Mutexes\<close>

definition MUTEX_INVALID :: nat where "MUTEX_INVALID = 0xFFFF"
definition MAX_THREAD_COUNT :: nat where "MAX_THREAD_COUNT = 8192"

record mutex =
  mx_sem :: sem
  mx_holder :: nat
  mx_depth :: int

definition Mutex :: mutex where
  "Mutex = \<lparr>mx_sem = BaseSem 1, mx_holder = MUTEX_INVALID, mx_depth = 0\<rparr>"

text \<open>
  The part of \<^verbatim>\<open>Mutex::down\<close> after \<^verbatim>\<open>Semaphore::down\<close>; in \<open>Mutex_enter\<close> the left result says that the
  thread sleeps and continues with \<open>Mutex_take\<close> when it is woken.
\<close>

definition Mutex_take :: "nat \<Rightarrow> mutex \<Rightarrow> mutex option" where
  "Mutex_take t m =
     (if mx_holder m = MUTEX_INVALID \<and> mx_depth m = 0 then
        Some (m\<lparr>mx_holder := t, mx_depth := mx_depth m + 1\<rparr>)
      else None)"

definition Mutex_enter :: "nat \<Rightarrow> mutex \<Rightarrow> (bool \<times> mutex) option" where
  "Mutex_enter t m =
     (if mx_holder m \<noteq> t then
        let (b, s) = BaseSem_enter t (mx_sem m); m = m\<lparr>mx_sem := s\<rparr> in
        if b then Some (True, m) else map_option (Pair False) (Mutex_take t m)
      else Some (False, m\<lparr>mx_depth := mx_depth m + 1\<rparr>))"

definition Mutex_tryDown :: "nat \<Rightarrow> mutex \<Rightarrow> bool \<times> mutex" where
  "Mutex_tryDown t m =
     (if mx_holder m = t then (True, m\<lparr>mx_depth := mx_depth m + 1\<rparr>)
      else
        let (r, s) = BaseSem_tryDown (mx_sem m); m = m\<lparr>mx_sem := s\<rparr> in
        if r then (True, m\<lparr>mx_holder := t, mx_depth := mx_depth m + 1\<rparr>) else (False, m))"

definition Mutex_up :: "nat \<Rightarrow> mutex \<Rightarrow> (ref option \<times> mutex) option" where
  "Mutex_up t m =
     (if mx_holder m \<noteq> t \<or> \<not> mx_depth m > 0 then None
      else
        let m = m\<lparr>mx_depth := mx_depth m - 1\<rparr> in
        if mx_depth m = 0 then
          let m = m\<lparr>mx_holder := MUTEX_INVALID\<rparr>; (w, s) = BaseSem_up (mx_sem m) in
          Some (w, m\<lparr>mx_sem := s\<rparr>)
        else Some (None, m))"

section \<open>Threads around a semaphore\<close>

text \<open>
  A thread is outside, asleep in \<^verbatim>\<open>down\<close>, awake again but not yet back from \<^verbatim>\<open>down\<close>, or inside,
  which means that \<^verbatim>\<open>down\<close> has returned true. The last rule is the return of an interrupted thread,
  whether it was woken by the signal only or by an \<^verbatim>\<open>up\<close>.
\<close>

datatype phase = Outside | Asleep | Awake | Inside

record semsys =
  ss_sem :: sem
  ss_phase :: "ref \<Rightarrow> phase"

definition wake :: "ref option \<Rightarrow> (ref \<Rightarrow> phase) \<Rightarrow> ref \<Rightarrow> phase" where
  "wake w ph = (case w of None \<Rightarrow> ph | Some t \<Rightarrow> ph(t := Awake))"

inductive sem_step :: "bool \<Rightarrow> semsys \<Rightarrow> semsys \<Rightarrow> bool" for sigs :: bool where
  enter: "\<lbrakk>ph t = Outside; BaseSem_enter t s = (b, s')\<rbrakk> \<Longrightarrow>
    sem_step sigs \<lparr>ss_sem = s, ss_phase = ph\<rparr>
      \<lparr>ss_sem = s', ss_phase = ph(t := if b then Asleep else Inside)\<rparr>"
| tryDown: "\<lbrakk>ph t = Outside; BaseSem_tryDown s = (b, s')\<rbrakk> \<Longrightarrow>
    sem_step sigs \<lparr>ss_sem = s, ss_phase = ph\<rparr>
      \<lparr>ss_sem = s', ss_phase = ph(t := if b then Inside else Outside)\<rparr>"
| up: "\<lbrakk>ph t = Inside; BaseSem_up s = (w, s')\<rbrakk> \<Longrightarrow>
    sem_step sigs \<lparr>ss_sem = s, ss_phase = ph\<rparr> \<lparr>ss_sem = s', ss_phase = wake w (ph(t := Outside))\<rparr>"
| leave: "\<lbrakk>ph t = Awake; BaseSem_leave sigs False t s = (True, w, s')\<rbrakk> \<Longrightarrow>
    sem_step sigs \<lparr>ss_sem = s, ss_phase = ph\<rparr> \<lparr>ss_sem = s', ss_phase = wake w (ph(t := Inside))\<rparr>"
| interrupt: "\<lbrakk>ph t = Asleep \<or> ph t = Awake; BaseSem_leave sigs True t s = (False, w, s')\<rbrakk> \<Longrightarrow>
    sem_step sigs \<lparr>ss_sem = s, ss_phase = ph\<rparr> \<lparr>ss_sem = s', ss_phase = wake w (ph(t := Outside))\<rparr>"

definition sem_start :: "nat \<Rightarrow> semsys" where
  "sem_start n = \<lparr>ss_sem = BaseSem (int n), ss_phase = (\<lambda>_. Outside)\<rparr>"

definition granted :: "(ref \<Rightarrow> phase) \<Rightarrow> ref set" where
  "granted ph = {t. ph t = Inside \<or> ph t = Awake}"

definition sem_ok :: "nat \<Rightarrow> int \<Rightarrow> ref list \<Rightarrow> (ref \<Rightarrow> phase) \<Rightarrow> bool" where
  "sem_ok n v ws ph \<longleftrightarrow> finite (granted ph) \<and> distinct ws \<and> (\<forall>t. t \<in> set ws \<longleftrightarrow> ph t = Asleep) \<and>
     v = int n - int (card (granted ph)) - int (length ws) \<and>
     card (granted ph) \<le> n \<and> (ws \<noteq> [] \<longrightarrow> card (granted ph) = n)"

definition sem_inv :: "nat \<Rightarrow> semsys \<Rightarrow> bool" where
  "sem_inv n S \<longleftrightarrow> sem_ok n (sm_value (ss_sem S)) (sm_waiters (ss_sem S)) (ss_phase S)"

lemmas base_defs = BaseSem_enter_def BaseSem_up_def BaseSem_leave_def BaseSem_tryDown_def
  BlockedList_block_def BlockedList_remove_def BlockedList_wakeup_def

lemma granted_upd [simp]:
  "granted (ph(t := Inside)) = insert t (granted ph)" "granted (ph(t := Awake)) = insert t (granted ph)"
  "granted (ph(t := Asleep)) = granted ph - {t}" "granted (ph(t := Outside)) = granted ph - {t}"
  by (auto simp: granted_def)

lemma granted_iff: "t \<in> granted ph \<longleftrightarrow> ph t = Inside \<or> ph t = Awake"
  by (simp add: granted_def)

lemma sem_ok_block:
  assumes "sem_ok n v ws ph" "ph t = Outside" "v - 1 < 0 \<or> ws \<noteq> []"
  shows "sem_ok n (v - 1) (ws @ [t]) (ph(t := Asleep))"
proof -
  have "t \<notin> granted ph" "t \<notin> set ws" using assms by (auto simp: sem_ok_def granted_iff)
  moreover have "card (granted ph) = n" using assms(1,3) unfolding sem_ok_def by (cases ws) auto
  ultimately show ?thesis using assms(1) by (simp add: sem_ok_def)
qed

lemma sem_ok_get:
  assumes "sem_ok n v ws ph" "ph t = Outside" "0 < v" "ws = []"
  shows "sem_ok n (v - 1) ws (ph(t := Inside))"
proof -
  have "t \<notin> granted ph" using assms by (auto simp: granted_iff)
  then show ?thesis using assms unfolding sem_ok_def by auto
qed

lemma sem_ok_up:
  assumes "sem_ok n v ws ph" "ph t = Inside" "BlockedList_wakeup ws = (w, ws')"
  shows "sem_ok n (v + 1) ws' (wake w (ph(t := Outside)))"
proof -
  have t: "t \<in> granted ph" "t \<notin> set ws" using assms(1,2) by (auto simp: sem_ok_def granted_iff)
  have fin: "finite (granted ph)" using assms(1) by (simp add: sem_ok_def)
  obtain k where card: "card (granted ph - {t}) = k" "card (granted ph) = Suc k"
    using card.remove [OF fin t(1)] by simp
  show ?thesis
  proof (cases ws)
    case Nil
    have "sem_ok n (v + 1) [] (ph(t := Outside))"
      using assms(1) Nil fin card by (simp add: sem_ok_def)
    then show ?thesis using assms(3) Nil by (simp add: BlockedList_wakeup_def wake_def)
  next
    case (Cons u us)
    then have pu: "ph u = Asleep" "u \<noteq> t" using assms(1) t by (auto simp: sem_ok_def)
    then have u: "u \<notin> granted ph" "u \<noteq> t" by (simp_all add: granted_iff)
    have "card (granted (ph(t := Outside, u := Awake))) = Suc k" using u card fin by simp
    moreover have "x \<in> set us \<longleftrightarrow> (ph(t := Outside, u := Awake)) x = Asleep" for x
    proof -
      have "x = u \<or> x \<in> set us \<longleftrightarrow> ph x = Asleep" "u \<notin> set us" using assms(1) Cons by (simp_all add: sem_ok_def)
      then show ?thesis using t(2) Cons by (cases "x = t"; cases "x = u") simp_all
    qed
    moreover have "distinct us" "Suc k = n" "v + 1 = int n - int (Suc k) - int (length us)"
      using assms(1) Cons card(2) by (simp_all add: sem_ok_def)
    ultimately have "sem_ok n (v + 1) us (ph(t := Outside, u := Awake))"
      using fin by (simp add: sem_ok_def del: fun_upd_apply)
    then show ?thesis using assms(3) Cons by (auto simp: BlockedList_wakeup_def wake_def)
  qed
qed

lemma sem_step_inv:
  assumes "sem_step False S S'" "sem_inv n S"
  shows "sem_inv n S'"
  using assms
proof (cases rule: sem_step.cases)
  case (enter ph t s b s')
  have ok: "sem_ok n (sm_value s) (sm_waiters s) ph" using enter assms(2) by (simp add: sem_inv_def)
  show ?thesis
  proof (cases "sm_value s - 1 < 0 \<or> sm_waiters s \<noteq> []")
    case True
    then show ?thesis using sem_ok_block [OF ok enter(3) True] enter
      by (auto simp: sem_inv_def base_defs)
  next
    case False
    then show ?thesis using sem_ok_get [OF ok enter(3)] enter
      by (auto simp: sem_inv_def base_defs)
  qed
next
  case (tryDown ph t s b s')
  have ok: "sem_ok n (sm_value s) (sm_waiters s) ph" using tryDown assms(2) by (simp add: sem_inv_def)
  show ?thesis
  proof (cases b)
    case True
    then show ?thesis using sem_ok_get [OF ok tryDown(3)] tryDown
      by (auto simp: sem_inv_def base_defs split: if_splits)
  next
    case False
    then have "ph(t := Outside) = ph" using tryDown by auto
    then show ?thesis using ok tryDown False by (auto simp: sem_inv_def base_defs split: if_splits)
  qed
next
  case (up ph t s w s')
  then show ?thesis
    using assms(2) sem_ok_up [of n "sm_value s" "sm_waiters s" ph t]
    by (auto simp: sem_inv_def BaseSem_up_def split: prod.splits)
next
  case (leave ph t s w s')
  then have "granted (ph(t := Inside)) = granted ph" by (auto simp: granted_iff)
  then show ?thesis
    using leave assms(2) by (auto simp: sem_inv_def sem_ok_def BaseSem_leave_def wake_def simp del: granted_upd)
next
  case (interrupt ph t s w s')
  then show ?thesis by (simp add: BaseSem_leave_def)
qed

lemma sem_steps_inv: "(sem_step False)\<^sup>*\<^sup>* S S' \<Longrightarrow> sem_inv n S \<Longrightarrow> sem_inv n S'"
  by (induction rule: rtranclp_induct) (auto intro: sem_step_inv)

lemma sem_start_inv: "sem_inv n (sem_start n)"
  by (simp add: sem_inv_def sem_ok_def sem_start_def BaseSem_def granted_def)

section \<open>Threads around a mutex\<close>

text \<open>
  A step yields no state when it fails an assertion. The side conditions: thread ids are smaller
  than \<^verbatim>\<open>MAX_THREAD_COUNT\<close>, and the nesting depth, a \<^verbatim>\<open>short\<close>, stays in its range.
\<close>

record mxsys =
  ms_mutex :: mutex
  ms_phase :: "ref \<Rightarrow> phase"

inductive mx_step :: "mxsys \<Rightarrow> mxsys option \<Rightarrow> bool" where
  enter: "\<lbrakk>t < MAX_THREAD_COUNT; ph t = Outside \<or> ph t = Inside; mx_depth m < 32767\<rbrakk> \<Longrightarrow>
    mx_step \<lparr>ms_mutex = m, ms_phase = ph\<rparr>
      (map_option (\<lambda>(b, m'). \<lparr>ms_mutex = m', ms_phase = ph(t := if b then Asleep else Inside)\<rparr>)
        (Mutex_enter t m))"
| take: "\<lbrakk>t < MAX_THREAD_COUNT; ph t = Awake\<rbrakk> \<Longrightarrow>
    mx_step \<lparr>ms_mutex = m, ms_phase = ph\<rparr>
      (map_option (\<lambda>m'. \<lparr>ms_mutex = m', ms_phase = ph(t := Inside)\<rparr>) (Mutex_take t m))"
| tryDown: "\<lbrakk>t < MAX_THREAD_COUNT; ph t = Outside \<or> ph t = Inside; mx_depth m < 32767;
    Mutex_tryDown t m = (b, m')\<rbrakk> \<Longrightarrow>
    mx_step \<lparr>ms_mutex = m, ms_phase = ph\<rparr>
      (Some \<lparr>ms_mutex = m', ms_phase = (if b then ph(t := Inside) else ph)\<rparr>)"
| up: "\<lbrakk>t < MAX_THREAD_COUNT; ph t = Inside\<rbrakk> \<Longrightarrow>
    mx_step \<lparr>ms_mutex = m, ms_phase = ph\<rparr>
      (map_option (\<lambda>(w, m'). \<lparr>ms_mutex = m',
          ms_phase = (if mx_holder m' = MUTEX_INVALID then wake w (ph(t := Outside)) else ph)\<rparr>)
        (Mutex_up t m))"

inductive mx_reach :: "mxsys \<Rightarrow> bool" where
  start: "mx_reach \<lparr>ms_mutex = Mutex, ms_phase = (\<lambda>_. Outside)\<rparr>"
| step: "\<lbrakk>mx_reach M; mx_step M (Some M')\<rbrakk> \<Longrightarrow> mx_reach M'"

definition mx_abs :: "mxsys \<Rightarrow> semsys" where
  "mx_abs M = \<lparr>ss_sem = mx_sem (ms_mutex M), ss_phase = ms_phase M\<rparr>"

definition holder_ok :: "mxsys \<Rightarrow> bool" where
  "holder_ok M \<longleftrightarrow>
     (if mx_holder (ms_mutex M) = MUTEX_INVALID
      then mx_depth (ms_mutex M) = 0 \<and> (\<forall>t. ms_phase M t \<noteq> Inside)
      else mx_depth (ms_mutex M) \<ge> 1 \<and> (\<forall>t. ms_phase M t = Inside \<longleftrightarrow> t = mx_holder (ms_mutex M)))"

definition mx_inv :: "mxsys \<Rightarrow> bool" where
  "mx_inv M \<longleftrightarrow> sem_inv 1 (mx_abs M) \<and> holder_ok M"

lemma sole_granted:
  assumes "sem_ok 1 v ws ph" "ph t = Inside \<or> ph t = Awake" "ph u = Inside \<or> ph u = Awake"
  shows "u = t"
proof -
  have "finite (granted ph)" "card (granted ph) \<le> 1" using assms(1) by (simp_all add: sem_ok_def)
  then show ?thesis using assms(2,3) by (auto simp: granted_iff card_le_Suc0_iff_eq)
qed

lemma tid_valid: "t < MAX_THREAD_COUNT \<Longrightarrow> t \<noteq> MUTEX_INVALID"
  by (simp add: MAX_THREAD_COUNT_def MUTEX_INVALID_def)

lemma holder_iff:
  assumes "mx_inv \<lparr>ms_mutex = m, ms_phase = ph\<rparr>" "t < MAX_THREAD_COUNT"
  shows "mx_holder m = t \<longleftrightarrow> ph t = Inside"
  using assms tid_valid [OF assms(2)] by (auto simp: mx_inv_def holder_ok_def split: if_splits)

text \<open>
  The mutex simulates a semaphore with the value one: each step is a step of the semaphore or
  leaves it alone, and no assertion fails.
\<close>

lemma mx_enter_sim:
  assumes inv: "mx_inv \<lparr>ms_mutex = m, ms_phase = ph\<rparr>" and t: "t < MAX_THREAD_COUNT"
    and ph: "ph t = Outside \<or> ph t = Inside"
  shows "\<exists>b m'. Mutex_enter t m = Some (b, m') \<and>
    mx_inv \<lparr>ms_mutex = m', ms_phase = ph(t := if b then Asleep else Inside)\<rparr>"
proof (cases "ph t = Inside")
  case True
  then have "mx_holder m = t" using holder_iff [OF inv t] by simp
  moreover have "ph(t := Inside) = ph" using True by (simp add: fun_upd_idem)
  ultimately show ?thesis
    using inv True by (auto simp: Mutex_enter_def mx_inv_def mx_abs_def holder_ok_def split: if_splits)
next
  case False
  then have out: "ph t = Outside" using ph by simp
  then have h: "mx_holder m \<noteq> t" using holder_iff [OF inv t] by simp
  obtain b s' where en: "BaseSem_enter t (mx_sem m) = (b, s')" by force
  let ?ph = "ph(t := if b then Asleep else Inside)"
  have "sem_step False \<lparr>ss_sem = mx_sem m, ss_phase = ph\<rparr> \<lparr>ss_sem = s', ss_phase = ?ph\<rparr>"
    using out en by (rule sem_step.enter)
  then have sinv: "sem_inv 1 \<lparr>ss_sem = s', ss_phase = ?ph\<rparr>"
    using inv by (auto simp: mx_inv_def mx_abs_def intro: sem_step_inv)
  show ?thesis
  proof (cases b)
    case True
    then show ?thesis
      using en h sinv inv out by (auto simp: Mutex_enter_def mx_inv_def mx_abs_def holder_ok_def split: if_splits)
  next
    case False
    have none: "ph u \<noteq> Inside" for u
    proof
      assume u: "ph u = Inside"
      then have "u \<noteq> t" using out by auto
      then show False
        using sole_granted [of "sm_value s'" "sm_waiters s'" ?ph t u] sinv False u by (simp add: sem_inv_def)
    qed
    then have "mx_holder m = MUTEX_INVALID" "mx_depth m = 0"
      using inv by (auto simp: mx_inv_def holder_ok_def split: if_splits)
    then show ?thesis
      using en h sinv False none tid_valid [OF t]
      by (auto simp: Mutex_enter_def Mutex_take_def mx_inv_def mx_abs_def holder_ok_def)
  qed
qed

lemma mx_take_sim:
  assumes inv: "mx_inv \<lparr>ms_mutex = m, ms_phase = ph\<rparr>" and t: "t < MAX_THREAD_COUNT" and ph: "ph t = Awake"
  shows "\<exists>m'. Mutex_take t m = Some m' \<and> mx_inv \<lparr>ms_mutex = m', ms_phase = ph(t := Inside)\<rparr>"
proof -
  have ok: "sem_ok 1 (sm_value (mx_sem m)) (sm_waiters (mx_sem m)) ph"
    using inv by (simp add: mx_inv_def mx_abs_def sem_inv_def)
  have none: "ph u \<noteq> Inside" for u
    using sole_granted [OF ok, of t u] ph by auto
  then have h: "mx_holder m = MUTEX_INVALID" "mx_depth m = 0"
    using inv by (auto simp: mx_inv_def holder_ok_def split: if_splits)
  have "sem_step False \<lparr>ss_sem = mx_sem m, ss_phase = ph\<rparr>
      \<lparr>ss_sem = mx_sem m, ss_phase = wake None (ph(t := Inside))\<rparr>"
    using ph by (rule sem_step.leave) (simp add: BaseSem_leave_def)
  then have "sem_inv 1 \<lparr>ss_sem = mx_sem m, ss_phase = ph(t := Inside)\<rparr>"
    using inv by (auto simp: mx_inv_def mx_abs_def wake_def intro: sem_step_inv)
  then show ?thesis
    using h none tid_valid [OF t] by (auto simp: Mutex_take_def mx_inv_def mx_abs_def holder_ok_def)
qed

lemma mx_tryDown_sim:
  assumes inv: "mx_inv \<lparr>ms_mutex = m, ms_phase = ph\<rparr>" and t: "t < MAX_THREAD_COUNT"
    and ph: "ph t = Outside \<or> ph t = Inside" and td: "Mutex_tryDown t m = (b, m')"
  shows "mx_inv \<lparr>ms_mutex = m', ms_phase = (if b then ph(t := Inside) else ph)\<rparr>"
proof (cases "ph t = Inside")
  case True
  then have "mx_holder m = t" using holder_iff [OF inv t] by simp
  moreover have "ph(t := Inside) = ph" using True by (simp add: fun_upd_idem)
  moreover have "b \<and> m' = m\<lparr>mx_depth := mx_depth m + 1\<rparr>"
    using td calculation(1) by (auto simp: Mutex_tryDown_def)
  ultimately show ?thesis
    using inv tid_valid [OF t] by (simp add: mx_inv_def mx_abs_def holder_ok_def)
next
  case False
  then have out: "ph t = Outside" using ph by simp
  then have h: "mx_holder m \<noteq> t" using holder_iff [OF inv t] by simp
  show ?thesis
  proof (cases "mx_holder m = MUTEX_INVALID")
    case True
    then have none: "mx_depth m = 0" "\<And>u. ph u \<noteq> Inside" using inv by (auto simp: mx_inv_def holder_ok_def)
    obtain r s' where en: "BaseSem_tryDown (mx_sem m) = (r, s')" by force
    have "sem_step False \<lparr>ss_sem = mx_sem m, ss_phase = ph\<rparr> \<lparr>ss_sem = s', ss_phase = ph(t := if r then Inside else Outside)\<rparr>"
      using out en by (rule sem_step.tryDown)
    then have "sem_inv 1 \<lparr>ss_sem = s', ss_phase = ph(t := if r then Inside else Outside)\<rparr>"
      using inv by (auto simp: mx_inv_def mx_abs_def intro: sem_step_inv)
    moreover have "ph(t := Outside) = ph" using out by auto
    ultimately show ?thesis
      using td h en none True tid_valid [OF t]
      by (auto simp: Mutex_tryDown_def mx_inv_def mx_abs_def holder_ok_def split: if_splits)
  next
    case held: False
    then have "ph (mx_holder m) = Inside" using inv by (simp add: mx_inv_def holder_ok_def)
    then have "granted ph \<noteq> {}" by (auto simp: granted_def)
    then have "\<not> 0 < sm_value (mx_sem m)"
      using inv by (auto simp: mx_inv_def mx_abs_def sem_inv_def sem_ok_def card_gt_0_iff)
    then have "b = False" "m' = m" using td h by (auto simp: Mutex_tryDown_def BaseSem_tryDown_def split: if_splits)
    then show ?thesis using inv by simp
  qed
qed

lemma mx_up_sim:
  assumes inv: "mx_inv \<lparr>ms_mutex = m, ms_phase = ph\<rparr>" and t: "t < MAX_THREAD_COUNT" and ph: "ph t = Inside"
  shows "\<exists>w m'. Mutex_up t m = Some (w, m') \<and>
    mx_inv \<lparr>ms_mutex = m', ms_phase = (if mx_holder m' = MUTEX_INVALID then wake w (ph(t := Outside)) else ph)\<rparr>"
proof -
  have h: "mx_holder m = t" "mx_depth m \<ge> 1" "\<And>u. ph u = Inside \<longleftrightarrow> u = t"
    using inv ph by (auto simp: mx_inv_def holder_ok_def split: if_splits)
  show ?thesis
  proof (cases "mx_depth m = 1")
    case True
    obtain w s' where up: "BaseSem_up (mx_sem m) = (w, s')" by force
    have "sem_step False \<lparr>ss_sem = mx_sem m, ss_phase = ph\<rparr> \<lparr>ss_sem = s', ss_phase = wake w (ph(t := Outside))\<rparr>"
      using ph up by (rule sem_step.up)
    then have "sem_inv 1 \<lparr>ss_sem = s', ss_phase = wake w (ph(t := Outside))\<rparr>"
      using inv by (auto simp: mx_inv_def mx_abs_def intro: sem_step_inv)
    then show ?thesis
      using h True up by (auto simp: Mutex_up_def mx_inv_def mx_abs_def holder_ok_def wake_def split: option.splits)
  next
    case False
    then show ?thesis
      using h inv tid_valid [OF t] by (auto simp: Mutex_up_def Let_def mx_inv_def mx_abs_def holder_ok_def)
  qed
qed

lemma mx_step_inv:
  assumes "mx_step M r" "mx_inv M"
  shows "\<exists>M'. r = Some M' \<and> mx_inv M'"
  using assms
proof (cases rule: mx_step.cases)
  case (enter t ph m)
  then obtain b m' where "Mutex_enter t m = Some (b, m')"
    "mx_inv \<lparr>ms_mutex = m', ms_phase = ph(t := if b then Asleep else Inside)\<rparr>"
    using mx_enter_sim [of m ph t] assms(2) by blast
  then show ?thesis using enter(2) by simp
next
  case (take t ph m)
  then show ?thesis using mx_take_sim [of m ph t] assms(2) by auto
next
  case (tryDown t ph m b m')
  then show ?thesis using mx_tryDown_sim [of m ph t b m'] assms(2) by simp
next
  case (up t ph m)
  then obtain w m' where "Mutex_up t m = Some (w, m')" "mx_inv \<lparr>ms_mutex = m',
      ms_phase = (if mx_holder m' = MUTEX_INVALID then wake w (ph(t := Outside)) else ph)\<rparr>"
    using mx_up_sim [of m ph t] assms(2) by blast
  then show ?thesis using up(2) by simp
qed

lemma mx_reach_inv: "mx_reach M \<Longrightarrow> mx_inv M"
proof (induction rule: mx_reach.induct)
  case start
  then show ?case
    using sem_start_inv [of 1] by (simp add: mx_inv_def mx_abs_def holder_ok_def Mutex_def sem_start_def)
next
  case (step M M')
  then show ?case using mx_step_inv [of M "Some M'"] by auto
qed

section \<open>The link fields of waiting threads\<close>

text \<open>
  \<^verbatim>\<open>BlockedList\<close> links its threads through the fields that the ready queues use
  (\<^verbatim>\<open>class ThreadBase : public esc::DListItem\<close>). \<^verbatim>\<open>Sched::unblock\<close> of a blocked thread appends it to a
  ready queue, that is, overwrites its links.
\<close>

fun BlockedList_wakeupAll_loop :: "nat \<Rightarrow> ref option \<Rightarrow> links \<Rightarrow> lhead \<Rightarrow> (links \<times> lhead) option" where
  "BlockedList_wakeupAll_loop fuel None st rq = Some (st, rq)"
| "BlockedList_wakeupAll_loop 0 (Some t) st rq = None"
| "BlockedList_wakeupAll_loop (Suc fuel) (Some t) st rq =
     do {
       (st, rq) \<leftarrow> DList_append t st rq;
       BlockedList_wakeupAll_loop fuel (l_next st t) st rq
     }"

definition BlockedList_wakeupAll :: "nat \<Rightarrow> links \<Rightarrow> lhead \<Rightarrow> lhead \<Rightarrow> (links \<times> lhead \<times> lhead) option" where
  "BlockedList_wakeupAll fuel st wl rq =
     do {
       (st, rq) \<leftarrow> BlockedList_wakeupAll_loop fuel (l_head wl) st rq;
       Some (st, list_clear wl, rq)
     }"

text \<open>
  A signal for the waiting thread \<open>t\<close>: it is made ready, taken from the ready queue by the scheduler,
  and returns from \<^verbatim>\<open>down\<close> through its signal path, which takes it out of the waiters and calls \<^verbatim>\<open>up\<close>.
  The first result is the thread that \<^verbatim>\<open>up\<close> wakes.
\<close>

definition BaseSem_signalled ::
    "nat \<Rightarrow> ref \<Rightarrow> links \<Rightarrow> lhead \<Rightarrow> lhead \<Rightarrow> (ref option \<times> links \<times> lhead \<times> lhead) option" where
  "BaseSem_signalled fuel t st wl rq =
     do {
       (st, rq) \<leftarrow> DList_append t st rq;
       let (_, st, rq) = DList_removeFirst st rq;
       (_, st, wl) \<leftarrow> SList_remove fuel t st wl;
       (w, st, wl) \<leftarrow> SList_removeFirst st wl;
       (st, rq) \<leftarrow> (case w of None \<Rightarrow> Some (st, rq) | Some u \<Rightarrow> DList_append u st rq);
       Some (w, st, wl, rq)
     }"

section \<open>Properties\<close>

text \<open>C10: without signals, any number of threads in any interleaving of \<^verbatim>\<open>down\<close>, \<^verbatim>\<open>tryDown\<close> and \<^verbatim>\<open>up\<close> on a
  semaphore with the initial value n: at most n threads are inside; the waiting list holds
  exactly the sleeping threads; and a thread sleeps only while n threads are inside or on their way
  inside, so no wakeup is lost.\<close>

theorem Semaphore_exclusion:
  assumes "(sem_step False)\<^sup>*\<^sup>* (sem_start n) S"
  shows "finite {t. ss_phase S t = Inside} \<and> card {t. ss_phase S t = Inside} \<le> n \<and>
    distinct (sm_waiters (ss_sem S)) \<and> set (sm_waiters (ss_sem S)) = {t. ss_phase S t = Asleep} \<and>
    (\<forall>t. ss_phase S t = Asleep \<longrightarrow> card {t. ss_phase S t = Inside \<or> ss_phase S t = Awake} = n)"
proof -
  have inv: "sem_ok n (sm_value (ss_sem S)) (sm_waiters (ss_sem S)) (ss_phase S)"
    using sem_steps_inv [OF assms sem_start_inv] by (simp add: sem_inv_def)
  have sub: "{t. ss_phase S t = Inside} \<subseteq> granted (ss_phase S)" by (auto simp: granted_def)
  have "sm_waiters (ss_sem S) \<noteq> []" if "ss_phase S t = Asleep" for t
    using inv that by (auto simp: sem_ok_def)
  moreover have "set (sm_waiters (ss_sem S)) = {t. ss_phase S t = Asleep}"
    using inv by (auto simp: sem_ok_def)
  ultimately show ?thesis
    using inv sub finite_subset [OF sub] card_mono [OF _ sub]
    by (auto simp: sem_ok_def granted_def)
qed

theorem Semaphore_exclusion_witness:
  "\<exists>S. (sem_step False)\<^sup>*\<^sup>* (sem_start 1) S \<and> ss_phase S 5 = Inside \<and> ss_phase S 6 = Asleep \<and>
     card {t. ss_phase S t = Inside} \<le> 1"
proof -
  let ?s1 = "\<lparr>ss_sem = \<lparr>sm_value = 0, sm_waiters = []\<rparr>, ss_phase = (\<lambda>_. Outside)(5 := if False then Asleep else Inside)\<rparr>"
  let ?s2 = "\<lparr>ss_sem = \<lparr>sm_value = -1, sm_waiters = [6]\<rparr>,
    ss_phase = ((\<lambda>_. Outside)(5 := if False then Asleep else Inside))(6 := if True then Asleep else Inside)\<rparr>"
  have "sem_step False (sem_start 1) ?s1"
    unfolding sem_start_def by (rule sem_step.enter) (simp_all add: base_defs BaseSem_def)
  moreover have "sem_step False ?s1 ?s2"
    by (rule sem_step.enter) (simp_all add: base_defs)
  ultimately have "(sem_step False)\<^sup>*\<^sup>* (sem_start 1) ?s2" by (meson converse_rtranclp_into_rtranclp r_into_rtranclp)
  then show ?thesis
    using Semaphore_exclusion [of 1 ?s2] by (intro exI [of _ ?s2]) simp
qed




text \<open>A signal for a thread in the middle of the waiters breaks the list, because making the
  thread ready cuts the link to the threads behind it: afterwards the list claims to hold one
  thread but has no head, the thread behind is lost, and the next \<^verbatim>\<open>up\<close> follows a null pointer in
  the kernel.\<close>

theorem BaseSem_signalled_breaks:
  assumes "sl_rep st wl [a, b, c]" "dl_rep st rq []"
  shows "\<exists>st' wl' rq'. BaseSem_signalled 4 b st wl rq = Some (Some a, st', wl', rq') \<and>
    l_len wl' = 1 \<and> l_head wl' = None \<and> SList_removeFirst st' wl' = None"
  using assms
  by (auto simp: BaseSem_signalled_def sl_rep_def dl_rep_def DList_append_def DList_removeFirst_def
      SList_remove_def SList_removeAt_def SList_removeFirst_def numeral_eq_Suc Let_def)

theorem BaseSem_signalled_breaks_witness:
  "\<exists>st wl rq st' wl' rq'. BaseSem_signalled 4 2 st wl rq = Some (Some 1, st', wl', rq') \<and>
     SList_removeFirst st' wl' = None"
proof -
  let ?st = "\<lparr>l_next = (\<lambda>_. None)(1 := Some 2, 2 := Some 3), l_prev = (\<lambda>_. None)\<rparr>"
  let ?wl = "\<lparr>l_head = Some 1, l_tail = Some 3, l_len = 3\<rparr>"
  let ?rq = "\<lparr>l_head = None, l_tail = None, l_len = 0\<rparr>"
  have "sl_rep ?st ?wl [1, 2, 3]" "dl_rep ?st ?rq []" by (simp_all add: sl_rep_def dl_rep_def)
  then show ?thesis using BaseSem_signalled_breaks [of ?st ?wl 1 2 3 ?rq] by blast
qed

text \<open>\<^verbatim>\<open>BlockedList::wakeupAll\<close> wakes the first blocked thread only: its iterator continues through the
  link that making the thread ready has just cleared. All other threads are dropped from the list
  without being woken.\<close>

theorem BlockedList_wakeupAll_loses:
  assumes "sl_rep st wl (t # ts)" "dl_rep st rq rs" "t \<notin> set rs" "2 \<le> fuel"
  shows "\<exists>st' wl' rq'. BlockedList_wakeupAll fuel st wl rq = Some (st', wl', rq') \<and>
    sl_rep st' wl' [] \<and> dl_rep st' rq' (rs @ [t])"
proof -
  obtain f where f: "fuel = Suc (Suc f)" using assms(4) by (metis Suc_le_D numeral_2_eq_2 Suc_le_mono)
  obtain st' rq' where app: "DList_append t st rq = Some (st', rq')" "dl_rep st' rq' (rs @ [t])"
    using DList_append_rep [OF assms(2,3)] by blast
  have "l_next st' t = None"
    using app(2) by (simp add: dl_rep_def sl_rep_def nseg_append)
  then show ?thesis
    using assms(1) app f by (simp add: BlockedList_wakeupAll_def sl_rep_def list_clear_def)
qed

theorem BlockedList_wakeupAll_loses_witness:
  "\<exists>st wl rq st' wl' rq'. sl_rep st wl [1, 2] \<and> BlockedList_wakeupAll 9 st wl rq = Some (st', wl', rq') \<and>
     sl_rep st' wl' [] \<and> dl_rep st' rq' [1]"
proof -
  let ?st = "\<lparr>l_next = (\<lambda>_. None)(1 := Some 2), l_prev = (\<lambda>_. None)\<rparr>"
  let ?wl = "\<lparr>l_head = Some 1, l_tail = Some 2, l_len = 2\<rparr>"
  let ?rq = "\<lparr>l_head = None, l_tail = None, l_len = 0\<rparr>"
  have rep: "sl_rep ?st ?wl [1, 2]" "dl_rep ?st ?rq []" by (simp_all add: sl_rep_def dl_rep_def)
  have "\<exists>st' wl' rq'. BlockedList_wakeupAll 9 ?st ?wl ?rq = Some (st', wl', rq') \<and>
      sl_rep st' wl' [] \<and> dl_rep st' rq' ([] @ [1])"
    by (rule BlockedList_wakeupAll_loses [OF rep]) simp_all
  then show ?thesis using rep(1) unfolding append_Nil by blast
qed

end
