(* ===== verification/Timer.thy ===== *)
theory Timer
  imports Esc_Prelude
begin

text \<open>
  The timer of the kernel (\<^verbatim>\<open>kernel/src/task/timer.cc\<close>): the list of threads that sleep or wait for an
  alarm, in which each entry stores the time that is left after its predecessor is due, and the
  timer interrupt. The free list of listener objects only matters by its length. The interrupt
  reports the threads it wakes and whether it updates the run times and asks for a reschedule; the
  callers in \<^verbatim>\<open>kernel/src/syscalls/sthread.cc\<close> are modelled too.
\<close>

record listener =
  li_tid :: tid_t
  li_time :: time_t
  li_block :: bool

record percpu =
  pc_elapsedMsecs :: time_t
  pc_lastResched :: time_t
  pc_timerIntrpts :: size_t

record timer =
  tm_listener :: "listener list"
  tm_free :: nat
  tm_perCPU :: "percpu list"
  tm_lastRuntimeUpdate :: time_t

definition LISTENER_COUNT :: nat where "LISTENER_COUNT = 1024"
definition FREQUENCY_DIV :: u32 where "FREQUENCY_DIV = 200"
definition TIMESLICE :: u32 where "TIMESLICE = (1000 div FREQUENCY_DIV) * 4"
definition RUNTIME_UPDATE_INTVAL :: u32 where "RUNTIME_UPDATE_INTVAL = 1000"

definition TimerBase_init :: "nat \<Rightarrow> timer" where
  "TimerBase_init cpus =
     \<lparr>tm_listener = [], tm_free = LISTENER_COUNT,
      tm_perCPU = replicate cpus \<lparr>pc_elapsedMsecs = 0, pc_lastResched = 0, pc_timerIntrpts = 0\<rparr>,
      tm_lastRuntimeUpdate = 0\<rparr>"

text \<open>The search for the place of a new entry; \<open>d\<close> is the variable \<^verbatim>\<open>msecDiff\<close>.\<close>

fun insert_listener :: "time_t \<Rightarrow> time_t \<Rightarrow> tid_t \<Rightarrow> bool \<Rightarrow> listener list \<Rightarrow> listener list" where
  "insert_listener d msecs tid block [] = [\<lparr>li_tid = tid, li_time = msecs - d, li_block = block\<rparr>]"
| "insert_listener d msecs tid block (nl # ls) =
     (if d + li_time nl > msecs then
        \<lparr>li_tid = tid, li_time = msecs - d, li_block = block\<rparr> #
        nl\<lparr>li_time := li_time nl - (msecs - d)\<rparr> # ls
      else nl # insert_listener (d + li_time nl) msecs tid block ls)"

definition TimerBase_sleepFor :: "tid_t \<Rightarrow> time_t \<Rightarrow> bool \<Rightarrow> timer \<Rightarrow> int \<times> timer" where
  "TimerBase_sleepFor tid msecs block tm =
     (if tm_free tm = 0 then (- ENOMEM, tm)
      else (0, tm\<lparr>tm_free := tm_free tm - 1,
                  tm_listener := insert_listener 0 msecs tid block (tm_listener tm)\<rparr>))"

fun remove_listener :: "tid_t \<Rightarrow> listener list \<Rightarrow> listener list \<times> nat" where
  "remove_listener tid [] = ([], 0)"
| "remove_listener tid (l # ls) =
     (if li_tid l = tid then
        ((case ls of [] \<Rightarrow> [] | n # ns \<Rightarrow> n\<lparr>li_time := li_time n + li_time l\<rparr> # ns), 1)
      else let (ls, n) = remove_listener tid ls in (l # ls, n))"

definition TimerBase_removeThread :: "tid_t \<Rightarrow> timer \<Rightarrow> timer" where
  "TimerBase_removeThread tid tm =
     (let (ls, n) = remove_listener tid (tm_listener tm) in
      tm\<lparr>tm_listener := ls, tm_free := tm_free tm + n\<rparr>)"

text \<open>The loop of the interrupt: the entries that are due, and the rest.\<close>

fun expire :: "time_t \<Rightarrow> listener list \<Rightarrow> (tid_t \<times> bool) list \<times> listener list" where
  "expire timeInc [] = ([], [])"
| "expire timeInc (l # ls) =
     (if li_time l > timeInc then ([], l\<lparr>li_time := li_time l - timeInc\<rparr> # ls)
      else let (fs, ls) = expire (timeInc - li_time l) ls in ((li_tid l, li_block l) # fs, ls))"

record tick =
  tk_fired :: "(tid_t \<times> bool) list"
  tk_update :: bool
  tk_resched :: bool

definition TimerBase_intrpt :: "nat \<Rightarrow> timer \<Rightarrow> (tick \<times> timer) option" where
  "TimerBase_intrpt cpu tm =
     (if cpu < length (tm_perCPU tm) then
        let timeInc = 1000 div FREQUENCY_DIV;
            p = tm_perCPU tm ! cpu;
            p = p\<lparr>pc_timerIntrpts := pc_timerIntrpts p + 1, pc_elapsedMsecs := pc_elapsedMsecs p + timeInc\<rparr>;
            (upd, fs, tm) =
              (if cpu = 0 then
                 let upd = pc_elapsedMsecs p - tm_lastRuntimeUpdate tm \<ge> RUNTIME_UPDATE_INTVAL;
                     tm = (if upd then tm\<lparr>tm_lastRuntimeUpdate := pc_elapsedMsecs p\<rparr> else tm);
                     (fs, ls) = expire timeInc (tm_listener tm)
                 in (upd, fs, tm\<lparr>tm_listener := ls, tm_free := tm_free tm + length fs\<rparr>)
               else (False, [], tm));
            foundThread = (\<exists>f\<in>set fs. snd f);
            res = (foundThread \<or> pc_elapsedMsecs p - pc_lastResched p \<ge> TIMESLICE);
            p = (if res then p\<lparr>pc_lastResched := pc_elapsedMsecs p\<rparr> else p)
        in Some (\<lparr>tk_fired = fs, tk_update = upd, tk_resched = res\<rparr>,
                 tm\<lparr>tm_perCPU := (tm_perCPU tm)[cpu := p]\<rparr>)
      else None)"

text \<open>The system calls; \<open>Syscalls_sleep_end\<close> is the part of \<^verbatim>\<open>sleep\<close> after the switch.\<close>

definition Syscalls_alarm :: "tid_t \<Rightarrow> time_t \<Rightarrow> timer \<Rightarrow> int \<times> timer" where
  "Syscalls_alarm tid msecs tm = TimerBase_sleepFor tid msecs False (TimerBase_removeThread tid tm)"

definition Syscalls_sleep_begin :: "tid_t \<Rightarrow> time_t \<Rightarrow> timer \<Rightarrow> int \<times> timer" where
  "Syscalls_sleep_begin tid msecs tm = TimerBase_sleepFor tid msecs True tm"

definition Syscalls_sleep_end :: "tid_t \<Rightarrow> bool \<Rightarrow> timer \<Rightarrow> int \<times> timer" where
  "Syscalls_sleep_end tid sig tm = (if sig then - EINTR else 0, TimerBase_removeThread tid tm)"

section \<open>Deadlines\<close>

text \<open>
  The abstract timer: a list of entries with the time they are due, ordered by it. Adding an entry
  puts it behind all entries that are due at the same time or earlier.
\<close>

type_synonym entry = "nat \<times> tid_t \<times> bool"

fun due :: "nat \<Rightarrow> listener list \<Rightarrow> entry list" where
  "due b [] = []"
| "due b (l # ls) = (b + unat (li_time l), li_tid l, li_block l) # due (b + unat (li_time l)) ls"

definition add_entry :: "entry \<Rightarrow> entry list \<Rightarrow> entry list" where
  "add_entry e es = filter (\<lambda>x. fst x \<le> fst e) es @ e # filter (\<lambda>x. \<not> fst x \<le> fst e) es"

fun drop_tid :: "tid_t \<Rightarrow> entry list \<Rightarrow> entry list" where
  "drop_tid tid [] = []"
| "drop_tid tid (e # es) = (if fst (snd e) = tid then es else e # drop_tid tid es)"

text \<open>The sum of all stored times is the deadline of the last entry and does not wrap.\<close>

definition times_ok :: "listener list \<Rightarrow> bool" where
  "times_ok ls \<longleftrightarrow> (\<Sum>l\<leftarrow>ls. unat (li_time l)) < 2 ^ 32"

definition timer_inv :: "timer \<Rightarrow> bool" where
  "timer_inv tm \<longleftrightarrow> times_ok (tm_listener tm) \<and> tm_free tm + length (tm_listener tm) = LISTENER_COUNT"

lemma due_shift: "due (b + c) ls = map (\<lambda>(d, r). (d + c, r)) (due b ls)"
proof (induction ls arbitrary: b)
  case (Cons l ls)
  have eq: "b + c + unat (li_time l) = (b + unat (li_time l)) + c" by simp
  show ?case unfolding due.simps eq Cons.IH by simp
qed simp

lemma due_ge: "e \<in> set (due b ls) \<Longrightarrow> b \<le> fst e"
  by (induction ls arbitrary: b) fastforce+

lemma due_sorted: "sorted (map fst (due b ls))"
  by (induction ls arbitrary: b) (auto dest: due_ge)

lemma length_due [simp]: "length (due b ls) = length ls"
  by (induction ls arbitrary: b) auto

lemma filter_le_sorted:
  "sorted (map fst es) \<Longrightarrow> filter (\<lambda>x. fst x \<le> c) es = takeWhile (\<lambda>x. fst x \<le> c) es"
  "sorted (map fst es) \<Longrightarrow> filter (\<lambda>x. \<not> fst x \<le> c) es = dropWhile (\<lambda>x. fst x \<le> c) es"
  for es :: "(nat \<times> 'a) list"
proof (induction es)
  case (Cons e es)
  have none: "filter (\<lambda>x. fst x \<le> c) es = []" "filter (\<lambda>x. \<not> fst x \<le> c) es = es"
    if "\<not> fst e \<le> c" "sorted (map fst (e # es))"
    using that by (auto simp: filter_empty_conv filter_id_conv)
  {
    case 1
    then show ?case using Cons.IH(1) none(1) by (cases "fst e \<le> c") auto
  next
    case 2
    then show ?case using Cons.IH(2) none(2) by (cases "fst e \<le> c") auto
  }
qed simp_all

lemma add_entry_sorted:
  assumes "sorted (map fst es)"
  shows "add_entry e es = takeWhile (\<lambda>x. fst x \<le> fst e) es @ e # dropWhile (\<lambda>x. fst x \<le> fst e) es"
  unfolding add_entry_def filter_le_sorted [OF assms] ..

lemma insert_listener_due:
  assumes "unat d + (\<Sum>l\<leftarrow>ls. unat (li_time l)) < 2 ^ 32" "d \<le> msecs"
  shows "due (unat d) (insert_listener d msecs tid block ls) = add_entry (unat msecs, tid, block) (due (unat d) ls) \<and>
    unat d + (\<Sum>l\<leftarrow>insert_listener d msecs tid block ls. unat (li_time l)) < 2 ^ 32"
  using assms
proof (induction ls arbitrary: d)
  case Nil
  have "unat (msecs - d) = unat msecs - unat d" using Nil(2) by (simp add: unat_sub)
  then show ?case
    using Nil unat_lt_2p32 [of msecs] by (simp add: add_entry_def word_le_unat)
next
  case (Cons nl ls)
  have s: "unat (d + li_time nl) = unat d + unat (li_time nl)"
    using Cons.prems(1) by (intro unat_plus_nowrap) simp
  have m: "unat (msecs - d) = unat msecs - unat d" "unat d \<le> unat msecs"
    using Cons.prems(2) by (simp_all add: unat_sub word_le_unat)
  show ?case
  proof (cases "d + li_time nl > msecs")
    case True
    then have lt: "unat msecs < unat d + unat (li_time nl)" using s by (simp add: word_less_unat)
    have "unat (li_time nl - (msecs - d)) = unat (li_time nl) - (unat msecs - unat d)"
      using m lt by (simp add: unat_sub word_le_unat)
    moreover have "add_entry (unat msecs, tid, block) (due (unat d) (nl # ls)) =
        (unat msecs, tid, block) # due (unat d) (nl # ls)"
      using lt by (subst add_entry_sorted [OF due_sorted]) simp
    ultimately show ?thesis
      using True lt m Cons.prems(1) by (simp add: add.commute)
  next
    case False
    then have le: "d + li_time nl \<le> msecs" by simp
    then have "unat d + unat (li_time nl) \<le> unat msecs" using s by (simp add: word_le_unat)
    then show ?thesis
      using Cons.IH [of "d + li_time nl"] Cons.prems(1) le s False
      by (simp add: add_entry_def algebra_simps)
  qed
qed

lemma remove_listener_due:
  assumes "b + (\<Sum>l\<leftarrow>ls. unat (li_time l)) < 2 ^ 32" "remove_listener tid ls = (ls', n)"
  shows "due b ls' = drop_tid tid (due b ls) \<and> length ls' + n = length ls \<and>
    b + (\<Sum>l\<leftarrow>ls'. unat (li_time l)) < 2 ^ 32"
  using assms
proof (induction ls arbitrary: b ls' n)
  case (Cons l ls)
  show ?case
  proof (cases "li_tid l = tid")
    case True
    show ?thesis
    proof (cases ls)
      case (Cons m ms)
      have "unat (li_time m + li_time l) = unat (li_time m) + unat (li_time l)"
        using Cons Cons.prems(1) by (intro unat_plus_nowrap) simp
      then show ?thesis using True Cons Cons.prems by (auto simp: add.commute add.left_commute)
    qed (use True Cons.prems in auto)
  next
    case False
    obtain ls1 where r: "remove_listener tid ls = (ls1, n)" "ls' = l # ls1"
      using Cons.prems(2) False by (auto split: prod.splits)
    show ?thesis
      using Cons.IH [of "b + unat (li_time l)" ls1 n] r False Cons.prems(1) by (auto simp: add.assoc)
  qed
qed auto

lemma expire_due:
  assumes "expire inc ls = (fs, ls')"
  shows "fs = map snd (filter (\<lambda>x. fst x \<le> b + unat inc) (due b ls)) \<and>
    due (b + unat inc) ls' = filter (\<lambda>x. \<not> fst x \<le> b + unat inc) (due b ls) \<and>
    length ls' + length fs = length ls \<and>
    (\<Sum>l\<leftarrow>ls'. unat (li_time l)) \<le> (\<Sum>l\<leftarrow>ls. unat (li_time l))"
  unfolding filter_le_sorted [OF due_sorted]
  using assms
proof (induction ls arbitrary: inc b fs ls')
  case (Cons l ls)
  show ?case
  proof (cases "li_time l > inc")
    case True
    then have "unat (li_time l - inc) = unat (li_time l) - unat inc" "unat inc < unat (li_time l)"
      by (simp_all add: unat_sub word_less_unat word_le_unat)
    then show ?thesis using True Cons.prems by auto
  next
    case False
    obtain fs1 where r: "expire (inc - li_time l) ls = (fs1, ls')" "fs = (li_tid l, li_block l) # fs1"
      using Cons.prems False by (auto split: prod.splits)
    have "unat (inc - li_time l) = unat inc - unat (li_time l)" "unat (li_time l) \<le> unat inc"
      using False by (simp_all add: unat_sub word_less_unat word_le_unat)
    then show ?thesis
      using Cons.IH [OF r(1), of "b + unat (li_time l)"] r(2) by auto
  qed
qed simp

section \<open>Sessions\<close>

datatype timer_op = Sleep tid_t time_t bool | Remove tid_t | Tick

text \<open>The log of a session: what each tick wakes.\<close>

fun timer_run :: "timer_op list \<Rightarrow> timer \<Rightarrow> ((tid_t \<times> bool) list list \<times> timer) option" where
  "timer_run [] tm = Some ([], tm)"
| "timer_run (Sleep tid ms b # ops) tm = timer_run ops (snd (TimerBase_sleepFor tid ms b tm))"
| "timer_run (Remove tid # ops) tm = timer_run ops (TimerBase_removeThread tid tm)"
| "timer_run (Tick # ops) tm =
     do {
       (tk, tm) \<leftarrow> TimerBase_intrpt 0 tm;
       (log, tm) \<leftarrow> timer_run ops tm;
       Some (tk_fired tk # log, tm)
     }"

text \<open>The specification: a clock in milliseconds and the entries with their absolute deadlines.\<close>

fun spec_run :: "timer_op list \<Rightarrow> nat \<Rightarrow> entry list \<Rightarrow> (tid_t \<times> bool) list list \<times> nat \<times> entry list" where
  "spec_run [] now es = ([], now, es)"
| "spec_run (Sleep tid ms b # ops) now es =
     spec_run ops now (if length es = LISTENER_COUNT then es else add_entry (now + unat ms, tid, b) es)"
| "spec_run (Remove tid # ops) now es = spec_run ops now (drop_tid tid es)"
| "spec_run (Tick # ops) now es =
     (let (log, r) = spec_run ops (now + 5) (filter (\<lambda>x. \<not> fst x \<le> now + 5) es)
      in (map snd (filter (\<lambda>x. fst x \<le> now + 5) es) # log, r))"

lemma add_entry_map:
  "add_entry (d + c, r) (map (\<lambda>(x, y). (x + c, y)) es) = map (\<lambda>(x, y). (x + c, y)) (add_entry (d, r) es)"
  by (simp add: add_entry_def filter_map comp_def case_prod_beta)

lemma sleepFor_spec:
  assumes "timer_inv tm"
  shows "timer_inv (snd (TimerBase_sleepFor tid ms b tm)) \<and>
    due now (tm_listener (snd (TimerBase_sleepFor tid ms b tm))) =
      (let es = due now (tm_listener tm) in
       if length es = LISTENER_COUNT then es else add_entry (now + unat ms, tid, b) es) \<and>
    tm_perCPU (snd (TimerBase_sleepFor tid ms b tm)) = tm_perCPU tm"
proof (cases "tm_free tm = 0")
  case True
  then show ?thesis using assms by (simp add: TimerBase_sleepFor_def timer_inv_def)
next
  case False
  let ?ls = "tm_listener tm" and ?ls' = "insert_listener 0 ms tid b (tm_listener tm)"
  have ins: "due 0 ?ls' = add_entry (unat ms, tid, b) (due 0 ?ls)" "times_ok ?ls'"
    using insert_listener_due [of 0 ?ls ms tid b] assms by (auto simp: timer_inv_def times_ok_def)
  have "length ?ls' = Suc (length ?ls)"
    using arg_cong [OF ins(1), of length] sum_length_filter_compl [of "\<lambda>x. fst x \<le> unat ms" "due 0 ?ls"]
    by (simp add: add_entry_def)
  moreover have "due now ?ls' = add_entry (now + unat ms, tid, b) (due now ?ls)"
    using due_shift [of 0 now] ins(1) add_entry_map [of "unat ms" now "(tid, b)" "due 0 ?ls"]
    by (simp add: add.commute)
  ultimately show ?thesis
    using False assms ins(2) by (simp add: TimerBase_sleepFor_def timer_inv_def)
qed

lemma removeThread_spec:
  assumes "timer_inv tm"
  shows "timer_inv (TimerBase_removeThread tid tm) \<and>
    due now (tm_listener (TimerBase_removeThread tid tm)) = drop_tid tid (due now (tm_listener tm)) \<and>
    tm_perCPU (TimerBase_removeThread tid tm) = tm_perCPU tm"
proof -
  obtain ls n where r: "remove_listener tid (tm_listener tm) = (ls, n)" by force
  have "due 0 ls = drop_tid tid (due 0 (tm_listener tm))" "times_ok ls" "length ls + n = length (tm_listener tm)"
    using remove_listener_due [of 0 "tm_listener tm" tid ls n] assms r by (auto simp: timer_inv_def times_ok_def)
  moreover have "drop_tid tid (map (\<lambda>(d, r). (d + now, r)) es) = map (\<lambda>(d, r). (d + now, r)) (drop_tid tid es)" for es
    by (induction es) auto
  ultimately show ?thesis
    using assms r due_shift [of 0 now] by (simp add: TimerBase_removeThread_def timer_inv_def)
qed

lemma tick_inc: "unat (1000 div FREQUENCY_DIV) = 5"
  by (simp add: FREQUENCY_DIV_def unat_div)

lemma intrpt_spec:
  assumes "timer_inv tm" "0 < length (tm_perCPU tm)"
  shows "\<exists>tk tm'. TimerBase_intrpt 0 tm = Some (tk, tm') \<and> timer_inv tm' \<and>
    tk_fired tk = map snd (filter (\<lambda>x. fst x \<le> now + 5) (due now (tm_listener tm))) \<and>
    due (now + 5) (tm_listener tm') = filter (\<lambda>x. \<not> fst x \<le> now + 5) (due now (tm_listener tm)) \<and>
    length (tm_perCPU tm') = length (tm_perCPU tm) \<and>
    ((\<exists>f\<in>set (tk_fired tk). snd f) \<longrightarrow> tk_resched tk)"
proof -
  obtain fs ls where e: "expire (1000 div FREQUENCY_DIV) (tm_listener tm) = (fs, ls)" by force
  have "fs = map snd (filter (\<lambda>x. fst x \<le> now + 5) (due now (tm_listener tm)))"
    "due (now + 5) ls = filter (\<lambda>x. \<not> fst x \<le> now + 5) (due now (tm_listener tm))"
    "length ls + length fs = length (tm_listener tm)" "times_ok ls"
    using expire_due [OF e, of now] assms(1) by (auto simp: tick_inc timer_inv_def times_ok_def)
  then show ?thesis
    using e assms by (auto simp: TimerBase_intrpt_def timer_inv_def Let_def)
qed

text \<open>A thread sets an alarm for one second and then sleeps for 10 ms.\<close>

definition alarm_then_sleep :: "tid_t \<Rightarrow> timer \<Rightarrow> ((tid_t \<times> bool) list list \<times> listener list) option" where
  "alarm_then_sleep tid tm =
     do {
       let (_, tm) = Syscalls_alarm tid 1000 tm;
       let (_, tm) = Syscalls_sleep_begin tid 10 tm;
       (t1, tm) \<leftarrow> TimerBase_intrpt 0 tm;
       (t2, tm) \<leftarrow> TimerBase_intrpt 0 tm;
       let (_, tm) = Syscalls_sleep_end tid False tm;
       Some ([tk_fired t1, tk_fired t2], tm_listener tm)
     }"

section \<open>Properties\<close>

text \<open>C12: over any sequence of sleeps, removals and timer interrupts, the list of time differences
  behaves as a set of absolute deadlines: a new entry is due its number of milliseconds after the
  current time; removing an entry leaves the deadlines of all others as they are; and each
  interrupt, 5 ms after the one before, wakes exactly the entries that are due, in the order of
  their deadlines, so that nobody wakes early or misses a tick. The 32 bit differences never
  wrap, the listener objects are neither lost nor handed out twice, and the sequence never
  fails.\<close>

theorem Timer_refines:
  assumes "timer_inv tm" "0 < length (tm_perCPU tm)"
  shows "\<exists>log tm' now'. timer_run ops tm = Some (log, tm') \<and>
    spec_run ops now (due now (tm_listener tm)) = (log, now', due now' (tm_listener tm')) \<and>
    timer_inv tm'"
  using assms
proof (induction ops arbitrary: tm now)
  case Nil
  then show ?case by simp
next
  case (Cons op ops)
  show ?case
  proof (cases op)
    case (Sleep tid ms b)
    then show ?thesis
      using Cons.IH [of "snd (TimerBase_sleepFor tid ms b tm)" now]
        sleepFor_spec [OF Cons.prems(1), of tid ms b now] Cons.prems(2)
      by (simp add: Let_def)
  next
    case (Remove tid)
    then show ?thesis
      using Cons.IH [of "TimerBase_removeThread tid tm" now]
        removeThread_spec [OF Cons.prems(1), of tid now] Cons.prems(2)
      by simp
  next
    case Tick
    obtain tk tm1 where t: "TimerBase_intrpt 0 tm = Some (tk, tm1)" "timer_inv tm1"
      "tk_fired tk = map snd (filter (\<lambda>x. fst x \<le> now + 5) (due now (tm_listener tm)))"
      "due (now + 5) (tm_listener tm1) = filter (\<lambda>x. \<not> fst x \<le> now + 5) (due now (tm_listener tm))"
      "length (tm_perCPU tm1) = length (tm_perCPU tm)"
      using intrpt_spec [OF Cons.prems, of now] by blast
    obtain log tm' now' where "timer_run ops tm1 = Some (log, tm')"
      "spec_run ops (now + 5) (due (now + 5) (tm_listener tm1)) = (log, now', due now' (tm_listener tm'))" "timer_inv tm'"
      using Cons.IH [OF t(2), of "now + 5"] Cons.prems(2) t(5) by auto
    then show ?thesis using Tick t by simp
  qed
qed

theorem Timer_refines_witness:
  "\<exists>tm'. timer_run [Sleep 1 12 True, Sleep 2 3 False, Tick, Tick, Tick] (TimerBase_init 1) =
     Some ([[(2, False)], [], [(1, True)]], tm') \<and> timer_inv tm'"
proof -
  let ?ops = "[Sleep 1 12 True, Sleep 2 3 False, Tick, Tick, Tick]"
  have "timer_inv (TimerBase_init 1)" "0 < length (tm_perCPU (TimerBase_init 1))"
    by (simp_all add: timer_inv_def times_ok_def TimerBase_init_def)
  moreover have "tm_listener (TimerBase_init 1) = []" by (simp add: TimerBase_init_def)
  moreover have "fst (spec_run ?ops 0 []) = [[(2, False)], [], [(1, True)]]"
    by (simp add: add_entry_def LISTENER_COUNT_def)
  ultimately show ?thesis
    using Timer_refines [of "TimerBase_init 1" ?ops 0] by auto
qed

text \<open>\<^verbatim>\<open>sleep\<close> cancels a pending alarm of the same thread: the thread is in the list twice then,
  \<^verbatim>\<open>removeThread\<close> at the end of \<^verbatim>\<open>sleep\<close> takes out the entry of the alarm, because the one of the sleep
  is gone already, and the alarm never comes.\<close>

theorem Timer_alarm_lost:
  "alarm_then_sleep tid (TimerBase_init (Suc n)) = Some ([[], [(tid, True)]], [])"
  by (simp add: alarm_then_sleep_def Syscalls_alarm_def Syscalls_sleep_begin_def Syscalls_sleep_end_def
      TimerBase_init_def TimerBase_removeThread_def TimerBase_sleepFor_def TimerBase_intrpt_def
      LISTENER_COUNT_def FREQUENCY_DIV_def TIMESLICE_def RUNTIME_UPDATE_INTVAL_def Let_def
      word_less_unat word_le_unat unat_div unat_sub_if_size)

end
