(* ===== verification/Signals.thy ===== *)
theory Signals
  imports Esc_Prelude "HOL-Library.Monad_Syntax"
begin

text \<open>
  Signals (\<^verbatim>\<open>kernel/src/task/signals.cc\<close>, \<^verbatim>\<open>kernel/include/task/signals.h\<close>), their delivery to the threads
  of a process (\<^verbatim>\<open>ProcBase::addSignalFor\<close>) and the system call that installs a handler
  (\<^verbatim>\<open>kernel/src/syscalls/ssignals.cc\<close>). A thread is represented by its handlers, the mask of pending
  signals and the flag to ignore signals. A handler is an address.
\<close>

definition SIG_COUNT :: nat where "SIG_COUNT = 11"
definition SIG_IGN :: u32 where "SIG_IGN = - 2"
definition SIG_ERR :: u32 where "SIG_ERR = - 1"
definition SIG_DFL :: u32 where "SIG_DFL = 0"

definition SIGRET :: int where "SIGRET = - 1"
definition SIGKILL :: int where "SIGKILL = 0"
definition SIGTERM :: int where "SIGTERM = 1"
definition SIGFPE :: int where "SIGFPE = 2"
definition SIGILL :: int where "SIGILL = 3"
definition SIGINT :: int where "SIGINT = 4"
definition SIGSEGV :: int where "SIGSEGV = 5"
definition SIGUSR1 :: int where "SIGUSR1 = 8"
definition SIGUSR2 :: int where "SIGUSR2 = 9"

definition canHandle :: "int \<Rightarrow> bool" where
  "canHandle signal \<longleftrightarrow> signal \<ge> 1 \<and> signal < int SIG_COUNT"

definition canSend :: "int \<Rightarrow> bool" where
  "canSend signal \<longleftrightarrow> signal = SIGKILL \<or> signal = SIGTERM \<or> signal = SIGINT \<or>
     signal = SIGUSR1 \<or> signal = SIGUSR2"

definition isFatal :: "int \<Rightarrow> bool" where
  "isFatal sig \<longleftrightarrow> sig = SIGINT \<or> sig = SIGTERM \<or> sig = SIGFPE \<or> sig = SIGILL \<or>
     sig = SIGKILL \<or> sig = SIGSEGV"

lemmas sig_defs = SIGRET_def SIGKILL_def SIGTERM_def SIGFPE_def SIGILL_def SIGINT_def SIGSEGV_def
  SIGUSR1_def SIGUSR2_def canHandle_def canSend_def isFatal_def

record sigdata =
  sg_handler :: "nat \<Rightarrow> u32"
  sg_mask :: u32
  sg_ignore :: bool

text \<open>The index checks are the assertions and the bounds of the array of handlers.\<close>

definition Signals_setHandler :: "int \<Rightarrow> u32 \<Rightarrow> sigdata \<Rightarrow> (u32 \<times> sigdata) option" where
  "Signals_setHandler signal func t =
     (if signal < int SIG_COUNT \<and> 0 \<le> signal then
        Some (sg_handler t (nat signal), t\<lparr>sg_handler := (sg_handler t)(nat signal := func)\<rparr>)
      else None)"

datatype sig_result = NoSignal | Start nat u32 | Terminate nat

fun checkAndStart_loop :: "nat list \<Rightarrow> sigdata \<Rightarrow> sig_result \<times> sigdata" where
  "checkAndStart_loop [] t = (NoSignal, t)"
| "checkAndStart_loop (i # is) t =
     (if sg_mask t AND push_bit i 1 \<noteq> 0 then
        let t = t\<lparr>sg_mask := sg_mask t AND NOT (push_bit i 1)\<rparr> in
        if sg_handler t i = SIG_DFL then
          (if isFatal (int i) then (Terminate i, t) else checkAndStart_loop is t)
        else (Start i (sg_handler t i), t\<lparr>sg_handler := (sg_handler t)(i := SIG_DFL)\<rparr>)
      else checkAndStart_loop is t)"

definition Signals_checkAndStart :: "sigdata \<Rightarrow> sig_result \<times> sigdata" where
  "Signals_checkAndStart t =
     (if sg_mask t \<noteq> 0 then checkAndStart_loop [0..<SIG_COUNT] t else (NoSignal, t))"

text \<open>The results: whether the signal was accepted, and whether the thread is unblocked.\<close>

definition Signals_addSignalFor :: "int \<Rightarrow> sigdata \<Rightarrow> (bool \<times> bool \<times> sigdata) option" where
  "Signals_addSignalFor signal t =
     (if signal < int SIG_COUNT \<and> 0 \<le> signal then
        if isFatal signal \<or> sg_handler t (nat signal) \<noteq> SIG_DFL then
          Some (True, \<not> sg_ignore t, t\<lparr>sg_mask := sg_mask t OR push_bit (nat signal) 1\<rparr>)
        else Some (False, False, t)
      else None)"

definition hasSigHandler :: "int \<Rightarrow> sigdata \<Rightarrow> bool" where
  "hasSigHandler signal t \<longleftrightarrow> sg_handler t (nat signal) \<noteq> SIG_DFL"

text \<open>The delivery to the threads of a process that is not dying.\<close>

fun addSignal_all :: "bool \<Rightarrow> int \<Rightarrow> sigdata list \<Rightarrow> sigdata list option" where
  "addSignal_all hasHandler signal [] = Some []"
| "addSignal_all hasHandler signal (t # ts) =
     do {
       t \<leftarrow> (if \<not> hasHandler \<or> hasSigHandler signal t
             then map_option (snd \<circ> snd) (Signals_addSignalFor signal t) else Some t);
       ts \<leftarrow> addSignal_all hasHandler signal ts;
       Some (t # ts)
     }"

definition ProcBase_addSignalFor :: "int \<Rightarrow> sigdata list \<Rightarrow> sigdata list option" where
  "ProcBase_addSignalFor signal ts =
     (let hasHandler = (if isFatal signal then list_ex (hasSigHandler signal) ts else False)
      in addSignal_all hasHandler signal ts)"

definition KERNEL_AREA :: u32 where "KERNEL_AREA = 0xC0000000"

definition isInUserSpace :: "u32 \<Rightarrow> u32 \<Rightarrow> bool" where
  "isInUserSpace virt count \<longleftrightarrow> virt + count \<le> KERNEL_AREA \<and> virt + count \<ge> virt"

text \<open>The state is the return address of handlers of the process and the calling thread.\<close>

definition Syscalls_signal :: "int \<Rightarrow> u32 \<Rightarrow> u32 \<times> sigdata \<Rightarrow> (u32 \<times> u32 \<times> sigdata) option" where
  "Syscalls_signal signal handler st =
     (let (sigRet, t) = st in
      if handler \<noteq> SIG_IGN \<and> handler \<noteq> SIG_DFL \<and> \<not> isInUserSpace handler 1 then Some (SIG_ERR, sigRet, t)
      else if signal = SIGRET then Some (SIG_IGN, handler, t)
      else if sigRet = 0 then Some (SIG_ERR, sigRet, t)
      else if \<not> canHandle signal then Some (SIG_ERR, sigRet, t)
      else do { (old, t) \<leftarrow> Signals_setHandler signal handler t; Some (old, sigRet, t) })"

section \<open>Pending signals\<close>

definition pending :: "nat \<Rightarrow> sigdata \<Rightarrow> bool" where
  "pending i t \<longleftrightarrow> bit (sg_mask t) i"

lemma mask_test: "i < 32 \<Longrightarrow> sg_mask t AND push_bit i 1 \<noteq> 0 \<longleftrightarrow> pending i t"
proof -
  assume "i < 32"
  have "(m AND push_bit i 1 \<noteq> 0) = bit m i" for m :: u32
    by (metis and_exp_eq_0_iff_not_bit push_bit_of_1)
  then show ?thesis by (simp add: pending_def)
qed

lemma pending_clear [simp]:
  "pending j (t\<lparr>sg_mask := m AND NOT (push_bit i 1)\<rparr>) \<longleftrightarrow> bit m j \<and> j \<noteq> i"
  by (auto simp: pending_def bit_simps dest: bit_imp_le_length)

lemma pending_handler [simp]: "pending j (t\<lparr>sg_handler := h\<rparr>) = pending j t"
  by (simp add: pending_def)

text \<open>What the search does: it drops the pending signals without effect and stops at the first
  one that has an effect.\<close>

definition effective :: "sigdata \<Rightarrow> nat \<Rightarrow> bool" where
  "effective t i \<longleftrightarrow> pending i t \<and> (sg_handler t i \<noteq> SIG_DFL \<or> isFatal (int i))"

definition clear_sigs :: "nat list \<Rightarrow> sigdata \<Rightarrow> sigdata" where
  "clear_sigs is t = t\<lparr>sg_mask := fold (\<lambda>i m. m AND NOT (push_bit i 1)) is (sg_mask t)\<rparr>"

lemma clear_sigs_simps [simp]:
  "clear_sigs [] t = t"
  "clear_sigs (i # is) t = clear_sigs is (t\<lparr>sg_mask := sg_mask t AND NOT (push_bit i 1)\<rparr>)"
  "sg_handler (clear_sigs is t) = sg_handler t"
  "sg_ignore (clear_sigs is t) = sg_ignore t"
  by (simp_all add: clear_sigs_def)

lemma pending_clear_sigs: "pending j (clear_sigs is t) \<longleftrightarrow> pending j t \<and> j \<notin> set is"
proof (induction "is" arbitrary: t)
  case (Cons i "is")
  have "pending j (t\<lparr>sg_mask := sg_mask t AND NOT (push_bit i 1)\<rparr>) \<longleftrightarrow> pending j t \<and> j \<noteq> i"
    by (simp only: pending_clear) (simp add: pending_def)
  then show ?case using Cons.IH [of "t\<lparr>sg_mask := sg_mask t AND NOT (push_bit i 1)\<rparr>"] by auto
qed simp

definition first_sig :: "nat list \<Rightarrow> sigdata \<Rightarrow> sig_result \<times> sigdata" where
  "first_sig is t =
     (case find (effective t) is of
        None \<Rightarrow> (NoSignal, clear_sigs is t)
      | Some i \<Rightarrow>
          (let t' = clear_sigs (takeWhile (\<lambda>j. j \<noteq> i) is @ [i]) t in
           if sg_handler t i = SIG_DFL then (Terminate i, t')
           else (Start i (sg_handler t i), t'\<lparr>sg_handler := (sg_handler t)(i := SIG_DFL)\<rparr>)))"

lemma loop_first:
  assumes "distinct is" "\<forall>i\<in>set is. i < 32"
  shows "checkAndStart_loop is t = first_sig is t"
  using assms
proof (induction "is" arbitrary: t)
  case Nil
  then show ?case by (simp add: first_sig_def)
next
  case (Cons i "is")
  let ?t = "t\<lparr>sg_mask := sg_mask t AND NOT (push_bit i 1)\<rparr>"
  have nop: "?t = t" if "\<not> pending i t"
  proof -
    have "sg_mask t AND NOT (push_bit i 1) = sg_mask t"
      using that by (intro bit_eqI) (auto simp: pending_def bit_simps)
    then show ?thesis by simp
  qed
  have same: "effective ?t j = effective t j" if "j \<in> set is" for j
    using that Cons.prems(1) pending_clear_sigs [of j "[i]" t] by (auto simp: effective_def)
  have find: "find (effective ?t) is = find (effective t) is"
    using same by (auto intro: find_cong)
  have step: "first_sig is ?t = first_sig (i # is) t" if "\<not> effective t i"
  proof (cases "find (effective t) is")
    case None
    then show ?thesis using that find by (simp add: first_sig_def)
  next
    case (Some j)
    then have "j \<noteq> i" using Cons.prems(1) by (auto simp: find_Some_iff)
    then show ?thesis using that Some find by (simp add: first_sig_def Let_def)
  qed
  have eff: "first_sig (i # is) t = (if sg_handler t i = SIG_DFL then (Terminate i, ?t)
      else (Start i (sg_handler t i), ?t\<lparr>sg_handler := (sg_handler t)(i := SIG_DFL)\<rparr>))" if "effective t i"
    using that by (simp add: first_sig_def Let_def)
  have IH: "checkAndStart_loop is t = first_sig is t" for t using Cons by simp
  have test: "sg_mask t AND push_bit i 1 \<noteq> 0 \<longleftrightarrow> pending i t" using Cons.prems mask_test by simp
  show ?case
  proof (cases "pending i t")
    case False
    then have "\<not> effective t i" by (simp add: effective_def)
    then show ?thesis using False test IH [of t] step nop by simp
  next
    case True
    show ?thesis
    proof (cases "effective t i")
      case e: True
      then show ?thesis
        unfolding eff [OF e] checkAndStart_loop.simps(2) Let_def using True test
        by (auto simp: effective_def)
    next
      case e: False
      then have "sg_handler t i = SIG_DFL" "\<not> isFatal (int i)" using True by (auto simp: effective_def)
      then show ?thesis
        unfolding checkAndStart_loop.simps(2) Let_def using True test step [OF e] IH [of ?t] by simp
    qed
  qed
qed

lemma checkAndStart_first:
  "Signals_checkAndStart t = first_sig [0..<SIG_COUNT] t"
proof (cases "sg_mask t = 0")
  case True
  then have "\<not> effective t i" for i by (simp add: effective_def pending_def)
  moreover have "clear_sigs is t = t" for "is"
  proof -
    have "fold (\<lambda>i m. m AND NOT (push_bit i 1)) is (0 :: u32) = 0" by (induction "is") simp_all
    then show ?thesis using True by (simp add: clear_sigs_def)
  qed
  ultimately show ?thesis
    using True by (simp add: Signals_checkAndStart_def first_sig_def find_None_iff split: option.splits)
next
  case False
  then show ?thesis
    using loop_first [of "[0..<SIG_COUNT]" t] by (simp add: Signals_checkAndStart_def SIG_COUNT_def)
qed

lemma checkAndStart_cases:
  assumes "Signals_checkAndStart t = (r, t')"
  shows "(r = NoSignal \<and> (\<forall>i<SIG_COUNT. \<not> effective t i)) \<or>
    (\<exists>i<SIG_COUNT. effective t i \<and> (\<forall>j<i. \<not> effective t j) \<and>
      (\<forall>j. pending j t' \<longleftrightarrow> pending j t \<and> j > i) \<and>
      (if sg_handler t i = SIG_DFL then r = Terminate i \<and> sg_handler t' = sg_handler t
       else r = Start i (sg_handler t i) \<and> sg_handler t' = (sg_handler t)(i := SIG_DFL)))"
proof (cases "find (effective t) [0..<SIG_COUNT]")
  case None
  then have "r = NoSignal" using assms by (simp add: checkAndStart_first first_sig_def)
  then show ?thesis using None by (auto simp: find_None_iff)
next
  case (Some i)
  have i: "i < SIG_COUNT" "effective t i" "\<forall>j<i. \<not> effective t j"
    using Some by (auto simp: find_Some_iff)
  have "takeWhile (\<lambda>j. j \<noteq> i) [0..<SIG_COUNT] = [0..<i]"
    unfolding upt_split [OF i(1)] by (subst takeWhile_append2) auto
  then have "pending j t' \<longleftrightarrow> pending j t \<and> j > i" for j
    using assms Some pending_clear_sigs [of j "[0..<i] @ [i]" t]
    by (auto simp: checkAndStart_first first_sig_def Let_def split: if_splits)
  then show ?thesis
    using i assms Some
    by (intro disjI2 exI [of _ i]) (auto simp: checkAndStart_first first_sig_def Let_def split: if_splits)
qed

text \<open>The thread takes one signal after the other, as it does on every return to user mode.\<close>

fun drain :: "nat \<Rightarrow> sigdata \<Rightarrow> (nat \<times> u32) list" where
  "drain 0 t = []"
| "drain (Suc n) t =
     (case Signals_checkAndStart t of
        (Start i h, t') \<Rightarrow> (i, h) # drain n t'
      | (_, t') \<Rightarrow> [])"

definition handled :: "sigdata \<Rightarrow> nat \<Rightarrow> bool" where
  "handled t i \<longleftrightarrow> pending i t \<and> sg_handler t i \<noteq> SIG_DFL"

lemma filter_from:
  assumes "i < n" "P i" "\<forall>j<i. \<not> P j"
  shows "filter P [0..<n] = i # filter (\<lambda>j. P j \<and> j > i) [0..<n]"
proof -
  note split = upt_split [OF assms(1)]
  have "filter P [0..<i] = []" "filter (\<lambda>j. P j \<and> j > i) [0..<i] = []"
    using assms(3) by (auto simp: filter_empty_conv)
  moreover have "filter (\<lambda>j. P j \<and> j > i) [Suc i..<n] = filter P [Suc i..<n]"
    by (auto intro: filter_cong)
  ultimately show ?thesis unfolding split using assms(2) by simp
qed

lemma drain_handled:
  assumes "\<forall>i<SIG_COUNT. pending i t \<and> isFatal (int i) \<longrightarrow> sg_handler t i \<noteq> SIG_DFL"
    and "length (filter (handled t) [0..<SIG_COUNT]) \<le> n"
  shows "drain n t = map (\<lambda>i. (i, sg_handler t i)) (filter (handled t) [0..<SIG_COUNT])"
  using assms
proof (induction n arbitrary: t)
  case 0
  then show ?case by simp
next
  case (Suc n)
  obtain r t' where c: "Signals_checkAndStart t = (r, t')" by force
  have eff: "effective t i \<longleftrightarrow> handled t i" if "i < SIG_COUNT" for i
    using Suc.prems(1) that by (auto simp: effective_def handled_def)
  show ?case
  proof (cases "\<forall>i<SIG_COUNT. \<not> effective t i")
    case True
    then have "r = NoSignal" using checkAndStart_cases [OF c] by auto
    moreover have "filter (handled t) [0..<SIG_COUNT] = []" using True eff by (auto simp: filter_empty_conv)
    ultimately show ?thesis using c by simp
  next
    case False
    then obtain i where i: "i < SIG_COUNT" "effective t i" "\<forall>j<i. \<not> effective t j"
      "\<forall>j. pending j t' \<longleftrightarrow> pending j t \<and> j > i"
      "if sg_handler t i = SIG_DFL then r = Terminate i \<and> sg_handler t' = sg_handler t
       else r = Start i (sg_handler t i) \<and> sg_handler t' = (sg_handler t)(i := SIG_DFL)"
      using checkAndStart_cases [OF c] by blast
    then have h: "handled t i" "\<forall>j<i. \<not> handled t j" using eff by auto
    then have r: "r = Start i (sg_handler t i)" "sg_handler t' = (sg_handler t)(i := SIG_DFL)"
      using i(5) by (auto simp: handled_def)
    have "handled t' = (\<lambda>j. handled t j \<and> j > i)"
      using i(4) r(2) by (auto simp: handled_def fun_eq_iff)
    then have f: "filter (handled t) [0..<SIG_COUNT] = i # filter (handled t') [0..<SIG_COUNT]"
      using filter_from [of i SIG_COUNT "handled t"] i(1) h by simp
    have "drain n t' = map (\<lambda>i. (i, sg_handler t' i)) (filter (handled t') [0..<SIG_COUNT])"
      using Suc.prems f i(4) r(2) by (intro Suc.IH) auto
    moreover have "sg_handler t' j = sg_handler t j" if "handled t' j" for j
      using that r(2) by (auto simp: handled_def)
    ultimately show ?thesis using c r(1) f by simp
  qed
qed

section \<open>Properties\<close>





text \<open>A thread that asks to ignore a signal, as the header of the C library documents, gets its
  handler started at the address -2, which is not an address of user space.\<close>

theorem Signals_ignored_started:
  assumes "canHandle signal" "sigRet \<noteq> 0" "sg_mask t = 0"
  shows "\<exists>t1 t2 t3. Syscalls_signal signal SIG_IGN (sigRet, t) = Some (sg_handler t (nat signal), sigRet, t1) \<and>
    Signals_addSignalFor signal t1 = Some (True, \<not> sg_ignore t, t2) \<and>
    Signals_checkAndStart t2 = (Start (nat signal) SIG_IGN, t3) \<and>
    \<not> isInUserSpace SIG_IGN 1"
proof -
  let ?n = "nat signal"
  have n: "0 \<le> signal" "signal < int SIG_COUNT" "?n < SIG_COUNT" "signal \<noteq> SIGRET"
    using assms(1) by (auto simp: canHandle_def SIGRET_def)
  have ign: "SIG_IGN \<noteq> SIG_DFL" by (simp add: SIG_IGN_def SIG_DFL_def)
  let ?t1 = "t\<lparr>sg_handler := (sg_handler t)(?n := SIG_IGN)\<rparr>"
  let ?t2 = "?t1\<lparr>sg_mask := sg_mask ?t1 OR push_bit ?n 1\<rparr>"
  have "Syscalls_signal signal SIG_IGN (sigRet, t) = Some (sg_handler t ?n, sigRet, ?t1)"
    using assms n by (simp add: Syscalls_signal_def Signals_setHandler_def)
  moreover have "Signals_addSignalFor signal ?t1 = Some (True, \<not> sg_ignore t, ?t2)"
    using n ign by (simp add: Signals_addSignalFor_def)
  moreover have "\<exists>t3. Signals_checkAndStart ?t2 = (Start ?n SIG_IGN, t3)"
  proof -
    define t2 where "t2 = ?t2"
    have p: "pending i t2 \<longleftrightarrow> i = ?n" for i
      using assms(3) n by (auto simp: t2_def pending_def bit_simps SIG_COUNT_def)
    have h: "sg_handler t2 ?n = SIG_IGN" by (simp add: t2_def)
    have e: "effective t2 i \<longleftrightarrow> i = ?n" for i using ign h by (auto simp: effective_def p)
    obtain r t3 where c: "Signals_checkAndStart t2 = (r, t3)" by force
    then have "r = Start ?n SIG_IGN"
      using checkAndStart_cases [OF c] n(3) ign unfolding e by (auto simp: h)
    then show ?thesis using c unfolding t2_def by blast
  qed
  moreover have "\<not> isInUserSpace SIG_IGN 1"
    by (simp add: isInUserSpace_def SIG_IGN_def KERNEL_AREA_def word_le_unat)
  ultimately show ?thesis by blast
qed

theorem Signals_ignored_started_witness:
  "\<exists>t1 t2 t3. Syscalls_signal SIGTERM SIG_IGN (0x5000, \<lparr>sg_handler = (\<lambda>_. 0), sg_mask = 0, sg_ignore = False\<rparr>) =
      Some (0, 0x5000, t1) \<and>
    Signals_addSignalFor SIGTERM t1 = Some (True, True, t2) \<and>
    Signals_checkAndStart t2 = (Start 1 SIG_IGN, t3)"
proof -
  have "canHandle SIGTERM" "nat SIGTERM = 1" by (simp_all add: canHandle_def SIGTERM_def SIG_COUNT_def)
  then show ?thesis
    using Signals_ignored_started [of SIGTERM "0x5000" "\<lparr>sg_handler = (\<lambda>_. 0), sg_mask = 0, sg_ignore = False\<rparr>"]
    by auto
qed

end
