(* ===== verification/Swap.thy ===== *)
theory Swap
  imports Esc_Prelude "HOL-Library.Monad_Syntax"
begin

text \<open>
  The blocks of the swap device (\<^verbatim>\<open>kernel/src/mem/swapmap.cc\<close>, \<^verbatim>\<open>kernel/include/mem/swapmap.h\<close>) and the
  contract under which regions use them: a block that is swapped out by a process and shared by its
  clones has a counter of references. The locale \<open>block_counter\<close> states the contract; the loops over
  the pages of a region are verified against it, and the swap map is an instance.
\<close>

section \<open>Page flags\<close>

definition PF_BITCOUNT :: nat where "PF_BITCOUNT = 3"
definition PF_COPYONWRITE :: ulong where "PF_COPYONWRITE = 1"
definition PF_DEMANDLOAD :: ulong where "PF_DEMANDLOAD = 2"
definition PF_SWAPPED :: ulong where "PF_SWAPPED = 4"

text \<open>The loops that visit the swap block of every page that is swapped out.\<close>

fun each_block :: "(ulong \<Rightarrow> 's \<Rightarrow> 's option) \<Rightarrow> ulong list \<Rightarrow> 's \<Rightarrow> 's option" where
  "each_block f [] s = Some s"
| "each_block f (pf # pfs) s =
     (if pf AND PF_SWAPPED \<noteq> 0 then do { s \<leftarrow> f (drop_bit PF_BITCOUNT pf) s; each_block f pfs s }
      else each_block f pfs s)"

definition blocks_of :: "ulong list \<Rightarrow> ulong list" where
  "blocks_of pfs = map (drop_bit PF_BITCOUNT) (filter (\<lambda>pf. pf AND PF_SWAPPED \<noteq> 0) pfs)"

lemma blocks_of_simps [simp]:
  "blocks_of [] = []"
  "blocks_of (pf # pfs) = (if pf AND PF_SWAPPED \<noteq> 0 then drop_bit PF_BITCOUNT pf # blocks_of pfs else blocks_of pfs)"
  "blocks_of (xs @ ys) = blocks_of xs @ blocks_of ys"
  by (simp_all add: blocks_of_def)

lemma blocks_of_zeros [simp]: "blocks_of (replicate n 0) = []"
  by (simp add: blocks_of_def)

section \<open>The contract\<close>

locale block_counter =
  fixes inv :: "'s \<Rightarrow> bool" and cnt :: "'s \<Rightarrow> ulong \<Rightarrow> nat" and lim :: nat
    and inc :: "ulong \<Rightarrow> 's \<Rightarrow> 's option" and dec :: "ulong \<Rightarrow> 's \<Rightarrow> 's option"
  assumes inc_ok: "\<lbrakk>inv s; 0 < cnt s b; cnt s b < lim\<rbrakk> \<Longrightarrow>
      \<exists>s'. inc b s = Some s' \<and> inv s' \<and> cnt s' = (cnt s)(b := cnt s b + 1)"
    and dec_ok: "\<lbrakk>inv s; 0 < cnt s b\<rbrakk> \<Longrightarrow>
      \<exists>s'. dec b s = Some s' \<and> inv s' \<and> cnt s' = (cnt s)(b := cnt s b - 1)"
begin

lemma inc_all:
  assumes "inv s" "\<And>b. b \<in> set (blocks_of pfs) \<Longrightarrow> 0 < cnt s b"
    and "\<And>b. cnt s b + count_list (blocks_of pfs) b \<le> lim"
  shows "\<exists>s'. each_block inc pfs s = Some s' \<and> inv s' \<and> cnt s' = (\<lambda>b. cnt s b + count_list (blocks_of pfs) b)"
  using assms
proof (induction pfs arbitrary: s)
  case (Cons pf pfs)
  show ?case
  proof (cases "pf AND PF_SWAPPED \<noteq> 0")
    case True
    let ?b = "drop_bit PF_BITCOUNT pf"
    have "cnt s ?b < lim" using Cons.prems(3) [of ?b] True by simp
    then obtain s1 where s1: "inc ?b s = Some s1" "inv s1" "cnt s1 = (cnt s)(?b := cnt s ?b + 1)"
      using inc_ok [OF Cons.prems(1)] Cons.prems(2) [of ?b] True by auto
    have le: "cnt s1 b + count_list (blocks_of pfs) b \<le> lim" for b
      using Cons.prems(3) [of b] True s1(3) by (simp split: if_splits)
    have pos: "0 < cnt s1 b" if "b \<in> set (blocks_of pfs)" for b
      using Cons.prems(2) [of b] that True s1(3) by simp
    obtain s' where "each_block inc pfs s1 = Some s'" "inv s'"
      "cnt s' = (\<lambda>b. cnt s1 b + count_list (blocks_of pfs) b)"
      using Cons.IH [OF s1(2) pos le] by blast
    then show ?thesis using True s1 by (auto simp: fun_eq_iff)
  next
    case False
    then show ?thesis using Cons.IH [OF Cons.prems(1)] Cons.prems(2,3) by simp
  qed
qed simp

lemma dec_all:
  assumes "inv s" "\<And>b. count_list (blocks_of pfs) b \<le> cnt s b"
  shows "\<exists>s'. each_block dec pfs s = Some s' \<and> inv s' \<and> cnt s' = (\<lambda>b. cnt s b - count_list (blocks_of pfs) b)"
  using assms
proof (induction pfs arbitrary: s)
  case (Cons pf pfs)
  show ?case
  proof (cases "pf AND PF_SWAPPED \<noteq> 0")
    case True
    let ?b = "drop_bit PF_BITCOUNT pf"
    have "0 < cnt s ?b" using Cons.prems(2) [of ?b] True by simp
    then obtain s1 where s1: "dec ?b s = Some s1" "inv s1" "cnt s1 = (cnt s)(?b := cnt s ?b - 1)"
      using dec_ok [OF Cons.prems(1)] by blast
    have le: "count_list (blocks_of pfs) b \<le> cnt s1 b" for b
      using Cons.prems(2) [of b] True s1(3) by (simp split: if_splits)
    obtain s' where "each_block dec pfs s1 = Some s'" "inv s'"
      "cnt s' = (\<lambda>b. cnt s1 b - count_list (blocks_of pfs) b)"
      using Cons.IH [OF s1(2) le] by blast
    then show ?thesis using True s1 by (auto simp: fun_eq_iff)
  next
    case False
    then show ?thesis using Cons.IH [OF Cons.prems(1)] Cons.prems(2) by simp
  qed
qed simp

text \<open>References that were added can be dropped again, and the counters are as before.\<close>

lemma inc_dec_all:
  assumes "inv s" "\<And>b. b \<in> set (blocks_of pfs) \<Longrightarrow> 0 < cnt s b"
    and "\<And>b. cnt s b + count_list (blocks_of pfs) b \<le> lim"
  shows "\<exists>s1 s2. each_block inc pfs s = Some s1 \<and> each_block dec pfs s1 = Some s2 \<and> inv s2 \<and> cnt s2 = cnt s"
proof -
  obtain s1 where s1: "each_block inc pfs s = Some s1" "inv s1" "cnt s1 = (\<lambda>b. cnt s b + count_list (blocks_of pfs) b)"
    using inc_all [OF assms] by blast
  obtain s2 where "each_block dec pfs s1 = Some s2" "inv s2" "cnt s2 = (\<lambda>b. cnt s1 b - count_list (blocks_of pfs) b)"
    using dec_all [OF s1(2), of pfs] s1(3) by auto
  then show ?thesis using s1 by simp
qed

end

section \<open>The swap map\<close>

definition INVALID_BLOCK :: ulong where "INVALID_BLOCK = 0xFFFFFFFF"

text \<open>The free list is a sequence of indices; the number of blocks is the length of the array.\<close>

record swapmap =
  sw_refs :: "u32 list"
  sw_freeList :: "nat list"
  sw_freeBlocks :: nat

definition SwapMap_init :: "bool \<Rightarrow> size_t \<Rightarrow> (bool \<times> swapmap) option" where
  "SwapMap_init ok swapSize =
     (let total_blocks = unat (swapSize div PAGE_SIZE) in
      if \<not> ok then Some (False, \<lparr>sw_refs = [], sw_freeList = [], sw_freeBlocks = total_blocks\<rparr>)
      else if total_blocks = 0 then None
      else Some (True, \<lparr>sw_refs = replicate total_blocks 0, sw_freeList = rev [0..<total_blocks],
                        sw_freeBlocks = total_blocks\<rparr>))"

definition SwapMap_alloc :: "swapmap \<Rightarrow> ulong \<times> swapmap" where
  "SwapMap_alloc s =
     (case sw_freeList s of
        [] \<Rightarrow> (INVALID_BLOCK, s)
      | b # bs \<Rightarrow>
          (of_nat b, s\<lparr>sw_refs := (sw_refs s)[b := 1], sw_freeList := bs,
                       sw_freeBlocks := sw_freeBlocks s - 1\<rparr>))"

definition SwapMap_free :: "ulong \<Rightarrow> swapmap \<Rightarrow> swapmap option" where
  "SwapMap_free block s =
     (let b = unat block in
      if \<not> b < length (sw_refs s) then None
      else
        let r = sw_refs s ! b - 1; s = s\<lparr>sw_refs := (sw_refs s)[b := r]\<rparr> in
        Some (if r = 0 then s\<lparr>sw_freeList := b # sw_freeList s, sw_freeBlocks := sw_freeBlocks s + 1\<rparr> else s))"

definition SwapMap_incRefs :: "ulong \<Rightarrow> swapmap \<Rightarrow> swapmap option" where
  "SwapMap_incRefs block s =
     (let b = unat block in
      if \<not> (b < length (sw_refs s) \<and> sw_refs s ! b > 0) then None
      else Some (s\<lparr>sw_refs := (sw_refs s)[b := sw_refs s ! b + 1]\<rparr>))"

definition SwapMap_isUsed :: "ulong \<Rightarrow> swapmap \<Rightarrow> bool option" where
  "SwapMap_isUsed block s =
     (let b = unat block in if \<not> b < length (sw_refs s) then None else Some (sw_refs s ! b > 0))"

definition sw_inv :: "swapmap \<Rightarrow> bool" where
  "sw_inv s \<longleftrightarrow> length (sw_refs s) \<le> 2 ^ 20 \<and> distinct (sw_freeList s) \<and>
     (\<forall>b. b \<in> set (sw_freeList s) \<longleftrightarrow> b < length (sw_refs s) \<and> sw_refs s ! b = 0) \<and>
     sw_freeBlocks s = length (sw_freeList s)"

definition sw_cnt :: "swapmap \<Rightarrow> ulong \<Rightarrow> nat" where
  "sw_cnt s block = (if unat block < length (sw_refs s) then unat (sw_refs s ! unat block) else 0)"

lemma sw_inv_update:
  assumes "sw_inv s" "b < length (sw_refs s)" "distinct fs" "n = length fs"
    and "\<And>x. x \<noteq> b \<Longrightarrow> x \<in> set fs \<longleftrightarrow> x \<in> set (sw_freeList s)" "b \<in> set fs \<longleftrightarrow> r = 0"
  shows "sw_inv (s\<lparr>sw_refs := (sw_refs s)[b := r], sw_freeList := fs, sw_freeBlocks := n\<rparr>)"
proof -
  have "x \<in> set fs \<longleftrightarrow> x < length (sw_refs s) \<and> (sw_refs s)[b := r] ! x = 0" for x
  proof (cases "x = b")
    case True
    then show ?thesis using assms(2,6) by simp
  next
    case False
    have "x \<in> set (sw_freeList s) \<longleftrightarrow> x < length (sw_refs s) \<and> sw_refs s ! x = 0"
      using assms(1) unfolding sw_inv_def by blast
    then show ?thesis using assms(5) [OF False] False by simp
  qed
  moreover have "length (sw_refs s) \<le> 2 ^ 20" using assms(1) unfolding sw_inv_def by blast
  ultimately show ?thesis using assms(3,4) by (simp add: sw_inv_def)
qed

lemma sw_inv_free: "sw_inv s \<Longrightarrow> b \<in> set (sw_freeList s) \<longleftrightarrow> b < length (sw_refs s) \<and> sw_refs s ! b = 0"
  unfolding sw_inv_def by blast

lemma sw_inv_list: "sw_inv s \<Longrightarrow> distinct (sw_freeList s) \<and> sw_freeBlocks s = length (sw_freeList s)"
  unfolding sw_inv_def by blast

lemma sw_cnt_update:
  assumes "unat b < length (sw_refs s)"
  shows "sw_cnt (s\<lparr>sw_refs := (sw_refs s)[unat b := r], sw_freeList := fs, sw_freeBlocks := n\<rparr>) =
    (sw_cnt s)(b := unat r)"
proof
  fix x
  show "sw_cnt (s\<lparr>sw_refs := (sw_refs s)[unat b := r], sw_freeList := fs, sw_freeBlocks := n\<rparr>) x =
      ((sw_cnt s)(b := unat r)) x"
  proof (cases "x = b")
    case False
    then have "unat x \<noteq> unat b" by (simp add: unat_order)
    then show ?thesis using False by (simp add: sw_cnt_def)
  qed (use assms in \<open>simp add: sw_cnt_def\<close>)
qed

lemma SwapMap_incRefs_ok:
  assumes "sw_inv s" "0 < sw_cnt s b" "sw_cnt s b < 2 ^ 32 - 1"
  shows "\<exists>s'. SwapMap_incRefs b s = Some s' \<and> sw_inv s' \<and> sw_cnt s' = (sw_cnt s)(b := sw_cnt s b + 1)"
proof -
  let ?b = "unat b"
  have b: "?b < length (sw_refs s)" "0 < unat (sw_refs s ! ?b)" "sw_cnt s b = unat (sw_refs s ! ?b)"
    using assms(2) by (auto simp: sw_cnt_def split: if_splits)
  have u: "unat (sw_refs s ! ?b + 1) = unat (sw_refs s ! ?b) + 1"
    using assms(3) b(3) unat_plus_nowrap [of "sw_refs s ! ?b" 1] by simp
  have nz: "sw_refs s ! ?b + 1 \<noteq> 0"
  proof
    assume "sw_refs s ! ?b + 1 = 0"
    then have "unat (sw_refs s ! ?b + 1) = 0" by (simp only: unat_0)
    then show False using u by simp
  qed
  have "?b \<notin> set (sw_freeList s)" using sw_inv_free [OF assms(1), of ?b] b(2) by auto
  then have inv: "sw_inv (s\<lparr>sw_refs := (sw_refs s)[?b := sw_refs s ! ?b + 1], sw_freeList := sw_freeList s,
      sw_freeBlocks := sw_freeBlocks s\<rparr>)"
    using nz sw_inv_list [OF assms(1)] by (intro sw_inv_update [OF assms(1) b(1)]) simp_all
  have nop: "s\<lparr>sw_refs := R, sw_freeList := sw_freeList s, sw_freeBlocks := sw_freeBlocks s\<rparr> = s\<lparr>sw_refs := R\<rparr>" for R
    by (cases s) simp
  have "SwapMap_incRefs b s = Some (s\<lparr>sw_refs := (sw_refs s)[?b := sw_refs s ! ?b + 1]\<rparr>)"
    using b by (simp add: SwapMap_incRefs_def Let_def word_less_nat_alt)
  then show ?thesis
    using inv sw_cnt_update [OF b(1), where r = "sw_refs s ! ?b + 1" and fs = "sw_freeList s" and n = "sw_freeBlocks s"] b(3) u
    unfolding nop by simp
qed

lemma SwapMap_free_ok:
  assumes "sw_inv s" "0 < sw_cnt s b"
  shows "\<exists>s'. SwapMap_free b s = Some s' \<and> sw_inv s' \<and> sw_cnt s' = (sw_cnt s)(b := sw_cnt s b - 1)"
proof -
  let ?b = "unat b"
  let ?r = "sw_refs s ! ?b - 1"
  have b: "?b < length (sw_refs s)" "0 < unat (sw_refs s ! ?b)" "sw_cnt s b = unat (sw_refs s ! ?b)"
    using assms(2) by (auto simp: sw_cnt_def split: if_splits)
  have u: "unat ?r = unat (sw_refs s ! ?b) - 1"
    using b(2) unat_sub [of 1 "sw_refs s ! ?b"] by (simp add: word_le_nat_alt)
  have used: "?b \<notin> set (sw_freeList s)" using sw_inv_free [OF assms(1), of ?b] b(2) by auto
  note cnt = sw_cnt_update [OF b(1), where r = ?r]
  show ?thesis
  proof (cases "?r = 0")
    case True
    have "sw_inv (s\<lparr>sw_refs := (sw_refs s)[?b := ?r], sw_freeList := ?b # sw_freeList s, sw_freeBlocks := sw_freeBlocks s + 1\<rparr>)"
      using True used sw_inv_list [OF assms(1)] by (intro sw_inv_update [OF assms(1) b(1)]) simp_all
    moreover have "SwapMap_free b s = Some (s\<lparr>sw_refs := (sw_refs s)[?b := ?r], sw_freeList := ?b # sw_freeList s,
        sw_freeBlocks := sw_freeBlocks s + 1\<rparr>)"
      using b True by (simp add: SwapMap_free_def Let_def)
    ultimately show ?thesis using cnt u b(3) by simp
  next
    case False
    have inv: "sw_inv (s\<lparr>sw_refs := (sw_refs s)[?b := ?r], sw_freeList := sw_freeList s, sw_freeBlocks := sw_freeBlocks s\<rparr>)"
      using False used sw_inv_list [OF assms(1)] by (intro sw_inv_update [OF assms(1) b(1)]) simp_all
    have nop: "s\<lparr>sw_refs := R, sw_freeList := sw_freeList s, sw_freeBlocks := sw_freeBlocks s\<rparr> = s\<lparr>sw_refs := R\<rparr>" for R
      by (cases s) simp
    have "SwapMap_free b s = Some (s\<lparr>sw_refs := (sw_refs s)[?b := ?r]\<rparr>)"
      using b(1) False by (simp add: SwapMap_free_def Let_def)
    then show ?thesis using inv cnt [where fs = "sw_freeList s" and n = "sw_freeBlocks s"] u b(3) unfolding nop by simp
  qed
qed

interpretation swap_blocks: block_counter sw_inv sw_cnt "2 ^ 32 - 1" SwapMap_incRefs SwapMap_free
  by unfold_locales (rule SwapMap_incRefs_ok SwapMap_free_ok; assumption)+

lemma SwapMap_alloc_ok:
  assumes inv: "sw_inv s" and al: "SwapMap_alloc s = (b, s')"
  shows "if sw_freeList s = [] then b = INVALID_BLOCK \<and> s' = s
    else sw_inv s' \<and> b \<noteq> INVALID_BLOCK \<and> unat b < 2 ^ 20 \<and> sw_cnt s b = 0 \<and> sw_cnt s' = (sw_cnt s)(b := 1)"
proof (cases "sw_freeList s")
  case (Cons x xs)
  have x: "x < length (sw_refs s)" "sw_refs s ! x = 0" "length (sw_refs s) \<le> 2 ^ 20"
    using inv Cons by (auto simp: sw_inv_def)
  then have ub: "unat b = x" using al Cons by (auto simp: SwapMap_alloc_def unat_of_nat_u32)
  have "b \<noteq> INVALID_BLOCK"
  proof
    assume "b = INVALID_BLOCK"
    then have "x = unat INVALID_BLOCK" using ub by simp
    then show False using x by (simp add: INVALID_BLOCK_def)
  qed
  moreover have s': "s' = s\<lparr>sw_refs := (sw_refs s)[x := 1], sw_freeList := xs, sw_freeBlocks := sw_freeBlocks s - 1\<rparr>"
    using al Cons by (simp add: SwapMap_alloc_def)
  moreover have "sw_inv s'"
    unfolding s' using sw_inv_list [OF inv] Cons by (intro sw_inv_update [OF inv x(1)]) auto
  moreover have "sw_cnt s' = (sw_cnt s)(b := 1)"
    using sw_cnt_update [of b s, where r = 1 and fs = xs and n = "sw_freeBlocks s - 1"] x(1) ub unfolding s' by simp
  ultimately show ?thesis using Cons ub x by (simp add: sw_cnt_def)
qed (use al in \<open>simp add: SwapMap_alloc_def\<close>)

end
