(* ===== verification/Region.thy ===== *)
theory Region
  imports Swap
begin

text \<open>
  Regions (\<^verbatim>\<open>kernel/src/mem/region.cc\<close>, \<^verbatim>\<open>kernel/include/mem/region.h\<close>): groups of pages with flags, whose
  pages may be on the swap device, and the parts of \<^verbatim>\<open>VirtMem::swapOut\<close> and \<^verbatim>\<open>VirtMem::swapIn\<close> that change
  the flags of a page and the swap map.

  The array of page flags is a list; its length is the field \<^verbatim>\<open>pfSize\<close>. Only the first
  \<^verbatim>\<open>BYTES_2_PAGES(byteCount)\<close> entries are in use. The content of freshly allocated memory is the
  argument \<open>fresh\<close>, the outcome of an allocation the argument \<open>ok\<close>.
\<close>

section \<open>State and operations\<close>

definition RF_SHAREABLE :: ulong where "RF_SHAREABLE = 1"
definition RF_GROWABLE :: ulong where "RF_GROWABLE = 2"
definition RF_GROWS_DOWN :: ulong where "RF_GROWS_DOWN = 4"

record region =
  rg_flags :: ulong
  rg_file :: bool
  rg_offset :: size_t
  rg_loadCount :: size_t
  rg_byteCount :: size_t
  rg_pageFlags :: "ulong list"
  rg_vms :: "ref list"

definition npages :: "region \<Rightarrow> nat" where
  "npages r = unat (BYTES_2_PAGES (rg_byteCount r))"

definition Region_init :: "bool \<Rightarrow> (nat \<Rightarrow> ulong) \<Rightarrow> ulong \<Rightarrow> region \<Rightarrow> (bool \<times> region) option" where
  "Region_init ok fresh pgFlags r =
     (if rg_flags r AND (RF_SHAREABLE OR RF_GROWABLE) = (RF_SHAREABLE OR RF_GROWABLE) then None
      else if \<not> (pgFlags = - 1 \<or> pgFlags = PF_DEMANDLOAD \<or> pgFlags = 0) then None
      else
        let r = (if rg_file r then r else r\<lparr>rg_offset := 0, rg_loadCount := 0\<rparr>);
            pages = npages r;
            pf = map fresh [0..<max 1 pages]
        in if \<not> ok then Some (False, r\<lparr>rg_byteCount := 0, rg_pageFlags := []\<rparr>)
           else Some (True, r\<lparr>rg_pageFlags := (if pgFlags \<noteq> - 1
                               then replicate pages pgFlags @ drop pages pf else pf)\<rparr>))"

definition Region_new :: "bool \<Rightarrow> (nat \<Rightarrow> ulong) \<Rightarrow> bool \<Rightarrow> size_t \<Rightarrow> size_t \<Rightarrow> size_t \<Rightarrow> ulong \<Rightarrow> ulong \<Rightarrow>
    (bool \<times> region) option" where
  "Region_new ok fresh file bCount lCount off pgFlags flags =
     Region_init ok fresh pgFlags
       \<lparr>rg_flags = flags, rg_file = file, rg_offset = off, rg_loadCount = lCount, rg_byteCount = bCount,
        rg_pageFlags = [], rg_vms = []\<rparr>"

definition Region_addTo :: "ref \<Rightarrow> region \<Rightarrow> region option" where
  "Region_addTo vm r =
     (if length (rg_vms r) = 0 \<or> rg_flags r AND RF_SHAREABLE \<noteq> 0
      then Some (r\<lparr>rg_vms := rg_vms r @ [vm]\<rparr>) else None)"

definition Region_remFrom :: "ref \<Rightarrow> region \<Rightarrow> bool \<times> region" where
  "Region_remFrom vm r = (vm \<in> set (rg_vms r), r\<lparr>rg_vms := remove1 vm (rg_vms r)\<rparr>)"

text \<open>The copy constructor, for the clone of an address space.\<close>

definition Region_clone :: "bool \<Rightarrow> (nat \<Rightarrow> ulong) \<Rightarrow> ref \<Rightarrow> region \<Rightarrow> swapmap \<Rightarrow> (bool \<times> region \<times> swapmap) option" where
  "Region_clone ok fresh vm reg s =
     (if rg_flags reg AND RF_SHAREABLE \<noteq> 0 then None
      else
        do {
          (b, r) \<leftarrow> Region_init ok fresh (- 1)
            \<lparr>rg_flags = rg_flags reg, rg_file = rg_file reg, rg_offset = rg_offset reg,
             rg_loadCount = rg_loadCount reg, rg_byteCount = rg_byteCount reg, rg_pageFlags = [], rg_vms = []\<rparr>;
          if \<not> b then Some (False, r, s)
          else
            do {
              let count = npages reg;
              let r = r\<lparr>rg_pageFlags := take count (rg_pageFlags reg) @ drop count (rg_pageFlags r)\<rparr>;
              s \<leftarrow> each_block SwapMap_incRefs (take count (rg_pageFlags reg)) s;
              r \<leftarrow> Region_addTo vm r;
              Some (True, r, s)
            }
        })"

definition Region_destroy :: "region \<Rightarrow> swapmap \<Rightarrow> swapmap option" where
  "Region_destroy r s = each_block SwapMap_free (take (npages r) (rg_pageFlags r)) s"

text \<open>The number of pages in memory, on the swap device, and with copy-on-write.\<close>

fun count_pages :: "ulong list \<Rightarrow> nat \<times> nat \<times> nat" where
  "count_pages [] = (0, 0, 0)"
| "count_pages (pf # pfs) =
     (let (c, sw, cow) = count_pages pfs in
      (if pf AND (PF_DEMANDLOAD OR PF_SWAPPED) = 0 then c + 1 else c,
       if pf AND PF_SWAPPED \<noteq> 0 then sw + 1 else sw,
       if pf AND PF_COPYONWRITE \<noteq> 0 then cow + 1 else cow))"

definition Region_pageCount :: "region \<Rightarrow> nat \<times> nat \<times> nat" where
  "Region_pageCount r = count_pages (take (npages r) (rg_pageFlags r))"

definition Region_getSwapBlock :: "nat \<Rightarrow> region \<Rightarrow> ulong option" where
  "Region_getSwapBlock i r =
     (if i < length (rg_pageFlags r) \<and> rg_pageFlags r ! i AND PF_SWAPPED \<noteq> 0
      then Some (drop_bit PF_BITCOUNT (rg_pageFlags r ! i)) else None)"

definition Region_setSwapBlock :: "nat \<Rightarrow> ulong \<Rightarrow> region \<Rightarrow> region option" where
  "Region_setSwapBlock i block r =
     (if i < length (rg_pageFlags r) then
        Some (r\<lparr>rg_pageFlags := (rg_pageFlags r)
          [i := (rg_pageFlags r ! i AND (push_bit PF_BITCOUNT 1 - 1)) OR push_bit PF_BITCOUNT block]\<rparr>)
      else None)"

definition Region_setPageFlags :: "nat \<Rightarrow> ulong \<Rightarrow> region \<Rightarrow> region option" where
  "Region_setPageFlags i flags r =
     (if i < length (rg_pageFlags r) then Some (r\<lparr>rg_pageFlags := (rg_pageFlags r)[i := flags]\<rparr>) else None)"

text \<open>
  Growing and shrinking. The results are the return value, the number of own pages that a shrink
  removes, and the new states. The pages removed by a shrink are those from \<open>count - n\<close> on; if the
  region grows down, the remaining flags are moved to the front instead.
\<close>

definition own_pages :: "ulong list \<Rightarrow> nat" where
  "own_pages pfs = length (filter (\<lambda>pf. pf AND PF_SWAPPED = 0 \<and>
     pf AND (PF_COPYONWRITE OR PF_DEMANDLOAD) = 0) pfs)"

definition Region_grow :: "bool \<Rightarrow> (nat \<Rightarrow> ulong) \<Rightarrow> int \<Rightarrow> region \<Rightarrow> swapmap \<Rightarrow> (int \<times> nat \<times> region \<times> swapmap) option" where
  "Region_grow ok fresh amount r s =
     (let count = npages r; pf = rg_pageFlags r; down = (rg_flags r AND RF_GROWS_DOWN \<noteq> 0) in
      if rg_flags r AND RF_GROWABLE = 0 then None
      else if amount > 0 then
        let n = nat amount; pf = pf @ map fresh [length pf..<length pf + n] in
        if \<not> ok then Some (- ENOMEM, 0, r, s)
        else
          let pf = (if down then replicate n 0 @ take count pf @ drop (count + n) pf
                    else take count pf @ replicate n 0 @ drop (count + n) pf) in
          Some (0, 0, r\<lparr>rg_pageFlags := pf,
                        rg_byteCount := ROUND_PAGE_UP (rg_byteCount r) + of_nat n * PAGE_SIZE\<rparr>, s)
      else
        let n = nat (- amount) in
        if rg_byteCount r < of_nat n * PAGE_SIZE then Some (- ENOMEM, 0, r, s)
        else
          let tl = take n (drop (count - n) pf) in
          do {
            s \<leftarrow> each_block SwapMap_free tl s;
            let pf = (if down then take (count - n) (drop n pf) @ drop (count - n) pf else pf);
            Some (int (length (blocks_of tl)), own_pages tl,
              r\<lparr>rg_pageFlags := pf,
                rg_byteCount := ROUND_PAGE_UP (rg_byteCount r) - of_nat n * PAGE_SIZE\<rparr>, s)
          })"

text \<open>The parts of \<^verbatim>\<open>VirtMem::swapOut\<close> and \<^verbatim>\<open>VirtMem::swapIn\<close> for one page.\<close>

definition VirtMem_swapOut :: "nat \<Rightarrow> region \<Rightarrow> swapmap \<Rightarrow> (region \<times> swapmap) option" where
  "VirtMem_swapOut index r s =
     (let (block, s) = SwapMap_alloc s in
      if block = INVALID_BLOCK \<or> \<not> index < length (rg_pageFlags r) then None
      else do {
        r \<leftarrow> Region_setPageFlags index (rg_pageFlags r ! index OR PF_SWAPPED) r;
        r \<leftarrow> Region_setSwapBlock index block r;
        Some (r, s)
      })"

definition VirtMem_swapIn :: "nat \<Rightarrow> region \<Rightarrow> swapmap \<Rightarrow> (bool \<times> region \<times> swapmap) option" where
  "VirtMem_swapIn index r s =
     (if \<not> index < length (rg_pageFlags r) then None
      else if rg_pageFlags r ! index AND PF_SWAPPED = 0 then Some (False, r, s)
      else do {
        block \<leftarrow> Region_getSwapBlock index r;
        r \<leftarrow> Region_setPageFlags index (rg_pageFlags r ! index AND NOT PF_SWAPPED) r;
        r \<leftarrow> Region_setSwapBlock index 0 r;
        s \<leftarrow> SwapMap_free block s;
        Some (True, r, s)
      })"

section \<open>Flags and swap blocks in one word\<close>

lemma swapped_iff: "pf AND PF_SWAPPED \<noteq> 0 \<longleftrightarrow> bit pf 2" for pf :: ulong
proof -
  have "PF_SWAPPED = 2 ^ 2" by (simp add: PF_SWAPPED_def)
  then show ?thesis using and_exp_eq_0_iff_not_bit [of pf 2] by simp
qed

lemma low_mask: "2 ^ PF_BITCOUNT - 1 = (mask 3 :: ulong)"
  by (simp add: PF_BITCOUNT_def mask_eq_exp_minus_1)

lemma block_bits:
  assumes "unat (b :: ulong) < 2 ^ 29"
  shows "bit b n \<Longrightarrow> n < 29"
proof -
  assume "bit b n"
  moreover have "take_bit 29 b = b"
    using assms by (simp add: word_eq_unat unsigned_take_bit_eq take_bit_nat_eq_self)
  ultimately show "n < 29" by (metis bit_take_bit_iff)
qed

lemma set_block:
  assumes "unat (b :: ulong) < 2 ^ 29"
  shows "drop_bit PF_BITCOUNT ((pf AND mask 3) OR push_bit PF_BITCOUNT b) = b"
    and "bit ((pf AND mask 3) OR push_bit PF_BITCOUNT b) 2 \<longleftrightarrow> bit pf 2"
proof -
  show "drop_bit PF_BITCOUNT ((pf AND mask 3) OR push_bit PF_BITCOUNT b) = b"
    by (rule bit_eqI) (use block_bits [OF assms] in \<open>auto simp: bit_simps PF_BITCOUNT_def\<close>)
  show "bit ((pf AND mask 3) OR push_bit PF_BITCOUNT b) 2 \<longleftrightarrow> bit pf 2"
    by (auto simp: bit_simps PF_BITCOUNT_def)
qed

lemma swapped_set_block:
  assumes "unat (b :: ulong) < 2 ^ 29"
  shows "((pf AND mask 3) OR push_bit PF_BITCOUNT b) AND PF_SWAPPED \<noteq> 0 \<longleftrightarrow> pf AND PF_SWAPPED \<noteq> 0"
  unfolding swapped_iff using set_block(2) [OF assms] .

section \<open>The pages in use\<close>

definition pages :: "region \<Rightarrow> ulong list" where
  "pages r = take (npages r) (rg_pageFlags r)"

definition region_ok :: "region \<Rightarrow> bool" where
  "region_ok r \<longleftrightarrow> npages r \<le> length (rg_pageFlags r) \<and> unat (rg_byteCount r) + 4095 < 2 ^ 32"

lemma length_pages: "region_ok r \<Longrightarrow> length (pages r) = npages r"
  by (simp add: pages_def region_ok_def)

lemma npages_div: "unat (rg_byteCount r) + 4095 < 2 ^ 32 \<Longrightarrow> npages r = (unat (rg_byteCount r) + 4095) div 4096"
  by (simp add: npages_def unat_BYTES_2_PAGES)

lemma unat_pages: "n * 4096 < 2 ^ 32 \<Longrightarrow> unat (of_nat n * PAGE_SIZE) = n * 4096"
  by (simp add: PAGE_SIZE_def unat_word_ariths unat_of_nat_u32)

lemma grow_bytes:
  assumes "region_ok r" "(npages r + n) * 4096 + 4095 < 2 ^ 32"
    and bc: "rg_byteCount r' = ROUND_PAGE_UP (rg_byteCount r) + of_nat n * PAGE_SIZE"
  shows "unat (rg_byteCount r') = (npages r + n) * 4096" "npages r' = npages r + n"
proof -
  have r: "unat (rg_byteCount r) + 4095 < 2 ^ 32" using assms(1) by (simp add: region_ok_def)
  have "unat (ROUND_PAGE_UP (rg_byteCount r)) = npages r * 4096"
    using unat_ROUND_PAGE_UP [OF r] npages_div [OF r] by simp
  moreover have "unat (of_nat n * PAGE_SIZE) = n * 4096" using assms(2) by (intro unat_pages) simp
  ultimately show bytes: "unat (rg_byteCount r') = (npages r + n) * 4096"
    unfolding bc using assms(2) by (subst unat_plus_nowrap) (simp_all add: algebra_simps)
  then show "npages r' = npages r + n"
    using npages_div [of r'] assms(2) by simp
qed

lemma Region_grow_pages:
  assumes ok: "region_ok r" and "rg_flags r AND RF_GROWABLE \<noteq> 0" "0 < amount"
    and fit: "(npages r + nat amount) * 4096 + 4095 < 2 ^ 32"
  shows "\<exists>r'. Region_grow True fresh amount r s = Some (0, 0, r', s) \<and> region_ok r' \<and>
    rg_flags r' = rg_flags r \<and>
    pages r' = (if rg_flags r AND RF_GROWS_DOWN \<noteq> 0 then replicate (nat amount) 0 @ pages r
                else pages r @ replicate (nat amount) 0)"
proof -
  let ?n = "nat amount" and ?c = "npages r" and ?down = "rg_flags r AND RF_GROWS_DOWN \<noteq> 0"
  let ?pf = "rg_pageFlags r @ map fresh [length (rg_pageFlags r)..<length (rg_pageFlags r) + ?n]"
  let ?pf' = "if ?down then replicate ?n 0 @ take ?c ?pf @ drop (?c + ?n) ?pf
              else take ?c ?pf @ replicate ?n 0 @ drop (?c + ?n) ?pf"
  let ?r = "r\<lparr>rg_pageFlags := ?pf', rg_byteCount := ROUND_PAGE_UP (rg_byteCount r) + of_nat ?n * PAGE_SIZE\<rparr>"
  have c: "?c \<le> length (rg_pageFlags r)" using ok by (simp add: region_ok_def)
  have by_n: "unat (rg_byteCount ?r) = (?c + ?n) * 4096" "npages ?r = ?c + ?n"
    by (rule grow_bytes [OF ok fit]; simp)+
  have "length (take ?c ?pf @ replicate ?n 0 @ drop (?c + ?n) ?pf) = length (rg_pageFlags r) + ?n"
    "length (replicate ?n 0 @ take ?c ?pf @ drop (?c + ?n) ?pf) = length (rg_pageFlags r) + ?n"
    using c unfolding length_append length_take length_drop length_replicate length_map length_upt by linarith+
  then have "?c + ?n \<le> length ?pf'" using c by simp
  then have "region_ok ?r" unfolding region_ok_def by_n using fit by simp
  moreover have "pages ?r = (if ?down then replicate ?n 0 @ pages r else pages r @ replicate ?n 0)"
    unfolding pages_def by_n using c by simp
  moreover have "Region_grow True fresh amount r s = Some (0, 0, ?r, s)"
    using assms(2,3) by (simp add: Region_grow_def Let_def)
  ultimately show ?thesis by (intro exI [of _ ?r]) simp
qed

lemma shrink_bytes:
  assumes "region_ok r" "n * 4096 \<le> unat (rg_byteCount r)"
    and bc: "rg_byteCount r' = ROUND_PAGE_UP (rg_byteCount r) - of_nat n * PAGE_SIZE"
  shows "unat (rg_byteCount r') = (npages r - n) * 4096" "npages r' = npages r - n" "n \<le> npages r"
proof -
  have r: "unat (rg_byteCount r) + 4095 < 2 ^ 32" using assms(1) by (simp add: region_ok_def)
  have up: "unat (ROUND_PAGE_UP (rg_byteCount r)) = npages r * 4096"
    using unat_ROUND_PAGE_UP [OF r] npages_div [OF r] by simp
  show le: "n \<le> npages r" using assms(2) npages_div [OF r] by linarith
  have n: "unat (of_nat n * PAGE_SIZE) = n * 4096" using assms(2) r by (intro unat_pages) linarith
  then show bytes: "unat (rg_byteCount r') = (npages r - n) * 4096"
    unfolding bc using up le by (subst unat_sub) (simp_all add: word_le_unat diff_mult_distrib)
  have "npages r * 4096 < 2 ^ 32" using up unat_lt_2p32 [of "ROUND_PAGE_UP (rg_byteCount r)"] by simp
  then show "npages r' = npages r - n"
    using npages_div [of r'] bytes npages_div [OF r] r by simp
qed

lemma Region_shrink_step:
  assumes ok: "region_ok r" and grw: "rg_flags r AND RF_GROWABLE \<noteq> 0" and n: "n * 4096 \<le> unat (rg_byteCount r)"
    and s: "sw_inv s" "\<And>b. count_list (blocks_of (drop (npages r - n) (pages r))) b \<le> sw_cnt s b"
  shows "\<exists>r' s'. Region_grow al fresh (- int n) r s =
      Some (int (length (blocks_of (drop (npages r - n) (pages r)))), own_pages (drop (npages r - n) (pages r)), r', s') \<and>
    region_ok r' \<and> rg_flags r' = rg_flags r \<and>
    pages r' = (if rg_flags r AND RF_GROWS_DOWN \<noteq> 0 then drop n (pages r) else take (npages r - n) (pages r)) \<and>
    sw_inv s' \<and> sw_cnt s' = (\<lambda>b. sw_cnt s b - count_list (blocks_of (drop (npages r - n) (pages r))) b)"
proof -
  let ?c = "npages r" and ?down = "rg_flags r AND RF_GROWS_DOWN \<noteq> 0" and ?pf = "rg_pageFlags r"
  let ?pf' = "if ?down then take (?c - n) (drop n ?pf) @ drop (?c - n) ?pf else ?pf"
  let ?r = "r\<lparr>rg_pageFlags := ?pf', rg_byteCount := ROUND_PAGE_UP (rg_byteCount r) - of_nat n * PAGE_SIZE\<rparr>"
  have c: "?c \<le> length ?pf" using ok by (simp add: region_ok_def)
  have bytes: "unat (rg_byteCount ?r) = (?c - n) * 4096" "npages ?r = ?c - n" "n \<le> ?c"
    by (rule shrink_bytes [OF ok n, of ?r]; simp)+
  have tl: "take n (drop (?c - n) ?pf) = drop (?c - n) (pages r)"
    using bytes(3) by (simp add: pages_def drop_take)
  have lim: "(?c - n) * 4096 + 4095 < 2 ^ 32"
  proof -
    have bc: "unat (rg_byteCount r) + 4095 < 2 ^ 32" using ok by (simp add: region_ok_def)
    have "?c < 1048576" unfolding npages_div [OF bc] using bc by (simp add: less_mult_imp_div_less)
    then have "?c - n \<le> 1048575" by simp
    then show ?thesis by simp
  qed
  obtain s' where s': "each_block SwapMap_free (drop (?c - n) (pages r)) s = Some s'" "sw_inv s'"
    "sw_cnt s' = (\<lambda>b. sw_cnt s b - count_list (blocks_of (drop (?c - n) (pages r))) b)"
    using swap_blocks.dec_all [OF s] by blast
  have "\<not> rg_byteCount r < of_nat n * PAGE_SIZE"
  proof -
    have "unat (of_nat n * PAGE_SIZE) = n * 4096"
      using le_less_trans [OF n unat_lt_2p32] by (intro unat_pages) simp
    then show ?thesis using n by (simp add: word_less_unat)
  qed
  then have "Region_grow al fresh (- int n) r s =
      Some (int (length (blocks_of (drop (?c - n) (pages r)))), own_pages (drop (?c - n) (pages r)), ?r, s')"
    using grw s'(1) by (simp add: Region_grow_def Let_def tl)
  moreover have "region_ok ?r" unfolding region_ok_def bytes using c lim by auto
  moreover have "pages ?r = (if ?down then drop n (pages r) else take (?c - n) (pages r))"
    unfolding pages_def bytes using c bytes(3) by (simp add: drop_take)
  ultimately show ?thesis using s'(2,3) by (intro exI [of _ ?r] exI [of _ s']) simp
qed

section \<open>All regions and the swap map\<close>

text \<open>The references to a block are the pages of all regions that store it.\<close>

definition refs_to :: "region list \<Rightarrow> ulong \<Rightarrow> nat" where
  "refs_to rs b = (\<Sum>r\<leftarrow>rs. count_list (blocks_of (pages r)) b)"

definition swap_ok :: "region list \<Rightarrow> swapmap \<Rightarrow> bool" where
  "swap_ok rs s \<longleftrightarrow> sw_inv s \<and> (\<forall>r\<in>set rs. region_ok r) \<and> sw_cnt s = refs_to rs"

lemma refs_to_simps [simp]:
  "refs_to [] b = 0" "refs_to (r # rs) b = count_list (blocks_of (pages r)) b + refs_to rs b"
  "refs_to (xs @ ys) b = refs_to xs b + refs_to ys b"
  by (simp_all add: refs_to_def)

lemma pages_copy:
  assumes "rg_byteCount r' = rg_byteCount r" "rg_pageFlags r' = pages r @ xs" "region_ok r"
  shows "pages r' = pages r \<and> region_ok r'"
proof -
  have np: "npages r' = npages r" using assms(1) by (simp add: npages_def)
  have "length (pages r) = npages r" using length_pages [OF assms(3)] .
  then show ?thesis
    using assms np by (simp add: pages_def [of r'] region_ok_def [of r']) (simp add: region_ok_def)
qed

lemma Region_clone_ok:
  assumes ok: "swap_ok (xs @ r # ys) s" and "rg_flags r AND RF_SHAREABLE = 0"
    and lim: "\<And>b. sw_cnt s b + count_list (blocks_of (pages r)) b \<le> 2 ^ 32 - 1"
  shows "\<exists>r' s'. Region_clone True fresh vm r s = Some (True, r', s') \<and>
    pages r' = pages r \<and> rg_flags r' = rg_flags r \<and> swap_ok (r' # xs @ r # ys) s'"
proof -
  have inv: "sw_inv s" "region_ok r" "sw_cnt s = refs_to (xs @ r # ys)" "\<forall>r\<in>set (xs @ r # ys). region_ok r"
    using ok by (auto simp: swap_ok_def)
  have pos: "0 < sw_cnt s b" if "b \<in> set (blocks_of (pages r))" for b
    using that inv(3) count_list_0_iff [of "blocks_of (pages r)" b] by simp
  obtain s' where s': "each_block SwapMap_incRefs (pages r) s = Some s'" "sw_inv s'"
    "sw_cnt s' = (\<lambda>b. sw_cnt s b + count_list (blocks_of (pages r)) b)"
    using swap_blocks.inc_all [OF inv(1) pos lim] by blast
  let ?off = "if rg_file r then rg_offset r else 0" and ?load = "if rg_file r then rg_loadCount r else 0"
  let ?r = "\<lparr>rg_flags = rg_flags r, rg_file = rg_file r, rg_offset = ?off, rg_loadCount = ?load,
    rg_byteCount = rg_byteCount r, rg_pageFlags = pages r @ drop (npages r) (map fresh [0..<max 1 (npages r)]),
    rg_vms = [vm]\<rparr>"
  have "Region_clone True fresh vm r s = Some (True, ?r, s')"
  proof -
    have "rg_flags r AND (RF_SHAREABLE OR RF_GROWABLE) \<noteq> (RF_SHAREABLE OR RF_GROWABLE)"
    proof
      assume "rg_flags r AND (RF_SHAREABLE OR RF_GROWABLE) = (RF_SHAREABLE OR RF_GROWABLE)"
      then have "(rg_flags r AND (RF_SHAREABLE OR RF_GROWABLE)) AND RF_SHAREABLE = RF_SHAREABLE"
        by (simp add: RF_SHAREABLE_def RF_GROWABLE_def)
      then show False using assms(2)
        by (simp add: RF_SHAREABLE_def RF_GROWABLE_def and.assoc)
    qed
    then show ?thesis
      using assms(2) s'(1) by (simp add: Region_clone_def Region_init_def Region_addTo_def pages_def npages_def Let_def)
  qed
  moreover have "pages ?r = pages r \<and> region_ok ?r" by (rule pages_copy [OF _ _ inv(2)]) simp_all
  ultimately show ?thesis
    using inv(3,4) s'(2,3) by (intro exI [of _ ?r] exI [of _ s']) (auto simp: swap_ok_def fun_eq_iff)
qed

lemma Region_destroy_ok:
  assumes ok: "swap_ok (xs @ r # ys) s"
  shows "\<exists>s'. Region_destroy r s = Some s' \<and> swap_ok (xs @ ys) s'"
proof -
  have "count_list (blocks_of (pages r)) b \<le> sw_cnt s b" for b using ok by (simp add: swap_ok_def)
  then obtain s' where "each_block SwapMap_free (pages r) s = Some s'" "sw_inv s'"
    "sw_cnt s' = (\<lambda>b. sw_cnt s b - count_list (blocks_of (pages r)) b)"
    using swap_blocks.dec_all [of s "pages r"] ok by (auto simp: swap_ok_def)
  then show ?thesis using ok by (auto simp: swap_ok_def Region_destroy_def pages_def fun_eq_iff)
qed

lemma blocks_of_update:
  assumes "i < length pfs"
  shows "count_list (blocks_of (pfs[i := pf])) b + count_list (blocks_of [pfs ! i]) b =
    count_list (blocks_of pfs) b + count_list (blocks_of [pf]) b"
proof -
  have "pfs = take i pfs @ [pfs ! i] @ drop (Suc i) pfs" using assms by (simp add: id_take_nth_drop)
  then have "blocks_of pfs = blocks_of (take i pfs) @ blocks_of [pfs ! i] @ blocks_of (drop (Suc i) pfs)"
    by (metis blocks_of_simps(3))
  moreover have "pfs[i := pf] = take i pfs @ [pf] @ drop (Suc i) pfs" using assms by (simp add: upd_conv_take_nth_drop)
  then have "blocks_of (pfs[i := pf]) = blocks_of (take i pfs) @ blocks_of [pf] @ blocks_of (drop (Suc i) pfs)"
    by (simp only: blocks_of_simps(3))
  ultimately show ?thesis by simp
qed

lemma region_set_page:
  assumes "region_ok r"
  shows "region_ok (r\<lparr>rg_pageFlags := (rg_pageFlags r)[i := pf]\<rparr>) \<and>
    pages (r\<lparr>rg_pageFlags := (rg_pageFlags r)[i := pf]\<rparr>) = (pages r)[i := pf]"
  using assms by (simp add: region_ok_def pages_def npages_def take_update_swap)

lemma swap_ok_set_page:
  assumes ok: "swap_ok (xs @ r # ys) s" and i: "i < npages r" and "sw_inv s'"
    and cnt: "\<And>b. sw_cnt s' b + count_list (blocks_of [pages r ! i]) b = sw_cnt s b + count_list (blocks_of [pf]) b"
  shows "swap_ok (xs @ r\<lparr>rg_pageFlags := (rg_pageFlags r)[i := pf]\<rparr> # ys) s'"
proof -
  let ?r = "r\<lparr>rg_pageFlags := (rg_pageFlags r)[i := pf]\<rparr>"
  have rok: "region_ok r" and rs: "sw_cnt s = refs_to (xs @ r # ys)" using ok by (auto simp: swap_ok_def)
  have pg: "region_ok ?r" "pages ?r = (pages r)[i := pf]" using region_set_page [OF rok] by auto
  have "sw_cnt s' b = refs_to (xs @ ?r # ys) b" for b
    using cnt [of b] blocks_of_update [of i "pages r" pf b] i length_pages [OF rok] rs
    by (simp add: pg(2) del: blocks_of_simps(2))
  then show ?thesis using ok assms(3) pg(1) by (auto simp: swap_ok_def)
qed

lemma VirtMem_swapOut_ok:
  assumes ok: "swap_ok (xs @ r # ys) s" and i: "i < npages r" and free: "sw_freeList s \<noteq> []"
    and pf: "pages r ! i AND PF_SWAPPED = 0"
  shows "\<exists>r' s'. VirtMem_swapOut i r s = Some (r', s') \<and> swap_ok (xs @ r' # ys) s' \<and> i < npages r' \<and>
    pages r' ! i AND PF_SWAPPED \<noteq> 0"
proof -
  have inv: "sw_inv s" "region_ok r" using ok by (auto simp: swap_ok_def)
  obtain b s' where al: "SwapMap_alloc s = (b, s')" by force
  have b: "sw_inv s'" "b \<noteq> INVALID_BLOCK" "unat b < 2 ^ 29" "sw_cnt s' = (sw_cnt s)(b := 1)" "sw_cnt s b = 0"
    using SwapMap_alloc_ok [OF inv(1) al] free by auto
  have len: "i < length (rg_pageFlags r)" using i inv(2) by (simp add: region_ok_def)
  have nth: "pages r ! i = rg_pageFlags r ! i" using i by (simp add: pages_def)
  let ?pf = "((rg_pageFlags r ! i OR PF_SWAPPED) AND mask 3) OR push_bit PF_BITCOUNT b"
  have "VirtMem_swapOut i r s = Some (r\<lparr>rg_pageFlags := (rg_pageFlags r)[i := ?pf]\<rparr>, s')"
    using al b(2) len by (simp add: VirtMem_swapOut_def Region_setPageFlags_def Region_setSwapBlock_def low_mask)
  moreover have sw: "?pf AND PF_SWAPPED \<noteq> 0"
    unfolding swapped_set_block [OF b(3)] swapped_iff by (simp add: bit_simps PF_SWAPPED_def)
  moreover have "swap_ok (xs @ r\<lparr>rg_pageFlags := (rg_pageFlags r)[i := ?pf]\<rparr> # ys) s'"
  proof (rule swap_ok_set_page [OF ok i b(1)])
    fix c
    have "blocks_of [?pf] = [drop_bit PF_BITCOUNT ?pf]" unfolding blocks_of_simps using sw by (simp only: if_True not_False_eq_True)
    then have "blocks_of [?pf] = [b]" unfolding set_block(1) [OF b(3)] .
    moreover have "blocks_of [pages r ! i] = []" using pf by simp
    ultimately show "sw_cnt s' c + count_list (blocks_of [pages r ! i]) c = sw_cnt s c + count_list (blocks_of [?pf]) c"
      using b(4,5) by simp
  qed
  moreover have "i < npages (r\<lparr>rg_pageFlags := (rg_pageFlags r)[i := ?pf]\<rparr>)" using i by (simp add: npages_def)
  moreover have "pages (r\<lparr>rg_pageFlags := (rg_pageFlags r)[i := ?pf]\<rparr>) ! i = ?pf"
    using region_set_page [OF inv(2)] i length_pages [OF inv(2)] by simp
  ultimately show ?thesis by (intro exI [of _ "r\<lparr>rg_pageFlags := (rg_pageFlags r)[i := ?pf]\<rparr>"] exI [of _ s']) simp
qed

lemma VirtMem_swapIn_ok:
  assumes ok: "swap_ok (xs @ r # ys) s" and i: "i < npages r" and pf: "pages r ! i AND PF_SWAPPED \<noteq> 0"
  shows "\<exists>r' s'. VirtMem_swapIn i r s = Some (True, r', s') \<and> swap_ok (xs @ r' # ys) s'"
proof -
  have inv: "sw_inv s" "region_ok r" "sw_cnt s = refs_to (xs @ r # ys)" using ok by (auto simp: swap_ok_def)
  have len: "i < length (rg_pageFlags r)" using i inv(2) by (simp add: region_ok_def)
  have nth: "pages r ! i = rg_pageFlags r ! i" using i by (simp add: pages_def)
  let ?b = "drop_bit PF_BITCOUNT (pages r ! i)"
  have "?b \<in> set (blocks_of (pages r))"
    using i pf length_pages [OF inv(2)] by (force simp: blocks_of_def)
  then have "0 < sw_cnt s ?b" using inv(3) count_list_0_iff [of "blocks_of (pages r)" ?b] by simp
  then obtain s' where s': "SwapMap_free ?b s = Some s'" "sw_inv s'" "sw_cnt s' = (sw_cnt s)(?b := sw_cnt s ?b - 1)"
    using SwapMap_free_ok [OF inv(1)] by blast
  let ?pf = "((rg_pageFlags r ! i AND NOT PF_SWAPPED) AND mask 3) OR push_bit PF_BITCOUNT 0"
  have "VirtMem_swapIn i r s = Some (True, r\<lparr>rg_pageFlags := (rg_pageFlags r)[i := ?pf]\<rparr>, s')"
    using len pf s'(1) nth
    by (simp add: VirtMem_swapIn_def Region_getSwapBlock_def Region_setPageFlags_def Region_setSwapBlock_def low_mask)
  moreover have "swap_ok (xs @ r\<lparr>rg_pageFlags := (rg_pageFlags r)[i := ?pf]\<rparr> # ys) s'"
  proof (rule swap_ok_set_page [OF ok i s'(2)])
    fix c
    have "?pf AND PF_SWAPPED = 0"
      using swapped_set_block [of 0 "rg_pageFlags r ! i AND NOT PF_SWAPPED"] swapped_iff [of "rg_pageFlags r ! i AND NOT PF_SWAPPED"]
      by (simp add: bit_simps PF_SWAPPED_def)
    then have "blocks_of [?pf] = []" by simp
    moreover have "blocks_of [pages r ! i] = [?b]" using pf by simp
    ultimately show "sw_cnt s' c + count_list (blocks_of [pages r ! i]) c = sw_cnt s c + count_list (blocks_of [?pf]) c"
      using s'(3) \<open>0 < sw_cnt s ?b\<close> by (cases "c = ?b") simp_all
  qed
  ultimately show ?thesis by blast
qed

text \<open>
  Everything that changes the references, in any order and on any regions. Shrinking a region that
  grows down is left out here; the last property deals with it.
\<close>

inductive swap_step :: "region list \<times> swapmap \<Rightarrow> region list \<times> swapmap \<Rightarrow> bool" where
  new: "\<lbrakk>Region_new True fresh fl bCount lCount off pgFlags flags = Some (True, r);
    unat bCount + 4095 < 2 ^ 32; pgFlags \<noteq> - 1\<rbrakk> \<Longrightarrow> swap_step (rs, s) (r # rs, s)"
| clone: "\<lbrakk>\<And>b. sw_cnt s b + count_list (blocks_of (pages r)) b \<le> 2 ^ 32 - 1;
    Region_clone True fresh vm r s = Some (True, r', s')\<rbrakk> \<Longrightarrow>
    swap_step (xs @ r # ys, s) (r' # xs @ r # ys, s')"
| destroy: "Region_destroy r s = Some s' \<Longrightarrow> swap_step (xs @ r # ys, s) (xs @ ys, s')"
| grow: "\<lbrakk>0 < amount; (npages r + nat amount) * 4096 + 4095 < 2 ^ 32;
    Region_grow True fresh amount r s = Some (res, own, r', s')\<rbrakk> \<Longrightarrow>
    swap_step (xs @ r # ys, s) (xs @ r' # ys, s')"
| shrink: "\<lbrakk>rg_flags r AND RF_GROWS_DOWN = 0; n * 4096 \<le> unat (rg_byteCount r);
    Region_grow True fresh (- int n) r s = Some (res, own, r', s')\<rbrakk> \<Longrightarrow>
    swap_step (xs @ r # ys, s) (xs @ r' # ys, s')"
| swapOut: "\<lbrakk>i < npages r; pages r ! i AND PF_SWAPPED = 0; VirtMem_swapOut i r s = Some (r', s')\<rbrakk> \<Longrightarrow>
    swap_step (xs @ r # ys, s) (xs @ r' # ys, s')"
| swapIn: "\<lbrakk>i < npages r; VirtMem_swapIn i r s = Some (b, r', s')\<rbrakk> \<Longrightarrow>
    swap_step (xs @ r # ys, s) (xs @ r' # ys, s')"

lemma Region_new_ok:
  assumes "Region_new True fresh fl bCount lCount off pgFlags flags = Some (True, r)"
    "unat bCount + 4095 < 2 ^ 32" "pgFlags \<noteq> - 1"
  shows "region_ok r \<and> blocks_of (pages r) = []"
proof -
  have pg: "pgFlags = PF_DEMANDLOAD \<or> pgFlags = 0"
    using assms(1,3) by (auto simp: Region_new_def Region_init_def Let_def split: if_splits)
  have r: "rg_byteCount r = bCount" "rg_pageFlags r = replicate (npages r) pgFlags @ drop (npages r) (map fresh [0..<max 1 (npages r)])"
    using assms(1,3) by (auto simp: Region_new_def Region_init_def npages_def Let_def split: if_splits)
  have "blocks_of (replicate n pgFlags) = []" for n
    using pg by (auto simp: blocks_of_def PF_SWAPPED_def PF_DEMANDLOAD_def)
  then show ?thesis using r assms(2) by (simp add: region_ok_def pages_def)
qed

lemma swap_step_ok:
  assumes "swap_step (rs, s) (rs', s')" "swap_ok rs s"
  shows "swap_ok rs' s'"
  using assms
proof (cases rule: swap_step.cases)
  case (new fresh fl bCount lCount off pgFlags flags r)
  then show ?thesis using Region_new_ok [OF new(3-5)] assms(2) by (auto simp: swap_ok_def fun_eq_iff)
next
  case (clone r fresh vm r' xs ys)
  then have "rg_flags r AND RF_SHAREABLE = 0" by (simp add: Region_clone_def split: if_splits)
  then show ?thesis using Region_clone_ok [of xs r ys s fresh vm] clone assms(2) by auto
next
  case (destroy r xs ys)
  then show ?thesis using Region_destroy_ok [of xs r ys s] assms(2) by auto
next
  case (grow amount r fresh res own r' xs ys)
  have ok: "region_ok r" using grow assms(2) by (simp add: swap_ok_def)
  have g: "rg_flags r AND RF_GROWABLE \<noteq> 0" using grow(5) by (auto simp: Region_grow_def Let_def split: if_splits)
  have "s' = s \<and> region_ok r' \<and> blocks_of (pages r') = blocks_of (pages r)"
    using Region_grow_pages [OF ok g grow(3,4), of fresh s] grow(5) by auto
  then show ?thesis using grow(1,2) assms(2) by (auto simp: swap_ok_def fun_eq_iff)
next
  case (shrink r n fresh res own r' xs ys)
  have ok: "region_ok r" "sw_inv s" "sw_cnt s = refs_to (xs @ r # ys)" using shrink assms(2) by (auto simp: swap_ok_def)
  have g: "rg_flags r AND RF_GROWABLE \<noteq> 0" using shrink(5) by (auto simp: Region_grow_def Let_def split: if_splits)
  let ?tl = "drop (npages r - n) (pages r)"
  have split: "blocks_of (pages r) = blocks_of (take (npages r - n) (pages r)) @ blocks_of ?tl"
    by (metis append_take_drop_id blocks_of_simps(3))
  have le: "count_list (blocks_of ?tl) b \<le> sw_cnt s b" for b using ok(3) split by simp
  have "region_ok r' \<and> pages r' = take (npages r - n) (pages r) \<and> sw_inv s' \<and>
      sw_cnt s' = (\<lambda>b. sw_cnt s b - count_list (blocks_of ?tl) b)"
    using Region_shrink_step [OF ok(1) g shrink(4) ok(2) le, of True fresh] shrink(3,5) by auto
  then show ?thesis using shrink(1,2) assms(2) split by (auto simp: swap_ok_def fun_eq_iff)
next
  case (swapOut i r r' xs ys)
  have "sw_freeList s \<noteq> []"
    using swapOut(5) by (auto simp: VirtMem_swapOut_def SwapMap_alloc_def split: prod.splits if_splits)
  then show ?thesis using VirtMem_swapOut_ok [of xs r ys s i] swapOut assms(2) by auto
next
  case (swapIn i r b r' xs ys)
  show ?thesis
  proof (cases "pages r ! i AND PF_SWAPPED = 0")
    case True
    then have "rg_pageFlags r ! i AND PF_SWAPPED = 0" using swapIn(3) by (simp add: pages_def)
    then have "r' = r" "s' = s" using swapIn(4) by (auto simp: VirtMem_swapIn_def split: if_splits)
    then show ?thesis using swapIn(1,2) assms(2) by simp
  next
    case False
    then show ?thesis using VirtMem_swapIn_ok [of xs r ys s i] swapIn assms(2) by auto
  qed
qed

lemma swap_steps_ok: "swap_step\<^sup>*\<^sup>* a b \<Longrightarrow> swap_ok (fst a) (snd a) \<Longrightarrow> swap_ok (fst b) (snd b)"
proof (induction rule: rtranclp_induct)
  case (step b c)
  then show ?case using swap_step_ok [of "fst b" "snd b" "fst c" "snd c"] by simp
qed

lemma swap_ok_init:
  assumes "SwapMap_init True sz = Some (True, s)"
  shows "swap_ok [] s"
proof -
  have "unat (sz div PAGE_SIZE) \<le> 2 ^ 20"
  proof -
    have "unat (sz div PAGE_SIZE) = unat sz div 4096" by (simp add: PAGE_SIZE_def unat_div)
    also have "\<dots> < 2 ^ 20" using unat_lt_2p32 [of sz] by (intro less_mult_imp_div_less) simp
    finally show ?thesis by simp
  qed
  then show ?thesis
    using assms by (auto simp: SwapMap_init_def swap_ok_def sw_inv_def sw_cnt_def fun_eq_iff Let_def split: if_splits)
qed

section \<open>Properties\<close>


definition ex_region :: region where
  "ex_region = \<lparr>rg_flags = 6, rg_file = False, rg_offset = 0, rg_loadCount = 0, rg_byteCount = 0x2000,
     rg_pageFlags = [4, 12], rg_vms = []\<rparr>"

definition ex_new :: region where
  "ex_new = \<lparr>rg_flags = 2, rg_file = False, rg_offset = 0, rg_loadCount = 0, rg_byteCount = 0x1000,
     rg_pageFlags = [0], rg_vms = []\<rparr>"

definition ex_swap :: swapmap where
  "ex_swap = \<lparr>sw_refs = [0, 0], sw_freeList = [1, 0], sw_freeBlocks = 2\<rparr>"

lemma ex_swap_init: "SwapMap_init True 0x2000 = Some (True, ex_swap)"
proof -
  have "unat ((0x2000 :: size_t) div PAGE_SIZE) = 2" by (simp only: PAGE_SIZE_def unat_div) simp
  moreover have "replicate 2 (0 :: u32) = [0, 0]" "rev [0..<2] = [1, 0]" by (simp_all add: numeral_2_eq_2)
  ultimately show ?thesis by (simp add: SwapMap_init_def ex_swap_def)
qed


text \<open>C32: growing a region that grows up by some pages and shrinking it by the same number gives
  back the pages and the swap map it had, and frees nothing that was there before.\<close>

theorem Region_grow_shrink:
  assumes "region_ok r" "rg_flags r AND RF_GROWABLE \<noteq> 0" "rg_flags r AND RF_GROWS_DOWN = 0"
    and "0 < n" "(npages r + n) * 4096 + 4095 < 2 ^ 32" "sw_inv s"
  shows "\<exists>r1 r2 s2. Region_grow True fresh (int n) r s = Some (0, 0, r1, s) \<and>
    pages r1 = pages r @ replicate n 0 \<and>
    Region_grow al fresh (- int n) r1 s = Some (0, n, r2, s2) \<and>
    pages r2 = pages r \<and> sw_inv s2 \<and> sw_cnt s2 = sw_cnt s"
proof -
  obtain r1 where r1: "Region_grow True fresh (int n) r s = Some (0, 0, r1, s)" "region_ok r1"
    "rg_flags r1 = rg_flags r" "pages r1 = pages r @ replicate n 0"
    using Region_grow_pages [OF assms(1,2), of "int n" fresh s] assms(3-5) by auto
  have np: "npages r1 = npages r + n"
    using length_pages [OF r1(2)] length_pages [OF assms(1)] r1(4) by simp
  have tl: "drop (npages r1 - n) (pages r1) = replicate n 0"
    using np r1(4) length_pages [OF assms(1)] by simp
  have bytes: "n * 4096 \<le> unat (rg_byteCount r1)"
    using grow_bytes(1) [OF assms(1,5), of r1] r1(1) assms(2,4) by (auto simp: Region_grow_def Let_def)
  have own: "own_pages (replicate n 0) = n" by (simp add: own_pages_def)
  obtain r2 s2 where "Region_grow al fresh (- int n) r1 s = Some (0, n, r2, s2)"
    "pages r2 = take (npages r1 - n) (pages r1)" "sw_inv s2" "sw_cnt s2 = sw_cnt s"
    using Region_shrink_step [OF r1(2) _ bytes assms(6), of al fresh] r1(3) assms(2,3) tl own by auto
  moreover have "take (npages r1 - n) (pages r1) = pages r"
    using np r1(4) length_pages [OF assms(1)] by simp
  ultimately show ?thesis using r1 by auto
qed

theorem Region_grow_shrink_witness:
  "\<exists>r1 r2 s2. Region_grow True (\<lambda>_. 7) 3 ex_new ex_swap = Some (0, 0, r1, ex_swap) \<and>
     Region_grow True (\<lambda>_. 7) (- 3) r1 ex_swap = Some (0, 3, r2, s2) \<and> pages r2 = pages ex_new"
proof -
  have np: "npages ex_new = 1" by (simp add: npages_def ex_new_def BYTES_2_PAGES_def PAGE_SIZE_def PAGE_BITS_def)
  have "region_ok ex_new" by (simp add: region_ok_def np) (simp add: ex_new_def)
  moreover have "sw_inv ex_swap"
    using swap_ok_init [OF ex_swap_init] by (simp add: swap_ok_def)
  moreover have "rg_flags ex_new AND RF_GROWABLE \<noteq> 0" "rg_flags ex_new AND RF_GROWS_DOWN = 0"
    by (simp_all add: ex_new_def RF_GROWABLE_def RF_GROWS_DOWN_def)
  ultimately show ?thesis
    using Region_grow_shrink [of ex_new 3 ex_swap "\<lambda>_. 7" True] np by auto
qed

lemma each_free_length: "each_block SwapMap_free pfs s = Some s' \<Longrightarrow> length (sw_refs s') = length (sw_refs s)"
proof (induction pfs arbitrary: s)
  case (Cons pf pfs)
  then show ?case
    by (auto simp: bind_eq_Some_conv SwapMap_free_def Let_def split: if_splits)
qed simp

lemma grow_refs_length:
  "Region_grow al fresh amount r s = Some (res, own, r', s') \<Longrightarrow> length (sw_refs s') = length (sw_refs s)"
  by (auto simp: Region_grow_def Let_def bind_eq_Some_conv dest: each_free_length split: if_splits)

text \<open>Shrinking a region that grows down, a stack, by one page takes the first page away but
  frees the swap block of the last one: the block that the remaining page stores is on the free
  list and will be given to somebody else, and the block of the page that is gone stays in use.\<close>

theorem Region_shrink_down_wrong:
  assumes "swap_ok [r] s" "rg_flags r AND RF_GROWABLE \<noteq> 0" "rg_flags r AND RF_GROWS_DOWN \<noteq> 0"
    and "pages r = [p, q]" "4096 \<le> unat (rg_byteCount r)" "p AND PF_SWAPPED \<noteq> 0" "q AND PF_SWAPPED \<noteq> 0"
    and "drop_bit PF_BITCOUNT p \<noteq> drop_bit PF_BITCOUNT q"
  shows "\<exists>r' s'. Region_grow True fresh (- 1) r s = Some (1, 0, r', s') \<and> pages r' = [q] \<and>
    unat (drop_bit PF_BITCOUNT q) \<in> set (sw_freeList s') \<and>
    sw_cnt s' (drop_bit PF_BITCOUNT p) = 1 \<and> \<not> swap_ok [r'] s'"
proof -
  let ?bp = "drop_bit PF_BITCOUNT p" and ?bq = "drop_bit PF_BITCOUNT q"
  have ok: "region_ok r" "sw_inv s" "sw_cnt s = refs_to [r]" using assms(1) by (auto simp: swap_ok_def)
  have np: "npages r = 2" using length_pages [OF ok(1)] assms(4) by simp
  have tl: "drop (npages r - 1) (pages r) = [q]" using np assms(4) by simp
  have cnt: "sw_cnt s ?bp = 1" "sw_cnt s ?bq = 1" using ok(3) assms(4,6-8) by auto
  have le: "count_list (blocks_of (drop (npages r - 1) (pages r))) b \<le> sw_cnt s b" for b
    using ok(3) tl assms(4) by simp
  have own: "own_pages [q] = 0" using assms(7) by (simp add: own_pages_def)
  obtain r' s' where g: "Region_grow True fresh (- 1) r s = Some (1, 0, r', s')" "pages r' = [q]" "sw_inv s'"
    "sw_cnt s' = (\<lambda>b. sw_cnt s b - count_list (blocks_of [q]) b)"
    using Region_shrink_step [OF ok(1) assms(2) _ ok(2) le, of True fresh] assms(3,4,5,7) tl own by auto
  have q0: "sw_cnt s' ?bq = 0" and p1: "sw_cnt s' ?bp = 1" using g(4) cnt assms(7,8) by auto
  have "unat ?bq < length (sw_refs s')"
  proof -
    have "unat ?bq < length (sw_refs s)" using cnt(2) by (auto simp: sw_cnt_def split: if_splits)
    moreover have "length (sw_refs s') = length (sw_refs s)"
      using grow_refs_length [OF g(1)] .
    ultimately show ?thesis by simp
  qed
  then have "unat ?bq \<in> set (sw_freeList s')"
    using q0 sw_inv_free [OF g(3), of "unat ?bq"] by (simp add: sw_cnt_def unat_eq_0)
  moreover have "\<not> swap_ok [r'] s'"
  proof
    assume "swap_ok [r'] s'"
    then have "sw_cnt s' ?bq = count_list (blocks_of [q]) ?bq" using g(2) by (simp add: swap_ok_def)
    then show False using q0 assms(7) by simp
  qed
  ultimately show ?thesis using g(1,2) p1 by blast
qed

definition ex_full :: swapmap where
  "ex_full = \<lparr>sw_refs = [1, 1], sw_freeList = [], sw_freeBlocks = 0\<rparr>"

theorem Region_shrink_down_wrong_witness:
  "\<exists>r' s'. Region_grow True (\<lambda>_. 0) (- 1) ex_region ex_full = Some (1, 0, r', s') \<and> pages r' = [12] \<and>
     1 \<in> set (sw_freeList s')"
proof -
  have np: "npages ex_region = 2"
    by (simp add: npages_def ex_region_def BYTES_2_PAGES_def PAGE_SIZE_def PAGE_BITS_def)
  have pg: "pages ex_region = [4, 12]" unfolding pages_def np by (simp add: ex_region_def)
  have rok: "region_ok ex_region" by (simp add: region_ok_def np) (simp add: ex_region_def)
  have d: "drop_bit PF_BITCOUNT (4 :: ulong) = 0" "drop_bit PF_BITCOUNT (12 :: ulong) = 1"
    "(4 :: ulong) AND PF_SWAPPED \<noteq> 0" "(12 :: ulong) AND PF_SWAPPED \<noteq> 0"
    by (simp_all add: PF_BITCOUNT_def PF_SWAPPED_def)
  have "\<not> (b < 2 \<and> [1, 1 :: u32] ! b = 0)" for b by (cases b) (auto simp: less_Suc_eq numeral_2_eq_2)
  then have sinv: "sw_inv ex_full" by (simp add: sw_inv_def ex_full_def)
  have cnt: "sw_cnt ex_full b = refs_to [ex_region] b" for b
  proof -
    have "unat b < 2 \<longleftrightarrow> b = 0 \<or> b = 1"
      unfolding word_eq_unat [of b 0] word_eq_unat [of b 1] unat_0 unat_1 by auto
    then show ?thesis using d by (auto simp: sw_cnt_def ex_full_def pg)
  qed
  have ok: "swap_ok [ex_region] ex_full" using rok sinv cnt by (simp add: swap_ok_def fun_eq_iff)
  have fl: "rg_flags ex_region AND RF_GROWABLE \<noteq> 0" "rg_flags ex_region AND RF_GROWS_DOWN \<noteq> 0"
    "4096 \<le> unat (rg_byteCount ex_region)"
    by (simp_all add: ex_region_def RF_GROWABLE_def RF_GROWS_DOWN_def)
  show ?thesis
    using Region_shrink_down_wrong [OF ok fl(1,2) pg fl(3) d(3,4), of "\<lambda>_. 0"] d by auto
qed

end
