(* ===== verification/PhysMemAreas.thy ===== *)
theory PhysMemAreas
  imports Esc_Prelude "HOL-Library.Monad_Syntax"
begin

text \<open>
  The areas of free physical memory at boot (\<^verbatim>\<open>kernel/src/mem/physmemareas.cc\<close>). The linked list of
  areas is a list; the array it is taken from is represented by the number of areas handed out,
  since areas are never given back. Running out of them is a panic.
\<close>

definition MAX_PHYSMEM_AREAS :: nat where "MAX_PHYSMEM_AREAS = 64"
definition INVALID_FRAME :: frameno_t where "INVALID_FRAME = - 1"

record mem_area =
  ma_addr :: uintptr_t
  ma_size :: size_t

record pmareas =
  pa_count :: nat
  pa_list :: "mem_area list"

definition PhysMemAreas_add :: "uintptr_t \<Rightarrow> uintptr_t \<Rightarrow> pmareas \<Rightarrow> pmareas option" where
  "PhysMemAreas_add addr e s =
     (if pa_count s = MAX_PHYSMEM_AREAS then None
      else
        let addr = ROUND_PAGE_UP addr; e = ROUND_PAGE_UP e in
        Some \<lparr>pa_count = pa_count s + 1, pa_list = pa_list s @ [\<lparr>ma_addr = addr, ma_size = e - addr\<rparr>]\<rparr>)"

text \<open>
  The loop of \<^verbatim>\<open>rem\<close>; \<open>done\<close> are the areas behind the current one, in reverse order. An area that is
  split puts its second part at the end of the list, where the loop will meet it.
\<close>

definition in_middle :: "uintptr_t \<Rightarrow> uintptr_t \<Rightarrow> mem_area \<Rightarrow> bool" where
  "in_middle addr e a \<longleftrightarrow> addr > ma_addr a \<and> e < ma_addr a + ma_size a"

function PhysMemAreas_rem_loop ::
    "uintptr_t \<Rightarrow> uintptr_t \<Rightarrow> nat \<Rightarrow> mem_area list \<Rightarrow> mem_area list \<Rightarrow> (nat \<times> mem_area list) option" where
  "PhysMemAreas_rem_loop addr e count dn [] = Some (count, rev dn)"
| "PhysMemAreas_rem_loop addr e count dn (a # as) =
     (if addr \<le> ma_addr a \<and> e \<ge> ma_addr a + ma_size a then PhysMemAreas_rem_loop addr e count dn as
      else if in_middle addr e a then
        if count \<ge> MAX_PHYSMEM_AREAS then None
        else
          let lo = ROUND_PAGE_UP e; hi = ROUND_PAGE_UP (ma_addr a + ma_size a) in
          PhysMemAreas_rem_loop addr e (count + 1) (a\<lparr>ma_size := addr - ma_addr a\<rparr> # dn)
            (as @ [\<lparr>ma_addr = lo, ma_size = hi - lo\<rparr>])
      else if e > ma_addr a \<and> e < ma_addr a + ma_size a then
        PhysMemAreas_rem_loop addr e count (\<lparr>ma_addr = e, ma_size = (ma_addr a + ma_size a) - e\<rparr> # dn) as
      else if addr > ma_addr a \<and> addr < ma_addr a + ma_size a then
        PhysMemAreas_rem_loop addr e count (a\<lparr>ma_size := addr - ma_addr a\<rparr> # dn) as
      else PhysMemAreas_rem_loop addr e count (a # dn) as)"
  by pat_completeness auto
termination
  by (relation "measures [\<lambda>(_, _, count, _, _). MAX_PHYSMEM_AREAS - count, \<lambda>(_, _, _, _, as). length as]") auto

definition PhysMemAreas_rem :: "uintptr_t \<Rightarrow> uintptr_t \<Rightarrow> pmareas \<Rightarrow> pmareas option" where
  "PhysMemAreas_rem addr e s =
     do {
       (c, l) \<leftarrow> PhysMemAreas_rem_loop (ROUND_PAGE_DN addr) (ROUND_PAGE_UP e) (pa_count s) [] (pa_list s);
       Some \<lparr>pa_count = c, pa_list = l\<rparr>
     }"

definition PhysMemAreas_alloc :: "size_t \<Rightarrow> pmareas \<Rightarrow> (frameno_t \<times> pmareas) option" where
  "PhysMemAreas_alloc frames s =
     (case find (\<lambda>a. ma_size a \<ge> frames * PAGE_SIZE) (pa_list s) of
        None \<Rightarrow> Some (INVALID_FRAME, s)
      | Some a \<Rightarrow>
          do {
            s \<leftarrow> PhysMemAreas_rem (ma_addr a) (ma_addr a + frames * PAGE_SIZE) s;
            Some (ma_addr a div PAGE_SIZE, s)
          })"

definition PhysMemAreas_getAvailable :: "pmareas \<Rightarrow> size_t" where
  "PhysMemAreas_getAvailable s = fold (\<lambda>a total_size. total_size + ma_size a) (pa_list s) 0"

section \<open>The free addresses\<close>

definition cells :: "mem_area \<Rightarrow> nat set" where
  "cells a = {unat (ma_addr a)..<unat (ma_addr a) + unat (ma_size a)}"

definition free_mem :: "mem_area list \<Rightarrow> nat set" where
  "free_mem as = (\<Union>a\<in>set as. cells a)"

definition area_ok :: "mem_area \<Rightarrow> bool" where
  "area_ok a \<longleftrightarrow> unat (ma_addr a) mod 4096 = 0 \<and> unat (ma_size a) mod 4096 = 0 \<and>
     unat (ma_addr a) + unat (ma_size a) < 2 ^ 32"

definition apart :: "mem_area list \<Rightarrow> bool" where
  "apart as \<longleftrightarrow> sorted_wrt (\<lambda>a b. cells a \<inter> cells b = {}) as"

definition pma_inv :: "pmareas \<Rightarrow> bool" where
  "pma_inv s \<longleftrightarrow> (\<forall>a\<in>set (pa_list s). area_ok a) \<and> apart (pa_list s) \<and> pa_count s \<le> MAX_PHYSMEM_AREAS"

lemma free_mem_simps [simp]:
  "free_mem [] = {}" "free_mem (a # as) = cells a \<union> free_mem as"
  "free_mem (as @ bs) = free_mem as \<union> free_mem bs" "free_mem (rev as) = free_mem as"
  by (auto simp: free_mem_def)

lemma area_end: "area_ok a \<Longrightarrow> unat (ma_addr a + ma_size a) = unat (ma_addr a) + unat (ma_size a)"
  by (simp add: area_ok_def unat_plus_nowrap)

lemma round_up_mult: "(k * 4096 + 4095) div 4096 * 4096 = k * (4096 :: nat)"
  by simp

lemma aligned_room:
  assumes "unat (w :: u32) mod 4096 = 0"
  shows "unat w + 4095 < 2 ^ 32"
proof -
  define k where "k = unat w div 4096"
  have k: "unat w = k * 4096" using assms div_mult_mod_eq [of "unat w" 4096] by (simp add: k_def)
  have "k * 4096 < 1048576 * 4096" using unat_lt_2p32 [of w] k by simp
  then have "k < 1048576" by (simp only: mult_less_cancel2)
  then show ?thesis unfolding k by simp
qed

lemma round_up_aligned:
  assumes "unat w mod 4096 = 0"
  shows "ROUND_PAGE_UP w = w"
proof -
  define k where "k = unat w div 4096"
  have k: "unat w = k * 4096" using assms div_mult_mod_eq [of "unat w" 4096] by (simp add: k_def)
  have "unat (ROUND_PAGE_UP w) = (k * 4096 + 4095) div 4096 * 4096"
    using unat_ROUND_PAGE_UP [OF aligned_room [OF assms]] k by simp
  also have "\<dots> = k * 4096" by simp
  finally show ?thesis using k by (simp add: word_eq_unat)
qed

lemma round_dn_aligned:
  assumes "unat w mod 4096 = 0"
  shows "ROUND_PAGE_DN w = w"
  using assms div_mult_mod_eq [of "unat w" 4096] by (simp add: word_eq_unat unat_ROUND_PAGE_DN)

text \<open>
  What the loop makes of one area: the areas it keeps and the area it puts at the end of the list.
  Together they hold the addresses of the area that are not removed.
\<close>

definition rem_one :: "uintptr_t \<Rightarrow> uintptr_t \<Rightarrow> mem_area \<Rightarrow> mem_area list \<times> mem_area list" where
  "rem_one addr e a =
     (let ae = ma_addr a + ma_size a in
      if addr \<le> ma_addr a \<and> e \<ge> ae then ([], [])
      else if in_middle addr e a then
        ([a\<lparr>ma_size := addr - ma_addr a\<rparr>],
         [\<lparr>ma_addr = ROUND_PAGE_UP e, ma_size = ROUND_PAGE_UP ae - ROUND_PAGE_UP e\<rparr>])
      else if e > ma_addr a \<and> e < ae then ([\<lparr>ma_addr = e, ma_size = ae - e\<rparr>], [])
      else if addr > ma_addr a \<and> addr < ae then ([a\<lparr>ma_size := addr - ma_addr a\<rparr>], [])
      else ([a], []))"

lemma rem_loop_one:
  "PhysMemAreas_rem_loop addr e count dn (a # as) =
     (if snd (rem_one addr e a) \<noteq> [] \<and> count \<ge> MAX_PHYSMEM_AREAS then None
      else PhysMemAreas_rem_loop addr e (count + length (snd (rem_one addr e a)))
             (fst (rem_one addr e a) @ dn) (as @ snd (rem_one addr e a)))"
  by (simp add: rem_one_def Let_def)

lemma lower_part:
  assumes "area_ok a" "unat (ma_addr a) \<le> unat addr" "unat addr < unat (ma_addr a) + unat (ma_size a)" "unat addr mod 4096 = 0"
  shows "area_ok (a\<lparr>ma_size := addr - ma_addr a\<rparr>)"
    "cells (a\<lparr>ma_size := addr - ma_addr a\<rparr>) = {unat (ma_addr a)..<unat addr}"
proof -
  have "unat (addr - ma_addr a) = unat addr - unat (ma_addr a)" using assms(2) by (simp add: unat_sub word_le_unat)
  moreover have "(unat addr - unat (ma_addr a)) mod 4096 = 0"
    using assms(1,4) by (simp add: area_ok_def mod_eq_0_iff_dvd)
  ultimately show "area_ok (a\<lparr>ma_size := addr - ma_addr a\<rparr>)"
    "cells (a\<lparr>ma_size := addr - ma_addr a\<rparr>) = {unat (ma_addr a)..<unat addr}"
    using assms(1-3) by (simp_all add: area_ok_def cells_def)
qed

lemma upper_part:
  assumes "area_ok a" "unat e \<le> unat (ma_addr a) + unat (ma_size a)" "unat e mod 4096 = 0"
  shows "area_ok \<lparr>ma_addr = e, ma_size = (ma_addr a + ma_size a) - e\<rparr>"
    "cells \<lparr>ma_addr = e, ma_size = (ma_addr a + ma_size a) - e\<rparr> = {unat e..<unat (ma_addr a) + unat (ma_size a)}"
proof -
  have "unat (ma_addr a + ma_size a - e) = unat (ma_addr a) + unat (ma_size a) - unat e"
    using assms(2) area_end [OF assms(1)] by (simp add: unat_sub word_le_unat)
  moreover have "(unat (ma_addr a) + unat (ma_size a) - unat e) mod 4096 = 0"
    using assms(1,3) by (simp add: area_ok_def mod_eq_0_iff_dvd)
  ultimately show "area_ok \<lparr>ma_addr = e, ma_size = (ma_addr a + ma_size a) - e\<rparr>"
    "cells \<lparr>ma_addr = e, ma_size = (ma_addr a + ma_size a) - e\<rparr> = {unat e..<unat (ma_addr a) + unat (ma_size a)}"
    using assms by (simp_all add: area_ok_def cells_def)
qed

lemma rem_one_nat:
  assumes ok: "area_ok a" and al: "unat e mod 4096 = 0"
  defines "x \<equiv> unat (ma_addr a)" and "y \<equiv> unat (ma_addr a) + unat (ma_size a)"
  shows "rem_one addr e a =
     (let lo = a\<lparr>ma_size := addr - ma_addr a\<rparr>; hi = \<lparr>ma_addr = e, ma_size = (ma_addr a + ma_size a) - e\<rparr> in
      if unat addr \<le> x \<and> y \<le> unat e then ([], [])
      else if x < unat addr \<and> unat e < y then ([lo], [hi])
      else if x < unat e \<and> unat e < y then ([hi], [])
      else if x < unat addr \<and> unat addr < y then ([lo], [])
      else ([a], []))"
proof -
  have "unat (ma_addr a + ma_size a) mod 4096 = 0"
    using ok area_end [OF ok] by (simp add: area_ok_def mod_eq_0_iff_dvd)
  then have "ROUND_PAGE_UP (ma_addr a + ma_size a) = ma_addr a + ma_size a" "ROUND_PAGE_UP e = e"
    using round_up_aligned al by simp_all
  then show ?thesis
    using area_end [OF ok] by (simp add: rem_one_def in_middle_def Let_def word_le_unat word_less_unat x_def y_def)
qed

lemma rem_one_cells:
  assumes ok: "area_ok a" and le: "unat addr \<le> unat e" and al: "unat addr mod 4096 = 0" "unat e mod 4096 = 0"
    and r: "rem_one addr e a = (ks, ns)"
  shows "free_mem ks \<union> free_mem ns = cells a - {unat addr..<unat e}"
    and "\<forall>b\<in>set (ks @ ns). area_ok b" and "apart (ks @ ns)"
    and "length ks \<le> 1" and "length ns \<le> 1"
    and "\<forall>b\<in>set ns. snd (rem_one addr e b) = []"
    and "ns \<noteq> [] \<Longrightarrow> unat addr - 1 \<in> cells a \<and> unat addr \<in> cells a \<and> unat (ma_addr a) < unat addr"
proof -
  define x y where "x = unat (ma_addr a)" and "y = unat (ma_addr a) + unat (ma_size a)"
  let ?lo = "a\<lparr>ma_size := addr - ma_addr a\<rparr>" and ?hi = "\<lparr>ma_addr = e, ma_size = (ma_addr a + ma_size a) - e\<rparr>"
  have ca: "cells a = {x..<y}" by (simp add: cells_def x_def y_def)
  note lo = lower_part [OF ok, of addr, folded x_def y_def] and hi = upper_part [OF ok _ al(2), folded x_def y_def]
  note nat = rem_one_nat [OF ok al(2), of addr, folded x_def y_def, unfolded Let_def r]
  have all: "free_mem ks \<union> free_mem ns = cells a - {unat addr..<unat e} \<and>
    (\<forall>b\<in>set (ks @ ns). area_ok b) \<and> apart (ks @ ns) \<and> length ks \<le> 1 \<and> length ns \<le> 1 \<and>
    (\<forall>b\<in>set ns. snd (rem_one addr e b) = []) \<and> (ns \<noteq> [] \<longrightarrow> unat addr - 1 \<in> cells a \<and> unat addr \<in> cells a \<and> x < unat addr)"
  proof -
    consider (cov) "unat addr \<le> x" "y \<le> unat e"
      | (mid) "x < unat addr" "unat e < y"
      | (beg) "unat addr \<le> x" "x < unat e" "unat e < y"
      | (fin) "x < unat addr" "unat addr < y" "y \<le> unat e"
      | (out) "\<not> (unat addr \<le> x \<and> y \<le> unat e)" "unat e \<le> x \<or> y \<le> unat addr"
      by linarith
    then show ?thesis
    proof cases
      case cov
      then show ?thesis using nat ca by (auto simp: apart_def)
    next
      case mid
      then have eq: "ks = [?lo]" "ns = [?hi]" using nat le by auto
      have c: "cells ?lo = {x..<unat addr}" "cells ?hi = {unat e..<y}" "area_ok ?lo" "area_ok ?hi"
        using lo hi mid le al by auto
      have "snd (rem_one addr e ?hi) = []"
        unfolding rem_one_nat [OF c(4) al(2)] using le by (simp add: Let_def)
      then show ?thesis using mid le ca c unfolding eq by (auto simp: apart_def)
    next
      case beg
      then have eq: "ks = [?hi]" "ns = []" using nat by auto
      have "cells ?hi = {unat e..<y}" "area_ok ?hi" using hi beg by auto
      then show ?thesis using beg ca unfolding eq by (auto simp: apart_def)
    next
      case fin
      then have eq: "ks = [?lo]" "ns = []" using nat by auto
      have "cells ?lo = {x..<unat addr}" "area_ok ?lo" using lo fin al by auto
      then show ?thesis using fin ca unfolding eq by (auto simp: apart_def)
    next
      case out
      then have eq: "ks = [a]" "ns = []" using nat le by auto
      show ?thesis using out ca ok unfolding eq by (auto simp: apart_def)
    qed
  qed
  then show "free_mem ks \<union> free_mem ns = cells a - {unat addr..<unat e}"
    and "\<forall>b\<in>set (ks @ ns). area_ok b" and "apart (ks @ ns)" and "length ks \<le> 1" and "length ns \<le> 1"
    and "\<forall>b\<in>set ns. snd (rem_one addr e b) = []" and "ns \<noteq> [] \<Longrightarrow> unat addr - 1 \<in> cells a \<and> unat addr \<in> cells a \<and> unat (ma_addr a) < unat addr"
    unfolding x_def by blast+
qed

lemma apart_append: "apart (xs @ ys) \<longleftrightarrow> apart xs \<and> apart ys \<and> free_mem xs \<inter> free_mem ys = {}"
  unfolding apart_def sorted_wrt_append free_mem_def by blast

lemma apart_Cons: "apart (x # xs) \<longleftrightarrow> cells x \<inter> free_mem xs = {} \<and> apart xs"
  unfolding apart_def free_mem_def by auto

lemma apart_rev: "apart (rev xs) = apart xs"
  unfolding apart_def sorted_wrt_rev by (simp add: Int_commute)

definition splits :: "uintptr_t \<Rightarrow> uintptr_t \<Rightarrow> mem_area list \<Rightarrow> nat" where
  "splits addr e as = length (filter (\<lambda>a. snd (rem_one addr e a) \<noteq> []) as)"

lemma rem_loop_spec:
  assumes "unat addr \<le> unat e" "unat addr mod 4096 = 0" "unat e mod 4096 = 0"
    and "\<forall>a\<in>set (dn @ as). area_ok a" "apart (dn @ as)" "count + splits addr e as \<le> MAX_PHYSMEM_AREAS"
  shows "\<exists>c l. PhysMemAreas_rem_loop addr e count dn as = Some (c, l) \<and> (\<forall>a\<in>set l. area_ok a) \<and> apart l \<and>
    free_mem l = free_mem dn \<union> (free_mem as - {unat addr..<unat e}) \<and> c \<le> count + splits addr e as"
  using assms(4-6)
proof (induction "length as + splits addr e as" arbitrary: count dn as rule: less_induct)
  case less
  show ?case
  proof (cases as)
    case Nil
    then show ?thesis using less.prems by (simp add: apart_rev)
  next
    case (Cons a bs)
    obtain ks ns where r: "rem_one addr e a = (ks, ns)" by force
    have aok: "area_ok a" using less.prems(1) Cons by simp
    note one = rem_one_cells [OF aok assms(1-3) r]
    have ns0: "splits addr e ns = 0" using one(6) by (auto simp: splits_def filter_empty_conv)
    have sp: "splits addr e (a # bs) = length ns + splits addr e bs"
      using one(5) r by (cases ns) (auto simp: splits_def)
    have app: "splits addr e (bs @ ns) = splits addr e bs" using ns0 by (simp add: splits_def)
    have small: "length (bs @ ns) + splits addr e (bs @ ns) < length as + splits addr e as"
      using Cons sp app one(5) by simp
    have sub: "free_mem ks \<subseteq> cells a" "free_mem ns \<subseteq> cells a" using one(1) by auto
    have ap: "apart ((ks @ dn) @ bs @ ns)"
    proof -
      have dn: "apart dn" "apart bs" "cells a \<inter> free_mem bs = {}" "free_mem dn \<inter> cells a = {}" "free_mem dn \<inter> free_mem bs = {}"
        using less.prems(2) unfolding Cons apart_append apart_Cons free_mem_simps by auto
      have kn: "apart ks" "apart ns" "free_mem ks \<inter> free_mem ns = {}" using one(3) by (simp_all add: apart_append)
      have "free_mem ks \<inter> free_mem dn = {}" "free_mem ks \<inter> free_mem bs = {}" "free_mem dn \<inter> free_mem ns = {}"
        "free_mem bs \<inter> free_mem ns = {}"
        using sub dn(3,4) by (blast+)
      then show ?thesis unfolding apart_append free_mem_simps using dn(1,2,5) kn by (simp add: Int_Un_distrib Int_Un_distrib2)
    qed
    have oks: "\<forall>b\<in>set ((ks @ dn) @ bs @ ns). area_ok b" using less.prems(1) one(2) Cons by auto
    have cnt: "count + length ns + splits addr e (bs @ ns) \<le> MAX_PHYSMEM_AREAS" using less.prems(3) Cons sp app by simp
    obtain c l where l: "PhysMemAreas_rem_loop addr e (count + length ns) (ks @ dn) (bs @ ns) = Some (c, l)"
      "\<forall>a\<in>set l. area_ok a" "apart l" "free_mem l = free_mem (ks @ dn) \<union> (free_mem (bs @ ns) - {unat addr..<unat e})"
      "c \<le> count + length ns + splits addr e (bs @ ns)"
      using less.hyps [OF small oks ap cnt] by blast
    have "PhysMemAreas_rem_loop addr e count dn as = Some (c, l)"
      using l(1) r cnt unfolding Cons rem_loop_one by (cases ns) auto
    moreover have "free_mem ns \<inter> {unat addr..<unat e} = {}" using one(1) by blast
    then have "free_mem l = free_mem dn \<union> (free_mem as - {unat addr..<unat e})"
      unfolding l(4) Cons free_mem_simps using one(1) by blast
    moreover have "c \<le> count + splits addr e as" using l(5) sp app Cons by simp
    ultimately show ?thesis using l(2,3) by blast
  qed
qed

lemma splits_one:
  assumes "\<forall>a\<in>set as. area_ok a" "apart as" "unat addr \<le> unat e" "unat addr mod 4096 = 0" "unat e mod 4096 = 0"
  shows "splits addr e as \<le> 1 \<and> (splits addr e as = 1 \<longrightarrow> unat addr - 1 \<in> free_mem as)"
  using assms(1,2)
proof (induction as)
  case (Cons a as)
  then have IH: "splits addr e as \<le> 1 \<and> (splits addr e as = 1 \<longrightarrow> unat addr - 1 \<in> free_mem as)"
    by (simp add: apart_Cons)
  have mid: "unat addr - 1 \<in> cells a" if "snd (rem_one addr e a) \<noteq> []"
    using rem_one_cells(7) [of a addr e "fst (rem_one addr e a)" "snd (rem_one addr e a)"] assms(3-5) that Cons.prems by simp
  have "splits addr e (a # as) = (if snd (rem_one addr e a) \<noteq> [] then Suc (splits addr e as) else splits addr e as)"
    by (simp add: splits_def)
  moreover have "splits addr e as = 0" if "snd (rem_one addr e a) \<noteq> []"
  proof (rule ccontr)
    assume "splits addr e as \<noteq> 0"
    then have "unat addr - 1 \<in> free_mem as" using IH by (simp add: le_Suc_eq)
    then show False using mid [OF that] Cons.prems(2) by (auto simp: apart_Cons)
  qed
  ultimately show ?case using IH mid by (simp split: if_splits)
qed (simp add: splits_def)

lemma apart_mem: "apart as \<Longrightarrow> a \<in> set as \<Longrightarrow> b \<in> set as \<Longrightarrow> a = b \<or> cells a \<inter> cells b = {}"
  by (induction as) (auto simp: apart_Cons free_mem_def)

lemma splits_at_begin:
  assumes "\<forall>a\<in>set as. area_ok a" "apart as" "a \<in> set as" "0 < unat (ma_size a)"
    and "unat (ma_addr a) \<le> unat e" "unat e mod 4096 = 0"
  shows "splits (ma_addr a) e as = 0"
proof -
  have al: "unat (ma_addr a) mod 4096 = 0" using assms(1,3) by (simp add: area_ok_def)
  have "snd (rem_one (ma_addr a) e b) = []" if b: "b \<in> set as" for b
  proof (rule ccontr)
    assume ns: "snd (rem_one (ma_addr a) e b) \<noteq> []"
    have "unat (ma_addr a) \<in> cells b \<and> unat (ma_addr b) < unat (ma_addr a)"
      using rem_one_cells(7) [of b "ma_addr a" e "fst (rem_one (ma_addr a) e b)" "snd (rem_one (ma_addr a) e b)"]
        ns b assms(1,5,6) al by simp
    moreover have "unat (ma_addr a) \<in> cells a" using assms(4) by (simp add: cells_def)
    ultimately show False using apart_mem [OF assms(2,3) b] by auto
  qed
  then show ?thesis by (simp add: splits_def filter_empty_conv)
qed

lemma rem_spec:
  assumes inv: "pma_inv s" and le: "unat addr \<le> unat e" "unat e + 4095 < 2 ^ 32"
    and room: "pa_count s + splits (ROUND_PAGE_DN addr) (ROUND_PAGE_UP e) (pa_list s) \<le> MAX_PHYSMEM_AREAS"
  shows "\<exists>s'. PhysMemAreas_rem addr e s = Some s' \<and> pma_inv s' \<and>
    free_mem (pa_list s') = free_mem (pa_list s) - {unat addr div 4096 * 4096..<(unat e + 4095) div 4096 * 4096} \<and>
    pa_count s' \<le> pa_count s + splits (ROUND_PAGE_DN addr) (ROUND_PAGE_UP e) (pa_list s)"
proof -
  have dn: "unat (ROUND_PAGE_DN addr) = unat addr div 4096 * 4096" by (rule unat_ROUND_PAGE_DN)
  have up: "unat (ROUND_PAGE_UP e) = (unat e + 4095) div 4096 * 4096" by (rule unat_ROUND_PAGE_UP [OF le(2)])
  have "unat addr div 4096 * 4096 \<le> (unat e + 4095) div 4096 * 4096"
    using le(1) by (intro mult_le_mono1 div_le_mono) simp
  then obtain c l where "PhysMemAreas_rem_loop (ROUND_PAGE_DN addr) (ROUND_PAGE_UP e) (pa_count s) [] (pa_list s) = Some (c, l)"
    "\<forall>a\<in>set l. area_ok a" "apart l"
    "free_mem l = free_mem (pa_list s) - {unat addr div 4096 * 4096..<(unat e + 4095) div 4096 * 4096}"
    "c \<le> pa_count s + splits (ROUND_PAGE_DN addr) (ROUND_PAGE_UP e) (pa_list s)"
    using rem_loop_spec [of "ROUND_PAGE_DN addr" "ROUND_PAGE_UP e" "[]" "pa_list s" "pa_count s"] inv room dn up
    by (auto simp: pma_inv_def)
  then show ?thesis using room by (simp add: PhysMemAreas_rem_def pma_inv_def)
qed

section \<open>Properties\<close>

text \<open>C30: removing a range from the free memory removes exactly the pages that the range touches,
  whatever areas it covers, cuts at one end or splits, and keeps the areas aligned, disjoint and
  inside the address space. The loop ends and at most one further area is needed.\<close>

theorem PhysMemAreas_rem_correct:
  assumes "pma_inv s" "pa_count s < MAX_PHYSMEM_AREAS" "unat addr \<le> unat e" "unat e + 4095 < 2 ^ 32"
  shows "\<exists>s'. PhysMemAreas_rem addr e s = Some s' \<and> pma_inv s' \<and>
    free_mem (pa_list s') = free_mem (pa_list s) - {unat addr div 4096 * 4096..<(unat e + 4095) div 4096 * 4096} \<and>
    pa_count s' \<le> pa_count s + 1"
proof -
  have "unat (ROUND_PAGE_DN addr) \<le> unat (ROUND_PAGE_UP e)"
    unfolding unat_ROUND_PAGE_DN unat_ROUND_PAGE_UP [OF assms(4)]
    using assms(3) by (intro mult_le_mono1 div_le_mono) simp
  then have "splits (ROUND_PAGE_DN addr) (ROUND_PAGE_UP e) (pa_list s) \<le> 1"
    using splits_one [of "pa_list s" "ROUND_PAGE_DN addr" "ROUND_PAGE_UP e"] assms(1)
    by (simp add: pma_inv_def unat_ROUND_PAGE_DN unat_ROUND_PAGE_UP [OF assms(4)])
  then show ?thesis using rem_spec [OF assms(1,3,4)] assms(2) by fastforce
qed

definition ex_areas :: pmareas where
  "ex_areas = \<lparr>pa_count = 1, pa_list = [\<lparr>ma_addr = 0x1000, ma_size = 0x4000\<rparr>]\<rparr>"

lemma ex_areas_inv: "pma_inv ex_areas"
  by (simp add: pma_inv_def ex_areas_def area_ok_def apart_def MAX_PHYSMEM_AREAS_def)

theorem PhysMemAreas_rem_correct_witness:
  "\<exists>s'. PhysMemAreas_rem 0x2345 0x2350 ex_areas = Some s' \<and> pma_inv s' \<and>
     free_mem (pa_list s') = free_mem (pa_list ex_areas) - {0x2000..<0x3000}"
  using PhysMemAreas_rem_correct [OF ex_areas_inv, of "0x2345" "0x2350"]
  by (auto simp: ex_areas_def MAX_PHYSMEM_AREAS_def)

text \<open>C31: an allocation returns page frames that were free and removes exactly them, or, when no area
  is large enough, reports failure and changes nothing; it never needs a further area.\<close>

theorem PhysMemAreas_alloc_correct:
  assumes "pma_inv s" "0 < frames" "unat frames * 4096 + 4095 < 2 ^ 32"
  shows "\<exists>f s'. PhysMemAreas_alloc frames s = Some (f, s') \<and> pma_inv s' \<and>
    (if \<exists>a\<in>set (pa_list s). unat frames * 4096 \<le> unat (ma_size a)
     then {unat f * 4096..<(unat f + unat frames) * 4096} \<subseteq> free_mem (pa_list s) \<and>
       free_mem (pa_list s') = free_mem (pa_list s) - {unat f * 4096..<(unat f + unat frames) * 4096} \<and>
       pa_count s' \<le> pa_count s
     else f = INVALID_FRAME \<and> s' = s)"
proof -
  have fr: "unat (frames * PAGE_SIZE) = unat frames * 4096"
    using assms(3) by (simp add: PAGE_SIZE_def unat_word_ariths)
  have big: "ma_size a \<ge> frames * PAGE_SIZE \<longleftrightarrow> unat frames * 4096 \<le> unat (ma_size a)" for a :: mem_area
    using fr by (simp add: word_le_unat)
  show ?thesis
  proof (cases "find (\<lambda>a. ma_size a \<ge> frames * PAGE_SIZE) (pa_list s)")
    case None
    then have "\<not> (\<exists>a\<in>set (pa_list s). unat frames * 4096 \<le> unat (ma_size a))" using big by (auto simp: find_None_iff)
    then show ?thesis using None assms(1) by (simp add: PhysMemAreas_alloc_def)
  next
    case (Some a)
    have a: "a \<in> set (pa_list s)" "unat frames * 4096 \<le> unat (ma_size a)"
      using Some big by (auto simp: find_Some_iff)
    have ok: "area_ok a" "apart (pa_list s)" "\<forall>a\<in>set (pa_list s). area_ok a" using assms(1) a(1) by (auto simp: pma_inv_def)
    have al: "unat (ma_addr a) mod 4096 = 0" "unat (ma_addr a) + unat (ma_size a) < 2 ^ 32" using ok(1) by (auto simp: area_ok_def)
    let ?e = "ma_addr a + frames * PAGE_SIZE"
    have e: "unat ?e = unat (ma_addr a) + unat frames * 4096"
      using a(2) al(2) fr by (subst unat_plus_nowrap) auto
    have eal: "unat ?e mod 4096 = 0" using e al(1) by simp
    have rnd: "ROUND_PAGE_DN (ma_addr a) = ma_addr a" "ROUND_PAGE_UP ?e = ?e"
      using round_dn_aligned [OF al(1)] round_up_aligned [OF eal] by simp_all
    have pos: "0 < unat frames" using assms(2) by (simp add: word_less_nat_alt)
    have "splits (ma_addr a) ?e (pa_list s) = 0"
      using a pos eal e ok by (intro splits_at_begin) simp_all
    then obtain s' where s': "PhysMemAreas_rem (ma_addr a) ?e s = Some s'" "pma_inv s'" "pa_count s' \<le> pa_count s"
      "free_mem (pa_list s') = free_mem (pa_list s) - {unat (ma_addr a) div 4096 * 4096..<(unat ?e + 4095) div 4096 * 4096}"
      using rem_spec [OF assms(1), of "ma_addr a" ?e] aligned_room [OF eal] e rnd assms(1)
      by (simp add: pma_inv_def) blast
    let ?f = "ma_addr a div PAGE_SIZE"
    have f: "unat ?f * 4096 = unat (ma_addr a)"
      using al(1) by (simp add: PAGE_SIZE_def unat_div mod_eq_0_iff_dvd)
    have "unat (ma_addr a) div 4096 * 4096 = unat ?f * 4096" "(unat ?e + 4095) div 4096 * 4096 = (unat ?f + unat frames) * 4096"
      unfolding e f [symmetric] add_mult_distrib [symmetric] by (simp, rule round_up_mult)
    moreover have "{unat ?f * 4096..<(unat ?f + unat frames) * 4096} \<subseteq> free_mem (pa_list s)"
      unfolding add_mult_distrib f using a by (auto simp: free_mem_def cells_def intro!: bexI [of _ a])
    ultimately show ?thesis using Some s' a by (auto simp: PhysMemAreas_alloc_def)
  qed
qed

theorem PhysMemAreas_alloc_correct_witness:
  "(\<exists>f s'. PhysMemAreas_alloc 2 ex_areas = Some (f, s') \<and> f = 1 \<and> pma_inv s' \<and>
     free_mem (pa_list s') = free_mem (pa_list ex_areas) - {unat f * 4096..<(unat f + 2) * 4096}) \<and>
   PhysMemAreas_alloc 5 ex_areas = Some (INVALID_FRAME, ex_areas)"
proof -
  have "fst (the (PhysMemAreas_alloc 2 ex_areas)) = 1" by code_simp
  then show ?thesis
    using PhysMemAreas_alloc_correct [OF ex_areas_inv, of 2] PhysMemAreas_alloc_correct [OF ex_areas_inv, of 5]
    by (auto simp: ex_areas_def)
qed

text \<open>Adding a range whose end is not page aligned also declares memory behind the range free: the
  end is rounded up, not down, so its first address behind the range becomes allocatable.\<close>

theorem PhysMemAreas_add_exceeds:
  assumes "pa_count s < MAX_PHYSMEM_AREAS" "unat addr mod 4096 = 0" "unat addr \<le> unat e"
    and "unat e mod 4096 \<noteq> 0" "unat e + 4095 < 2 ^ 32"
  shows "\<exists>s'. PhysMemAreas_add addr e s = Some s' \<and> unat e \<in> free_mem (pa_list s') - {unat addr..<unat e}"
proof -
  have up: "unat (ROUND_PAGE_UP e) = (unat e + 4095) div 4096 * 4096" by (rule unat_ROUND_PAGE_UP [OF assms(5)])
  have "unat e mod 4096 < 4096" "0 < unat e mod 4096" using assms(4) by simp_all
  then have "(unat e div 4096 + 1) * 4096 \<le> unat e + 4095 \<and> unat e < (unat e div 4096 + 1) * 4096"
    using div_mult_mod_eq [of "unat e" 4096] unfolding add_mult_distrib by linarith
  then have lt: "unat e < unat (ROUND_PAGE_UP e)"
    unfolding up by (meson less_eq_div_iff_mult_less_eq less_le_trans mult_le_mono1 zero_less_numeral)
  have "unat (ROUND_PAGE_UP e - addr) = unat (ROUND_PAGE_UP e) - unat addr"
    using lt assms(3) by (simp add: unat_minus_le word_le_unat)
  then have "unat e \<in> cells \<lparr>ma_addr = addr, ma_size = ROUND_PAGE_UP e - addr\<rparr>"
    using lt assms(3) by (simp add: cells_def)
  then show ?thesis using assms(1) round_up_aligned [OF assms(2)] by (auto simp: PhysMemAreas_add_def)
qed

theorem PhysMemAreas_add_exceeds_witness:
  "\<exists>s'. PhysMemAreas_add 0x10000 0x10800 ex_areas = Some s' \<and> 0x10800 \<in> free_mem (pa_list s') - {0x10000..<0x10800}"
  using PhysMemAreas_add_exceeds [of ex_areas "0x10000" "0x10800"] by (simp add: ex_areas_def MAX_PHYSMEM_AREAS_def)

end
