(* ===== verification/PhysMem.thy ===== *)
theory PhysMem
  imports PhysMemAreas "HOL-Library.Multiset"
begin

text \<open>
  The allocator for page frames (\<^verbatim>\<open>kernel/src/mem/physmem.cc\<close>). A bitmap manages the 2 MiB behind
  \<^verbatim>\<open>bitmapStart\<close>, from which contiguous frames are taken; two stacks of frame numbers manage the rest, one for the
  frames below \<^verbatim>\<open>DIR_MAP_AREA_SIZE\<close>, which the kernel can access directly, and one for those above. A stack is the list of its frame numbers
  with the top in front, and the size of its memory in pages. Reading below the bottom of a stack, a panic and a failed assertion are
  \<^term>\<open>None\<close>. The bitmap is a function from the number of a word to the word; the words behind its end are whatever the memory behind
  it holds.

  The memory map, the modules and the end of the kernel image are arguments of \<^verbatim>\<open>init\<close>. Waiting for the swapper
  is a result of \<^verbatim>\<open>reserve\<close>; the jobs for the swapper are not modelled.
\<close>

section \<open>State\<close>

definition KERNEL_MEM_PERCENT :: u32 where "KERNEL_MEM_PERCENT = 20"
definition KERNEL_MEM_MIN :: u32 where "KERNEL_MEM_MIN = 750"
definition BITMAP_PAGE_COUNT :: u32 where "BITMAP_PAGE_COUNT = 512"
definition DIR_MAP_AREA_SIZE :: u32 where "DIR_MAP_AREA_SIZE = 0x2E000000"

datatype FrameType = CRIT | KERN | USR

record StackFrames =
  sf_pages :: size_t
  sf_frames :: "frameno_t list"

record physmem =
  bitmap :: "nat \<Rightarrow> u32"
  bitmapStart :: uintptr_t
  freeCont :: size_t
  lower :: StackFrames
  upper :: StackFrames
  initialized :: bool
  cframes :: size_t
  kframes :: size_t
  uframes :: size_t
  totalMem :: size_t
  mem_areas :: pmareas

section \<open>Frames\<close>

definition bitmapStartFrame :: "physmem \<Rightarrow> u32" where
  "bitmapStartFrame s = bitmapStart s div PAGE_SIZE"

definition lowerStart :: "physmem \<Rightarrow> u32" where
  "lowerStart s = (bitmapStartFrame s + BITMAP_PAGE_COUNT) * PAGE_SIZE"

definition lowerEnd :: u32 where
  "lowerEnd = DIR_MAP_AREA_SIZE"

definition depth :: "StackFrames \<Rightarrow> size_t" where
  "depth st = word_of_nat (length (sf_frames st))"

definition PhysMem_getFreeDef :: "physmem \<Rightarrow> size_t" where
  "PhysMem_getFreeDef s = depth (lower s) + depth (upper s)"

text \<open>The test against the end of a stack compares the number of entries with the number of bytes, so that an entry can be written behind the memory
  of the stack, which is \<^term>\<open>None\<close> as well.\<close>

definition push_frame :: "frameno_t \<Rightarrow> StackFrames \<Rightarrow> StackFrames option" where
  "push_frame f st =
     (if depth st \<ge> sf_pages st * PAGE_SIZE then None
      else if length (sf_frames st) \<ge> unat (sf_pages st) * 1024 then None
      else Some (st\<lparr>sf_frames := f # sf_frames st\<rparr>))"

definition pop_frame :: "StackFrames \<Rightarrow> (frameno_t \<times> StackFrames) option" where
  "pop_frame st = (case sf_frames st of [] \<Rightarrow> None | f # fs \<Rightarrow> Some (f, st\<lparr>sf_frames := fs\<rparr>))"

definition PhysMem_allocFrame :: "bool \<Rightarrow> physmem \<Rightarrow> (frameno_t \<times> physmem) option" where
  "PhysMem_allocFrame forceLower s =
     (if \<not> forceLower \<and> depth (lower s) \<le> kframes s then
        if sf_frames (upper s) = [] then Some (INVALID_FRAME, s)
        else do { (f, st) \<leftarrow> pop_frame (upper s); Some (f, s\<lparr>upper := st\<rparr>) }
      else do { (f, st) \<leftarrow> pop_frame (lower s); Some (f, s\<lparr>lower := st\<rparr>) })"

definition PhysMem_freeFrame :: "frameno_t \<Rightarrow> physmem \<Rightarrow> physmem option" where
  "PhysMem_freeFrame frame s =
     (if frame * PAGE_SIZE < lowerEnd then do { st \<leftarrow> push_frame frame (lower s); Some (s\<lparr>lower := st\<rparr>) }
      else do { st \<leftarrow> push_frame frame (upper s); Some (s\<lparr>upper := st\<rparr>) })"

definition bm_bit :: "u32 \<Rightarrow> nat" where
  "bm_bit frame = 31 - unat (frame mod 32)"

definition PhysMem_markUsed :: "frameno_t \<Rightarrow> bool \<Rightarrow> physmem \<Rightarrow> physmem option" where
  "PhysMem_markUsed frame used s =
     (if frame < bitmapStartFrame s then Some s
      else if frame < bitmapStartFrame s + BITMAP_PAGE_COUNT then
        let frame = frame - bitmapStartFrame s;
            i = unat (frame div 32);
            bit = push_bit (bm_bit frame) 1
        in if used then Some (s\<lparr>bitmap := (bitmap s)(i := bitmap s i OR bit), freeCont := freeCont s - 1\<rparr>)
           else Some (s\<lparr>bitmap := (bitmap s)(i := bitmap s i AND NOT bit), freeCont := freeCont s + 1\<rparr>)
      else if \<not> used then PhysMem_freeFrame frame s
      else Some s)"

partial_function (option) markRange_loop :: "uintptr_t \<Rightarrow> uintptr_t \<Rightarrow> bool \<Rightarrow> physmem \<Rightarrow> physmem option" where
  "markRange_loop from to used s =
     (if from < to then
        do {
          s \<leftarrow> PhysMem_markUsed (drop_bit PAGE_BITS from) used s;
          markRange_loop (from + PAGE_SIZE) to used s
        }
      else Some s)"

definition PhysMem_doMarkRangeUsed :: "uintptr_t \<Rightarrow> uintptr_t \<Rightarrow> bool \<Rightarrow> physmem \<Rightarrow> physmem option" where
  "PhysMem_doMarkRangeUsed from to used s = markRange_loop (from AND NOT (PAGE_SIZE - 1)) to used s"

section \<open>Contiguous frames\<close>

definition bm_used :: "(nat \<Rightarrow> u32) \<Rightarrow> nat \<Rightarrow> bool" where
  "bm_used bm j \<longleftrightarrow> bm (j div 32) AND push_bit (31 - j mod 32) 1 \<noteq> 0"

text \<open>The inner loop: the number of free frames from \<open>j\<close> on, at most \<open>cnt\<close>.\<close>

fun free_run :: "(nat \<Rightarrow> u32) \<Rightarrow> nat \<Rightarrow> nat \<Rightarrow> nat" where
  "free_run bm 0 j = 0"
| "free_run bm (Suc cnt) j = (if bm_used bm j then 0 else Suc (free_run bm cnt (Suc j)))"

partial_function (option) cont_loop :: "(nat \<Rightarrow> u32) \<Rightarrow> u32 \<Rightarrow> size_t \<Rightarrow> size_t \<Rightarrow> size_t \<Rightarrow> nat \<Rightarrow> (size_t \<times> nat) option" where
  "cont_loop bm bs cnt align i c =
     (if i < BITMAP_PAGE_COUNT then
        let c = free_run bm (unat cnt) (unat i); j = i + word_of_nat c in
        if c = unat cnt then Some (i, c)
        else cont_loop bm bs cnt align (ROUND_UP (bs + j + 1) align - bs) c
      else Some (i, c))"

definition PhysMem_allocateContiguous :: "size_t \<Rightarrow> size_t \<Rightarrow> physmem \<Rightarrow> (frameno_t option \<times> physmem) option" where
  "PhysMem_allocateContiguous cnt align s =
     do {
       let bs = bitmapStartFrame s;
       (i, c) \<leftarrow> cont_loop (bitmap s) bs cnt align (ROUND_UP bs align - bs) 0;
       if c \<noteq> unat cnt then Some (None, s)
       else do {
         let i = i + bs;
         s \<leftarrow> PhysMem_doMarkRangeUsed (i * PAGE_SIZE) ((i + cnt) * PAGE_SIZE) True s;
         Some (Some i, s)
       }
     }"

definition PhysMem_freeContiguous :: "frameno_t \<Rightarrow> size_t \<Rightarrow> physmem \<Rightarrow> physmem option" where
  "PhysMem_freeContiguous first cnt s = PhysMem_doMarkRangeUsed (first * PAGE_SIZE) ((first + cnt) * PAGE_SIZE) False s"

section \<open>Single frames\<close>

definition PhysMem_allocate :: "FrameType \<Rightarrow> physmem \<Rightarrow> (frameno_t \<times> physmem) option" where
  "PhysMem_allocate type s =
     (if \<not> initialized s then do { (f, a) \<leftarrow> PhysMemAreas_alloc 1 (mem_areas s); Some (f, s\<lparr>mem_areas := a\<rparr>) }
      else case type of
        CRIT \<Rightarrow>
          if cframes s > 0 then PhysMem_allocFrame False (s\<lparr>cframes := cframes s - 1\<rparr>) else Some (INVALID_FRAME, s)
      | KERN \<Rightarrow>
          let s = (if kframes s = 0 then s\<lparr>kframes := (depth (lower s) - cframes s) div (100 div KERNEL_MEM_PERCENT)\<rparr> else s) in
          if kframes s > 0 then PhysMem_allocFrame True (s\<lparr>kframes := kframes s - 1\<rparr>) else Some (INVALID_FRAME, s)
      | USR \<Rightarrow>
          if PhysMem_getFreeDef s > kframes s + cframes s then
            if uframes s = 0 then None else PhysMem_allocFrame False (s\<lparr>uframes := uframes s - 1\<rparr>)
          else Some (INVALID_FRAME, s))"

definition PhysMem_free :: "frameno_t \<Rightarrow> FrameType \<Rightarrow> physmem \<Rightarrow> physmem option" where
  "PhysMem_free frame type s =
     (let s = (case type of
                 CRIT \<Rightarrow> s\<lparr>cframes := cframes s + 1\<rparr>
               | KERN \<Rightarrow> s\<lparr>kframes := kframes s + 1\<rparr>
               | USR \<Rightarrow> s)
      in PhysMem_markUsed frame False s)"

text \<open>\<^verbatim>\<open>reserve\<close> up to the point where the thread waits for the swapper, and the test after each wait.\<close>

datatype reservation = Reserved | NotReserved | WaitForSwapper

definition PhysMem_reserve :: "bool \<Rightarrow> size_t \<Rightarrow> physmem \<Rightarrow> reservation \<times> physmem" where
  "PhysMem_reserve can_swap frameCount s =
     (let free = PhysMem_getFreeDef s; s = s\<lparr>uframes := uframes s + frameCount\<rparr> in
      if free \<ge> frameCount \<and> free - frameCount \<ge> kframes s + cframes s then (Reserved, s)
      else if \<not> can_swap then (NotReserved, s)
      else (WaitForSwapper, s))"

definition PhysMem_reserve_again :: "size_t \<Rightarrow> physmem \<Rightarrow> reservation" where
  "PhysMem_reserve_again frameCount s =
     (if PhysMem_getFreeDef s - (kframes s + cframes s) < frameCount then WaitForSwapper else Reserved)"

section \<open>The frames of a thread\<close>

text \<open>\<^verbatim>\<open>ThreadBase::reserveFrames\<close> of \<^verbatim>\<open>thread.cc\<close> without a swapper, and \<^verbatim>\<open>discardFrames\<close>: the thread collects frames in a list.\<close>

fun discardFrames :: "frameno_t list \<Rightarrow> physmem \<Rightarrow> physmem option" where
  "discardFrames [] s = Some s"
| "discardFrames (f # fs) s = do { s \<leftarrow> PhysMem_free f USR s; discardFrames fs s }"

fun reserve_each :: "nat \<Rightarrow> size_t \<Rightarrow> physmem \<Rightarrow> frameno_t list \<Rightarrow> (size_t \<times> physmem \<times> frameno_t list) option" where
  "reserve_each 0 cnt s q = Some (cnt, s, q)"
| "reserve_each (Suc i) cnt s q =
     do {
       (frm, s) \<leftarrow> PhysMem_allocate USR s;
       if frm = INVALID_FRAME then Some (cnt, s, q) else reserve_each i (cnt - 1) s (q @ [frm])
     }"

partial_function (option) reserveFrames :: "size_t \<Rightarrow> physmem \<Rightarrow> frameno_t list \<Rightarrow> (bool \<times> physmem \<times> frameno_t list) option" where
  "reserveFrames cnt s q =
     (if cnt = 0 then Some (True, s, q)
      else if fst (PhysMem_reserve False cnt s) \<noteq> Reserved then
        do { s \<leftarrow> discardFrames q (snd (PhysMem_reserve False cnt s)); Some (False, s, []) }
      else do {
        (cnt, s, q) \<leftarrow> reserve_each (unat cnt) cnt (snd (PhysMem_reserve False cnt s)) q;
        reserveFrames cnt s q
      })"

section \<open>Initialization\<close>

record MemMap =
  mm_size :: u32
  mm_baseAddr :: u64
  mm_available :: bool

definition PHYS_END :: u64 where "PHYS_END = 0xFFFFFFFF"

definition add_map :: "MemMap \<Rightarrow> pmareas \<Rightarrow> pmareas option" where
  "add_map mm a =
     (if \<not> mm_available mm then Some a
      else if mm_baseAddr mm > PHYS_END then Some a
      else
        let e = mm_baseAddr mm + ucast (mm_size mm);
            e = (if e \<ge> PHYS_END then PHYS_END else e)
        in PhysMemAreas_add (ucast (mm_baseAddr mm)) (ucast e) a)"

fun add_maps :: "MemMap list \<Rightarrow> pmareas \<Rightarrow> pmareas option" where
  "add_maps [] a = Some a"
| "add_maps (mm # ms) a = do { a \<leftarrow> add_map mm a; add_maps ms a }"

fun rem_mods :: "(uintptr_t \<times> size_t) list \<Rightarrow> pmareas \<Rightarrow> pmareas option" where
  "rem_mods [] a = Some a"
| "rem_mods ((phys, sz) # ms) a = do { a \<leftarrow> PhysMemAreas_rem phys (phys + sz) a; rem_mods ms a }"

fun find_first :: "mem_area list \<Rightarrow> mem_area option \<Rightarrow> mem_area option" where
  "find_first [] first = first"
| "find_first (a # as) first =
     find_first as
       (if ma_size a \<ge> BITMAP_PAGE_COUNT * PAGE_SIZE \<and> (case first of None \<Rightarrow> True | Some f \<Rightarrow> ma_addr a < ma_addr f)
        then Some a else first)"

definition count_area :: "u32 \<Rightarrow> mem_area \<Rightarrow> size_t \<times> size_t \<Rightarrow> size_t \<times> size_t" where
  "count_area lstart a = (\<lambda>(lowerPages, upperPages).
     let aend = ma_addr a + ma_size a in
     (if ma_addr a \<ge> lstart \<or> aend < lstart then lowerPages + (min lowerEnd aend - ma_addr a) div PAGE_SIZE else lowerPages,
      if aend > lowerEnd then upperPages + (aend - max lowerEnd (ma_addr a)) div PAGE_SIZE else upperPages))"

text \<open>\<^verbatim>\<open>PageDir::makeAccessible\<close> takes the frames one by one; the page tables of the kernel area exist.\<close>

fun makeAccessible :: "nat \<Rightarrow> pmareas \<Rightarrow> pmareas option" where
  "makeAccessible 0 a = Some a"
| "makeAccessible (Suc n) a = do { (f, a) \<leftarrow> PhysMemAreas_alloc 1 a; if f = INVALID_FRAME then None else makeAccessible n a }"

fun mark_areas :: "mem_area list \<Rightarrow> physmem \<Rightarrow> physmem option" where
  "mark_areas [] s = Some s"
| "mark_areas (a # as) s = do { s \<leftarrow> PhysMem_doMarkRangeUsed (ma_addr a) (ma_addr a + ma_size a) False s; mark_areas as s }"

definition set_limits :: "physmem \<Rightarrow> physmem" where
  "set_limits s =
     (let free = PhysMem_getFreeDef s;
          s = s\<lparr>cframes := 0, kframes := free div (100 div KERNEL_MEM_PERCENT)\<rparr>;
          s = (if kframes s < KERNEL_MEM_MIN then
                 if KERNEL_MEM_MIN > free then s\<lparr>kframes := free div 2, cframes := free - free div 2\<rparr>
                 else s\<lparr>kframes := KERNEL_MEM_MIN\<rparr>
               else s)
      in if cframes s = 0 then s\<lparr>cframes := (kframes s * 2) div 3, kframes := kframes s - (kframes s * 2) div 3\<rparr> else s)"

definition PhysMem_init :: "MemMap list \<Rightarrow> (uintptr_t \<times> size_t) list \<Rightarrow> uintptr_t \<Rightarrow> (nat \<Rightarrow> u32) \<Rightarrow> physmem option" where
  "PhysMem_init mmap mods kernel_end bm =
     do {
       a \<leftarrow> add_maps mmap \<lparr>pa_count = 0, pa_list = []\<rparr>;
       let total = PhysMemAreas_getAvailable a;
       a \<leftarrow> PhysMemAreas_rem 0 kernel_end a;
       a \<leftarrow> rem_mods mods a;
       first \<leftarrow> find_first (pa_list a) None;
       a \<leftarrow> PhysMemAreas_rem (ma_addr first) (ma_addr first + BITMAP_PAGE_COUNT * PAGE_SIZE) a;
       let s = \<lparr>bitmap = bm, bitmapStart = ma_addr first, freeCont = 0, lower = \<lparr>sf_pages = 0, sf_frames = []\<rparr>,
                upper = \<lparr>sf_pages = 0, sf_frames = []\<rparr>, initialized = False, cframes = 0, kframes = 0, uframes = 0, totalMem = total, mem_areas = a\<rparr>;
       let (lowerPages, upperPages) = fold (count_area (lowerStart s)) (pa_list a) (0, 0);
       let s = s\<lparr>lower := (lower s)\<lparr>sf_pages := BYTES_2_PAGES (lowerPages * 4)\<rparr>,
                 upper := (upper s)\<lparr>sf_pages := BYTES_2_PAGES (upperPages * 4)\<rparr>\<rparr>;
       a \<leftarrow> makeAccessible (unat (sf_pages (lower s))) a;
       a \<leftarrow> makeAccessible (unat (sf_pages (upper s))) a;
       a \<leftarrow> makeAccessible (unat (BYTES_2_PAGES (BITMAP_PAGE_COUNT div 8))) a;
       let s = s\<lparr>bitmap := (\<lambda>i. if i < 16 then 0 else bitmap s i), mem_areas := a\<rparr>;
       s \<leftarrow> mark_areas (pa_list a) s;
       Some (set_limits (s\<lparr>initialized := True\<rparr>))
     }"


section \<open>The stacks\<close>

text \<open>A machine without upper memory: all frames are below \<^const>\<open>lowerEnd\<close>, behind the bitmap, and fit on the stack. The frames in \<open>live\<close> are
  handed out.\<close>

definition managed :: "physmem \<Rightarrow> frameno_t \<Rightarrow> bool" where
  "managed s f \<longleftrightarrow> unat (bitmapStartFrame s) + 512 \<le> unat f \<and> unat f * 4096 < unat lowerEnd"

definition pm_inv :: "frameno_t list \<Rightarrow> physmem \<Rightarrow> frameno_t list \<Rightarrow> bool" where
  "pm_inv fs s live \<longleftrightarrow> initialized s \<and> sf_frames (upper s) = [] \<and> distinct fs \<and> (\<forall>f\<in>set fs. managed s f)
     \<and> length fs \<le> unat (sf_pages (lower s)) * 1024 \<and> unat (sf_pages (lower s)) \<le> 1024
     \<and> mset live + mset (sf_frames (lower s)) = mset fs
     \<and> unat (kframes s) + unat (cframes s) \<le> length (sf_frames (lower s))"

lemma lowerEnd_val: "lowerEnd = 0x2E000000"
  by (simp add: lowerEnd_def DIR_MAP_AREA_SIZE_def)

lemma inv_length:
  assumes "pm_inv fs s live"
  shows "length live + length (sf_frames (lower s)) = length fs" "length fs \<le> 1048576"
proof -
  show "length live + length (sf_frames (lower s)) = length fs" using assms by (metis pm_inv_def size_mset size_union)
  have "unat (sf_pages (lower s)) * 1024 \<le> 1024 * 1024" using assms unfolding pm_inv_def by (intro mult_le_mono) auto
  then show "length fs \<le> 1048576" using assms by (auto simp: pm_inv_def)
qed

lemma inv_depth:
  assumes "pm_inv fs s live"
  shows "unat (depth (lower s)) = length (sf_frames (lower s))" "depth (upper s) = 0" "unat (PhysMem_getFreeDef s) = length (sf_frames (lower s))"
    "unat (kframes s + cframes s) = unat (kframes s) + unat (cframes s)"
proof -
  have l: "length (sf_frames (lower s)) < 2 ^ 32" using inv_length [OF assms] by simp
  then show d: "unat (depth (lower s)) = length (sf_frames (lower s))" unfolding depth_def by (rule unat_of_nat_u32)
  show u: "depth (upper s) = 0" using assms by (simp add: pm_inv_def depth_def)
  show "unat (PhysMem_getFreeDef s) = length (sf_frames (lower s))" using d u by (simp add: PhysMem_getFreeDef_def)
  show "unat (kframes s + cframes s) = unat (kframes s) + unat (cframes s)"
    using l assms by (intro unat_plus_nowrap) (auto simp: pm_inv_def)
qed

text \<open>Taking the top frame.\<close>

lemma pop_inv:
  assumes "pm_inv fs s live" "sf_frames (lower s) = f # rest" "s' = s\<lparr>lower := (lower s)\<lparr>sf_frames := rest\<rparr>, cframes := c, kframes := k, uframes := u\<rparr>"
    "unat k + unat c \<le> length rest"
  shows "pm_inv fs s' (f # live)" "f \<noteq> INVALID_FRAME"
proof -
  have m: "mset (f # live) + mset rest = mset fs" using assms(1,2) by (simp add: pm_inv_def)
  then show "pm_inv fs s' (f # live)" using assms by (auto simp: pm_inv_def managed_def bitmapStartFrame_def)
  have "f \<in> set fs" using m by (metis mset_eq_setD set_mset_mset union_single_eq_member mset.simps(2) add_mset_add_single union_iff set_mset_add_mset_insert insertI1)
  then have "unat f * 4096 < 0x2E000000" using assms(1) by (auto simp: pm_inv_def managed_def lowerEnd_val)
  then show "f \<noteq> INVALID_FRAME" by (auto simp: INVALID_FRAME_def unsigned_minus_1_eq_mask mask_eq_exp_minus_1)
qed

lemma allocate_inv:
  assumes "pm_inv fs s live" "type = USR \<longrightarrow> uframes s \<noteq> 0"
  shows "\<exists>f s'. PhysMem_allocate type s = Some (f, s') \<and> (if f = INVALID_FRAME then pm_inv fs s' live else pm_inv fs s' (f # live))
    \<and> uframes s' = (if type = USR \<and> f \<noteq> INVALID_FRAME then uframes s - 1 else uframes s)
    \<and> sf_pages (lower s') = sf_pages (lower s) \<and> (type = USR \<longrightarrow> kframes s' = kframes s \<and> cframes s' = cframes s)
    \<and> (f \<noteq> INVALID_FRAME \<longleftrightarrow> (case type of CRIT \<Rightarrow> 0 < unat (cframes s) | KERN \<Rightarrow> 0 < unat (kframes s) \<or> unat (cframes s) + 5 \<le> length (sf_frames (lower s))
         | USR \<Rightarrow> unat (kframes s) + unat (cframes s) < length (sf_frames (lower s))))"
proof -
  note d = inv_depth [OF assms(1)] 
  have i: "initialized s" "unat (kframes s) + unat (cframes s) \<le> length (sf_frames (lower s))" using assms(1) by (auto simp: pm_inv_def)
  show ?thesis
  proof (cases type)
    case CRIT
    show ?thesis
    proof (cases "cframes s > 0")
      case True
      then have c: "unat (cframes s - 1) = unat (cframes s) - 1" "0 < unat (cframes s)" by (simp_all add: unat_minus_one unat_gt_0)
      then obtain f rest where l: "sf_frames (lower s) = f # rest" using i(2) by (cases "sf_frames (lower s)") auto
      have "\<not> depth (lower s) \<le> kframes s" using d(1) c i(2) by (simp add: word_le_unat)
      then have "PhysMem_allocate type s = Some (f, s\<lparr>lower := (lower s)\<lparr>sf_frames := rest\<rparr>, cframes := cframes s - 1\<rparr>)"
        using CRIT True i(1) l by (simp add: PhysMem_allocate_def PhysMem_allocFrame_def pop_frame_def)
      then show ?thesis using pop_inv(1) [OF assms(1) l refl, where k = "kframes s" and c = "cframes s - 1" and u = "uframes s"] pop_inv(2) [OF assms(1) l refl, where k = "kframes s" and c = "cframes s - 1"] c i(2) l CRIT by simp
    next
      case False
      then show ?thesis using CRIT i(1) assms(1) by (simp add: PhysMem_allocate_def word_gt_0)
    qed
  next
    case KERN
    define k where "k = (if kframes s = 0 then (depth (lower s) - cframes s) div 5 else kframes s)"
    have le: "cframes s \<le> depth (lower s)" using d(1) i(2) by (simp add: word_le_unat)
    then have u: "unat ((depth (lower s) - cframes s) div 5) = (length (sf_frames (lower s)) - unat (cframes s)) div 5"
      using d(1) by (simp add: unat_div unat_minus_le)
    have "unat k = (if unat (kframes s) = 0 then (length (sf_frames (lower s)) - unat (cframes s)) div 5 else unat (kframes s))"
      using u by (simp add: k_def unat_eq_zero)
    then have k: "unat k + unat (cframes s) \<le> length (sf_frames (lower s))"
      and e: "0 < unat k \<longleftrightarrow> 0 < unat (kframes s) \<or> unat (cframes s) + 5 \<le> length (sf_frames (lower s))"
      using i(2) by (auto split: if_splits)
    have s': "PhysMem_allocate type s =
        (if k > 0 then PhysMem_allocFrame True (s\<lparr>kframes := k - 1\<rparr>) else Some (INVALID_FRAME, s\<lparr>kframes := k\<rparr>))"
      using KERN i(1) by (simp add: PhysMem_allocate_def KERNEL_MEM_PERCENT_def Let_def k_def)
    show ?thesis
    proof (cases "k > 0")
      case True
      then have c: "unat (k - 1) = unat k - 1" "0 < unat k" by (simp_all add: unat_minus_one unat_gt_0)
      then obtain f rest where l: "sf_frames (lower s) = f # rest" using k by (cases "sf_frames (lower s)") auto
      have "PhysMem_allocate type s = Some (f, s\<lparr>lower := (lower s)\<lparr>sf_frames := rest\<rparr>, kframes := k - 1\<rparr>)"
        using True l by (simp add: s' PhysMem_allocFrame_def pop_frame_def)
      then show ?thesis using pop_inv(1) [OF assms(1) l refl, where k = "k - 1" and c = "cframes s" and u = "uframes s"]
          pop_inv(2) [OF assms(1) l refl, where k = "k - 1" and c = "cframes s"] c k l KERN e by simp
    next
      case False
      then have "PhysMem_allocate type s = Some (INVALID_FRAME, s\<lparr>kframes := k\<rparr>)" by (simp add: s')
      moreover have "pm_inv fs (s\<lparr>kframes := k\<rparr>) live" using assms(1) k by (simp add: pm_inv_def managed_def bitmapStartFrame_def)
      moreover have "unat k = 0" using False by (simp add: word_gt_0)
      ultimately show ?thesis using e KERN by simp
    qed
  next
    case USR
    show ?thesis
    proof (cases "PhysMem_getFreeDef s > kframes s + cframes s")
      case True
      then have lt: "unat (kframes s) + unat (cframes s) < length (sf_frames (lower s))" using d by (simp add: word_less_unat)
      then obtain f rest where l: "sf_frames (lower s) = f # rest" by (cases "sf_frames (lower s)") auto
      have "\<not> depth (lower s) \<le> kframes s" using d(1) lt by (simp add: word_le_unat)
      then have "PhysMem_allocate type s = Some (f, s\<lparr>lower := (lower s)\<lparr>sf_frames := rest\<rparr>, uframes := uframes s - 1\<rparr>)"
        using USR True i(1) l assms(2) by (simp add: PhysMem_allocate_def PhysMem_allocFrame_def pop_frame_def)
      then show ?thesis using pop_inv(1) [OF assms(1) l refl, where k = "kframes s" and c = "cframes s" and u = "uframes s - 1"] pop_inv(2) [OF assms(1) l refl, where k = "kframes s" and c = "cframes s"] lt l USR by simp
    next
      case False
      then show ?thesis using USR i(1) assms(1) d by (simp add: PhysMem_allocate_def word_less_unat)
    qed
  qed
qed


lemma unat_le_Suc: "unat (x + 1 :: u32) \<le> Suc (unat x)"
proof -
  have "unat (x + 1) = (unat x + 1) mod 2 ^ 32" by (simp add: unat_word_ariths)
  then show ?thesis by (simp add: mod_less_eq_dividend)
qed

lemma free_inv:
  assumes "pm_inv fs s live" "f \<in> set live"
  shows "\<exists>s'. PhysMem_free f type s = Some s' \<and> pm_inv fs s' (remove1 f live) \<and> uframes s' = uframes s \<and> sf_pages (lower s') = sf_pages (lower s)"
proof -
  note d = inv_depth [OF assms(1)] and n = inv_length [OF assms(1)]
  have p: "mset live + mset (sf_frames (lower s)) = mset fs" "unat (sf_pages (lower s)) \<le> 1024" "length fs \<le> unat (sf_pages (lower s)) * 1024"
    using assms(1) by (auto simp: pm_inv_def)
  have "f \<in> set fs" using p(1) assms(2) by (metis UnCI set_mset_mset set_mset_union)
  then have m: "unat (bitmapStartFrame s) + 512 \<le> unat f" "unat f * 4096 < 0x2E000000" using assms(1) by (auto simp: pm_inv_def managed_def lowerEnd_val)
  then have g: "\<not> f < bitmapStartFrame s" "\<not> f < bitmapStartFrame s + BITMAP_PAGE_COUNT" "f * PAGE_SIZE < lowerEnd"
    by (simp_all add: word_less_unat unat_plus_nowrap BITMAP_PAGE_COUNT_def PAGE_SIZE_def lowerEnd_val unat_word_ariths)
  have l: "length (sf_frames (lower s)) < unat (sf_pages (lower s)) * 1024" using n(1) p(3) assms(2) by (cases live) auto
  have "unat (sf_pages (lower s) * PAGE_SIZE) = unat (sf_pages (lower s)) * 4096" using p(2) by (simp add: unat_word_ariths PAGE_SIZE_def)
  then have "\<not> depth (lower s) \<ge> sf_pages (lower s) * PAGE_SIZE" using d(1) l by (simp add: word_le_unat)
  then have pu: "push_frame f (lower s) = Some ((lower s)\<lparr>sf_frames := f # sf_frames (lower s)\<rparr>)" using l by (simp add: push_frame_def)
  define t where "t = (case type of CRIT \<Rightarrow> s\<lparr>cframes := cframes s + 1\<rparr> | KERN \<Rightarrow> s\<lparr>kframes := kframes s + 1\<rparr> | USR \<Rightarrow> s)"
  have t: "lower t = lower s" "bitmapStartFrame t = bitmapStartFrame s" "uframes t = uframes s" "initialized t = initialized s" "upper t = upper s"
    by (auto simp: t_def bitmapStartFrame_def split: FrameType.split)
  have "PhysMem_free f type s = Some (t\<lparr>lower := (lower s)\<lparr>sf_frames := f # sf_frames (lower s)\<rparr>\<rparr>)"
    using g pu t by (simp add: PhysMem_free_def t_def [symmetric] PhysMem_markUsed_def PhysMem_freeFrame_def)
  moreover have "unat (kframes t) + unat (cframes t) \<le> Suc (length (sf_frames (lower s)))"
    using assms(1) unat_le_Suc [of "kframes s"] unat_le_Suc [of "cframes s"] by (auto simp: t_def pm_inv_def split: FrameType.split)
  moreover have "mset (remove1 f live) + mset (f # sf_frames (lower s)) = mset fs"
    using p(1) assms(2) insert_DiffM [of f "mset live"] by (metis add_mset_add_single mset.simps(2) mset_remove1 set_mset_mset union_mset_add_mset_left union_mset_add_mset_right)
  ultimately show ?thesis using assms(1) t by (simp add: pm_inv_def managed_def bitmapStartFrame_def)
qed


lemma discard_inv:
  assumes "pm_inv fs s live" "mset q \<subseteq># mset live"
  shows "\<exists>s'. discardFrames q s = Some s' \<and> pm_inv fs s' (fold remove1 q live) \<and> uframes s' = uframes s \<and> sf_pages (lower s') = sf_pages (lower s)"
  using assms
proof (induction q arbitrary: s live)
  case (Cons f q)
  have f: "f \<in> set live" using Cons.prems(2) by (metis insert_subset_eq_iff mset.simps(2) set_mset_mset)
  obtain s1 where s1: "PhysMem_free f USR s = Some s1" "pm_inv fs s1 (remove1 f live)" "uframes s1 = uframes s" "sf_pages (lower s1) = sf_pages (lower s)"
    using free_inv [OF Cons.prems(1) f, of USR] by blast
  have "mset q \<subseteq># mset (remove1 f live)" using Cons.prems(2) by (simp add: insert_subset_eq_iff)
  then show ?case using Cons.IH [OF s1(2)] s1 by auto
qed simp

lemma mset_fold_remove1: "mset (fold remove1 q xs) = mset xs - mset q"
  by (induction q arbitrary: xs) (simp_all add: diff_diff_add_mset)

lemma inv_mset: "pm_inv fs s live \<Longrightarrow> mset live' = mset live \<Longrightarrow> pm_inv fs s live'"
  by (simp add: pm_inv_def)

lemma reserve_each_inv:
  assumes "pm_inv fs s live" "unat (kframes s) + unat (cframes s) + n \<le> length (sf_frames (lower s))" "n \<le> unat (uframes s)"
  shows "\<exists>s' new. reserve_each n cnt s q = Some (cnt - word_of_nat n, s', q @ new) \<and> length new = n \<and> pm_inv fs s' (rev new @ live)
    \<and> unat (uframes s') = unat (uframes s) - n \<and> sf_pages (lower s') = sf_pages (lower s)"
  using assms
proof (induction n arbitrary: s live cnt q)
  case (Suc n)
  have u: "uframes s \<noteq> 0" using Suc.prems(3) by auto
  obtain f s1 where a: "PhysMem_allocate USR s = Some (f, s1)" "f \<noteq> INVALID_FRAME" "pm_inv fs s1 (f # live)" "uframes s1 = uframes s - 1"
      "sf_pages (lower s1) = sf_pages (lower s)" "kframes s1 = kframes s" "cframes s1 = cframes s"
    using allocate_inv [OF Suc.prems(1), of USR] u Suc.prems(2) by (auto split: if_splits)
  have l: "length (sf_frames (lower s)) = Suc (length (sf_frames (lower s1)))"
    using inv_length(1) [OF Suc.prems(1)] inv_length(1) [OF a(3)] by simp
  have m: "unat (uframes s1) = unat (uframes s) - 1" using a(4) u by (simp add: unat_minus_one)
  have pr: "unat (kframes s1) + unat (cframes s1) + n \<le> length (sf_frames (lower s1))" "n \<le> unat (uframes s1)"
    using Suc.prems(2,3) l m a(6,7) by auto
  obtain s' new where n: "reserve_each n (cnt - 1) s1 (q @ [f]) = Some (cnt - 1 - word_of_nat n, s', (q @ [f]) @ new)" "length new = n"
      "pm_inv fs s' (rev new @ f # live)" "unat (uframes s') = unat (uframes s1) - n" "sf_pages (lower s') = sf_pages (lower s1)"
    using Suc.IH [OF a(3) pr, of "cnt - 1" "q @ [f]"] by auto
  show ?case using a(1,2,5) n m by (intro exI [of _ s'] exI [of _ "f # new"]) (simp add: algebra_simps)
qed simp

text \<open>Reserving frames either gives a thread all the frames it asked for, or gives back all that it had.\<close>

lemma reserveFrames_inv:
  assumes "pm_inv fs s live" "mset q \<subseteq># mset live" "unat (uframes s) + unat cnt < 2 ^ 32"
  shows "\<exists>s'. sf_pages (lower s') = sf_pages (lower s) \<and> unat (uframes s') \<le> unat (uframes s) + unat cnt \<and>
    (if unat cnt + unat (kframes s) + unat (cframes s) \<le> length (sf_frames (lower s)) \<or> cnt = 0
     then \<exists>new. reserveFrames cnt s q = Some (True, s', q @ new) \<and> length new = unat cnt \<and> pm_inv fs s' (new @ live)
     else reserveFrames cnt s q = Some (False, s', []) \<and> pm_inv fs s' (fold remove1 q live))"
proof (cases "cnt = 0")
  case True
  then show ?thesis using assms(1) by (subst reserveFrames.simps) auto
next
  case False
  note d = inv_depth [OF assms(1)]
  let ?t = "s\<lparr>uframes := uframes s + cnt\<rparr>"
  have t: "pm_inv fs ?t live" "unat (uframes ?t) = unat (uframes s) + unat cnt"
    using assms(1,3) by (simp_all add: pm_inv_def managed_def bitmapStartFrame_def unat_plus_nowrap)
  have c: "PhysMem_getFreeDef s \<ge> cnt \<and> PhysMem_getFreeDef s - cnt \<ge> kframes s + cframes s \<longleftrightarrow>
      unat cnt + unat (kframes s) + unat (cframes s) \<le> length (sf_frames (lower s))"
  proof (cases "cnt \<le> PhysMem_getFreeDef s")
    case True
    then have "unat (PhysMem_getFreeDef s - cnt) = length (sf_frames (lower s)) - unat cnt" using d(3) by (simp add: unat_minus_le)
    then show ?thesis using True d by (auto simp: word_le_unat)
  next
    case False
    then show ?thesis using d(3) by (auto simp: word_le_unat)
  qed
  show ?thesis
  proof (cases "unat cnt + unat (kframes s) + unat (cframes s) \<le> length (sf_frames (lower s))")
    case True
    then have r: "PhysMem_reserve False cnt s = (Reserved, ?t)" using c by (simp add: PhysMem_reserve_def Let_def)
    obtain s' new where n: "reserve_each (unat cnt) cnt ?t q = Some (cnt - word_of_nat (unat cnt), s', q @ new)" "length new = unat cnt"
        "pm_inv fs s' (rev new @ live)" "unat (uframes s') = unat (uframes ?t) - unat cnt" "sf_pages (lower s') = sf_pages (lower s)"
      using reserve_each_inv [OF t(1), of "unat cnt" cnt q] True t(2) by auto
    have "reserveFrames 0 s' (q @ new) = Some (True, s', q @ new)" by (subst reserveFrames.simps) simp
    then have "reserveFrames cnt s q = Some (True, s', q @ new)" using False r n(1) by (subst reserveFrames.simps) simp
    moreover have "pm_inv fs s' (new @ live)" using n(3) by (rule inv_mset) simp
    ultimately show ?thesis using True n t(2) by (intro exI [of _ s']) auto
  next
    case lt: False
    then have r: "PhysMem_reserve False cnt s = (NotReserved, ?t)" using c by (simp add: PhysMem_reserve_def Let_def)
    obtain s' where "discardFrames q ?t = Some s'" "pm_inv fs s' (fold remove1 q live)" "uframes s' = uframes ?t" "sf_pages (lower s') = sf_pages (lower s)"
      using discard_inv [OF t(1) assms(2)] by auto
    moreover from this(1) have "reserveFrames cnt s q = Some (False, s', [])" using False r by (subst reserveFrames.simps) simp
    ultimately show ?thesis using lt False t(2) by (intro exI [of _ s']) auto
  qed
qed


section \<open>Sessions\<close>

text \<open>Clients take a frame for the kernel, reserve frames for a user, or give back a frame with the type it was taken for.\<close>

datatype pm_req = Take FrameType | ReserveUser size_t | GiveBack nat

fun pm_exec :: "pm_req \<Rightarrow> physmem \<times> (frameno_t \<times> FrameType) list \<Rightarrow> (physmem \<times> (frameno_t \<times> FrameType) list) option" where
  "pm_exec (Take t) (s, live) =
     (if t = USR then Some (s, live)
      else do { (f, s) \<leftarrow> PhysMem_allocate t s; Some (s, if f = INVALID_FRAME then live else (f, t) # live) })"
| "pm_exec (ReserveUser n) (s, live) =
     do { (r, s, q) \<leftarrow> reserveFrames n s []; Some (s, map (\<lambda>f. (f, USR)) q @ live) }"
| "pm_exec (GiveBack i) (s, live) =
     (if i < length live then do { s \<leftarrow> PhysMem_free (fst (live ! i)) (snd (live ! i)) s; Some (s, remove1 (live ! i) live) }
      else Some (s, live))"

fun pm_run :: "pm_req list \<Rightarrow> physmem \<times> (frameno_t \<times> FrameType) list \<Rightarrow> (physmem \<times> (frameno_t \<times> FrameType) list) option" where
  "pm_run [] st = Some st"
| "pm_run (r # rs) st = do { st \<leftarrow> pm_exec r st; pm_run rs st }"

fun demand :: "pm_req \<Rightarrow> nat" where
  "demand (ReserveUser n) = unat n"
| "demand r = 0"

lemma exec_inv:
  assumes "pm_inv fs s (map fst live)" "unat (uframes s) + demand r < 2 ^ 32"
  shows "\<exists>s' live'. pm_exec r (s, live) = Some (s', live') \<and> pm_inv fs s' (map fst live') \<and> unat (uframes s') \<le> unat (uframes s) + demand r"
proof (cases r)
  case (Take t)
  show ?thesis
  proof (cases "t = USR")
    case False
    then obtain f s' where "PhysMem_allocate t s = Some (f, s')" "if f = INVALID_FRAME then pm_inv fs s' (map fst live) else pm_inv fs s' (f # map fst live)"
        "uframes s' = (if t = USR \<and> f \<noteq> INVALID_FRAME then uframes s - 1 else uframes s)"
      using allocate_inv [OF assms(1), of t] by blast
    then show ?thesis using Take False by (auto split: if_splits)
  qed (use Take assms in simp)
next
  case (ReserveUser n)
  have pre: "mset [] \<subseteq># mset (map fst live)" "unat (uframes s) + unat n < 2 ^ 32" using assms(2) ReserveUser by simp_all
  obtain s' where s': "unat (uframes s') \<le> unat (uframes s) + unat n"
      "if unat n + unat (kframes s) + unat (cframes s) \<le> length (sf_frames (lower s)) \<or> n = 0
       then \<exists>new. reserveFrames n s [] = Some (True, s', [] @ new) \<and> length new = unat n \<and> pm_inv fs s' (new @ map fst live)
       else reserveFrames n s [] = Some (False, s', []) \<and> pm_inv fs s' (fold remove1 [] (map fst live))"
    using reserveFrames_inv [OF assms(1) pre] by blast
  have m: "map fst (map (\<lambda>f. (f, USR)) new @ live) = new @ map fst live" for new :: "frameno_t list" by (induction new) auto
  show ?thesis
  proof (cases "unat n + unat (kframes s) + unat (cframes s) \<le> length (sf_frames (lower s)) \<or> n = 0")
    case True
    then obtain new where "reserveFrames n s [] = Some (True, s', new)" "pm_inv fs s' (new @ map fst live)" using s'(2) by auto
    then show ?thesis using s'(1) ReserveUser m [of new] by simp
  next
    case False
    then have "reserveFrames n s [] = Some (False, s', [])" "pm_inv fs s' (map fst live)" using s'(2) by auto
    then show ?thesis using s'(1) ReserveUser by simp
  qed
next
  case (GiveBack i)
  show ?thesis
  proof (cases "i < length live")
    case True
    have "fst (live ! i) \<in> set (map fst live)" using True by simp
    from free_inv [OF assms(1) this, of "snd (live ! i)"]
    obtain s' where f: "PhysMem_free (fst (live ! i)) (snd (live ! i)) s = Some s'" "pm_inv fs s' (remove1 (fst (live ! i)) (map fst live))" "uframes s' = uframes s"
      by blast
    have "mset (map fst (remove1 (live ! i) live)) = mset (remove1 (fst (live ! i)) (map fst live))"
      using True by (simp add: image_mset_Diff)
    then have "pm_inv fs s' (map fst (remove1 (live ! i) live))" by (rule inv_mset [OF f(2)])
    then show ?thesis using GiveBack True f by simp
  qed (use GiveBack assms in simp)
qed

lemma run_inv:
  assumes "pm_inv fs s (map fst live)" "unat (uframes s) + sum_list (map demand rs) < 2 ^ 32"
  shows "\<exists>s' live'. pm_run rs (s, live) = Some (s', live') \<and> pm_inv fs s' (map fst live')"
  using assms
proof (induction rs arbitrary: s live)
  case (Cons r rs)
  obtain s1 live1 where e: "pm_exec r (s, live) = Some (s1, live1)" "pm_inv fs s1 (map fst live1)" "unat (uframes s1) \<le> unat (uframes s) + demand r"
    using exec_inv [OF Cons.prems(1), of r] Cons.prems(2) by auto
  then show ?case using Cons.IH [OF e(2)] Cons.prems(2) by simp
qed simp


section \<open>The bitmap\<close>

lemma bm_used_bit: "bm_used bm j \<longleftrightarrow> bit (bm (j div 32)) (31 - j mod 32)"
proof -
  have "bit (bm (j div 32)) n \<longleftrightarrow> bm (j div 32) AND push_bit n 1 \<noteq> 0" for n
    by (simp add: bit_iff_and_push_bit_not_eq_0)
  then show ?thesis by (simp add: bm_used_def)
qed

lemma bm_index:
  assumes "n < 512"
  shows "unat (word_of_nat n div 32 :: u32) = n div 32" "bm_bit (word_of_nat n) = 31 - n mod 32"
proof -
  have "unat (word_of_nat n :: u32) = n" using assms by (simp add: unat_of_nat_u32)
  then show "unat (word_of_nat n div 32 :: u32) = n div 32" "bm_bit (word_of_nat n) = 31 - n mod 32"
    by (simp_all add: bm_bit_def unat_div unat_mod)
qed

lemma bm_set:
  assumes "n < 512"
  shows "bm_used (bm(n div 32 := bm (n div 32) OR push_bit (31 - n mod 32) 1)) j \<longleftrightarrow> bm_used bm j \<or> j = n"
    "bm_used (bm(n div 32 := bm (n div 32) AND NOT (push_bit (31 - n mod 32) 1))) j \<longleftrightarrow> bm_used bm j \<and> j \<noteq> n"
proof -
  have "j = n \<longleftrightarrow> j div 32 = n div 32 \<and> 31 - j mod 32 = 31 - n mod 32"
  proof
    assume a: "j div 32 = n div 32 \<and> 31 - j mod 32 = 31 - n mod 32"
    have "j mod 32 \<le> 31" "n mod 32 \<le> 31" by (simp_all add: less_Suc_eq_le [symmetric])
    then have "j mod 32 = n mod 32" using a by linarith
    then show "j = n" using a by (metis div_mult_mod_eq)
  qed simp
  moreover have "31 - j mod 32 < 32" by simp
  ultimately show "bm_used (bm(n div 32 := bm (n div 32) OR push_bit (31 - n mod 32) 1)) j \<longleftrightarrow> bm_used bm j \<or> j = n"
      "bm_used (bm(n div 32 := bm (n div 32) AND NOT (push_bit (31 - n mod 32) 1))) j \<longleftrightarrow> bm_used bm j \<and> j \<noteq> n"
    by (auto simp: bm_used_bit bit_simps)
qed

lemma markUsed_cont:
  assumes "unat (bitmapStartFrame s) + 512 \<le> 0x100000" "n < 512"
  shows "\<exists>s'. PhysMem_markUsed (bitmapStartFrame s + word_of_nat n) used s = Some s'
    \<and> s' = s\<lparr>bitmap := bitmap s', freeCont := (if used then freeCont s - 1 else freeCont s + 1)\<rparr>
    \<and> (\<forall>j. bm_used (bitmap s') j \<longleftrightarrow> (if j = n then used else bm_used (bitmap s) j))"
proof -
  let ?f = "bitmapStartFrame s + word_of_nat n"
  have "unat ?f = unat (bitmapStartFrame s) + n" using assms by (subst unat_plus_nowrap) (simp_all add: unat_of_nat_u32)
  then have g: "\<not> ?f < bitmapStartFrame s" "?f < bitmapStartFrame s + BITMAP_PAGE_COUNT"
    using assms by (simp_all add: word_less_unat unat_plus_nowrap BITMAP_PAGE_COUNT_def)
  have e: "?f - bitmapStartFrame s = word_of_nat n" by simp
  show ?thesis
  proof (cases used)
    case True
    then show ?thesis using g e bm_index [OF assms(2)] bm_set(1) [OF assms(2)]
      by (auto simp: PhysMem_markUsed_def Let_def)
  next
    case False
    then show ?thesis using g e bm_index [OF assms(2)] bm_set(2) [OF assms(2)]
      by (auto simp: PhysMem_markUsed_def Let_def)
  qed
qed

text \<open>Marking a range of frames that begins in the bitmap as used; what is behind the bitmap is not marked.\<close>

lemma markUsed_behind:
  assumes "unat (bitmapStartFrame s) + 512 \<le> 0x100000" "512 \<le> n" "unat (bitmapStartFrame s) + n < 0x100000"
  shows "PhysMem_markUsed (bitmapStartFrame s + word_of_nat n) True s = Some s"
proof -
  have "unat (bitmapStartFrame s + word_of_nat n) = unat (bitmapStartFrame s) + n" using assms by (subst unat_plus_nowrap) (simp_all add: unat_of_nat_u32)
  then show ?thesis using assms by (simp add: PhysMem_markUsed_def word_less_unat unat_plus_nowrap BITMAP_PAGE_COUNT_def)
qed

lemma frame_addr:
  assumes "m < 0x100000"
  shows "unat (word_of_nat m * PAGE_SIZE :: u32) = m * 4096" "drop_bit PAGE_BITS (word_of_nat m * PAGE_SIZE :: u32) = word_of_nat m"
    "word_of_nat m * PAGE_SIZE + PAGE_SIZE = (word_of_nat (Suc m) * PAGE_SIZE :: u32)"
proof -
  show u: "unat (word_of_nat m * PAGE_SIZE :: u32) = m * 4096" using assms by (simp add: unat_word_ariths unat_of_nat_u32 PAGE_SIZE_def)
  have "unat (drop_bit PAGE_BITS (word_of_nat m * PAGE_SIZE :: u32)) = m"
    using u by (simp add: PAGE_BITS_def drop_bit_eq_div unat_div)
  then show "drop_bit PAGE_BITS (word_of_nat m * PAGE_SIZE :: u32) = word_of_nat m" using assms by (simp add: word_eq_unat unat_of_nat_u32)
  show "word_of_nat m * PAGE_SIZE + PAGE_SIZE = (word_of_nat (Suc m) * PAGE_SIZE :: u32)" by (simp add: distrib_right)
qed
lemma markRange_cont:
  assumes "unat (bitmapStartFrame s) + 512 \<le> 0x100000" "unat (bitmapStartFrame s) + i + n < 0x100000" "i + n \<le> 512 \<or> used"
  shows "\<exists>s'. markRange_loop ((bitmapStartFrame s + word_of_nat i) * PAGE_SIZE) ((bitmapStartFrame s + word_of_nat (i + n)) * PAGE_SIZE) used s = Some s'
    \<and> s' = s\<lparr>bitmap := bitmap s', freeCont := freeCont s'\<rparr>
    \<and> freeCont s' = (if used then freeCont s - word_of_nat (min n (512 - i)) else freeCont s + word_of_nat n)
    \<and> (\<forall>j. bm_used (bitmap s') j \<longleftrightarrow> (if i \<le> j \<and> j < i + n \<and> j < 512 then used else bm_used (bitmap s) j))"
  using assms
proof (induction n arbitrary: i s)
  case 0
  then show ?case by (intro exI [of _ s], subst markRange_loop.simps) auto
next
  case (Suc n)
  let ?b = "unat (bitmapStartFrame s)"
  have w: "bitmapStartFrame s + word_of_nat m = word_of_nat (?b + m)" for m by simp
  have a: "(bitmapStartFrame s + word_of_nat i) * PAGE_SIZE < (bitmapStartFrame s + word_of_nat (i + Suc n)) * PAGE_SIZE"
    using frame_addr(1) [of "?b + i"] frame_addr(1) [of "?b + (i + Suc n)"] Suc.prems(2) unfolding w word_less_unat by simp
  have nx: "(bitmapStartFrame s + word_of_nat i) * PAGE_SIZE + PAGE_SIZE = (bitmapStartFrame s + word_of_nat (Suc i)) * PAGE_SIZE"
    "drop_bit PAGE_BITS ((bitmapStartFrame s + word_of_nat i) * PAGE_SIZE) = bitmapStartFrame s + word_of_nat i"
    using frame_addr(2,3) [of "?b + i"] Suc.prems(2) unfolding w by simp_all
  obtain t where t: "PhysMem_markUsed (bitmapStartFrame s + word_of_nat i) used s = Some t" "t = s\<lparr>bitmap := bitmap t, freeCont := freeCont t\<rparr>"
    "freeCont t = (if i < 512 then if used then freeCont s - 1 else freeCont s + 1 else freeCont s)"
    "\<forall>j. bm_used (bitmap t) j \<longleftrightarrow> (if j = i \<and> j < 512 then used else bm_used (bitmap s) j)"
  proof (cases "i < 512")
    case True
    obtain t where t: "PhysMem_markUsed (bitmapStartFrame s + word_of_nat i) used s = Some t"
      "t = s\<lparr>bitmap := bitmap t, freeCont := (if used then freeCont s - 1 else freeCont s + 1)\<rparr>"
      "\<forall>j. bm_used (bitmap t) j \<longleftrightarrow> (if j = i then used else bm_used (bitmap s) j)"
      using markUsed_cont [OF Suc.prems(1) True] by blast
    have f: "freeCont t = (if used then freeCont s - 1 else freeCont s + 1)" by (subst t(2)) simp
    show ?thesis by (rule that [OF t(1)]) (use t f True in auto)
  next
    case False
    then have "used" "512 \<le> i" using Suc.prems(3) by auto
    then show ?thesis using markUsed_behind [OF Suc.prems(1), of i] Suc.prems(2) by (intro that [of s]) auto
  qed
  have bt: "bitmapStartFrame t = bitmapStartFrame s" by (subst t(2)) (simp add: bitmapStartFrame_def)
  obtain s' where s': "markRange_loop ((bitmapStartFrame s + word_of_nat (Suc i)) * PAGE_SIZE) ((bitmapStartFrame s + word_of_nat (i + Suc n)) * PAGE_SIZE) used t = Some s'"
    "s' = t\<lparr>bitmap := bitmap s', freeCont := freeCont s'\<rparr>"
    "freeCont s' = (if used then freeCont t - word_of_nat (min n (512 - Suc i)) else freeCont t + word_of_nat n)"
    "\<forall>j. bm_used (bitmap s') j \<longleftrightarrow> (if Suc i \<le> j \<and> j < Suc i + n \<and> j < 512 then used else bm_used (bitmap t) j)"
    using Suc.IH [of t "Suc i"] Suc.prems unfolding bt by auto
  have "s' = s\<lparr>bitmap := bitmap s', freeCont := freeCont s'\<rparr>" by (subst s'(2), subst t(2)) simp
  moreover have "freeCont s' = (if used then freeCont s - word_of_nat (min (Suc n) (512 - i)) else freeCont s + word_of_nat (Suc n))"
  proof (cases "i < 512")
    case True
    then have "min (Suc n) (512 - i) = Suc (min n (512 - Suc i))" by simp
    then show ?thesis using s'(3) t(3) True by simp
  next
    case False
    then show ?thesis using s'(3) t(3) Suc.prems(3) by simp
  qed
  moreover have "\<forall>j. bm_used (bitmap s') j \<longleftrightarrow> (if i \<le> j \<and> j < i + Suc n \<and> j < 512 then used else bm_used (bitmap s) j)"
  proof
    fix j
    show "bm_used (bitmap s') j \<longleftrightarrow> (if i \<le> j \<and> j < i + Suc n \<and> j < 512 then used else bm_used (bitmap s) j)"
      using s'(4) [rule_format, of j] t(4) [rule_format, of j] by (cases "j = i") auto
  qed
  moreover have "markRange_loop ((bitmapStartFrame s + word_of_nat i) * PAGE_SIZE) ((bitmapStartFrame s + word_of_nat (i + Suc n)) * PAGE_SIZE) used s = Some s'"
    by (subst markRange_loop.simps, subst if_P [OF a]) (simp only: nx t(1) s'(1) Option.bind.bind_lunit)
  ultimately show ?case by blast
qed

section \<open>Searching a contiguous range\<close>

lemma free_run_spec:
  "free_run bm n j \<le> n" "k < free_run bm n j \<Longrightarrow> \<not> bm_used bm (j + k)" "free_run bm n j < n \<Longrightarrow> bm_used bm (j + free_run bm n j)"
proof -
  show "free_run bm n j \<le> n" by (induction bm n j rule: free_run.induct) auto
  show "k < free_run bm n j \<Longrightarrow> \<not> bm_used bm (j + k)"
    by (induction bm n j arbitrary: k rule: free_run.induct) (auto split: if_splits simp: less_Suc_eq_0_disj)
  show "free_run bm n j < n \<Longrightarrow> bm_used bm (j + free_run bm n j)"
    by (induction bm n j rule: free_run.induct) (auto split: if_splits)
qed

lemma ROUND_UP_pow2:
  assumes "unat x + 2 ^ k \<le> 2 ^ 32" "k < 32"
  shows "2 ^ k dvd unat (ROUND_UP x (2 ^ k :: u32))" "unat x \<le> unat (ROUND_UP x (2 ^ k))" "unat (ROUND_UP x (2 ^ k)) < unat x + 2 ^ k"
proof -
  define y :: u32 where "y = x + mask k"
  have "unat (take_bit k (-1 :: u32)) = take_bit k (mask 32)" by (simp only: unsigned_take_bit_eq) (simp add: unsigned_minus_1_eq_mask)
  also have "take_bit k (mask 32) = (mask k :: nat)" using assms(2) by (simp only: take_bit_of_mask min.absorb1 less_imp_le)
  finally have "unat (mask k :: u32) = 2 ^ k - 1" by (simp add: mask_eq_exp_minus_1)
  moreover have "0 < (2 ^ k :: nat)" by simp
  ultimately have y: "unat y = unat x + (2 ^ k - 1)" unfolding y_def using assms(1) by (subst unat_plus_nowrap) linarith+
  have r: "ROUND_UP x (2 ^ k) = y - take_bit k y"
    by (simp add: ROUND_UP_def y_def word_and_not_mask take_bit_eq_mask mask_eq_exp_minus_1 add_diff_eq)
  have t: "unat (take_bit k y) = unat y mod 2 ^ k" using take_bit_eq_mod [of k "unat y"] unsigned_take_bit_eq [of k y] by metis
  have "take_bit k y \<le> y" by (simp add: word_le_unat t)
  then have u: "unat (ROUND_UP x (2 ^ k)) = unat y - unat y mod 2 ^ k" by (simp add: r unat_minus_le t)
  then show "2 ^ k dvd unat (ROUND_UP x (2 ^ k :: u32))" by (simp add: minus_mod_eq_mult_div)
  have "unat y mod 2 ^ k < 2 ^ k" by simp
  then show "unat x \<le> unat (ROUND_UP x (2 ^ k))" "unat (ROUND_UP x (2 ^ k)) < unat x + 2 ^ k" using u y \<open>0 < (2 ^ k :: nat)\<close> by linarith+
qed

text \<open>The next position of the search: the first aligned one that is not before a given frame.\<close>

lemma next_aligned:
  assumes "unat bs + n + 2 ^ k \<le> 2 ^ 32" "k < 32"
  obtains m where "ROUND_UP (bs + word_of_nat n) (2 ^ k) - bs = (word_of_nat m :: u32)" "n \<le> m" "2 ^ k dvd unat bs + m"
    "m < n + 2 ^ k" "\<And>j. n \<le> j \<Longrightarrow> 2 ^ k dvd unat bs + j \<Longrightarrow> m \<le> j"
proof -
  let ?x = "bs + word_of_nat n"
  have p: "0 < (2 ^ k :: nat)" by simp
  have x: "unat ?x = unat bs + n" 
  proof -
    have "n < 2 ^ 32" "unat bs + n < 2 ^ 32" using assms(1) p by linarith+
    then show ?thesis by (subst unat_plus_nowrap) (simp_all add: unat_of_nat_u32)
  qed
  note r = ROUND_UP_pow2 [of ?x k, unfolded x, OF assms]
  define m where "m = unat (ROUND_UP ?x (2 ^ k)) - unat bs"
  have m: "unat (ROUND_UP ?x (2 ^ k)) = unat bs + m" using r(2) by (simp add: m_def)
  then have "ROUND_UP ?x (2 ^ k) = word_of_nat (unat bs + m)" by (metis of_nat_unat ucast_id)
  then have e: "ROUND_UP ?x (2 ^ k) - bs = (word_of_nat m :: u32)" by simp
  have l: "m \<le> j" if "n \<le> j" "2 ^ k dvd unat bs + j" for j
  proof (rule ccontr)
    assume a: "\<not> m \<le> j"
    moreover have "2 ^ k dvd (unat bs + m) - (unat bs + j)" using r(1) that(2) unfolding m by (rule dvd_diff_nat)
    ultimately have "2 ^ k \<le> m - j" by (intro dvd_imp_le) auto
    then show False using r(3) that(1) a unfolding m by linarith
  qed
  show ?thesis by (rule that [OF e _ _ _ l]) (use r in \<open>auto simp: m\<close>)
qed

text \<open>The search ends, and it finds the first aligned position from which on the requested number of frames is free.\<close>

lemma cont_loop_spec:
  assumes "unat bs + 512 + 2 ^ k + unat cnt < 0x80000000" "i < 512 + unat cnt + 2 ^ k" "2 ^ k dvd unat bs + i" "k < 31" "c \<noteq> unat cnt"
  shows "\<exists>m d. cont_loop bm bs cnt (2 ^ k) (word_of_nat i) c = Some (word_of_nat m, d)
    \<and> (if d = unat cnt
       then i \<le> m \<and> m < 512 \<and> 2 ^ k dvd unat bs + m \<and> (\<forall>j<unat cnt. \<not> bm_used bm (m + j))
         \<and> (\<forall>n. i \<le> n \<and> n < m \<and> 2 ^ k dvd unat bs + n \<longrightarrow> (\<exists>j<unat cnt. bm_used bm (n + j)))
       else \<forall>n. i \<le> n \<and> n < 512 \<and> 2 ^ k dvd unat bs + n \<longrightarrow> (\<exists>j<unat cnt. bm_used bm (n + j)))"
  using assms(2,3,5)
proof (induction "512 - i" arbitrary: i c rule: less_induct)
  case less
  have "unat (word_of_nat i :: u32) = i" using assms(1) less.prems(1) by (intro unat_of_nat_u32) simp
  then have lt: "word_of_nat i < BITMAP_PAGE_COUNT \<longleftrightarrow> i < 512" "unat (word_of_nat i :: u32) = i" by (simp_all add: word_less_unat BITMAP_PAGE_COUNT_def)
  define r where "r = free_run bm (unat cnt) i"
  have run: "r \<le> unat cnt" "\<And>j. j < r \<Longrightarrow> \<not> bm_used bm (i + j)" "r < unat cnt \<Longrightarrow> bm_used bm (i + r)"
    using free_run_spec unfolding r_def by blast+
  show ?case
  proof (cases "i < 512")
    case False
    then have "cont_loop bm bs cnt (2 ^ k) (word_of_nat i) c = Some (word_of_nat i, c)" using lt by (subst cont_loop.simps) simp
    then show ?thesis using False less.prems(3) by auto
  next
    case i: True
    show ?thesis
    proof (cases "r = unat cnt")
      case True
      then have "cont_loop bm bs cnt (2 ^ k) (word_of_nat i) c = Some (word_of_nat i, r)" using lt i by (subst cont_loop.simps) (simp add: Let_def r_def)
      then show ?thesis using True i less.prems(2) run(2) by auto
    next
      case False
      then have r: "r < unat cnt" "bm_used bm (i + r)" using run by auto
      obtain m where m: "ROUND_UP (bs + word_of_nat (i + r + 1)) (2 ^ k) - bs = (word_of_nat m :: u32)" "i + r + 1 \<le> m" "2 ^ k dvd unat bs + m"
        "m < i + r + 1 + 2 ^ k" "\<And>j. i + r + 1 \<le> j \<Longrightarrow> 2 ^ k dvd unat bs + j \<Longrightarrow> m \<le> j"
        by (rule next_aligned [of bs "i + r + 1" k]) (use assms(1,4) i r(1) in auto)
      have step: "cont_loop bm bs cnt (2 ^ k) (word_of_nat i) c = cont_loop bm bs cnt (2 ^ k) (word_of_nat m) r"
        using m(1) False lt i by (subst cont_loop.simps) (simp add: Let_def r_def ac_simps)
      have skip: "\<exists>j<unat cnt. bm_used bm (n + j)" if "i \<le> n" "n < m" "2 ^ k dvd unat bs + n" for n
      proof -
        have "n \<le> i + r" using m(5) [OF _ that(3)] that(2) by fastforce
        then show ?thesis using r that(1) by (intro exI [of _ "i + r - n"]) auto
      qed
      have "512 - m < 512 - i" "m < 512 + unat cnt + 2 ^ k" using m(2,4) i r(1) by linarith+
      then obtain m' d where IH: "cont_loop bm bs cnt (2 ^ k) (word_of_nat m) r = Some (word_of_nat m', d)"
        "if d = unat cnt
       then m \<le> m' \<and> m' < 512 \<and> 2 ^ k dvd unat bs + m' \<and> (\<forall>j<unat cnt. \<not> bm_used bm (m' + j))
         \<and> (\<forall>n. m \<le> n \<and> n < m' \<and> 2 ^ k dvd unat bs + n \<longrightarrow> (\<exists>j<unat cnt. bm_used bm (n + j)))
       else \<forall>n. m \<le> n \<and> n < 512 \<and> 2 ^ k dvd unat bs + n \<longrightarrow> (\<exists>j<unat cnt. bm_used bm (n + j))"
        using less.hyps [of m r] m(3) False by blast
      show ?thesis
      proof (intro exI conjI)
        show "cont_loop bm bs cnt (2 ^ k) (word_of_nat i) c = Some (word_of_nat m', d)" using step IH(1) by simp
        show "if d = unat cnt
       then i \<le> m' \<and> m' < 512 \<and> 2 ^ k dvd unat bs + m' \<and> (\<forall>j<unat cnt. \<not> bm_used bm (m' + j))
         \<and> (\<forall>n. i \<le> n \<and> n < m' \<and> 2 ^ k dvd unat bs + n \<longrightarrow> (\<exists>j<unat cnt. bm_used bm (n + j)))
       else \<forall>n. i \<le> n \<and> n < 512 \<and> 2 ^ k dvd unat bs + n \<longrightarrow> (\<exists>j<unat cnt. bm_used bm (n + j))"
          using IH(2) skip m(2) by (auto split: if_splits simp: not_le) (metis leI)+
      qed
    qed
  qed
qed


lemma range_start:
  assumes "m < 0x100000"
  shows "(word_of_nat m * PAGE_SIZE :: u32) AND NOT (PAGE_SIZE - 1) = word_of_nat m * PAGE_SIZE"
proof -
  have "unat ((word_of_nat m * PAGE_SIZE :: u32) AND NOT (PAGE_SIZE - 1)) = unat (word_of_nat m * PAGE_SIZE :: u32)"
    using unat_ROUND_PAGE_DN [of "word_of_nat m * PAGE_SIZE"] frame_addr(1) [OF assms] by (simp add: ROUND_PAGE_DN_def ROUND_DN_def)
  then show ?thesis by (simp add: word_eq_unat)
qed

text \<open>The frames of a range, as positions in the bitmap.\<close>

definition took :: "nat \<Rightarrow> size_t \<Rightarrow> physmem \<Rightarrow> nat \<Rightarrow> physmem \<Rightarrow> bool" where
  "took k cnt s i s' \<longleftrightarrow> i < 512 \<and> 2 ^ k dvd unat (bitmapStartFrame s) + i \<and> (\<forall>j<unat cnt. \<not> bm_used (bitmap s) (i + j))
     \<and> (\<forall>j. bm_used (bitmap s') j \<longleftrightarrow> bm_used (bitmap s) j \<or> (i \<le> j \<and> j < i + unat cnt \<and> j < 512))
     \<and> s' = s\<lparr>bitmap := bitmap s', freeCont := freeCont s - word_of_nat (min (unat cnt) (512 - i))\<rparr>"

lemma allocateContiguous_spec:
  assumes "unat (bitmapStartFrame s) + 512 + unat cnt \<le> 0x80000" "k \<le> 20" "0 < cnt"
  shows "PhysMem_allocateContiguous cnt (2 ^ k) s = Some (None, s)
      \<and> (\<forall>i<512. 2 ^ k dvd unat (bitmapStartFrame s) + i \<longrightarrow> (\<exists>j<unat cnt. bm_used (bitmap s) (i + j)))
    \<or> (\<exists>i s'. PhysMem_allocateContiguous cnt (2 ^ k) s = Some (Some (bitmapStartFrame s + word_of_nat i), s') \<and> took k cnt s i s')"
proof -
  define bs where "bs = bitmapStartFrame s"
  have "2 ^ k \<le> (2 ^ 20 :: nat)" using assms(2) by (intro power_increasing) auto
  then have b: "unat bs + 512 + 2 ^ k + unat cnt < 0x80000000" "k < 31" "k < 32" "unat bs + 0 + 2 ^ k \<le> 2 ^ 32"
    using assms(1,2) by (simp_all add: bs_def)
  obtain i0 where i0: "ROUND_UP (bs + word_of_nat 0) (2 ^ k) - bs = (word_of_nat i0 :: u32)" "2 ^ k dvd unat bs + i0" "i0 < 0 + 2 ^ k"
    "\<And>j. 0 \<le> j \<Longrightarrow> 2 ^ k dvd unat bs + j \<Longrightarrow> i0 \<le> j"
    using next_aligned [OF b(4,3)] by metis
  have z: "0 \<noteq> unat cnt" using assms(3) by (simp add: word_gt_0 unat_eq_zero [symmetric])
  obtain m d where m: "cont_loop (bitmap s) bs cnt (2 ^ k) (ROUND_UP bs (2 ^ k) - bs) 0 = Some (word_of_nat m, d)"
    "if d = unat cnt
     then i0 \<le> m \<and> m < 512 \<and> 2 ^ k dvd unat bs + m \<and> (\<forall>j<unat cnt. \<not> bm_used (bitmap s) (m + j))
       \<and> (\<forall>n. i0 \<le> n \<and> n < m \<and> 2 ^ k dvd unat bs + n \<longrightarrow> (\<exists>j<unat cnt. bm_used (bitmap s) (n + j)))
     else \<forall>n. i0 \<le> n \<and> n < 512 \<and> 2 ^ k dvd unat bs + n \<longrightarrow> (\<exists>j<unat cnt. bm_used (bitmap s) (n + j))"
    using cont_loop_spec [OF b(1) _ i0(2) b(2) z, of "bitmap s"] i0(1,3) by auto
  show ?thesis
  proof (cases "d = unat cnt")
    case False
    then have "PhysMem_allocateContiguous cnt (2 ^ k) s = Some (None, s)" using m(1) by (simp add: PhysMem_allocateContiguous_def bs_def)
    then show ?thesis using m(2) False i0(4) by (auto simp: bs_def)
  next
    case True
    note mm = m(2) [unfolded if_P [OF True]]
    have w: "bitmapStartFrame s + word_of_nat n = word_of_nat (unat bs + n)" for n by (simp add: bs_def)
    obtain s' where s': "markRange_loop ((bitmapStartFrame s + word_of_nat m) * PAGE_SIZE) ((bitmapStartFrame s + word_of_nat (m + unat cnt)) * PAGE_SIZE) True s = Some s'"
      "s' = s\<lparr>bitmap := bitmap s', freeCont := freeCont s'\<rparr>" "freeCont s' = freeCont s - word_of_nat (min (unat cnt) (512 - m))"
      "\<forall>j. bm_used (bitmap s') j \<longleftrightarrow> (if m \<le> j \<and> j < m + unat cnt \<and> j < 512 then True else bm_used (bitmap s) j)"
      using markRange_cont [of s m "unat cnt" True] assms(1) mm by (auto simp: bs_def)
    have "PhysMem_doMarkRangeUsed ((bitmapStartFrame s + word_of_nat m) * PAGE_SIZE) ((bitmapStartFrame s + word_of_nat m + cnt) * PAGE_SIZE) True s = Some s'"
      using s'(1) range_start [of "unat bs + m"] assms(1) mm unfolding PhysMem_doMarkRangeUsed_def w by (simp add: add.assoc bs_def)
    then have "PhysMem_allocateContiguous cnt (2 ^ k) s = Some (Some (bitmapStartFrame s + word_of_nat m), s')"
      using m(1) True by (simp add: PhysMem_allocateContiguous_def bs_def add.commute)
    moreover have "s' = s\<lparr>bitmap := bitmap s', freeCont := freeCont s - word_of_nat (min (unat cnt) (512 - m))\<rparr>" using s'(2,3) by metis
    moreover have "\<forall>j. bm_used (bitmap s') j \<longleftrightarrow> bm_used (bitmap s) j \<or> (m \<le> j \<and> j < m + unat cnt \<and> j < 512)" using s'(4) by auto
    ultimately have "took k cnt s m s'" using mm unfolding took_def bs_def by blast
    then show ?thesis using \<open>PhysMem_allocateContiguous cnt (2 ^ k) s = _\<close> by blast
  qed
qed

section \<open>Properties\<close>

text \<open>A small machine for the examples: the bitmap is at the beginning of the memory, and eight frames are behind it.\<close>

definition pm_small :: physmem where
  "pm_small = \<lparr>bitmap = (\<lambda>i. if i < 15 then - 1 else if i = 15 then 0xFFFFFFFE else 0), bitmapStart = 0, freeCont = 1,
     lower = \<lparr>sf_pages = 1, sf_frames = [512, 513, 514, 515, 516, 517, 518, 519]\<rparr>, upper = \<lparr>sf_pages = 0, sf_frames = []\<rparr>,
     initialized = True, cframes = 2, kframes = 1, uframes = 0, totalMem = 0, mem_areas = \<lparr>pa_count = 0, pa_list = []\<rparr>\<rparr>"

lemma pm_small_inv: "pm_inv (sf_frames (lower pm_small)) pm_small []"
  by (simp add: pm_inv_def pm_small_def managed_def bitmapStartFrame_def lowerEnd_val)

lemma pm_small_start: "bitmapStartFrame pm_small = 0"
  by (simp add: bitmapStartFrame_def pm_small_def)

lemma pm_small_used: "bm_used (bitmap pm_small) j \<longleftrightarrow> j < 511"
proof -
  define q r where "q = j div 32" and "r = j mod 32"
  have j: "j = 32 * q + r" "r < 32" by (simp_all add: q_def r_def)
  have e: "bit (0xFFFFFFFE :: u32) (31 - r) \<longleftrightarrow> r \<noteq> 31"
  proof -
    have "(0xFFFFFFFE :: u32) = NOT 1" by simp
    then have "bit (0xFFFFFFFE :: u32) (31 - r) \<longleftrightarrow> 31 - r \<noteq> 0" by (simp only: bit_not_iff) (auto simp: bit_1_iff)
    then show ?thesis using j(2) by linarith
  qed
  have "bm_used (bitmap pm_small) j \<longleftrightarrow> bit (if q < 15 then - 1 else if q = 15 then 0xFFFFFFFE else 0 :: u32) (31 - r)"
    by (simp only: bm_used_bit pm_small_def physmem.simps q_def r_def)
  also have "\<dots> \<longleftrightarrow> q < 15 \<or> q = 15 \<and> r \<noteq> 31" using e by (auto split: if_splits)
  also have "\<dots> \<longleftrightarrow> j < 511" using j by linarith
  finally show ?thesis .
qed

lemma pm_small_alloc:
  assumes "0 < cnt" "unat cnt \<le> 1000"
  shows "\<exists>s'. PhysMem_allocateContiguous cnt 1 pm_small = Some (Some 511, s') \<and> took 0 cnt pm_small 511 s'"
proof -
  have "unat (bitmapStartFrame pm_small) + 512 + unat cnt \<le> 0x80000" using assms(2) by (simp add: pm_small_start)
  from allocateContiguous_spec [OF this zero_le assms(1)] show ?thesis
  proof (elim disjE exE conjE)
    assume "\<forall>i<512. 2 ^ 0 dvd unat (bitmapStartFrame pm_small) + i \<longrightarrow> (\<exists>j<unat cnt. bm_used (bitmap pm_small) (i + j))"
    from this [rule_format, of 511] show ?thesis by (simp add: pm_small_used)
  next
    fix i s'
    assume a: "PhysMem_allocateContiguous cnt (2 ^ 0) pm_small = Some (Some (bitmapStartFrame pm_small + word_of_nat i), s')" "took 0 cnt pm_small i s'"
    then have "i < 512" "\<forall>j<unat cnt. \<not> i + j < 511" unfolding took_def pm_small_used by blast+
    moreover have "0 < unat cnt" using assms(1) by (simp add: word_less_unat)
    ultimately have "i < 512" "\<not> i + 0 < 511" by blast+
    then have "i = 511" by simp
    then show ?thesis using a by (simp add: pm_small_start)
  qed
qed







text \<open>C33: \<^verbatim>\<open>freeContiguous\<close> undoes \<^verbatim>\<open>allocateContiguous\<close>, if the range is inside of the bitmap: exactly the same frames are
  free as before, and they are as many; nothing else is changed by the two calls.\<close>

theorem PhysMem_contiguous_roundtrip:
  assumes "unat (bitmapStartFrame s) + 512 + unat cnt \<le> 0x80000" "k \<le> 20" "0 < cnt"
    "PhysMem_allocateContiguous cnt (2 ^ k) s = Some (Some f, s')" "unat f + unat cnt \<le> unat (bitmapStartFrame s) + 512"
  shows "\<exists>s''. PhysMem_freeContiguous f cnt s' = Some s'' \<and> (\<forall>j. bm_used (bitmap s'') j \<longleftrightarrow> bm_used (bitmap s) j)
    \<and> s'' = s\<lparr>bitmap := bitmap s''\<rparr>"
proof -
  define bs where "bs = bitmapStartFrame s"
  obtain i where i: "i < 512" "f = bs + word_of_nat i" "\<forall>j<unat cnt. \<not> bm_used (bitmap s) (i + j)"
    "\<forall>j. bm_used (bitmap s') j \<longleftrightarrow> bm_used (bitmap s) j \<or> (i \<le> j \<and> j < i + unat cnt \<and> j < 512)"
    "s' = s\<lparr>bitmap := bitmap s', freeCont := freeCont s - word_of_nat (min (unat cnt) (512 - i))\<rparr>"
    using allocateContiguous_spec [OF assms(1-3)] assms(4) unfolding took_def bs_def by (metis option.distinct(1) option.inject prod.inject)
  have f: "unat f = unat bs + i" using i(1,2) assms(1) by (simp add: unat_plus_nowrap unat_of_nat_u32 bs_def)
  then have le: "i + unat cnt \<le> 512" using assms(5) by (simp add: bs_def)
  have bs': "bitmapStartFrame s' = bs" by (subst i(5)) (simp add: bitmapStartFrame_def bs_def)
  obtain t where t: "markRange_loop ((bs + word_of_nat i) * PAGE_SIZE) ((bs + word_of_nat (i + unat cnt)) * PAGE_SIZE) False s' = Some t"
    "t = s'\<lparr>bitmap := bitmap t, freeCont := freeCont t\<rparr>" "freeCont t = freeCont s' + cnt"
    "\<forall>j. bm_used (bitmap t) j \<longleftrightarrow> (if i \<le> j \<and> j < i + unat cnt \<and> j < 512 then False else bm_used (bitmap s') j)"
    using markRange_cont [of s' i "unat cnt" False] assms(1) le unfolding bs' by (auto simp: bs_def)
  have "PhysMem_freeContiguous f cnt s' = Some t"
    using t(1) range_start [of "unat bs + i"] assms(1) i(1,2) unfolding PhysMem_freeContiguous_def PhysMem_doMarkRangeUsed_def by (simp add: bs_def add.assoc)
  moreover have "bm_used (bitmap t) j \<longleftrightarrow> bm_used (bitmap s) j" for j
  proof (cases "i \<le> j \<and> j < i + unat cnt")
    case True
    then have "\<not> bm_used (bitmap s) (i + (j - i))" using i(3) by (metis add_less_cancel_left le_add_diff_inverse)
    then show ?thesis using True t(4) le by auto
  qed (use t(4) i(4) in auto)
  moreover have "freeCont t = freeCont s" 
  proof -
    have "min (unat cnt) (512 - i) = unat cnt" using le by simp
    then show ?thesis using t(3) by (subst (asm) i(5)) simp
  qed
  then have "t = s\<lparr>bitmap := bitmap t\<rparr>" using t(2) by (subst t(2), subst i(5)) (simp)
  ultimately show ?thesis by blast
qed


theorem PhysMem_contiguous_roundtrip_witness:
  "\<exists>s' s''. PhysMem_allocateContiguous 1 (2 ^ 0) pm_small = Some (Some 511, s') \<and> PhysMem_freeContiguous 511 1 s' = Some s''
    \<and> (\<forall>j. bm_used (bitmap s'') j \<longleftrightarrow> bm_used (bitmap pm_small) j)"
proof -
  obtain s' where a: "PhysMem_allocateContiguous 1 (2 ^ 0) pm_small = Some (Some 511, s')"
    using pm_small_alloc [of 1] by auto
  have b: "unat (bitmapStartFrame pm_small) + 512 + unat (1 :: size_t) \<le> 0x80000" "(0 :: nat) \<le> 20" "0 < (1 :: size_t)"
    "unat (511 :: frameno_t) + unat (1 :: size_t) \<le> unat (bitmapStartFrame pm_small) + 512"
    by (simp_all add: pm_small_start)
  show ?thesis using PhysMem_contiguous_roundtrip [OF b(1-3) a b(4)] a by blast
qed

section \<open>Where the frames are shared or lost\<close>

text \<open>The search reads the words behind the bitmap as if they belonged to it. If the last frame of the bitmap is free and the next word is 0, a range of
  two frames is found whose second frame is on the stack as well, and the next allocation hands it out a second time.\<close>

lemma contiguous_behind_bitmap:
  "\<exists>s' s''. PhysMem_allocateContiguous 2 1 pm_small = Some (Some 511, s') \<and> PhysMem_allocate CRIT s' = Some (512, s'')"
proof -
  obtain s' where a: "PhysMem_allocateContiguous 2 1 pm_small = Some (Some 511, s')" "took 0 2 pm_small 511 s'"
    using pm_small_alloc [of 2] by auto
  obtain bm c where s': "s' = pm_small\<lparr>bitmap := bm, freeCont := c\<rparr>" using a(2) unfolding took_def by blast
  have "\<exists>s''. PhysMem_allocate CRIT s' = Some (512, s'')"
    unfolding s' by (simp add: PhysMem_allocate_def PhysMem_allocFrame_def pop_frame_def depth_def pm_small_def word_le_unat)
  then show ?thesis using a(1) by auto
qed

text \<open>With memory above \<^const>\<open>lowerEnd\<close> the frames kept back for the kernel need not be below it. A kernel frame is then taken from an
  empty stack.\<close>

lemma kern_underflow:
  "PhysMem_allocate KERN (pm_small\<lparr>lower := \<lparr>sf_pages = 1, sf_frames = []\<rparr>, upper := \<lparr>sf_pages = 1, sf_frames = [0x30000, 0x30001]\<rparr>, kframes := 0\<rparr>) = None"
  by (simp add: PhysMem_allocate_def PhysMem_allocFrame_def pop_frame_def pm_small_def depth_def KERNEL_MEM_PERCENT_def)

text \<open>The test after a wait for the swapper subtracts the frames of the kernel from the free frames; if there are fewer free frames than that, the result wraps around
  and any reservation is granted.\<close>

lemma reserve_again_wraps:
  "PhysMem_reserve_again 0x1000 (pm_small\<lparr>lower := \<lparr>sf_pages = 1, sf_frames = [512]\<rparr>\<rparr>) = Reserved"
  by (simp add: PhysMem_reserve_again_def PhysMem_getFreeDef_def pm_small_def depth_def)
end
