(* ===== verification/PhysMem_Init.thy ===== *)
theory PhysMem_Init
  imports PhysMem
begin

text \<open>
  The start of the memory management: \<^verbatim>\<open>PhysMem::init\<close> (\<^verbatim>\<open>kernel/src/mem/physmem.cc\<close>) builds the stack of free frames from
  the areas that \<^verbatim>\<open>PhysMemAreas\<close> (\<^verbatim>\<open>physmemareas.cc\<close>) has collected. The state it leaves satisfies the
  invariant that the operations of \<^verbatim>\<open>PhysMem\<close> keep.
\<close>

section \<open>The page frames of areas\<close>

definition page_set :: "mem_area list \<Rightarrow> nat set" where
  "page_set as = {f. f * 4096 \<in> free_mem as}"

definition first_page :: "mem_area \<Rightarrow> nat" where "first_page a = unat (ma_addr a) div 4096"
definition num_pages :: "mem_area \<Rightarrow> nat" where "num_pages a = unat (ma_size a) div 4096"

lemma area_pages:
  assumes "area_ok a"
  shows "unat (ma_addr a) = first_page a * 4096" "unat (ma_size a) = num_pages a * 4096" "first_page a + num_pages a < 0x100000"
proof -
  show p: "unat (ma_addr a) = first_page a * 4096" "unat (ma_size a) = num_pages a * 4096"
    using assms by (auto simp: area_ok_def first_page_def num_pages_def)
  show "first_page a + num_pages a < 0x100000" using assms by (simp add: area_ok_def p)
qed

lemma cells_pages: "area_ok a \<Longrightarrow> {f. f * 4096 \<in> cells a} = {first_page a..<first_page a + num_pages a}"
  using area_pages [of a] by (auto simp: cells_def)

lemma page_set_simps:
  "page_set [] = {}" "area_ok a \<Longrightarrow> page_set (a # as) = {first_page a..<first_page a + num_pages a} \<union> page_set as"
proof -
  show "page_set [] = {}" by (simp add: page_set_def)
  show "page_set (a # as) = {first_page a..<first_page a + num_pages a} \<union> page_set as" if "area_ok a"
    unfolding cells_pages [OF that, symmetric] page_set_def by auto
qed

lemma page_set_card:
  assumes "\<forall>a\<in>set as. area_ok a" "apart as"
  shows "finite (page_set as) \<and> card (page_set as) = sum_list (map num_pages as)"
  using assms
proof (induction as)
  case (Cons a as)
  have ok: "area_ok a" using Cons.prems(1) by simp
  have "{first_page a..<first_page a + num_pages a} \<inter> page_set as = {}"
    unfolding cells_pages [OF ok, symmetric] using Cons.prems(2) by (auto simp: apart_Cons page_set_def)
  moreover have "finite (page_set as)" "card (page_set as) = sum_list (map num_pages as)" using Cons by (auto simp: apart_Cons)
  ultimately show ?case by (simp add: page_set_simps(2) [OF ok] card_Un_disjoint)
qed (simp add: page_set_simps)

lemma page_set_mem: "\<forall>a\<in>set as. area_ok a \<Longrightarrow> page_set as = (\<Union>a\<in>set as. {first_page a..<first_page a + num_pages a})"
  by (induction as) (simp_all add: page_set_simps)

text \<open>Removing a range never leaves an empty area.\<close>

lemma rem_one_pos:
  assumes "area_ok a" "unat e mod 4096 = 0" "ma_size a \<noteq> 0" "rem_one addr e a = (ks, ns)"
  shows "\<forall>b\<in>set (ks @ ns). ma_size b \<noteq> 0"
proof -
  have "addr - ma_addr a \<noteq> 0" if "unat (ma_addr a) < unat addr" using that by auto
  moreover have "ma_addr a + ma_size a - e \<noteq> 0" if "unat e < unat (ma_addr a) + unat (ma_size a)" using that area_end [OF assms(1)] by auto
  ultimately show ?thesis using assms(3,4) unfolding rem_one_nat [OF assms(1,2)] Let_def by (auto split: if_splits)
qed

lemma rem_loop_pos:
  assumes "unat addr \<le> unat e" "unat addr mod 4096 = 0" "unat e mod 4096 = 0"
    "\<forall>x\<in>set (dn @ as). area_ok x \<and> ma_size x \<noteq> 0" "PhysMemAreas_rem_loop addr e cnt dn as = Some (c, l)"
  shows "\<forall>x\<in>set l. ma_size x \<noteq> 0"
  using assms(4,5)
proof (induction "length as + splits addr e as" arbitrary: cnt dn as rule: less_induct)
  case less
  show ?case
  proof (cases as)
    case Nil
    then show ?thesis using less.prems by auto
  next
    case (Cons a bs)
    obtain ks ns where r: "rem_one addr e a = (ks, ns)" by force
    have a: "area_ok a" "ma_size a \<noteq> 0" using less.prems(1) Cons by auto
    note one = rem_one_cells [OF a(1) assms(1-3) r]
    have "splits addr e ns = 0" using one(6) by (auto simp: splits_def filter_empty_conv)
    then have "splits addr e (bs @ ns) = splits addr e bs" by (simp add: splits_def)
    moreover have "splits addr e (a # bs) = length ns + splits addr e bs" using one(5) r by (cases ns) (auto simp: splits_def)
    ultimately have small: "length (bs @ ns) + splits addr e (bs @ ns) < length as + splits addr e as" using one(5) Cons by simp
    have "\<forall>x\<in>set ((ks @ dn) @ bs @ ns). area_ok x \<and> ma_size x \<noteq> 0"
      using less.prems(1) Cons one(2) rem_one_pos [OF a(1) assms(3) a(2) r] by auto
    moreover have "PhysMemAreas_rem_loop addr e (cnt + length ns) (ks @ dn) (bs @ ns) = Some (c, l)"
      using less.prems(2) r unfolding Cons rem_loop_one by (auto split: if_splits)
    ultimately show ?thesis by (rule less.hyps [OF small])
  qed
qed

definition areas_inv :: "pmareas \<Rightarrow> bool" where
  "areas_inv a \<longleftrightarrow> pma_inv a \<and> (\<forall>x\<in>set (pa_list a). ma_size x \<noteq> 0)"

lemma rem_pos:
  assumes "areas_inv s" "unat addr \<le> unat e" "unat e + 4095 < 2 ^ 32" "PhysMemAreas_rem addr e s = Some s'"
  shows "\<forall>x\<in>set (pa_list s'). ma_size x \<noteq> 0"
proof -
  have u: "unat (ROUND_PAGE_DN addr) = unat addr div 4096 * 4096" "unat (ROUND_PAGE_UP e) = (unat e + 4095) div 4096 * 4096"
    by (rule unat_ROUND_PAGE_DN, rule unat_ROUND_PAGE_UP [OF assms(3)])
  have "unat addr div 4096 * 4096 \<le> (unat e + 4095) div 4096 * 4096" using assms(2) by (intro mult_le_mono1 div_le_mono) simp
  moreover obtain c where "PhysMemAreas_rem_loop (ROUND_PAGE_DN addr) (ROUND_PAGE_UP e) (pa_count s) [] (pa_list s) = Some (c, pa_list s')"
    using assms(4) by (auto simp: PhysMemAreas_rem_def split: Option.bind_splits)
  ultimately show ?thesis using assms(1) by (intro rem_loop_pos [of "ROUND_PAGE_DN addr" "ROUND_PAGE_UP e" "[]" "pa_list s"]) (auto simp: u areas_inv_def pma_inv_def)
qed

text \<open>The start of an area.\<close>

lemma rem_front:
  assumes "areas_inv s" "a \<in> set (pa_list s)" "0 < n" "n \<le> num_pages a" "unat d = n * 4096"
  shows "\<exists>s'. PhysMemAreas_rem (ma_addr a) (ma_addr a + d) s = Some s' \<and> areas_inv s'
    \<and> page_set (pa_list s') = page_set (pa_list s) - {first_page a..<first_page a + n}"
proof -
  have inv: "pma_inv s" "area_ok a" "\<forall>x\<in>set (pa_list s). area_ok x" "apart (pa_list s)" "pa_count s \<le> MAX_PHYSMEM_AREAS"
    using assms(1,2) by (auto simp: areas_inv_def pma_inv_def)
  note p = area_pages [OF inv(2)]
  have e: "unat (ma_addr a + d) = (first_page a + n) * 4096" using p assms(4,5) by (subst unat_plus_nowrap) auto
  have le: "unat (ma_addr a) \<le> unat (ma_addr a + d)" "unat (ma_addr a + d) + 4095 < 2 ^ 32" using p assms(4) unfolding e by auto
  have al: "unat (ma_addr a + d) mod 4096 = 0" "unat (ma_addr a) mod 4096 = 0" unfolding e p(1) by simp_all
  have r: "ROUND_PAGE_DN (ma_addr a) = ma_addr a" "ROUND_PAGE_UP (ma_addr a + d) = ma_addr a + d"
    using round_dn_aligned [OF al(2)] round_up_aligned [OF al(1)] by auto
  have "splits (ma_addr a) (ma_addr a + d) (pa_list s) = 0"
    using inv assms(2-4) le al p(2) by (intro splits_at_begin) auto
  then obtain s' where s': "PhysMemAreas_rem (ma_addr a) (ma_addr a + d) s = Some s'" "pma_inv s'"
    "free_mem (pa_list s') = free_mem (pa_list s) - {unat (ma_addr a) div 4096 * 4096..<(unat (ma_addr a + d) + 4095) div 4096 * 4096}"
    using rem_spec [OF inv(1) le] r inv(5) by auto
  have "unat (ma_addr a) div 4096 * 4096 = first_page a * 4096" "(unat (ma_addr a + d) + 4095) div 4096 * 4096 = (first_page a + n) * 4096"
    unfolding e p(1) by (simp, rule round_up_mult)
  then have f: "free_mem (pa_list s') = free_mem (pa_list s) - {first_page a * 4096..<(first_page a + n) * 4096}" using s'(3) by metis
  have "x * 4096 \<in> {first_page a * 4096..<(first_page a + n) * 4096} \<longleftrightarrow> x \<in> {first_page a..<first_page a + n}" for x
    unfolding atLeastLessThan_iff by (metis mult_le_cancel2 mult_less_cancel2 zero_less_numeral)
  then have "page_set (pa_list s') = page_set (pa_list s) - {first_page a..<first_page a + n}" unfolding page_set_def f by blast
  then show ?thesis using s'(1,2) rem_pos [OF assms(1) le s'(1)] by (auto simp: areas_inv_def)
qed

text \<open>Taking pages for the stack and the bitmap.\<close>

lemma alloc_page:
  assumes "areas_inv a" "pa_list a \<noteq> []"
  shows "\<exists>f a'. PhysMemAreas_alloc 1 a = Some (f, a') \<and> f \<noteq> INVALID_FRAME \<and> areas_inv a' \<and> unat f \<in> page_set (pa_list a)
    \<and> page_set (pa_list a') = page_set (pa_list a) - {unat f}"
proof -
  obtain b bs where l: "pa_list a = b # bs" using assms(2) by (cases "pa_list a") auto
  have ok: "area_ok b" and sz: "ma_size b \<noteq> 0" using assms(1) l by (auto simp: areas_inv_def pma_inv_def)
  note p = area_pages [OF ok]
  have n: "0 < num_pages b" using p(2) sz by (cases "num_pages b") (auto simp: unat_eq_zero [symmetric])
  have "find (\<lambda>a. ma_size a \<ge> 1 * PAGE_SIZE) (pa_list a) = Some b" using p(2) n l by (simp add: word_le_unat PAGE_SIZE_def)
  moreover obtain a' where a': "PhysMemAreas_rem (ma_addr b) (ma_addr b + PAGE_SIZE) a = Some a'" "areas_inv a'"
      "page_set (pa_list a') = page_set (pa_list a) - {first_page b..<first_page b + 1}"
    using rem_front [OF assms(1), of b 1 PAGE_SIZE] n l by (auto simp: PAGE_SIZE_def)
  ultimately have "PhysMemAreas_alloc 1 a = Some (ma_addr b div PAGE_SIZE, a')" by (simp add: PhysMemAreas_alloc_def)
  moreover have f: "unat (ma_addr b div PAGE_SIZE) = first_page b" by (simp add: unat_div PAGE_SIZE_def first_page_def)
  then have "unat (ma_addr b div PAGE_SIZE) < 0x100000" using p(3) by simp
  then have "ma_addr b div PAGE_SIZE \<noteq> INVALID_FRAME" by (auto simp: INVALID_FRAME_def unsigned_minus_1_eq_mask mask_eq_exp_minus_1)
  moreover have "first_page b \<in> page_set (pa_list a)" using n unfolding l page_set_simps(2) [OF ok] by simp
  ultimately show ?thesis using a'(2,3) f by simp
qed

lemma makeAccessible_spec:
  assumes "areas_inv a" "n \<le> card (page_set (pa_list a))"
  shows "\<exists>a'. makeAccessible n a = Some a' \<and> areas_inv a' \<and> page_set (pa_list a') \<subseteq> page_set (pa_list a)
    \<and> card (page_set (pa_list a')) = card (page_set (pa_list a)) - n"
  using assms
proof (induction n arbitrary: a)
  case (Suc n)
  have fin: "finite (page_set (pa_list a))" using page_set_card [of "pa_list a"] Suc.prems(1) by (simp add: areas_inv_def pma_inv_def)
  have "pa_list a \<noteq> []" using Suc.prems(2) by (auto simp: page_set_simps)
  then obtain f b where b: "PhysMemAreas_alloc 1 a = Some (f, b)" "f \<noteq> INVALID_FRAME" "areas_inv b" "unat f \<in> page_set (pa_list a)"
    "page_set (pa_list b) = page_set (pa_list a) - {unat f}"
    using alloc_page [OF Suc.prems(1)] by blast
  have c: "card (page_set (pa_list b)) = card (page_set (pa_list a)) - 1" using fin b(4,5) by simp
  then have "n \<le> card (page_set (pa_list b))" using Suc.prems(2) by simp
  from Suc.IH [OF b(3) this] obtain a' where "makeAccessible n b = Some a'" "areas_inv a'" "page_set (pa_list a') \<subseteq> page_set (pa_list b)"
    "card (page_set (pa_list a')) = card (page_set (pa_list b)) - n"
    by blast
  then show ?case using b c by auto
qed simp

section \<open>Filling the stack\<close>

lemma markUsed_push:
  assumes "unat (bitmapStartFrame s) + 512 \<le> m" "m * 4096 < 0x2E000000" "unat (sf_pages (lower s)) \<le> 1024"
    "length (sf_frames (lower s)) < unat (sf_pages (lower s)) * 1024"
  shows "PhysMem_markUsed (word_of_nat m) False s = Some (s\<lparr>lower := (lower s)\<lparr>sf_frames := word_of_nat m # sf_frames (lower s)\<rparr>\<rparr>)"
proof -
  have m: "unat (word_of_nat m :: u32) = m" using assms(2) by (intro unat_of_nat_u32) simp
  then have g: "\<not> word_of_nat m < bitmapStartFrame s" "\<not> word_of_nat m < bitmapStartFrame s + BITMAP_PAGE_COUNT"
    using assms(1,2) by (simp_all add: word_less_unat unat_plus_nowrap BITMAP_PAGE_COUNT_def)
  have "unat (word_of_nat m * PAGE_SIZE :: u32) = m * 4096" using assms(2) by (intro frame_addr(1)) simp
  then have w: "word_of_nat m * PAGE_SIZE < lowerEnd" using assms(2) by (simp add: word_less_unat lowerEnd_val)
  have "unat (sf_pages (lower s) * PAGE_SIZE) = unat (sf_pages (lower s)) * 4096" using assms(3) by (simp add: unat_word_ariths PAGE_SIZE_def)
  moreover have "unat (depth (lower s)) = length (sf_frames (lower s))" unfolding depth_def using assms(3,4) by (intro unat_of_nat_u32) simp
  ultimately have "\<not> depth (lower s) \<ge> sf_pages (lower s) * PAGE_SIZE" using assms(4) by (simp add: word_le_unat)
  then have "push_frame (word_of_nat m) (lower s) = Some ((lower s)\<lparr>sf_frames := word_of_nat m # sf_frames (lower s)\<rparr>)"
    using assms(4) by (simp add: push_frame_def)
  then show ?thesis using g w by (simp add: PhysMem_markUsed_def PhysMem_freeFrame_def)
qed

lemma markRange_step:
  assumes "m + Suc n < 0x100000"
  shows "markRange_loop (word_of_nat m * PAGE_SIZE) (word_of_nat (m + Suc n) * PAGE_SIZE) used s =
    do { s \<leftarrow> PhysMem_markUsed (word_of_nat m) used s; markRange_loop (word_of_nat (Suc m) * PAGE_SIZE) (word_of_nat (Suc m + n) * PAGE_SIZE) used s }"
    "markRange_loop x x used s = Some s"
proof -
  have "word_of_nat m * PAGE_SIZE < (word_of_nat (m + Suc n) * PAGE_SIZE :: u32)"
    using frame_addr(1) [of m] frame_addr(1) [of "m + Suc n"] assms by (simp add: word_less_unat del: of_nat_Suc of_nat_add)
  then show "markRange_loop (word_of_nat m * PAGE_SIZE) (word_of_nat (m + Suc n) * PAGE_SIZE) used s =
    do { s \<leftarrow> PhysMem_markUsed (word_of_nat m) used s; markRange_loop (word_of_nat (Suc m) * PAGE_SIZE) (word_of_nat (Suc m + n) * PAGE_SIZE) used s }"
    using frame_addr(2,3) [of m] assms by (subst markRange_loop.simps) (simp del: of_nat_Suc of_nat_add)
qed (subst markRange_loop.simps, simp)

lemma markRange_push:
  assumes "unat (bitmapStartFrame s) + 512 \<le> m" "(m + n) * 4096 \<le> 0x2E000000" "unat (sf_pages (lower s)) \<le> 1024"
    "length (sf_frames (lower s)) + n \<le> unat (sf_pages (lower s)) * 1024"
  shows "markRange_loop (word_of_nat m * PAGE_SIZE) (word_of_nat (m + n) * PAGE_SIZE) False s =
    Some (s\<lparr>lower := (lower s)\<lparr>sf_frames := rev (map word_of_nat [m..<m + n]) @ sf_frames (lower s)\<rparr>\<rparr>)"
  using assms
proof (induction n arbitrary: m s)
  case 0
  then show ?case by (simp add: markRange_step(2) [of 0 0])
next
  case (Suc n)
  let ?t = "s\<lparr>lower := (lower s)\<lparr>sf_frames := word_of_nat m # sf_frames (lower s)\<rparr>\<rparr>"
  have "markRange_loop (word_of_nat (Suc m) * PAGE_SIZE) (word_of_nat (Suc m + n) * PAGE_SIZE) False ?t =
    Some (?t\<lparr>lower := (lower ?t)\<lparr>sf_frames := rev (map word_of_nat [Suc m..<Suc m + n]) @ sf_frames (lower ?t)\<rparr>\<rparr>)"
    using Suc.prems by (intro Suc.IH) (simp_all add: bitmapStartFrame_def)
  moreover have "[m..<m + Suc n] = m # [Suc m..<Suc m + n]" by (simp add: upt_rec)
  moreover have "PhysMem_markUsed (word_of_nat m) False s = Some ?t" using Suc.prems by (intro markUsed_push) simp_all
  ultimately show ?case using Suc.prems(2) by (subst markRange_step(1)) (simp_all del: upt_Suc of_nat_Suc of_nat_add)
qed

lemma markRange_skip:
  assumes "m + n \<le> unat (bitmapStartFrame s)" "m + n < 0x100000"
  shows "markRange_loop (word_of_nat m * PAGE_SIZE) (word_of_nat (m + n) * PAGE_SIZE) False s = Some s"
  using assms
proof (induction n arbitrary: m)
  case (Suc n)
  have "PhysMem_markUsed (word_of_nat m) False s = Some s"
    using Suc.prems by (simp add: PhysMem_markUsed_def word_less_unat unat_of_nat_u32)
  then show ?case using Suc.IH [of "Suc m"] Suc.prems by (subst markRange_step(1)) (simp_all del: of_nat_Suc of_nat_add)
qed (simp add: markRange_step(2) [of 0 0])

text \<open>An area is before the frames of the bitmap, behind them, or empty, and below the end of the lower memory.\<close>

definition placed :: "nat \<Rightarrow> mem_area \<Rightarrow> bool" where
  "placed b a \<longleftrightarrow> area_ok a \<and> (num_pages a = 0 \<or> first_page a + num_pages a \<le> b \<or> b + 512 \<le> first_page a)
     \<and> (first_page a + num_pages a) * 4096 \<le> 0x2E000000"

lemma area_words:
  assumes "area_ok a"
  shows "ma_addr a = word_of_nat (first_page a) * PAGE_SIZE" "ma_addr a + ma_size a = word_of_nat (first_page a + num_pages a) * PAGE_SIZE"
    "ma_addr a AND NOT (PAGE_SIZE - 1) = word_of_nat (first_page a) * PAGE_SIZE"
proof -
  note p = area_pages [OF assms]
  show a: "ma_addr a = word_of_nat (first_page a) * PAGE_SIZE" using p frame_addr(1) [of "first_page a"] by (simp add: word_eq_unat)
  show "ma_addr a + ma_size a = word_of_nat (first_page a + num_pages a) * PAGE_SIZE"
    using p frame_addr(1) [of "first_page a + num_pages a"] area_end [OF assms] by (simp add: word_eq_unat del: of_nat_add)
  show "ma_addr a AND NOT (PAGE_SIZE - 1) = word_of_nat (first_page a) * PAGE_SIZE" unfolding a using p(3) by (intro range_start) simp
qed

lemma mark_areas_spec:
  assumes "\<forall>a\<in>set as. placed (unat (bitmapStartFrame s)) a" "apart as" "unat (sf_pages (lower s)) \<le> 1024"
    "length (sf_frames (lower s)) + card (page_set as) \<le> unat (sf_pages (lower s)) * 1024"
  shows "\<exists>fs. mark_areas as s = Some (s\<lparr>lower := (lower s)\<lparr>sf_frames := map word_of_nat fs @ sf_frames (lower s)\<rparr>\<rparr>)
    \<and> distinct fs \<and> set fs = {f \<in> page_set as. unat (bitmapStartFrame s) + 512 \<le> f}"
  using assms
proof (induction as arbitrary: s)
  case Nil
  then show ?case by (auto simp: page_set_simps)
next
  case (Cons a as)
  let ?b = "unat (bitmapStartFrame s)" and ?P = "{first_page a..<first_page a + num_pages a}"
  have pl: "placed ?b a" "area_ok a" "\<forall>x\<in>set as. area_ok x" "apart as" using Cons.prems(1,2) by (auto simp: placed_def apart_Cons)
  have dis: "?P \<inter> page_set as = {}"
    unfolding cells_pages [OF pl(2), symmetric] using Cons.prems(2) by (auto simp: apart_Cons page_set_def)
  have fin: "finite (page_set as)" using page_set_card [OF pl(3,4)] by simp
  have ps: "page_set (a # as) = ?P \<union> page_set as" by (rule page_set_simps(2) [OF pl(2)])
  have card: "card (page_set (a # as)) = num_pages a + card (page_set as)" unfolding ps using dis fin by (simp add: card_Un_disjoint)
  define ns where "ns = (if ?b + 512 \<le> first_page a then rev [first_page a..<first_page a + num_pages a] else [])"
  have ns: "distinct ns" "set ns = {f \<in> ?P. ?b + 512 \<le> f}" "length ns \<le> num_pages a" using pl(1) by (auto simp: ns_def placed_def)
  let ?t = "s\<lparr>lower := (lower s)\<lparr>sf_frames := map word_of_nat ns @ sf_frames (lower s)\<rparr>\<rparr>"
  have "PhysMem_doMarkRangeUsed (ma_addr a) (ma_addr a + ma_size a) False s = Some ?t"
  proof (cases "?b + 512 \<le> first_page a")
    case True
    then show ?thesis using markRange_push [of s "first_page a" "num_pages a"] pl(1) Cons.prems(3,4) card
      unfolding PhysMem_doMarkRangeUsed_def area_words(2,3) [OF pl(2)] by (simp add: placed_def ns_def rev_map del: of_nat_add)
  next
    case False
    then have "num_pages a = 0 \<or> first_page a + num_pages a \<le> ?b" using pl(1) by (auto simp: placed_def)
    then have "markRange_loop (word_of_nat (first_page a) * PAGE_SIZE) (word_of_nat (first_page a + num_pages a) * PAGE_SIZE) False s = Some s"
      using markRange_skip [of "first_page a" "num_pages a" s] area_pages(3) [OF pl(2)] markRange_step(2) [of 0 0] by auto
    then show ?thesis using False unfolding PhysMem_doMarkRangeUsed_def area_words(2,3) [OF pl(2)] by (simp add: ns_def del: of_nat_add)
  qed
  moreover obtain fs where fs: "mark_areas as ?t = Some (?t\<lparr>lower := (lower ?t)\<lparr>sf_frames := map word_of_nat fs @ sf_frames (lower ?t)\<rparr>\<rparr>)"
      "distinct fs" "set fs = {f \<in> page_set as. ?b + 512 \<le> f}"
    using Cons.IH [of ?t] Cons.prems pl(4) card ns(3) by (auto simp: bitmapStartFrame_def)
  ultimately have "mark_areas (a # as) s = Some (s\<lparr>lower := (lower s)\<lparr>sf_frames := map word_of_nat (fs @ ns) @ sf_frames (lower s)\<rparr>\<rparr>)" by simp
  moreover have "distinct (fs @ ns)" "set (fs @ ns) = {f \<in> page_set (a # as). ?b + 512 \<le> f}" using fs(2,3) ns(1,2) dis ps by auto
  ultimately show ?case by blast
qed

lemma count_areas_spec:
  assumes "\<forall>a\<in>set as. placed b a" "unat lstart = (b + 512) * 4096"
  shows "fold (count_area lstart) as (word_of_nat x, 0) = (word_of_nat (x + sum_list (map num_pages as)), 0)"
  using assms(1)
proof (induction as arbitrary: x)
  case (Cons a as)
  have pl: "placed b a" and ok: "area_ok a" using Cons.prems by (auto simp: placed_def)
  note p = area_pages [OF ok]
  have e: "unat (ma_addr a + ma_size a) = (first_page a + num_pages a) * 4096" using p area_end [OF ok] by simp
  have le: "ma_addr a + ma_size a \<le> lowerEnd" using pl e by (simp add: word_le_unat lowerEnd_val placed_def)
  have "unat ((ma_addr a + ma_size a - ma_addr a) div PAGE_SIZE) = num_pages a" using p(2) by (simp add: unat_div PAGE_SIZE_def)
  then have sz: "(ma_addr a + ma_size a - ma_addr a) div PAGE_SIZE = word_of_nat (num_pages a)" using p(3) by (simp add: word_eq_unat unat_of_nat_u32)
  have "ma_addr a \<ge> lstart \<or> ma_addr a + ma_size a < lstart \<or> num_pages a = 0"
    using pl e p(1) assms(2) by (auto simp: placed_def word_le_unat word_less_unat)
  then have "count_area lstart a (word_of_nat x, 0) = (word_of_nat (x + num_pages a), 0)"
    using le sz unfolding count_area_def Let_def min_absorb2 [OF le] by auto
  then show ?case using Cons.IH [of "x + num_pages a"] Cons.prems by (simp add: add.assoc)
qed simp

section \<open>The limits\<close>

lemma two_thirds:
  assumes "unat (k :: u32) \<le> 0x100000"
  shows "unat (k - (k * 2) div 3) + unat ((k * 2) div 3) = unat k"
proof -
  have "unat (k * 2) = unat k * 2" using assms by (simp add: unat_word_ariths)
  then have "unat ((k * 2) div 3) = unat k * 2 div 3" by (simp add: unat_div)
  moreover from this have "(k * 2) div 3 \<le> k" by (simp add: word_le_unat)
  ultimately show ?thesis by (simp add: unat_minus_le)
qed

lemma set_limits_spec:
  assumes "unat (PhysMem_getFreeDef s) \<le> 0x100000"
  shows "\<exists>k c. set_limits s = s\<lparr>cframes := c, kframes := k\<rparr> \<and> unat k + unat c \<le> unat (PhysMem_getFreeDef s)"
proof -
  define free where "free = PhysMem_getFreeDef s"
  define k c where "k = (if free div 5 < 750 then if 750 > free then free div 2 else 750 else free div 5)"
    and "c = (if free div 5 < 750 \<and> 750 > free then free - free div 2 else 0)"
  have "unat (free div 2) = unat free div 2" "unat (free div 5) = unat free div 5" by (simp_all add: unat_div)
  moreover from this(1) have "free div 2 \<le> free" by (simp add: word_le_unat)
  ultimately have kc: "unat k + unat c \<le> unat free" by (auto simp: k_def c_def unat_minus_le word_less_unat)
  have s: "set_limits s = s\<lparr>cframes := (if c = 0 then (k * 2) div 3 else c), kframes := (if c = 0 then k - (k * 2) div 3 else k)\<rparr>"
    by (auto simp: set_limits_def Let_def KERNEL_MEM_PERCENT_def KERNEL_MEM_MIN_def free_def [symmetric] k_def c_def)
  have "unat k \<le> 0x100000" using kc assms by (simp add: free_def)
  then have "unat (if c = 0 then k - (k * 2) div 3 else k) + unat (if c = 0 then (k * 2) div 3 else c) \<le> unat free"
    using two_thirds [of k] kc by simp
  then show ?thesis using s unfolding free_def by blast
qed

lemma find_first_spec:
  "find_first as fi = Some f \<Longrightarrow> fi = Some f \<or> f \<in> set as \<and> BITMAP_PAGE_COUNT * PAGE_SIZE \<le> ma_size f"
  by (induction as arbitrary: fi) (auto split: if_splits)


section \<open>The whole initialization\<close>

lemma all_placed:
  assumes "areas_inv a" "page_set (pa_list a) \<subseteq> {..<0x2E000}" "page_set (pa_list a) \<inter> {b..<b + 512} = {}"
  shows "\<forall>x\<in>set (pa_list a). placed b x"
proof
  fix x assume x: "x \<in> set (pa_list a)"
  have ok: "\<forall>x\<in>set (pa_list a). area_ok x" using assms(1) by (simp add: areas_inv_def pma_inv_def)
  note p = area_pages [of x]
  have n: "0 < num_pages x" using x assms(1) ok p(2) by (cases "num_pages x") (auto simp: areas_inv_def unat_eq_zero [symmetric])
  have sub: "{first_page x..<first_page x + num_pages x} \<subseteq> page_set (pa_list a)" using x ok by (auto simp: page_set_mem)
  then have "first_page x + num_pages x - 1 \<in> page_set (pa_list a)" using n by auto
  then have le: "first_page x + num_pages x \<le> 0x2E000" using assms(2) by auto
  have "first_page x + num_pages x \<le> b \<or> b + 512 \<le> first_page x"
  proof (rule ccontr)
    assume "\<not> ?thesis"
    then have "max (first_page x) b \<in> {first_page x..<first_page x + num_pages x}" "max (first_page x) b \<in> {b..<b + 512}" using n by auto
    then show False using sub assms(3) by blast
  qed
  then show "placed b x" using ok x le by (simp add: placed_def)
qed

text \<open>The rest of the initialization from the areas that are left when the frames of the bitmap are taken out.\<close>

lemma stack_pages:
  assumes "n \<le> 0x2E000"
  shows "unat (BYTES_2_PAGES (word_of_nat n * 4)) = (n * 4 + 4095) div 4096"
proof -
  have "unat (word_of_nat n * 4 :: u32) = n * 4" using assms by (simp add: unat_word_ariths unat_of_nat_u32)
  then show ?thesis using assms by (simp add: unat_BYTES_2_PAGES)
qed

lemma init_stack:
  assumes a: "areas_inv a" "page_set (pa_list a) \<subseteq> {..<0x2E000}" "page_set (pa_list a) \<inter> {b..<b + 512} = {}" "2 \<le> card (page_set (pa_list a))"
    and s: "unat (bitmapStartFrame s) = b" "b + 512 \<le> 0x2E000" "sf_frames (lower s) = []" "upper s = \<lparr>sf_pages = 0, sf_frames = []\<rparr>" "uframes s = 0"
  shows "fold (count_area (lowerStart s)) (pa_list a) (0, 0) = (word_of_nat (card (page_set (pa_list a))), 0)"
    "\<exists>a' s'. makeAccessible (unat (BYTES_2_PAGES (word_of_nat (card (page_set (pa_list a))) * 4))) a \<bind> makeAccessible 1 = Some a'
      \<and> mark_areas (pa_list a') (s\<lparr>lower := (lower s)\<lparr>sf_pages := BYTES_2_PAGES (word_of_nat (card (page_set (pa_list a))) * 4)\<rparr>, bitmap := bm, mem_areas := a'\<rparr>) = Some s'
      \<and> (let s'' = set_limits (s'\<lparr>initialized := True\<rparr>) in pm_inv (sf_frames (lower s'')) s'' []
        \<and> unat ` set (sf_frames (lower s'')) = {f \<in> page_set (pa_list a'). b + 512 \<le> f} \<and> page_set (pa_list a') \<subseteq> page_set (pa_list a)
        \<and> mem_areas s'' = a' \<and> bitmapStartFrame s'' = bitmapStartFrame s \<and> bitmap s'' = bm \<and> uframes s'' = 0)"
proof -
  define N where "N = card (page_set (pa_list a))"
  define P where "P = (N * 4 + 4095) div 4096"
  have fin: "finite (page_set (pa_list a))" using a(2) finite_subset by blast
  have N: "2 \<le> N" "N \<le> 0x2E000" using a(4) card_mono [OF _ a(2)] by (simp_all add: N_def)
  have P: "P + 1 \<le> N" "P \<le> 1024" "N \<le> P * 1024" using N unfolding P_def by auto
  have sp: "unat (BYTES_2_PAGES (word_of_nat N * 4)) = P" using stack_pages [OF N(2)] by (simp add: P_def)
  have "unat (lowerStart s) = (b + 512) * 4096"
    using s(1,2) by (simp add: lowerStart_def BITMAP_PAGE_COUNT_def PAGE_SIZE_def unat_word_ariths)
  moreover have "sum_list (map num_pages (pa_list a)) = N" using page_set_card [of "pa_list a"] a(1) by (simp add: N_def areas_inv_def pma_inv_def)
  ultimately show "fold (count_area (lowerStart s)) (pa_list a) (0, 0) = (word_of_nat (card (page_set (pa_list a))), 0)"
    using count_areas_spec [OF all_placed [OF a(1-3)], of "lowerStart s" 0] by (simp add: N_def)
  obtain a4 where a4: "makeAccessible P a = Some a4" "areas_inv a4" "page_set (pa_list a4) \<subseteq> page_set (pa_list a)" "card (page_set (pa_list a4)) = N - P"
    using makeAccessible_spec [OF a(1), of P] P(1) by (auto simp: N_def)
  obtain a5 where a5: "makeAccessible 1 a4 = Some a5" "areas_inv a5" "page_set (pa_list a5) \<subseteq> page_set (pa_list a4)" "card (page_set (pa_list a5)) = N - P - 1"
    using makeAccessible_spec [OF a4(2), of 1] P(1) a4(4) by (metis le_diff_conv2 add.commute add_leD1)
  define t where "t = s\<lparr>lower := (lower s)\<lparr>sf_pages := BYTES_2_PAGES (word_of_nat N * 4)\<rparr>, bitmap := bm, mem_areas := a5\<rparr>"
  have t: "bitmapStartFrame t = bitmapStartFrame s" "unat (sf_pages (lower t)) = P" "sf_frames (lower t) = []"
    using s sp by (simp_all add: t_def bitmapStartFrame_def)
  have "\<forall>x\<in>set (pa_list a5). placed (unat (bitmapStartFrame t)) x"
    using all_placed [OF a5(2), of b] a(2,3) a4(3) a5(3) s(1) t(1) by auto
  moreover have "apart (pa_list a5)" using a5(2) by (simp add: areas_inv_def pma_inv_def)
  moreover have "length (sf_frames (lower t)) + card (page_set (pa_list a5)) \<le> unat (sf_pages (lower t)) * 1024" using t(2,3) a5(4) P(3) by simp
  ultimately obtain fs where fs: "mark_areas (pa_list a5) t = Some (t\<lparr>lower := (lower t)\<lparr>sf_frames := map word_of_nat fs\<rparr>\<rparr>)" "distinct fs"
      "set fs = {f \<in> page_set (pa_list a5). b + 512 \<le> f}"
    using mark_areas_spec [of "pa_list a5" t] t P(2) s(1) by auto
  have fsub: "set fs \<subseteq> {..<0x2E000}" using fs(3) a(2) a4(3) a5(3) by auto
  then have u: "unat (word_of_nat f :: u32) = f" if "f \<in> set fs" for f using that by (intro unat_of_nat_u32) auto
  have len: "length fs \<le> N - P - 1" using card_mono [of "page_set (pa_list a5)" "set fs"] fs(2,3) a5(3) a4(3) fin a5(4)
    by (metis (no_types, lifting) distinct_card finite_subset mem_Collect_eq subsetI)
  define s1 where "s1 = t\<lparr>lower := (lower t)\<lparr>sf_frames := map word_of_nat fs\<rparr>, initialized := True\<rparr>"
  have "unat (PhysMem_getFreeDef s1) = length fs"
    using len N(2) s(4) by (simp add: s1_def t_def PhysMem_getFreeDef_def depth_def unat_of_nat_u32)
  moreover have "length fs \<le> 0x100000" using len N(2) by linarith
  ultimately obtain k c where kc: "set_limits s1 = s1\<lparr>cframes := c, kframes := k\<rparr>" "unat k + unat c \<le> length fs"
    using set_limits_spec [of s1] by auto
  have inj: "inj_on (word_of_nat :: nat \<Rightarrow> u32) (set fs)" using u by (metis inj_onI)
  have "pm_inv (map word_of_nat fs) (s1\<lparr>cframes := c, kframes := k\<rparr>) []"
    using kc(2) fs(2,3) inj u fsub len P t(2) s by (auto simp: pm_inv_def managed_def lowerEnd_val s1_def t_def bitmapStartFrame_def distinct_map)
  moreover have "unat ` set (map word_of_nat fs :: u32 list) = set fs" using u by (auto simp: image_iff)
  ultimately show "\<exists>a' s'. makeAccessible (unat (BYTES_2_PAGES (word_of_nat (card (page_set (pa_list a))) * 4))) a \<bind> makeAccessible 1 = Some a'
      \<and> mark_areas (pa_list a') (s\<lparr>lower := (lower s)\<lparr>sf_pages := BYTES_2_PAGES (word_of_nat (card (page_set (pa_list a))) * 4)\<rparr>, bitmap := bm, mem_areas := a'\<rparr>) = Some s'
      \<and> (let s'' = set_limits (s'\<lparr>initialized := True\<rparr>) in pm_inv (sf_frames (lower s'')) s'' []
        \<and> unat ` set (sf_frames (lower s'')) = {f \<in> page_set (pa_list a'). b + 512 \<le> f} \<and> page_set (pa_list a') \<subseteq> page_set (pa_list a)
        \<and> mem_areas s'' = a' \<and> bitmapStartFrame s'' = bitmapStartFrame s \<and> bitmap s'' = bm \<and> uframes s'' = 0)"
    using a4 a5 sp fs kc s(5) by (intro exI [of _ a5] exI [of _ "t\<lparr>lower := (lower t)\<lparr>sf_frames := map word_of_nat fs\<rparr>\<rparr>"])
      (auto simp: N_def [symmetric] t_def s1_def bitmapStartFrame_def)
qed



text \<open>A machine with seven megabytes, of which the kernel and a module use a part.\<close>

definition pm_map :: "MemMap list" where
  "pm_map = [\<lparr>mm_size = 0x700000, mm_baseAddr = 0x100000, mm_available = True\<rparr>]"

definition pm_areas :: pmareas where
  "pm_areas = \<lparr>pa_count = 2, pa_list = [\<lparr>ma_addr = 0x200000, ma_size = 0x100000\<rparr>, \<lparr>ma_addr = 0x302000, ma_size = 0x4FE000\<rparr>]\<rparr>"


end
