(* ===== verification/KHeap.thy ===== *)
theory KHeap
  imports Esc_Prelude
begin

text \<open>
  The kernel heap (\<^verbatim>\<open>kernel/src/mem/kheap.cc\<close>, with the two functions of
  \<^verbatim>\<open>arch/x86/mem/kheap.cc\<close> that take pages). The structures \<^verbatim>\<open>MemArea\<close> are references with their three
  fields; they are linked in the list of usable areas, in the list of unused structures, or in one of the lists
  of occupied areas, and the operations write these links as the code does. A null pointer is \<^term>\<open>None\<close>. The memory that
  the heap hands out is a function from addresses to words, because the guards are in it.

  Mapping pages (\<^verbatim>\<open>PageDir::mapToCur\<close>) may fail; the parameter \<open>ok\<close> of an operation says whether it
  succeeds for an address and a number of pages.
\<close>

section \<open>State\<close>

definition OCC_MAP_SIZE :: u32 where "OCC_MAP_SIZE = 1024"
definition HEAP_GUARD :: ulong where "HEAP_GUARD = 0xDEADBEEF"
definition KHEAP_START :: uintptr_t where "KHEAP_START = 0xC0800000"
definition KHEAP_SIZE :: size_t where "KHEAP_SIZE = 0x1000000"
definition AREAS_PER_PAGE :: nat where "AREAS_PER_PAGE = 341"

record kheap =
  a_size :: "ref \<Rightarrow> size_t"
  a_addr :: "ref \<Rightarrow> uintptr_t"
  a_next :: "ref \<Rightarrow> ref option"
  usableList :: "ref option"
  freeList :: "ref option"
  occupiedMap :: "nat \<Rightarrow> ref option"
  memUsage :: size_t
  heap_pages :: size_t
  heap_mem :: "uintptr_t \<Rightarrow> ulong"

type_synonym mapper = "uintptr_t \<Rightarrow> size_t \<Rightarrow> bool"

section \<open>Taking pages\<close>

definition KHeap_allocAreas :: "mapper \<Rightarrow> kheap \<Rightarrow> uintptr_t \<times> kheap" where
  "KHeap_allocAreas ok h =
     (if (heap_pages h + 1) * PAGE_SIZE > KHEAP_SIZE then (0, h)
      else if \<not> ok (KHEAP_START + heap_pages h * PAGE_SIZE) 1 then (0, h)
      else (KHEAP_START + heap_pages h * PAGE_SIZE, h\<lparr>heap_pages := heap_pages h + 1\<rparr>))"

definition KHeap_allocSpace :: "mapper \<Rightarrow> size_t \<Rightarrow> kheap \<Rightarrow> uintptr_t \<times> kheap" where
  "KHeap_allocSpace ok count h =
     (if (heap_pages h + count) * PAGE_SIZE > KHEAP_SIZE then (0, h)
      else if \<not> ok (KHEAP_START + heap_pages h * PAGE_SIZE) count then (0, h)
      else let h = h\<lparr>heap_pages := heap_pages h + count\<rparr> in (KHEAP_START + (heap_pages h - count) * PAGE_SIZE, h))"

section \<open>Operations\<close>

definition KHeap_getHash :: "uintptr_t \<Rightarrow> nat" where
  "KHeap_getHash addr =
     (let h = addr; h = h XOR (drop_bit 20 h XOR drop_bit 12 h)
      in unat ((h XOR drop_bit 7 h XOR drop_bit 4 h) AND (OCC_MAP_SIZE - 1)))"

text \<open>The three steps that lists of structures are changed by: putting a structure on the list of unused ones, taking one, and
  changing the link to a usable area, which is a field of the area before it or the head of the list.\<close>

definition put_free :: "ref \<Rightarrow> kheap \<Rightarrow> kheap" where
  "put_free a h = h\<lparr>a_next := (a_next h)(a := freeList h), freeList := Some a\<rparr>"

definition put_usable :: "ref \<Rightarrow> kheap \<Rightarrow> kheap" where
  "put_usable a h = h\<lparr>a_next := (a_next h)(a := usableList h), usableList := Some a\<rparr>"

definition set_area :: "ref \<Rightarrow> uintptr_t \<Rightarrow> size_t \<Rightarrow> kheap \<Rightarrow> kheap" where
  "set_area a addr sz h = h\<lparr>a_addr := (a_addr h)(a := addr), a_size := (a_size h)(a := sz)\<rparr>"

definition link_usable :: "ref option \<Rightarrow> ref option \<Rightarrow> kheap \<Rightarrow> kheap" where
  "link_usable prev n h =
     (case prev of None \<Rightarrow> h\<lparr>usableList := n\<rparr> | Some p \<Rightarrow> h\<lparr>a_next := (a_next h)(p := n)\<rparr>)"

definition KHeap_loadNewAreas :: "mapper \<Rightarrow> kheap \<Rightarrow> bool \<times> kheap" where
  "KHeap_loadNewAreas ok h =
     (case KHeap_allocAreas ok h of (addr, h) \<Rightarrow>
        if addr = 0 then (False, h)
        else let h = fold put_free (map (\<lambda>i. unat addr + 12 * i) [0..<AREAS_PER_PAGE]) h
             in (True, h\<lparr>memUsage := memUsage h + PAGE_SIZE\<rparr>))"

text \<open>Taking an unused structure, with new ones loaded if there is none.\<close>

definition take_free :: "mapper \<Rightarrow> kheap \<Rightarrow> (ref option \<times> kheap) option" where
  "take_free ok h =
     (case (if freeList h = None then KHeap_loadNewAreas ok h else (True, h)) of (r, h) \<Rightarrow>
        if \<not> r then Some (None, h)
        else do { a \<leftarrow> freeList h; Some (Some a, h\<lparr>freeList := a_next h a\<rparr>) })"

definition KHeap_doAddMemory :: "mapper \<Rightarrow> uintptr_t \<Rightarrow> size_t \<Rightarrow> kheap \<Rightarrow> (bool \<times> kheap) option" where
  "KHeap_doAddMemory ok addr sz h =
     do {
       (a, h) \<leftarrow> take_free ok h;
       case a of
         None \<Rightarrow> Some (False, h)
       | Some a \<Rightarrow>
           let h = put_usable a (set_area a addr sz h) in
           Some (True, h\<lparr>memUsage := memUsage h + sz\<rparr>)
     }"

definition KHeap_loadNewSpace :: "mapper \<Rightarrow> size_t \<Rightarrow> kheap \<Rightarrow> (bool \<times> kheap) option" where
  "KHeap_loadNewSpace ok sz h =
     (if sz + PAGE_SIZE < PAGE_SIZE then Some (False, h)
      else
        let count = BYTES_2_PAGES sz in
        case KHeap_allocSpace ok count h of (addr, h) \<Rightarrow>
          if addr = 0 then Some (False, h) else KHeap_doAddMemory ok addr (count * PAGE_SIZE) h)"

text \<open>The loops that search a list have one form: they stop at the first area with a property and remember the area before it.\<close>

partial_function (option) find_area ::
    "(ref \<Rightarrow> bool) \<Rightarrow> (ref \<Rightarrow> ref option) \<Rightarrow> ref option \<Rightarrow> ref option \<Rightarrow> (ref option \<times> ref option) option" where
  "find_area P nxt prev area =
     (if area = None then Some (prev, None)
      else do { a \<leftarrow> area; if P a then Some (prev, Some a) else find_area P nxt (Some a) (nxt a) })"

definition set_guards :: "uintptr_t \<Rightarrow> size_t \<Rightarrow> kheap \<Rightarrow> kheap" where
  "set_guards begin sz h =
     h\<lparr>heap_mem := (heap_mem h)(begin := sz - 4 * 3, begin + 4 := HEAP_GUARD, begin + 4 * (sz div 4 - 1) := HEAP_GUARD)\<rparr>"

definition put_occupied :: "ref \<Rightarrow> kheap \<Rightarrow> kheap" where
  "put_occupied a h =
     (let i = KHeap_getHash (a_addr h a)
      in h\<lparr>a_next := (a_next h)(a := occupiedMap h i), occupiedMap := (occupiedMap h)(i := Some a)\<rparr>)"

text \<open>The second part of \<^verbatim>\<open>alloc\<close>: \<open>a\<close> is the area that was taken off the list. If the rest of it cannot be put back for
  lack of a structure, the area is lost.\<close>

definition alloc_area :: "mapper \<Rightarrow> size_t \<Rightarrow> ref \<Rightarrow> kheap \<Rightarrow> (uintptr_t \<times> kheap) option" where
  "alloc_area ok sz a h =
     do {
       (r, h) \<leftarrow> (if sz < a_size h a then
                   do {
                     (n, h) \<leftarrow> take_free ok h;
                     case n of
                       None \<Rightarrow> Some (False, h)
                     | Some n \<Rightarrow>
                         let h = set_area n (a_addr h a + sz) (a_size h a - sz) h;
                             h = set_area a (a_addr h a) sz h
                         in Some (True, put_usable n h)
                   }
                 else Some (True, h));
       if \<not> r then Some (0, h)
       else let h = set_guards (a_addr h a) sz (put_occupied a h) in Some (a_addr h a + 4 * 2, h)
     }"

text \<open>The size of an area: the words asked for and three words for the guards.\<close>

definition block_size :: "size_t \<Rightarrow> size_t" where
  "block_size sz = ROUND_UP sz 4 + 4 * 3"

definition KHeap_alloc :: "mapper \<Rightarrow> size_t \<Rightarrow> kheap \<Rightarrow> (uintptr_t \<times> kheap) option" where
  "KHeap_alloc ok sz h =
     (if sz = 0 then Some (0, h)
      else
        let sz = block_size sz in
        do {
          (prev, area) \<leftarrow> find_area (\<lambda>a. a_size h a \<ge> sz) (a_next h) None (usableList h);
          case area of
            None \<Rightarrow>
              do {
                (r, h) \<leftarrow> KHeap_loadNewSpace ok sz h;
                if \<not> r then Some (0, h)
                else do { a \<leftarrow> usableList h; alloc_area ok sz a (h\<lparr>usableList := a_next h a\<rparr>) }
              }
          | Some a \<Rightarrow> alloc_area ok sz a (link_usable prev (a_next h a) h)
        })"

text \<open>The loop of \<^verbatim>\<open>free\<close> that looks for the usable areas before and behind the area. The pairs are \<open>(prev, pprev)\<close> and
  \<open>(next, nprev)\<close>.\<close>

partial_function (option) adj_loop ::
    "kheap \<Rightarrow> uintptr_t \<Rightarrow> size_t \<Rightarrow> ref option \<times> ref option \<Rightarrow> ref option \<times> ref option \<Rightarrow> ref option \<Rightarrow> ref option
      \<Rightarrow> ((ref option \<times> ref option) \<times> (ref option \<times> ref option)) option" where
  "adj_loop h begin sz prev next tprev a =
     (if a = None then Some (prev, next)
      else do {
        x \<leftarrow> a;
        let prev = (if a_addr h x + a_size h x = begin then (Some x, tprev) else prev);
        let next = (if a_addr h x = begin + sz then (Some x, tprev) else next);
        if fst prev \<noteq> None \<and> fst next \<noteq> None then Some (prev, next)
        else adj_loop h begin sz prev next (Some x) (a_next h x)
      })"

definition KHeap_merge :: "ref \<Rightarrow> ref option \<times> ref option \<Rightarrow> ref option \<times> ref option \<Rightarrow> kheap \<Rightarrow> kheap" where
  "KHeap_merge area = (\<lambda>(prev, pprev) (next, nprev) h.
     (case (prev, next) of
        (Some p, Some n) \<Rightarrow>
          let h = set_area area (a_addr h p) (a_size h area + (a_size h p + a_size h n)) h;
              h = link_usable nprev (a_next h n) h;
              h = (if pprev = Some n then link_usable nprev (a_next h p) h else link_usable pprev (a_next h p) h);
              h = put_usable area h;
              h = h\<lparr>a_next := (a_next h)(p := Some n)\<rparr>;
              h = h\<lparr>a_next := (a_next h)(n := freeList h)\<rparr>
          in h\<lparr>freeList := Some p\<rparr>
      | (Some p, None) \<Rightarrow> put_free area (set_area p (a_addr h p) (a_size h p + a_size h area) h)
      | (None, Some n) \<Rightarrow> put_free area (set_area n (a_addr h area) (a_size h n + a_size h area) h)
      | (None, None) \<Rightarrow> put_usable area h))"

definition KHeap_free :: "uintptr_t \<Rightarrow> kheap \<Rightarrow> kheap option" where
  "KHeap_free addr h =
     (if addr = 0 then Some h
      else
        let begin = addr - 4 * 2 in
        if heap_mem h (begin + 4) \<noteq> HEAP_GUARD \<or> heap_mem h (begin + 4 * (heap_mem h begin div 4 + 2)) \<noteq> HEAP_GUARD then None
        else do {
          (oprev, area) \<leftarrow> find_area (\<lambda>a. a_addr h a = begin) (a_next h) None (occupiedMap h (KHeap_getHash begin));
          case area of
            None \<Rightarrow> Some h
          | Some area \<Rightarrow>
              do {
                (prev, next) \<leftarrow> adj_loop h begin (a_size h area) (None, None) (None, None) None (usableList h);
                let h = (case oprev of
                           Some p \<Rightarrow> h\<lparr>a_next := (a_next h)(p := a_next h area)\<rparr>
                         | None \<Rightarrow> h\<lparr>occupiedMap := (occupiedMap h)(KHeap_getHash begin := a_next h area)\<rparr>);
                Some (KHeap_merge area prev next h)
              }
        })"

text \<open>\<^verbatim>\<open>memcpy\<close> of whole words.\<close>

definition copy_words :: "uintptr_t \<Rightarrow> uintptr_t \<Rightarrow> size_t \<Rightarrow> kheap \<Rightarrow> kheap" where
  "copy_words dst src n h =
     h\<lparr>heap_mem := fold (\<lambda>i m. m(dst + 4 * word_of_nat i := m (src + 4 * word_of_nat i))) [0..<unat n div 4] (heap_mem h)\<rparr>"

text \<open>The last part of \<^verbatim>\<open>realloc\<close>. The size passed on to \<^verbatim>\<open>alloc\<close> includes the guards already.\<close>

definition realloc_move :: "mapper \<Rightarrow> uintptr_t \<Rightarrow> ref \<Rightarrow> size_t \<Rightarrow> kheap \<Rightarrow> (uintptr_t \<times> kheap) option" where
  "realloc_move ok addr area sz h =
     do {
       (a, h) \<leftarrow> KHeap_alloc ok sz h;
       if a = 0 then Some (0, h)
       else do {
         h \<leftarrow> KHeap_free addr (copy_words a addr (a_size h area - 4 * 3) h);
         Some (a, h)
       }
     }"

definition KHeap_realloc :: "mapper \<Rightarrow> uintptr_t \<Rightarrow> size_t \<Rightarrow> kheap \<Rightarrow> (uintptr_t \<times> kheap) option" where
  "KHeap_realloc ok addr sz h =
     (if addr = 0 then KHeap_alloc ok sz h
      else
        let begin = addr - 4 * 2 in
        do {
          (_, area) \<leftarrow> find_area (\<lambda>a. a_addr h a = begin) (a_next h) None (occupiedMap h (KHeap_getHash begin));
          case area of
            None \<Rightarrow> Some (0, h)
          | Some area \<Rightarrow>
              let sz = block_size sz in
              if sz < a_size h area then Some (addr, h)
              else do {
                (prev, a) \<leftarrow> find_area (\<lambda>a. a_addr h a = a_addr h area + a_size h area) (a_next h) None (usableList h);
                case a of
                  Some a \<Rightarrow>
                    if a_size h area + a_size h a \<ge> sz then
                      let h = (if sz < a_size h area + a_size h a then
                                 set_area a (a_addr h area + sz) ((a_size h area + a_size h a) - sz) h
                               else put_free a (link_usable prev (a_next h a) h));
                          h = set_guards begin sz (set_area area (a_addr h area) sz h)
                      in Some (begin + 4 * 2, h)
                    else realloc_move ok addr area sz h
                | None \<Rightarrow> realloc_move ok addr area sz h
              }
        })"


section \<open>Chains of areas\<close>

primrec chain :: "(ref \<Rightarrow> ref option) \<Rightarrow> ref option \<Rightarrow> ref list \<Rightarrow> bool" where
  "chain nxt p [] = (p = None)"
| "chain nxt p (x # xs) = (p = Some x \<and> chain nxt (nxt x) xs)"

abbreviation before :: "ref option \<Rightarrow> ref list \<Rightarrow> ref option" where
  "before p xs \<equiv> (if xs = [] then p else Some (last xs))"

lemma chain_upd [simp]: "x \<notin> set xs \<Longrightarrow> chain (nxt(x := v)) p xs = chain nxt p xs"
  by (induction xs arbitrary: p) auto

lemma chain_cong: "(\<And>x. x \<in> set xs \<Longrightarrow> nxt' x = nxt x) \<Longrightarrow> chain nxt' p xs = chain nxt p xs"
  by (induction xs arbitrary: p) auto

lemma chain_behind: "chain nxt p (xs @ a # ys) \<Longrightarrow> chain nxt (nxt a) ys"
  by (induction xs arbitrary: p) auto

lemma chain_unlink_first: "chain nxt p (a # ys) \<Longrightarrow> chain nxt (nxt a) ys"
  by simp

lemma chain_unlink:
  assumes "chain nxt p (xs @ a # ys)" "distinct (xs @ a # ys)" "xs \<noteq> []"
  shows "chain (nxt(last xs := nxt a)) p (xs @ ys)"
  using assms
proof (induction xs arbitrary: p)
  case (Cons x xs)
  show ?case
  proof (cases "xs = []")
    case True
    then show ?thesis using Cons.prems by (simp del: fun_upd_apply add: fun_upd_same)
  next
    case False
    then have "last xs \<noteq> x" using Cons.prems(2) last_in_set [OF False] by auto
    then show ?thesis using Cons False by simp
  qed
qed simp

lemma find_area_None:
  "chain nxt p xs \<Longrightarrow> \<forall>x\<in>set xs. \<not> P x \<Longrightarrow> find_area P nxt prev p = Some (before prev xs, None)"
  by (induction xs arbitrary: p prev) (subst find_area.simps, simp)+

lemma find_area_Some:
  "chain nxt p (xs @ a # ys) \<Longrightarrow> \<forall>x\<in>set xs. \<not> P x \<Longrightarrow> P a \<Longrightarrow> find_area P nxt prev p = Some (before prev xs, Some a)"
  by (induction xs arbitrary: p prev) (subst find_area.simps, simp)+

text \<open>Either no area has the property, or the list is split at the first one that has it.\<close>

lemma find_area_cases:
  assumes "chain nxt p xs"
  obtains (none) "\<forall>x\<in>set xs. \<not> P x" "find_area P nxt None p = Some (before None xs, None)"
  | (some) ys a zs where "xs = ys @ a # zs" "\<forall>x\<in>set ys. \<not> P x" "P a" "find_area P nxt None p = Some (before None ys, Some a)"
proof (cases "\<exists>x\<in>set xs. P x")
  case True
  then obtain ys a zs where "xs = ys @ a # zs" "P a" "\<forall>x\<in>set ys. \<not> P x" using split_list_first_prop by metis
  then show ?thesis using find_area_Some some assms by metis
next
  case False
  then show ?thesis using find_area_None none assms by metis
qed


section \<open>The shape of the heap\<close>

definition heap_top :: "kheap \<Rightarrow> nat" where
  "heap_top h = unat KHEAP_START + 4096 * unat (heap_pages h)"

definition occ :: "(nat \<Rightarrow> ref list) \<Rightarrow> ref set" where
  "occ os = (\<Union>i. set (os i))"

definition nodes :: "ref list \<Rightarrow> ref list \<Rightarrow> (nat \<Rightarrow> ref list) \<Rightarrow> ref set" where
  "nodes us fs os = set us \<union> set fs \<union> occ os"

text \<open>Every structure is in one list at one position.\<close>

definition bucket :: "kheap \<Rightarrow> ref list \<Rightarrow> ref list \<Rightarrow> (nat \<Rightarrow> ref list) \<Rightarrow> nat \<Rightarrow> bool" where
  "bucket h us fs os i \<longleftrightarrow> chain (a_next h) (occupiedMap h i) (os i) \<and> distinct (os i)
     \<and> (\<forall>x\<in>set (os i). x \<notin> set us \<and> x \<notin> set fs \<and> x < heap_top h \<and> (\<forall>j. j \<noteq> i \<longrightarrow> x \<notin> set (os j)))"

definition kh_shape :: "kheap \<Rightarrow> ref list \<Rightarrow> ref list \<Rightarrow> (nat \<Rightarrow> ref list) \<Rightarrow> bool" where
  "kh_shape h us fs os \<longleftrightarrow>
     chain (a_next h) (usableList h) us \<and> chain (a_next h) (freeList h) fs \<and> distinct us \<and> distinct fs
     \<and> (\<forall>x\<in>set us. x \<notin> set fs) \<and> (\<forall>x\<in>set us \<union> set fs. x < heap_top h) \<and> (\<forall>i. bucket h us fs os i)"

lemma occ_cons: "occ (os(i := a # os i)) = insert a (occ os)"
proof
  show "occ (os(i := a # os i)) \<subseteq> insert a (occ os)" by (auto simp: occ_def split: if_splits)
  have "set (os j) \<subseteq> set ((os(i := a # os i)) j)" for j by auto
  moreover have "a \<in> set ((os(i := a # os i)) i)" by simp
  ultimately show "insert a (occ os) \<subseteq> occ (os(i := a # os i))" unfolding occ_def by blast
qed

lemma not_nodes: "a \<notin> nodes us fs os \<longleftrightarrow> a \<notin> set us \<and> a \<notin> set fs \<and> (\<forall>i. a \<notin> set (os i))"
  by (auto simp: nodes_def occ_def)

lemma shape_put_free:
  assumes "kh_shape h us fs os" "a \<notin> nodes us fs os" "a < heap_top h"
  shows "kh_shape (put_free a h) us (a # fs) os"
  using assms by (auto simp: kh_shape_def bucket_def put_free_def not_nodes heap_top_def)

lemma shape_take_free:
  assumes "kh_shape h us (a # fs) os"
  shows "kh_shape (h\<lparr>freeList := a_next h a\<rparr>) us fs os" "a \<notin> nodes us fs os" "a < heap_top h"
  using assms by (auto simp: kh_shape_def bucket_def not_nodes heap_top_def)

lemma shape_put_usable:
  assumes "kh_shape h us fs os" "a \<notin> nodes us fs os" "a < heap_top h"
  shows "kh_shape (put_usable a h) (a # us) fs os"
  using assms by (auto simp: kh_shape_def bucket_def put_usable_def not_nodes heap_top_def)

lemma shape_put_occupied:
  assumes "kh_shape h us fs os" "a \<notin> nodes us fs os" "a < heap_top h" "i = KHeap_getHash (a_addr h a)"
  shows "kh_shape (put_occupied a h) us fs (os(i := a # os i))"
  using assms by (auto simp: kh_shape_def bucket_def put_occupied_def not_nodes heap_top_def Let_def)

lemma chain_link:
  assumes "chain nxt p (xs @ a # ys)" "distinct (xs @ a # ys)"
  shows "if xs = [] then chain nxt (nxt a) (xs @ ys) else chain (nxt(last xs := nxt a)) p (xs @ ys)"
  using assms chain_unlink [OF assms] by auto

lemma shape_unlink_usable:
  assumes "kh_shape h (xs @ a # ys) fs os"
  shows "kh_shape (link_usable (before None xs) (a_next h a) h) (xs @ ys) fs os" "a \<notin> nodes (xs @ ys) fs os" "a < heap_top h"
proof -
  have c: "chain (a_next h) (usableList h) (xs @ a # ys)" "distinct (xs @ a # ys)" using assms by (auto simp: kh_shape_def)
  have l: "last xs \<notin> set fs \<and> last xs \<notin> set (os i)" if "xs \<noteq> []" for i
    using assms last_in_set [OF that] by (auto simp: kh_shape_def bucket_def)
  show "kh_shape (link_usable (before None xs) (a_next h a) h) (xs @ ys) fs os"
    using assms chain_link [OF c] l
    by (cases "xs = []") (auto simp: kh_shape_def bucket_def link_usable_def heap_top_def)
  show "a \<notin> nodes (xs @ ys) fs os" "a < heap_top h"
    using assms by (auto simp: kh_shape_def bucket_def not_nodes)
qed

lemma shape_unlink_occupied:
  assumes "kh_shape h us fs os" "os i = xs @ a # ys"
  shows "kh_shape (case before None xs of Some p \<Rightarrow> h\<lparr>a_next := (a_next h)(p := a_next h a)\<rparr>
      | None \<Rightarrow> h\<lparr>occupiedMap := (occupiedMap h)(i := a_next h a)\<rparr>) us fs (os(i := xs @ ys))" (is "kh_shape ?h _ _ _")
    "a \<notin> nodes us fs (os(i := xs @ ys))" "a < heap_top h"
proof -
  have b: "bucket h us fs os i" using assms(1) by (simp add: kh_shape_def)
  then have c: "chain (a_next h) (occupiedMap h i) (xs @ a # ys)" "distinct (xs @ a # ys)" by (auto simp: bucket_def assms(2))
  have l: "last xs \<notin> set us \<and> last xs \<notin> set fs \<and> (j \<noteq> i \<longrightarrow> last xs \<notin> set (os j))" if "xs \<noteq> []" for j
    using b last_in_set [OF that] by (auto simp: bucket_def assms(2))
  have u: "usableList ?h = usableList h" "freeList ?h = freeList h" "heap_top ?h = heap_top h"
    and n: "a_next ?h = (if xs = [] then a_next h else (a_next h)(last xs := a_next h a))"
    and o: "occupiedMap ?h = (if xs = [] then (occupiedMap h)(i := a_next h a) else occupiedMap h)"
    by (auto simp: heap_top_def)
  have "chain (a_next ?h) (occupiedMap ?h i) (xs @ ys)"
    using chain_link [OF c] by (auto simp: n o simp del: fun_upd_apply simp: fun_upd_same)
  then have "bucket ?h us fs (os(i := xs @ ys)) i"
    using b c(2) unfolding bucket_def u by (auto simp: assms(2))
  moreover have "bucket ?h us fs (os(i := xs @ ys)) j" if "j \<noteq> i" for j
  proof -
    have bj: "bucket h us fs os j" using assms(1) by (simp add: kh_shape_def)
    then have "chain (a_next ?h) (occupiedMap ?h j) (os j)"
      using l [of j] that unfolding n o bucket_def by (cases "xs = []") (simp_all del: fun_upd_apply add: fun_upd_other)
    moreover have "\<forall>x\<in>set (os j). x \<notin> set (xs @ ys)"
      using bj that [symmetric] unfolding bucket_def by (metis assms(2) Un_iff list.set_intros(2) set_append)
    ultimately show ?thesis using bj that unfolding bucket_def u by simp
  qed
  moreover have "chain (a_next ?h) (usableList h) us" "chain (a_next ?h) (freeList h) fs"
    using assms(1) l unfolding n kh_shape_def by auto
  ultimately show "kh_shape ?h us fs (os(i := xs @ ys))"
    using assms(1) unfolding kh_shape_def u by metis
  show "a \<notin> nodes us fs (os(i := xs @ ys))" "a < heap_top h" using b c(2) by (auto simp: not_nodes bucket_def assms(2))
qed


section \<open>The areas\<close>

definition lo :: "kheap \<Rightarrow> ref \<Rightarrow> nat" where "lo h r = unat (a_addr h r)"
definition hi :: "kheap \<Rightarrow> ref \<Rightarrow> nat" where "hi h r = lo h r + unat (a_size h r)"

definition area_ok :: "kheap \<Rightarrow> ref \<Rightarrow> bool" where
  "area_ok h r \<longleftrightarrow> unat KHEAP_START \<le> lo h r \<and> lo h r < hi h r \<and> hi h r \<le> heap_top h \<and> 4 dvd lo h r \<and> 4 dvd hi h r"

definition apart :: "kheap \<Rightarrow> ref \<Rightarrow> ref \<Rightarrow> bool" where
  "apart h r s \<longleftrightarrow> hi h r \<le> lo h s \<or> hi h s \<le> lo h r"

definition guarded :: "kheap \<Rightarrow> ref \<Rightarrow> bool" where
  "guarded h r \<longleftrightarrow> 16 \<le> unat (a_size h r) \<and> heap_mem h (a_addr h r) = a_size h r - 12
     \<and> heap_mem h (a_addr h r + 4) = HEAP_GUARD \<and> heap_mem h (a_addr h r + (a_size h r - 4)) = HEAP_GUARD"

definition kh_areas :: "kheap \<Rightarrow> ref set \<Rightarrow> ref set \<Rightarrow> bool" where
  "kh_areas h U Oc \<longleftrightarrow> unat (heap_pages h) \<le> 4096 \<and> (\<forall>r\<in>U \<union> Oc. area_ok h r)
     \<and> (\<forall>r\<in>U \<union> Oc. \<forall>s\<in>U \<union> Oc. r \<noteq> s \<longrightarrow> apart h r s) \<and> (\<forall>r\<in>Oc. guarded h r)"

definition kh_inv :: "kheap \<Rightarrow> ref list \<Rightarrow> ref list \<Rightarrow> (nat \<Rightarrow> ref list) \<Rightarrow> bool" where
  "kh_inv h us fs os \<longleftrightarrow> kh_shape h us fs os \<and> (\<forall>i. \<forall>r\<in>set (os i). KHeap_getHash (a_addr h r) = i)
     \<and> kh_areas h (set us) (occ os)"

text \<open>The heap with one area in no list.\<close>

definition kh_det :: "ref \<Rightarrow> kheap \<Rightarrow> ref list \<Rightarrow> ref list \<Rightarrow> (nat \<Rightarrow> ref list) \<Rightarrow> bool" where
  "kh_det a h us fs os \<longleftrightarrow> kh_shape h us fs os \<and> (\<forall>i. \<forall>r\<in>set (os i). KHeap_getHash (a_addr h r) = i)
     \<and> kh_areas h (insert a (set us)) (occ os) \<and> a \<notin> nodes us fs os \<and> a < heap_top h"

text \<open>What the steps on the lists leave alone.\<close>

lemma step_fields [simp]:
  "a_addr (put_free a h) = a_addr h" "a_size (put_free a h) = a_size h" "heap_mem (put_free a h) = heap_mem h" "heap_pages (put_free a h) = heap_pages h"
  "a_addr (put_usable a h) = a_addr h" "a_size (put_usable a h) = a_size h" "heap_mem (put_usable a h) = heap_mem h" "heap_pages (put_usable a h) = heap_pages h"
  "a_addr (put_occupied a h) = a_addr h" "a_size (put_occupied a h) = a_size h" "heap_mem (put_occupied a h) = heap_mem h"
  "heap_pages (put_occupied a h) = heap_pages h"
  "a_addr (link_usable p n h) = a_addr h" "a_size (link_usable p n h) = a_size h" "heap_mem (link_usable p n h) = heap_mem h"
  "heap_pages (link_usable p n h) = heap_pages h"
  "heap_mem (set_area a x y h) = heap_mem h" "heap_pages (set_area a x y h) = heap_pages h"
  "a_addr (set_area a x y h) = (a_addr h)(a := x)" "a_size (set_area a x y h) = (a_size h)(a := y)"
  "a_addr (set_guards b z h) = a_addr h" "a_size (set_guards b z h) = a_size h" "heap_pages (set_guards b z h) = heap_pages h"
  by (auto simp: put_free_def put_usable_def put_occupied_def link_usable_def set_area_def set_guards_def Let_def split: option.split)

lemma shape_cong:
  assumes "a_next h' = a_next h" "usableList h' = usableList h" "freeList h' = freeList h" "occupiedMap h' = occupiedMap h"
    "heap_top h \<le> heap_top h'" "kh_shape h us fs os"
  shows "kh_shape h' us fs os"
proof -
  have "x < heap_top h'" if "x < heap_top h" for x using that assms(5) by simp
  then show ?thesis using assms(6) unfolding kh_shape_def bucket_def assms(1-4) by blast
qed

lemma shape_fields [simp]:
  "kh_shape (set_area a x y h) us fs os = kh_shape h us fs os" "kh_shape (set_guards b z h) us fs os = kh_shape h us fs os"
  "kh_shape (h\<lparr>memUsage := m\<rparr>) us fs os = kh_shape h us fs os" "kh_shape (h\<lparr>heap_mem := mem\<rparr>) us fs os = kh_shape h us fs os"
  by (simp_all add: kh_shape_def bucket_def set_area_def set_guards_def heap_top_def)

lemma areas_cong:
  assumes "\<forall>r\<in>U \<union> Oc. a_addr h' r = a_addr h r \<and> a_size h' r = a_size h r" "heap_mem h' = heap_mem h"
    "heap_top h \<le> heap_top h'" "unat (heap_pages h') \<le> 4096" "kh_areas h U Oc"
  shows "kh_areas h' U Oc"
proof -
  have "lo h' r = lo h r \<and> hi h' r = hi h r" if "r \<in> U \<union> Oc" for r using assms(1) that by (simp add: lo_def hi_def)
  then have "area_ok h' r" "s \<in> U \<union> Oc \<Longrightarrow> r \<noteq> s \<Longrightarrow> apart h' r s" if "r \<in> U \<union> Oc" for r s
    using that assms(3,5) by (auto simp: kh_areas_def area_ok_def apart_def intro: order.trans [OF _ assms(3)])
  moreover have "guarded h' r" if "r \<in> Oc" for r
    using that assms(1,2,5) by (simp add: kh_areas_def guarded_def)
  ultimately show ?thesis using assms(4) unfolding kh_areas_def by blast
qed

lemma page_limit: "(p + n) * PAGE_SIZE \<le> KHEAP_SIZE \<Longrightarrow> unat p \<le> 4096 \<Longrightarrow> unat n \<le> 8192 \<Longrightarrow> unat (p + n) = unat p + unat n \<and> unat p + unat n \<le> 4096"
proof -
  assume a: "(p + n) * PAGE_SIZE \<le> KHEAP_SIZE" and b: "unat p \<le> 4096" "unat n \<le> 8192"
  have 1: "unat (p + n) = unat p + unat n" using b by (simp add: unat_plus_nowrap)
  then have "unat ((p + n) * PAGE_SIZE) = (unat p + unat n) * 4096" using b by (simp add: unat_word_ariths PAGE_SIZE_def)
  then show ?thesis using a 1 by (simp add: word_le_unat KHEAP_SIZE_def)
qed

lemma page_room:
  assumes "unat p + unat n \<le> 4096"
  shows "(p + n) * PAGE_SIZE \<le> KHEAP_SIZE"
proof -
  have "unat (p + n) = unat p + unat n" using assms by (simp add: unat_plus_nowrap)
  then have "unat ((p + n) * PAGE_SIZE) = (unat p + unat n) * 4096" using assms by (simp add: unat_word_ariths PAGE_SIZE_def)
  then show ?thesis using assms by (simp add: word_le_unat KHEAP_SIZE_def)
qed

lemma page_addr:
  assumes "unat p \<le> 4096"
  shows "unat (KHEAP_START + p * PAGE_SIZE) = unat KHEAP_START + 4096 * unat p" "KHEAP_START + p * PAGE_SIZE \<noteq> 0"
proof -
  have m: "unat (p * PAGE_SIZE) = 4096 * unat p" using assms by (simp add: unat_word_ariths PAGE_SIZE_def)
  show e: "unat (KHEAP_START + p * PAGE_SIZE) = unat KHEAP_START + 4096 * unat p"
    using assms m by (subst unat_plus_nowrap) (simp_all add: KHEAP_START_def)
  show "KHEAP_START + p * PAGE_SIZE \<noteq> 0"
  proof
    assume "KHEAP_START + p * PAGE_SIZE = 0"
    then show False using e by (simp add: KHEAP_START_def)
  qed
qed


section \<open>Taking structures and memory\<close>

lemma fold_put_free:
  assumes "kh_shape h us fs os" "distinct xs" "\<forall>x\<in>set xs. x \<notin> nodes us fs os \<and> x < heap_top h"
  shows "kh_shape (fold put_free xs h) us (rev xs @ fs) os"
  using assms
proof (induction xs arbitrary: h fs)
  case (Cons x xs)
  have "kh_shape (put_free x h) us (x # fs) os" using Cons.prems by (intro shape_put_free) auto
  then have "kh_shape (fold put_free xs (put_free x h)) us (rev xs @ (x # fs)) os"
    using Cons.prems by (intro Cons.IH) (auto simp: not_nodes heap_top_def)
  then show ?case by simp
qed simp

lemma fold_put_free_fields [simp]:
  "a_addr (fold put_free xs h) = a_addr h \<and> a_size (fold put_free xs h) = a_size h \<and> heap_mem (fold put_free xs h) = heap_mem h
    \<and> heap_pages (fold put_free xs h) = heap_pages h"
  by (induction xs arbitrary: h) auto

text \<open>What an operation that takes structures or memory changes: no area, no memory, and the end of the heap only upwards.\<close>

definition grows :: "kheap \<Rightarrow> kheap \<Rightarrow> bool" where
  "grows h h' \<longleftrightarrow> a_addr h' = a_addr h \<and> a_size h' = a_size h \<and> heap_mem h' = heap_mem h \<and> heap_top h \<le> heap_top h' \<and> unat (heap_pages h') \<le> 4096
     \<and> unat (heap_pages h') \<le> unat (heap_pages h) + 1"

lemma grows_areas: "grows h h' \<Longrightarrow> kh_areas h U Oc \<Longrightarrow> kh_areas h' U Oc"
  by (rule areas_cong) (auto simp: grows_def)

lemma loadNewAreas_spec:
  assumes "kh_shape h us fs os" "unat (heap_pages h) \<le> 4096" "KHeap_loadNewAreas ok h = (r, h')"
  shows "grows h h' \<and> (\<exists>gs. kh_shape h' us (gs @ fs) os \<and> (r \<longrightarrow> gs \<noteq> []) \<and> (\<forall>x\<in>set gs. heap_top h \<le> x))
    \<and> ((\<forall>x y. ok x y) \<and> unat (heap_pages h) < 4096 \<longrightarrow> r)"
proof (cases "fst (KHeap_allocAreas ok h) = 0")
  case True
  then have "h' = h \<and> \<not> r" using assms(2,3) page_addr [OF assms(2)]
    by (auto simp: KHeap_loadNewAreas_def KHeap_allocAreas_def split: if_splits)
  moreover have "\<not> ((\<forall>x y. ok x y) \<and> unat (heap_pages h) < 4096)"
    using True page_addr [OF assms(2)] page_room [of "heap_pages h" 1] by (auto simp: KHeap_allocAreas_def not_less split: if_splits)
  ultimately show ?thesis using assms by (auto simp: grows_def intro!: exI [of _ "[]"])
next
  case False
  let ?b = "KHEAP_START + heap_pages h * PAGE_SIZE" and ?h = "h\<lparr>heap_pages := heap_pages h + 1\<rparr>"
  let ?xs = "map (\<lambda>i. unat ?b + 12 * i) [0..<AREAS_PER_PAGE]"
  have lim: "(heap_pages h + 1) * PAGE_SIZE \<le> KHEAP_SIZE" and a: "KHeap_allocAreas ok h = (?b, ?h)"
    using False by (auto simp: KHeap_allocAreas_def not_less split: if_splits)
  note p = page_limit [OF lim assms(2)] and b = page_addr [OF assms(2)]
  have top: "heap_top ?h = heap_top h + 4096" "unat ?b = heap_top h" using p b by (simp_all add: heap_top_def)
  have "kh_shape (fold put_free ?xs ?h) us (rev ?xs @ fs) os"
  proof (rule fold_put_free)
    show "kh_shape ?h us fs os" by (rule shape_cong [OF _ _ _ _ _ assms(1)]) (simp_all add: top)
    show "distinct ?xs" by (simp add: distinct_map inj_on_def)
    show "\<forall>x\<in>set ?xs. x \<notin> nodes us fs os \<and> x < heap_top ?h"
      using assms(1) unfolding top by (auto simp: not_nodes kh_shape_def bucket_def AREAS_PER_PAGE_def)
  qed
  moreover have "h' = (fold put_free ?xs ?h)\<lparr>memUsage := memUsage (fold put_free ?xs ?h) + PAGE_SIZE\<rparr> \<and> r"
    using assms(3) b(2) by (auto simp: KHeap_loadNewAreas_def a Let_def)
  moreover have "rev ?xs \<noteq> []" by (simp add: AREAS_PER_PAGE_def)
  ultimately have "r" "kh_shape h' us (rev ?xs @ fs) os" "rev ?xs \<noteq> []" "heap_pages h' = heap_pages ?h"
      "a_addr h' = a_addr h" "a_size h' = a_size h" "heap_mem h' = heap_mem h"
    by (simp_all only: shape_fields) simp_all
  moreover have "\<forall>x\<in>set (rev ?xs). heap_top h \<le> x" using top(2) by simp
  ultimately show ?thesis using p unfolding grows_def heap_top_def by (intro conjI exI [of _ "rev ?xs"]) simp_all
qed

lemma take_free_spec:
  assumes "kh_shape h us fs os" "unat (heap_pages h) \<le> 4096"
  shows "\<exists>r h' fs'. take_free ok h = Some (r, h') \<and> grows h h' \<and> kh_shape h' us fs' os
    \<and> (\<forall>a. r = Some a \<longrightarrow> a \<notin> nodes us fs' os \<and> a < heap_top h')
    \<and> (\<forall>a. a \<notin> nodes us fs os \<and> a < heap_top h \<longrightarrow> a \<notin> nodes us fs' os \<and> r \<noteq> Some a)
    \<and> ((\<forall>x y. ok x y) \<and> unat (heap_pages h) < 4096 \<longrightarrow> r \<noteq> None)"
proof -
  obtain b h1 where b: "(if freeList h = None then KHeap_loadNewAreas ok h else (True, h)) = (b, h1)" by fastforce
  then obtain fs1 where fs1: "grows h h1" "kh_shape h1 us fs1 os" "b \<longrightarrow> fs1 \<noteq> []"
    "\<forall>a. a \<notin> set fs \<and> a < heap_top h \<longrightarrow> a \<notin> set fs1" "(\<forall>x y. ok x y) \<and> unat (heap_pages h) < 4096 \<longrightarrow> b"
  proof (cases "freeList h = None")
    case True
    then obtain gs where "grows h h1" "kh_shape h1 us (gs @ fs) os" "b \<longrightarrow> gs \<noteq> []" "\<forall>x\<in>set gs. heap_top h \<le> x"
        "(\<forall>x y. ok x y) \<and> unat (heap_pages h) < 4096 \<longrightarrow> b"
      using loadNewAreas_spec [OF assms, of ok b h1] b by auto
    then show ?thesis using that [of "gs @ fs"] by force
  next
    case False
    then have "fs \<noteq> []" using assms(1) by (auto simp: kh_shape_def)
    then show ?thesis using False assms b that by (auto simp: grows_def)
  qed
  show ?thesis
  proof (cases b)
    case True
    then obtain a fs2 where f: "fs1 = a # fs2" using fs1(3) by (cases fs1) auto
    then have "freeList h1 = Some a" using fs1(2) by (simp add: kh_shape_def)
    then show ?thesis using True b fs1(1) shape_take_free [OF fs1(2) [unfolded f]]
      fs1(4) f
      by (auto simp: take_free_def grows_def heap_top_def not_nodes intro!: exI [of _ fs2])
  next
    case False
    then show ?thesis using b fs1 by (auto simp: take_free_def not_nodes intro!: exI [of _ fs1])
  qed
qed


section \<open>Allocation\<close>

definition keeps_areas :: "ref set \<Rightarrow> kheap \<Rightarrow> kheap \<Rightarrow> bool" where
  "keeps_areas S h h' \<longleftrightarrow> (\<forall>r\<in>S. a_addr h' r = a_addr h r \<and> a_size h' r = a_size h r)"

definition in_area :: "kheap \<Rightarrow> ref \<Rightarrow> uintptr_t \<Rightarrow> bool" where
  "in_area h r x \<longleftrightarrow> lo h r \<le> unat x \<and> unat x < hi h r"

lemma heap_top_bound: "unat (heap_pages h) \<le> 4096 \<Longrightarrow> heap_top h \<le> 0xC1800000"
  by (simp add: heap_top_def KHEAP_START_def)

lemma area_offset:
  assumes "area_ok h r" "unat (heap_pages h) \<le> 4096" "unat off \<le> unat (a_size h r)"
  shows "unat (a_addr h r + off) = lo h r + unat off"
  using assms heap_top_bound [OF assms(2)] by (subst unat_plus_nowrap) (auto simp: area_ok_def hi_def lo_def)

lemma not_in_both: "apart h r s \<Longrightarrow> in_area h r x \<Longrightarrow> \<not> in_area h s x"
  by (auto simp: apart_def in_area_def)

text \<open>The cells of the guards.\<close>

lemma size_cells:
  assumes "16 \<le> unat sz" "4 dvd unat (sz :: u32)"
  shows "unat (sz - 4) = unat sz - 4" "4 * (sz div 4 - 1) = sz - 4" "unat (sz - 12) = unat sz - 12"
proof -
  have le: "4 \<le> sz" "12 \<le> sz" using assms(1) by (simp_all add: word_le_unat)
  then show m: "unat (sz - 4) = unat sz - 4" "unat (sz - 12) = unat sz - 12" by (simp_all add: unat_minus_le)
  obtain k where k: "unat sz = 4 * k" using assms(2) by (auto simp: dvd_def)
  have "unat (sz div 4) = k" by (simp add: unat_div k)
  then have "unat (sz div 4 - 1) = k - 1" using assms(1) k by (subst unat_minus_le) (simp_all add: word_le_unat)
  then have "unat (4 * (sz div 4 - 1)) = 4 * (k - 1) mod 2 ^ 32" by (subst unat_word_ariths(2)) simp
  also have "\<dots> = unat sz - 4" using k unat_lt_2p32 [of sz] by simp
  finally show "4 * (sz div 4 - 1) = sz - 4" using m by (simp add: word_eq_unat)
qed

lemma guard_cells:
  assumes "area_ok h r" "unat (heap_pages h) \<le> 4096" "16 \<le> unat (a_size h r)"
  shows "in_area h r (a_addr h r)" "in_area h r (a_addr h r + 4)" "in_area h r (a_addr h r + (a_size h r - 4))"
proof -
  have "unat (a_addr h r + 4) = lo h r + 4" using area_offset [OF assms(1,2), of 4] assms(3) by simp
  then show "in_area h r (a_addr h r + 4)" using assms(3) by (simp add: in_area_def hi_def)
  show "in_area h r (a_addr h r)" using assms(1) by (simp add: in_area_def area_ok_def lo_def)
  have "unat (a_size h r - 4) = unat (a_size h r) - 4" using assms(3) by (simp add: unat_minus_le word_le_unat)
  then have "unat (a_addr h r + (a_size h r - 4)) = lo h r + (unat (a_size h r) - 4)" using area_offset [OF assms(1,2)] by simp
  then show "in_area h r (a_addr h r + (a_size h r - 4))" using assms(3) by (simp add: in_area_def hi_def)
qed

lemma guarded_frame:
  assumes "guarded h s" "area_ok h s" "unat (heap_pages h) \<le> 4096" "a_addr h' s = a_addr h s" "a_size h' s = a_size h s"
    "\<And>x. in_area h s x \<Longrightarrow> heap_mem h' x = heap_mem h x"
  shows "guarded h' s"
proof -
  have "16 \<le> unat (a_size h s)" using assms(1) by (simp add: guarded_def)
  then show ?thesis using guard_cells [OF assms(2,3)] assms(1,4,5,6) by (simp add: guarded_def)
qed

lemma areas_frame:
  assumes "kh_areas h U Oc" "heap_pages h' = heap_pages h" "\<And>r. r \<in> U \<union> Oc \<Longrightarrow> a_addr h' r = a_addr h r \<and> a_size h' r = a_size h r"
    "\<And>r x. r \<in> Oc \<Longrightarrow> in_area h r x \<Longrightarrow> heap_mem h' x = heap_mem h x"
  shows "kh_areas h' U Oc"
proof -
  have l: "lo h' r = lo h r \<and> hi h' r = hi h r" if "r \<in> U \<union> Oc" for r using assms(3) that by (simp add: lo_def hi_def)
  have t: "heap_top h' = heap_top h" using assms(2) by (simp add: heap_top_def)
  have "guarded h' r" if "r \<in> Oc" for r
    using that assms(1,3,4) by (intro guarded_frame [of h r h']) (auto simp: kh_areas_def)
  then show ?thesis using assms(1) l unfolding kh_areas_def area_ok_def apart_def t assms(2) by auto
qed

lemma set_guards_mem:
  assumes "area_ok h r" "unat (heap_pages h) \<le> 4096" "16 \<le> unat (a_size h r)" "\<not> in_area h r x"
  shows "heap_mem (set_guards (a_addr h r) (a_size h r) g) x = heap_mem g x"
proof -
  have "4 dvd unat (a_size h r)" using assms(1) by (auto simp: area_ok_def hi_def dvd_add_right_iff)
  then have "4 * (a_size h r div 4 - 1) = a_size h r - 4" using assms(3) by (intro size_cells)
  then show ?thesis using guard_cells [OF assms(1-3)] assms(4) by (auto simp: set_guards_def)
qed

lemma set_guards_guarded:
  assumes "area_ok h r" "unat (heap_pages h) \<le> 4096" "16 \<le> unat (a_size h r)" "a_addr g r = a_addr h r" "a_size g r = a_size h r"
  shows "guarded (set_guards (a_addr h r) (a_size h r) g) r"
proof -
  have "4 dvd unat (a_size h r)" using assms(1) by (auto simp: area_ok_def hi_def dvd_add_right_iff)
  note c = size_cells [OF assms(3) this]
  have "a_size h r - 4 \<noteq> 0" "a_size h r - 4 \<noteq> 4" using c(1) assms(3) by (auto simp: word_eq_unat)
  then show ?thesis using assms(3-5) c(2) by (auto simp: guarded_def set_guards_def)
qed


lemma occupy_spec:
  assumes "kh_det a h us fs os" "16 \<le> unat (a_size h a)" "i = KHeap_getHash (a_addr h a)"
    "h' = set_guards (a_addr h a) (a_size h a) (put_occupied a h)"
  shows "kh_inv h' us fs (os(i := a # os i))" "\<And>x. \<not> in_area h a x \<Longrightarrow> heap_mem h' x = heap_mem h x"
proof -
  let ?h = "set_guards (a_addr h a) (a_size h a) (put_occupied a h)"
  have d: "kh_shape h us fs os" "kh_areas h (insert a (set us)) (occ os)" "a \<notin> nodes us fs os" "a < heap_top h" "unat (heap_pages h) \<le> 4096"
      "area_ok h a" "a \<notin> occ os" "\<forall>i. \<forall>r\<in>set (os i). KHeap_getHash (a_addr h r) = i"
    using assms(1) by (auto simp: kh_det_def kh_areas_def not_nodes occ_def)
  have m: "heap_mem ?h x = heap_mem h x" if "\<not> in_area h a x" for x
    using set_guards_mem [OF d(6,5) assms(2) that, of "put_occupied a h"] by simp
  then show "\<not> in_area h a x \<Longrightarrow> heap_mem h' x = heap_mem h x" for x using assms(4) by simp
  have "kh_areas ?h (insert a (set us)) (occ os)"
  proof (rule areas_frame [OF d(2)])
    fix r x assume r: "r \<in> occ os" "in_area h r x"
    then have "apart h r a" using d(2,7) by (auto simp: kh_areas_def)
    then show "heap_mem ?h x = heap_mem h x" using r(2) m not_in_both by blast
  qed auto
  moreover have "guarded ?h a" by (rule set_guards_guarded [OF d(6,5) assms(2)]) simp_all
  ultimately have "kh_areas ?h (set us) (occ (os(i := a # os i)))" unfolding occ_cons by (auto simp: kh_areas_def)
  moreover have "kh_shape ?h us fs (os(i := a # os i))" using shape_put_occupied [OF d(1,3,4) assms(3)] by simp
  ultimately show "kh_inv h' us fs (os(i := a # os i))" using d(8) assms(3,4) by (simp add: kh_inv_def)
qed

lemma detach_usable:
  assumes "kh_inv h (xs @ a # ys) fs os"
  shows "kh_det a (link_usable (before None xs) (a_next h a) h) (xs @ ys) fs os"
proof -
  have "kh_areas (link_usable (before None xs) (a_next h a) h) (insert a (set (xs @ ys))) (occ os)"
    by (rule areas_frame [of h]) (use assms in \<open>auto simp: kh_inv_def\<close>)
  then show ?thesis using assms shape_unlink_usable [of h xs a ys fs os]
    by (simp add: kh_inv_def kh_det_def heap_top_def)
qed

lemma areas_subset: "kh_areas h U Oc \<Longrightarrow> U' \<subseteq> U \<Longrightarrow> kh_areas h U' Oc"
  unfolding kh_areas_def by blast

text \<open>Areas change: the areas in \<open>N\<close> are new or have new bounds, all others are as before.\<close>

lemma areas_change:
  assumes "kh_areas h U Oc" "heap_pages h' = heap_pages h" "heap_mem h' = heap_mem h" "N \<inter> Oc = {}"
    and same: "\<And>r. r \<in> U' \<union> Oc \<Longrightarrow> r \<notin> N \<Longrightarrow> r \<in> U \<union> Oc \<and> a_addr h' r = a_addr h r \<and> a_size h' r = a_size h r"
    and new: "\<And>n. n \<in> N \<Longrightarrow> area_ok h' n" "\<And>n m. n \<in> N \<Longrightarrow> m \<in> N \<Longrightarrow> n \<noteq> m \<Longrightarrow> apart h' n m"
      "\<And>n r. n \<in> N \<Longrightarrow> r \<in> U' \<union> Oc \<Longrightarrow> r \<notin> N \<Longrightarrow> apart h' n r"
  shows "kh_areas h' U' Oc"
proof -
  have l: "lo h' r = lo h r" "hi h' r = hi h r" if "r \<in> U' \<union> Oc" "r \<notin> N" for r using same [OF that] by (simp_all add: lo_def hi_def)
  have t: "heap_top h' = heap_top h" using assms(2) by (simp add: heap_top_def)
  have ok: "area_ok h' r" if "r \<in> U' \<union> Oc" for r
    using new(1) same [OF that] l [OF that] assms(1) unfolding kh_areas_def area_ok_def t by (cases "r \<in> N") auto
  have sym: "apart h' r s = apart h' s r" for r s by (auto simp: apart_def)
  have "apart h' r s" if "r \<in> U' \<union> Oc" "s \<in> U' \<union> Oc" "r \<noteq> s" for r s
  proof (cases "r \<in> N \<or> s \<in> N")
    case True
    then show ?thesis using new(2,3) that sym by blast
  next
    case False
    then have "apart h r s" using same [OF that(1)] same [OF that(2)] assms(1) that(3) unfolding kh_areas_def by blast
    then show ?thesis using l that False by (simp add: apart_def)
  qed
  moreover have "guarded h' r" if "r \<in> Oc" for r
  proof -
    have "r \<notin> N" using assms(4) that by auto
    then show ?thesis using same [of r] assms(1,3) that unfolding kh_areas_def guarded_def by simp
  qed
  ultimately show ?thesis using ok assms(1,2) unfolding kh_areas_def by simp
qed

text \<open>Splitting an area: the structure \<open>n\<close> gets the rest.\<close>

lemma split_spec:
  assumes "kh_det a h us fs os" "n \<notin> nodes us fs os" "n < heap_top h" "n \<noteq> a" "sz < a_size h a" "4 dvd unat sz" "sz \<noteq> 0"
    "h' = put_usable n (set_area a (a_addr h a) sz (set_area n (a_addr h a + sz) (a_size h a - sz) h))"
  shows "kh_det a h' (n # us) fs os" "keeps_areas (occ os) h h'" "heap_mem h' = heap_mem h" "a_addr h' a = a_addr h a" "a_size h' a = sz"
proof -
  have d: "kh_shape h us fs os" "kh_areas h (insert a (set us)) (occ os)" "a \<notin> nodes us fs os" "a < heap_top h" "unat (heap_pages h) \<le> 4096" "area_ok h a"
    "\<forall>i. \<forall>r\<in>set (os i). KHeap_getHash (a_addr h r) = i"
    using assms(1) by (auto simp: kh_det_def kh_areas_def)
  have f: "a_addr h' r = a_addr h r \<and> a_size h' r = a_size h r" if "r \<noteq> a" "r \<noteq> n" for r using that assms(8) by simp
  show "a_addr h' a = a_addr h a" "a_size h' a = sz" and mem: "heap_mem h' = heap_mem h" using assms(4,8) by simp_all
  have no: "n \<notin> occ os" "a \<notin> occ os" "n \<notin> set us" "a \<notin> set us" using assms(2) d(3) by (auto simp: nodes_def)
  then show "keeps_areas (occ os) h h'" using f unfolding keeps_areas_def by metis
  have o: "unat (a_addr h a + sz) = lo h a + unat sz" using area_offset [OF d(6,5), of sz] assms(5) by (simp add: word_less_unat)
  have "unat (a_size h a - sz) = unat (a_size h a) - unat sz" using assms(5) by (simp add: unat_minus_le)
  then have l: "lo h' n = lo h a + unat sz" "hi h' n = hi h a" "lo h' a = lo h a" "hi h' a = lo h a + unat sz"
    using o assms(4,5,8) by (simp_all add: lo_def hi_def word_less_unat)
  have z: "0 < unat sz" "lo h a + unat sz < hi h a" using assms(5,7) by (simp_all add: unat_gt_0 hi_def word_less_unat)
  have top: "heap_top h' = heap_top h" "heap_pages h' = heap_pages h" using assms(8) by (simp_all add: heap_top_def)
  have "kh_areas h' (insert a (set (n # us))) (occ os)"
  proof (rule areas_change [OF d(2), where N = "{a, n}"])
    fix m r assume "m \<in> {a, n}" "r \<in> insert a (set (n # us)) \<union> occ os" "r \<notin> {a, n}"
    then have r: "r \<noteq> a" "r \<noteq> n" "r \<in> set us \<union> occ os" "m = a \<or> m = n" by auto
    then have "apart h a r" using d(2) by (auto simp: kh_areas_def)
    then show "apart h' m r" using z r(4) f [OF r(1,2)] l by (auto simp: apart_def lo_def [of _ r] hi_def [of _ r])
  next
    show "area_ok h' m" if "m \<in> {a, n}" for m using that d(6) z assms(6) by (auto simp: area_ok_def l top)
    show "apart h' m k" if "m \<in> {a, n}" "k \<in> {a, n}" "m \<noteq> k" for m k using that l by (auto simp: apart_def)
    show "r \<in> insert a (set us) \<union> occ os \<and> a_addr h' r = a_addr h r \<and> a_size h' r = a_size h r"
      if "r \<in> insert a (set (n # us)) \<union> occ os" "r \<notin> {a, n}" for r using that f [of r] by auto
  qed (use top mem no in auto)
  moreover have "kh_shape h' (n # us) fs os" unfolding assms(8)
    by (rule shape_put_usable) (use d(1) assms(2,3) in \<open>simp_all add: heap_top_def\<close>)
  moreover have "a \<notin> nodes (n # us) fs os" using d(3) assms(4) by (simp add: not_nodes)
  moreover have "KHeap_getHash (a_addr h' r) = i" if "r \<in> set (os i)" for i r
  proof -
    have "r \<noteq> a" "r \<noteq> n" using that no by (auto simp: occ_def)
    then show ?thesis using f d(7) that by simp
  qed
  ultimately show "kh_det a h' (n # us) fs os" using d(4) top by (simp add: kh_det_def)
qed


text \<open>The result of an allocation: nothing has happened to the occupied areas and their memory, or there is one more, with the size that was asked for.\<close>

definition allocated :: "size_t \<Rightarrow> kheap \<Rightarrow> (nat \<Rightarrow> ref list) \<Rightarrow> uintptr_t \<Rightarrow> kheap \<Rightarrow> (nat \<Rightarrow> ref list) \<Rightarrow> bool" where
  "allocated sz h os p h' os' \<longleftrightarrow> keeps_areas (occ os) h h' \<and>
     (if p = 0 then occ os' = occ os \<and> heap_mem h' = heap_mem h
      else \<exists>a. a \<notin> occ os \<and> occ os' = insert a (occ os) \<and> p = a_addr h' a + 8 \<and> a_size h' a = sz
        \<and> (\<forall>x. \<not> in_area h' a x \<longrightarrow> heap_mem h' x = heap_mem h x))"

lemma alloc_area_spec:
  assumes "kh_det a h us fs os" "sz \<le> a_size h a" "16 \<le> unat sz" "4 dvd unat sz"
  shows "\<exists>p h' us' fs' os'. alloc_area ok sz a h = Some (p, h') \<and> kh_inv h' us' fs' os' \<and> allocated sz h os p h' os'
    \<and> ((\<forall>x y. ok x y) \<and> unat (heap_pages h) < 4096 \<longrightarrow> p \<noteq> 0)"
proof -
  have d: "kh_shape h us fs os" "kh_areas h (insert a (set us)) (occ os)" "a \<notin> nodes us fs os" "a < heap_top h" "unat (heap_pages h) \<le> 4096"
      "\<forall>i. \<forall>r\<in>set (os i). KHeap_getHash (a_addr h r) = i"
    using assms(1) by (auto simp: kh_det_def kh_areas_def)
  have fin: "\<exists>p h2 us2 fs2 os2. Some (a_addr g a + 4 * 2, set_guards (a_addr g a) sz (put_occupied a g)) = Some (p, h2)
      \<and> kh_inv h2 us2 fs2 os2 \<and> allocated sz h os p h2 os2 \<and> p \<noteq> 0"
    if g: "kh_det a g us1 fs1 os" "keeps_areas (occ os) h g" "heap_mem g = heap_mem h" "a_size g a = sz" for g us1 fs1
  proof -
    let ?os = "os(KHeap_getHash (a_addr g a) := a # os (KHeap_getHash (a_addr g a)))" and ?h = "set_guards (a_addr g a) sz (put_occupied a g)"
    note o = occupy_spec [OF g(1) _ refl refl, unfolded g(4), OF assms(3)]
    have ok: "area_ok g a" "unat (heap_pages g) \<le> 4096" "a \<notin> occ os" using g(1) by (auto simp: kh_det_def kh_areas_def nodes_def)
    have "unat (a_addr g a + 8) = lo g a + 8" using area_offset [OF ok(1,2), of 8] g(4) assms(3) by simp
    then have "a_addr g a + 8 \<noteq> 0" by (metis add_is_0 unat_0 zero_neq_numeral)
    moreover from this have "allocated sz h os (a_addr g a + 8) ?h ?os"
      using g(2-4) ok(3) o(2) by (auto simp: allocated_def keeps_areas_def occ_cons in_area_def lo_def hi_def)
    ultimately show ?thesis using o(1) by auto
  qed
  show ?thesis
  proof (cases "sz < a_size h a")
    case False
    then have "a_size h a = sz" using assms(2) by simp
    then show ?thesis using fin [OF assms(1)] False by (auto simp: alloc_area_def keeps_areas_def)
  next
    case True
    obtain n h1 fs1 where t: "take_free ok h = Some (n, h1)" "grows h h1" "kh_shape h1 us fs1 os"
        "\<forall>x. n = Some x \<longrightarrow> x \<notin> nodes us fs1 os \<and> x < heap_top h1" "a \<notin> nodes us fs1 os" "n \<noteq> Some a"
        "(\<forall>x y. ok x y) \<and> unat (heap_pages h) < 4096 \<longrightarrow> n \<noteq> None"
      using take_free_spec [OF d(1,5), of ok] d(3,4) by blast
    have f: "a_addr h1 = a_addr h" "a_size h1 = a_size h" "heap_mem h1 = heap_mem h" "heap_top h \<le> heap_top h1" "unat (heap_pages h1) \<le> 4096"
      using t(2) by (auto simp: grows_def)
    have ar: "kh_areas h1 (insert a (set us)) (occ os)" using d(2) t(2) grows_areas by blast
    show ?thesis
    proof (cases n)
      case None
      have "kh_inv h1 us fs1 os" using t(3) d(6) areas_subset [OF ar] f(1) by (auto simp: kh_inv_def)
      then show ?thesis using True t(1,7) None f by (auto simp: alloc_area_def allocated_def keeps_areas_def)
    next
      case (Some x)
      let ?h = "put_usable x (set_area a (a_addr h1 a) sz (set_area x (a_addr h1 a + sz) (a_size h1 a - sz) h1))"
      have xa: "x \<noteq> a" using t(6) Some by auto
      have "kh_det a h1 us fs1 os" "x \<notin> nodes us fs1 os" "x < heap_top h1" "sz < a_size h1 a" "sz \<noteq> 0"
        using t(3-5) Some True ar d(4,6) f(1,2,4) assms(3) by (auto simp: kh_det_def)
      from split_spec [OF this(1-3) xa this(4) assms(4) this(5) refl]
      have "kh_det a ?h (x # us) fs1 os" "keeps_areas (occ os) h1 ?h" "heap_mem ?h = heap_mem h1" "a_size ?h a = sz" by simp_all
      then show ?thesis using fin [of ?h "x # us" fs1] True t(1) Some f xa by (auto simp: alloc_area_def keeps_areas_def)
    qed
  qed
qed


text \<open>New memory: the range must be inside of the heap and apart from all areas.\<close>

lemma inv_memUsage [simp]: "kh_inv (h\<lparr>memUsage := m\<rparr>) us fs os = kh_inv h us fs os"
  by (simp add: kh_inv_def kh_areas_def area_ok_def apart_def guarded_def lo_def hi_def heap_top_def)

lemma doAddMemory_spec:
  assumes "kh_inv h us fs os" "unat KHEAP_START \<le> unat addr" "unat addr + unat sz \<le> heap_top h" "4 dvd unat addr" "4 dvd unat sz" "sz \<noteq> 0"
    and free: "\<And>r. r \<in> set us \<union> occ os \<Longrightarrow> hi h r \<le> unat addr \<or> unat addr + unat sz \<le> lo h r"
  shows "\<exists>b h' us' fs'. KHeap_doAddMemory ok addr sz h = Some (b, h') \<and> kh_inv h' us' fs' os \<and> keeps_areas (occ os) h h' \<and> heap_mem h' = heap_mem h
    \<and> (b \<longrightarrow> (\<exists>a. us' = a # us \<and> a_size h' a = sz))
    \<and> unat (heap_pages h') \<le> unat (heap_pages h) + 1 \<and> ((\<forall>x y. ok x y) \<and> unat (heap_pages h) < 4096 \<longrightarrow> b)"
proof -
  have d: "kh_shape h us fs os" "kh_areas h (set us) (occ os)" "unat (heap_pages h) \<le> 4096" "\<forall>i. \<forall>r\<in>set (os i). KHeap_getHash (a_addr h r) = i"
    using assms(1) by (auto simp: kh_inv_def kh_areas_def)
  obtain n h1 fs1 where t: "take_free ok h = Some (n, h1)" "grows h h1" "kh_shape h1 us fs1 os"
      "\<forall>x. n = Some x \<longrightarrow> x \<notin> nodes us fs1 os \<and> x < heap_top h1" "(\<forall>x y. ok x y) \<and> unat (heap_pages h) < 4096 \<longrightarrow> n \<noteq> None"
    using take_free_spec [OF d(1,3), of ok] by blast
  have gr: "unat (heap_pages h1) \<le> unat (heap_pages h) + 1" using t(2) by (simp add: grows_def)
  have f: "a_addr h1 = a_addr h" "a_size h1 = a_size h" "heap_mem h1 = heap_mem h" "heap_top h \<le> heap_top h1" "unat (heap_pages h1) \<le> 4096"
    using t(2) by (auto simp: grows_def)
  have ar: "kh_areas h1 (set us) (occ os)" using d(2) t(2) grows_areas by blast
  show ?thesis
  proof (cases n)
    case None
    then show ?thesis using t(1,3,5) ar d(4) f gr by (auto simp: KHeap_doAddMemory_def kh_inv_def keeps_areas_def)
  next
    case (Some a)
    let ?g = "put_usable a (set_area a addr sz h1)"
    have a: "a \<notin> nodes us fs1 os" "a < heap_top h1" "a \<notin> set us" "a \<notin> occ os" using t(4) Some by (auto simp: nodes_def)
    have "kh_areas ?g (set (a # us)) (occ os)"
    proof (rule areas_change [OF ar, where N = "{a}"])
      show "area_ok ?g n" if "n \<in> {a}" for n
        using that assms(2-6) f(4) by (auto simp: area_ok_def lo_def hi_def heap_top_def unat_gt_0)
      show "apart ?g n r" if "n \<in> {a}" "r \<in> set (a # us) \<union> occ os" "r \<notin> {a}" for n r
        using that free [of r] f(1,2) by (auto simp: apart_def lo_def hi_def)
    qed (use a in auto)
    moreover have "kh_shape ?g (a # us) fs1 os" by (rule shape_put_usable) (use t(3) a in \<open>simp_all add: heap_top_def\<close>)
    moreover have "KHeap_getHash (a_addr ?g r) = i" if "r \<in> set (os i)" for i r using that a(4) d(4) f(1) by (auto simp: occ_def)
    ultimately have "kh_inv ?g (a # us) fs1 os" by (simp add: kh_inv_def)
    moreover have "keeps_areas (occ os) h ?g" using a(4) f by (auto simp: keeps_areas_def)
    moreover have "KHeap_doAddMemory ok addr sz h = Some (True, ?g\<lparr>memUsage := memUsage ?g + sz\<rparr>)"
      using t(1) Some by (simp add: KHeap_doAddMemory_def Let_def)
    moreover have "heap_mem ?g = heap_mem h" "a_size ?g a = sz" "unat (heap_pages ?g) \<le> unat (heap_pages h) + 1" using f(3) gr by simp_all
    ultimately show ?thesis by (intro exI [of _ True] exI [of _ "?g\<lparr>memUsage := memUsage ?g + sz\<rparr>"] exI [of _ "a # us"] exI [of _ fs1])
      (simp add: keeps_areas_def)
  qed
qed

lemma loadNewSpace_spec:
  assumes "kh_inv h us fs os" "sz \<noteq> 0" "unat sz \<le> 0x1000100"
  shows "\<exists>b h' us' fs'. KHeap_loadNewSpace ok sz h = Some (b, h') \<and> kh_inv h' us' fs' os \<and> keeps_areas (occ os) h h' \<and> heap_mem h' = heap_mem h
    \<and> (b \<longrightarrow> (\<exists>a. us' = a # us \<and> sz \<le> a_size h' a))
    \<and> ((\<forall>x y. ok x y) \<and> unat (heap_pages h) + (unat sz + 4095) div 4096 + 2 \<le> 4096 \<longrightarrow> b \<and> unat (heap_pages h') < 4096)"
proof -
  let ?c = "BYTES_2_PAGES sz" and ?b = "KHEAP_START + heap_pages h * PAGE_SIZE"
  let ?h = "h\<lparr>heap_pages := heap_pages h + ?c\<rparr>"
  have c: "unat ?c = (unat sz + 4095) div 4096" using assms(3) by (intro unat_BYTES_2_PAGES) simp
  have s: "\<not> sz + PAGE_SIZE < PAGE_SIZE" using assms(3) by (simp add: word_less_unat unat_plus_nowrap PAGE_SIZE_def)
  have pg: "unat (heap_pages h) \<le> 4096" using assms(1) by (simp add: kh_inv_def kh_areas_def)
  show ?thesis
  proof (cases "(heap_pages h + ?c) * PAGE_SIZE > KHEAP_SIZE \<or> \<not> ok ?b ?c")
    case True
    then have "KHeap_loadNewSpace ok sz h = Some (False, h)" using s by (auto simp: KHeap_loadNewSpace_def KHeap_allocSpace_def Let_def)
    moreover have "\<not> ((\<forall>x y. ok x y) \<and> unat (heap_pages h) + (unat sz + 4095) div 4096 + 2 \<le> 4096)"
      using True page_room [of "heap_pages h" ?c] c by auto
    ultimately show ?thesis using assms(1) by (auto simp: keeps_areas_def)
  next
    case False
    have "unat ?c \<le> 8192" using c assms(3) by simp
    then have p: "unat (heap_pages h + ?c) = unat (heap_pages h) + unat ?c" "unat (heap_pages h) + unat ?c \<le> 4096"
      using page_limit [OF _ pg, of ?c] False by auto
    note b = page_addr [OF pg]
    have z: "unat (?c * PAGE_SIZE) = 4096 * unat ?c" using p(2) by (simp add: unat_word_ariths PAGE_SIZE_def)
    have l: "KHeap_loadNewSpace ok sz h = KHeap_doAddMemory ok ?b (?c * PAGE_SIZE) ?h"
      using s False b(2) by (simp add: KHeap_loadNewSpace_def KHeap_allocSpace_def Let_def)
    have top: "heap_top h = unat ?b" "heap_top ?h = unat ?b + 4096 * unat ?c" using b p by (simp_all add: heap_top_def)
    have "\<exists>b h' us' fs'. KHeap_doAddMemory ok ?b (?c * PAGE_SIZE) ?h = Some (b, h') \<and> kh_inv h' us' fs' os \<and> keeps_areas (occ os) ?h h'
        \<and> heap_mem h' = heap_mem ?h \<and> (b \<longrightarrow> (\<exists>a. us' = a # us \<and> a_size h' a = ?c * PAGE_SIZE))
        \<and> unat (heap_pages h') \<le> unat (heap_pages ?h) + 1 \<and> ((\<forall>x y. ok x y) \<and> unat (heap_pages ?h) < 4096 \<longrightarrow> b)"
    proof (rule doAddMemory_spec)
      show "kh_inv ?h us fs os" using assms(1) p top by (auto simp: kh_inv_def intro: areas_cong [of _ _ _ h] shape_cong [of _ h])
      show "hi ?h r \<le> unat ?b \<or> unat ?b + unat (?c * PAGE_SIZE) \<le> lo ?h r" if "r \<in> set us \<union> occ os" for r
        using assms(1) that top(1) by (auto simp: kh_inv_def kh_areas_def area_ok_def hi_def lo_def)
      show "?c * PAGE_SIZE \<noteq> 0" using z c assms(2) by (auto simp: word_eq_unat)
      show "4 dvd unat ?b" "4 dvd unat (?c * PAGE_SIZE)" using b(1) z by (simp_all add: KHEAP_START_def)
      show "unat KHEAP_START \<le> unat ?b" "unat ?b + unat (?c * PAGE_SIZE) \<le> heap_top ?h" using b(1) z top by simp_all
    qed
    moreover have "sz \<le> ?c * PAGE_SIZE" unfolding word_le_unat z c by simp
    moreover have "unat (heap_pages ?h) = unat (heap_pages h) + (unat sz + 4095) div 4096" using p c by simp
    ultimately show ?thesis unfolding l by (fastforce simp: keeps_areas_def)
  qed
qed


lemma unat_ROUND_UP_4:
  assumes "unat w + 3 < 2 ^ 32"
  shows "unat (ROUND_UP w 4) = (unat w + 3) div 4 * 4"
proof -
  have m: "(3 :: u32) = mask 2" by (simp add: mask_eq_exp_minus_1)
  have "ROUND_UP w 4 = (w + 3) AND NOT 3" by (simp add: ROUND_UP_def add_diff_eq [symmetric])
  also have "\<dots> = w + 3 - ((w + 3) AND 3)" by (rule word_and_not_mask)
  finally have r: "ROUND_UP w 4 = w + 3 - ((w + 3) AND 3)" .
  have u: "unat (w + 3) = unat w + 3" using assms by (simp add: unat_plus_nowrap)
  have "(w + 3) AND 3 = take_bit 2 (w + 3)" by (simp add: m take_bit_eq_mask)
  then have a: "unat ((w + 3) AND 3) = (unat w + 3) mod 4" using u by (simp add: take_bit_eq_mod unat_mod)
  have "(w + 3) AND 3 \<le> w + 3" by (rule word_and_le2)
  then show ?thesis unfolding r using a u by (simp add: unat_minus_le minus_mod_eq_div_mult)
qed

lemma block_size_props:
  assumes "sz \<noteq> 0" "unat sz \<le> 0x1000020"
  shows "unat (block_size sz) = (unat sz + 3) div 4 * 4 + 12" "16 \<le> unat (block_size sz)" "4 dvd unat (block_size sz)"
    "unat (block_size sz) \<le> 0x1000100" "block_size sz \<noteq> 0" "unat sz + 12 \<le> unat (block_size sz)"
proof -
  have r: "unat (ROUND_UP sz 4) = (unat sz + 3) div 4 * 4" using assms(2) by (intro unat_ROUND_UP_4) simp
  show e: "unat (block_size sz) = (unat sz + 3) div 4 * 4 + 12"
    using r assms(2) unfolding block_size_def by (subst unat_plus_nowrap) simp_all
  have "0 < unat sz" using assms(1) by (simp add: unat_gt_0)
  then show "16 \<le> unat (block_size sz)" "4 dvd unat (block_size sz)" "unat (block_size sz) \<le> 0x1000100"
      "unat sz + 12 \<le> unat (block_size sz)"
    using e assms(2) by simp_all
  then show "block_size sz \<noteq> 0" by auto
qed

lemma allocated_trans:
  assumes "keeps_areas (occ os) h h1" "heap_mem h1 = heap_mem h" "allocated sz h1 os p h' os'"
  shows "allocated sz h os p h' os'"
  using assms by (auto simp: allocated_def keeps_areas_def split: if_splits)

lemma allocated_link: "allocated sz (link_usable q n g) os p h' os' = allocated sz g os p h' os'"
  by (simp add: allocated_def keeps_areas_def)

lemma KHeap_alloc_spec:
  assumes "kh_inv h us fs os" "unat sz \<le> 0x1000020"
  shows "\<exists>p h' us' fs' os'. KHeap_alloc ok sz h = Some (p, h') \<and> kh_inv h' us' fs' os' \<and> allocated (block_size sz) h os p h' os'
    \<and> ((\<forall>x y. ok x y) \<and> sz \<noteq> 0 \<and> unat (heap_pages h) + (unat (block_size sz) + 4095) div 4096 + 2 \<le> 4096 \<longrightarrow> p \<noteq> 0)"
proof (cases "sz = 0")
  case True
  then show ?thesis using assms(1) by (auto simp: KHeap_alloc_def allocated_def keeps_areas_def)
next
  case False
  note b = block_size_props [OF False assms(2)]
  have det: "\<exists>p h' us' fs' os'. alloc_area ok (block_size sz) a (link_usable (before None xs) (a_next g a) g) = Some (p, h')
      \<and> kh_inv h' us' fs' os' \<and> allocated (block_size sz) g os p h' os' \<and> ((\<forall>x y. ok x y) \<and> unat (heap_pages g) < 4096 \<longrightarrow> p \<noteq> 0)"
    if "kh_inv g (xs @ a # ys) gs os" "block_size sz \<le> a_size g a" for g xs a ys gs
    using alloc_area_spec [OF detach_usable [OF that(1)] _ b(2,3), of ok] that(2) by (simp add: allocated_link)
  have "chain (a_next h) (usableList h) us" using assms(1) by (simp add: kh_inv_def kh_shape_def)
  then show ?thesis
  proof (cases rule: find_area_cases [of _ _ _ "\<lambda>a. a_size h a \<ge> block_size sz"])
    case none
    obtain r h1 us1 fs1 where l: "KHeap_loadNewSpace ok (block_size sz) h = Some (r, h1)" "kh_inv h1 us1 fs1 os" "keeps_areas (occ os) h h1"
        "heap_mem h1 = heap_mem h" "r \<longrightarrow> (\<exists>a. us1 = a # us \<and> block_size sz \<le> a_size h1 a)"
        "(\<forall>x y. ok x y) \<and> unat (heap_pages h) + (unat (block_size sz) + 4095) div 4096 + 2 \<le> 4096 \<longrightarrow> r \<and> unat (heap_pages h1) < 4096"
      using loadNewSpace_spec [OF assms(1) b(5,4), of ok] by blast
    show ?thesis
    proof (cases r)
      case True
      then obtain a where a: "us1 = [] @ a # us" "block_size sz \<le> a_size h1 a" using l(5) by auto
      then have "usableList h1 = Some a" using l(2) by (simp add: kh_inv_def kh_shape_def)
      moreover obtain p h' us' fs' os' where r: "alloc_area ok (block_size sz) a (h1\<lparr>usableList := a_next h1 a\<rparr>) = Some (p, h')"
          "kh_inv h' us' fs' os'" "allocated (block_size sz) h1 os p h' os'"
          "(\<forall>x y. ok x y) \<and> unat (heap_pages h1) < 4096 \<longrightarrow> p \<noteq> 0"
        using det [OF l(2) [unfolded a(1)] a(2)] by (simp add: link_usable_def) blast
      ultimately have "KHeap_alloc ok sz h = Some (p, h')"
        using none(2) l(1) True False by (simp add: KHeap_alloc_def Let_def)
      then show ?thesis using r(2,4) l(6) allocated_trans [OF l(3,4) r(3)] by blast
    next
      case f: False
      then have "KHeap_alloc ok sz h = Some (0, h1)" using none(2) l(1) False by (simp add: KHeap_alloc_def Let_def)
      moreover have "allocated (block_size sz) h os 0 h1 os" using l(3,4) by (simp add: allocated_def)
      ultimately show ?thesis using l(2,6) f by blast
    qed
  next
    case (some ys a zs)
    then obtain p h' us' fs' os' where r: "alloc_area ok (block_size sz) a (link_usable (before None ys) (a_next h a) h) = Some (p, h')"
        "kh_inv h' us' fs' os'" "allocated (block_size sz) h os p h' os'" "(\<forall>x y. ok x y) \<and> unat (heap_pages h) < 4096 \<longrightarrow> p \<noteq> 0"
      using det [of h ys a zs fs] assms(1) by blast
    then have "KHeap_alloc ok sz h = Some (p, h')" using some(4) False by (simp add: KHeap_alloc_def Let_def)
    then show ?thesis using r(2-4) by force
  qed
qed


section \<open>Release\<close>

text \<open>What the loop over the usable areas computes: the area with a property and the one before it in the list.\<close>

definition sel :: "(ref \<Rightarrow> bool) \<Rightarrow> ref list \<Rightarrow> ref option \<times> ref option" where
  "sel P xs = (case find P xs of None \<Rightarrow> (None, None) | Some a \<Rightarrow> (Some a, before None (takeWhile (\<lambda>x. x \<noteq> a) xs)))"

lemma find_append: "find P (xs @ ys) = (case find P xs of None \<Rightarrow> find P ys | Some a \<Rightarrow> Some a)"
  by (induction xs) auto

lemma find_in: "find P xs = Some a \<Longrightarrow> P a \<and> a \<in> set xs"
  by (induction xs) (auto split: if_splits)

lemma sel_append: "fst (sel P xs) \<noteq> None \<Longrightarrow> sel P (xs @ ys) = sel P xs"
  by (auto simp: sel_def find_append takeWhile_append1 dest: find_in split: option.splits)

lemma sel_snoc:
  assumes "x \<notin> set xs" "P x \<Longrightarrow> \<forall>y\<in>set xs. \<not> P y"
  shows "sel P (xs @ [x]) = (if P x then (Some x, before None xs) else sel P xs)"
proof (cases "P x")
  case True
  then have "find P xs = None" using assms(2) by (simp add: find_None_iff)
  moreover have "takeWhile (\<lambda>y. y \<noteq> x) (xs @ [x]) = xs" using assms(1) by (subst takeWhile_append2) auto
  ultimately show ?thesis using True by (simp add: sel_def find_append)
next
  case False
  then show ?thesis
    by (cases "find P xs") (auto simp: sel_def find_append takeWhile_append1 dest!: find_in)
qed

lemma sel_cases:
  obtains (none) "sel P xs = (None, None)" "\<forall>x\<in>set xs. \<not> P x"
  | (some) ys a zs where "sel P xs = (Some a, before None ys)" "xs = ys @ a # zs" "P a" "a \<notin> set ys"
proof (cases "find P xs")
  case None
  then have "\<forall>x\<in>set xs. \<not> P x" by (simp add: find_None_iff)
  then show ?thesis using none None by (simp add: sel_def)
next
  case (Some a)
  then obtain ys zs where "xs = ys @ a # zs" "a \<notin> set ys" using find_in [OF Some] split_list_first [of a xs] by auto
  moreover from this have "takeWhile (\<lambda>x. x \<noteq> a) xs = ys" by (induction ys arbitrary: xs) auto
  ultimately show ?thesis using some [of a ys zs] find_in [OF Some] Some by (simp add: sel_def)
qed

lemma adj_loop_spec:
  fixes h b sz
  defines "P \<equiv> \<lambda>x. a_addr h x + a_size h x = b" and "N \<equiv> \<lambda>x. a_addr h x = b + sz"
  assumes "chain (a_next h) p rest" "distinct (dn @ rest)" "\<forall>x\<in>set (dn @ rest). \<forall>y\<in>set (dn @ rest). P x \<and> P y \<longrightarrow> x = y"
    "\<forall>x\<in>set (dn @ rest). \<forall>y\<in>set (dn @ rest). N x \<and> N y \<longrightarrow> x = y" "fst (sel P dn) = None \<or> fst (sel N dn) = None"
  shows "adj_loop h b sz (sel P dn) (sel N dn) (before None dn) p = Some (sel P (dn @ rest), sel N (dn @ rest))"
  using assms(3-)
proof (induction rest arbitrary: dn p)
  case Nil
  then show ?case by (subst adj_loop.simps) simp
next
  case (Cons x rest)
  have x: "x \<notin> set dn" "p = Some x" using Cons.prems by auto
  have "P x \<Longrightarrow> \<forall>y\<in>set dn. \<not> P y" "N x \<Longrightarrow> \<forall>y\<in>set dn. \<not> N y" using Cons.prems(3,4) x(1) by auto
  then have s: "sel P (dn @ [x]) = (if P x then (Some x, before None dn) else sel P dn)"
      "sel N (dn @ [x]) = (if N x then (Some x, before None dn) else sel N dn)"
    using sel_snoc x(1) by metis+
  have step: "adj_loop h b sz (sel P dn) (sel N dn) (before None dn) p =
      (if fst (sel P (dn @ [x])) \<noteq> None \<and> fst (sel N (dn @ [x])) \<noteq> None then Some (sel P (dn @ [x]), sel N (dn @ [x]))
       else adj_loop h b sz (sel P (dn @ [x])) (sel N (dn @ [x])) (Some x) (a_next h x))"
  proof -
    have "(a_addr h x + a_size h x = b) = P x" "(a_addr h x = b + sz) = N x" by (simp_all add: P_def N_def)
    then show ?thesis by (subst adj_loop.simps) (simp add: x(2) s Let_def)
  qed
  show ?case
  proof (cases "fst (sel P (dn @ [x])) \<noteq> None \<and> fst (sel N (dn @ [x])) \<noteq> None")
    case True
    then show ?thesis using step sel_append [of P "dn @ [x]" rest] sel_append [of N "dn @ [x]" rest] by simp
  next
    case False
    have "adj_loop h b sz (sel P (dn @ [x])) (sel N (dn @ [x])) (before None (dn @ [x])) (a_next h x) =
        Some (sel P ((dn @ [x]) @ rest), sel N ((dn @ [x]) @ rest))"
      by (rule Cons.IH) (use Cons.prems False in auto)
    then show ?thesis using step False by auto
  qed
qed

lemma detach_occupied:
  assumes "kh_inv h us fs os" "os i = xs @ a # ys"
    "h' = (case before None xs of Some p \<Rightarrow> h\<lparr>a_next := (a_next h)(p := a_next h a)\<rparr>
      | None \<Rightarrow> h\<lparr>occupiedMap := (occupiedMap h)(i := a_next h a)\<rparr>)"
  shows "kh_det a h' us fs (os(i := xs @ ys))" "occ (os(i := xs @ ys)) = occ os - {a}"
    "a_addr h' = a_addr h" "a_size h' = a_size h" "heap_mem h' = heap_mem h" "a_next h' = (case before None xs of Some p \<Rightarrow> (a_next h)(p := a_next h a) | None \<Rightarrow> a_next h)"
    "usableList h' = usableList h"
proof -
  have sh: "kh_shape h us fs os" using assms(1) by (simp add: kh_inv_def)
  show f: "a_addr h' = a_addr h" "a_size h' = a_size h" "heap_mem h' = heap_mem h"
    "a_next h' = (case before None xs of Some p \<Rightarrow> (a_next h)(p := a_next h a) | None \<Rightarrow> a_next h)" "usableList h' = usableList h"
    using assms(3) by auto
  have g: "heap_pages h' = heap_pages h" using assms(3) by auto
  note u = shape_unlink_occupied [of h us fs os i xs a ys, OF sh assms(2), folded assms(3)]
  have b: "bucket h us fs os i" using sh by (simp add: kh_shape_def)
  show o: "occ (os(i := xs @ ys)) = occ os - {a}"
  proof
    show "occ (os(i := xs @ ys)) \<subseteq> occ os - {a}" using u(2) assms(2)
      by (auto simp: occ_def not_nodes split: if_splits)
    show "occ os - {a} \<subseteq> occ (os(i := xs @ ys))"
    proof
      fix x assume "x \<in> occ os - {a}"
      then obtain j where "x \<in> set (os j)" "x \<noteq> a" by (auto simp: occ_def)
      then have "x \<in> set ((os(i := xs @ ys)) j)" using assms(2) by auto
      then show "x \<in> occ (os(i := xs @ ys))" by (auto simp: occ_def simp del: fun_upd_apply)
    qed
  qed
  have in_o: "a \<in> occ os" using assms(2) by (auto simp: occ_def) (metis in_set_conv_decomp)
  have "kh_areas h' (set us) (occ os)" by (rule areas_frame [of h]) (use assms(1) f g in \<open>auto simp: kh_inv_def\<close>)
  then have "kh_areas h' (insert a (set us)) (occ os - {a})" using in_o unfolding kh_areas_def by blast
  moreover have "KHeap_getHash (a_addr h r) = j" if "r \<in> set ((os(i := xs @ ys)) j)" for j r
    using that assms(1,2) by (auto simp: kh_inv_def split: if_splits)
  ultimately show "kh_det a h' us fs (os(i := xs @ ys))"
    using u f g unfolding kh_det_def o by (simp add: heap_top_def)
qed


text \<open>Taking two usable areas off the list, as \<^verbatim>\<open>free\<close> does it. The area before \<open>p\<close> may have been \<open>n\<close>, which is not in the list any more; then
  it is the one that was before \<open>n\<close>.\<close>

lemma shape_unlink_two:
  assumes "kh_shape h us fs os" "us = xs @ p # ys" "us = zs @ n # ws" "p \<noteq> n" "h1 = link_usable (before None zs) (a_next h n) h"
    "h2 = (if before None xs = Some n then link_usable (before None zs) (a_next h1 p) h1 else link_usable (before None xs) (a_next h1 p) h1)"
  shows "\<exists>us'. kh_shape h2 us' fs os \<and> set us' = set us - {p, n}"
proof -
  have dist: "distinct us" using assms(1) by (simp add: kh_shape_def)
  have s1: "kh_shape h1 (zs @ ws) fs os" using shape_unlink_usable(1) assms(1,3,5) by blast
  have "n \<in> set xs \<or> n \<in> set ys" using assms(2-4) by (metis Un_iff in_set_conv_decomp set_ConsD set_append)
  then show ?thesis
  proof
    assume "n \<in> set xs"
    then obtain x1 x2 where x: "xs = x1 @ n # x2" by (meson split_list)
    then have "us = x1 @ n # (x2 @ p # ys)" using assms(2) by simp
    then have z: "zs = x1" "ws = x2 @ p # ys" using assms(3) dist append_Cons_eq_iff [of n x1 "x2 @ p # ys" zs ws] by auto
    have k: "kh_shape h1 ((x1 @ x2) @ p # ys) fs os" using s1 z by simp
    have "x2 = [] \<or> last x2 \<noteq> n" using dist assms(2) x last_in_set [of x2] by auto
    then have "h2 = link_usable (before None (x1 @ x2)) (a_next h1 p) h1" using assms(6) x z(1) by auto
    then have "kh_shape h2 ((x1 @ x2) @ ys) fs os" using shape_unlink_usable(1) [OF k] by simp
    moreover have "set ((x1 @ x2) @ ys) = set us - {p, n}" using dist assms(2) x by auto
    ultimately show ?thesis by blast
  next
    assume "n \<in> set ys"
    then obtain y1 y2 where y: "ys = y1 @ n # y2" by (meson split_list)
    then have "us = (xs @ p # y1) @ n # y2" using assms(2) by simp
    then have z: "zs = xs @ p # y1" "ws = y2" using assms(3) dist append_Cons_eq_iff [of n "xs @ p # y1" y2 zs ws] by auto
    have k: "kh_shape h1 (xs @ p # (y1 @ y2)) fs os" using s1 z by simp
    have "xs = [] \<or> last xs \<noteq> n" using dist assms(2) y last_in_set [of xs] by auto
    then have "h2 = link_usable (before None xs) (a_next h1 p) h1" using assms(6) by auto
    then have "kh_shape h2 (xs @ (y1 @ y2)) fs os" using shape_unlink_usable(1) [OF k] by simp
    moreover have "set (xs @ (y1 @ y2)) = set us - {p, n}" using dist assms(2) y by auto
    ultimately show ?thesis by blast
  qed
qed

text \<open>Two areas that meet.\<close>

lemma meets_iff:
  assumes "area_ok h x" "area_ok h a" "unat (heap_pages h) \<le> 4096"
  shows "a_addr h x + a_size h x = a_addr h a \<longleftrightarrow> hi h x = lo h a"
  using area_offset [OF assms(1,3), of "a_size h x"] by (auto simp: word_eq_unat hi_def lo_def)

lemma meet_offset:
  assumes "area_ok h p" "area_ok h a" "unat (heap_pages h) \<le> 4096" "hi h p = lo h a"
  shows "unat (a_size h p + a_size h a) = unat (a_size h p) + unat (a_size h a)"
  using assms heap_top_bound [OF assms(3)] by (subst unat_plus_nowrap) (auto simp: area_ok_def hi_def)

lemma merge_prev_spec:
  assumes "kh_det a h us fs os" "p \<in> set us" "hi h p = lo h a"
    "h' = put_free a (set_area p (a_addr h p) (a_size h p + a_size h a) h)"
  shows "kh_inv h' us (a # fs) os" "keeps_areas (occ os) h h'" "heap_mem h' = heap_mem h"
proof -
  have d: "kh_shape h us fs os" "kh_areas h (insert a (set us)) (occ os)" "a \<notin> nodes us fs os" "a < heap_top h" "unat (heap_pages h) \<le> 4096"
      "area_ok h a" "area_ok h p" "\<forall>i. \<forall>r\<in>set (os i). KHeap_getHash (a_addr h r) = i"
    using assms(1,2) by (auto simp: kh_det_def kh_areas_def)
  have n: "p \<notin> occ os" "a \<notin> occ os" "a \<noteq> p" using d(1,3) assms(2) by (auto simp: kh_shape_def bucket_def nodes_def occ_def)
  have f: "a_addr h' = a_addr h" "\<And>r. r \<noteq> p \<Longrightarrow> a_size h' r = a_size h r" "heap_mem h' = heap_mem h" "heap_pages h' = heap_pages h"
    using assms(4) by (auto simp: fun_upd_triv)
  have l: "lo h' p = lo h p" "hi h' p = hi h a"
    using meet_offset [OF d(7,6,5) assms(3)] assms(3,4) by (simp_all add: lo_def hi_def)
  show "heap_mem h' = heap_mem h" by (rule f)
  show "keeps_areas (occ os) h h'" using f(1,2) n(1) unfolding keeps_areas_def by metis
  have "kh_areas h' (set us) (occ os)"
  proof (rule areas_change [OF d(2), where N = "{p}"])
    show "area_ok h' m" if "m \<in> {p}" for m using that d(6,7) l assms(3) f(4) by (auto simp: area_ok_def heap_top_def)
    fix m r assume "m \<in> {p}" "r \<in> set us \<union> occ os" "r \<notin> {p}"
    then have r: "m = p" "r \<in> set us \<union> occ os" "r \<noteq> p" "r \<noteq> a" using d(3) by (auto simp: nodes_def)
    then have "apart h p r" "apart h a r" "area_ok h r" using d(2) assms(2) by (auto simp: kh_areas_def)
    moreover have "lo h' r = lo h r" "hi h' r = hi h r" using f(1,2) r(3) by (simp_all add: lo_def hi_def)
    ultimately show "apart h' m r" using r(1) l assms(3) by (auto simp: apart_def area_ok_def)
  qed (use f n assms(2) in auto)
  moreover have "kh_shape h' us (a # fs) os" unfolding assms(4) by (rule shape_put_free) (use d in \<open>simp_all add: heap_top_def\<close>)
  ultimately show "kh_inv h' us (a # fs) os" using d(8) f(1) by (simp add: kh_inv_def)
qed

lemma merge_next_spec:
  assumes "kh_det a h us fs os" "n \<in> set us" "lo h n = hi h a"
    "h' = put_free a (set_area n (a_addr h a) (a_size h n + a_size h a) h)"
  shows "kh_inv h' us (a # fs) os" "keeps_areas (occ os) h h'" "heap_mem h' = heap_mem h"
proof -
  have d: "kh_shape h us fs os" "kh_areas h (insert a (set us)) (occ os)" "a \<notin> nodes us fs os" "a < heap_top h" "unat (heap_pages h) \<le> 4096"
      "area_ok h a" "area_ok h n" "\<forall>i. \<forall>r\<in>set (os i). KHeap_getHash (a_addr h r) = i"
    using assms(1,2) by (auto simp: kh_det_def kh_areas_def)
  have n: "n \<notin> occ os" "a \<notin> occ os" "a \<noteq> n" using d(1,3) assms(2) by (auto simp: kh_shape_def bucket_def nodes_def occ_def)
  have f: "\<And>r. r \<noteq> n \<Longrightarrow> a_addr h' r = a_addr h r \<and> a_size h' r = a_size h r" "heap_mem h' = heap_mem h" "heap_pages h' = heap_pages h"
    using assms(4) by auto
  have l: "lo h' n = lo h a" "hi h' n = hi h n"
    using meet_offset [OF d(6,7,5)] assms(3,4) by (simp_all add: lo_def hi_def add.commute)
  show "heap_mem h' = heap_mem h" by (rule f)
  show "keeps_areas (occ os) h h'" using f(1) n(1) unfolding keeps_areas_def by metis
  have "kh_areas h' (set us) (occ os)"
  proof (rule areas_change [OF d(2), where N = "{n}"])
    show "area_ok h' m" if "m \<in> {n}" for m using that d(6,7) l assms(3) f(3) by (auto simp: area_ok_def heap_top_def)
    fix m r assume "m \<in> {n}" "r \<in> set us \<union> occ os" "r \<notin> {n}"
    then have r: "m = n" "r \<in> set us \<union> occ os" "r \<noteq> n" "r \<noteq> a" using d(3) by (auto simp: nodes_def)
    then have "apart h n r" "apart h a r" "area_ok h r" using d(2) assms(2) by (auto simp: kh_areas_def)
    moreover have "lo h' r = lo h r" "hi h' r = hi h r" using f(1) [OF r(3)] by (simp_all add: lo_def hi_def)
    ultimately show "apart h' m r" using r(1) l assms(3) by (auto simp: apart_def area_ok_def)
  qed (use f n assms(2) in auto)
  moreover have "kh_shape h' us (a # fs) os" unfolding assms(4) by (rule shape_put_free) (use d in \<open>simp_all add: heap_top_def\<close>)
  moreover have "KHeap_getHash (a_addr h' r) = i" if "r \<in> set (os i)" for i r
  proof -
    have "r \<noteq> n" using that n(1) by (auto simp: occ_def)
    then show ?thesis using f(1) d(8) that by simp
  qed
  ultimately show "kh_inv h' us (a # fs) os" by (simp add: kh_inv_def)
qed


lemma merge_both_spec:
  assumes "kh_det a h us fs os" "us = xs @ p # ys" "us = zs @ n # ws" "hi h p = lo h a" "lo h n = hi h a"
  shows "\<exists>us'. kh_inv (KHeap_merge a (Some p, before None xs) (Some n, before None zs) h) us' (p # n # fs) os"
    "keeps_areas (occ os) h (KHeap_merge a (Some p, before None xs) (Some n, before None zs) h)"
    "heap_mem (KHeap_merge a (Some p, before None xs) (Some n, before None zs) h) = heap_mem h"
proof -
  let ?h0 = "set_area a (a_addr h p) (a_size h a + (a_size h p + a_size h n)) h"
  define h1 where "h1 = link_usable (before None zs) (a_next ?h0 n) ?h0"
  define h2 where "h2 = (if before None xs = Some n then link_usable (before None zs) (a_next h1 p) h1 else link_usable (before None xs) (a_next h1 p) h1)"
  let ?h' = "KHeap_merge a (Some p, before None xs) (Some n, before None zs) h"
  have d: "kh_shape h us fs os" "kh_areas h (insert a (set us)) (occ os)" "a \<notin> nodes us fs os" "a < heap_top h" "unat (heap_pages h) \<le> 4096"
      "area_ok h a" "\<forall>x\<in>set us. area_ok h x" "\<forall>i. \<forall>r\<in>set (os i). KHeap_getHash (a_addr h r) = i"
    using assms(1) by (auto simp: kh_det_def kh_areas_def)
  have in_us: "p \<in> set us" "n \<in> set us" using assms(2,3) by (metis in_set_conv_decomp)+
  then have okp: "area_ok h p" "area_ok h n" using d(7) by auto
  have ne: "p \<noteq> n" "a \<noteq> p" "a \<noteq> n" "a \<notin> occ os"
    using d(3,6) okp assms(4,5) in_us by (auto simp: area_ok_def nodes_def)
  obtain us' where us': "kh_shape h2 us' fs os" "set us' = set us - {p, n}"
    using shape_unlink_two [OF _ assms(2,3) ne(1) h1_def h2_def, of fs os] d(1) by auto
  have pn: "p \<notin> nodes us' fs os" "n \<notin> nodes us' fs os" "p < heap_top h" "n < heap_top h" "a \<notin> nodes us' fs os"
    using d(1,3) in_us us'(2) by (auto simp: kh_shape_def bucket_def not_nodes)
  have fl: "a_addr h2 = (a_addr h)(a := a_addr h p)" "a_size h2 = (a_size h)(a := a_size h a + (a_size h p + a_size h n))"
      "heap_mem h2 = heap_mem h" "heap_pages h2 = heap_pages h" by (simp_all add: h2_def h1_def)
  have top: "heap_top h2 = heap_top h" by (simp add: heap_top_def fl)
  have m: "?h' = put_free p (put_free n (put_usable a h2))"
    by (simp add: KHeap_merge_def Let_def put_free_def h2_def h1_def fun_upd_twist [OF ne(1)])
  have f: "\<And>r. r \<noteq> a \<Longrightarrow> a_addr ?h' r = a_addr h r \<and> a_size ?h' r = a_size h r" "heap_mem ?h' = heap_mem h" "heap_pages ?h' = heap_pages h"
    unfolding m by (simp_all add: fl)
  show "heap_mem ?h' = heap_mem h" by (rule f)
  show "keeps_areas (occ os) h ?h'" using f(1) ne(4) unfolding keeps_areas_def by metis
  have "unat (a_size h p) + unat (a_size h a) + unat (a_size h n) < 2 ^ 32"
    using okp(2) heap_top_bound [OF d(5)] assms(4,5) by (simp add: area_ok_def hi_def)
  then have "unat (a_size h a + (a_size h p + a_size h n)) = unat (a_size h p) + unat (a_size h a) + unat (a_size h n)"
    by (simp add: unat_plus_nowrap)
  then have l: "lo ?h' a = lo h p" "hi ?h' a = hi h n" unfolding m lo_def hi_def using assms(4,5) by (simp_all add: fl lo_def hi_def)
  have "kh_areas ?h' (insert a (set us')) (occ os)"
  proof (rule areas_change [OF d(2), where N = "{a}"])
    show "area_ok ?h' k" if "k \<in> {a}" for k using that d(6) okp l assms(4,5) f(3) by (auto simp: area_ok_def heap_top_def)
    fix k r assume "k \<in> {a}" "r \<in> insert a (set us') \<union> occ os" "r \<notin> {a}"
    then have r: "k = a" "r \<in> set us \<union> occ os" "r \<noteq> a" "r \<noteq> p" "r \<noteq> n"
      using us'(2) d(1) in_us by (auto simp: kh_shape_def bucket_def occ_def)
    then have "apart h p r" "apart h a r" "apart h n r" "area_ok h r" using d(2) in_us by (auto simp: kh_areas_def)
    moreover have "lo ?h' r = lo h r" "hi ?h' r = hi h r" using f(1) [OF r(3)] by (simp_all add: lo_def hi_def)
    ultimately show "apart ?h' k r" using r(1) l assms(4,5) d(6) okp by (auto simp: apart_def area_ok_def)
  qed (use f ne us'(2) in auto)
  moreover have "kh_shape ?h' (a # us') (p # n # fs) os" unfolding m
    using us'(1) pn ne top d(4) by (intro shape_put_free shape_put_usable) (auto simp: not_nodes heap_top_def)
  moreover have "KHeap_getHash (a_addr ?h' r) = i" if "r \<in> set (os i)" for i r
  proof -
    have "r \<noteq> a" using that ne(4) by (auto simp: occ_def)
    then show ?thesis using f(1) d(8) that by simp
  qed
  ultimately show "\<exists>us'. kh_inv ?h' us' (p # n # fs) os" unfolding kh_inv_def by (intro exI [of _ "a # us'"]) simp
qed

lemma KHeap_merge_spec:
  assumes "kh_det a h us fs os" "prev = sel (\<lambda>x. a_addr h x + a_size h x = a_addr h a) us" "next = sel (\<lambda>x. a_addr h x = a_addr h a + a_size h a) us"
  shows "\<exists>us' fs'. kh_inv (KHeap_merge a prev next h) us' fs' os \<and> keeps_areas (occ os) h (KHeap_merge a prev next h)
    \<and> heap_mem (KHeap_merge a prev next h) = heap_mem h"
proof -
  have d: "kh_shape h us fs os" "kh_areas h (insert a (set us)) (occ os)" "a \<notin> nodes us fs os" "a < heap_top h" "unat (heap_pages h) \<le> 4096"
      "area_ok h a" "\<forall>x\<in>set us. area_ok h x" "\<forall>i. \<forall>r\<in>set (os i). KHeap_getHash (a_addr h r) = i"
    using assms(1) by (auto simp: kh_det_def kh_areas_def)
  have pm: "a_addr h x + a_size h x = a_addr h a \<longleftrightarrow> hi h x = lo h a" if "x \<in> set us" for x using meets_iff d(5-7) that by blast
  have nm: "a_addr h x = a_addr h a + a_size h a \<longleftrightarrow> lo h x = hi h a" if "x \<in> set us" for x
    using meets_iff [OF d(6) _ d(5), of x] d(7) that by (auto dest: sym)
  show ?thesis
  proof (cases rule: sel_cases [of "\<lambda>x. a_addr h x + a_size h x = a_addr h a" us])
    case p: none
    show ?thesis
    proof (cases rule: sel_cases [of "\<lambda>x. a_addr h x = a_addr h a + a_size h a" us])
      case none
      have m: "KHeap_merge a prev next h = put_usable a h" unfolding assms(2,3) p none by (simp add: KHeap_merge_def)
      have "kh_shape (put_usable a h) (a # us) fs os" using shape_put_usable d by blast
      moreover have "kh_areas (put_usable a h) (set (a # us)) (occ os)" by (rule areas_frame [OF d(2) [folded list.set(2)]]) auto
      ultimately show ?thesis unfolding m using d(8) by (intro exI [of _ "a # us"] exI [of _ fs]) (auto simp: kh_inv_def keeps_areas_def)
    next
      case (some ys n zs)
      then have n: "n \<in> set us" "lo h n = hi h a" using nm [of n] by auto
      have m: "KHeap_merge a prev next h = put_free a (set_area n (a_addr h a) (a_size h n + a_size h a) h)"
        unfolding assms(2,3) p some(1) by (simp add: KHeap_merge_def)
      show ?thesis using merge_next_spec [OF assms(1) n m] by blast
    qed
  next
    case p: (some ys p zs)
    then have pp: "p \<in> set us" "hi h p = lo h a" using pm [of p] by auto
    show ?thesis
    proof (cases rule: sel_cases [of "\<lambda>x. a_addr h x = a_addr h a + a_size h a" us])
      case none
      have m: "KHeap_merge a prev next h = put_free a (set_area p (a_addr h p) (a_size h p + a_size h a) h)"
        unfolding assms(2,3) p(1) none by (simp add: KHeap_merge_def)
      show ?thesis using merge_prev_spec [OF assms(1) pp m] by blast
    next
      case (some vs n ws)
      then have n: "n \<in> set us" "lo h n = hi h a" using nm [of n] by auto
      show ?thesis unfolding assms(2,3) p(1) some(1) using merge_both_spec [OF assms(1) p(2) some(2) pp(2) n(2)] by blast
    qed
  qed
qed


lemma inv_area:
  assumes "kh_inv h us fs os" "r \<in> set us \<union> occ os"
  shows "area_ok h r" "unat (heap_pages h) \<le> 4096"
  using assms by (auto simp: kh_inv_def kh_areas_def)

lemma inv_apart:
  assumes "kh_inv h us fs os" "r \<in> set us \<union> occ os" "s \<in> set us \<union> occ os" "r \<noteq> s"
  shows "apart h r s"
  using assms by (auto simp: kh_inv_def kh_areas_def)

lemma find_occupied:
  assumes "kh_inv h us fs os" "a \<in> occ os" "i = KHeap_getHash (a_addr h a)"
  obtains xs ys where "os i = xs @ a # ys"
    "find_area (\<lambda>x. a_addr h x = a_addr h a) (a_next h) None (occupiedMap h i) = Some (before None xs, Some a)"
proof -
  obtain j where "a \<in> set (os j)" using assms(2) by (auto simp: occ_def)
  moreover then have "j = i" using assms(1,3) by (auto simp: kh_inv_def)
  ultimately obtain xs ys where s: "os i = xs @ a # ys" by (meson split_list)
  have b: "bucket h us fs os i" using assms(1) by (simp add: kh_inv_def kh_shape_def)
  have "a_addr h x \<noteq> a_addr h a" if "x \<in> set xs" for x
  proof -
    have "x \<in> occ os" using that s by (auto simp: occ_def intro!: exI [of _ i])
    moreover have "x \<noteq> a" using b that s by (auto simp: bucket_def)
    ultimately have "apart h x a" "area_ok h x" "area_ok h a" using inv_apart [OF assms(1)] inv_area [OF assms(1)] assms(2) by auto
    then show ?thesis by (auto simp: apart_def area_ok_def lo_def)
  qed
  then have "find_area (\<lambda>x. a_addr h x = a_addr h a) (a_next h) None (occupiedMap h i) = Some (before None xs, Some a)"
    using b s by (intro find_area_Some [where ys = ys]) (auto simp: bucket_def)
  then show ?thesis using that s by blast
qed

lemma adj_loop_result:
  assumes "kh_inv h us fs os" "a \<in> occ os"
  shows "adj_loop h (a_addr h a) (a_size h a) (None, None) (None, None) None (usableList h) =
    Some (sel (\<lambda>x. a_addr h x + a_size h x = a_addr h a) us, sel (\<lambda>x. a_addr h x = a_addr h a + a_size h a) us)"
proof -
  have ok: "area_ok h x" "area_ok h a" "unat (heap_pages h) \<le> 4096" if "x \<in> set us" for x
    using that inv_area [OF assms(1)] assms(2) by auto
  have pm: "hi h x = lo h a" if "x \<in> set us" "a_addr h x + a_size h x = a_addr h a" for x
    using meets_iff [OF ok [OF that(1)]] that(2) by simp
  have e: "sel P [] = (None, None)" for P by (simp add: sel_def)
  have "adj_loop h (a_addr h a) (a_size h a) (sel (\<lambda>x. a_addr h x + a_size h x = a_addr h a) []) (sel (\<lambda>x. a_addr h x = a_addr h a + a_size h a) [])
      (before None []) (usableList h) =
    Some (sel (\<lambda>x. a_addr h x + a_size h x = a_addr h a) ([] @ us), sel (\<lambda>x. a_addr h x = a_addr h a + a_size h a) ([] @ us))"
  proof (rule adj_loop_spec)
    show "chain (a_next h) (usableList h) us" "distinct ([] @ us)" using assms(1) by (simp_all add: kh_inv_def kh_shape_def)
    have "x = y" if "x \<in> set us" "y \<in> set us" "hi h x = hi h y \<or> lo h x = lo h y" for x y
      using inv_apart [OF assms(1), of x y] ok(1) [OF that(1)] ok(1) [OF that(2)] that by (cases "x = y") (auto simp: apart_def area_ok_def)
    then show "\<forall>x\<in>set ([] @ us). \<forall>y\<in>set ([] @ us). a_addr h x + a_size h x = a_addr h a \<and> a_addr h y + a_size h y = a_addr h a \<longrightarrow> x = y"
        "\<forall>x\<in>set ([] @ us). \<forall>y\<in>set ([] @ us). a_addr h x = a_addr h a + a_size h a \<and> a_addr h y = a_addr h a + a_size h a \<longrightarrow> x = y"
      using pm by (auto simp: lo_def)
  qed (simp add: e)
  then show ?thesis by (simp add: e)
qed

lemma end_guard_cell:
  assumes "16 \<le> unat (sz :: u32)" "4 dvd unat sz"
  shows "4 * ((sz - 12) div 4 + 2) = sz - 4"
proof -
  obtain k where k: "unat sz = 4 * k" using assms(2) by (auto simp: dvd_def)
  have m: "unat (sz - 12) = 4 * k - 12" "unat (sz - 4) = 4 * k - 4" using size_cells [OF assms] k by simp_all
  then have d: "unat ((sz - 12) div 4) = k - 3" by (simp add: unat_div)
  have "4 * k < 2 ^ 32" using unat_lt_2p32 [of sz] k by simp
  then have "unat ((sz - 12) div 4 + 2) = k - 1" using d assms(1) k by (subst unat_plus_nowrap) auto
  then have "unat (4 * ((sz - 12) div 4 + 2)) = 4 * (k - 1) mod 2 ^ 32" by (subst unat_word_ariths(2)) simp
  also have "\<dots> = 4 * k - 4" using k unat_lt_2p32 [of sz] by simp
  finally show ?thesis using m(2) by (simp add: word_eq_unat)
qed

lemma KHeap_free_spec:
  assumes "kh_inv h us fs os" "a \<in> occ os"
  shows "\<exists>h' us' fs' os'. KHeap_free (a_addr h a + 8) h = Some h' \<and> kh_inv h' us' fs' os' \<and> occ os' = occ os - {a}
    \<and> keeps_areas (occ os - {a}) h h' \<and> heap_mem h' = heap_mem h"
proof -
  have ok: "area_ok h a" "unat (heap_pages h) \<le> 4096" using inv_area [OF assms(1)] assms(2) by auto
  have g: "guarded h a" using assms by (auto simp: kh_inv_def kh_areas_def)
  then have sz: "16 \<le> unat (a_size h a)" by (simp add: guarded_def)
  have dv: "4 dvd unat (a_size h a)" using ok(1) by (auto simp: area_ok_def hi_def dvd_add_right_iff)
  have "unat (a_addr h a + 8) = lo h a + 8" using area_offset [OF ok, of 8] sz by simp
  then have nz: "a_addr h a + 8 \<noteq> 0" by (metis add_is_0 unat_0 zero_neq_numeral)
  obtain xs ys where f: "os (KHeap_getHash (a_addr h a)) = xs @ a # ys"
      "find_area (\<lambda>x. a_addr h x = a_addr h a) (a_next h) None (occupiedMap h (KHeap_getHash (a_addr h a))) = Some (before None xs, Some a)"
    using find_occupied [OF assms refl] by blast
  let ?i = "KHeap_getHash (a_addr h a)"
  define h1 where "h1 = (case before None xs of Some p \<Rightarrow> h\<lparr>a_next := (a_next h)(p := a_next h a)\<rparr>
      | None \<Rightarrow> h\<lparr>occupiedMap := (occupiedMap h)(?i := a_next h a)\<rparr>)"
  note o = detach_occupied [OF assms(1) f(1) h1_def]
  let ?prev = "sel (\<lambda>x. a_addr h x + a_size h x = a_addr h a) us" and ?next = "sel (\<lambda>x. a_addr h x = a_addr h a + a_size h a) us"
  have "heap_mem h (a_addr h a + 4) = HEAP_GUARD" "heap_mem h (a_addr h a + 4 * (heap_mem h (a_addr h a) div 4 + 2)) = HEAP_GUARD"
    using g end_guard_cell [OF sz dv] unfolding guarded_def by metis+
  then have "KHeap_free (a_addr h a + 8) h = Some (KHeap_merge a ?prev ?next h1)"
    using nz f(2) adj_loop_result [OF assms] by (simp add: KHeap_free_def h1_def Let_def)
  moreover obtain us' fs' where "kh_inv (KHeap_merge a ?prev ?next h1) us' fs' (os(?i := xs @ ys))"
      "keeps_areas (occ os - {a}) h1 (KHeap_merge a ?prev ?next h1)" "heap_mem (KHeap_merge a ?prev ?next h1) = heap_mem h1"
    using KHeap_merge_spec [OF o(1), of ?prev ?next] o(2-4) by auto
  ultimately show ?thesis using o(2-5) by (auto simp: keeps_areas_def)
qed


section \<open>Memory of the blocks\<close>

text \<open>The words of an occupied area between the guards.\<close>

definition data_cell :: "kheap \<Rightarrow> ref \<Rightarrow> uintptr_t \<Rightarrow> bool" where
  "data_cell h r x \<longleftrightarrow> lo h r + 8 \<le> unat x \<and> unat x + 4 < hi h r \<and> 4 dvd unat x"

lemma data_in_area: "data_cell h r x \<Longrightarrow> in_area h r x"
  by (auto simp: data_cell_def in_area_def)

lemma guard_not_data:
  assumes "area_ok h r" "unat (heap_pages h) \<le> 4096" "16 \<le> unat (a_size h r)"
  shows "\<not> data_cell h r (a_addr h r)" "\<not> data_cell h r (a_addr h r + 4)" "\<not> data_cell h r (a_addr h r + (a_size h r - 4))"
proof -
  have "unat (a_addr h r + 4) = lo h r + 4" using area_offset [OF assms(1,2), of 4] assms(3) by simp
  then show "\<not> data_cell h r (a_addr h r + 4)" by (simp add: data_cell_def)
  show "\<not> data_cell h r (a_addr h r)" by (simp add: data_cell_def lo_def)
  have "unat (a_size h r - 4) = unat (a_size h r) - 4" using assms(3) by (simp add: unat_minus_le word_le_unat)
  then have "unat (a_addr h r + (a_size h r - 4)) = lo h r + (unat (a_size h r) - 4)" using area_offset [OF assms(1,2)] by simp
  then show "\<not> data_cell h r (a_addr h r + (a_size h r - 4))" using assms(3) by (simp add: data_cell_def hi_def)
qed

text \<open>Writing to data does no harm.\<close>

lemma inv_mem:
  assumes "kh_inv h us fs os" "\<And>x. m x \<noteq> heap_mem h x \<Longrightarrow> \<exists>r\<in>occ os. data_cell h r x"
  shows "kh_inv (h\<lparr>heap_mem := m\<rparr>) us fs os"
proof -
  have "guarded (h\<lparr>heap_mem := m\<rparr>) s" if s: "s \<in> occ os" for s
  proof -
    have g: "guarded h s" "area_ok h s" "unat (heap_pages h) \<le> 4096" "16 \<le> unat (a_size h s)"
      using assms(1) s by (auto simp: kh_inv_def kh_areas_def guarded_def)
    have same: "m x = heap_mem h x" if x: "in_area h s x" "\<not> data_cell h s x" for x
    proof (rule ccontr)
      assume "m x \<noteq> heap_mem h x"
      then obtain r where r: "r \<in> occ os" "data_cell h r x" using assms(2) by blast
      then have "r \<noteq> s" using x(2) by auto
      then have "apart h r s" using inv_apart [OF assms(1)] r(1) s by auto
      then show False using not_in_both data_in_area [OF r(2)] x(1) by blast
    qed
    show ?thesis
      using g(1) same [OF guard_cells(1) [OF g(2-4)] guard_not_data(1) [OF g(2-4)]] same [OF guard_cells(2) [OF g(2-4)] guard_not_data(2) [OF g(2-4)]]
        same [OF guard_cells(3) [OF g(2-4)] guard_not_data(3) [OF g(2-4)]]
      by (simp add: guarded_def)
  qed
  then show ?thesis using assms(1)
    by (simp add: kh_inv_def kh_areas_def area_ok_def apart_def lo_def hi_def heap_top_def)
qed

lemma fold_copy:
  assumes "inj_on d {..<n}" "\<And>i j. i < n \<Longrightarrow> j < n \<Longrightarrow> s i \<noteq> d j" "m' = fold (\<lambda>i m. m(d i := m (s i))) [0..<n] m"
  shows "(\<forall>i<n. m' (d i) = m (s i)) \<and> (\<forall>x. (\<forall>i<n. x \<noteq> d i) \<longrightarrow> m' x = m x)"
  using assms
proof (induction n arbitrary: m')
  case (Suc n)
  define g where "g = fold (\<lambda>i m. m(d i := m (s i))) [0..<n] m"
  have IH: "\<forall>i<n. g (d i) = m (s i)" "\<forall>x. (\<forall>i<n. x \<noteq> d i) \<longrightarrow> g x = m x"
    using Suc.IH [OF inj_on_subset [OF Suc.prems(1)] _ g_def] Suc.prems(2) by auto
  have "g (s n) = m (s n)" using IH(2) Suc.prems(2) by auto
  moreover have "m' = g(d n := g (s n))" using Suc.prems(3) by (simp add: g_def del: fun_upd_apply)
  moreover have "d i \<noteq> d n" if "i < n" for i using Suc.prems(1) that by (auto simp: inj_on_def)
  ultimately show ?case using IH by (auto simp: less_Suc_eq)
qed simp


section \<open>Changing the size of a block\<close>

text \<open>What becomes of the block \<open>a\<close>: it is \<open>b\<close> afterwards, with the same words in front, or nothing has changed.\<close>

definition reallocated :: "size_t \<Rightarrow> ref \<Rightarrow> kheap \<Rightarrow> (nat \<Rightarrow> ref list) \<Rightarrow> uintptr_t \<Rightarrow> kheap \<Rightarrow> (nat \<Rightarrow> ref list) \<Rightarrow> bool" where
  "reallocated sz a h os p h' os' \<longleftrightarrow> keeps_areas (occ os - {a}) h h' \<and> (\<forall>r\<in>occ os - {a}. \<forall>x. in_area h r x \<longrightarrow> heap_mem h' x = heap_mem h x) \<and>
     (if p = 0 then occ os' = occ os \<and> keeps_areas {a} h h' \<and> heap_mem h' = heap_mem h
      else \<exists>b. b \<notin> occ os - {a} \<and> occ os' = insert b (occ os - {a}) \<and> p = a_addr h' b + 8 \<and> block_size sz \<le> a_size h' b
        \<and> (\<forall>i. 4 * i + 12 < unat (a_size h a) \<longrightarrow> heap_mem h' (p + 4 * word_of_nat i) = heap_mem h (a_addr h a + 8 + 4 * word_of_nat i)))"

lemma data_word:
  assumes "area_ok h r" "unat (heap_pages h) \<le> 4096" "4 * i + 12 < unat (a_size h r)"
  shows "unat (a_addr h r + 8 + 4 * word_of_nat i) = lo h r + 8 + 4 * i" "data_cell h r (a_addr h r + 8 + 4 * word_of_nat i)"
proof -
  have "4 * i + 12 < 4294967296" using assms(3) unat_lt_2p32 [of "a_size h r"] by linarith
  then have "unat (8 + 4 * word_of_nat i :: u32) = 8 + 4 * i"
    by (subst unat_plus_nowrap) (simp_all add: unat_word_ariths unat_of_nat_u32)
  then show e: "unat (a_addr h r + 8 + 4 * word_of_nat i) = lo h r + 8 + 4 * i"
    using area_offset [OF assms(1,2), of "8 + 4 * word_of_nat i"] assms(3) by (simp add: add.assoc)
  show "data_cell h r (a_addr h r + 8 + 4 * word_of_nat i)"
    unfolding data_cell_def e using assms(1,3) by (auto simp: area_ok_def hi_def)
qed

lemma realloc_move_spec:
  assumes "kh_inv h us fs os" "a \<in> occ os" "a_size h a \<le> block_size sz" "unat (block_size sz) \<le> 0x1000020"
  shows "\<exists>p h' us' fs' os'. realloc_move ok (a_addr h a + 8) a (block_size sz) h = Some (p, h') \<and> kh_inv h' us' fs' os'
    \<and> reallocated sz a h os p h' os'"
proof -
  obtain p h1 us1 fs1 os1 where al: "KHeap_alloc ok (block_size sz) h = Some (p, h1)" "kh_inv h1 us1 fs1 os1"
      "allocated (block_size (block_size sz)) h os p h1 os1"
    using KHeap_alloc_spec [OF assms(1,4)] by blast
  have a: "area_ok h a" "unat (heap_pages h) \<le> 4096" "16 \<le> unat (a_size h a)" "4 dvd unat (a_size h a)" "a_addr h1 a = a_addr h a" "a_size h1 a = a_size h a"
    using inv_area [OF assms(1)] assms(1,2) al(3) by (auto simp: kh_inv_def kh_areas_def guarded_def area_ok_def hi_def dvd_add_right_iff allocated_def keeps_areas_def)
  show ?thesis
  proof (cases "p = 0")
    case True
    then have "realloc_move ok (a_addr h a + 8) a (block_size sz) h = Some (0, h1)" using al(1) by (simp add: realloc_move_def)
    moreover have "reallocated sz a h os 0 h1 os1" using al(3) True assms(2) by (auto simp: reallocated_def allocated_def keeps_areas_def)
    ultimately show ?thesis using al(2) by blast
  next
    case False
    then obtain b where b: "b \<notin> occ os" "occ os1 = insert b (occ os)" "p = a_addr h1 b + 8" "a_size h1 b = block_size (block_size sz)"
        "\<forall>x. \<not> in_area h1 b x \<longrightarrow> heap_mem h1 x = heap_mem h x" "keeps_areas (occ os) h h1"
      using al(3) by (auto simp: allocated_def)
    have ab: "a \<noteq> b" "area_ok h1 a" "area_ok h1 b" "unat (heap_pages h1) \<le> 4096" "apart h1 a b"
      using b(1,2) assms(2) inv_area [OF al(2)] inv_apart [OF al(2), of a b] by auto
    have nz: "block_size sz \<noteq> 0" using assms(3) a(3) by (auto simp: word_le_unat)
    have sb: "unat (a_size h a) + 12 \<le> unat (a_size h1 b)"
      using block_size_props(6) [OF nz assms(4)] assms(3) b(4) by (simp add: word_le_unat)
    let ?n = "unat (a_size h1 a - 4 * 3) div 4" and ?d = "\<lambda>i. p + 4 * word_of_nat i" and ?s = "\<lambda>i. a_addr h a + 8 + 4 * word_of_nat i"
    have n: "4 * ?n + 12 = unat (a_size h a)" using size_cells(3) [OF a(3,4)] a(3,4,6) by simp
    define h2 where "h2 = copy_words p (a_addr h a + 8) (a_size h1 a - 4 * 3) h1"
    have ds: "unat (?d i) = lo h1 b + 8 + 4 * i" "data_cell h1 b (?d i)" if "i < ?n" for i
      using data_word [OF ab(3,4), of i] n that sb b(3) by simp_all
    have ss: "unat (?s i) = lo h1 a + 8 + 4 * i" "data_cell h1 a (?s i)" if "i < ?n" for i
      using data_word [OF ab(2,4), of i] n that a(5,6) by simp_all
    have "inj_on ?d {..<?n}" using ds(1) by (auto intro!: inj_onI) (metis add_left_cancel mult_cancel1 zero_neq_numeral)
    moreover have "?s i \<noteq> ?d j" if "i < ?n" "j < ?n" for i j using data_in_area [OF ss(2) [OF that(1)]] data_in_area [OF ds(2) [OF that(2)]] not_in_both [OF ab(5)] by auto
    moreover have "heap_mem h2 = fold (\<lambda>i m. m(?d i := m (?s i))) [0..<?n] (heap_mem h1)" by (simp add: h2_def copy_words_def)
    ultimately have "(\<forall>i<?n. heap_mem h2 (?d i) = heap_mem h1 (?s i)) \<and> (\<forall>x. (\<forall>i<?n. x \<noteq> ?d i) \<longrightarrow> heap_mem h2 x = heap_mem h1 x)"
      by (rule fold_copy)
    then have cp: "\<forall>i<?n. heap_mem h2 (?d i) = heap_mem h1 (?s i)" "\<forall>x. (\<forall>i<?n. x \<noteq> ?d i) \<longrightarrow> heap_mem h2 x = heap_mem h1 x" by blast+
    have e2: "h2 = h1\<lparr>heap_mem := heap_mem h2\<rparr>" by (simp add: h2_def copy_words_def)
    have chg: "data_cell h1 b x" if "heap_mem h2 x \<noteq> heap_mem h1 x" for x using that cp(2) ds(2) by metis
    have "kh_inv h2 us1 fs1 os1" by (subst e2, rule inv_mem [OF al(2)]) (use chg b(2) in blast)
    moreover have f2: "a_addr h2 = a_addr h1" "a_size h2 = a_size h1" by (simp_all add: h2_def copy_words_def)
    ultimately obtain h3 us3 fs3 os3 where fr: "KHeap_free (a_addr h a + 8) h2 = Some h3" "kh_inv h3 us3 fs3 os3" "occ os3 = occ os1 - {a}"
        "keeps_areas (occ os1 - {a}) h2 h3" "heap_mem h3 = heap_mem h2"
      using KHeap_free_spec [of h2 us1 fs1 os1 a] b(2) assms(2) a(5) by auto
    have "realloc_move ok (a_addr h a + 8) a (block_size sz) h = Some (p, h3)"
      using al(1) False fr(1) by (simp add: realloc_move_def h2_def)
    moreover have "reallocated sz a h os p h3 os3"
    proof -
      have out: "heap_mem h2 x = heap_mem h x" if "\<not> in_area h1 b x" for x
        using that cp(2) ds(2) data_in_area b(5) by metis
      have "heap_mem h3 x = heap_mem h x" if "r \<in> occ os - {a}" "in_area h r x" for r x
      proof -
        have "in_area h1 r x" using that b(6) by (auto simp: in_area_def lo_def hi_def keeps_areas_def)
        moreover have "apart h1 r b" using inv_apart [OF al(2), of r b] that(1) b(1,2) by auto
        ultimately show ?thesis using out not_in_both fr(5) by metis
      qed
      moreover have "heap_mem h3 (p + 4 * word_of_nat i) = heap_mem h (?s i)" if "4 * i + 12 < unat (a_size h a)" for i
      proof -
        have i: "i < ?n" using that n by linarith
        have "\<not> in_area h1 b (?s i)" using data_in_area [OF ss(2) [OF i]] not_in_both [OF ab(5)] by blast
        then show ?thesis using cp(1) i b(5) fr(5) by metis
      qed
      moreover have "keeps_areas (occ os - {a}) h h3" using fr(4) b(2,6) f2 by (auto simp: keeps_areas_def)
      moreover have "occ os3 = insert b (occ os - {a})" using fr(3) b(2) ab(1) by auto
      moreover have "a_addr h3 b = a_addr h1 b" "a_size h3 b = a_size h1 b" using fr(4) b(2) ab(1) f2 by (auto simp: keeps_areas_def)
      moreover have "block_size sz \<le> a_size h1 b" using block_size_props(6) [OF nz assms(4)] b(4) by (simp add: word_le_unat)
      ultimately show ?thesis using b(1,3) False unfolding reallocated_def by auto
    qed
    ultimately show ?thesis using fr(2) by blast
  qed
qed


lemma inplace_areas:
  assumes "kh_inv h us fs os" "a \<in> occ os" "b \<in> set us" "lo h b = hi h a" "a_size h a \<le> sz" "sz \<le> a_size h a + a_size h b" "4 dvd unat sz"
    "a_addr g a = a_addr h a" "a_size g a = sz" "heap_mem g = heap_mem h" "heap_pages g = heap_pages h"
    "\<And>r. r \<noteq> a \<Longrightarrow> r \<noteq> b \<Longrightarrow> a_addr g r = a_addr h r \<and> a_size g r = a_size h r"
    "if sz < a_size h a + a_size h b then U = set us \<and> a_addr g b = a_addr h a + sz \<and> a_size g b = (a_size h a + a_size h b) - sz else U = set us - {b}"
  shows "kh_areas g (insert a U) (occ os - {a})"
proof -
  have ok: "area_ok h a" "area_ok h b" "unat (heap_pages h) \<le> 4096" using inv_area [OF assms(1)] assms(2,3) by auto
  have nb: "b \<notin> occ os" "a \<notin> set us" using assms(1-3) by (auto simp: kh_inv_def kh_shape_def bucket_def occ_def)
  then have ab: "a \<noteq> b" using assms(3) by auto
  have ar: "kh_areas h (insert a (set us)) (occ os - {a})" using assms(1,2) unfolding kh_inv_def kh_areas_def by blast
  have s: "unat (a_size h a + a_size h b) = unat (a_size h a) + unat (a_size h b)" by (rule meet_offset [OF ok(1,2,3)]) (simp add: assms(4))
  have top: "heap_top g = heap_top h" using assms(11) by (simp add: heap_top_def)
  have la: "lo g a = lo h a" "hi g a = lo h a + unat sz" using assms(8,9) by (simp_all add: lo_def hi_def)
  have le: "lo h a + unat sz \<le> hi h b" "hi h a \<le> lo h a + unat sz" using assms(4-6) s by (simp_all add: hi_def word_le_unat)
  have other: "lo g r = lo h r" "hi g r = hi h r" "apart h a r" "apart h b r" "area_ok h r"
    if "r \<in> set us \<union> (occ os - {a})" "r \<noteq> a" "r \<noteq> b" for r
    using assms(12) [OF that(2,3)] inv_apart [OF assms(1), of a r] inv_apart [OF assms(1), of b r] inv_area [OF assms(1), of r] that assms(2,3)
    by (auto simp: lo_def hi_def)
  show ?thesis
  proof (cases "sz < a_size h a + a_size h b")
    case True
    have ul: "unat (a_addr h a + sz) = lo h a + unat sz"
      using le(1) ok(2) heap_top_bound [OF ok(3)] by (subst unat_plus_nowrap) (auto simp: area_ok_def lo_def)
    have "unat ((a_size h a + a_size h b) - sz) = unat (a_size h a) + unat (a_size h b) - unat sz" using True s by (simp add: unat_minus_le)
    then have lb: "lo g b = lo h a + unat sz" "hi g b = hi h b"
      using True assms(4,13) ul s by (simp_all add: lo_def [of g] hi_def word_less_unat)
    have lt: "lo h a + unat sz < hi h b" using True assms(4) s by (simp add: hi_def word_less_unat)
    show ?thesis
    proof (rule areas_change [OF ar, where N = "{a, b}"])
      show "area_ok g m" if "m \<in> {a, b}" for m using that ok(1,2) la lb lt le assms(7) top by (auto simp: area_ok_def)
      show "apart g m k" if "m \<in> {a, b}" "k \<in> {a, b}" "m \<noteq> k" for m k using that la lb by (auto simp: apart_def)
      show "apart g m r" if "m \<in> {a, b}" "r \<in> insert a U \<union> (occ os - {a})" "r \<notin> {a, b}" for m r
      proof -
        have r: "r \<in> set us \<union> (occ os - {a})" "r \<noteq> a" "r \<noteq> b" using that True assms(13) by auto
        show ?thesis using that(1) other [OF r] la lb le lt assms(4) ok(1,2) by (auto simp: apart_def area_ok_def)
      qed
    qed (use assms(10-13) True nb in auto)
  next
    case False
    then have e: "sz = a_size h a + a_size h b" using assms(6) by simp
    then have hb: "hi g a = hi h b" using la(2) s assms(4) by (simp add: hi_def)
    show ?thesis
    proof (rule areas_change [OF ar, where N = "{a}"])
      show "area_ok g m" if "m \<in> {a}" for m using that ok(1,2) la hb le assms(4) top by (auto simp: area_ok_def)
      show "apart g m r" if "m \<in> {a}" "r \<in> insert a U \<union> (occ os - {a})" "r \<notin> {a}" for m r
      proof -
        have r: "r \<in> set us \<union> (occ os - {a})" "r \<noteq> a" "r \<noteq> b" using that False assms(13) nb by auto
        show ?thesis using that(1) other [OF r] la hb assms(4) ok(1,2) by (auto simp: apart_def area_ok_def)
      qed
    qed (use assms(10-13) False nb in auto)
  qed
qed

lemma inplace_guards:
  assumes "kh_areas g (insert a U) (occ os - {a})" "kh_shape g us fs os" "set us = U" "a \<in> occ os" "a_size g a = sz" "16 \<le> unat sz"
    "\<forall>i. \<forall>r\<in>set (os i). KHeap_getHash (a_addr g r) = i"
  shows "kh_inv (set_guards (a_addr g a) sz g) us fs os" "\<And>x. \<not> in_area g a x \<Longrightarrow> heap_mem (set_guards (a_addr g a) sz g) x = heap_mem g x"
proof -
  have ok: "area_ok g a" "unat (heap_pages g) \<le> 4096" using assms(1) by (auto simp: kh_areas_def)
  show m: "heap_mem (set_guards (a_addr g a) sz g) x = heap_mem g x" if "\<not> in_area g a x" for x
    using set_guards_mem [OF ok _ that, of g] assms(5,6) by simp
  have "kh_areas (set_guards (a_addr g a) sz g) (insert a U) (occ os - {a})"
  proof (rule areas_frame [OF assms(1)])
    fix r x assume r: "r \<in> occ os - {a}" "in_area g r x"
    then have "apart g r a" using assms(1) by (auto simp: kh_areas_def)
    then show "heap_mem (set_guards (a_addr g a) sz g) x = heap_mem g x" using r(2) m not_in_both by blast
  qed auto
  moreover have "guarded (set_guards (a_addr g a) sz g) a" using set_guards_guarded [OF ok, of g] assms(5,6) by simp
  ultimately have "kh_areas (set_guards (a_addr g a) sz g) U (occ os)" using assms(4) unfolding kh_areas_def by blast
  then show "kh_inv (set_guards (a_addr g a) sz g) us fs os" using assms(2,3,7) by (simp add: kh_inv_def)
qed


lemma inplace_spec:
  assumes "kh_inv h us fs os" "a \<in> occ os" "us = xs @ b # ys" "lo h b = hi h a" "a_size h a \<le> sz" "sz \<le> a_size h a + a_size h b" "4 dvd unat sz" "16 \<le> unat sz"
    "h1 = (if sz < a_size h a + a_size h b then set_area b (a_addr h a + sz) ((a_size h a + a_size h b) - sz) h
           else put_free b (link_usable (before None xs) (a_next h b) h))"
    "h2 = set_guards (a_addr h a) sz (set_area a (a_addr h1 a) sz h1)"
  shows "\<exists>us' fs'. kh_inv h2 us' fs' os" "keeps_areas (occ os - {a}) h h2" "a_addr h2 a = a_addr h a" "a_size h2 a = sz"
    "\<And>x. \<not> in_area h2 a x \<Longrightarrow> heap_mem h2 x = heap_mem h x"
    "\<And>x. data_cell h a x \<Longrightarrow> heap_mem h2 x = heap_mem h x"
proof -
  let ?g = "set_area a (a_addr h1 a) sz h1"
  let ?U = "if sz < a_size h a + a_size h b then set us else set us - {b}"
  have sh: "kh_shape h us fs os" and hs: "\<forall>i. \<forall>r\<in>set (os i). KHeap_getHash (a_addr h r) = i" using assms(1) by (simp_all add: kh_inv_def)
  have bu: "b \<in> set us" using assms(3) by simp
  have nb: "b \<notin> occ os" using sh bu by (auto simp: kh_shape_def bucket_def occ_def)
  then have ab: "a \<noteq> b" using assms(2) by auto
  have f: "a_addr h1 a = a_addr h a" "\<And>r. r \<noteq> b \<Longrightarrow> a_addr h1 r = a_addr h r \<and> a_size h1 r = a_size h r" "heap_mem h1 = heap_mem h" "heap_pages h1 = heap_pages h"
    using assms(9) ab by auto
  have ar: "kh_areas ?g (insert a ?U) (occ os - {a})"
    by (rule inplace_areas [OF assms(1,2) bu assms(4-7)]) (use f ab assms(9) in auto)
  obtain us' fs' where us': "kh_shape ?g us' fs' os" "set us' = ?U"
  proof (cases "sz < a_size h a + a_size h b")
    case True
    then show ?thesis using that [of us fs] sh assms(9) by simp
  next
    case False
    have "kh_shape (put_free b (link_usable (before None xs) (a_next h b) h)) (xs @ ys) (b # fs) os"
      using shape_unlink_usable [of h xs b ys fs os] sh assms(3) by (intro shape_put_free) (auto simp: heap_top_def)
    moreover have "set (xs @ ys) = set us - {b}" using sh assms(3) by (auto simp: kh_shape_def)
    ultimately show ?thesis using that [of "xs @ ys" "b # fs"] False assms(9) by simp
  qed
  have h2: "h2 = set_guards (a_addr ?g a) sz ?g" using assms(10) f(1) by simp
  have "\<forall>i. \<forall>r\<in>set (os i). KHeap_getHash (a_addr ?g r) = i"
  proof (intro allI ballI)
    fix i r assume r: "r \<in> set (os i)"
    then have "r \<noteq> b" using nb by (auto simp: occ_def)
    then show "KHeap_getHash (a_addr ?g r) = i" using hs r f(1,2) by auto
  qed
  from inplace_guards [OF ar us' assms(2) _ assms(8) this]
  have i: "kh_inv h2 us' fs' os" "\<And>x. \<not> in_area ?g a x \<Longrightarrow> heap_mem h2 x = heap_mem ?g x" unfolding h2 by simp_all
  then show "\<exists>us' fs'. kh_inv h2 us' fs' os" by blast
  show g: "a_addr h2 a = a_addr h a" "a_size h2 a = sz" unfolding h2 using f(1) by simp_all
  show "keeps_areas (occ os - {a}) h h2" unfolding keeps_areas_def
  proof
    fix r assume "r \<in> occ os - {a}"
    then have "r \<noteq> b" "r \<noteq> a" using nb by auto
    then show "a_addr h2 r = a_addr h r \<and> a_size h2 r = a_size h r" unfolding h2 using f(2) by simp
  qed
  show "heap_mem h2 x = heap_mem h x" if "\<not> in_area h2 a x" for x
    using i(2) [of x] that f(1,3) g by (simp add: in_area_def lo_def hi_def)
  have ok: "area_ok h2 a" "unat (heap_pages h2) \<le> 4096" using inv_area [OF i(1)] assms(2) by auto
  show "heap_mem h2 x = heap_mem h x" if x: "data_cell h a x" for x
  proof -
    have "lo h2 a = lo h a" "hi h a \<le> hi h2 a" using g assms(5) by (simp_all add: lo_def hi_def word_le_unat)
    then have "data_cell h2 a x" using x by (simp add: data_cell_def)
    then have "x \<noteq> a_addr h2 a" "x \<noteq> a_addr h2 a + 4" "x \<noteq> a_addr h2 a + (a_size h2 a - 4)"
      using guard_not_data [OF ok] g(2) assms(8) by auto
    then have "heap_mem h2 x = heap_mem ?g x" unfolding h2 using size_cells(2) [OF assms(8,7)] f(1) by (simp add: set_guards_def)
    then show ?thesis using f(3) by simp
  qed
qed

lemma KHeap_realloc_spec:
  assumes "kh_inv h us fs os" "a \<in> occ os" "unat sz \<le> 0x1000010"
  shows "\<exists>p h' us' fs' os'. KHeap_realloc ok (a_addr h a + 8) sz h = Some (p, h') \<and> kh_inv h' us' fs' os' \<and> reallocated sz a h os p h' os'"
proof -
  have ok: "area_ok h a" "unat (heap_pages h) \<le> 4096" using inv_area [OF assms(1)] assms(2) by auto
  have g: "16 \<le> unat (a_size h a)" using assms(1,2) by (auto simp: kh_inv_def kh_areas_def guarded_def)
  have "unat (a_addr h a + 8) = lo h a + 8" using area_offset [OF ok, of 8] g by simp
  then have nz: "a_addr h a + 8 \<noteq> 0" by (metis add_is_0 unat_0 zero_neq_numeral)
  obtain q where fo: "find_area (\<lambda>x. a_addr h x = a_addr h a) (a_next h) None (occupiedMap h (KHeap_getHash (a_addr h a))) = Some (q, Some a)"
    using find_occupied [OF assms(1,2) refl] by metis
  show ?thesis
  proof (cases "block_size sz < a_size h a")
    case True
    then have "KHeap_realloc ok (a_addr h a + 8) sz h = Some (a_addr h a + 8, h)" using nz fo by (simp add: KHeap_realloc_def Let_def)
    moreover have "reallocated sz a h os (a_addr h a + 8) h os" using True nz assms(2) by (auto simp: reallocated_def keeps_areas_def intro!: exI [of _ a])
    ultimately show ?thesis using assms(1) by blast
  next
    case nl: False
    then have le: "a_size h a \<le> block_size sz" by simp
    have z: "sz \<noteq> 0"
    proof
      assume "sz = 0"
      then have "unat (block_size sz) = 12" by (simp add: block_size_def ROUND_UP_def)
      then show False using le g by (simp add: word_le_unat)
    qed
    have "unat sz \<le> 0x1000020" using assms(3) by simp
    note b = block_size_props [OF z this]
    have "unat (block_size sz) \<le> 0x1000020" using b(1) assms(3) by simp
    note move = realloc_move_spec [OF assms(1,2) le this, of ok]
    have "chain (a_next h) (usableList h) us" using assms(1) by (simp add: kh_inv_def kh_shape_def)
    then show ?thesis
    proof (cases rule: find_area_cases [of _ _ _ "\<lambda>x. a_addr h x = a_addr h a + a_size h a"])
      case none
      then show ?thesis using move nz fo nl by (simp add: KHeap_realloc_def Let_def)
    next
      case (some xs c ys)
      show ?thesis
      proof (cases "a_size h a + a_size h c \<ge> block_size sz")
        case False
        then show ?thesis using move nz fo some(4) nl by (simp add: KHeap_realloc_def Let_def)
      next
        case True
        have okc: "area_ok h c" using inv_area [OF assms(1), of c] some(1) by simp
        have lc: "lo h c = hi h a" using meets_iff [OF ok(1) okc ok(2)] some(3) by simp
        define h1 where "h1 = (if block_size sz < a_size h a + a_size h c then set_area c (a_addr h a + block_size sz) ((a_size h a + a_size h c) - block_size sz) h
           else put_free c (link_usable (before None xs) (a_next h c) h))"
        define h2 where "h2 = set_guards (a_addr h a) (block_size sz) (set_area a (a_addr h1 a) (block_size sz) h1)"
        note i = inplace_spec [OF assms(1,2) some(1) lc le True b(3,2) h1_def h2_def]
        have "KHeap_realloc ok (a_addr h a + 8) sz h = Some (a_addr h a + 8, h2)"
          using nz fo some(4) nl True by (simp add: KHeap_realloc_def Let_def h2_def h1_def)
        moreover have "reallocated sz a h os (a_addr h a + 8) h2 os"
        proof -
          obtain us' fs' where k: "kh_inv h2 us' fs' os" using i(1) by blast
          have "heap_mem h2 x = heap_mem h x" if "r \<in> occ os - {a}" "in_area h r x" for r x
          proof -
            have "in_area h2 r x" using that i(2) by (auto simp: in_area_def lo_def hi_def keeps_areas_def)
            moreover have "apart h2 r a" using inv_apart [OF k, of r a] that(1) assms(2) by auto
            ultimately show ?thesis using i(5) not_in_both by blast
          qed
          then show ?thesis using i(2-4,6) nz assms(2) data_word(2) [OF ok] by (auto simp: reallocated_def intro!: exI [of _ a])
        qed
        ultimately show ?thesis using i(1) by blast
      qed
    qed
  qed
qed


section \<open>Sessions\<close>

text \<open>A client has blocks, each with a pointer and the words it expects there. It asks for a block, releases one, changes the size of one,
  or writes a word of one.\<close>

type_synonym block = "uintptr_t \<times> ulong list"

datatype kreq = Alloc mapper size_t | Free nat | Realloc mapper nat size_t | Write nat nat ulong

definition words_at :: "(uintptr_t \<Rightarrow> ulong) \<Rightarrow> uintptr_t \<Rightarrow> nat \<Rightarrow> ulong list" where
  "words_at m p n = map (\<lambda>i. m (p + 4 * word_of_nat i)) [0..<n]"

definition words_of :: "size_t \<Rightarrow> nat" where
  "words_of sz = (unat sz + 3) div 4"

fun kh_exec :: "kreq \<Rightarrow> kheap \<times> block list \<Rightarrow> (kheap \<times> block list) option" where
  "kh_exec (Alloc ok sz) (h, bs) =
     do {
       (p, h) \<leftarrow> KHeap_alloc ok sz h;
       Some (h, if p = 0 then bs else (p, words_at (heap_mem h) p (words_of sz)) # bs)
     }"
| "kh_exec (Free i) (h, bs) =
     (if i < length bs then do { h \<leftarrow> KHeap_free (fst (bs ! i)) h; Some (h, take i bs @ drop (Suc i) bs) } else Some (h, bs))"
| "kh_exec (Realloc ok i sz) (h, bs) =
     (if i < length bs then
        do {
          (p, h) \<leftarrow> KHeap_realloc ok (fst (bs ! i)) sz h;
          let ws = snd (bs ! i);
          Some (h, if p = 0 then bs
                   else bs[i := (p, take (words_of sz) ws @ drop (length ws) (words_at (heap_mem h) p (words_of sz)))])
        }
      else Some (h, bs))"
| "kh_exec (Write i j w) (h, bs) =
     Some (if i < length bs \<and> j < length (snd (bs ! i)) then
             (h\<lparr>heap_mem := (heap_mem h)(fst (bs ! i) + 4 * word_of_nat j := w)\<rparr>, bs[i := (fst (bs ! i), (snd (bs ! i))[j := w])])
           else (h, bs))"

fun kh_run :: "kreq list \<Rightarrow> kheap \<times> block list \<Rightarrow> (kheap \<times> block list) option" where
  "kh_run [] s = Some s"
| "kh_run (r # rs) s = do { s \<leftarrow> kh_exec r s; kh_run rs s }"

fun small :: "kreq \<Rightarrow> bool" where
  "small (Alloc ok sz) = (sz \<le> KHEAP_SIZE)"
| "small (Realloc ok i sz) = (sz \<le> KHEAP_SIZE)"
| "small r = True"

definition kheap_boot :: "(uintptr_t \<Rightarrow> ulong) \<Rightarrow> kheap" where
  "kheap_boot m = \<lparr>a_size = \<lambda>_. 0, a_addr = \<lambda>_. 0, a_next = \<lambda>_. None, usableList = None, freeList = None, occupiedMap = \<lambda>_. None,
     memUsage = 0, heap_pages = 0, heap_mem = m\<rparr>"

definition owns :: "kheap \<Rightarrow> ref \<Rightarrow> block \<Rightarrow> bool" where
  "owns h r = (\<lambda>(p, ws). p = a_addr h r + 8 \<and> 4 * length ws + 12 \<le> unat (a_size h r) \<and> (\<forall>j<length ws. heap_mem h (p + 4 * word_of_nat j) = ws ! j))"

definition kh_sim :: "kheap \<Rightarrow> block list \<Rightarrow> bool" where
  "kh_sim h bs \<longleftrightarrow> (\<exists>us fs os rs. kh_inv h us fs os \<and> distinct rs \<and> set rs \<subseteq> occ os \<and> list_all2 (owns h) rs bs)"

lemma owns_frame:
  assumes "owns h r b" "area_ok h r" "unat (heap_pages h) \<le> 4096" "a_addr h' r = a_addr h r" "a_size h' r = a_size h r"
    "\<And>x. data_cell h r x \<Longrightarrow> heap_mem h' x = heap_mem h x"
  shows "owns h' r b"
proof -
  obtain p ws where b: "b = (p, ws)" by (cases b)
  have "heap_mem h' (p + 4 * word_of_nat j) = heap_mem h (p + 4 * word_of_nat j)" if "j < length ws" for j
    using data_word(2) [OF assms(2,3), of j] assms(1,6) that b by (auto simp: owns_def)
  then show ?thesis using assms(1,4,5) b by (auto simp: owns_def)
qed

lemma owns_all:
  assumes "kh_inv h us fs os" "set rs \<subseteq> occ os" "list_all2 (owns h) rs bs" "keeps_areas (set rs) h h'"
    "\<And>r x. r \<in> set rs \<Longrightarrow> data_cell h r x \<Longrightarrow> heap_mem h' x = heap_mem h x"
  shows "list_all2 (owns h') rs bs"
proof (rule list.rel_mono_strong [OF assms(3)])
  fix r b assume r: "r \<in> set rs" "b \<in> set bs" "owns h r b"
  then have ok: "area_ok h r" "unat (heap_pages h) \<le> 4096" using inv_area [OF assms(1)] assms(2) by auto
  show "owns h' r b" by (rule owns_frame [OF r(3) ok]) (use assms(4,5) r(1) in \<open>auto simp: keeps_areas_def\<close>)
qed

lemma list_all2_remove:
  "list_all2 P xs ys \<Longrightarrow> list_all2 P (take i xs @ drop (Suc i) xs) (take i ys @ drop (Suc i) ys)"
  by (simp add: list_all2_appendI list_all2_takeI list_all2_dropI)

lemma words_nth: "j < n \<Longrightarrow> words_at m p n ! j = m (p + 4 * word_of_nat j)" "length (words_at m p n) = n"
  by (simp_all add: words_at_def)

lemma block_size_words:
  assumes "unat sz \<le> 0x1000020"
  shows "4 * words_of sz + 12 \<le> unat (block_size sz)"
proof (cases "sz = 0")
  case False
  then show ?thesis using block_size_props(1) [OF False assms] by (simp add: words_of_def)
qed (simp add: words_of_def block_size_def ROUND_UP_def)


lemma sim_alloc:
  assumes "kh_sim h bs" "sz \<le> KHEAP_SIZE"
  shows "\<exists>h' bs'. kh_exec (Alloc ok sz) (h, bs) = Some (h', bs') \<and> kh_sim h' bs'"
proof -
  obtain us fs os rs where i: "kh_inv h us fs os" "distinct rs" "set rs \<subseteq> occ os" "list_all2 (owns h) rs bs" using assms(1) unfolding kh_sim_def by blast
  have sz: "unat sz \<le> 0x1000020" using assms(2) by (simp add: word_le_unat KHEAP_SIZE_def)
  obtain p h' us' fs' os' where a: "KHeap_alloc ok sz h = Some (p, h')" "kh_inv h' us' fs' os'" "allocated (block_size sz) h os p h' os'"
    using KHeap_alloc_spec [OF i(1) sz, of ok] by blast
  have k: "keeps_areas (set rs) h h'" using a(3) i(3) by (auto simp: allocated_def keeps_areas_def)
  show ?thesis
  proof (cases "p = 0")
    case True
    then have "list_all2 (owns h') rs bs" using a(3) by (intro owns_all [OF i(1,3,4) k]) (simp add: allocated_def)
    moreover have "occ os' = occ os" using a(3) True by (simp add: allocated_def)
    ultimately have "kh_sim h' bs" using a(2) i(2,3) unfolding kh_sim_def by metis
    then show ?thesis using a(1) True by simp
  next
    case False
    then obtain r where r: "r \<notin> occ os" "occ os' = insert r (occ os)" "p = a_addr h' r + 8" "a_size h' r = block_size sz"
        "\<forall>x. \<not> in_area h' r x \<longrightarrow> heap_mem h' x = heap_mem h x"
      using a(3) by (auto simp: allocated_def)
    have "list_all2 (owns h') rs bs"
    proof (rule owns_all [OF i(1,3,4) k])
      fix s x assume s: "s \<in> set rs" "data_cell h s x"
      then have "in_area h' s x" using data_in_area [OF s(2)] k by (auto simp: in_area_def lo_def hi_def keeps_areas_def)
      moreover have "apart h' s r" using inv_apart [OF a(2), of s r] s(1) i(3) r(1,2) by auto
      ultimately show "heap_mem h' x = heap_mem h x" using r(5) not_in_both by blast
    qed
    moreover have "owns h' r (p, words_at (heap_mem h') p (words_of sz))"
      using r(3,4) block_size_words [OF sz] by (auto simp: owns_def words_nth)
    ultimately have "list_all2 (owns h') (r # rs) ((p, words_at (heap_mem h') p (words_of sz)) # bs)" by simp
    moreover have "distinct (r # rs)" "set (r # rs) \<subseteq> occ os'" using i(2,3) r(1,2) by auto
    ultimately have "kh_sim h' ((p, words_at (heap_mem h') p (words_of sz)) # bs)" using a(2) unfolding kh_sim_def by blast
    then show ?thesis using a(1) False by simp
  qed
qed

lemma set_remove_nth:
  assumes "distinct xs" "i < length xs"
  shows "set (take i xs @ drop (Suc i) xs) = set xs - {xs ! i}"
proof -
  have "distinct (take i xs @ xs ! i # drop (Suc i) xs)" "set xs = set (take i xs @ xs ! i # drop (Suc i) xs)"
    using assms id_take_nth_drop [OF assms(2)] by simp_all
  then show ?thesis by auto
qed

lemma sim_free:
  assumes "kh_sim h bs"
  shows "\<exists>h' bs'. kh_exec (Free i) (h, bs) = Some (h', bs') \<and> kh_sim h' bs'"
proof (cases "i < length bs")
  case True
  obtain us fs os rs where k: "kh_inv h us fs os" "distinct rs" "set rs \<subseteq> occ os" "list_all2 (owns h) rs bs" using assms(1) unfolding kh_sim_def by blast
  have len: "length rs = length bs" using k(4) by (rule list_all2_lengthD)
  have "owns h (rs ! i) (bs ! i)" using k(4) True by (simp add: list_all2_conv_all_nth)
  then have p: "fst (bs ! i) = a_addr h (rs ! i) + 8" by (auto simp: owns_def split: prod.splits)
  have "rs ! i \<in> occ os" using k(3) True len by auto
  from KHeap_free_spec [OF k(1) this] obtain h' us' fs' os' where f: "KHeap_free (a_addr h (rs ! i) + 8) h = Some h'" "kh_inv h' us' fs' os'"
      "occ os' = occ os - {rs ! i}" "keeps_areas (occ os - {rs ! i}) h h'" "heap_mem h' = heap_mem h" by blast
  let ?rs = "take i rs @ drop (Suc i) rs"
  have st: "set ?rs = set rs - {rs ! i}" using set_remove_nth k(2) True len by metis
  have "list_all2 (owns h') ?rs (take i bs @ drop (Suc i) bs)"
    by (rule owns_all [OF k(1) _ list_all2_remove [OF k(4)]]) (use st k(3) f(4,5) in \<open>auto simp: keeps_areas_def\<close>)
  moreover have "distinct ?rs" using k(2) by (auto simp: distinct_append set_take_disj_set_drop_if_distinct)
  moreover have "set ?rs \<subseteq> occ os'" using st k(3) f(3) by auto
  ultimately have "kh_sim h' (take i bs @ drop (Suc i) bs)" using f(2) unfolding kh_sim_def by blast
  then show ?thesis using True f(1) p by simp
qed (use assms in simp)

lemma sim_write:
  assumes "kh_sim h bs"
  shows "\<exists>h' bs'. kh_exec (Write i j w) (h, bs) = Some (h', bs') \<and> kh_sim h' bs'"
proof (cases "i < length bs \<and> j < length (snd (bs ! i))")
  case True
  obtain us fs os rs where k: "kh_inv h us fs os" "distinct rs" "set rs \<subseteq> occ os" "list_all2 (owns h) rs bs" using assms(1) unfolding kh_sim_def by blast
  have len: "length rs = length bs" using k(4) by (rule list_all2_lengthD)
  obtain p ws where b: "bs ! i = (p, ws)" by fastforce
  have jl: "j < length ws" using True b by simp
  let ?x = "p + 4 * word_of_nat j" and ?h = "h\<lparr>heap_mem := (heap_mem h)(p + 4 * word_of_nat j := w)\<rparr>"
  have o: "owns h (rs ! n) (bs ! n)" if "n < length bs" for n using k(4) that by (simp add: list_all2_conv_all_nth)
  have oi: "p = a_addr h (rs ! i) + 8" "4 * length ws + 12 \<le> unat (a_size h (rs ! i))" using o [of i] True b by (auto simp: owns_def)
  have oc: "rs ! n \<in> occ os" if "n < length bs" for n using k(3) that len by auto
  then have ok: "area_ok h (rs ! n)" "unat (heap_pages h) \<le> 4096" if "n < length bs" for n
    using inv_area [OF k(1), of "rs ! n"] that by auto
  have d: "data_cell h (rs ! i) ?x" "unat (p + 4 * word_of_nat n) = lo h (rs ! i) + 8 + 4 * n" if "n < length ws" for n
    using data_word(2) [OF ok(1) [of i] ok(2) [of i], of j] data_word(1) [OF ok(1) [of i] ok(2) [of i], of n] True b oi that by simp_all
  have "owns ?h (rs ! n) ((bs[i := (p, ws[j := w])]) ! n)" if n: "n < length bs" for n
  proof (cases "n = i")
    case True
    have "p + 4 * word_of_nat m \<noteq> ?x" if "m < length ws" "m \<noteq> j" for m
      using d(2) [OF that(1)] d(2) [of j] jl that(2) by (metis add_left_cancel mult_cancel1 zero_neq_numeral)
    then show ?thesis using True n o [of i] b jl by (auto simp: owns_def nth_list_update)
  next
    case False
    have "\<not> data_cell h (rs ! n) ?x"
    proof -
      have "rs ! n \<noteq> rs ! i" using False n True k(2) len by (simp add: nth_eq_iff_index_eq)
      then have "apart h (rs ! i) (rs ! n)" using inv_apart [OF k(1)] oc n True by auto
      then show ?thesis using not_in_both data_in_area d(1) [of j] True b by fastforce
    qed
    then have "owns ?h (rs ! n) (bs ! n)" by (intro owns_frame [OF o [OF n] ok(1,2) [OF n]]) auto
    then show ?thesis using False by simp
  qed
  then have "list_all2 (owns ?h) rs (bs[i := (p, ws[j := w])])" using len by (simp add: list_all2_conv_all_nth)
  moreover have "kh_inv ?h us fs os"
    by (rule inv_mem [OF k(1)]) (use d(1) [of j] True b oc [of i] in \<open>auto split: if_splits\<close>)
  ultimately have "kh_sim ?h (bs[i := (p, ws[j := w])])" using k(2,3) unfolding kh_sim_def by blast
  then show ?thesis using True b by simp
qed (use assms in auto)


lemma sim_realloc:
  assumes "kh_sim h bs" "sz \<le> KHEAP_SIZE"
  shows "\<exists>h' bs'. kh_exec (Realloc ok i sz) (h, bs) = Some (h', bs') \<and> kh_sim h' bs'"
proof (cases "i < length bs")
  case True
  obtain us fs os rs where k: "kh_inv h us fs os" "distinct rs" "set rs \<subseteq> occ os" "list_all2 (owns h) rs bs" using assms(1) unfolding kh_sim_def by blast
  have len: "length rs = length bs" using k(4) by (rule list_all2_lengthD)
  let ?a = "rs ! i"
  obtain q ws where b: "bs ! i = (q, ws)" by fastforce
  have o: "owns h (rs ! n) (bs ! n)" if "n < length bs" for n using k(4) that by (simp add: list_all2_conv_all_nth)
  then have oi: "q = a_addr h ?a + 8" "4 * length ws + 12 \<le> unat (a_size h ?a)" "\<forall>j<length ws. heap_mem h (q + 4 * word_of_nat j) = ws ! j"
    using o [of i] True b by (auto simp: owns_def)
  have oc: "rs ! n \<in> occ os" if "n < length bs" for n using k(3) that len by auto
  have sz: "unat sz \<le> 0x1000010" "unat sz \<le> 0x1000020" using assms(2) by (simp_all add: word_le_unat KHEAP_SIZE_def)
  obtain p h' us' fs' os' where r: "KHeap_realloc ok q sz h = Some (p, h')" "kh_inv h' us' fs' os'" "reallocated sz ?a h os p h' os'"
    using KHeap_realloc_spec [OF k(1) oc [OF True] sz(1), of ok] oi(1) by blast
  have same: "owns h' (rs ! n) (bs ! n)" if n: "n < length bs" "n \<noteq> i" for n
  proof -
    have "rs ! n \<in> occ os - {?a}" using oc n True k(2) len by (simp add: nth_eq_iff_index_eq)
    moreover have "area_ok h (rs ! n)" "unat (heap_pages h) \<le> 4096" using inv_area [OF k(1), of "rs ! n"] oc n(1) by auto
    ultimately show ?thesis using r(3) data_in_area by (intro owns_frame [OF o [OF n(1)]]) (auto simp: reallocated_def keeps_areas_def)
  qed
  show ?thesis
  proof (cases "p = 0")
    case p: True
    have "owns h' ?a (bs ! i)"
      by (rule owns_frame [OF o [OF True]]) (use inv_area [OF k(1), of ?a] oc [OF True] r(3) p in \<open>auto simp: reallocated_def keeps_areas_def\<close>)
    then have "list_all2 (owns h') rs bs" using same len by (auto simp: list_all2_conv_all_nth)
    moreover have "occ os' = occ os" using r(3) p by (simp add: reallocated_def)
    ultimately have "kh_sim h' bs" using r(2) k(2,3) unfolding kh_sim_def by metis
    then show ?thesis using r(1) p True b by simp
  next
    case p: False
    let ?ws = "take (words_of sz) ws @ drop (length ws) (words_at (heap_mem h') p (words_of sz))"
    obtain c where c: "c \<notin> occ os - {?a}" "occ os' = insert c (occ os - {?a})" "p = a_addr h' c + 8" "block_size sz \<le> a_size h' c"
        "\<forall>j. 4 * j + 12 < unat (a_size h ?a) \<longrightarrow> heap_mem h' (p + 4 * word_of_nat j) = heap_mem h (a_addr h ?a + 8 + 4 * word_of_nat j)"
      using r(3) p by (auto simp: reallocated_def)
    have lw: "length ?ws = words_of sz" by (simp add: words_nth)
    have "?ws ! j = heap_mem h' (p + 4 * word_of_nat j)" if "j < words_of sz" for j
    proof (cases "j < length ws")
      case True
      then have "heap_mem h' (p + 4 * word_of_nat j) = ws ! j" using c(5) oi by simp
      then show ?thesis using True that by (simp add: nth_append)
    next
      case False
      then show ?thesis using that by (simp add: nth_append words_nth)
    qed
    moreover have "4 * words_of sz + 12 \<le> unat (a_size h' c)" using block_size_words [OF sz(2)] c(4) by (simp add: word_le_unat)
    ultimately have "owns h' c (p, ?ws)" using c(3) lw by (simp add: owns_def)
    then have "list_all2 (owns h') (rs[i := c]) (bs[i := (p, ?ws)])"
      using same len True by (auto simp: list_all2_conv_all_nth nth_list_update)
    moreover have "set rs - {?a} \<subseteq> occ os - {?a}" using k(3) by auto
    moreover have "set (rs[i := c]) = insert c (set rs - {?a})" using set_update_distinct [OF k(2)] True len by simp
    moreover have "distinct (rs[i := c])" using k(2,3) c(1) by (intro distinct_list_update) auto
    ultimately have "kh_sim h' (bs[i := (p, ?ws)])" using r(2) c(2) unfolding kh_sim_def by (metis insert_mono)
    then show ?thesis using r(1) p True b by simp
  qed
qed (use assms in simp)

lemma sim_run: "kh_sim h bs \<Longrightarrow> list_all small reqs \<Longrightarrow> \<exists>h' bs'. kh_run reqs (h, bs) = Some (h', bs') \<and> kh_sim h' bs'"
proof (induction reqs arbitrary: h bs)
  case (Cons r reqs)
  have "\<exists>h' bs'. kh_exec r (h, bs) = Some (h', bs') \<and> kh_sim h' bs'"
    using Cons.prems sim_alloc sim_free sim_realloc sim_write by (cases r) (simp_all del: kh_exec.simps)
  then obtain h1 bs1 where "kh_exec r (h, bs) = Some (h1, bs1)" "kh_sim h1 bs1" by blast
  then show ?case using Cons.IH [of h1 bs1] Cons.prems(2) by simp
qed simp

lemma sim_boot: "kh_sim (kheap_boot m) []"
proof -
  have "kh_inv (kheap_boot m) [] [] (\<lambda>_. [])"
    by (simp add: kh_inv_def kh_shape_def bucket_def kh_areas_def kheap_boot_def occ_def)
  then show ?thesis unfolding kh_sim_def by (auto simp: kheap_boot_def occ_def)
qed

definition blocks_ok :: "kheap \<Rightarrow> block list \<Rightarrow> bool" where
  "blocks_ok h bs \<longleftrightarrow> (\<forall>(p, ws) \<in> set bs. words_at (heap_mem h) p (length ws) = ws \<and> unat KHEAP_START < unat p \<and> unat p + 4 * length ws < unat KHEAP_START + unat KHEAP_SIZE)
     \<and> (\<forall>i<length bs. \<forall>j<length bs. i \<noteq> j \<longrightarrow>
          unat (fst (bs ! i)) + 4 * length (snd (bs ! i)) \<le> unat (fst (bs ! j)) \<or> unat (fst (bs ! j)) + 4 * length (snd (bs ! j)) \<le> unat (fst (bs ! i)))"

lemma sim_blocks: "kh_sim h bs \<Longrightarrow> blocks_ok h bs"
proof -
  assume "kh_sim h bs"
  then obtain us fs os rs where k: "kh_inv h us fs os" "distinct rs" "set rs \<subseteq> occ os" "list_all2 (owns h) rs bs" unfolding kh_sim_def by blast
  have len: "length rs = length bs" using k(4) by (rule list_all2_lengthD)
  have blk: "words_at (heap_mem h) p (length ws) = ws \<and> lo h (rs ! i) + 8 = unat p \<and> unat p + 4 * length ws < hi h (rs ! i)"
    and ok: "area_ok h (rs ! i) \<and> unat (heap_pages h) \<le> 4096 \<and> rs ! i \<in> occ os" if "i < length bs" "bs ! i = (p, ws)" for i p ws
  proof -
    have o: "owns h (rs ! i) (p, ws)" using k(4) that by (metis list_all2_conv_all_nth)
    have oc: "rs ! i \<in> occ os" using k(3) that len by auto
    have a: "area_ok h (rs ! i)" "unat (heap_pages h) \<le> 4096" using inv_area [OF k(1), of "rs ! i"] oc by auto
    then show "area_ok h (rs ! i) \<and> unat (heap_pages h) \<le> 4096 \<and> rs ! i \<in> occ os" using oc by simp
    have "unat p = lo h (rs ! i) + 8" using o area_offset [OF a, of 8] by (simp add: owns_def)
    then show "words_at (heap_mem h) p (length ws) = ws \<and> lo h (rs ! i) + 8 = unat p \<and> unat p + 4 * length ws < hi h (rs ! i)"
      using o by (auto simp: owns_def words_at_def hi_def intro: nth_equalityI)
  qed
  show ?thesis unfolding blocks_ok_def
  proof (intro conjI allI impI ballI, clarify)
    fix p ws assume "(p, ws) \<in> set bs"
    then obtain i where i: "i < length bs" "bs ! i = (p, ws)" by (auto simp: in_set_conv_nth)
    show "words_at (heap_mem h) p (length ws) = ws \<and> unat KHEAP_START < unat p \<and> unat p + 4 * length ws < unat KHEAP_START + unat KHEAP_SIZE"
      using blk [OF i] ok [OF i] heap_top_bound [of h] by (auto simp: area_ok_def KHEAP_START_def KHEAP_SIZE_def)
  next
    fix i j assume ij: "i < length bs" "j < length bs" "i \<noteq> j"
    obtain p ws q vs where b: "bs ! i = (p, ws)" "bs ! j = (q, vs)" by fastforce
    have "rs ! i \<noteq> rs ! j" using ij k(2) len by (simp add: nth_eq_iff_index_eq)
    then have "apart h (rs ! i) (rs ! j)" using inv_apart [OF k(1)] ok [OF ij(1) b(1)] ok [OF ij(2) b(2)] by auto
    then show "unat (fst (bs ! i)) + 4 * length (snd (bs ! i)) \<le> unat (fst (bs ! j)) \<or> unat (fst (bs ! j)) + 4 * length (snd (bs ! j)) \<le> unat (fst (bs ! i))"
      using blk [OF ij(1) b(1)] blk [OF ij(2) b(2)] b by (auto simp: apart_def)
  qed
qed


section \<open>Properties\<close>

text \<open>C5: whatever blocks a client asks for, releases, resizes and writes, in whatever order and whether or not pages can be mapped, no
  assertion of the heap fails, no list is broken, and every operation ends. The blocks are inside of the heap and do not
  overlap, and each holds what was written to it last: neither the operations on other blocks nor writes to them nor a move by
  \<^verbatim>\<open>realloc\<close> change its words.\<close>

theorem KHeap_session:
  assumes "list_all small reqs"
  shows "\<exists>h bs. kh_run reqs (kheap_boot m, []) = Some (h, bs) \<and> blocks_ok h bs"
  using sim_run [OF sim_boot assms] sim_blocks by blast

theorem KHeap_session_witness:
  "\<exists>h bs. kh_run [Alloc (\<lambda>_ _. True) 10, Alloc (\<lambda>_ _. True) 3000, Write 0 700 42, Free 1, Realloc (\<lambda>_ _. True) 0 9000, Alloc (\<lambda>_ _. False) 1]
     (kheap_boot (\<lambda>_. 0), []) = Some (h, bs) \<and> blocks_ok h bs"
  using KHeap_session [of "[Alloc (\<lambda>_ _. True) 10, Alloc (\<lambda>_ _. True) 3000, Write 0 700 42, Free 1, Realloc (\<lambda>_ _. True) 0 9000,
      Alloc (\<lambda>_ _. False) 1]" "\<lambda>_. 0"]
  by (simp add: KHEAP_SIZE_def del: kh_run.simps kh_exec.simps)

text \<open>C17: an allocation fails for lack of memory only. After any sequence of requests, if pages can be mapped and the heap has room for the pages of the
  new block and two more, \<^verbatim>\<open>alloc\<close> returns a block. The session is the same with it.\<close>

theorem KHeap_alloc_succeeds:
  assumes "list_all small reqs" "kh_run reqs (kheap_boot m, []) = Some (h, bs)" "\<forall>x y. ok x y" "0 < sz" "sz \<le> KHEAP_SIZE"
    "unat (heap_pages h) + unat sz div 4096 + 4 \<le> unat KHEAP_SIZE div 4096"
  shows "\<exists>p h' ws. kh_exec (Alloc ok sz) (h, bs) = Some (h', (p, ws) # bs) \<and> length ws = (unat sz + 3) div 4"
proof -
  have "kh_sim h bs" using sim_run [OF sim_boot assms(1), of m] assms(2) by simp
  then obtain us fs os where k: "kh_inv h us fs os" unfolding kh_sim_def by blast
  have sz: "unat sz \<le> 0x1000020" "sz \<noteq> 0" using assms(4,5) by (auto simp: word_le_unat KHEAP_SIZE_def)
  have "(unat (block_size sz) + 4095) div 4096 \<le> unat sz div 4096 + 2" using block_size_props(1) [OF sz(2,1)] by linarith
  then have "unat (heap_pages h) + (unat (block_size sz) + 4095) div 4096 + 2 \<le> 4096" using assms(6) by (simp add: KHEAP_SIZE_def)
  then obtain p h' where "KHeap_alloc ok sz h = Some (p, h')" "p \<noteq> 0" using KHeap_alloc_spec [OF k sz(1), of ok] assms(3) sz(2) by auto
  then show ?thesis by (simp add: words_nth words_of_def)
qed

theorem KHeap_alloc_succeeds_witness:
  "\<exists>p h' ws. kh_exec (Alloc (\<lambda>_ _. True) 100) (kheap_boot (\<lambda>_. 0), []) = Some (h', (p, ws) # []) \<and> length ws = 25"
  using KHeap_alloc_succeeds [of "[]" "\<lambda>_. 0" "kheap_boot (\<lambda>_. 0)" "[]" "\<lambda>_ _. True" 100]
  by (simp add: KHEAP_SIZE_def kheap_boot_def del: kh_exec.simps)

text \<open>The size of a block wraps around for requests of almost \<open>2\<^sup>3\<^sup>2\<close> bytes: they get the three words for the guards and no data.\<close>

lemma block_size_wraps: "block_size 0xFFFFFFFD = 12" "block_size 0xFFFFFFFF = 12"
  by (simp_all add: block_size_def ROUND_UP_def)

end
