(* ===== verification/X86_Flags.thy ===== *)
theory X86_Flags
  imports Esc_Prelude
begin

unbundle bit_operations_syntax

text \<open>
  The flags register of the real-mode emulator that the video driver uses to call the BIOS
  (\<^verbatim>\<open>drivers/x86/video/x86emu\<close>): the flag macros of \<^verbatim>\<open>x86emu/regs.h\<close>, the parity table and the
  helper macros of \<^verbatim>\<open>prim_ops.c\<close>, and the two facts the primitive operations rest on: the carry chain
  and the borrow chain, computed bitwise from operands and result, are the carries and borrows of
  the addition and the subtraction at every position.
\<close>

section \<open>Flags and macros\<close>

definition F_CF :: u32 where "F_CF = 0x0001"
definition F_PF :: u32 where "F_PF = 0x0004"
definition F_AF :: u32 where "F_AF = 0x0010"
definition F_ZF :: u32 where "F_ZF = 0x0040"
definition F_SF :: u32 where "F_SF = 0x0080"
definition F_TF :: u32 where "F_TF = 0x0100"
definition F_IF :: u32 where "F_IF = 0x0200"
definition F_DF :: u32 where "F_DF = 0x0400"
definition F_OF :: u32 where "F_OF = 0x0800"

definition SET_FLAG :: "u32 \<Rightarrow> u32 \<Rightarrow> u32" where
  "SET_FLAG flag flg = flg OR flag"

definition CLEAR_FLAG :: "u32 \<Rightarrow> u32 \<Rightarrow> u32" where
  "CLEAR_FLAG flag flg = flg AND NOT flag"

definition ACCESS_FLAG :: "u32 \<Rightarrow> u32 \<Rightarrow> u32" where
  "ACCESS_FLAG flag flg = flg AND flag"

definition CONDITIONAL_SET_FLAG :: "bool \<Rightarrow> u32 \<Rightarrow> u32 \<Rightarrow> u32" where
  "CONDITIONAL_SET_FLAG c flag flg = (if c then SET_FLAG flag flg else CLEAR_FLAG flag flg)"

definition x86emu_parity_tab :: "u32 list" where
  "x86emu_parity_tab =
     [0x96696996, 0x69969669, 0x69969669, 0x96696996, 0x69969669, 0x96696996, 0x96696996, 0x69969669]"

definition PARITY :: "u32 \<Rightarrow> bool" where
  "PARITY x \<longleftrightarrow> drop_bit (unat (x mod 32)) (x86emu_parity_tab ! unat (x div 32)) AND 1 = 0"

definition XOR2 :: "u32 \<Rightarrow> u32" where
  "XOR2 x = (x XOR drop_bit 1 x) AND 1"

section \<open>Reading the flags\<close>

named_theorems x86_flags

text \<open>\<open>on flag flg\<close>: the flag is set in the register.\<close>

definition on :: "u32 \<Rightarrow> u32 \<Rightarrow> bool" where
  "on flag flg \<longleftrightarrow> ACCESS_FLAG flag flg \<noteq> 0"

lemma and_exp_iff: "n < LENGTH('a) \<Longrightarrow> (x :: 'a::len word) AND 2 ^ n \<noteq> 0 \<longleftrightarrow> bit x n"
  by (simp add: and_exp_eq_0_iff_not_bit)

lemma and_bit_test [x86_flags]:
  "(x :: u32) AND 0x1 \<noteq> 0 \<longleftrightarrow> bit x 0" "(x :: u32) AND 0x8 \<noteq> 0 \<longleftrightarrow> bit x 3"
  "(x :: u32) AND 0x80 \<noteq> 0 \<longleftrightarrow> bit x 7" "(x :: u32) AND 0x100 \<noteq> 0 \<longleftrightarrow> bit x 8"
  "(x :: u32) AND 0x8000 \<noteq> 0 \<longleftrightarrow> bit x 15" "(x :: u32) AND 0x10000 \<noteq> 0 \<longleftrightarrow> bit x 16"
  "(x :: u32) AND 0x80000000 \<noteq> 0 \<longleftrightarrow> bit x 31"
  using and_exp_iff [of 0 x] and_exp_iff [of 3 x] and_exp_iff [of 7 x] and_exp_iff [of 8 x]
    and_exp_iff [of 15 x] and_exp_iff [of 16 x] and_exp_iff [of 31 x] by simp_all

lemma and_bit_test_0 [x86_flags]:
  "(x :: u32) AND 0x1 = 0 \<longleftrightarrow> \<not> bit x 0" "(x :: u32) AND 0x8 = 0 \<longleftrightarrow> \<not> bit x 3"
  "(x :: u32) AND 0x80 = 0 \<longleftrightarrow> \<not> bit x 7" "(x :: u32) AND 0x100 = 0 \<longleftrightarrow> \<not> bit x 8"
  "(x :: u32) AND 0x8000 = 0 \<longleftrightarrow> \<not> bit x 15" "(x :: u32) AND 0x10000 = 0 \<longleftrightarrow> \<not> bit x 16"
  "(x :: u32) AND 0x80000000 = 0 \<longleftrightarrow> \<not> bit x 31"
  using and_bit_test [of x] by blast+

lemma F_exp: "F_CF = 2 ^ 0" "F_PF = 2 ^ 2" "F_AF = 2 ^ 4" "F_ZF = 2 ^ 6" "F_SF = 2 ^ 7" "F_TF = 2 ^ 8"
    "F_IF = 2 ^ 9" "F_DF = 2 ^ 10" "F_OF = 2 ^ 11"
  by (simp_all add: F_CF_def F_PF_def F_AF_def F_ZF_def F_SF_def F_TF_def F_IF_def F_DF_def F_OF_def)

lemma on_bit [x86_flags]: "on F_CF flg = bit flg 0" "on F_PF flg = bit flg 2" "on F_AF flg = bit flg 4"
    "on F_ZF flg = bit flg 6" "on F_SF flg = bit flg 7" "on F_TF flg = bit flg 8" "on F_IF flg = bit flg 9"
    "on F_DF flg = bit flg 10" "on F_OF flg = bit flg 11"
  unfolding on_def ACCESS_FLAG_def F_exp by (rule and_exp_iff; simp)+

lemma bit_cond_exp: "k < 32 \<Longrightarrow> bit (CONDITIONAL_SET_FLAG c (2 ^ k) flg) j = (if j = k then c else bit flg j)"
  by (auto simp: CONDITIONAL_SET_FLAG_def SET_FLAG_def CLEAR_FLAG_def bit_simps dest: bit_imp_le_length)

lemma SET_cond: "SET_FLAG f flg = CONDITIONAL_SET_FLAG True f flg" "CLEAR_FLAG f flg = CONDITIONAL_SET_FLAG False f flg"
  by (simp_all add: CONDITIONAL_SET_FLAG_def)

lemma bit_cond [x86_flags]:
  "bit (CONDITIONAL_SET_FLAG c F_CF flg) j = (if j = 0 then c else bit flg j)"
  "bit (CONDITIONAL_SET_FLAG c F_PF flg) j = (if j = 2 then c else bit flg j)"
  "bit (CONDITIONAL_SET_FLAG c F_AF flg) j = (if j = 4 then c else bit flg j)"
  "bit (CONDITIONAL_SET_FLAG c F_ZF flg) j = (if j = 6 then c else bit flg j)"
  "bit (CONDITIONAL_SET_FLAG c F_SF flg) j = (if j = 7 then c else bit flg j)"
  "bit (CONDITIONAL_SET_FLAG c F_OF flg) j = (if j = 11 then c else bit flg j)"
  unfolding F_exp by (rule bit_cond_exp; simp)+

lemma bit_F: "bit F_CF j \<longleftrightarrow> j = 0" "bit F_PF j \<longleftrightarrow> j = 2" "bit F_AF j \<longleftrightarrow> j = 4" "bit F_ZF j \<longleftrightarrow> j = 6"
    "bit F_SF j \<longleftrightarrow> j = 7" "bit F_OF j \<longleftrightarrow> j = 11"
  using bit_cond [of True 0 j] by (simp_all add: CONDITIONAL_SET_FLAG_def SET_FLAG_def)

lemma XOR2_iff [x86_flags]: "XOR2 (drop_bit k x) \<noteq> 0 \<longleftrightarrow> bit x k \<noteq> bit x (k + 1)"
proof -
  have "XOR2 (drop_bit k x) \<noteq> 0 \<longleftrightarrow> bit (drop_bit k x XOR drop_bit 1 (drop_bit k x)) 0"
    unfolding XOR2_def by (simp add: and_bit_test(1))
  then show ?thesis by (simp add: bit_simps)
qed

section \<open>Parity\<close>

definition even_parity :: "'a::len word \<Rightarrow> bool" where
  "even_parity x \<longleftrightarrow> even (length (filter (bit x) [0..<8]))"

lemma PARITY_table: "\<forall>n\<in>set [0..<256]. PARITY (word_of_nat n) = even_parity (word_of_nat n :: u8)"
  by code_simp

lemma PARITY_ucast: "PARITY (ucast (x :: u8)) = even_parity x"
proof -
  have "unat x < 256" using unsigned_less [of x] by simp
  then have "unat x \<in> set [0..<256]" by simp
  from PARITY_table [rule_format, OF this]
  have "PARITY (word_of_nat (unat x)) = even_parity (word_of_nat (unat x) :: u8)" .
  then show ?thesis by simp
qed

lemma PARITY_low [x86_flags]: "PARITY (x AND 0xff) = even_parity x"
proof -
  have "(0xff :: u32) = mask 8" by (simp add: mask_eq_exp_minus_1)
  then have "x AND 0xff = take_bit 8 x" by (simp only: take_bit_eq_mask)
  also have "\<dots> = ucast (ucast x :: u8)" by (rule bit_eqI) (auto simp: bit_simps)
  finally have "x AND 0xff = ucast (ucast x :: u8)" .
  then have "PARITY (x AND 0xff) = even_parity (ucast x :: u8)" by (simp add: PARITY_ucast)
  also have "\<dots> = even_parity x"
    unfolding even_parity_def by (intro arg_cong [where f = even] arg_cong [where f = length] filter_cong) (simp_all add: bit_simps)
  finally show ?thesis .
qed

section \<open>Carry and borrow chains\<close>

text \<open>The carry into position \<open>n\<close> of an addition with carry-in \<open>c\<close>, and the borrow into position \<open>n\<close> of
  a subtraction with borrow-in \<open>c\<close>.\<close>

definition carry :: "nat \<Rightarrow> nat \<Rightarrow> bool \<Rightarrow> nat \<Rightarrow> bool" where
  "carry d s c n \<longleftrightarrow> 2 ^ n \<le> take_bit n d + take_bit n s + of_bool c"

definition borrow :: "nat \<Rightarrow> nat \<Rightarrow> bool \<Rightarrow> nat \<Rightarrow> bool" where
  "borrow d s c n \<longleftrightarrow> take_bit n d < take_bit n s + of_bool c"

lemma carry_step:
  fixes x y p :: nat
  assumes "x < p" "y < p"
  shows "2 * p \<le> (p * of_bool a + x) + (p * of_bool b + y) + of_bool c \<longleftrightarrow>
    (a \<and> b) \<or> ((a \<or> b) \<and> p \<le> x + y + of_bool c)"
  using assms by (cases a; cases b; cases c) auto

lemma carry_Suc: "carry d s c (Suc n) \<longleftrightarrow> (bit d n \<and> bit s n) \<or> ((bit d n \<or> bit s n) \<and> carry d s c n)"
  unfolding carry_def take_bit_Suc_from_most power_Suc by (rule carry_step) simp_all

lemma div_carry: "x < p \<Longrightarrow> y < p \<Longrightarrow> (x + y + of_bool c) div p = of_bool (p \<le> x + y + of_bool c)" for x y p :: nat
  by (cases "p \<le> x + y + of_bool c"; cases c) (simp_all add: div_if)

lemma bit_sum: "bit (d + s + of_bool c :: nat) n \<longleftrightarrow> (bit d n \<noteq> (bit s n \<noteq> carry d s c n))"
proof -
  let ?l = "take_bit n d + take_bit n s + of_bool c :: nat"
  have q: "?l div 2 ^ n = of_bool (carry d s c n)"
    unfolding carry_def by (rule div_carry) simp_all
  have "d = d div 2 ^ n * 2 ^ n + take_bit n d" "s = s div 2 ^ n * 2 ^ n + take_bit n s"
    by (simp_all only: take_bit_eq_mod div_mult_mod_eq)
  then have "d + s + of_bool c = ?l + (d div 2 ^ n + s div 2 ^ n) * 2 ^ n"
    unfolding add_mult_distrib by linarith
  then have "(d + s + of_bool c) div 2 ^ n = d div 2 ^ n + s div 2 ^ n + of_bool (carry d s c n)"
    using q div_mult_self1 [of "2 ^ n" ?l "d div 2 ^ n + s div 2 ^ n"] by (simp only: add_ac) simp
  then show ?thesis by (auto simp: bit_iff_odd)
qed

lemma carry_chain:
  fixes d s :: u32
  assumes "n < 32" "res = d + s + of_bool c"
  shows "bit ((s AND d) OR (NOT res AND (s OR d))) n \<longleftrightarrow> carry (unat d) (unat s) c (Suc n)"
proof -
  have "unat res = take_bit 32 (unat d + unat s + of_bool c)"
    unfolding assms(2) by (simp add: unat_word_ariths take_bit_eq_mod mod_simps)
  then have "bit (unat res) n \<longleftrightarrow> bit (unat d + unat s + of_bool c) n"
    using assms(1) by (simp add: bit_take_bit_iff)
  then have "bit res n \<longleftrightarrow> (bit d n \<noteq> (bit s n \<noteq> carry (unat d) (unat s) c n))"
    unfolding bit_sum using assms(1) by (simp add: bit_simps)
  then show ?thesis using assms(1) by (auto simp: carry_Suc bit_simps)
qed

lemma complement_step: "y < p \<Longrightarrow> p \<le> x + (p - 1 - y) + of_bool (\<not> c) \<longleftrightarrow> \<not> x < y + of_bool c" for x y p :: nat
  by (cases c) auto

lemma carry_not: "n \<le> 32 \<Longrightarrow> carry (unat d) (unat (NOT s :: u32)) (\<not> c) n \<longleftrightarrow> \<not> borrow (unat d) (unat s) c n"
proof -
  assume n: "n \<le> 32"
  have "take_bit n (unat (NOT s)) = unat (take_bit n (NOT s))" by (simp add: unsigned_take_bit_eq)
  also have "take_bit n (NOT s) = mask n - take_bit n s" by (rule take_bit_not_eq_mask_diff)
  also have "unat (mask n - take_bit n s) = 2 ^ n - 1 - take_bit n (unat s)"
  proof -
    have "unat (mask n :: u32) = mask n" using n by (intro bit_eqI) (auto simp: bit_simps)
    then have m: "unat (mask n :: u32) = 2 ^ n - 1" by (simp add: mask_eq_exp_minus_1)
    moreover have "take_bit n s \<le> mask n"
      using take_bit_nat_less_exp [of n "unat s"] unfolding word_le_nat_alt m unsigned_take_bit_eq by linarith
    ultimately show ?thesis by (simp add: unat_sub unsigned_take_bit_eq)
  qed
  finally have e: "take_bit n (unat (NOT s)) = 2 ^ n - 1 - take_bit n (unat s)" .
  show ?thesis unfolding carry_def borrow_def e by (rule complement_step) simp
qed

lemma borrow_chain:
  fixes d s :: u32
  assumes "n < 32" "res = d - s - of_bool c"
  shows "bit ((res AND (NOT d OR s)) OR (NOT d AND s)) n \<longleftrightarrow> borrow (unat d) (unat s) c (Suc n)"
proof -
  have "res = d + NOT s + of_bool (\<not> c)" unfolding assms(2) not_eq_complement by simp
  from carry_chain [OF assms(1) this]
  have "\<not> bit ((NOT s AND d) OR (NOT res AND (NOT s OR d))) n \<longleftrightarrow> borrow (unat d) (unat s) c (Suc n)"
    using carry_not [of "Suc n" d s c] assms(1) by simp
  then show ?thesis using assms(1) by (auto simp: bit_simps)
qed

lemma borrow_Suc: "borrow d s c (Suc n) \<longleftrightarrow> (\<not> bit d n \<and> bit s n) \<or> ((\<not> bit d n \<or> bit s n) \<and> borrow d s c n)"
proof -
  have step: "p * of_bool a + x < p * of_bool b + y + of_bool c \<longleftrightarrow> (\<not> a \<and> b) \<or> ((\<not> a \<or> b) \<and> x < y + of_bool c)"
    if "x < p" "y < p" for x y p :: nat and a b
    using that by (cases a; cases b; cases c) auto
  show ?thesis unfolding borrow_def take_bit_Suc_from_most by (rule step) simp_all
qed

section \<open>Signed overflow\<close>

text \<open>\<open>fits w z\<close>: the integer is in the range of a signed number of the width of \<open>w\<close>.\<close>

definition fits :: "'a::len word \<Rightarrow> int \<Rightarrow> bool" where
  "fits w z \<longleftrightarrow> - (2 ^ (LENGTH('a) - 1)) \<le> z \<and> z < 2 ^ (LENGTH('a) - 1)"

lemma sint_parts:
  fixes w :: "'a::len word"
  shows "sint w = int (take_bit (LENGTH('a) - 1) (unat w)) - 2 ^ (LENGTH('a) - 1) * of_bool (bit w (LENGTH('a) - 1))"
proof -
  obtain n where n: "LENGTH('a) = Suc n" using not0_implies_Suc [of "LENGTH('a)"] by auto
  have "sint w = uint w - 2 ^ Suc n * of_bool (bit w n)"
    using n unsigned_less [of w, where 'a = int]
    by (simp add: sint_uint signed_take_bit_eq_take_bit_minus bit_simps take_bit_int_eq_self_iff del: unsigned_less)
  moreover have "uint w = int (take_bit n (unat w)) + 2 ^ n * of_bool (bit w n)"
  proof -
    have "unat w = take_bit (Suc n) (unat w)" using n unsigned_less [of w, where 'a = nat] by (simp add: take_bit_nat_eq_self del: unsigned_less)
    then have "unat w = 2 ^ n * of_bool (bit (unat w) n) + take_bit n (unat w)"
      by (simp only: take_bit_Suc_from_most)
    then have "int (unat w) = 2 ^ n * of_bool (bit (unat w) n) + int (take_bit n (unat w))"
      by (metis (mono_tags) of_nat_add of_nat_mult of_nat_numeral of_nat_of_bool of_nat_power)
    then show ?thesis by (simp add: n bit_simps)
  qed
  ultimately show ?thesis using n by simp
qed

lemma overflow_step:
  fixes x y p :: nat
  assumes "x < p" "y < p"
  shows "((p \<le> x + y + of_bool c) \<noteq> ((a \<and> b) \<or> ((a \<or> b) \<and> p \<le> x + y + of_bool c))) \<longleftrightarrow>
    \<not> (- int p \<le> (int x - int p * of_bool a) + (int y - int p * of_bool b) + of_bool c \<and>
       (int x - int p * of_bool a) + (int y - int p * of_bool b) + of_bool c < int p)"
  using assms by (cases a; cases b; cases c) auto

lemma overflow_step_sub:
  fixes x y p :: nat
  assumes "x < p" "y < p"
  shows "((x < y + of_bool c) \<noteq> ((\<not> a \<and> b) \<or> ((\<not> a \<or> b) \<and> x < y + of_bool c))) \<longleftrightarrow>
    \<not> (- int p \<le> (int x - int p * of_bool a) - (int y - int p * of_bool b) - of_bool c \<and>
       (int x - int p * of_bool a) - (int y - int p * of_bool b) - of_bool c < int p)"
  using assms by (cases a; cases b; cases c) auto

lemma add_overflow:
  fixes d s :: "'a::len word"
  assumes "LENGTH('a) = Suc n"
  shows "carry (unat d) (unat s) c n \<noteq> carry (unat d) (unat s) c (Suc n) \<longleftrightarrow> \<not> fits d (sint d + sint s + of_bool c)"
  unfolding carry_Suc fits_def sint_parts assms using overflow_step [of "take_bit n (unat d)" "2 ^ n" "take_bit n (unat s)" c "bit d n" "bit s n"]
  by (simp add: carry_def bit_simps assms)

lemma sub_overflow:
  fixes d s :: "'a::len word"
  assumes "LENGTH('a) = Suc n"
  shows "borrow (unat d) (unat s) c n \<noteq> borrow (unat d) (unat s) c (Suc n) \<longleftrightarrow> \<not> fits d (sint d - sint s - of_bool c)"
  unfolding borrow_Suc fits_def sint_parts assms using overflow_step_sub [of "take_bit n (unat d)" "2 ^ n" "take_bit n (unat s)" c "bit d n" "bit s n"]
  by (simp add: borrow_def bit_simps assms)

end
