(* ===== verification/X86_Arith.thy ===== *)
theory X86_Arith
  imports X86_Flags
begin

unbundle bit_operations_syntax

text \<open>
  The additive and bitwise primitives of the emulator (\<^verbatim>\<open>prim_ops.c\<close>) at the widths 8, 16 and 32. An
  operation takes its operands and the flags register and returns its result and the new flags;
  the operands of the C functions are promoted to 32 bit, which is the \<^verbatim>\<open>ucast\<close> of the definitions.

  The properties compare each operation with the arithmetic of its operands: the result, carry and
  overflow as out-of-range of the unsigned and the signed result, the carry out of the low nibble,
  and zero, sign and parity of the result. All other bits of the register keep their values.
\<close>

section \<open>The operations\<close>

definition adc_byte :: "u8 \<Rightarrow> u8 \<Rightarrow> u32 \<Rightarrow> u8 \<times> u32" where
  "adc_byte d s flg =
     (let res = (if ACCESS_FLAG F_CF flg \<noteq> 0 then 1 + ucast d + ucast s else ucast d + ucast s);
        flg = CONDITIONAL_SET_FLAG (res AND 0x100 \<noteq> 0) F_CF flg;
        flg = CONDITIONAL_SET_FLAG (res AND 0xff = 0) F_ZF flg;
        flg = CONDITIONAL_SET_FLAG (res AND 0x80 \<noteq> 0) F_SF flg;
        flg = CONDITIONAL_SET_FLAG (PARITY (res AND 0xff)) F_PF flg;
        cc = ((ucast s) AND (ucast d)) OR (NOT res AND ((ucast s) OR (ucast d)));
        flg = CONDITIONAL_SET_FLAG (XOR2 (drop_bit 6 cc) \<noteq> 0) F_OF flg;
        flg = CONDITIONAL_SET_FLAG (cc AND 0x8 \<noteq> 0) F_AF flg
      in (ucast res, flg))"

definition add_byte :: "u8 \<Rightarrow> u8 \<Rightarrow> u32 \<Rightarrow> u8 \<times> u32" where
  "add_byte d s flg =
     (let res = ucast d + ucast s;
        flg = CONDITIONAL_SET_FLAG (res AND 0x100 \<noteq> 0) F_CF flg;
        flg = CONDITIONAL_SET_FLAG (res AND 0xff = 0) F_ZF flg;
        flg = CONDITIONAL_SET_FLAG (res AND 0x80 \<noteq> 0) F_SF flg;
        flg = CONDITIONAL_SET_FLAG (PARITY (res AND 0xff)) F_PF flg;
        cc = ((ucast s) AND (ucast d)) OR (NOT res AND ((ucast s) OR (ucast d)));
        flg = CONDITIONAL_SET_FLAG (XOR2 (drop_bit 6 cc) \<noteq> 0) F_OF flg;
        flg = CONDITIONAL_SET_FLAG (cc AND 0x8 \<noteq> 0) F_AF flg
      in (ucast res, flg))"

definition adc_word :: "u16 \<Rightarrow> u16 \<Rightarrow> u32 \<Rightarrow> u16 \<times> u32" where
  "adc_word d s flg =
     (let res = (if ACCESS_FLAG F_CF flg \<noteq> 0 then 1 + ucast d + ucast s else ucast d + ucast s);
        flg = CONDITIONAL_SET_FLAG (res AND 0x10000 \<noteq> 0) F_CF flg;
        flg = CONDITIONAL_SET_FLAG (res AND 0xffff = 0) F_ZF flg;
        flg = CONDITIONAL_SET_FLAG (res AND 0x8000 \<noteq> 0) F_SF flg;
        flg = CONDITIONAL_SET_FLAG (PARITY (res AND 0xff)) F_PF flg;
        cc = ((ucast s) AND (ucast d)) OR (NOT res AND ((ucast s) OR (ucast d)));
        flg = CONDITIONAL_SET_FLAG (XOR2 (drop_bit 14 cc) \<noteq> 0) F_OF flg;
        flg = CONDITIONAL_SET_FLAG (cc AND 0x8 \<noteq> 0) F_AF flg
      in (ucast res, flg))"

definition add_word :: "u16 \<Rightarrow> u16 \<Rightarrow> u32 \<Rightarrow> u16 \<times> u32" where
  "add_word d s flg =
     (let res = ucast d + ucast s;
        flg = CONDITIONAL_SET_FLAG (res AND 0x10000 \<noteq> 0) F_CF flg;
        flg = CONDITIONAL_SET_FLAG (res AND 0xffff = 0) F_ZF flg;
        flg = CONDITIONAL_SET_FLAG (res AND 0x8000 \<noteq> 0) F_SF flg;
        flg = CONDITIONAL_SET_FLAG (PARITY (res AND 0xff)) F_PF flg;
        cc = ((ucast s) AND (ucast d)) OR (NOT res AND ((ucast s) OR (ucast d)));
        flg = CONDITIONAL_SET_FLAG (XOR2 (drop_bit 14 cc) \<noteq> 0) F_OF flg;
        flg = CONDITIONAL_SET_FLAG (cc AND 0x8 \<noteq> 0) F_AF flg
      in (ucast res, flg))"

definition adc_long :: "u32 \<Rightarrow> u32 \<Rightarrow> u32 \<Rightarrow> u32 \<times> u32" where
  "adc_long d s flg =
     (let lo = (if ACCESS_FLAG F_CF flg \<noteq> 0 then 1 + (d AND 0xFFFF) + (s AND 0xFFFF) else (d AND 0xFFFF) + (s AND 0xFFFF));
        res = (if ACCESS_FLAG F_CF flg \<noteq> 0 then 1 + d + s else d + s);
        hi = drop_bit 16 lo + drop_bit 16 d + drop_bit 16 s;
        flg = CONDITIONAL_SET_FLAG (hi AND 0x10000 \<noteq> 0) F_CF flg;
        flg = CONDITIONAL_SET_FLAG (res AND 0xffffffff = 0) F_ZF flg;
        flg = CONDITIONAL_SET_FLAG (res AND 0x80000000 \<noteq> 0) F_SF flg;
        flg = CONDITIONAL_SET_FLAG (PARITY (res AND 0xff)) F_PF flg;
        cc = (s AND d) OR (NOT res AND (s OR d));
        flg = CONDITIONAL_SET_FLAG (XOR2 (drop_bit 30 cc) \<noteq> 0) F_OF flg;
        flg = CONDITIONAL_SET_FLAG (cc AND 0x8 \<noteq> 0) F_AF flg
      in (res, flg))"

definition add_long :: "u32 \<Rightarrow> u32 \<Rightarrow> u32 \<Rightarrow> u32 \<times> u32" where
  "add_long d s flg =
     (let lo = (d AND 0xFFFF) + (s AND 0xFFFF);
        res = d + s;
        hi = drop_bit 16 lo + drop_bit 16 d + drop_bit 16 s;
        flg = CONDITIONAL_SET_FLAG (hi AND 0x10000 \<noteq> 0) F_CF flg;
        flg = CONDITIONAL_SET_FLAG (res AND 0xffffffff = 0) F_ZF flg;
        flg = CONDITIONAL_SET_FLAG (res AND 0x80000000 \<noteq> 0) F_SF flg;
        flg = CONDITIONAL_SET_FLAG (PARITY (res AND 0xff)) F_PF flg;
        cc = (s AND d) OR (NOT res AND (s OR d));
        flg = CONDITIONAL_SET_FLAG (XOR2 (drop_bit 30 cc) \<noteq> 0) F_OF flg;
        flg = CONDITIONAL_SET_FLAG (cc AND 0x8 \<noteq> 0) F_AF flg
      in (res, flg))"

definition inc_byte :: "u8 \<Rightarrow> u32 \<Rightarrow> u8 \<times> u32" where
  "inc_byte d flg =
     (let res = ucast d + 1;
        flg = CONDITIONAL_SET_FLAG (res AND 0xff = 0) F_ZF flg;
        flg = CONDITIONAL_SET_FLAG (res AND 0x80 \<noteq> 0) F_SF flg;
        flg = CONDITIONAL_SET_FLAG (PARITY (res AND 0xff)) F_PF flg;
        cc = ((1 AND (ucast d)) OR NOT res) AND (1 OR (ucast d));
        flg = CONDITIONAL_SET_FLAG (XOR2 (drop_bit 6 cc) \<noteq> 0) F_OF flg;
        flg = CONDITIONAL_SET_FLAG (cc AND 0x8 \<noteq> 0) F_AF flg
      in (ucast res, flg))"

definition inc_word :: "u16 \<Rightarrow> u32 \<Rightarrow> u16 \<times> u32" where
  "inc_word d flg =
     (let res = ucast d + 1;
        flg = CONDITIONAL_SET_FLAG (res AND 0xffff = 0) F_ZF flg;
        flg = CONDITIONAL_SET_FLAG (res AND 0x8000 \<noteq> 0) F_SF flg;
        flg = CONDITIONAL_SET_FLAG (PARITY (res AND 0xff)) F_PF flg;
        cc = (1 AND (ucast d)) OR (NOT res AND (1 OR (ucast d)));
        flg = CONDITIONAL_SET_FLAG (XOR2 (drop_bit 14 cc) \<noteq> 0) F_OF flg;
        flg = CONDITIONAL_SET_FLAG (cc AND 0x8 \<noteq> 0) F_AF flg
      in (ucast res, flg))"

definition inc_long :: "u32 \<Rightarrow> u32 \<Rightarrow> u32 \<times> u32" where
  "inc_long d flg =
     (let res = d + 1;
        flg = CONDITIONAL_SET_FLAG (res AND 0xffffffff = 0) F_ZF flg;
        flg = CONDITIONAL_SET_FLAG (res AND 0x80000000 \<noteq> 0) F_SF flg;
        flg = CONDITIONAL_SET_FLAG (PARITY (res AND 0xff)) F_PF flg;
        cc = (1 AND d) OR (NOT res AND (1 OR d));
        flg = CONDITIONAL_SET_FLAG (XOR2 (drop_bit 30 cc) \<noteq> 0) F_OF flg;
        flg = CONDITIONAL_SET_FLAG (cc AND 0x8 \<noteq> 0) F_AF flg
      in (res, flg))"

definition cmp_byte :: "u8 \<Rightarrow> u8 \<Rightarrow> u32 \<Rightarrow> u8 \<times> u32" where
  "cmp_byte d s flg =
     (let res = ucast d - ucast s;
        flg = CLEAR_FLAG F_CF flg;
        flg = CONDITIONAL_SET_FLAG (res AND 0x80 \<noteq> 0) F_SF flg;
        flg = CONDITIONAL_SET_FLAG (res AND 0xff = 0) F_ZF flg;
        flg = CONDITIONAL_SET_FLAG (PARITY (res AND 0xff)) F_PF flg;
        bc = (res AND (NOT (ucast d) OR (ucast s))) OR (NOT (ucast d) AND (ucast s));
        flg = CONDITIONAL_SET_FLAG (bc AND 0x80 \<noteq> 0) F_CF flg;
        flg = CONDITIONAL_SET_FLAG (XOR2 (drop_bit 6 bc) \<noteq> 0) F_OF flg;
        flg = CONDITIONAL_SET_FLAG (bc AND 0x8 \<noteq> 0) F_AF flg
      in (d, flg))"

definition cmp_word :: "u16 \<Rightarrow> u16 \<Rightarrow> u32 \<Rightarrow> u16 \<times> u32" where
  "cmp_word d s flg =
     (let res = ucast d - ucast s;
        flg = CONDITIONAL_SET_FLAG (res AND 0x8000 \<noteq> 0) F_SF flg;
        flg = CONDITIONAL_SET_FLAG (res AND 0xffff = 0) F_ZF flg;
        flg = CONDITIONAL_SET_FLAG (PARITY (res AND 0xff)) F_PF flg;
        bc = (res AND (NOT (ucast d) OR (ucast s))) OR (NOT (ucast d) AND (ucast s));
        flg = CONDITIONAL_SET_FLAG (bc AND 0x8000 \<noteq> 0) F_CF flg;
        flg = CONDITIONAL_SET_FLAG (XOR2 (drop_bit 14 bc) \<noteq> 0) F_OF flg;
        flg = CONDITIONAL_SET_FLAG (bc AND 0x8 \<noteq> 0) F_AF flg
      in (d, flg))"

definition cmp_long :: "u32 \<Rightarrow> u32 \<Rightarrow> u32 \<Rightarrow> u32 \<times> u32" where
  "cmp_long d s flg =
     (let res = d - s;
        flg = CONDITIONAL_SET_FLAG (res AND 0x80000000 \<noteq> 0) F_SF flg;
        flg = CONDITIONAL_SET_FLAG (res AND 0xffffffff = 0) F_ZF flg;
        flg = CONDITIONAL_SET_FLAG (PARITY (res AND 0xff)) F_PF flg;
        bc = (res AND (NOT d OR s)) OR (NOT d AND s);
        flg = CONDITIONAL_SET_FLAG (bc AND 0x80000000 \<noteq> 0) F_CF flg;
        flg = CONDITIONAL_SET_FLAG (XOR2 (drop_bit 30 bc) \<noteq> 0) F_OF flg;
        flg = CONDITIONAL_SET_FLAG (bc AND 0x8 \<noteq> 0) F_AF flg
      in (d, flg))"

definition sub_byte :: "u8 \<Rightarrow> u8 \<Rightarrow> u32 \<Rightarrow> u8 \<times> u32" where
  "sub_byte d s flg =
     (let res = ucast d - ucast s;
        flg = CONDITIONAL_SET_FLAG (res AND 0x80 \<noteq> 0) F_SF flg;
        flg = CONDITIONAL_SET_FLAG (res AND 0xff = 0) F_ZF flg;
        flg = CONDITIONAL_SET_FLAG (PARITY (res AND 0xff)) F_PF flg;
        bc = (res AND (NOT (ucast d) OR (ucast s))) OR (NOT (ucast d) AND (ucast s));
        flg = CONDITIONAL_SET_FLAG (bc AND 0x80 \<noteq> 0) F_CF flg;
        flg = CONDITIONAL_SET_FLAG (XOR2 (drop_bit 6 bc) \<noteq> 0) F_OF flg;
        flg = CONDITIONAL_SET_FLAG (bc AND 0x8 \<noteq> 0) F_AF flg
      in (ucast res, flg))"

definition sub_word :: "u16 \<Rightarrow> u16 \<Rightarrow> u32 \<Rightarrow> u16 \<times> u32" where
  "sub_word d s flg =
     (let res = ucast d - ucast s;
        flg = CONDITIONAL_SET_FLAG (res AND 0x8000 \<noteq> 0) F_SF flg;
        flg = CONDITIONAL_SET_FLAG (res AND 0xffff = 0) F_ZF flg;
        flg = CONDITIONAL_SET_FLAG (PARITY (res AND 0xff)) F_PF flg;
        bc = (res AND (NOT (ucast d) OR (ucast s))) OR (NOT (ucast d) AND (ucast s));
        flg = CONDITIONAL_SET_FLAG (bc AND 0x8000 \<noteq> 0) F_CF flg;
        flg = CONDITIONAL_SET_FLAG (XOR2 (drop_bit 14 bc) \<noteq> 0) F_OF flg;
        flg = CONDITIONAL_SET_FLAG (bc AND 0x8 \<noteq> 0) F_AF flg
      in (ucast res, flg))"

definition sub_long :: "u32 \<Rightarrow> u32 \<Rightarrow> u32 \<Rightarrow> u32 \<times> u32" where
  "sub_long d s flg =
     (let res = d - s;
        flg = CONDITIONAL_SET_FLAG (res AND 0x80000000 \<noteq> 0) F_SF flg;
        flg = CONDITIONAL_SET_FLAG (res AND 0xffffffff = 0) F_ZF flg;
        flg = CONDITIONAL_SET_FLAG (PARITY (res AND 0xff)) F_PF flg;
        bc = (res AND (NOT d OR s)) OR (NOT d AND s);
        flg = CONDITIONAL_SET_FLAG (bc AND 0x80000000 \<noteq> 0) F_CF flg;
        flg = CONDITIONAL_SET_FLAG (XOR2 (drop_bit 30 bc) \<noteq> 0) F_OF flg;
        flg = CONDITIONAL_SET_FLAG (bc AND 0x8 \<noteq> 0) F_AF flg
      in (res, flg))"

definition sbb_byte :: "u8 \<Rightarrow> u8 \<Rightarrow> u32 \<Rightarrow> u8 \<times> u32" where
  "sbb_byte d s flg =
     (let res = (if ACCESS_FLAG F_CF flg \<noteq> 0 then ucast d - ucast s - 1 else ucast d - ucast s);
        flg = CONDITIONAL_SET_FLAG (res AND 0x80 \<noteq> 0) F_SF flg;
        flg = CONDITIONAL_SET_FLAG (res AND 0xff = 0) F_ZF flg;
        flg = CONDITIONAL_SET_FLAG (PARITY (res AND 0xff)) F_PF flg;
        bc = (res AND (NOT (ucast d) OR (ucast s))) OR (NOT (ucast d) AND (ucast s));
        flg = CONDITIONAL_SET_FLAG (bc AND 0x80 \<noteq> 0) F_CF flg;
        flg = CONDITIONAL_SET_FLAG (XOR2 (drop_bit 6 bc) \<noteq> 0) F_OF flg;
        flg = CONDITIONAL_SET_FLAG (bc AND 0x8 \<noteq> 0) F_AF flg
      in (ucast res, flg))"

definition sbb_word :: "u16 \<Rightarrow> u16 \<Rightarrow> u32 \<Rightarrow> u16 \<times> u32" where
  "sbb_word d s flg =
     (let res = (if ACCESS_FLAG F_CF flg \<noteq> 0 then ucast d - ucast s - 1 else ucast d - ucast s);
        flg = CONDITIONAL_SET_FLAG (res AND 0x8000 \<noteq> 0) F_SF flg;
        flg = CONDITIONAL_SET_FLAG (res AND 0xffff = 0) F_ZF flg;
        flg = CONDITIONAL_SET_FLAG (PARITY (res AND 0xff)) F_PF flg;
        bc = (res AND (NOT (ucast d) OR (ucast s))) OR (NOT (ucast d) AND (ucast s));
        flg = CONDITIONAL_SET_FLAG (bc AND 0x8000 \<noteq> 0) F_CF flg;
        flg = CONDITIONAL_SET_FLAG (XOR2 (drop_bit 14 bc) \<noteq> 0) F_OF flg;
        flg = CONDITIONAL_SET_FLAG (bc AND 0x8 \<noteq> 0) F_AF flg
      in (ucast res, flg))"

definition sbb_long :: "u32 \<Rightarrow> u32 \<Rightarrow> u32 \<Rightarrow> u32 \<times> u32" where
  "sbb_long d s flg =
     (let res = (if ACCESS_FLAG F_CF flg \<noteq> 0 then d - s - 1 else d - s);
        flg = CONDITIONAL_SET_FLAG (res AND 0x80000000 \<noteq> 0) F_SF flg;
        flg = CONDITIONAL_SET_FLAG (res AND 0xffffffff = 0) F_ZF flg;
        flg = CONDITIONAL_SET_FLAG (PARITY (res AND 0xff)) F_PF flg;
        bc = (res AND (NOT d OR s)) OR (NOT d AND s);
        flg = CONDITIONAL_SET_FLAG (bc AND 0x80000000 \<noteq> 0) F_CF flg;
        flg = CONDITIONAL_SET_FLAG (XOR2 (drop_bit 30 bc) \<noteq> 0) F_OF flg;
        flg = CONDITIONAL_SET_FLAG (bc AND 0x8 \<noteq> 0) F_AF flg
      in (res, flg))"

definition dec_byte :: "u8 \<Rightarrow> u32 \<Rightarrow> u8 \<times> u32" where
  "dec_byte d flg =
     (let res = ucast d - 1;
        flg = CONDITIONAL_SET_FLAG (res AND 0x80 \<noteq> 0) F_SF flg;
        flg = CONDITIONAL_SET_FLAG (res AND 0xff = 0) F_ZF flg;
        flg = CONDITIONAL_SET_FLAG (PARITY (res AND 0xff)) F_PF flg;
        bc = (res AND (NOT (ucast d) OR 1)) OR (NOT (ucast d) AND 1);
        flg = CONDITIONAL_SET_FLAG (XOR2 (drop_bit 6 bc) \<noteq> 0) F_OF flg;
        flg = CONDITIONAL_SET_FLAG (bc AND 0x8 \<noteq> 0) F_AF flg
      in (ucast res, flg))"

definition dec_word :: "u16 \<Rightarrow> u32 \<Rightarrow> u16 \<times> u32" where
  "dec_word d flg =
     (let res = ucast d - 1;
        flg = CONDITIONAL_SET_FLAG (res AND 0x8000 \<noteq> 0) F_SF flg;
        flg = CONDITIONAL_SET_FLAG (res AND 0xffff = 0) F_ZF flg;
        flg = CONDITIONAL_SET_FLAG (PARITY (res AND 0xff)) F_PF flg;
        bc = (res AND (NOT (ucast d) OR 1)) OR (NOT (ucast d) AND 1);
        flg = CONDITIONAL_SET_FLAG (XOR2 (drop_bit 14 bc) \<noteq> 0) F_OF flg;
        flg = CONDITIONAL_SET_FLAG (bc AND 0x8 \<noteq> 0) F_AF flg
      in (ucast res, flg))"

definition dec_long :: "u32 \<Rightarrow> u32 \<Rightarrow> u32 \<times> u32" where
  "dec_long d flg =
     (let res = d - 1;
        flg = CONDITIONAL_SET_FLAG (res AND 0x80000000 \<noteq> 0) F_SF flg;
        flg = CONDITIONAL_SET_FLAG (res AND 0xffffffff = 0) F_ZF flg;
        flg = CONDITIONAL_SET_FLAG (PARITY (res AND 0xff)) F_PF flg;
        bc = (res AND (NOT d OR 1)) OR (NOT d AND 1);
        flg = CONDITIONAL_SET_FLAG (XOR2 (drop_bit 30 bc) \<noteq> 0) F_OF flg;
        flg = CONDITIONAL_SET_FLAG (bc AND 0x8 \<noteq> 0) F_AF flg
      in (res, flg))"

definition neg_byte :: "u8 \<Rightarrow> u32 \<Rightarrow> u8 \<times> u32" where
  "neg_byte s flg =
     (let flg = CONDITIONAL_SET_FLAG (s \<noteq> 0) F_CF flg;
        res = - s;
        flg = CONDITIONAL_SET_FLAG (res AND 0xff = 0) F_ZF flg;
        flg = CONDITIONAL_SET_FLAG (res AND 0x80 \<noteq> 0) F_SF flg;
        flg = CONDITIONAL_SET_FLAG (PARITY (ucast res)) F_PF flg;
        bc = res OR s;
        flg = CONDITIONAL_SET_FLAG (XOR2 (drop_bit 6 (ucast bc)) \<noteq> 0) F_OF flg;
        flg = CONDITIONAL_SET_FLAG (bc AND 0x8 \<noteq> 0) F_AF flg
      in (res, flg))"

definition neg_word :: "u16 \<Rightarrow> u32 \<Rightarrow> u16 \<times> u32" where
  "neg_word s flg =
     (let flg = CONDITIONAL_SET_FLAG (s \<noteq> 0) F_CF flg;
        res = - s;
        flg = CONDITIONAL_SET_FLAG (res AND 0xffff = 0) F_ZF flg;
        flg = CONDITIONAL_SET_FLAG (res AND 0x8000 \<noteq> 0) F_SF flg;
        flg = CONDITIONAL_SET_FLAG (PARITY ((ucast res) AND 0xff)) F_PF flg;
        bc = res OR s;
        flg = CONDITIONAL_SET_FLAG (XOR2 (drop_bit 14 (ucast bc)) \<noteq> 0) F_OF flg;
        flg = CONDITIONAL_SET_FLAG (bc AND 0x8 \<noteq> 0) F_AF flg
      in (res, flg))"

definition neg_long :: "u32 \<Rightarrow> u32 \<Rightarrow> u32 \<times> u32" where
  "neg_long s flg =
     (let flg = CONDITIONAL_SET_FLAG (s \<noteq> 0) F_CF flg;
        res = - s;
        flg = CONDITIONAL_SET_FLAG (res AND 0xffffffff = 0) F_ZF flg;
        flg = CONDITIONAL_SET_FLAG (res AND 0x80000000 \<noteq> 0) F_SF flg;
        flg = CONDITIONAL_SET_FLAG (PARITY (res AND 0xff)) F_PF flg;
        bc = res OR s;
        flg = CONDITIONAL_SET_FLAG (XOR2 (drop_bit 30 bc) \<noteq> 0) F_OF flg;
        flg = CONDITIONAL_SET_FLAG (bc AND 0x8 \<noteq> 0) F_AF flg
      in (res, flg))"

definition and_byte :: "u8 \<Rightarrow> u8 \<Rightarrow> u32 \<Rightarrow> u8 \<times> u32" where
  "and_byte d s flg =
     (let res = d AND s;
        flg = CLEAR_FLAG F_OF flg;
        flg = CLEAR_FLAG F_CF flg;
        flg = CLEAR_FLAG F_AF flg;
        flg = CONDITIONAL_SET_FLAG (res AND 0x80 \<noteq> 0) F_SF flg;
        flg = CONDITIONAL_SET_FLAG (res = 0) F_ZF flg;
        flg = CONDITIONAL_SET_FLAG (PARITY (ucast res)) F_PF flg
      in (res, flg))"

definition and_word :: "u16 \<Rightarrow> u16 \<Rightarrow> u32 \<Rightarrow> u16 \<times> u32" where
  "and_word d s flg =
     (let res = d AND s;
        flg = CLEAR_FLAG F_OF flg;
        flg = CLEAR_FLAG F_CF flg;
        flg = CLEAR_FLAG F_AF flg;
        flg = CONDITIONAL_SET_FLAG (res AND 0x8000 \<noteq> 0) F_SF flg;
        flg = CONDITIONAL_SET_FLAG (res = 0) F_ZF flg;
        flg = CONDITIONAL_SET_FLAG (PARITY ((ucast res) AND 0xff)) F_PF flg
      in (res, flg))"

definition and_long :: "u32 \<Rightarrow> u32 \<Rightarrow> u32 \<Rightarrow> u32 \<times> u32" where
  "and_long d s flg =
     (let res = d AND s;
        flg = CLEAR_FLAG F_OF flg;
        flg = CLEAR_FLAG F_CF flg;
        flg = CLEAR_FLAG F_AF flg;
        flg = CONDITIONAL_SET_FLAG (res AND 0x80000000 \<noteq> 0) F_SF flg;
        flg = CONDITIONAL_SET_FLAG (res = 0) F_ZF flg;
        flg = CONDITIONAL_SET_FLAG (PARITY (res AND 0xff)) F_PF flg
      in (res, flg))"

definition or_byte :: "u8 \<Rightarrow> u8 \<Rightarrow> u32 \<Rightarrow> u8 \<times> u32" where
  "or_byte d s flg =
     (let res = d OR s;
        flg = CLEAR_FLAG F_OF flg;
        flg = CLEAR_FLAG F_CF flg;
        flg = CLEAR_FLAG F_AF flg;
        flg = CONDITIONAL_SET_FLAG (res AND 0x80 \<noteq> 0) F_SF flg;
        flg = CONDITIONAL_SET_FLAG (res = 0) F_ZF flg;
        flg = CONDITIONAL_SET_FLAG (PARITY (ucast res)) F_PF flg
      in (res, flg))"

definition or_word :: "u16 \<Rightarrow> u16 \<Rightarrow> u32 \<Rightarrow> u16 \<times> u32" where
  "or_word d s flg =
     (let res = d OR s;
        flg = CLEAR_FLAG F_OF flg;
        flg = CLEAR_FLAG F_CF flg;
        flg = CLEAR_FLAG F_AF flg;
        flg = CONDITIONAL_SET_FLAG (res AND 0x8000 \<noteq> 0) F_SF flg;
        flg = CONDITIONAL_SET_FLAG (res = 0) F_ZF flg;
        flg = CONDITIONAL_SET_FLAG (PARITY ((ucast res) AND 0xff)) F_PF flg
      in (res, flg))"

definition or_long :: "u32 \<Rightarrow> u32 \<Rightarrow> u32 \<Rightarrow> u32 \<times> u32" where
  "or_long d s flg =
     (let res = d OR s;
        flg = CLEAR_FLAG F_OF flg;
        flg = CLEAR_FLAG F_CF flg;
        flg = CLEAR_FLAG F_AF flg;
        flg = CONDITIONAL_SET_FLAG (res AND 0x80000000 \<noteq> 0) F_SF flg;
        flg = CONDITIONAL_SET_FLAG (res = 0) F_ZF flg;
        flg = CONDITIONAL_SET_FLAG (PARITY (res AND 0xff)) F_PF flg
      in (res, flg))"

definition xor_byte :: "u8 \<Rightarrow> u8 \<Rightarrow> u32 \<Rightarrow> u8 \<times> u32" where
  "xor_byte d s flg =
     (let res = d XOR s;
        flg = CLEAR_FLAG F_OF flg;
        flg = CONDITIONAL_SET_FLAG (res AND 0x80 \<noteq> 0) F_SF flg;
        flg = CONDITIONAL_SET_FLAG (res = 0) F_ZF flg;
        flg = CONDITIONAL_SET_FLAG (PARITY (ucast res)) F_PF flg;
        flg = CLEAR_FLAG F_CF flg;
        flg = CLEAR_FLAG F_AF flg
      in (res, flg))"

definition xor_word :: "u16 \<Rightarrow> u16 \<Rightarrow> u32 \<Rightarrow> u16 \<times> u32" where
  "xor_word d s flg =
     (let res = d XOR s;
        flg = CLEAR_FLAG F_OF flg;
        flg = CONDITIONAL_SET_FLAG (res AND 0x8000 \<noteq> 0) F_SF flg;
        flg = CONDITIONAL_SET_FLAG (res = 0) F_ZF flg;
        flg = CONDITIONAL_SET_FLAG (PARITY ((ucast res) AND 0xff)) F_PF flg;
        flg = CLEAR_FLAG F_CF flg;
        flg = CLEAR_FLAG F_AF flg
      in (res, flg))"

definition xor_long :: "u32 \<Rightarrow> u32 \<Rightarrow> u32 \<Rightarrow> u32 \<times> u32" where
  "xor_long d s flg =
     (let res = d XOR s;
        flg = CLEAR_FLAG F_OF flg;
        flg = CONDITIONAL_SET_FLAG (res AND 0x80000000 \<noteq> 0) F_SF flg;
        flg = CONDITIONAL_SET_FLAG (res = 0) F_ZF flg;
        flg = CONDITIONAL_SET_FLAG (PARITY (res AND 0xff)) F_PF flg;
        flg = CLEAR_FLAG F_CF flg;
        flg = CLEAR_FLAG F_AF flg
      in (res, flg))"

definition test_byte :: "u8 \<Rightarrow> u8 \<Rightarrow> u32 \<Rightarrow> u32" where
  "test_byte d s flg =
     (let res = (ucast d AND ucast s);
        flg = CLEAR_FLAG F_OF flg;
        flg = CONDITIONAL_SET_FLAG (res AND 0x80 \<noteq> 0) F_SF flg;
        flg = CONDITIONAL_SET_FLAG (res = 0) F_ZF flg;
        flg = CONDITIONAL_SET_FLAG (PARITY (res AND 0xff)) F_PF flg;
        flg = CLEAR_FLAG F_CF flg
      in flg)"

definition test_word :: "u16 \<Rightarrow> u16 \<Rightarrow> u32 \<Rightarrow> u32" where
  "test_word d s flg =
     (let res = (ucast d AND ucast s);
        flg = CLEAR_FLAG F_OF flg;
        flg = CONDITIONAL_SET_FLAG (res AND 0x8000 \<noteq> 0) F_SF flg;
        flg = CONDITIONAL_SET_FLAG (res = 0) F_ZF flg;
        flg = CONDITIONAL_SET_FLAG (PARITY (res AND 0xff)) F_PF flg;
        flg = CLEAR_FLAG F_CF flg
      in flg)"

definition test_long :: "u32 \<Rightarrow> u32 \<Rightarrow> u32 \<Rightarrow> u32" where
  "test_long d s flg =
     (let res = (d AND s);
        flg = CLEAR_FLAG F_OF flg;
        flg = CONDITIONAL_SET_FLAG (res AND 0x80000000 \<noteq> 0) F_SF flg;
        flg = CONDITIONAL_SET_FLAG (res = 0) F_ZF flg;
        flg = CONDITIONAL_SET_FLAG (PARITY (res AND 0xff)) F_PF flg;
        flg = CLEAR_FLAG F_CF flg
      in flg)"

definition not_byte :: "u8 \<Rightarrow> u8" where
  "not_byte s = NOT s"

definition not_word :: "u16 \<Rightarrow> u16" where
  "not_word s = NOT s"

definition not_long :: "u32 \<Rightarrow> u32" where
  "not_long s = NOT s"

section \<open>What the flags mean\<close>

definition szp :: "'a::len word \<Rightarrow> u32 \<Rightarrow> bool" where
  "szp r flg \<longleftrightarrow> on F_SF flg = bit r (LENGTH('a) - 1) \<and> on F_ZF flg = (r = 0) \<and> on F_PF flg = even_parity r"

definition same_flags :: "u32 \<Rightarrow> u32 \<Rightarrow> u32 \<Rightarrow> bool" where
  "same_flags m flg flg' \<longleftrightarrow> flg AND NOT m = flg' AND NOT m"

definition F_ARITH :: u32 where
  "F_ARITH = F_CF OR F_PF OR F_AF OR F_ZF OR F_SF OR F_OF"

definition add_spec :: "'a::len word \<Rightarrow> 'a word \<Rightarrow> bool \<Rightarrow> u32 \<Rightarrow> 'a word \<times> u32 \<Rightarrow> bool" where
  "add_spec d s c flg = (\<lambda>(r, flg'). r = d + s + of_bool c \<and> szp r flg' \<and>
     on F_OF flg' = (\<not> fits d (sint d + sint s + of_bool c)) \<and>
     on F_AF flg' = (16 \<le> unat d mod 16 + unat s mod 16 + of_bool c) \<and> same_flags F_ARITH flg flg')"

definition carry_out :: "'a::len word \<Rightarrow> 'a word \<Rightarrow> bool \<Rightarrow> bool" where
  "carry_out d s c \<longleftrightarrow> 2 ^ LENGTH('a) \<le> unat d + unat s + of_bool c"

definition sub_spec :: "'a::len word \<Rightarrow> 'a word \<Rightarrow> bool \<Rightarrow> u32 \<Rightarrow> 'a word \<times> u32 \<Rightarrow> bool" where
  "sub_spec d s c flg = (\<lambda>(r, flg'). r = d - s - of_bool c \<and> szp r flg' \<and>
     on F_OF flg' = (\<not> fits d (sint d - sint s - of_bool c)) \<and>
     on F_AF flg' = (unat d mod 16 < unat s mod 16 + of_bool c) \<and> same_flags F_ARITH flg flg')"

definition borrow_out :: "'a::len word \<Rightarrow> 'a word \<Rightarrow> bool \<Rightarrow> bool" where
  "borrow_out d s c \<longleftrightarrow> unat d < unat s + of_bool c"

lemma bit_ARITH: "bit F_ARITH j \<longleftrightarrow> j \<in> {0, 2, 4, 6, 7, 11}"
  unfolding F_ARITH_def bit_or_iff bit_F by auto

lemma same_flags_refl [simp]: "same_flags m flg flg"
  by (simp add: same_flags_def)

lemma cond_outside:
  assumes "F \<in> {F_CF, F_PF, F_AF, F_ZF, F_SF, F_OF}"
  shows "CONDITIONAL_SET_FLAG c F flg AND NOT F_ARITH = flg AND NOT F_ARITH"
proof (rule bit_eqI)
  fix j
  show "bit (CONDITIONAL_SET_FLAG c F flg AND NOT F_ARITH) j \<longleftrightarrow> bit (flg AND NOT F_ARITH) j"
    using assms by (auto simp: bit_and_iff bit_not_iff bit_cond bit_ARITH)
qed

lemma same_flags_cond [x86_flags]:
  "F \<in> {F_CF, F_PF, F_AF, F_ZF, F_SF, F_OF} \<Longrightarrow>
    same_flags F_ARITH flg (CONDITIONAL_SET_FLAG c F flg') = same_flags F_ARITH flg flg'"
  unfolding same_flags_def by (simp only: cond_outside)

section \<open>Results at the width of the operands\<close>

lemma low_zero: "res AND 0xff = 0 \<longleftrightarrow> (ucast (res :: u32) :: u8) = 0" "res AND 0xffff = 0 \<longleftrightarrow> (ucast res :: u16) = 0"
proof -
  have m: "(0xff :: u32) = mask 8" "(0xffff :: u32) = mask 16" by (simp_all add: mask_eq_exp_minus_1)
  show "res AND 0xff = 0 \<longleftrightarrow> (ucast (res :: u32) :: u8) = 0" "res AND 0xffff = 0 \<longleftrightarrow> (ucast res :: u16) = 0"
    unfolding m take_bit_eq_mask [symmetric] unat_eq_0 [symmetric] unsigned_ucast_eq unsigned_take_bit_eq by simp_all
qed

lemma even_parity_ucast: "8 \<le> LENGTH('a) \<Longrightarrow> 8 \<le> LENGTH('b) \<Longrightarrow> even_parity (ucast (x :: 'b::len word) :: 'a::len word) = even_parity x"
  unfolding even_parity_def
  by (intro arg_cong [where f = even] arg_cong [where f = length] filter_cong) (auto simp: bit_simps)

lemma uint_sum: "uint (d + s + of_bool c :: 'a::len word) = take_bit LENGTH('a) (uint d + uint s + of_bool c)"
  "uint (d - s - of_bool c :: 'a::len word) = take_bit LENGTH('a) (uint d - uint s - of_bool c)"
  by (cases c; simp add: uint_word_ariths take_bit_eq_mod mod_simps)+

lemma unat_up: "LENGTH('a) \<le> 32 \<Longrightarrow> unat (ucast (d :: 'a::len word) :: u32) = unat d"
proof -
  assume "LENGTH('a) \<le> 32"
  then have "unat d < 2 ^ 32"
    using less_le_trans [OF unsigned_less [of d, where 'a = nat] power_increasing [of "LENGTH('a)" 32 2]] by simp
  then show ?thesis by (simp add: unsigned_ucast_eq take_bit_nat_eq_self)
qed

lemma uint_up: "LENGTH('a) \<le> 32 \<Longrightarrow> uint (ucast (d :: 'a::len word) :: u32) = uint d"
  using unat_up [of d] by (metis int_eq_iff uint_nat unat_eq_nat_uint)

lemma ucast_sum:
  fixes d s :: "'a::len word"
  assumes "LENGTH('a) \<le> 32"
  shows "(ucast (ucast d + ucast s + of_bool c :: u32) :: 'a word) = d + s + of_bool c"
    "(ucast (ucast d - ucast s - of_bool c :: u32) :: 'a word) = d - s - of_bool c"
proof -
  have low: "uint (ucast x :: 'a word) = take_bit LENGTH('a) (uint x)" for x :: u32 by (rule unsigned_ucast_eq)
  show "(ucast (ucast d + ucast s + of_bool c :: u32) :: 'a word) = d + s + of_bool c"
    "(ucast (ucast d - ucast s - of_bool c :: u32) :: 'a word) = d - s - of_bool c"
    unfolding word_uint_eq_iff low uint_sum uint_up [OF assms] using assms by (simp_all add: min_absorb1)
qed

text \<open>The two chains at the width of the operands give overflow and the carry of the low nibble.\<close>

lemma carry_AF:
  fixes d s :: "'a::len word"
  shows "carry (unat d) (unat s) c 4 \<longleftrightarrow> 16 \<le> unat d mod 16 + unat s mod 16 + of_bool c"
    "borrow (unat d) (unat s) c 4 \<longleftrightarrow> unat d mod 16 < unat s mod 16 + of_bool c"
  by (simp_all add: carry_def borrow_def take_bit_eq_mod)

lemma add_chain:
  fixes d s :: "'a::len word"
  assumes "LENGTH('a) = Suc (Suc n)" "Suc (Suc n) \<le> 32" "res = ucast d + ucast s + of_bool c"
  defines "cc \<equiv> (ucast s AND ucast d) OR (NOT res AND (ucast s OR ucast d)) :: u32"
  shows "bit cc n \<noteq> bit cc (Suc n) \<longleftrightarrow> \<not> fits d (sint d + sint s + of_bool c)"
    "bit cc 3 \<longleftrightarrow> 16 \<le> unat d mod 16 + unat s mod 16 + of_bool c"
proof -
  have cc: "k < 32 \<Longrightarrow> bit cc k \<longleftrightarrow> carry (unat d) (unat s) c (Suc k)" for k
    using carry_chain [of k res "ucast d" "ucast s" c] assms(1-3) by (simp add: cc_def unat_up)
  show "bit cc n \<noteq> bit cc (Suc n) \<longleftrightarrow> \<not> fits d (sint d + sint s + of_bool c)"
    using cc [of n] cc [of "Suc n"] add_overflow [OF assms(1), of d s c] assms(2) by simp
  show "bit cc 3 \<longleftrightarrow> 16 \<le> unat d mod 16 + unat s mod 16 + of_bool c"
    using cc [of 3] carry_AF(1) [of d s c] by simp
qed

lemma sub_chain:
  fixes d s :: "'a::len word"
  assumes "LENGTH('a) = Suc (Suc n)" "Suc (Suc n) \<le> 32" "res = ucast d - ucast s - of_bool c"
  defines "bc \<equiv> (res AND (NOT (ucast d) OR ucast s)) OR (NOT (ucast d) AND ucast s) :: u32"
  shows "bit bc n \<noteq> bit bc (Suc n) \<longleftrightarrow> \<not> fits d (sint d - sint s - of_bool c)"
    "bit bc 3 \<longleftrightarrow> unat d mod 16 < unat s mod 16 + of_bool c"
    "bit bc (Suc n) \<longleftrightarrow> borrow_out d s c"
proof -
  have bc: "k < 32 \<Longrightarrow> bit bc k \<longleftrightarrow> borrow (unat d) (unat s) c (Suc k)" for k
    using borrow_chain [of k res "ucast d" "ucast s" c] assms(1-3) by (simp add: bc_def unat_up)
  show "bit bc n \<noteq> bit bc (Suc n) \<longleftrightarrow> \<not> fits d (sint d - sint s - of_bool c)"
    using bc [of n] bc [of "Suc n"] sub_overflow [OF assms(1), of d s c] assms(2) by simp
  show "bit bc 3 \<longleftrightarrow> unat d mod 16 < unat s mod 16 + of_bool c"
    using bc [of 3] carry_AF(2) [of d s c] by simp
  have "take_bit (Suc (Suc n)) (unat x) = unat x" for x :: "'a word"
    using unsigned_less [of x, where 'a = nat] assms(1) by (simp add: take_bit_nat_eq_self del: unsigned_less)
  then show "bit bc (Suc n) \<longleftrightarrow> borrow_out d s c"
    using bc [of "Suc n"] assms(2) by (simp add: borrow_def borrow_out_def)
qed

lemma low_sign: "bit (res :: u32) 7 = bit (ucast res :: u8) 7" "bit res 15 = bit (ucast res :: u16) 15"
  by (simp_all add: bit_simps)

lemma low_parity: "even_parity (res :: u32) = even_parity (ucast res :: u8)" "even_parity res = even_parity (ucast res :: u16)"
  by (simp_all add: even_parity_ucast)

lemma bit_unat: "bit w k = bit (unat w) k"
  by (simp add: bit_simps)

lemma sum_carry:
  fixes d s :: "'a::len word"
  assumes "LENGTH('a) < 31"
  shows "bit (ucast d + ucast s + of_bool c :: u32) LENGTH('a) \<longleftrightarrow> carry_out d s c"
proof -
  let ?n = "LENGTH('a)"
  have lt: "unat d < 2 ^ ?n" "unat s < 2 ^ ?n" by simp_all
  have le: "2 ^ ?n \<le> (2 ^ 30 :: nat)" using assms by (intro power_increasing) simp_all
  have "unat d < 2 ^ 30" "unat s < 2 ^ 30" using lt [THEN less_le_trans, OF le] .
  then have "unat d + unat s + of_bool c < 2 ^ 32" by (cases c) simp_all
  then have "unat (ucast d + ucast s + of_bool c :: u32) = unat d + unat s + of_bool c"
    using assms by (cases c) (simp_all add: unat_word_ariths unat_up)
  then have "bit (ucast d + ucast s + of_bool c :: u32) ?n \<longleftrightarrow> bit (unat d + unat s + of_bool c) ?n"
    by (subst bit_unat) (rule arg_cong [where f = "\<lambda>x. bit x _"])
  moreover have "\<not> bit (unat d) ?n" "\<not> bit (unat s) ?n" "take_bit ?n (unat d) = unat d" "take_bit ?n (unat s) = unat s"
    by (simp_all add: bit_simps take_bit_nat_eq_self)
  ultimately show ?thesis by (simp add: bit_sum carry_def carry_out_def)
qed

text \<open>Zero, sign and parity as the operations compute them on the 32-bit result.\<close>

lemma szp_byte: "szp (ucast (res :: u32) :: u8) flg \<longleftrightarrow>
    bit flg 7 = bit res 7 \<and> bit flg 6 = (res AND 0xff = 0) \<and> bit flg 2 = even_parity res"
  by (simp add: szp_def on_bit low_zero low_sign(1) [of res] low_parity(1) [of res])

lemma szp_word: "szp (ucast (res :: u32) :: u16) flg \<longleftrightarrow>
    bit flg 7 = bit res 15 \<and> bit flg 6 = (res AND 0xffff = 0) \<and> bit flg 2 = even_parity res"
  by (simp add: szp_def on_bit low_zero low_sign(2) [of res] low_parity(2) [of res])

lemma szp_long: "szp (res :: u32) flg \<longleftrightarrow>
    bit flg 7 = bit res 31 \<and> bit flg 6 = (res AND 0xffffffff = 0) \<and> bit flg 2 = even_parity res"
proof -
  have "(0xffffffff :: u32) = - 1" by simp
  then have "res AND 0xffffffff = res" by (simp only: and_minus_numerals word_and_max)
  then show ?thesis by (simp add: szp_def on_bit)
qed

lemma szp_sum_byte: "szp (d + s + of_bool c :: u8) flg \<longleftrightarrow>
    bit flg 7 = bit (ucast d + ucast s + of_bool c :: u32) 7 \<and>
    bit flg 6 = ((ucast d + ucast s + of_bool c) AND (0xff :: u32) = 0) \<and>
    bit flg 2 = even_parity (ucast d + ucast s + of_bool c :: u32)"
  using szp_byte [of "ucast d + ucast s + of_bool c" flg] ucast_sum(1) [of d s c] by simp

lemma szp_sum_word: "szp (d + s + of_bool c :: u16) flg \<longleftrightarrow>
    bit flg 7 = bit (ucast d + ucast s + of_bool c :: u32) 15 \<and>
    bit flg 6 = ((ucast d + ucast s + of_bool c) AND (0xffff :: u32) = 0) \<and>
    bit flg 2 = even_parity (ucast d + ucast s + of_bool c :: u32)"
  using szp_word [of "ucast d + ucast s + of_bool c" flg] ucast_sum(1) [of d s c] by simp

lemma if_carry: "(if c then 1 + x + y else x + y) = x + y + of_bool c" for x y :: "'a::len word"
  by simp

lemma add_byte_ok: "add_spec d s False flg (add_byte d s flg) \<and> on F_CF (snd (add_byte d s flg)) = carry_out d s False"
  using add_chain [where d = d and s = s and c = False and n = 6] ucast_sum(1) [of d s False] sum_carry [of d s False]
  by (simp add: add_byte_def add_spec_def Let_def x86_flags szp_sum_byte [of d s False, simplified])

lemma adc_byte_ok: "c = on F_CF flg \<Longrightarrow> add_spec d s c flg (adc_byte d s flg) \<and> on F_CF (snd (adc_byte d s flg)) = carry_out d s c"
  using add_chain [where d = d and s = s and c = c and n = 6] ucast_sum(1) [of d s c] sum_carry [of d s c]
  unfolding adc_byte_def if_carry on_def [symmetric]
  by (simp add: add_spec_def Let_def x86_flags szp_sum_byte)

lemma add_word_ok: "add_spec d s False flg (add_word d s flg) \<and> on F_CF (snd (add_word d s flg)) = carry_out d s False"
  using add_chain [where d = d and s = s and c = False and n = 14] ucast_sum(1) [of d s False] sum_carry [of d s False]
  by (simp add: add_word_def add_spec_def Let_def x86_flags szp_sum_word [of d s False, simplified])

lemma adc_word_ok: "c = on F_CF flg \<Longrightarrow> add_spec d s c flg (adc_word d s flg) \<and> on F_CF (snd (adc_word d s flg)) = carry_out d s c"
  using add_chain [where d = d and s = s and c = c and n = 14] ucast_sum(1) [of d s c] sum_carry [of d s c]
  unfolding adc_word_def if_carry on_def [symmetric]
  by (simp add: add_spec_def Let_def x86_flags szp_sum_word)

text \<open>The carry of a 32-bit addition is computed from the two halves of the operands.\<close>

lemma half_sum: "(x mod 65536 + y mod 65536 + z) div 65536 + x div 65536 + y div 65536 = (x + y + z) div (65536 :: nat)"
proof -
  have "x + y + z = (x mod 65536 + y mod 65536 + z) + (x div 65536 + y div 65536) * 65536"
    using div_mult_mod_eq [of x 65536] div_mult_mod_eq [of y 65536] unfolding add_mult_distrib by linarith
  then show ?thesis using div_mult_self1 [of 65536 "x mod 65536 + y mod 65536 + z" "x div 65536 + y div 65536"]
    by (simp only: add_ac)
qed

lemma sum_carry_long:
  fixes d s :: u32
  shows "bit (drop_bit 16 ((d AND 0xFFFF) + (s AND 0xFFFF) + of_bool c) + drop_bit 16 d + drop_bit 16 s) 16 \<longleftrightarrow> carry_out d s c"
proof -
  have m: "(0xFFFF :: u32) = mask 16" by (simp add: mask_eq_exp_minus_1)
  have lo: "unat (x AND 0xFFFF) = unat x mod 65536" for x :: u32
    unfolding m take_bit_eq_mask [symmetric] unsigned_take_bit_eq by (simp add: take_bit_eq_mod)
  have hi: "unat (drop_bit 16 x) = unat x div 65536" for x :: u32
    by (simp add: drop_bit_eq_div unat_div)
  have lt: "unat x mod 65536 < 65536" "unat x div 65536 < 65536" for x :: u32
    by (simp_all add: less_mult_imp_div_less)
  let ?lo = "(d AND 0xFFFF) + (s AND 0xFFFF) + of_bool c"
  have l: "unat ?lo = unat d mod 65536 + unat s mod 65536 + of_bool c"
    using lt(1) [of d] lt(1) [of s] by (cases c) (simp_all add: unat_word_ariths lo)
  have "unat ?lo div 65536 \<le> 2" unfolding l using lt(1) [of d] lt(1) [of s] by (cases c) simp_all
  then have "unat (drop_bit 16 ?lo + drop_bit 16 d + drop_bit 16 s) = unat ?lo div 65536 + unat d div 65536 + unat s div 65536"
    using lt(2) [of d] lt(2) [of s] by (simp add: unat_word_ariths hi)
  also have "\<dots> = (unat d + unat s + of_bool c) div 65536" unfolding l by (rule half_sum)
  finally have "bit (drop_bit 16 ?lo + drop_bit 16 d + drop_bit 16 s) 16 \<longleftrightarrow> odd ((unat d + unat s + of_bool c) div 65536 div 65536)"
    by (subst bit_unat) (simp add: bit_iff_odd)
  moreover have "(unat d + unat s + of_bool c) div 4294967296 = of_bool (4294967296 \<le> unat d + unat s + of_bool c)"
    by (rule div_carry) simp_all
  ultimately show ?thesis by (simp add: carry_out_def div_mult2_eq [symmetric])
qed

lemma add_long_ok: "add_spec d s False flg (add_long d s flg) \<and> on F_CF (snd (add_long d s flg)) = carry_out d s False"
  using add_chain [where d = d and s = s and c = False and n = 30] sum_carry_long [of d s False]
  by (simp add: add_long_def add_spec_def Let_def x86_flags szp_long)

lemma adc_long_ok: "c = on F_CF flg \<Longrightarrow> add_spec d s c flg (adc_long d s flg) \<and> on F_CF (snd (adc_long d s flg)) = carry_out d s c"
  using add_chain [where d = d and s = s and c = c and n = 30] sum_carry_long [of d s c]
  unfolding adc_long_def if_carry on_def [symmetric]
  by (simp add: add_spec_def Let_def x86_flags szp_long)

lemma inc_cc: "((1 AND d) OR NOT res) AND (1 OR d) = (1 AND d) OR (NOT res AND (1 OR d))" for d :: u32
  by (rule bit_eqI) (auto simp: bit_simps)

lemma inc_byte_ok: "add_spec d 1 False flg (inc_byte d flg) \<and> on F_CF (snd (inc_byte d flg)) = on F_CF flg"
  using add_chain [where d = d and s = 1 and c = False and n = 6] ucast_sum(1) [of d 1 False]
  by (simp add: inc_byte_def inc_cc add_spec_def Let_def x86_flags szp_sum_byte [of d 1 False, simplified])

lemma inc_word_ok: "add_spec d 1 False flg (inc_word d flg) \<and> on F_CF (snd (inc_word d flg)) = on F_CF flg"
  using add_chain [where d = d and s = 1 and c = False and n = 14] ucast_sum(1) [of d 1 False]
  by (simp add: inc_word_def add_spec_def Let_def x86_flags szp_sum_word [of d 1 False, simplified])

lemma inc_long_ok: "add_spec d 1 False flg (inc_long d flg) \<and> on F_CF (snd (inc_long d flg)) = on F_CF flg"
  using add_chain [where d = d and s = 1 and c = False and n = 30]
  by (simp add: inc_long_def add_spec_def Let_def x86_flags szp_long)

section \<open>Subtractions\<close>

lemma szp_diff_byte: "szp (d - s - of_bool c :: u8) flg \<longleftrightarrow>
    bit flg 7 = bit (ucast d - ucast s - of_bool c :: u32) 7 \<and>
    bit flg 6 = ((ucast d - ucast s - of_bool c) AND (0xff :: u32) = 0) \<and>
    bit flg 2 = even_parity (ucast d - ucast s - of_bool c :: u32)"
  using szp_byte [of "ucast d - ucast s - of_bool c" flg] ucast_sum(2) [of d s c] by simp

lemma szp_diff_word: "szp (d - s - of_bool c :: u16) flg \<longleftrightarrow>
    bit flg 7 = bit (ucast d - ucast s - of_bool c :: u32) 15 \<and>
    bit flg 6 = ((ucast d - ucast s - of_bool c) AND (0xffff :: u32) = 0) \<and>
    bit flg 2 = even_parity (ucast d - ucast s - of_bool c :: u32)"
  using szp_word [of "ucast d - ucast s - of_bool c" flg] ucast_sum(2) [of d s c] by simp

lemma if_borrow: "(if c then x - y - 1 else x - y) = x - y - of_bool c" for x y :: "'a::len word"
  by simp

lemma sub_byte_ok: "sub_spec d s False flg (sub_byte d s flg) \<and> on F_CF (snd (sub_byte d s flg)) = borrow_out d s False"
  using sub_chain [where d = d and s = s and c = False and n = 6] ucast_sum(2) [of d s False]
  by (simp add: sub_byte_def sub_spec_def Let_def x86_flags szp_diff_byte [of d s False, simplified])

lemma sbb_byte_ok: "c = on F_CF flg \<Longrightarrow> sub_spec d s c flg (sbb_byte d s flg) \<and> on F_CF (snd (sbb_byte d s flg)) = borrow_out d s c"
  using sub_chain [where d = d and s = s and c = c and n = 6] ucast_sum(2) [of d s c]
  unfolding sbb_byte_def if_borrow on_def [symmetric]
  by (simp add: sub_spec_def Let_def x86_flags szp_diff_byte)

lemma cmp_byte_ok: "sub_spec d s False flg (d - s, snd (cmp_byte d s flg)) \<and> fst (cmp_byte d s flg) = d \<and>
    on F_CF (snd (cmp_byte d s flg)) = borrow_out d s False"
  using sub_chain [where d = d and s = s and c = False and n = 6] ucast_sum(2) [of d s False]
  by (simp add: cmp_byte_def sub_spec_def Let_def SET_cond x86_flags szp_diff_byte [of d s False, simplified])

lemma dec_byte_ok: "sub_spec d 1 False flg (dec_byte d flg) \<and> on F_CF (snd (dec_byte d flg)) = on F_CF flg"
  using sub_chain [where d = d and s = 1 and c = False and n = 6] ucast_sum(2) [of d 1 False]
  by (simp add: dec_byte_def sub_spec_def Let_def x86_flags szp_diff_byte [of d 1 False, simplified])

lemma sub_word_ok: "sub_spec d s False flg (sub_word d s flg) \<and> on F_CF (snd (sub_word d s flg)) = borrow_out d s False"
  using sub_chain [where d = d and s = s and c = False and n = 14] ucast_sum(2) [of d s False]
  by (simp add: sub_word_def sub_spec_def Let_def x86_flags szp_diff_word [of d s False, simplified])

lemma sbb_word_ok: "c = on F_CF flg \<Longrightarrow> sub_spec d s c flg (sbb_word d s flg) \<and> on F_CF (snd (sbb_word d s flg)) = borrow_out d s c"
  using sub_chain [where d = d and s = s and c = c and n = 14] ucast_sum(2) [of d s c]
  unfolding sbb_word_def if_borrow on_def [symmetric]
  by (simp add: sub_spec_def Let_def x86_flags szp_diff_word)

lemma cmp_word_ok: "sub_spec d s False flg (d - s, snd (cmp_word d s flg)) \<and> fst (cmp_word d s flg) = d \<and>
    on F_CF (snd (cmp_word d s flg)) = borrow_out d s False"
  using sub_chain [where d = d and s = s and c = False and n = 14] ucast_sum(2) [of d s False]
  by (simp add: cmp_word_def sub_spec_def Let_def SET_cond x86_flags szp_diff_word [of d s False, simplified])

lemma dec_word_ok: "sub_spec d 1 False flg (dec_word d flg) \<and> on F_CF (snd (dec_word d flg)) = on F_CF flg"
  using sub_chain [where d = d and s = 1 and c = False and n = 14] ucast_sum(2) [of d 1 False]
  by (simp add: dec_word_def sub_spec_def Let_def x86_flags szp_diff_word [of d 1 False, simplified])

lemma sub_long_ok: "sub_spec d s False flg (sub_long d s flg) \<and> on F_CF (snd (sub_long d s flg)) = borrow_out d s False"
  using sub_chain [where d = d and s = s and c = False and n = 30]
  by (simp add: sub_long_def sub_spec_def Let_def x86_flags szp_long)

lemma sbb_long_ok: "c = on F_CF flg \<Longrightarrow> sub_spec d s c flg (sbb_long d s flg) \<and> on F_CF (snd (sbb_long d s flg)) = borrow_out d s c"
  using sub_chain [where d = d and s = s and c = c and n = 30]
  unfolding sbb_long_def if_borrow on_def [symmetric]
  by (simp add: sub_spec_def Let_def x86_flags szp_long)

lemma cmp_long_ok: "sub_spec d s False flg (d - s, snd (cmp_long d s flg)) \<and> fst (cmp_long d s flg) = d \<and>
    on F_CF (snd (cmp_long d s flg)) = borrow_out d s False"
  using sub_chain [where d = d and s = s and c = False and n = 30]
  by (simp add: cmp_long_def sub_spec_def Let_def SET_cond x86_flags szp_long)

lemma dec_long_ok: "sub_spec d 1 False flg (dec_long d flg) \<and> on F_CF (snd (dec_long d flg)) = on F_CF flg"
  using sub_chain [where d = d and s = 1 and c = False and n = 30]
  by (simp add: dec_long_def sub_spec_def Let_def x86_flags szp_long)

section \<open>Negation and bitwise operations\<close>

lemma full_mask: "(x :: u8) AND 0xff = x" "(y :: u16) AND 0xffff = y" "(z :: u32) AND 0xffffffff = z"
proof -
  have "(0xff :: u8) = - 1" "(0xffff :: u16) = - 1" "(0xffffffff :: u32) = - 1" by simp_all
  then show "(x :: u8) AND 0xff = x" "(y :: u16) AND 0xffff = y" "(z :: u32) AND 0xffffffff = z"
    by (simp_all only: word_and_max)
qed

lemma and_bit_test_narrow:
  "(x :: u8) AND 0x8 \<noteq> 0 \<longleftrightarrow> bit x 3" "x AND 0x80 \<noteq> 0 \<longleftrightarrow> bit x 7"
  "(y :: u16) AND 0x8 \<noteq> 0 \<longleftrightarrow> bit y 3" "y AND 0x8000 \<noteq> 0 \<longleftrightarrow> bit y 15"
  using and_exp_iff [of 3 x] and_exp_iff [of 7 x] and_exp_iff [of 3 y] and_exp_iff [of 15 y] by simp_all

lemma and_bit_test_narrow_0:
  "(x :: u8) AND 0x8 = 0 \<longleftrightarrow> \<not> bit x 3" "x AND 0x80 = 0 \<longleftrightarrow> \<not> bit x 7"
  "(y :: u16) AND 0x8 = 0 \<longleftrightarrow> \<not> bit y 3" "y AND 0x8000 = 0 \<longleftrightarrow> \<not> bit y 15"
  using and_bit_test_narrow(1,2) [of x] and_bit_test_narrow(3,4) [of y] by blast+

lemma neg_chain:
  fixes s :: "'a::len word"
  assumes "LENGTH('a) = Suc (Suc n)" "Suc (Suc n) \<le> 32" "4 \<le> LENGTH('a)"
  shows "bit (- s OR s) n \<noteq> bit (- s OR s) (Suc n) \<longleftrightarrow> \<not> fits (0 :: 'a word) (- sint s)"
    "bit (- s OR s) 3 \<longleftrightarrow> 0 < unat s mod 16"
proof -
  let ?bc = "- ucast s OR ucast s :: u32"
  have b: "bit (- s OR s) k \<longleftrightarrow> bit ?bc k" if "k < LENGTH('a)" for k
  proof -
    have "- s = ucast (- ucast s :: u32)" using ucast_sum(2) [of "0 :: 'a word" s False] assms by simp
    then have "bit (- s) k \<longleftrightarrow> bit (- ucast s :: u32) k" using that assms by (simp only: bit_ucast_iff) simp
    then show ?thesis using that assms by (simp add: bit_or_iff bit_ucast_iff)
  qed
  show "bit (- s OR s) n \<noteq> bit (- s OR s) (Suc n) \<longleftrightarrow> \<not> fits (0 :: 'a word) (- sint s)"
    "bit (- s OR s) 3 \<longleftrightarrow> 0 < unat s mod 16"
    using b [of n] b [of "Suc n"] b [of 3] assms
      sub_chain(1,2) [OF assms(1,2), where d = "0 :: 'a word" and s = s and c = False and res = "- ucast s"]
    by simp_all
qed

lemma neg_byte_ok: "sub_spec 0 s False flg (neg_byte s flg) \<and> on F_CF (snd (neg_byte s flg)) = borrow_out 0 s False"
  using neg_chain [of 6 s]
  by (simp add: neg_byte_def sub_spec_def szp_def borrow_out_def Let_def x86_flags full_mask and_bit_test_narrow
      and_bit_test_narrow_0 PARITY_ucast even_parity_ucast bit_ucast_iff unat_gt_0)

lemma neg_word_ok: "sub_spec 0 s False flg (neg_word s flg) \<and> on F_CF (snd (neg_word s flg)) = borrow_out 0 s False"
  using neg_chain [of 14 s]
  by (simp add: neg_word_def sub_spec_def szp_def borrow_out_def Let_def x86_flags full_mask and_bit_test_narrow
      and_bit_test_narrow_0 PARITY_ucast even_parity_ucast bit_ucast_iff unat_gt_0)

lemma neg_long_ok: "sub_spec 0 s False flg (neg_long s flg) \<and> on F_CF (snd (neg_long s flg)) = borrow_out 0 s False"
  using neg_chain [of 30 s]
  by (simp add: neg_long_def sub_spec_def szp_def borrow_out_def Let_def x86_flags full_mask and_bit_test_narrow
      and_bit_test_narrow_0 PARITY_ucast even_parity_ucast bit_ucast_iff unat_gt_0)

lemma up_eq_0: "LENGTH('a) \<le> 32 \<Longrightarrow> (ucast (x :: 'a::len word) :: u32) = 0 \<longleftrightarrow> x = 0"
  by (metis unat_up unat_0_iff)

text \<open>The bitwise operations clear carry, overflow and the nibble carry.\<close>

definition logic_spec :: "'a::len word \<Rightarrow> u32 \<Rightarrow> 'a word \<times> u32 \<Rightarrow> bool" where
  "logic_spec r flg = (\<lambda>(r', flg'). r' = r \<and> szp r flg' \<and> \<not> on F_CF flg' \<and> \<not> on F_OF flg' \<and> \<not> on F_AF flg' \<and>
     same_flags F_ARITH flg flg')"

lemmas logic_simps = logic_spec_def szp_def Let_def SET_cond x86_flags full_mask and_bit_test_narrow
  and_bit_test_narrow_0 PARITY_ucast even_parity_ucast

lemma and_byte_ok: "logic_spec (d AND s) flg (and_byte d s flg)"
  by (simp add: and_byte_def logic_simps)

lemma and_word_ok: "logic_spec (d AND s) flg (and_word d s flg)"
  by (simp add: and_word_def logic_simps)

lemma and_long_ok: "logic_spec (d AND s) flg (and_long d s flg)"
  by (simp add: and_long_def logic_simps)

lemma or_byte_ok: "logic_spec (d OR s) flg (or_byte d s flg)"
  by (simp add: or_byte_def logic_simps)

lemma or_word_ok: "logic_spec (d OR s) flg (or_word d s flg)"
  by (simp add: or_word_def logic_simps)

lemma or_long_ok: "logic_spec (d OR s) flg (or_long d s flg)"
  by (simp add: or_long_def logic_simps)

lemma xor_byte_ok: "logic_spec (d XOR s) flg (xor_byte d s flg)"
  by (simp add: xor_byte_def logic_simps)

lemma xor_word_ok: "logic_spec (d XOR s) flg (xor_word d s flg)"
  by (simp add: xor_word_def logic_simps)

lemma xor_long_ok: "logic_spec (d XOR s) flg (xor_long d s flg)"
  by (simp add: xor_long_def logic_simps)

lemma test_byte_ok: "szp (d AND s) (test_byte d s flg) \<and> \<not> on F_CF (test_byte d s flg) \<and> \<not> on F_OF (test_byte d s flg) \<and>
    on F_AF (test_byte d s flg) = on F_AF flg \<and> same_flags F_ARITH flg (test_byte d s flg)"
  by (simp add: test_byte_def logic_simps unsigned_and_eq [symmetric] bit_ucast_iff up_eq_0)

lemma test_word_ok: "szp (d AND s) (test_word d s flg) \<and> \<not> on F_CF (test_word d s flg) \<and> \<not> on F_OF (test_word d s flg) \<and>
    on F_AF (test_word d s flg) = on F_AF flg \<and> same_flags F_ARITH flg (test_word d s flg)"
  by (simp add: test_word_def logic_simps unsigned_and_eq [symmetric] bit_ucast_iff up_eq_0)

lemma test_long_ok: "szp (d AND s) (test_long d s flg) \<and> \<not> on F_CF (test_long d s flg) \<and> \<not> on F_OF (test_long d s flg) \<and>
    on F_AF (test_long d s flg) = on F_AF flg \<and> same_flags F_ARITH flg (test_long d s flg)"
  by (simp add: test_long_def logic_simps unsigned_and_eq [symmetric] bit_ucast_iff up_eq_0)

section \<open>Comparisons\<close>

lemma signed_wrap:
  fixes z p :: int
  assumes "0 < p" "- (2 * p) < z" "z < 2 * p"
  shows "((z + p) mod (2 * p) - p < 0) \<noteq> (\<not> (- p \<le> z \<and> z < p)) \<longleftrightarrow> z < 0"
proof -
  consider "p \<le> z" | "- p \<le> z" "z < p" | "z < - p" by linarith
  then show ?thesis
  proof cases
    case 1
    have "(z + p) mod (2 * p) = (z - p) mod (2 * p)" using mod_add_self2 [of "z - p" "2 * p"] by (simp add: add.commute)
    then have "(z + p) mod (2 * p) = z - p" using 1 assms by (simp add: mod_pos_pos_trivial)
    then show ?thesis using 1 assms by simp
  next
    case 2
    then show ?thesis using assms by (simp add: mod_pos_pos_trivial)
  next
    case 3
    then have "(z + p) mod (2 * p) = z + p + 2 * p" using assms mod_pos_pos_trivial [of "z + p + 2 * p" "2 * p"] mod_add_self2 [of "z + p" "2 * p"] by linarith
    then show ?thesis using 3 assms by simp
  qed
qed

lemma signed_less:
  fixes d s :: "'a::len word"
  shows "bit (d - s) (LENGTH('a) - 1) \<noteq> (\<not> fits d (sint d - sint s)) \<longleftrightarrow> sint d < sint s"
proof -
  let ?n = "LENGTH('a) - 1"
  have p: "2 ^ LENGTH('a) = 2 * (2 :: int) ^ ?n" by (simp flip: power_Suc)
  have r: "- (2 ^ ?n) \<le> sint x" "sint x < 2 ^ ?n" for x :: "'a word"
    using sint_greater_eq [of x] sint_less [of x] by simp_all
  have "bit (d - s) ?n \<longleftrightarrow> sint (d - s) < 0" by (simp add: bit_last_iff)
  also have "sint (d - s) = signed_take_bit ?n (sint d - sint s)" by (simp add: sint_word_ariths)
  also have "\<dots> = (sint d - sint s + 2 ^ ?n) mod (2 * 2 ^ ?n) - 2 ^ ?n"
    using p by (simp add: signed_take_bit_eq_take_bit_shift take_bit_eq_mod)
  finally show ?thesis
    using signed_wrap [of "2 ^ ?n" "sint d - sint s"] r [of d] r [of s] by (simp add: fits_def)
qed

lemma cmp_orders:
  fixes d s :: "'a::len word"
  assumes "sub_spec d s False flg (d - s, flg') \<and> on F_CF flg' = borrow_out d s False"
  shows "(on F_CF flg' \<longleftrightarrow> d < s) \<and> (on F_ZF flg' \<longleftrightarrow> d = s) \<and> (on F_SF flg' \<noteq> on F_OF flg' \<longleftrightarrow> sint d < sint s)"
  using assms signed_less [of d s] by (auto simp: sub_spec_def szp_def borrow_out_def word_less_nat_alt)

section \<open>Properties\<close>

text \<open>C36: the additions of the emulator (\<^verbatim>\<open>add\<close>, \<^verbatim>\<open>adc\<close>, \<^verbatim>\<open>inc\<close>) compute the sum at their width and set carry
  exactly when the unsigned sum does not fit, overflow exactly when the signed sum does not fit,
  the nibble carry, zero, sign and parity as defined; \<^verbatim>\<open>inc\<close> keeps the carry flag, and no other bit of
  the flags register changes.\<close>

theorem x86_add_correct:
  "(add_spec d1 s1 False flg (add_byte d1 s1 flg) \<and> on F_CF (snd (add_byte d1 s1 flg)) = carry_out d1 s1 False) \<and>
   (add_spec d2 s2 False flg (add_word d2 s2 flg) \<and> on F_CF (snd (add_word d2 s2 flg)) = carry_out d2 s2 False) \<and>
   (add_spec d4 s4 False flg (add_long d4 s4 flg) \<and> on F_CF (snd (add_long d4 s4 flg)) = carry_out d4 s4 False) \<and>
   (add_spec d1 s1 (on F_CF flg) flg (adc_byte d1 s1 flg) \<and> on F_CF (snd (adc_byte d1 s1 flg)) = carry_out d1 s1 (on F_CF flg)) \<and>
   (add_spec d2 s2 (on F_CF flg) flg (adc_word d2 s2 flg) \<and> on F_CF (snd (adc_word d2 s2 flg)) = carry_out d2 s2 (on F_CF flg)) \<and>
   (add_spec d4 s4 (on F_CF flg) flg (adc_long d4 s4 flg) \<and> on F_CF (snd (adc_long d4 s4 flg)) = carry_out d4 s4 (on F_CF flg)) \<and>
   (add_spec d1 1 False flg (inc_byte d1 flg) \<and> on F_CF (snd (inc_byte d1 flg)) = on F_CF flg) \<and>
   (add_spec d2 1 False flg (inc_word d2 flg) \<and> on F_CF (snd (inc_word d2 flg)) = on F_CF flg) \<and>
   (add_spec d4 1 False flg (inc_long d4 flg) \<and> on F_CF (snd (inc_long d4 flg)) = on F_CF flg)"
  by (simp only: add_byte_ok add_word_ok add_long_ok adc_byte_ok [OF refl] adc_word_ok [OF refl] adc_long_ok [OF refl]
      inc_byte_ok inc_word_ok inc_long_ok)

text \<open>C37: the subtractions (\<^verbatim>\<open>sub\<close>, \<^verbatim>\<open>sbb\<close>, \<^verbatim>\<open>dec\<close>, \<^verbatim>\<open>neg\<close>) compute the difference at their width and set
  carry exactly when a borrow is needed and overflow exactly when the signed difference does not
  fit; \<^verbatim>\<open>dec\<close> keeps the carry flag, and no other bit of the flags register changes.\<close>

theorem x86_sub_correct:
  "(sub_spec d1 s1 False flg (sub_byte d1 s1 flg) \<and> on F_CF (snd (sub_byte d1 s1 flg)) = borrow_out d1 s1 False) \<and>
   (sub_spec d2 s2 False flg (sub_word d2 s2 flg) \<and> on F_CF (snd (sub_word d2 s2 flg)) = borrow_out d2 s2 False) \<and>
   (sub_spec d4 s4 False flg (sub_long d4 s4 flg) \<and> on F_CF (snd (sub_long d4 s4 flg)) = borrow_out d4 s4 False) \<and>
   (sub_spec d1 s1 (on F_CF flg) flg (sbb_byte d1 s1 flg) \<and> on F_CF (snd (sbb_byte d1 s1 flg)) = borrow_out d1 s1 (on F_CF flg)) \<and>
   (sub_spec d2 s2 (on F_CF flg) flg (sbb_word d2 s2 flg) \<and> on F_CF (snd (sbb_word d2 s2 flg)) = borrow_out d2 s2 (on F_CF flg)) \<and>
   (sub_spec d4 s4 (on F_CF flg) flg (sbb_long d4 s4 flg) \<and> on F_CF (snd (sbb_long d4 s4 flg)) = borrow_out d4 s4 (on F_CF flg)) \<and>
   (sub_spec d1 1 False flg (dec_byte d1 flg) \<and> on F_CF (snd (dec_byte d1 flg)) = on F_CF flg) \<and>
   (sub_spec d2 1 False flg (dec_word d2 flg) \<and> on F_CF (snd (dec_word d2 flg)) = on F_CF flg) \<and>
   (sub_spec d4 1 False flg (dec_long d4 flg) \<and> on F_CF (snd (dec_long d4 flg)) = on F_CF flg) \<and>
   (sub_spec 0 s1 False flg (neg_byte s1 flg) \<and> on F_CF (snd (neg_byte s1 flg)) = borrow_out 0 s1 False) \<and>
   (sub_spec 0 s2 False flg (neg_word s2 flg) \<and> on F_CF (snd (neg_word s2 flg)) = borrow_out 0 s2 False) \<and>
   (sub_spec 0 s4 False flg (neg_long s4 flg) \<and> on F_CF (snd (neg_long s4 flg)) = borrow_out 0 s4 False)"
  by (simp only: sub_byte_ok sub_word_ok sub_long_ok sbb_byte_ok [OF refl] sbb_word_ok [OF refl] sbb_long_ok [OF refl]
    dec_byte_ok dec_word_ok dec_long_ok neg_byte_ok neg_word_ok neg_long_ok)

text \<open>After a comparison the flags order the operands as the conditional jumps read them: carry is
  unsigned less-than, zero is equality, and sign different from overflow is signed less-than; the
  operand itself is returned unchanged.\<close>

theorem x86_cmp_orders:
  "fst (cmp_byte d1 s1 flg) = d1 \<and> fst (cmp_word d2 s2 flg) = d2 \<and> fst (cmp_long d4 s4 flg) = d4 \<and>
   (let f = snd (cmp_byte d1 s1 flg) in
      (on F_CF f \<longleftrightarrow> d1 < s1) \<and> (on F_ZF f \<longleftrightarrow> d1 = s1) \<and> (on F_SF f \<noteq> on F_OF f \<longleftrightarrow> sint d1 < sint s1)) \<and>
   (let f = snd (cmp_word d2 s2 flg) in
      (on F_CF f \<longleftrightarrow> d2 < s2) \<and> (on F_ZF f \<longleftrightarrow> d2 = s2) \<and> (on F_SF f \<noteq> on F_OF f \<longleftrightarrow> sint d2 < sint s2)) \<and>
   (let f = snd (cmp_long d4 s4 flg) in
      (on F_CF f \<longleftrightarrow> d4 < s4) \<and> (on F_ZF f \<longleftrightarrow> d4 = s4) \<and> (on F_SF f \<noteq> on F_OF f \<longleftrightarrow> sint d4 < sint s4))"
  unfolding Let_def
  using cmp_byte_ok [of d1 s1 flg] cmp_word_ok [of d2 s2 flg] cmp_long_ok [of d4 s4 flg]
    cmp_orders [of d1 s1 flg "snd (cmp_byte d1 s1 flg)"] cmp_orders [of d2 s2 flg "snd (cmp_word d2 s2 flg)"]
    cmp_orders [of d4 s4 flg "snd (cmp_long d4 s4 flg)"] by blast

text \<open>The bitwise operations compute their result, clear carry and overflow (and the nibble carry, but
  for \<^verbatim>\<open>test\<close>), and set sign, zero and parity of the result.\<close>

theorem x86_logic_correct:
  "logic_spec (d1 AND s1) flg (and_byte d1 s1 flg) \<and> logic_spec (d2 AND s2) flg (and_word d2 s2 flg) \<and>
   logic_spec (d4 AND s4) flg (and_long d4 s4 flg) \<and> logic_spec (d1 OR s1) flg (or_byte d1 s1 flg) \<and>
   logic_spec (d2 OR s2) flg (or_word d2 s2 flg) \<and> logic_spec (d4 OR s4) flg (or_long d4 s4 flg) \<and>
   logic_spec (d1 XOR s1) flg (xor_byte d1 s1 flg) \<and> logic_spec (d2 XOR s2) flg (xor_word d2 s2 flg) \<and>
   logic_spec (d4 XOR s4) flg (xor_long d4 s4 flg) \<and>
   szp (d1 AND s1) (test_byte d1 s1 flg) \<and> \<not> on F_CF (test_byte d1 s1 flg) \<and> \<not> on F_OF (test_byte d1 s1 flg) \<and>
   szp (d2 AND s2) (test_word d2 s2 flg) \<and> \<not> on F_CF (test_word d2 s2 flg) \<and> \<not> on F_OF (test_word d2 s2 flg) \<and>
   szp (d4 AND s4) (test_long d4 s4 flg) \<and> \<not> on F_CF (test_long d4 s4 flg) \<and> \<not> on F_OF (test_long d4 s4 flg)"
  by (simp only: and_byte_ok and_word_ok and_long_ok or_byte_ok or_word_ok or_long_ok xor_byte_ok xor_word_ok xor_long_ok
    test_byte_ok test_word_ok test_long_ok simp_thms)

end
