(* ===== verification/X86_Shift.thy ===== *)
theory X86_Shift
  imports X86_Arith "HOL-Library.Monad_Syntax"
begin

unbundle bit_operations_syntax

text \<open>
  The rotations and shifts of the emulator (\<^verbatim>\<open>prim_ops.c\<close>) at the widths 8, 16 and 32. A shift of a
  32-bit value by 32 or more positions is undefined in C: \<open>c_shl\<close> and \<open>c_shr\<close> return \<^term>\<open>None\<close> for it,
  and with them the operation that contains it. Left shifts of promoted operands keep the low 32 bits,
  as the compiler of the project defines them.

  The properties describe the results bit by bit: a rotation permutes the bits of the operand (and
  the carry flag), a shift moves them and sets carry to the last bit that was moved out.
\<close>

section \<open>The operations\<close>

definition c_shl :: "u32 \<Rightarrow> u32 \<Rightarrow> u32 option" where
  "c_shl x n = (if n < 32 then Some (push_bit (unat n) x) else None)"

definition c_shr :: "u32 \<Rightarrow> u32 \<Rightarrow> u32 option" where
  "c_shr x n = (if n < 32 then Some (drop_bit (unat n) x) else None)"

definition rcl_byte :: "u8 \<Rightarrow> u8 \<Rightarrow> u32 \<Rightarrow> (u8 \<times> u32) option" where
  "rcl_byte d s flg =
     (let cnt = ucast s mod 9 in
      if cnt \<noteq> 0 then
        do {
          x \<leftarrow> c_shr (ucast d) (8 - cnt);
          let cf = x AND 1;
          x \<leftarrow> c_shl (ucast d) cnt;
          let res = x AND 0xff;
          b \<leftarrow> c_shl 1 (cnt - 1);
          let mask = b - 1;
          x \<leftarrow> c_shr (ucast d) (9 - cnt);
          let res = res OR (x AND mask);
          let res = (if ACCESS_FLAG F_CF flg \<noteq> 0 then res OR b else res);
          let flg = CONDITIONAL_SET_FLAG (cf \<noteq> 0) F_CF flg;
          let flg = CONDITIONAL_SET_FLAG (cnt = 1 \<and> XOR2 (cf + (drop_bit 6 res AND 2)) \<noteq> 0) F_OF flg;
          Some (ucast res, flg)
        }
      else Some (d, flg))"

definition rcl_word :: "u16 \<Rightarrow> u8 \<Rightarrow> u32 \<Rightarrow> (u16 \<times> u32) option" where
  "rcl_word d s flg =
     (let cnt = ucast s mod 17 in
      if cnt \<noteq> 0 then
        do {
          x \<leftarrow> c_shr (ucast d) (16 - cnt);
          let cf = x AND 1;
          x \<leftarrow> c_shl (ucast d) cnt;
          let res = x AND 0xffff;
          b \<leftarrow> c_shl 1 (cnt - 1);
          let mask = b - 1;
          x \<leftarrow> c_shr (ucast d) (17 - cnt);
          let res = res OR (x AND mask);
          let res = (if ACCESS_FLAG F_CF flg \<noteq> 0 then res OR b else res);
          let flg = CONDITIONAL_SET_FLAG (cf \<noteq> 0) F_CF flg;
          let flg = CONDITIONAL_SET_FLAG (cnt = 1 \<and> XOR2 (cf + (drop_bit 14 res AND 2)) \<noteq> 0) F_OF flg;
          Some (ucast res, flg)
        }
      else Some (d, flg))"

definition rcl_long :: "u32 \<Rightarrow> u8 \<Rightarrow> u32 \<Rightarrow> (u32 \<times> u32) option" where
  "rcl_long d s flg =
     (let cnt = ucast s mod 33 in
      if cnt \<noteq> 0 then
        do {
          x \<leftarrow> c_shr d (32 - cnt);
          let cf = x AND 1;
          x \<leftarrow> c_shl d cnt;
          let res = x AND 0xffffffff;
          b \<leftarrow> c_shl 1 (cnt - 1);
          let mask = b - 1;
          x \<leftarrow> c_shr d (33 - cnt);
          let res = res OR (x AND mask);
          let res = (if ACCESS_FLAG F_CF flg \<noteq> 0 then res OR b else res);
          let flg = CONDITIONAL_SET_FLAG (cf \<noteq> 0) F_CF flg;
          let flg = CONDITIONAL_SET_FLAG (cnt = 1 \<and> XOR2 (cf + (drop_bit 30 res AND 2)) \<noteq> 0) F_OF flg;
          Some (res, flg)
        }
      else Some (d, flg))"

definition rcr_byte :: "u8 \<Rightarrow> u8 \<Rightarrow> u32 \<Rightarrow> (u8 \<times> u32) option" where
  "rcr_byte d s flg =
     (let cnt = ucast s mod 9 in
      if cnt \<noteq> 0 then
        do {
          let ocf = (if cnt = 1 then of_bool (ACCESS_FLAG F_CF flg \<noteq> 0) else 0);
          x \<leftarrow> (if cnt = 1 then Some (ucast d) else c_shr (ucast d) (cnt - 1));
          let cf = x AND 1;
          b \<leftarrow> c_shl 1 (8 - cnt);
          let mask = b - 1;
          x \<leftarrow> c_shr (ucast d) cnt;
          let res = x AND mask;
          x \<leftarrow> c_shl (ucast d) (9 - cnt);
          let res = res OR x;
          let res = (if ACCESS_FLAG F_CF flg \<noteq> 0 then res OR b else res);
          let flg = CONDITIONAL_SET_FLAG (cf \<noteq> 0) F_CF flg;
          let flg = (if cnt = 1 then CONDITIONAL_SET_FLAG (XOR2 (ocf + (drop_bit 6 (ucast d) AND 2)) \<noteq> 0) F_OF flg else flg);
          Some (ucast res, flg)
        }
      else Some (d, flg))"

definition rcr_word :: "u16 \<Rightarrow> u8 \<Rightarrow> u32 \<Rightarrow> (u16 \<times> u32) option" where
  "rcr_word d s flg =
     (let cnt = ucast s mod 17 in
      if cnt \<noteq> 0 then
        do {
          let ocf = (if cnt = 1 then of_bool (ACCESS_FLAG F_CF flg \<noteq> 0) else 0);
          x \<leftarrow> (if cnt = 1 then Some (ucast d) else c_shr (ucast d) (cnt - 1));
          let cf = x AND 1;
          b \<leftarrow> c_shl 1 (16 - cnt);
          let mask = b - 1;
          x \<leftarrow> c_shr (ucast d) cnt;
          let res = x AND mask;
          x \<leftarrow> c_shl (ucast d) (17 - cnt);
          let res = res OR x;
          let res = (if ACCESS_FLAG F_CF flg \<noteq> 0 then res OR b else res);
          let flg = CONDITIONAL_SET_FLAG (cf \<noteq> 0) F_CF flg;
          let flg = (if cnt = 1 then CONDITIONAL_SET_FLAG (XOR2 (ocf + (drop_bit 14 (ucast d) AND 2)) \<noteq> 0) F_OF flg else flg);
          Some (ucast res, flg)
        }
      else Some (d, flg))"

definition rcr_long :: "u32 \<Rightarrow> u8 \<Rightarrow> u32 \<Rightarrow> (u32 \<times> u32) option" where
  "rcr_long d s flg =
     (let cnt = ucast s mod 33 in
      if cnt \<noteq> 0 then
        do {
          let ocf = (if cnt = 1 then of_bool (ACCESS_FLAG F_CF flg \<noteq> 0) else 0);
          x \<leftarrow> (if cnt = 1 then Some d else c_shr d (cnt - 1));
          let cf = x AND 1;
          b \<leftarrow> c_shl 1 (32 - cnt);
          let mask = b - 1;
          x \<leftarrow> c_shr d cnt;
          let res = x AND mask;
          res \<leftarrow> (if cnt \<noteq> 1 then do { x \<leftarrow> c_shl d (33 - cnt); Some (res OR x) } else Some res);
          let res = (if ACCESS_FLAG F_CF flg \<noteq> 0 then res OR b else res);
          let flg = CONDITIONAL_SET_FLAG (cf \<noteq> 0) F_CF flg;
          let flg = (if cnt = 1 then CONDITIONAL_SET_FLAG (XOR2 (ocf + (drop_bit 30 d AND 2)) \<noteq> 0) F_OF flg else flg);
          Some (res, flg)
        }
      else Some (d, flg))"

definition rol_byte :: "u8 \<Rightarrow> u8 \<Rightarrow> u32 \<Rightarrow> (u8 \<times> u32) option" where
  "rol_byte d s flg =
     (let cnt = ucast s mod 8 in
      do {
        (res, flg) \<leftarrow>
          (if cnt \<noteq> 0 then
             do {
               res \<leftarrow> c_shl (ucast d) cnt;
               b \<leftarrow> c_shl 1 cnt;
               let mask = b - 1;
               x \<leftarrow> c_shr (ucast d) (8 - cnt);
               let res = res OR (x AND mask);
               let flg = CONDITIONAL_SET_FLAG (res AND 1 \<noteq> 0) F_CF flg;
               let flg = CONDITIONAL_SET_FLAG (s = 1 \<and> XOR2 ((res AND 1) + (drop_bit 6 res AND 2)) \<noteq> 0) F_OF flg;
               Some (res, flg)
             }
           else Some ((ucast d), flg));
        let flg = (if s \<noteq> 0 then CONDITIONAL_SET_FLAG (res AND 1 \<noteq> 0) F_CF flg else flg);
        Some (ucast res, flg)
      })"

definition rol_word :: "u16 \<Rightarrow> u8 \<Rightarrow> u32 \<Rightarrow> (u16 \<times> u32) option" where
  "rol_word d s flg =
     (let cnt = ucast s mod 16 in
      do {
        (res, flg) \<leftarrow>
          (if cnt \<noteq> 0 then
             do {
               res \<leftarrow> c_shl (ucast d) cnt;
               b \<leftarrow> c_shl 1 cnt;
               let mask = b - 1;
               x \<leftarrow> c_shr (ucast d) (16 - cnt);
               let res = res OR (x AND mask);
               let flg = CONDITIONAL_SET_FLAG (res AND 1 \<noteq> 0) F_CF flg;
               let flg = CONDITIONAL_SET_FLAG (s = 1 \<and> XOR2 ((res AND 1) + (drop_bit 14 res AND 2)) \<noteq> 0) F_OF flg;
               Some (res, flg)
             }
           else Some ((ucast d), flg));
        let flg = (if s \<noteq> 0 then CONDITIONAL_SET_FLAG (res AND 1 \<noteq> 0) F_CF flg else flg);
        Some (ucast res, flg)
      })"

definition rol_long :: "u32 \<Rightarrow> u8 \<Rightarrow> u32 \<Rightarrow> (u32 \<times> u32) option" where
  "rol_long d s flg =
     (let cnt = ucast s mod 32 in
      do {
        (res, flg) \<leftarrow>
          (if cnt \<noteq> 0 then
             do {
               res \<leftarrow> c_shl d cnt;
               b \<leftarrow> c_shl 1 cnt;
               let mask = b - 1;
               x \<leftarrow> c_shr d (32 - cnt);
               let res = res OR (x AND mask);
               let flg = CONDITIONAL_SET_FLAG (res AND 1 \<noteq> 0) F_CF flg;
               let flg = CONDITIONAL_SET_FLAG (s = 1 \<and> XOR2 ((res AND 1) + (drop_bit 30 res AND 2)) \<noteq> 0) F_OF flg;
               Some (res, flg)
             }
           else Some (d, flg));
        let flg = (if s \<noteq> 0 then CONDITIONAL_SET_FLAG (res AND 1 \<noteq> 0) F_CF flg else flg);
        Some (res, flg)
      })"

definition ror_byte :: "u8 \<Rightarrow> u8 \<Rightarrow> u32 \<Rightarrow> (u8 \<times> u32) option" where
  "ror_byte d s flg =
     (let cnt = ucast s mod 8 in
      if cnt \<noteq> 0 then
        do {
          res \<leftarrow> c_shl (ucast d) (8 - cnt);
          b \<leftarrow> c_shl 1 (8 - cnt);
          let mask = b - 1;
          x \<leftarrow> c_shr (ucast d) cnt;
          let res = res OR (x AND mask);
          let flg = CONDITIONAL_SET_FLAG (res AND 0x80 \<noteq> 0) F_CF flg;
          let flg = CONDITIONAL_SET_FLAG (s = 1 \<and> XOR2 (drop_bit 6 res) \<noteq> 0) F_OF flg;
          Some (ucast res, flg)
        }
      else if s \<noteq> 0 then Some (d, CONDITIONAL_SET_FLAG ((ucast d :: u32) AND 0x80 \<noteq> 0) F_CF flg)
      else Some (d, flg))"

definition ror_word :: "u16 \<Rightarrow> u8 \<Rightarrow> u32 \<Rightarrow> (u16 \<times> u32) option" where
  "ror_word d s flg =
     (let cnt = ucast s mod 16 in
      if cnt \<noteq> 0 then
        do {
          res \<leftarrow> c_shl (ucast d) (16 - cnt);
          b \<leftarrow> c_shl 1 (16 - cnt);
          let mask = b - 1;
          x \<leftarrow> c_shr (ucast d) cnt;
          let res = res OR (x AND mask);
          let flg = CONDITIONAL_SET_FLAG (res AND 0x8000 \<noteq> 0) F_CF flg;
          let flg = CONDITIONAL_SET_FLAG (s = 1 \<and> XOR2 (drop_bit 14 res) \<noteq> 0) F_OF flg;
          Some (ucast res, flg)
        }
      else if s \<noteq> 0 then Some (d, CONDITIONAL_SET_FLAG ((ucast d :: u32) AND 0x8000 \<noteq> 0) F_CF flg)
      else Some (d, flg))"

definition ror_long :: "u32 \<Rightarrow> u8 \<Rightarrow> u32 \<Rightarrow> (u32 \<times> u32) option" where
  "ror_long d s flg =
     (let cnt = ucast s mod 32 in
      if cnt \<noteq> 0 then
        do {
          res \<leftarrow> c_shl d (32 - cnt);
          b \<leftarrow> c_shl 1 (32 - cnt);
          let mask = b - 1;
          x \<leftarrow> c_shr d cnt;
          let res = res OR (x AND mask);
          let flg = CONDITIONAL_SET_FLAG (res AND 0x80000000 \<noteq> 0) F_CF flg;
          let flg = CONDITIONAL_SET_FLAG (s = 1 \<and> XOR2 (drop_bit 30 res) \<noteq> 0) F_OF flg;
          Some (res, flg)
        }
      else if s \<noteq> 0 then Some (d, CONDITIONAL_SET_FLAG (d AND 0x80000000 \<noteq> 0) F_CF flg)
      else Some (d, flg))"

definition shl_byte :: "u8 \<Rightarrow> u8 \<Rightarrow> u32 \<Rightarrow> (u8 \<times> u32) option" where
  "shl_byte d s flg =
     (if s < 8 then
        do {
          let cnt = ucast s mod 8;
          (res, flg) \<leftarrow>
            (if cnt > 0 then
             do {
               res \<leftarrow> c_shl (ucast d) cnt;
               b \<leftarrow> c_shl 1 (8 - cnt);
               let cf = (ucast d) AND b;
               let flg = CONDITIONAL_SET_FLAG (cf \<noteq> 0) F_CF flg;
               let flg = CONDITIONAL_SET_FLAG (res AND 0xff = 0) F_ZF flg;
               let flg = CONDITIONAL_SET_FLAG (res AND 0x80 \<noteq> 0) F_SF flg;
               let flg = CONDITIONAL_SET_FLAG (PARITY (res AND 0xff)) F_PF flg;
               Some (res, flg)
             }
             else Some ((ucast d), flg));
          let flg = (if cnt = 1 then CONDITIONAL_SET_FLAG ((res AND 0x80 = 0x80) \<noteq> (ACCESS_FLAG F_CF flg \<noteq> 0)) F_OF flg
            else CLEAR_FLAG F_OF flg);
          Some (ucast res, flg)
        }
      else
        do {
          x \<leftarrow> c_shl (ucast d) (ucast s - 1);
          let flg = CONDITIONAL_SET_FLAG (x AND 0x80 \<noteq> 0) F_CF flg;
          let flg = CLEAR_FLAG F_OF flg;
          let flg = CLEAR_FLAG F_SF flg;
          let flg = SET_FLAG F_PF flg;
          let flg = SET_FLAG F_ZF flg;
          Some (0, flg)
        })"

definition shl_word :: "u16 \<Rightarrow> u8 \<Rightarrow> u32 \<Rightarrow> (u16 \<times> u32) option" where
  "shl_word d s flg =
     (if s < 16 then
        do {
          let cnt = ucast s mod 16;
          (res, flg) \<leftarrow>
            (if cnt > 0 then
             do {
               res \<leftarrow> c_shl (ucast d) cnt;
               b \<leftarrow> c_shl 1 (16 - cnt);
               let cf = (ucast d) AND b;
               let flg = CONDITIONAL_SET_FLAG (cf \<noteq> 0) F_CF flg;
               let flg = CONDITIONAL_SET_FLAG (res AND 0xffff = 0) F_ZF flg;
               let flg = CONDITIONAL_SET_FLAG (res AND 0x8000 \<noteq> 0) F_SF flg;
               let flg = CONDITIONAL_SET_FLAG (PARITY (res AND 0xff)) F_PF flg;
               Some (res, flg)
             }
             else Some ((ucast d), flg));
          let flg = (if cnt = 1 then CONDITIONAL_SET_FLAG ((res AND 0x8000 = 0x8000) \<noteq> (ACCESS_FLAG F_CF flg \<noteq> 0)) F_OF flg
            else CLEAR_FLAG F_OF flg);
          Some (ucast res, flg)
        }
      else
        do {
          x \<leftarrow> c_shl (ucast d) (ucast s - 1);
          let flg = CONDITIONAL_SET_FLAG (x AND 0x8000 \<noteq> 0) F_CF flg;
          let flg = CLEAR_FLAG F_OF flg;
          let flg = CLEAR_FLAG F_SF flg;
          let flg = SET_FLAG F_PF flg;
          let flg = SET_FLAG F_ZF flg;
          Some (0, flg)
        })"

definition shl_long :: "u32 \<Rightarrow> u8 \<Rightarrow> u32 \<Rightarrow> (u32 \<times> u32) option" where
  "shl_long d s flg =
     (if s < 32 then
        do {
          let cnt = ucast s mod 32;
          (res, flg) \<leftarrow>
            (if cnt > 0 then
             do {
               res \<leftarrow> c_shl d cnt;
               b \<leftarrow> c_shl 1 (32 - cnt);
               let cf = d AND b;
               let flg = CONDITIONAL_SET_FLAG (cf \<noteq> 0) F_CF flg;
               let flg = CONDITIONAL_SET_FLAG (res AND 0xffffffff = 0) F_ZF flg;
               let flg = CONDITIONAL_SET_FLAG (res AND 0x80000000 \<noteq> 0) F_SF flg;
               let flg = CONDITIONAL_SET_FLAG (PARITY (res AND 0xff)) F_PF flg;
               Some (res, flg)
             }
             else Some (d, flg));
          let flg = (if cnt = 1 then CONDITIONAL_SET_FLAG ((res AND 0x80000000 = 0x80000000) \<noteq> (ACCESS_FLAG F_CF flg \<noteq> 0)) F_OF flg
            else CLEAR_FLAG F_OF flg);
          Some (res, flg)
        }
      else
        do {
          x \<leftarrow> c_shl d (ucast s - 1);
          let flg = CONDITIONAL_SET_FLAG (x AND 0x80000000 \<noteq> 0) F_CF flg;
          let flg = CLEAR_FLAG F_OF flg;
          let flg = CLEAR_FLAG F_SF flg;
          let flg = SET_FLAG F_PF flg;
          let flg = SET_FLAG F_ZF flg;
          Some (0, flg)
        })"

definition shr_byte :: "u8 \<Rightarrow> u8 \<Rightarrow> u32 \<Rightarrow> (u8 \<times> u32) option" where
  "shr_byte d s flg =
     (if s < 8 then
        do {
          let cnt = ucast s mod 8;
          (res, flg) \<leftarrow>
            (if cnt > 0 then
             do {
               b \<leftarrow> c_shl 1 (cnt - 1);
               let cf = (ucast d) AND b;
               res \<leftarrow> c_shr (ucast d) cnt;
               let flg = CONDITIONAL_SET_FLAG (cf \<noteq> 0) F_CF flg;
               let flg = CONDITIONAL_SET_FLAG (res AND 0xff = 0) F_ZF flg;
               let flg = CONDITIONAL_SET_FLAG (res AND 0x80 \<noteq> 0) F_SF flg;
               let flg = CONDITIONAL_SET_FLAG (PARITY (res AND 0xff)) F_PF flg;
               Some (res, flg)
             }
             else Some ((ucast d), flg));
          let flg = (if cnt = 1 then CONDITIONAL_SET_FLAG (XOR2 (drop_bit 6 res) \<noteq> 0) F_OF flg
            else CLEAR_FLAG F_OF flg);
          Some (ucast res, flg)
        }
      else
        do {
          x \<leftarrow> c_shr (ucast d) (ucast s - 1);
          let flg = CONDITIONAL_SET_FLAG (x AND 1 \<noteq> 0) F_CF flg;
          let flg = CLEAR_FLAG F_OF flg;
          let flg = CLEAR_FLAG F_SF flg;
          let flg = SET_FLAG F_PF flg;
          let flg = SET_FLAG F_ZF flg;
          Some (0, flg)
        })"

definition shr_word :: "u16 \<Rightarrow> u8 \<Rightarrow> u32 \<Rightarrow> (u16 \<times> u32) option" where
  "shr_word d s flg =
     (if s < 16 then
        do {
          let cnt = ucast s mod 16;
          (res, flg) \<leftarrow>
            (if cnt > 0 then
             do {
               b \<leftarrow> c_shl 1 (cnt - 1);
               let cf = (ucast d) AND b;
               res \<leftarrow> c_shr (ucast d) cnt;
               let flg = CONDITIONAL_SET_FLAG (cf \<noteq> 0) F_CF flg;
               let flg = CONDITIONAL_SET_FLAG (res AND 0xffff = 0) F_ZF flg;
               let flg = CONDITIONAL_SET_FLAG (res AND 0x8000 \<noteq> 0) F_SF flg;
               let flg = CONDITIONAL_SET_FLAG (PARITY (res AND 0xff)) F_PF flg;
               Some (res, flg)
             }
             else Some ((ucast d), flg));
          let flg = (if cnt = 1 then CONDITIONAL_SET_FLAG (XOR2 (drop_bit 14 res) \<noteq> 0) F_OF flg
            else CLEAR_FLAG F_OF flg);
          Some (ucast res, flg)
        }
      else
        do {
          let flg = CLEAR_FLAG F_CF flg;
          let flg = CLEAR_FLAG F_OF flg;
          let flg = SET_FLAG F_ZF flg;
          let flg = CLEAR_FLAG F_SF flg;
          let flg = CLEAR_FLAG F_PF flg;
          Some (0, flg)
        })"

definition shr_long :: "u32 \<Rightarrow> u8 \<Rightarrow> u32 \<Rightarrow> (u32 \<times> u32) option" where
  "shr_long d s flg =
     (if s < 32 then
        do {
          let cnt = ucast s mod 32;
          (res, flg) \<leftarrow>
            (if cnt > 0 then
             do {
               b \<leftarrow> c_shl 1 (cnt - 1);
               let cf = d AND b;
               res \<leftarrow> c_shr d cnt;
               let flg = CONDITIONAL_SET_FLAG (cf \<noteq> 0) F_CF flg;
               let flg = CONDITIONAL_SET_FLAG (res AND 0xffffffff = 0) F_ZF flg;
               let flg = CONDITIONAL_SET_FLAG (res AND 0x80000000 \<noteq> 0) F_SF flg;
               let flg = CONDITIONAL_SET_FLAG (PARITY (res AND 0xff)) F_PF flg;
               Some (res, flg)
             }
             else Some (d, flg));
          let flg = (if cnt = 1 then CONDITIONAL_SET_FLAG (XOR2 (drop_bit 30 res) \<noteq> 0) F_OF flg
            else CLEAR_FLAG F_OF flg);
          Some (res, flg)
        }
      else
        do {
          let flg = CLEAR_FLAG F_CF flg;
          let flg = CLEAR_FLAG F_OF flg;
          let flg = SET_FLAG F_ZF flg;
          let flg = CLEAR_FLAG F_SF flg;
          let flg = CLEAR_FLAG F_PF flg;
          Some (0, flg)
        })"

definition sar_byte :: "u8 \<Rightarrow> u8 \<Rightarrow> u32 \<Rightarrow> (u8 \<times> u32) option" where
  "sar_byte d s flg =
     (let sf = (ucast d :: u32) AND 0x80; cnt = ucast s mod 8 in
      if cnt > 0 \<and> cnt < 8 then
        do {
          b \<leftarrow> c_shl 1 (8 - cnt);
          let mask = b - 1;
          b \<leftarrow> c_shl 1 (cnt - 1);
          let cf = (ucast d) AND b;
          x \<leftarrow> c_shr (ucast d) cnt;
          let res = x AND mask;
          let flg = CONDITIONAL_SET_FLAG (cf \<noteq> 0) F_CF flg;
          let res = (if sf \<noteq> 0 then res OR NOT mask else res);
          let flg = CONDITIONAL_SET_FLAG (res AND 0xff = 0) F_ZF flg;
          let flg = CONDITIONAL_SET_FLAG (PARITY (res AND 0xff)) F_PF flg;
          let flg = CONDITIONAL_SET_FLAG (res AND 0x80 \<noteq> 0) F_SF flg;
          Some (ucast res, flg)
        }
      else if cnt \<ge> 8 then
        if sf \<noteq> 0 then
          let flg = SET_FLAG F_CF flg;
              flg = CLEAR_FLAG F_ZF flg;
              flg = SET_FLAG F_SF flg;
              flg = SET_FLAG F_PF flg
          in Some (0xff, flg)
        else
          let flg = CLEAR_FLAG F_CF flg;
              flg = SET_FLAG F_ZF flg;
              flg = CLEAR_FLAG F_SF flg;
              flg = CLEAR_FLAG F_PF flg
          in Some (0, flg)
      else Some (d, flg))"

definition sar_word :: "u16 \<Rightarrow> u8 \<Rightarrow> u32 \<Rightarrow> (u16 \<times> u32) option" where
  "sar_word d s flg =
     (let sf = (ucast d :: u32) AND 0x8000; cnt = ucast s mod 16 in
      if cnt > 0 \<and> cnt < 16 then
        do {
          b \<leftarrow> c_shl 1 (16 - cnt);
          let mask = b - 1;
          b \<leftarrow> c_shl 1 (cnt - 1);
          let cf = (ucast d) AND b;
          x \<leftarrow> c_shr (ucast d) cnt;
          let res = x AND mask;
          let flg = CONDITIONAL_SET_FLAG (cf \<noteq> 0) F_CF flg;
          let res = (if sf \<noteq> 0 then res OR NOT mask else res);
          let flg = CONDITIONAL_SET_FLAG (res AND 0xffff = 0) F_ZF flg;
          let flg = CONDITIONAL_SET_FLAG (res AND 0x8000 \<noteq> 0) F_SF flg;
          let flg = CONDITIONAL_SET_FLAG (PARITY (res AND 0xff)) F_PF flg;
          Some (ucast res, flg)
        }
      else if cnt \<ge> 16 then
        if sf \<noteq> 0 then
          let flg = SET_FLAG F_CF flg;
              flg = CLEAR_FLAG F_ZF flg;
              flg = SET_FLAG F_SF flg;
              flg = SET_FLAG F_PF flg
          in Some (0xffff, flg)
        else
          let flg = CLEAR_FLAG F_CF flg;
              flg = SET_FLAG F_ZF flg;
              flg = CLEAR_FLAG F_SF flg;
              flg = CLEAR_FLAG F_PF flg
          in Some (0, flg)
      else Some (d, flg))"

definition sar_long :: "u32 \<Rightarrow> u8 \<Rightarrow> u32 \<Rightarrow> (u32 \<times> u32) option" where
  "sar_long d s flg =
     (let sf = d AND 0x80000000; cnt = ucast s mod 32 in
      if cnt > 0 \<and> cnt < 32 then
        do {
          b \<leftarrow> c_shl 1 (32 - cnt);
          let mask = b - 1;
          b \<leftarrow> c_shl 1 (cnt - 1);
          let cf = d AND b;
          x \<leftarrow> c_shr d cnt;
          let res = x AND mask;
          let flg = CONDITIONAL_SET_FLAG (cf \<noteq> 0) F_CF flg;
          let res = (if sf \<noteq> 0 then res OR NOT mask else res);
          let flg = CONDITIONAL_SET_FLAG (res AND 0xffffffff = 0) F_ZF flg;
          let flg = CONDITIONAL_SET_FLAG (res AND 0x80000000 \<noteq> 0) F_SF flg;
          let flg = CONDITIONAL_SET_FLAG (PARITY (res AND 0xff)) F_PF flg;
          Some (res, flg)
        }
      else if cnt \<ge> 32 then
        if sf \<noteq> 0 then
          let flg = SET_FLAG F_CF flg;
              flg = CLEAR_FLAG F_ZF flg;
              flg = SET_FLAG F_SF flg;
              flg = SET_FLAG F_PF flg
          in Some (0xffffffff, flg)
        else
          let flg = CLEAR_FLAG F_CF flg;
              flg = SET_FLAG F_ZF flg;
              flg = CLEAR_FLAG F_SF flg;
              flg = CLEAR_FLAG F_PF flg
          in Some (0, flg)
      else Some (d, flg))"

definition shld_word :: "u16 \<Rightarrow> u16 \<Rightarrow> u8 \<Rightarrow> u32 \<Rightarrow> (u16 \<times> u32) option" where
  "shld_word d fill s flg =
     (if s < 16 then
        do {
          let cnt = ucast s mod 16;
          (res, flg) \<leftarrow>
            (if cnt > 0 then
             do {
               x \<leftarrow> c_shl (ucast d) cnt;
               y \<leftarrow> c_shr (ucast fill) (16 - cnt);
               let res = x OR y;
               b \<leftarrow> c_shl 1 (16 - cnt);
               let cf = (ucast d) AND b;
               let flg = CONDITIONAL_SET_FLAG (cf \<noteq> 0) F_CF flg;
               let flg = CONDITIONAL_SET_FLAG (res AND 0xffff = 0) F_ZF flg;
               let flg = CONDITIONAL_SET_FLAG (res AND 0x8000 \<noteq> 0) F_SF flg;
               let flg = CONDITIONAL_SET_FLAG (PARITY (res AND 0xff)) F_PF flg;
               Some (res, flg)
             }
             else Some ((ucast d), flg));
          let flg = (if cnt = 1 then CONDITIONAL_SET_FLAG ((res AND 0x8000 = 0x8000) \<noteq> (ACCESS_FLAG F_CF flg \<noteq> 0)) F_OF flg
            else CLEAR_FLAG F_OF flg);
          Some (ucast res, flg)
        }
      else
        do {
          x \<leftarrow> c_shl (ucast d) (ucast s - 1);
          let flg = CONDITIONAL_SET_FLAG (x AND 0x8000 \<noteq> 0) F_CF flg;
          let flg = CLEAR_FLAG F_OF flg;
          let flg = CLEAR_FLAG F_SF flg;
          let flg = SET_FLAG F_PF flg;
          let flg = SET_FLAG F_ZF flg;
          Some (0, flg)
        })"

definition shld_long :: "u32 \<Rightarrow> u32 \<Rightarrow> u8 \<Rightarrow> u32 \<Rightarrow> (u32 \<times> u32) option" where
  "shld_long d fill s flg =
     (if s < 32 then
        do {
          let cnt = ucast s mod 32;
          (res, flg) \<leftarrow>
            (if cnt > 0 then
             do {
               x \<leftarrow> c_shl d cnt;
               y \<leftarrow> c_shr fill (32 - cnt);
               let res = x OR y;
               b \<leftarrow> c_shl 1 (32 - cnt);
               let cf = d AND b;
               let flg = CONDITIONAL_SET_FLAG (cf \<noteq> 0) F_CF flg;
               let flg = CONDITIONAL_SET_FLAG (res AND 0xffffffff = 0) F_ZF flg;
               let flg = CONDITIONAL_SET_FLAG (res AND 0x80000000 \<noteq> 0) F_SF flg;
               let flg = CONDITIONAL_SET_FLAG (PARITY (res AND 0xff)) F_PF flg;
               Some (res, flg)
             }
             else Some (d, flg));
          let flg = (if cnt = 1 then CONDITIONAL_SET_FLAG ((res AND 0x80000000 = 0x80000000) \<noteq> (ACCESS_FLAG F_CF flg \<noteq> 0)) F_OF flg
            else CLEAR_FLAG F_OF flg);
          Some (res, flg)
        }
      else
        do {
          x \<leftarrow> c_shl d (ucast s - 1);
          let flg = CONDITIONAL_SET_FLAG (x AND 0x80000000 \<noteq> 0) F_CF flg;
          let flg = CLEAR_FLAG F_OF flg;
          let flg = CLEAR_FLAG F_SF flg;
          let flg = SET_FLAG F_PF flg;
          let flg = SET_FLAG F_ZF flg;
          Some (0, flg)
        })"

definition shrd_word :: "u16 \<Rightarrow> u16 \<Rightarrow> u8 \<Rightarrow> u32 \<Rightarrow> (u16 \<times> u32) option" where
  "shrd_word d fill s flg =
     (if s < 16 then
        do {
          let cnt = ucast s mod 16;
          (res, flg) \<leftarrow>
            (if cnt > 0 then
             do {
               b \<leftarrow> c_shl 1 (cnt - 1);
               let cf = (ucast d) AND b;
               x \<leftarrow> c_shr (ucast d) cnt;
               y \<leftarrow> c_shl (ucast fill) (16 - cnt);
               let res = x OR y;
               let flg = CONDITIONAL_SET_FLAG (cf \<noteq> 0) F_CF flg;
               let flg = CONDITIONAL_SET_FLAG (res AND 0xffff = 0) F_ZF flg;
               let flg = CONDITIONAL_SET_FLAG (res AND 0x8000 \<noteq> 0) F_SF flg;
               let flg = CONDITIONAL_SET_FLAG (PARITY (res AND 0xff)) F_PF flg;
               Some (res, flg)
             }
             else Some ((ucast d), flg));
          let flg = (if cnt = 1 then CONDITIONAL_SET_FLAG (XOR2 (drop_bit 14 res) \<noteq> 0) F_OF flg
            else CLEAR_FLAG F_OF flg);
          Some (ucast res, flg)
        }
      else
        do {
          let flg = CLEAR_FLAG F_CF flg;
          let flg = CLEAR_FLAG F_OF flg;
          let flg = SET_FLAG F_ZF flg;
          let flg = CLEAR_FLAG F_SF flg;
          let flg = CLEAR_FLAG F_PF flg;
          Some (0, flg)
        })"

definition shrd_long :: "u32 \<Rightarrow> u32 \<Rightarrow> u8 \<Rightarrow> u32 \<Rightarrow> (u32 \<times> u32) option" where
  "shrd_long d fill s flg =
     (if s < 32 then
        do {
          let cnt = ucast s mod 32;
          (res, flg) \<leftarrow>
            (if cnt > 0 then
             do {
               b \<leftarrow> c_shl 1 (cnt - 1);
               let cf = d AND b;
               x \<leftarrow> c_shr d cnt;
               y \<leftarrow> c_shl fill (32 - cnt);
               let res = x OR y;
               let flg = CONDITIONAL_SET_FLAG (cf \<noteq> 0) F_CF flg;
               let flg = CONDITIONAL_SET_FLAG (res AND 0xffffffff = 0) F_ZF flg;
               let flg = CONDITIONAL_SET_FLAG (res AND 0x80000000 \<noteq> 0) F_SF flg;
               let flg = CONDITIONAL_SET_FLAG (PARITY (res AND 0xff)) F_PF flg;
               Some (res, flg)
             }
             else Some (d, flg));
          let flg = (if cnt = 1 then CONDITIONAL_SET_FLAG (XOR2 (drop_bit 30 res) \<noteq> 0) F_OF flg
            else CLEAR_FLAG F_OF flg);
          Some (res, flg)
        }
      else
        do {
          let flg = CLEAR_FLAG F_CF flg;
          let flg = CLEAR_FLAG F_OF flg;
          let flg = SET_FLAG F_ZF flg;
          let flg = CLEAR_FLAG F_SF flg;
          let flg = CLEAR_FLAG F_PF flg;
          Some (0, flg)
        })"


section \<open>Shift counts\<close>

lemma c_shl_nat: "unat n < 32 \<Longrightarrow> c_shl x n = Some (push_bit (unat n) x)"
  by (simp add: c_shl_def word_less_nat_alt)

lemma c_shr_nat: "unat n < 32 \<Longrightarrow> c_shr x n = Some (drop_bit (unat n) x)"
  by (simp add: c_shr_def word_less_nat_alt)

lemma shift_by:
  assumes "unat n = k" "k < 32"
  shows "c_shl x n = Some (push_bit k x)" "c_shr x n = Some (drop_bit k x)"
  using assms c_shl_nat [of n x] c_shr_nat [of n x] by simp_all

lemma shift_diff:
  assumes "unat n = k" "k \<le> unat m" "unat m - k < 32"
  shows "c_shl x (m - n) = Some (push_bit (unat m - k) x)" "c_shr x (m - n) = Some (drop_bit (unat m - k) x)"
proof -
  have "unat (m - n) = unat m - k" using assms by (simp add: unat_sub word_le_nat_alt)
  then show "c_shl x (m - n) = Some (push_bit (unat m - k) x)" "c_shr x (m - n) = Some (drop_bit (unat m - k) x)"
    using shift_by assms(3) by blast+
qed

lemma shift_pred:
  assumes "unat n = k" "0 < k" "k \<le> 32"
  shows "c_shl x (n - 1) = Some (push_bit (k - 1) x)" "c_shr x (n - 1) = Some (drop_bit (k - 1) x)"
proof -
  have "unat (n - 1) = k - 1" using assms by (simp add: unat_sub word_le_nat_alt)
  then show "c_shl x (n - 1) = Some (push_bit (k - 1) x)" "c_shr x (n - 1) = Some (drop_bit (k - 1) x)"
    using shift_by assms(2,3) by auto
qed

lemma unat_count: "unat (ucast (s :: u8) mod m :: u32) = unat s mod unat m"
  by (simp add: unat_mod unat_up)

lemma exp_mask: "2 ^ n - 1 = (mask n :: 'a::len word)"
  by (simp add: mask_eq_exp_minus_1)

lemma XOR2_pair: "XOR2 ((y AND 1) + (z AND 2)) \<noteq> 0 \<longleftrightarrow> bit y 0 \<noteq> bit z 1"
proof -
  have d: "bit (2 :: u32) j \<longleftrightarrow> j = 1" for j using bit_exp_iff [of 1 j, where 'a = u32] by auto
  have "(y AND 1) + (z AND 2) = (y AND 1) OR (z AND 2)"
    by (rule disjunctive_add_eq_or) (rule bit_eqI, auto simp: bit_simps d)
  then show ?thesis using XOR2_iff [of 0 "(y AND 1) + (z AND 2)"] by (simp add: bit_simps d)
qed

section \<open>Rotations\<close>

text \<open>\<open>rotated m k old new\<close>: the \<open>m\<close> bits of \<open>new\<close> are those of \<open>old\<close>, moved up by \<open>k\<close> positions in a cycle.\<close>

definition rotated :: "nat \<Rightarrow> nat \<Rightarrow> (nat \<Rightarrow> bool) \<Rightarrow> (nat \<Rightarrow> bool) \<Rightarrow> bool" where
  "rotated m k old new \<longleftrightarrow> (\<forall>i<m. new ((i + k) mod m) = old i)"

text \<open>The bits of an operand with the carry flag in front of its most significant bit.\<close>

definition with_carry :: "'a::len word \<Rightarrow> u32 \<Rightarrow> nat \<Rightarrow> bool" where
  "with_carry w flg i = (if i = LENGTH('a) then on F_CF flg else bit w i)"

lemma rotated_0: "rotated m 0 f f"
  by (simp add: rotated_def)

lemma rotatedI:
  assumes "k \<le> m" "\<And>i. i + k < m \<Longrightarrow> new (i + k) = old i" "\<And>i. i < m \<Longrightarrow> m \<le> i + k \<Longrightarrow> new (i + k - m) = old i"
  shows "rotated m k old new"
  unfolding rotated_def
proof (intro allI impI)
  fix i assume "i < m"
  then show "new ((i + k) mod m) = old i"
    using assms by (cases "i + k < m") (auto simp: mod_if)
qed

lemma rcl_bits:
  fixes d :: "'a::len word"
  defines "w \<equiv> LENGTH('a)"
  assumes w: "w \<le> 32" and n: "0 < n" "n \<le> w"
    and res: "res = (push_bit n (ucast d) AND mask w) OR (drop_bit (w + 1 - n) (ucast d) AND mask (n - 1)) OR (if c then push_bit (n - 1) 1 else 0 :: u32)"
    and f: "on F_CF flg = c" "on F_CF flg' = bit d (w - n)"
  shows "rotated (w + 1) n (with_carry d flg) (with_carry (ucast res :: 'a word) flg')"
proof (rule rotatedI)
  have bits: "i < w \<Longrightarrow> bit (ucast res :: 'a word) i = (if n \<le> i then bit d (i - n) else if i = n - 1 then c else bit d (Suc (w + i) - n))" for i
    using w n unfolding res w_def by (auto simp: bit_simps)
  show "with_carry (ucast res :: 'a word) flg' (i + n) = with_carry d flg i" if "i + n < w + 1" for i
  proof (cases "i + n = w")
    case True
    then have "w - n = i" "i \<noteq> w" using n by simp_all
    then show ?thesis using True f by (simp add: with_carry_def w_def [symmetric])
  next
    case False
    then show ?thesis using that bits [of "i + n"] n by (simp add: with_carry_def w_def [symmetric])
  qed
  show "with_carry (ucast res :: 'a word) flg' (i + n - (w + 1)) = with_carry d flg i" if "i < w + 1" "w + 1 \<le> i + n" for i
    using that bits [of "i + n - (w + 1)"] f n by (auto simp: with_carry_def w_def)
qed (use n in simp)

lemma rcr_bits:
  fixes d :: "'a::len word"
  defines "w \<equiv> LENGTH('a)"
  assumes w: "w \<le> 32" and n: "0 < n" "n \<le> w"
    and res: "res = (drop_bit n (ucast d) AND mask (w - n)) OR push_bit (w + 1 - n) (ucast d) OR (if c then push_bit (w - n) 1 else 0 :: u32)"
    and f: "on F_CF flg = c" "on F_CF flg' = bit d (n - 1)"
  shows "rotated (w + 1) n (with_carry (ucast res :: 'a word) flg') (with_carry d flg)"
proof (rule rotatedI)
  have bits: "i < w \<Longrightarrow> bit (ucast res :: 'a word) i = (if i + n < w then bit d (n + i) else if i + n = w then c else bit d (i - (Suc w - n)))" for i
    using w n unfolding res w_def by (auto simp: bit_simps)
  show "with_carry d flg (i + n) = with_carry (ucast res :: 'a word) flg' i" if "i + n < w + 1" for i
    using that bits [of i] f n by (auto simp: with_carry_def w_def add.commute)
  show "with_carry d flg (i + n - (w + 1)) = with_carry (ucast res :: 'a word) flg' i" if "i < w + 1" "w + 1 \<le> i + n" for i
    using that bits [of i] f n by (auto simp: with_carry_def w_def)
qed (use n in simp)

lemma rol_bits:
  fixes d :: "'a::len word"
  defines "w \<equiv> LENGTH('a)"
  assumes w: "w \<le> 32" and n: "0 < n" "n < w"
    and res: "res = push_bit n (ucast d) OR (drop_bit (w - n) (ucast d) AND mask n :: u32)"
  shows "rotated w n (bit d) (bit (ucast res :: 'a word))"
proof (rule rotatedI)
  have bits: "i < w \<Longrightarrow> bit (ucast res :: 'a word) i = (if n \<le> i then bit d (i - n) else bit d (w - n + i))" for i
    using w n unfolding res w_def by (auto simp: bit_simps)
  show "bit (ucast res :: 'a word) (i + n) = bit d i" if "i + n < w" for i
    using that bits [of "i + n"] by simp
  show "bit (ucast res :: 'a word) (i + n - w) = bit d i" if "i < w" "w \<le> i + n" for i
  proof -
    have "\<not> n \<le> i + n - w" "w - n + (i + n - w) = i" "i + n - w < w" using that n by linarith+
    then show ?thesis using bits [of "i + n - w"] by simp
  qed
qed (use n in simp)

lemma ror_bits:
  fixes d :: "'a::len word"
  defines "w \<equiv> LENGTH('a)"
  assumes w: "w \<le> 32" and n: "0 < n" "n < w"
    and res: "res = push_bit (w - n) (ucast d) OR (drop_bit n (ucast d) AND mask (w - n) :: u32)"
  shows "rotated w n (bit (ucast res :: 'a word)) (bit d)"
proof (rule rotatedI)
  have bits: "i < w \<Longrightarrow> bit (ucast res :: 'a word) i = (if i + n < w then bit d (n + i) else bit d (i - (w - n)))" for i
    using w n unfolding res w_def by (auto simp: bit_simps)
  show "bit d (i + n) = bit (ucast res :: 'a word) i" if "i + n < w" for i
    using that bits [of i] by (simp add: add.commute)
  show "bit d (i + n - w) = bit (ucast res :: 'a word) i" if "i < w" "w \<le> i + n" for i
    using that bits [of i] n by simp
qed (use n in simp)

lemma full_masks: "(0xff :: u32) = mask 8" "(0xffff :: u32) = mask 16" "(0xffffffff :: u32) = mask 32"
  by (simp_all add: mask_eq_exp_minus_1)

lemma or_if: "(if c then x OR b else x) = x OR (if c then b else 0)" for x :: "'a::len word"
  by simp

lemma and_one_iff: "(x :: u32) AND 1 \<noteq> 0 \<longleftrightarrow> bit x 0"
  using and_bit_test(1) [of x] by simp

lemma rcl_byte_step:
  fixes s :: u8
  assumes "unat s mod 9 = n" "0 < n"
  shows "rcl_byte d s flg =
    (let cf = drop_bit (8 - n) (ucast d) AND 1;
         res = (push_bit n (ucast d) AND mask 8) OR (drop_bit (9 - n) (ucast d) AND mask (n - 1)) OR (if on F_CF flg then push_bit (n - 1) 1 else 0)
     in Some (ucast res, CONDITIONAL_SET_FLAG (n = 1 \<and> XOR2 (cf + (drop_bit 6 res AND 2)) \<noteq> 0) F_OF (CONDITIONAL_SET_FLAG (cf \<noteq> 0) F_CF flg)))"
proof -
  define cnt where "cnt = (ucast s mod 9 :: u32)"
  have n: "unat cnt = n" "n \<le> 8" using assms(1) mod_less_divisor [of 9 "unat s"] by (simp_all add: cnt_def unat_count)
  have c: "cnt \<noteq> 0" "cnt = 1 \<longleftrightarrow> n = 1" using n assms(2) by (auto simp: word_unat_eq_iff)
  note sh = shift_by [OF n(1)] shift_pred [OF n(1)] shift_diff [OF n(1), of 8] shift_diff [OF n(1), of 9]
  show ?thesis
    unfolding rcl_byte_def cnt_def [symmetric] on_def [symmetric] or_if full_masks
    using n c assms(2-) by (simp add: sh Let_def exp_mask or.assoc)
qed

lemma rcl_word_step:
  fixes s :: u8
  assumes "unat s mod 17 = n" "0 < n"
  shows "rcl_word d s flg =
    (let cf = drop_bit (16 - n) (ucast d) AND 1;
         res = (push_bit n (ucast d) AND mask 16) OR (drop_bit (17 - n) (ucast d) AND mask (n - 1)) OR (if on F_CF flg then push_bit (n - 1) 1 else 0)
     in Some (ucast res, CONDITIONAL_SET_FLAG (n = 1 \<and> XOR2 (cf + (drop_bit 14 res AND 2)) \<noteq> 0) F_OF (CONDITIONAL_SET_FLAG (cf \<noteq> 0) F_CF flg)))"
proof -
  define cnt where "cnt = (ucast s mod 17 :: u32)"
  have n: "unat cnt = n" "n \<le> 16" using assms(1) mod_less_divisor [of 17 "unat s"] by (simp_all add: cnt_def unat_count)
  have c: "cnt \<noteq> 0" "cnt = 1 \<longleftrightarrow> n = 1" using n assms(2) by (auto simp: word_unat_eq_iff)
  note sh = shift_by [OF n(1)] shift_pred [OF n(1)] shift_diff [OF n(1), of 16] shift_diff [OF n(1), of 17]
  show ?thesis
    unfolding rcl_word_def cnt_def [symmetric] on_def [symmetric] or_if full_masks
    using n c assms(2-) by (simp add: sh Let_def exp_mask or.assoc)
qed

lemma rcl_long_step:
  fixes s :: u8
  assumes "unat s mod 33 = n" "1 < n" "n < 32"
  shows "rcl_long d s flg =
    (let cf = drop_bit (32 - n) d AND 1;
         res = (push_bit n d AND mask 32) OR (drop_bit (33 - n) d AND mask (n - 1)) OR (if on F_CF flg then push_bit (n - 1) 1 else 0)
     in Some (res, CONDITIONAL_SET_FLAG (n = 1 \<and> XOR2 (cf + (drop_bit 30 res AND 2)) \<noteq> 0) F_OF (CONDITIONAL_SET_FLAG (cf \<noteq> 0) F_CF flg)))"
proof -
  define cnt where "cnt = (ucast s mod 33 :: u32)"
  have n: "unat cnt = n" "n \<le> 32" using assms(1) mod_less_divisor [of 33 "unat s"] by (simp_all add: cnt_def unat_count)
  have c: "cnt \<noteq> 0" "cnt = 1 \<longleftrightarrow> n = 1" using n assms(2) by (auto simp: word_unat_eq_iff)
  note sh = shift_by [OF n(1)] shift_pred [OF n(1)] shift_diff [OF n(1), of 32] shift_diff [OF n(1), of 33]
  show ?thesis
    unfolding rcl_long_def cnt_def [symmetric] on_def [symmetric] or_if full_masks
    using n c assms(2-) by (simp add: sh Let_def exp_mask or.assoc)
qed

lemma rcl_byte_ok:
  fixes s :: u8
  shows "\<exists>r flg'. rcl_byte d s flg = Some (r, flg') \<and> rotated 9 (unat s mod 9) (with_carry d flg) (with_carry r flg') \<and>
    (unat s mod 9 = 1 \<longrightarrow> on F_OF flg' = (bit r 7 \<noteq> on F_CF flg')) \<and> same_flags F_ARITH flg flg'"
proof (cases "unat s mod 9 = 0")
  case True
  then have "(ucast s mod 9 :: u32) = 0" by (simp add: unat_count word_unat_eq_iff)
  then show ?thesis using True by (simp add: rcl_byte_def rotated_0)
next
  case False
  define n where "n = unat s mod 9"
  have n: "0 < n" "n \<le> 8" using False mod_less_divisor [of 9 "unat s"] by (simp_all add: n_def)
  define cf where "cf = (drop_bit (8 - n) (ucast d) AND 1 :: u32)"
  define res where "res = ((push_bit n (ucast d) AND mask 8) OR (drop_bit (9 - n) (ucast d) AND mask (n - 1)) OR (if on F_CF flg then push_bit (n - 1) 1 else 0) :: u32)"
  define flg' where "flg' = CONDITIONAL_SET_FLAG (n = 1 \<and> XOR2 (cf + (drop_bit 6 res AND 2)) \<noteq> 0) F_OF (CONDITIONAL_SET_FLAG (cf \<noteq> 0) F_CF flg)"
  have "rcl_byte d s flg = Some (ucast res, flg')"
    using rcl_byte_step [of s n d flg] n by (simp add: n_def [symmetric] cf_def res_def flg'_def Let_def)
  moreover have "on F_CF flg' = bit d (8 - n)"
    using n less_imp_diff_less [of 8 33 n] by (auto simp: flg'_def on_bit bit_cond cf_def and_one_iff bit_simps)
  moreover have "on F_OF flg' = (bit res 7 \<noteq> bit d (8 - n))" if "n = 1"
    using that by (auto simp: flg'_def on_bit bit_cond cf_def XOR2_pair bit_simps)
  moreover have "same_flags F_ARITH flg flg'" by (simp add: flg'_def same_flags_cond)
  ultimately show ?thesis
    using rcl_bits [where d = d and n = n and res = res and c = "on F_CF flg" and flg = flg and flg' = flg'] n res_def by (simp add: n_def [symmetric] bit_ucast_iff)
qed

lemma rcl_word_ok:
  fixes s :: u8
  shows "\<exists>r flg'. rcl_word d s flg = Some (r, flg') \<and> rotated 17 (unat s mod 17) (with_carry d flg) (with_carry r flg') \<and>
    (unat s mod 17 = 1 \<longrightarrow> on F_OF flg' = (bit r 15 \<noteq> on F_CF flg')) \<and> same_flags F_ARITH flg flg'"
proof (cases "unat s mod 17 = 0")
  case True
  then have "(ucast s mod 17 :: u32) = 0" by (simp add: unat_count word_unat_eq_iff)
  then show ?thesis using True by (simp add: rcl_word_def rotated_0)
next
  case False
  define n where "n = unat s mod 17"
  have n: "0 < n" "n \<le> 16" using False mod_less_divisor [of 17 "unat s"] by (simp_all add: n_def)
  define cf where "cf = (drop_bit (16 - n) (ucast d) AND 1 :: u32)"
  define res where "res = ((push_bit n (ucast d) AND mask 16) OR (drop_bit (17 - n) (ucast d) AND mask (n - 1)) OR (if on F_CF flg then push_bit (n - 1) 1 else 0) :: u32)"
  define flg' where "flg' = CONDITIONAL_SET_FLAG (n = 1 \<and> XOR2 (cf + (drop_bit 14 res AND 2)) \<noteq> 0) F_OF (CONDITIONAL_SET_FLAG (cf \<noteq> 0) F_CF flg)"
  have "rcl_word d s flg = Some (ucast res, flg')"
    using rcl_word_step [of s n d flg] n by (simp add: n_def [symmetric] cf_def res_def flg'_def Let_def)
  moreover have "on F_CF flg' = bit d (16 - n)"
    using n less_imp_diff_less [of 16 33 n] by (auto simp: flg'_def on_bit bit_cond cf_def and_one_iff bit_simps)
  moreover have "on F_OF flg' = (bit res 15 \<noteq> bit d (16 - n))" if "n = 1"
    using that by (auto simp: flg'_def on_bit bit_cond cf_def XOR2_pair bit_simps)
  moreover have "same_flags F_ARITH flg flg'" by (simp add: flg'_def same_flags_cond)
  ultimately show ?thesis
    using rcl_bits [where d = d and n = n and res = res and c = "on F_CF flg" and flg = flg and flg' = flg'] n res_def by (simp add: n_def [symmetric] bit_ucast_iff)
qed

lemma rcl_long_ok:
  fixes s :: u8
  assumes "unat s mod 33 \<notin> {1, 32}"
  shows "\<exists>r flg'. rcl_long d s flg = Some (r, flg') \<and> rotated 33 (unat s mod 33) (with_carry d flg) (with_carry r flg') \<and>
    (unat s mod 33 = 1 \<longrightarrow> on F_OF flg' = (bit r 31 \<noteq> on F_CF flg')) \<and> same_flags F_ARITH flg flg'"
proof (cases "unat s mod 33 = 0")
  case True
  then have "(ucast s mod 33 :: u32) = 0" by (simp add: unat_count word_unat_eq_iff)
  then show ?thesis using True by (simp add: rcl_long_def rotated_0)
next
  case False
  define n where "n = unat s mod 33"
  have n: "0 < n" "n \<le> 32" using False mod_less_divisor [of 33 "unat s"] by (simp_all add: n_def)
  define cf where "cf = (drop_bit (32 - n) d AND 1 :: u32)"
  define res where "res = ((push_bit n d AND mask 32) OR (drop_bit (33 - n) d AND mask (n - 1)) OR (if on F_CF flg then push_bit (n - 1) 1 else 0) :: u32)"
  define flg' where "flg' = CONDITIONAL_SET_FLAG (n = 1 \<and> XOR2 (cf + (drop_bit 30 res AND 2)) \<noteq> 0) F_OF (CONDITIONAL_SET_FLAG (cf \<noteq> 0) F_CF flg)"
  have "rcl_long d s flg = Some (res, flg')"
    using rcl_long_step [of s n d flg] n assms by (auto simp: n_def [symmetric] cf_def res_def flg'_def Let_def)
  moreover have "on F_CF flg' = bit d (32 - n)"
    using n less_imp_diff_less [of 32 33 n] by (auto simp: flg'_def on_bit bit_cond cf_def and_one_iff bit_simps)
  moreover have "on F_OF flg' = (bit res 31 \<noteq> bit d (32 - n))" if "n = 1"
    using that by (auto simp: flg'_def on_bit bit_cond cf_def XOR2_pair bit_simps)
  moreover have "same_flags F_ARITH flg flg'" by (simp add: flg'_def same_flags_cond)
  ultimately show ?thesis
    using rcl_bits [where d = d and n = n and res = res and c = "on F_CF flg" and flg = flg and flg' = flg'] n res_def by (simp add: n_def [symmetric] bit_ucast_iff)
qed

lemma XOR2_carry: "XOR2 (of_bool c + (z AND 2)) \<noteq> 0 \<longleftrightarrow> c \<noteq> bit z 1"
  using XOR2_pair [of "of_bool c" z] by (cases c) simp_all

lemma push_32: "push_bit 32 (x :: u32) = 0"
  by (rule bit_eqI) (auto simp: bit_simps)

lemma rcr_byte_step:
  fixes s :: u8
  assumes "unat s mod 9 = n" "0 < n"
  shows "rcr_byte d s flg =
    (let cf = (drop_bit (n - 1) (ucast d) AND 1 :: u32); res = ((drop_bit n (ucast d) AND mask (8 - n)) OR push_bit (9 - n) (ucast d) OR (if on F_CF flg then push_bit (8 - n) 1 else 0) :: u32)
     in Some (ucast res, (let f = CONDITIONAL_SET_FLAG (cf \<noteq> 0) F_CF flg in
       if n = 1 then CONDITIONAL_SET_FLAG (XOR2 (of_bool (on F_CF flg) + (drop_bit 6 (ucast d) AND 2)) \<noteq> 0) F_OF f else f)))"
proof -
  define cnt where "cnt = (ucast s mod 9 :: u32)"
  have n: "unat cnt = n" "n \<le> 8" using assms(1) mod_less_divisor [of 9 "unat s"] by (simp_all add: cnt_def unat_count)
  have c: "cnt \<noteq> 0" "cnt = 1 \<longleftrightarrow> n = 1" using n assms(2) by (auto simp: word_unat_eq_iff)
  note sh = shift_by [OF n(1)] shift_pred [OF n(1)] shift_diff [OF n(1), of 8] shift_diff [OF n(1), of 9]
  show ?thesis
  proof (cases "n = 1")
    case True
    then show ?thesis
      unfolding rcr_byte_def cnt_def [symmetric] on_def [symmetric] or_if
      using c by (simp add: c_shl_def c_shr_def Let_def mask_eq_exp_minus_1 or.assoc)
  next
    case False
    then show ?thesis
      unfolding rcr_byte_def cnt_def [symmetric] on_def [symmetric] or_if
      using n c assms(2-) by (simp add: sh Let_def exp_mask or.assoc)
  qed
qed

lemma rcr_byte_ok:
  fixes s :: u8
  shows "\<exists>r flg'. rcr_byte d s flg = Some (r, flg') \<and> rotated 9 (unat s mod 9) (with_carry r flg') (with_carry d flg) \<and>
    (unat s mod 9 = 1 \<longrightarrow> on F_OF flg' = (bit r 7 \<noteq> bit r 6)) \<and> same_flags F_ARITH flg flg'"
proof (cases "unat s mod 9 = 0")
  case True
  then have "(ucast s mod 9 :: u32) = 0" by (simp add: unat_count word_unat_eq_iff)
  then show ?thesis using True by (simp add: rcr_byte_def rotated_0)
next
  case False
  define n where "n = unat s mod 9"
  have n: "0 < n" "n \<le> 8" using False mod_less_divisor [of 9 "unat s"] by (simp_all add: n_def)
  define cf where "cf = (drop_bit (n - 1) (ucast d) AND 1 :: u32)"
  define res where "res = ((drop_bit n (ucast d) AND mask (8 - n)) OR push_bit (9 - n) (ucast d) OR (if on F_CF flg then push_bit (8 - n) 1 else 0) :: u32)"
  define flg' where "flg' = (let f = CONDITIONAL_SET_FLAG (cf \<noteq> 0) F_CF flg in
       if n = 1 then CONDITIONAL_SET_FLAG (XOR2 (of_bool (on F_CF flg) + (drop_bit 6 (ucast d) AND 2)) \<noteq> 0) F_OF f else f)"
  have "rcr_byte d s flg = Some (ucast res, flg')"
    using rcr_byte_step [of s n d flg] n by (simp add: n_def [symmetric] cf_def res_def flg'_def Let_def)
  moreover have cf: "on F_CF flg' = bit d (n - 1)"
    using n by (auto simp: flg'_def on_bit bit_cond cf_def and_one_iff bit_simps Let_def)
  moreover have "on F_OF flg' = (bit res 7 \<noteq> bit res 6)" if "n = 1"
    using that by (auto simp: flg'_def res_def Let_def on_bit bit_cond XOR2_carry bit_simps)
  moreover have "same_flags F_ARITH flg flg'" by (simp add: flg'_def same_flags_cond Let_def)
  moreover have "rotated (LENGTH(8) + 1) n (with_carry (ucast res :: u8) flg') (with_carry d flg)"
    by (rule rcr_bits [where c = "on F_CF flg"]) (use n cf in \<open>simp_all add: res_def\<close>)
  ultimately show ?thesis by (simp add: n_def [symmetric] bit_ucast_iff)
qed

lemma rcr_word_step:
  fixes s :: u8
  assumes "unat s mod 17 = n" "0 < n"
  shows "rcr_word d s flg =
    (let cf = (drop_bit (n - 1) (ucast d) AND 1 :: u32); res = ((drop_bit n (ucast d) AND mask (16 - n)) OR push_bit (17 - n) (ucast d) OR (if on F_CF flg then push_bit (16 - n) 1 else 0) :: u32)
     in Some (ucast res, (let f = CONDITIONAL_SET_FLAG (cf \<noteq> 0) F_CF flg in
       if n = 1 then CONDITIONAL_SET_FLAG (XOR2 (of_bool (on F_CF flg) + (drop_bit 14 (ucast d) AND 2)) \<noteq> 0) F_OF f else f)))"
proof -
  define cnt where "cnt = (ucast s mod 17 :: u32)"
  have n: "unat cnt = n" "n \<le> 16" using assms(1) mod_less_divisor [of 17 "unat s"] by (simp_all add: cnt_def unat_count)
  have c: "cnt \<noteq> 0" "cnt = 1 \<longleftrightarrow> n = 1" using n assms(2) by (auto simp: word_unat_eq_iff)
  note sh = shift_by [OF n(1)] shift_pred [OF n(1)] shift_diff [OF n(1), of 16] shift_diff [OF n(1), of 17]
  show ?thesis
  proof (cases "n = 1")
    case True
    then show ?thesis
      unfolding rcr_word_def cnt_def [symmetric] on_def [symmetric] or_if
      using c by (simp add: c_shl_def c_shr_def Let_def mask_eq_exp_minus_1 or.assoc)
  next
    case False
    then show ?thesis
      unfolding rcr_word_def cnt_def [symmetric] on_def [symmetric] or_if
      using n c assms(2-) by (simp add: sh Let_def exp_mask or.assoc)
  qed
qed

lemma rcr_word_ok:
  fixes s :: u8
  shows "\<exists>r flg'. rcr_word d s flg = Some (r, flg') \<and> rotated 17 (unat s mod 17) (with_carry r flg') (with_carry d flg) \<and>
    (unat s mod 17 = 1 \<longrightarrow> on F_OF flg' = (bit r 15 \<noteq> bit r 14)) \<and> same_flags F_ARITH flg flg'"
proof (cases "unat s mod 17 = 0")
  case True
  then have "(ucast s mod 17 :: u32) = 0" by (simp add: unat_count word_unat_eq_iff)
  then show ?thesis using True by (simp add: rcr_word_def rotated_0)
next
  case False
  define n where "n = unat s mod 17"
  have n: "0 < n" "n \<le> 16" using False mod_less_divisor [of 17 "unat s"] by (simp_all add: n_def)
  define cf where "cf = (drop_bit (n - 1) (ucast d) AND 1 :: u32)"
  define res where "res = ((drop_bit n (ucast d) AND mask (16 - n)) OR push_bit (17 - n) (ucast d) OR (if on F_CF flg then push_bit (16 - n) 1 else 0) :: u32)"
  define flg' where "flg' = (let f = CONDITIONAL_SET_FLAG (cf \<noteq> 0) F_CF flg in
       if n = 1 then CONDITIONAL_SET_FLAG (XOR2 (of_bool (on F_CF flg) + (drop_bit 14 (ucast d) AND 2)) \<noteq> 0) F_OF f else f)"
  have "rcr_word d s flg = Some (ucast res, flg')"
    using rcr_word_step [of s n d flg] n by (simp add: n_def [symmetric] cf_def res_def flg'_def Let_def)
  moreover have cf: "on F_CF flg' = bit d (n - 1)"
    using n by (auto simp: flg'_def on_bit bit_cond cf_def and_one_iff bit_simps Let_def)
  moreover have "on F_OF flg' = (bit res 15 \<noteq> bit res 14)" if "n = 1"
    using that by (auto simp: flg'_def res_def Let_def on_bit bit_cond XOR2_carry bit_simps)
  moreover have "same_flags F_ARITH flg flg'" by (simp add: flg'_def same_flags_cond Let_def)
  moreover have "rotated (LENGTH(16) + 1) n (with_carry (ucast res :: u16) flg') (with_carry d flg)"
    by (rule rcr_bits [where c = "on F_CF flg"]) (use n cf in \<open>simp_all add: res_def\<close>)
  ultimately show ?thesis by (simp add: n_def [symmetric] bit_ucast_iff)
qed

lemma rcr_long_step:
  fixes s :: u8
  assumes "unat s mod 33 = n" "0 < n" "n < 32"
  shows "rcr_long d s flg =
    (let cf = (drop_bit (n - 1) d AND 1 :: u32); res = ((drop_bit n d AND mask (32 - n)) OR push_bit (33 - n) d OR (if on F_CF flg then push_bit (32 - n) 1 else 0) :: u32)
     in Some (res, (let f = CONDITIONAL_SET_FLAG (cf \<noteq> 0) F_CF flg in
       if n = 1 then CONDITIONAL_SET_FLAG (XOR2 (of_bool (on F_CF flg) + (drop_bit 30 d AND 2)) \<noteq> 0) F_OF f else f)))"
proof -
  define cnt where "cnt = (ucast s mod 33 :: u32)"
  have n: "unat cnt = n" "n \<le> 32" using assms(1) mod_less_divisor [of 33 "unat s"] by (simp_all add: cnt_def unat_count)
  have c: "cnt \<noteq> 0" "cnt = 1 \<longleftrightarrow> n = 1" using n assms(2) by (auto simp: word_unat_eq_iff)
  note sh = shift_by [OF n(1)] shift_pred [OF n(1)] shift_diff [OF n(1), of 32] shift_diff [OF n(1), of 33]
  show ?thesis
  proof (cases "n = 1")
    case True
    then show ?thesis
      unfolding rcr_long_def cnt_def [symmetric] on_def [symmetric] or_if
      using c by (simp add: c_shl_def c_shr_def Let_def mask_eq_exp_minus_1 or.assoc push_32)
  next
    case False
    then show ?thesis
      unfolding rcr_long_def cnt_def [symmetric] on_def [symmetric] or_if
      using n c assms(2-) by (simp add: sh Let_def exp_mask or.assoc)
  qed
qed

lemma rcr_long_ok:
  fixes s :: u8
  assumes "unat s mod 33 \<noteq> 32"
  shows "\<exists>r flg'. rcr_long d s flg = Some (r, flg') \<and> rotated 33 (unat s mod 33) (with_carry r flg') (with_carry d flg) \<and>
    (unat s mod 33 = 1 \<longrightarrow> on F_OF flg' = (bit r 31 \<noteq> bit r 30)) \<and> same_flags F_ARITH flg flg'"
proof (cases "unat s mod 33 = 0")
  case True
  then have "(ucast s mod 33 :: u32) = 0" by (simp add: unat_count word_unat_eq_iff)
  then show ?thesis using True by (simp add: rcr_long_def rotated_0)
next
  case False
  define n where "n = unat s mod 33"
  have n: "0 < n" "n \<le> 32" using False mod_less_divisor [of 33 "unat s"] by (simp_all add: n_def)
  define cf where "cf = (drop_bit (n - 1) d AND 1 :: u32)"
  define res where "res = ((drop_bit n d AND mask (32 - n)) OR push_bit (33 - n) d OR (if on F_CF flg then push_bit (32 - n) 1 else 0) :: u32)"
  define flg' where "flg' = (let f = CONDITIONAL_SET_FLAG (cf \<noteq> 0) F_CF flg in
       if n = 1 then CONDITIONAL_SET_FLAG (XOR2 (of_bool (on F_CF flg) + (drop_bit 30 d AND 2)) \<noteq> 0) F_OF f else f)"
  have "rcr_long d s flg = Some (res, flg')"
    using rcr_long_step [of s n d flg] n assms by (simp add: n_def [symmetric] cf_def res_def flg'_def Let_def)
  moreover have cf: "on F_CF flg' = bit d (n - 1)"
    using n by (auto simp: flg'_def on_bit bit_cond cf_def and_one_iff bit_simps Let_def)
  moreover have "on F_OF flg' = (bit res 31 \<noteq> bit res 30)" if "n = 1"
    using that by (auto simp: flg'_def res_def Let_def on_bit bit_cond XOR2_carry bit_simps)
  moreover have "same_flags F_ARITH flg flg'" by (simp add: flg'_def same_flags_cond Let_def)
  moreover have "rotated (LENGTH(32) + 1) n (with_carry (ucast res :: u32) flg') (with_carry d flg)"
    by (rule rcr_bits [where c = "on F_CF flg"]) (use n cf in \<open>simp_all add: res_def\<close>)
  ultimately show ?thesis by (simp add: n_def [symmetric] bit_ucast_iff)
qed

lemma up_down: "(ucast (ucast (x :: u8) :: u32) :: u8) = x" "(ucast (ucast (y :: u16) :: u32) :: u16) = y"
  by (rule bit_eqI, simp add: bit_simps)+

lemma rol_byte_step:
  fixes s :: u8
  assumes "unat s mod 8 = n" "0 < n"
  shows "rol_byte d s flg = (let res = push_bit n (ucast d) OR (drop_bit (8 - n) (ucast d) AND mask n) in Some (ucast res, CONDITIONAL_SET_FLAG (res AND 1 \<noteq> 0) F_CF (CONDITIONAL_SET_FLAG (s = 1 \<and> XOR2 ((res AND 1) + (drop_bit 6 res AND 2)) \<noteq> 0) F_OF (CONDITIONAL_SET_FLAG (res AND 1 \<noteq> 0) F_CF flg))))"
proof -
  define cnt where "cnt = (ucast s mod 8 :: u32)"
  have n: "unat cnt = n" "n < 8" using assms(1) mod_less_divisor [of 8 "unat s"] by (simp_all add: cnt_def unat_count)
  have c: "cnt \<noteq> 0" "s \<noteq> 0" using n assms by auto
  note sh = shift_by [OF n(1)] shift_diff [OF n(1), of 8]
  show ?thesis
    unfolding rol_byte_def cnt_def [symmetric]
    using n c assms(2) by (simp add: sh Let_def exp_mask)
qed

lemma rol_byte_ok:
  fixes s :: u8
  shows "\<exists>r flg'. rol_byte d s flg = Some (r, flg') \<and> rotated 8 (unat s mod 8) (bit d) (bit r) \<and>
    on F_CF flg' = (if s = 0 then on F_CF flg else bit r 0) \<and> (s = 1 \<longrightarrow> on F_OF flg' = (bit r 7 \<noteq> bit r 0)) \<and>
    same_flags F_ARITH flg flg'"
proof (cases "unat s mod 8 = 0")
  case True
  then have "(ucast s mod 8 :: u32) = 0" "s \<noteq> 1" by (auto simp: unat_count word_unat_eq_iff)
  then show ?thesis using True by (auto simp: rol_byte_def rotated_0 bit_ucast_iff x86_flags up_down)
next
  case False
  define n where "n = unat s mod 8"
  have n: "0 < n" "n < 8" using False mod_less_divisor [of 8 "unat s"] by (simp_all add: n_def)
  have s: "s \<noteq> 0" using False by auto
  define res where "res = (push_bit n (ucast d) OR (drop_bit (8 - n) (ucast d) AND mask n) :: u32)"
  define flg' where "flg' = CONDITIONAL_SET_FLAG (res AND 1 \<noteq> 0) F_CF (CONDITIONAL_SET_FLAG (s = 1 \<and> XOR2 ((res AND 1) + (drop_bit 6 res AND 2)) \<noteq> 0) F_OF (CONDITIONAL_SET_FLAG (res AND 1 \<noteq> 0) F_CF flg))"
  have "rol_byte d s flg = Some (ucast res, flg')"
    using rol_byte_step [of s n d flg] n by (simp add: n_def [symmetric] res_def flg'_def Let_def)
  moreover have "on F_CF flg' = bit res 0"
    by (simp add: flg'_def x86_flags)
  moreover have "on F_OF flg' = (bit res 7 \<noteq> bit res 0)" if "s = 1"
    using that by (auto simp: flg'_def on_bit bit_cond XOR2_pair XOR2_iff bit_simps)
  moreover have "same_flags F_ARITH flg flg'" by (simp add: flg'_def same_flags_cond)
  moreover have "rotated LENGTH(8) n (bit d) (bit (ucast res :: u8))"
    by (rule rol_bits) (use n in \<open>simp_all add: res_def\<close>)
  ultimately show ?thesis using s by (simp add: n_def [symmetric] bit_ucast_iff)
qed

lemma rol_word_step:
  fixes s :: u8
  assumes "unat s mod 16 = n" "0 < n"
  shows "rol_word d s flg = (let res = push_bit n (ucast d) OR (drop_bit (16 - n) (ucast d) AND mask n) in Some (ucast res, CONDITIONAL_SET_FLAG (res AND 1 \<noteq> 0) F_CF (CONDITIONAL_SET_FLAG (s = 1 \<and> XOR2 ((res AND 1) + (drop_bit 14 res AND 2)) \<noteq> 0) F_OF (CONDITIONAL_SET_FLAG (res AND 1 \<noteq> 0) F_CF flg))))"
proof -
  define cnt where "cnt = (ucast s mod 16 :: u32)"
  have n: "unat cnt = n" "n < 16" using assms(1) mod_less_divisor [of 16 "unat s"] by (simp_all add: cnt_def unat_count)
  have c: "cnt \<noteq> 0" "s \<noteq> 0" using n assms by auto
  note sh = shift_by [OF n(1)] shift_diff [OF n(1), of 16]
  show ?thesis
    unfolding rol_word_def cnt_def [symmetric]
    using n c assms(2) by (simp add: sh Let_def exp_mask)
qed

lemma rol_word_ok:
  fixes s :: u8
  shows "\<exists>r flg'. rol_word d s flg = Some (r, flg') \<and> rotated 16 (unat s mod 16) (bit d) (bit r) \<and>
    on F_CF flg' = (if s = 0 then on F_CF flg else bit r 0) \<and> (s = 1 \<longrightarrow> on F_OF flg' = (bit r 15 \<noteq> bit r 0)) \<and>
    same_flags F_ARITH flg flg'"
proof (cases "unat s mod 16 = 0")
  case True
  then have "(ucast s mod 16 :: u32) = 0" "s \<noteq> 1" by (auto simp: unat_count word_unat_eq_iff)
  then show ?thesis using True by (auto simp: rol_word_def rotated_0 bit_ucast_iff x86_flags up_down)
next
  case False
  define n where "n = unat s mod 16"
  have n: "0 < n" "n < 16" using False mod_less_divisor [of 16 "unat s"] by (simp_all add: n_def)
  have s: "s \<noteq> 0" using False by auto
  define res where "res = (push_bit n (ucast d) OR (drop_bit (16 - n) (ucast d) AND mask n) :: u32)"
  define flg' where "flg' = CONDITIONAL_SET_FLAG (res AND 1 \<noteq> 0) F_CF (CONDITIONAL_SET_FLAG (s = 1 \<and> XOR2 ((res AND 1) + (drop_bit 14 res AND 2)) \<noteq> 0) F_OF (CONDITIONAL_SET_FLAG (res AND 1 \<noteq> 0) F_CF flg))"
  have "rol_word d s flg = Some (ucast res, flg')"
    using rol_word_step [of s n d flg] n by (simp add: n_def [symmetric] res_def flg'_def Let_def)
  moreover have "on F_CF flg' = bit res 0"
    by (simp add: flg'_def x86_flags)
  moreover have "on F_OF flg' = (bit res 15 \<noteq> bit res 0)" if "s = 1"
    using that by (auto simp: flg'_def on_bit bit_cond XOR2_pair XOR2_iff bit_simps)
  moreover have "same_flags F_ARITH flg flg'" by (simp add: flg'_def same_flags_cond)
  moreover have "rotated LENGTH(16) n (bit d) (bit (ucast res :: u16))"
    by (rule rol_bits) (use n in \<open>simp_all add: res_def\<close>)
  ultimately show ?thesis using s by (simp add: n_def [symmetric] bit_ucast_iff)
qed

lemma rol_long_step:
  fixes s :: u8
  assumes "unat s mod 32 = n" "0 < n"
  shows "rol_long d s flg = (let res = push_bit n d OR (drop_bit (32 - n) d AND mask n) in Some (res, CONDITIONAL_SET_FLAG (res AND 1 \<noteq> 0) F_CF (CONDITIONAL_SET_FLAG (s = 1 \<and> XOR2 ((res AND 1) + (drop_bit 30 res AND 2)) \<noteq> 0) F_OF (CONDITIONAL_SET_FLAG (res AND 1 \<noteq> 0) F_CF flg))))"
proof -
  define cnt where "cnt = (ucast s mod 32 :: u32)"
  have n: "unat cnt = n" "n < 32" using assms(1) mod_less_divisor [of 32 "unat s"] by (simp_all add: cnt_def unat_count)
  have c: "cnt \<noteq> 0" "s \<noteq> 0" using n assms by auto
  note sh = shift_by [OF n(1)] shift_diff [OF n(1), of 32]
  show ?thesis
    unfolding rol_long_def cnt_def [symmetric]
    using n c assms(2) by (simp add: sh Let_def exp_mask)
qed

lemma rol_long_ok:
  fixes s :: u8
  shows "\<exists>r flg'. rol_long d s flg = Some (r, flg') \<and> rotated 32 (unat s mod 32) (bit d) (bit r) \<and>
    on F_CF flg' = (if s = 0 then on F_CF flg else bit r 0) \<and> (s = 1 \<longrightarrow> on F_OF flg' = (bit r 31 \<noteq> bit r 0)) \<and>
    same_flags F_ARITH flg flg'"
proof (cases "unat s mod 32 = 0")
  case True
  then have "(ucast s mod 32 :: u32) = 0" "s \<noteq> 1" by (auto simp: unat_count word_unat_eq_iff)
  then show ?thesis using True by (auto simp: rol_long_def rotated_0 bit_ucast_iff x86_flags up_down)
next
  case False
  define n where "n = unat s mod 32"
  have n: "0 < n" "n < 32" using False mod_less_divisor [of 32 "unat s"] by (simp_all add: n_def)
  have s: "s \<noteq> 0" using False by auto
  define res where "res = (push_bit n d OR (drop_bit (32 - n) d AND mask n) :: u32)"
  define flg' where "flg' = CONDITIONAL_SET_FLAG (res AND 1 \<noteq> 0) F_CF (CONDITIONAL_SET_FLAG (s = 1 \<and> XOR2 ((res AND 1) + (drop_bit 30 res AND 2)) \<noteq> 0) F_OF (CONDITIONAL_SET_FLAG (res AND 1 \<noteq> 0) F_CF flg))"
  have "rol_long d s flg = Some (res, flg')"
    using rol_long_step [of s n d flg] n by (simp add: n_def [symmetric] res_def flg'_def Let_def)
  moreover have "on F_CF flg' = bit res 0"
    by (simp add: flg'_def x86_flags)
  moreover have "on F_OF flg' = (bit res 31 \<noteq> bit res 0)" if "s = 1"
    using that by (auto simp: flg'_def on_bit bit_cond XOR2_pair XOR2_iff bit_simps)
  moreover have "same_flags F_ARITH flg flg'" by (simp add: flg'_def same_flags_cond)
  moreover have "rotated LENGTH(32) n (bit d) (bit (ucast res :: u32))"
    by (rule rol_bits) (use n in \<open>simp_all add: res_def\<close>)
  ultimately show ?thesis using s by (simp add: n_def [symmetric] bit_ucast_iff)
qed

lemma ror_byte_step:
  fixes s :: u8
  assumes "unat s mod 8 = n" "0 < n"
  shows "ror_byte d s flg = (let res = push_bit (8 - n) (ucast d) OR (drop_bit n (ucast d) AND mask (8 - n)) in Some (ucast res, CONDITIONAL_SET_FLAG (s = 1 \<and> XOR2 (drop_bit 6 res) \<noteq> 0) F_OF (CONDITIONAL_SET_FLAG (res AND 0x80 \<noteq> 0) F_CF flg)))"
proof -
  define cnt where "cnt = (ucast s mod 8 :: u32)"
  have n: "unat cnt = n" "n < 8" using assms(1) mod_less_divisor [of 8 "unat s"] by (simp_all add: cnt_def unat_count)
  have c: "cnt \<noteq> 0" "s \<noteq> 0" using n assms by auto
  note sh = shift_by [OF n(1)] shift_diff [OF n(1), of 8]
  show ?thesis
    unfolding ror_byte_def cnt_def [symmetric]
    using n c assms(2) by (simp add: sh Let_def exp_mask)
qed

lemma ror_byte_ok:
  fixes s :: u8
  shows "\<exists>r flg'. ror_byte d s flg = Some (r, flg') \<and> rotated 8 (unat s mod 8) (bit r) (bit d) \<and>
    on F_CF flg' = (if s = 0 then on F_CF flg else bit r 7) \<and> (s = 1 \<longrightarrow> on F_OF flg' = (bit r 7 \<noteq> bit r 6)) \<and>
    same_flags F_ARITH flg flg'"
proof (cases "unat s mod 8 = 0")
  case True
  then have "(ucast s mod 8 :: u32) = 0" "s \<noteq> 1" by (auto simp: unat_count word_unat_eq_iff)
  then show ?thesis using True by (auto simp: ror_byte_def rotated_0 bit_ucast_iff x86_flags up_down)
next
  case False
  define n where "n = unat s mod 8"
  have n: "0 < n" "n < 8" using False mod_less_divisor [of 8 "unat s"] by (simp_all add: n_def)
  have s: "s \<noteq> 0" using False by auto
  define res where "res = (push_bit (8 - n) (ucast d) OR (drop_bit n (ucast d) AND mask (8 - n)) :: u32)"
  define flg' where "flg' = CONDITIONAL_SET_FLAG (s = 1 \<and> XOR2 (drop_bit 6 res) \<noteq> 0) F_OF (CONDITIONAL_SET_FLAG (res AND 0x80 \<noteq> 0) F_CF flg)"
  have "ror_byte d s flg = Some (ucast res, flg')"
    using ror_byte_step [of s n d flg] n by (simp add: n_def [symmetric] res_def flg'_def Let_def)
  moreover have "on F_CF flg' = bit res 7"
    by (simp add: flg'_def x86_flags)
  moreover have "on F_OF flg' = (bit res 7 \<noteq> bit res 6)" if "s = 1"
    using that by (auto simp: flg'_def on_bit bit_cond XOR2_pair XOR2_iff bit_simps)
  moreover have "same_flags F_ARITH flg flg'" by (simp add: flg'_def same_flags_cond)
  moreover have "rotated LENGTH(8) n (bit (ucast res :: u8)) (bit d)"
    by (rule ror_bits) (use n in \<open>simp_all add: res_def\<close>)
  ultimately show ?thesis using s by (simp add: n_def [symmetric] bit_ucast_iff)
qed

lemma ror_word_step:
  fixes s :: u8
  assumes "unat s mod 16 = n" "0 < n"
  shows "ror_word d s flg = (let res = push_bit (16 - n) (ucast d) OR (drop_bit n (ucast d) AND mask (16 - n)) in Some (ucast res, CONDITIONAL_SET_FLAG (s = 1 \<and> XOR2 (drop_bit 14 res) \<noteq> 0) F_OF (CONDITIONAL_SET_FLAG (res AND 0x8000 \<noteq> 0) F_CF flg)))"
proof -
  define cnt where "cnt = (ucast s mod 16 :: u32)"
  have n: "unat cnt = n" "n < 16" using assms(1) mod_less_divisor [of 16 "unat s"] by (simp_all add: cnt_def unat_count)
  have c: "cnt \<noteq> 0" "s \<noteq> 0" using n assms by auto
  note sh = shift_by [OF n(1)] shift_diff [OF n(1), of 16]
  show ?thesis
    unfolding ror_word_def cnt_def [symmetric]
    using n c assms(2) by (simp add: sh Let_def exp_mask)
qed

lemma ror_word_ok:
  fixes s :: u8
  shows "\<exists>r flg'. ror_word d s flg = Some (r, flg') \<and> rotated 16 (unat s mod 16) (bit r) (bit d) \<and>
    on F_CF flg' = (if s = 0 then on F_CF flg else bit r 15) \<and> (s = 1 \<longrightarrow> on F_OF flg' = (bit r 15 \<noteq> bit r 14)) \<and>
    same_flags F_ARITH flg flg'"
proof (cases "unat s mod 16 = 0")
  case True
  then have "(ucast s mod 16 :: u32) = 0" "s \<noteq> 1" by (auto simp: unat_count word_unat_eq_iff)
  then show ?thesis using True by (auto simp: ror_word_def rotated_0 bit_ucast_iff x86_flags up_down)
next
  case False
  define n where "n = unat s mod 16"
  have n: "0 < n" "n < 16" using False mod_less_divisor [of 16 "unat s"] by (simp_all add: n_def)
  have s: "s \<noteq> 0" using False by auto
  define res where "res = (push_bit (16 - n) (ucast d) OR (drop_bit n (ucast d) AND mask (16 - n)) :: u32)"
  define flg' where "flg' = CONDITIONAL_SET_FLAG (s = 1 \<and> XOR2 (drop_bit 14 res) \<noteq> 0) F_OF (CONDITIONAL_SET_FLAG (res AND 0x8000 \<noteq> 0) F_CF flg)"
  have "ror_word d s flg = Some (ucast res, flg')"
    using ror_word_step [of s n d flg] n by (simp add: n_def [symmetric] res_def flg'_def Let_def)
  moreover have "on F_CF flg' = bit res 15"
    by (simp add: flg'_def x86_flags)
  moreover have "on F_OF flg' = (bit res 15 \<noteq> bit res 14)" if "s = 1"
    using that by (auto simp: flg'_def on_bit bit_cond XOR2_pair XOR2_iff bit_simps)
  moreover have "same_flags F_ARITH flg flg'" by (simp add: flg'_def same_flags_cond)
  moreover have "rotated LENGTH(16) n (bit (ucast res :: u16)) (bit d)"
    by (rule ror_bits) (use n in \<open>simp_all add: res_def\<close>)
  ultimately show ?thesis using s by (simp add: n_def [symmetric] bit_ucast_iff)
qed

lemma ror_long_step:
  fixes s :: u8
  assumes "unat s mod 32 = n" "0 < n"
  shows "ror_long d s flg = (let res = push_bit (32 - n) d OR (drop_bit n d AND mask (32 - n)) in Some (res, CONDITIONAL_SET_FLAG (s = 1 \<and> XOR2 (drop_bit 30 res) \<noteq> 0) F_OF (CONDITIONAL_SET_FLAG (res AND 0x80000000 \<noteq> 0) F_CF flg)))"
proof -
  define cnt where "cnt = (ucast s mod 32 :: u32)"
  have n: "unat cnt = n" "n < 32" using assms(1) mod_less_divisor [of 32 "unat s"] by (simp_all add: cnt_def unat_count)
  have c: "cnt \<noteq> 0" "s \<noteq> 0" using n assms by auto
  note sh = shift_by [OF n(1)] shift_diff [OF n(1), of 32]
  show ?thesis
    unfolding ror_long_def cnt_def [symmetric]
    using n c assms(2) by (simp add: sh Let_def exp_mask)
qed

lemma ror_long_ok:
  fixes s :: u8
  shows "\<exists>r flg'. ror_long d s flg = Some (r, flg') \<and> rotated 32 (unat s mod 32) (bit r) (bit d) \<and>
    on F_CF flg' = (if s = 0 then on F_CF flg else bit r 31) \<and> (s = 1 \<longrightarrow> on F_OF flg' = (bit r 31 \<noteq> bit r 30)) \<and>
    same_flags F_ARITH flg flg'"
proof (cases "unat s mod 32 = 0")
  case True
  then have "(ucast s mod 32 :: u32) = 0" "s \<noteq> 1" by (auto simp: unat_count word_unat_eq_iff)
  then show ?thesis using True by (auto simp: ror_long_def rotated_0 bit_ucast_iff x86_flags up_down)
next
  case False
  define n where "n = unat s mod 32"
  have n: "0 < n" "n < 32" using False mod_less_divisor [of 32 "unat s"] by (simp_all add: n_def)
  have s: "s \<noteq> 0" using False by auto
  define res where "res = (push_bit (32 - n) d OR (drop_bit n d AND mask (32 - n)) :: u32)"
  define flg' where "flg' = CONDITIONAL_SET_FLAG (s = 1 \<and> XOR2 (drop_bit 30 res) \<noteq> 0) F_OF (CONDITIONAL_SET_FLAG (res AND 0x80000000 \<noteq> 0) F_CF flg)"
  have "ror_long d s flg = Some (res, flg')"
    using ror_long_step [of s n d flg] n by (simp add: n_def [symmetric] res_def flg'_def Let_def)
  moreover have "on F_CF flg' = bit res 31"
    by (simp add: flg'_def x86_flags)
  moreover have "on F_OF flg' = (bit res 31 \<noteq> bit res 30)" if "s = 1"
    using that by (auto simp: flg'_def on_bit bit_cond XOR2_pair XOR2_iff bit_simps)
  moreover have "same_flags F_ARITH flg flg'" by (simp add: flg'_def same_flags_cond)
  moreover have "rotated LENGTH(32) n (bit (ucast res :: u32)) (bit d)"
    by (rule ror_bits) (use n in \<open>simp_all add: res_def\<close>)
  ultimately show ?thesis using s by (simp add: n_def [symmetric] bit_ucast_iff)
qed

section \<open>Shifts\<close>

text \<open>A shift by zero only clears overflow. Other counts set carry to the last bit that was moved out,
  and sign, zero and parity of the result; overflow is meaningful for a shift by one only.\<close>

definition shl_spec :: "'a::len word \<Rightarrow> 'a word \<Rightarrow> nat \<Rightarrow> u32 \<Rightarrow> 'a word \<times> u32 \<Rightarrow> bool" where
  "shl_spec d r n flg = (\<lambda>(r', flg'). r' = r \<and>
     (if n = 0 then flg' = CLEAR_FLAG F_OF flg
      else szp r flg' \<and> on F_CF flg' = (n \<le> LENGTH('a) \<and> bit d (LENGTH('a) - n)) \<and>
        on F_OF flg' = (n = 1 \<and> bit r (LENGTH('a) - 1) \<noteq> on F_CF flg') \<and> on F_AF flg' = on F_AF flg \<and>
        same_flags F_ARITH flg flg'))"

definition shr_spec :: "'a::len word \<Rightarrow> 'a word \<Rightarrow> nat \<Rightarrow> u32 \<Rightarrow> 'a word \<times> u32 \<Rightarrow> bool" where
  "shr_spec d r n flg = (\<lambda>(r', flg'). r' = r \<and>
     (if n = 0 then flg' = CLEAR_FLAG F_OF flg
      else szp r flg' \<and> on F_CF flg' = bit d (n - 1) \<and>
        on F_OF flg' = (n = 1 \<and> bit r (LENGTH('a) - 2) \<noteq> bit r (LENGTH('a) - 1)) \<and> on F_AF flg' = on F_AF flg \<and>
        same_flags F_ARITH flg flg'))"

definition sar_spec :: "'a::len word \<Rightarrow> 'a word \<Rightarrow> nat \<Rightarrow> u32 \<Rightarrow> 'a word \<times> u32 \<Rightarrow> bool" where
  "sar_spec d r n flg = (\<lambda>(r', flg'). r' = r \<and>
     (if n = 0 then flg' = flg
      else szp r flg' \<and> on F_CF flg' = bit d (n - 1) \<and> on F_OF flg' = on F_OF flg \<and> on F_AF flg' = on F_AF flg \<and>
        same_flags F_ARITH flg flg'))"

text \<open>The flags that all shifts set, in their order.\<close>

definition result_flags :: "bool \<Rightarrow> 'a::len word \<Rightarrow> u32 \<Rightarrow> u32" where
  "result_flags c r flg = CONDITIONAL_SET_FLAG (even_parity r) F_PF (CONDITIONAL_SET_FLAG (bit r (LENGTH('a) - 1)) F_SF
     (CONDITIONAL_SET_FLAG (r = 0) F_ZF (CONDITIONAL_SET_FLAG c F_CF flg)))"

lemma result_flags_simps:
  "on F_CF (result_flags c r flg) = c" "szp r (result_flags c r flg)"
  "on F_OF (result_flags c r flg) = on F_OF flg" "on F_AF (result_flags c r flg) = on F_AF flg"
  "szp r (CONDITIONAL_SET_FLAG b F_OF (result_flags c r flg))" "on F_CF (CONDITIONAL_SET_FLAG b F_OF (result_flags c r flg)) = c"
  "on F_OF (CONDITIONAL_SET_FLAG b F_OF flg) = b" "on F_AF (CONDITIONAL_SET_FLAG b F_OF flg) = on F_AF flg"
  "same_flags F_ARITH flg (result_flags c r flg)"
  by (simp_all add: result_flags_def szp_def x86_flags)

lemma shl_flags:
  fixes d r :: "'a::len word"
  assumes "0 < n" "c = (n \<le> LENGTH('a) \<and> bit d (LENGTH('a) - n))"
    and "b = (n = 1 \<and> bit r (LENGTH('a) - 1) \<noteq> c)"
  shows "shl_spec d r n flg (r, CONDITIONAL_SET_FLAG b F_OF (result_flags c r flg))"
  using assms by (simp add: shl_spec_def result_flags_simps same_flags_cond)

lemma shr_flags:
  fixes d r :: "'a::len word"
  assumes "0 < n" "c = bit d (n - 1)" "b = (n = 1 \<and> bit r (LENGTH('a) - 2) \<noteq> bit r (LENGTH('a) - 1))"
  shows "shr_spec d r n flg (r, CONDITIONAL_SET_FLAG b F_OF (result_flags c r flg))"
  using assms by (simp add: shr_spec_def result_flags_simps same_flags_cond)

lemma and_exp_0: "k < 32 \<Longrightarrow> (x :: u32) AND 2 ^ k = 0 \<longleftrightarrow> \<not> bit x k"
  using and_exp_iff [of k x] by (simp only: not_not len_bit0 len_bit1 len_num1) auto

text \<open>The tests of the operations on the 32-bit image \<open>res\<close> of a result \<open>r\<close>.\<close>

lemma res_tests:
  fixes res :: u32
  shows "ucast res = (r1 :: u8) \<Longrightarrow> (res AND 0xff = 0) = (r1 = 0) \<and> bit res 7 = bit r1 7 \<and> bit res 6 = bit r1 6 \<and> even_parity res = even_parity r1"
    "ucast res = (r2 :: u16) \<Longrightarrow> (res AND 0xffff = 0) = (r2 = 0) \<and> bit res 15 = bit r2 15 \<and> bit res 14 = bit r2 14 \<and> even_parity res = even_parity r2"
proof -
  have b: "bit res 6 = bit (ucast res :: u8) 6" "bit res 14 = bit (ucast res :: u16) 14" by (simp_all add: bit_simps)
  show "ucast res = (r1 :: u8) \<Longrightarrow> (res AND 0xff = 0) = (r1 = 0) \<and> bit res 7 = bit r1 7 \<and> bit res 6 = bit r1 6 \<and> even_parity res = even_parity r1"
    using low_zero(1) [of res] low_sign(1) [of res] low_parity(1) [of res] b(1) by simp
  show "ucast res = (r2 :: u16) \<Longrightarrow> (res AND 0xffff = 0) = (r2 = 0) \<and> bit res 15 = bit r2 15 \<and> bit res 14 = bit r2 14 \<and> even_parity res = even_parity r2"
    using low_zero(2) [of res] low_sign(2) [of res] low_parity(2) [of res] b(2) by simp
qed

lemma and_eq_msb: "(x :: u32) AND 0x80 = 0x80 \<longleftrightarrow> bit x 7" "x AND 0x8000 = 0x8000 \<longleftrightarrow> bit x 15" "x AND 0x80000000 = 0x80000000 \<longleftrightarrow> bit x 31"
proof -
  have "x AND 2 ^ k = (if bit x k then 2 ^ k else 0)" for k
    by (rule bit_eqI) (auto simp: bit_and_iff bit_exp_iff)
  from this [of 7] this [of 15] this [of 31]
  have "x AND 0x80 = (if bit x 7 then 0x80 else 0)" "x AND 0x8000 = (if bit x 15 then 0x8000 else 0)"
    "x AND 0x80000000 = (if bit x 31 then 0x80000000 else 0)" by simp_all
  then show "x AND 0x80 = 0x80 \<longleftrightarrow> bit x 7" "x AND 0x8000 = 0x8000 \<longleftrightarrow> bit x 15" "x AND 0x80000000 = 0x80000000 \<longleftrightarrow> bit x 31"
    by simp_all
qed

lemma even_parity_0 [simp]: "even_parity 0"
  by (simp add: even_parity_def)

lemma push_ucast: "LENGTH('a) \<le> 32 \<Longrightarrow> (ucast (push_bit n (ucast d) :: u32) :: 'a::len word) = push_bit n d"
  by (rule bit_eqI) (auto simp: bit_simps)

lemma drop_ucast: "LENGTH('a) \<le> 32 \<Longrightarrow> (ucast (drop_bit n (ucast d) :: u32) :: 'a::len word) = drop_bit n d"
  by (rule bit_eqI) (auto simp: bit_simps dest: bit_imp_le_length)

lemma push_all: "LENGTH('a) \<le> n \<Longrightarrow> push_bit n (d :: 'a::len word) = 0"
  by (rule bit_eqI) (auto simp: bit_simps)

lemma drop_all: "LENGTH('a) \<le> n \<Longrightarrow> drop_bit n (d :: 'a::len word) = 0"
  by (rule bit_eqI) (auto simp: bit_simps dest: bit_imp_le_length)

lemma shl_byte_ok:
  assumes "unat (s :: u8) = n" "n \<le> 32"
  shows "\<exists>x. shl_byte d s flg = Some x \<and> shl_spec d (push_bit n d) n flg x"
proof -
  have s: "s < 8 \<longleftrightarrow> n < 8" using assms(1) by (simp add: word_less_nat_alt)
  consider "n = 0" | "0 < n" "n < 8" | "8 \<le> n" using assms(2) by linarith
  then show ?thesis
  proof cases
    case 1
    then have "s = 0" using assms(1) by (simp add: word_unat_eq_iff)
    then show ?thesis using 1 by (simp add: shl_byte_def shl_spec_def up_down)
  next
    case 2
    define cnt where "cnt = (ucast s mod 8 :: u32)"
    define res where "res = (push_bit n (ucast d) :: u32)"
    define r where "r = push_bit n d"
    have n: "unat cnt = n" using 2 assms(1) by (simp add: cnt_def unat_count)
    have c: "cnt > 0" "cnt = 1 \<longleftrightarrow> n = 1" using n 2 by (auto simp: word_unat_eq_iff word_less_nat_alt)
    note sh = shift_by [OF n] shift_pred [OF n] shift_diff [OF n, of 8]
    have r: "ucast res = r" using 2 by (simp add: res_def r_def push_ucast drop_ucast)
    have lt: "8 - n < 32" "n - Suc 0 < 32" using 2 by linarith+
    have "shl_byte d s flg = Some (r, CONDITIONAL_SET_FLAG (n = 1 \<and> bit r 7 \<noteq> bit d (8 - n)) F_OF (result_flags (bit d (8 - n)) r flg))"
      unfolding shl_byte_def cnt_def [symmetric] on_def [symmetric]
      using s 2 c lt
      by (simp add: SET_cond sh Let_def and_exp_0 res_def [symmetric] bit_ucast_iff r res_tests(1) [OF r] result_flags_def x86_flags and_eq_msb)
    moreover have "shl_spec d r n flg (r, CONDITIONAL_SET_FLAG (n = 1 \<and> bit r 7 \<noteq> bit d (8 - n)) F_OF (result_flags (bit d (8 - n)) r flg))"
      by (rule shl_flags) (use 2 in auto)
    ultimately show ?thesis using 2 by (simp add: r_def)
  next
    case 3
    have c: "c_shl (ucast d) (ucast s - 1) = Some (push_bit (n - 1) (ucast d))"
      using shift_pred [of "ucast s" n] 3 assms by (simp add: unat_up)
    have b: "bit (push_bit (n - 1) (ucast d) :: u32) 7 = (n = 8 \<and> bit d 0)"
      using 3 assms by (auto simp: bit_simps)
    show ?thesis
      using s 3 c b by (auto simp: shl_byte_def shl_spec_def szp_def SET_cond x86_flags push_all)
  qed
qed

lemma shl_word_ok:
  assumes "unat (s :: u8) = n" "n \<le> 32"
  shows "\<exists>x. shl_word d s flg = Some x \<and> shl_spec d (push_bit n d) n flg x"
proof -
  have s: "s < 16 \<longleftrightarrow> n < 16" using assms(1) by (simp add: word_less_nat_alt)
  consider "n = 0" | "0 < n" "n < 16" | "16 \<le> n" using assms(2) by linarith
  then show ?thesis
  proof cases
    case 1
    then have "s = 0" using assms(1) by (simp add: word_unat_eq_iff)
    then show ?thesis using 1 by (simp add: shl_word_def shl_spec_def up_down)
  next
    case 2
    define cnt where "cnt = (ucast s mod 16 :: u32)"
    define res where "res = (push_bit n (ucast d) :: u32)"
    define r where "r = push_bit n d"
    have n: "unat cnt = n" using 2 assms(1) by (simp add: cnt_def unat_count)
    have c: "cnt > 0" "cnt = 1 \<longleftrightarrow> n = 1" using n 2 by (auto simp: word_unat_eq_iff word_less_nat_alt)
    note sh = shift_by [OF n] shift_pred [OF n] shift_diff [OF n, of 16]
    have r: "ucast res = r" using 2 by (simp add: res_def r_def push_ucast drop_ucast)
    have lt: "16 - n < 32" "n - Suc 0 < 32" using 2 by linarith+
    have "shl_word d s flg = Some (r, CONDITIONAL_SET_FLAG (n = 1 \<and> bit r 15 \<noteq> bit d (16 - n)) F_OF (result_flags (bit d (16 - n)) r flg))"
      unfolding shl_word_def cnt_def [symmetric] on_def [symmetric]
      using s 2 c lt
      by (simp add: SET_cond sh Let_def and_exp_0 res_def [symmetric] bit_ucast_iff r res_tests(2) [OF r] result_flags_def x86_flags and_eq_msb)
    moreover have "shl_spec d r n flg (r, CONDITIONAL_SET_FLAG (n = 1 \<and> bit r 15 \<noteq> bit d (16 - n)) F_OF (result_flags (bit d (16 - n)) r flg))"
      by (rule shl_flags) (use 2 in auto)
    ultimately show ?thesis using 2 by (simp add: r_def)
  next
    case 3
    have c: "c_shl (ucast d) (ucast s - 1) = Some (push_bit (n - 1) (ucast d))"
      using shift_pred [of "ucast s" n] 3 assms by (simp add: unat_up)
    have b: "bit (push_bit (n - 1) (ucast d) :: u32) 15 = (n = 16 \<and> bit d 0)"
      using 3 assms by (auto simp: bit_simps)
    show ?thesis
      using s 3 c b by (auto simp: shl_word_def shl_spec_def szp_def SET_cond x86_flags push_all)
  qed
qed

lemma shl_long_ok:
  assumes "unat (s :: u8) = n" "n \<le> 32"
  shows "\<exists>x. shl_long d s flg = Some x \<and> shl_spec d (push_bit n d) n flg x"
proof -
  have s: "s < 32 \<longleftrightarrow> n < 32" using assms(1) by (simp add: word_less_nat_alt)
  consider "n = 0" | "0 < n" "n < 32" | "32 \<le> n" using assms(2) by linarith
  then show ?thesis
  proof cases
    case 1
    then have "s = 0" using assms(1) by (simp add: word_unat_eq_iff)
    then show ?thesis using 1 by (simp add: shl_long_def shl_spec_def up_down)
  next
    case 2
    define cnt where "cnt = (ucast s mod 32 :: u32)"
    define res where "res = (push_bit n d :: u32)"
    define r where "r = push_bit n d"
    have n: "unat cnt = n" using 2 assms(1) by (simp add: cnt_def unat_count)
    have c: "cnt > 0" "cnt = 1 \<longleftrightarrow> n = 1" using n 2 by (auto simp: word_unat_eq_iff word_less_nat_alt)
    note sh = shift_by [OF n] shift_pred [OF n] shift_diff [OF n, of 32]
    have r: "res = r" using 2 by (simp add: res_def r_def push_ucast drop_ucast)
    have lt: "32 - n < 32" "n - Suc 0 < 32" using 2 by linarith+
    have "shl_long d s flg = Some (r, CONDITIONAL_SET_FLAG (n = 1 \<and> bit r 31 \<noteq> bit d (32 - n)) F_OF (result_flags (bit d (32 - n)) r flg))"
      unfolding shl_long_def cnt_def [symmetric] on_def [symmetric]
      using s 2 c lt
      by (simp add: SET_cond sh Let_def and_exp_0 res_def [symmetric] bit_ucast_iff r full_mask result_flags_def x86_flags and_eq_msb)
    moreover have "shl_spec d r n flg (r, CONDITIONAL_SET_FLAG (n = 1 \<and> bit r 31 \<noteq> bit d (32 - n)) F_OF (result_flags (bit d (32 - n)) r flg))"
      by (rule shl_flags) (use 2 in auto)
    ultimately show ?thesis using 2 by (simp add: r_def)
  next
    case 3
    have c: "c_shl d (ucast s - 1) = Some (push_bit (n - 1) d)"
      using shift_pred [of "ucast s" n] 3 assms by (simp add: unat_up)
    have b: "bit (push_bit (n - 1) d :: u32) 31 = (n = 32 \<and> bit d 0)"
      using 3 assms by (auto simp: bit_simps)
    show ?thesis
      using s 3 c b by (auto simp: shl_long_def shl_spec_def szp_def SET_cond x86_flags push_all)
  qed
qed

lemma shr_byte_ok:
  assumes "unat (s :: u8) = n" "n \<le> 32"
  shows "\<exists>x. shr_byte d s flg = Some x \<and> shr_spec d (drop_bit n d) n flg x"
proof -
  have s: "s < 8 \<longleftrightarrow> n < 8" using assms(1) by (simp add: word_less_nat_alt)
  consider "n = 0" | "0 < n" "n < 8" | "8 \<le> n" using assms(2) by linarith
  then show ?thesis
  proof cases
    case 1
    then have "s = 0" using assms(1) by (simp add: word_unat_eq_iff)
    then show ?thesis using 1 by (simp add: shr_byte_def shr_spec_def up_down)
  next
    case 2
    define cnt where "cnt = (ucast s mod 8 :: u32)"
    define res where "res = (drop_bit n (ucast d) :: u32)"
    define r where "r = drop_bit n d"
    have n: "unat cnt = n" using 2 assms(1) by (simp add: cnt_def unat_count)
    have c: "cnt > 0" "cnt = 1 \<longleftrightarrow> n = 1" using n 2 by (auto simp: word_unat_eq_iff word_less_nat_alt)
    note sh = shift_by [OF n] shift_pred [OF n] shift_diff [OF n, of 8]
    have r: "ucast res = r" using 2 by (simp add: res_def r_def push_ucast drop_ucast)
    have lt: "8 - n < 32" "n - Suc 0 < 32" using 2 by linarith+
    have "shr_byte d s flg = Some (r, CONDITIONAL_SET_FLAG (n = 1 \<and> bit r 6 \<noteq> bit r 7) F_OF (result_flags (bit d (n - 1)) r flg))"
      unfolding shr_byte_def cnt_def [symmetric] on_def [symmetric]
      using s 2 c lt
      by (simp add: SET_cond sh Let_def and_exp_0 res_def [symmetric] bit_ucast_iff r res_tests(1) [OF r] result_flags_def x86_flags and_eq_msb)
    moreover have "shr_spec d r n flg (r, CONDITIONAL_SET_FLAG (n = 1 \<and> bit r 6 \<noteq> bit r 7) F_OF (result_flags (bit d (n - 1)) r flg))"
      by (rule shr_flags) (use 2 in auto)
    ultimately show ?thesis using 2 by (simp add: r_def)
  next
    case 3
    have c: "c_shr (ucast d) (ucast s - 1) = Some (drop_bit (n - 1) (ucast d))"
      using shift_pred [of "ucast s" n] 3 assms by (simp add: unat_up)
    have b: "bit (drop_bit (n - 1) (ucast d) :: u32) 0 = bit d (n - 1)"
      using 3 assms by (auto simp: bit_simps)
    show ?thesis
      using s 3 c b by (auto simp: shr_byte_def shr_spec_def szp_def SET_cond x86_flags drop_all)
  qed
qed

lemma shr_word_ok:
  assumes "unat (s :: u8) = n" "n < 16"
  shows "\<exists>x. shr_word d s flg = Some x \<and> shr_spec d (drop_bit n d) n flg x"
proof -
  have s: "s < 16 \<longleftrightarrow> n < 16" using assms(1) by (simp add: word_less_nat_alt)
  consider "n = 0" | "0 < n" "n < 16" using assms(2) by linarith
  then show ?thesis
  proof cases
    case 1
    then have "s = 0" using assms(1) by (simp add: word_unat_eq_iff)
    then show ?thesis using 1 by (simp add: shr_word_def shr_spec_def up_down)
  next
    case 2
    define cnt where "cnt = (ucast s mod 16 :: u32)"
    define res where "res = (drop_bit n (ucast d) :: u32)"
    define r where "r = drop_bit n d"
    have n: "unat cnt = n" using 2 assms(1) by (simp add: cnt_def unat_count)
    have c: "cnt > 0" "cnt = 1 \<longleftrightarrow> n = 1" using n 2 by (auto simp: word_unat_eq_iff word_less_nat_alt)
    note sh = shift_by [OF n] shift_pred [OF n] shift_diff [OF n, of 16]
    have r: "ucast res = r" using 2 by (simp add: res_def r_def push_ucast drop_ucast)
    have lt: "16 - n < 32" "n - Suc 0 < 32" using 2 by linarith+
    have "shr_word d s flg = Some (r, CONDITIONAL_SET_FLAG (n = 1 \<and> bit r 14 \<noteq> bit r 15) F_OF (result_flags (bit d (n - 1)) r flg))"
      unfolding shr_word_def cnt_def [symmetric] on_def [symmetric]
      using s 2 c lt
      by (simp add: SET_cond sh Let_def and_exp_0 res_def [symmetric] bit_ucast_iff r res_tests(2) [OF r] result_flags_def x86_flags and_eq_msb)
    moreover have "shr_spec d r n flg (r, CONDITIONAL_SET_FLAG (n = 1 \<and> bit r 14 \<noteq> bit r 15) F_OF (result_flags (bit d (n - 1)) r flg))"
      by (rule shr_flags) (use 2 in auto)
    ultimately show ?thesis using 2 by (simp add: r_def)
  qed
qed

lemma shr_long_ok:
  assumes "unat (s :: u8) = n" "n < 32"
  shows "\<exists>x. shr_long d s flg = Some x \<and> shr_spec d (drop_bit n d) n flg x"
proof -
  have s: "s < 32 \<longleftrightarrow> n < 32" using assms(1) by (simp add: word_less_nat_alt)
  consider "n = 0" | "0 < n" "n < 32" using assms(2) by linarith
  then show ?thesis
  proof cases
    case 1
    then have "s = 0" using assms(1) by (simp add: word_unat_eq_iff)
    then show ?thesis using 1 by (simp add: shr_long_def shr_spec_def up_down)
  next
    case 2
    define cnt where "cnt = (ucast s mod 32 :: u32)"
    define res where "res = (drop_bit n d :: u32)"
    define r where "r = drop_bit n d"
    have n: "unat cnt = n" using 2 assms(1) by (simp add: cnt_def unat_count)
    have c: "cnt > 0" "cnt = 1 \<longleftrightarrow> n = 1" using n 2 by (auto simp: word_unat_eq_iff word_less_nat_alt)
    note sh = shift_by [OF n] shift_pred [OF n] shift_diff [OF n, of 32]
    have r: "res = r" using 2 by (simp add: res_def r_def push_ucast drop_ucast)
    have lt: "32 - n < 32" "n - Suc 0 < 32" using 2 by linarith+
    have "shr_long d s flg = Some (r, CONDITIONAL_SET_FLAG (n = 1 \<and> bit r 30 \<noteq> bit r 31) F_OF (result_flags (bit d (n - 1)) r flg))"
      unfolding shr_long_def cnt_def [symmetric] on_def [symmetric]
      using s 2 c lt
      by (simp add: SET_cond sh Let_def and_exp_0 res_def [symmetric] bit_ucast_iff r full_mask result_flags_def x86_flags and_eq_msb)
    moreover have "shr_spec d r n flg (r, CONDITIONAL_SET_FLAG (n = 1 \<and> bit r 30 \<noteq> bit r 31) F_OF (result_flags (bit d (n - 1)) r flg))"
      by (rule shr_flags) (use 2 in auto)
    ultimately show ?thesis using 2 by (simp add: r_def)
  qed
qed

lemma shld_word_ok:
  assumes "unat (s :: u8) = n" "n \<le> 32"
  shows "\<exists>x. shld_word d fill s flg = Some x \<and> shl_spec d (if n < 16 then push_bit n d OR drop_bit (16 - n) fill else 0) n flg x"
proof -
  have s: "s < 16 \<longleftrightarrow> n < 16" using assms(1) by (simp add: word_less_nat_alt)
  consider "n = 0" | "0 < n" "n < 16" | "16 \<le> n" using assms(2) by linarith
  then show ?thesis
  proof cases
    case 1
    then have "s = 0" using assms(1) by (simp add: word_unat_eq_iff)
    then show ?thesis using 1 by (simp add: shld_word_def shl_spec_def up_down drop_all)
  next
    case 2
    define cnt where "cnt = (ucast s mod 16 :: u32)"
    define res where "res = (push_bit n (ucast d) OR drop_bit (16 - n) (ucast fill) :: u32)"
    define r where "r = push_bit n d OR drop_bit (16 - n) fill"
    have n: "unat cnt = n" using 2 assms(1) by (simp add: cnt_def unat_count)
    have c: "cnt > 0" "cnt = 1 \<longleftrightarrow> n = 1" using n 2 by (auto simp: word_unat_eq_iff word_less_nat_alt)
    note sh = shift_by [OF n] shift_pred [OF n] shift_diff [OF n, of 16]
    have r: "ucast res = r" using 2 by (simp add: res_def r_def push_ucast drop_ucast unsigned_or_eq)
    have lt: "16 - n < 32" "n - Suc 0 < 32" using 2 by linarith+
    have "shld_word d fill s flg = Some (r, CONDITIONAL_SET_FLAG (n = 1 \<and> bit r 15 \<noteq> bit d (16 - n)) F_OF (result_flags (bit d (16 - n)) r flg))"
      unfolding shld_word_def cnt_def [symmetric] on_def [symmetric]
      using s 2 c lt
      by (simp add: SET_cond sh Let_def and_exp_0 res_def [symmetric] bit_ucast_iff r res_tests(2) [OF r] result_flags_def x86_flags and_eq_msb)
    moreover have "shl_spec d r n flg (r, CONDITIONAL_SET_FLAG (n = 1 \<and> bit r 15 \<noteq> bit d (16 - n)) F_OF (result_flags (bit d (16 - n)) r flg))"
      by (rule shl_flags) (use 2 in auto)
    ultimately show ?thesis using 2 by (simp add: r_def)
  next
    case 3
    have c: "c_shl (ucast d) (ucast s - 1) = Some (push_bit (n - 1) (ucast d))"
      using shift_pred [of "ucast s" n] 3 assms by (simp add: unat_up)
    have b: "bit (push_bit (n - 1) (ucast d) :: u32) 15 = (n = 16 \<and> bit d 0)"
      using 3 assms by (auto simp: bit_simps)
    show ?thesis
      using s 3 c b by (auto simp: shld_word_def shl_spec_def szp_def SET_cond x86_flags push_all)
  qed
qed

lemma shld_long_ok:
  assumes "unat (s :: u8) = n" "n \<le> 32"
  shows "\<exists>x. shld_long d fill s flg = Some x \<and> shl_spec d (if n < 32 then push_bit n d OR drop_bit (32 - n) fill else 0) n flg x"
proof -
  have s: "s < 32 \<longleftrightarrow> n < 32" using assms(1) by (simp add: word_less_nat_alt)
  consider "n = 0" | "0 < n" "n < 32" | "32 \<le> n" using assms(2) by linarith
  then show ?thesis
  proof cases
    case 1
    then have "s = 0" using assms(1) by (simp add: word_unat_eq_iff)
    then show ?thesis using 1 by (simp add: shld_long_def shl_spec_def up_down drop_all)
  next
    case 2
    define cnt where "cnt = (ucast s mod 32 :: u32)"
    define res where "res = (push_bit n d OR drop_bit (32 - n) fill :: u32)"
    define r where "r = push_bit n d OR drop_bit (32 - n) fill"
    have n: "unat cnt = n" using 2 assms(1) by (simp add: cnt_def unat_count)
    have c: "cnt > 0" "cnt = 1 \<longleftrightarrow> n = 1" using n 2 by (auto simp: word_unat_eq_iff word_less_nat_alt)
    note sh = shift_by [OF n] shift_pred [OF n] shift_diff [OF n, of 32]
    have r: "res = r" using 2 by (simp add: res_def r_def push_ucast drop_ucast unsigned_or_eq)
    have lt: "32 - n < 32" "n - Suc 0 < 32" using 2 by linarith+
    have "shld_long d fill s flg = Some (r, CONDITIONAL_SET_FLAG (n = 1 \<and> bit r 31 \<noteq> bit d (32 - n)) F_OF (result_flags (bit d (32 - n)) r flg))"
      unfolding shld_long_def cnt_def [symmetric] on_def [symmetric]
      using s 2 c lt
      by (simp add: SET_cond sh Let_def and_exp_0 res_def [symmetric] bit_ucast_iff r full_mask result_flags_def x86_flags and_eq_msb)
    moreover have "shl_spec d r n flg (r, CONDITIONAL_SET_FLAG (n = 1 \<and> bit r 31 \<noteq> bit d (32 - n)) F_OF (result_flags (bit d (32 - n)) r flg))"
      by (rule shl_flags) (use 2 in auto)
    ultimately show ?thesis using 2 by (simp add: r_def)
  next
    case 3
    have c: "c_shl d (ucast s - 1) = Some (push_bit (n - 1) d)"
      using shift_pred [of "ucast s" n] 3 assms by (simp add: unat_up)
    have b: "bit (push_bit (n - 1) d :: u32) 31 = (n = 32 \<and> bit d 0)"
      using 3 assms by (auto simp: bit_simps)
    show ?thesis
      using s 3 c b by (auto simp: shld_long_def shl_spec_def szp_def SET_cond x86_flags push_all)
  qed
qed

lemma shrd_word_ok:
  assumes "unat (s :: u8) = n" "n < 16"
  shows "\<exists>x. shrd_word d fill s flg = Some x \<and> shr_spec d (drop_bit n d OR push_bit (16 - n) fill) n flg x"
proof -
  have s: "s < 16 \<longleftrightarrow> n < 16" using assms(1) by (simp add: word_less_nat_alt)
  consider "n = 0" | "0 < n" "n < 16" using assms(2) by linarith
  then show ?thesis
  proof cases
    case 1
    then have "s = 0" using assms(1) by (simp add: word_unat_eq_iff)
    then show ?thesis using 1 by (simp add: shrd_word_def shr_spec_def up_down push_all)
  next
    case 2
    define cnt where "cnt = (ucast s mod 16 :: u32)"
    define res where "res = (drop_bit n (ucast d) OR push_bit (16 - n) (ucast fill) :: u32)"
    define r where "r = drop_bit n d OR push_bit (16 - n) fill"
    have n: "unat cnt = n" using 2 assms(1) by (simp add: cnt_def unat_count)
    have c: "cnt > 0" "cnt = 1 \<longleftrightarrow> n = 1" using n 2 by (auto simp: word_unat_eq_iff word_less_nat_alt)
    note sh = shift_by [OF n] shift_pred [OF n] shift_diff [OF n, of 16]
    have r: "ucast res = r" using 2 by (simp add: res_def r_def push_ucast drop_ucast unsigned_or_eq)
    have lt: "16 - n < 32" "n - Suc 0 < 32" using 2 by linarith+
    have "shrd_word d fill s flg = Some (r, CONDITIONAL_SET_FLAG (n = 1 \<and> bit r 14 \<noteq> bit r 15) F_OF (result_flags (bit d (n - 1)) r flg))"
      unfolding shrd_word_def cnt_def [symmetric] on_def [symmetric]
      using s 2 c lt
      by (simp add: SET_cond sh Let_def and_exp_0 res_def [symmetric] bit_ucast_iff r res_tests(2) [OF r] result_flags_def x86_flags and_eq_msb)
    moreover have "shr_spec d r n flg (r, CONDITIONAL_SET_FLAG (n = 1 \<and> bit r 14 \<noteq> bit r 15) F_OF (result_flags (bit d (n - 1)) r flg))"
      by (rule shr_flags) (use 2 in auto)
    ultimately show ?thesis using 2 by (simp add: r_def)
  qed
qed

lemma shrd_long_ok:
  assumes "unat (s :: u8) = n" "n < 32"
  shows "\<exists>x. shrd_long d fill s flg = Some x \<and> shr_spec d (drop_bit n d OR push_bit (32 - n) fill) n flg x"
proof -
  have s: "s < 32 \<longleftrightarrow> n < 32" using assms(1) by (simp add: word_less_nat_alt)
  consider "n = 0" | "0 < n" "n < 32" using assms(2) by linarith
  then show ?thesis
  proof cases
    case 1
    then have "s = 0" using assms(1) by (simp add: word_unat_eq_iff)
    then show ?thesis using 1 by (simp add: shrd_long_def shr_spec_def up_down push_all)
  next
    case 2
    define cnt where "cnt = (ucast s mod 32 :: u32)"
    define res where "res = (drop_bit n d OR push_bit (32 - n) fill :: u32)"
    define r where "r = drop_bit n d OR push_bit (32 - n) fill"
    have n: "unat cnt = n" using 2 assms(1) by (simp add: cnt_def unat_count)
    have c: "cnt > 0" "cnt = 1 \<longleftrightarrow> n = 1" using n 2 by (auto simp: word_unat_eq_iff word_less_nat_alt)
    note sh = shift_by [OF n] shift_pred [OF n] shift_diff [OF n, of 32]
    have r: "res = r" using 2 by (simp add: res_def r_def push_ucast drop_ucast unsigned_or_eq)
    have lt: "32 - n < 32" "n - Suc 0 < 32" using 2 by linarith+
    have "shrd_long d fill s flg = Some (r, CONDITIONAL_SET_FLAG (n = 1 \<and> bit r 30 \<noteq> bit r 31) F_OF (result_flags (bit d (n - 1)) r flg))"
      unfolding shrd_long_def cnt_def [symmetric] on_def [symmetric]
      using s 2 c lt
      by (simp add: SET_cond sh Let_def and_exp_0 res_def [symmetric] bit_ucast_iff r full_mask result_flags_def x86_flags and_eq_msb)
    moreover have "shr_spec d r n flg (r, CONDITIONAL_SET_FLAG (n = 1 \<and> bit r 30 \<noteq> bit r 31) F_OF (result_flags (bit d (n - 1)) r flg))"
      by (rule shr_flags) (use 2 in auto)
    ultimately show ?thesis using 2 by (simp add: r_def)
  qed
qed

lemma sar_bits:
  fixes d :: "'a::len word"
  assumes "LENGTH('a) \<le> 32" "n < LENGTH('a)"
  shows "(ucast ((drop_bit n (ucast d) AND mask (LENGTH('a) - n)) OR (if bit d (LENGTH('a) - 1) then NOT (mask (LENGTH('a) - n)) else 0 :: u32)) :: 'a word) =
    signed_drop_bit n d"
  using assms by (intro bit_eqI) (auto simp: bit_simps bit_signed_drop_bit_iff)

lemma sar_byte_ok:
  assumes "unat (s :: u8) = n" "n < 8"
  shows "\<exists>x. sar_byte d s flg = Some x \<and> sar_spec d (signed_drop_bit n d) n flg x"
proof (cases "n = 0")
  case True
  then have "s = 0" using assms(1) by (simp add: word_unat_eq_iff)
  then show ?thesis using True by (simp add: sar_byte_def sar_spec_def)
next
  case False
  define cnt where "cnt = (ucast s mod 8 :: u32)"
  define res where "res = ((drop_bit n (ucast d) AND mask (8 - n)) OR (if bit d 7 then NOT (mask (8 - n)) else 0) :: u32)"
  define r where "r = signed_drop_bit n d"
  have n: "unat cnt = n" using assms by (simp add: cnt_def unat_count)
  have c: "cnt > 0" "cnt < 8" using n False assms(2) by (auto simp: word_less_nat_alt)
  note sh = shift_by [OF n] shift_pred [OF n] shift_diff [OF n, of 8]
  have r: "ucast res = r" using sar_bits [of n d] assms(2) by (cases "bit d 7") (simp_all add: res_def r_def)
  have lt: "8 - n < 32" "n - Suc 0 < 32" using False assms(2) by linarith+
  have R: "bit d 7 \<Longrightarrow> (drop_bit n (ucast d) AND mask (8 - n)) OR NOT (mask (8 - n)) = res"
    "\<not> bit d 7 \<Longrightarrow> drop_bit n (ucast d) AND mask (8 - n) = res" by (simp_all add: res_def)
  have "sar_byte d s flg = Some (r, (let f = CONDITIONAL_SET_FLAG (r = 0) F_ZF (CONDITIONAL_SET_FLAG (bit d (n - 1)) F_CF flg) in
      CONDITIONAL_SET_FLAG (bit r 7) F_SF (CONDITIONAL_SET_FLAG (even_parity r) F_PF f)))"
    unfolding sar_byte_def cnt_def [symmetric] or_if
    using c lt False assms(2)
    by (cases "bit d 7") (simp_all add: R sh Let_def exp_mask and_exp_0 bit_ucast_iff r res_tests(1) [OF r] x86_flags)
  then show ?thesis using False by (simp add: r_def [symmetric] sar_spec_def szp_def Let_def x86_flags)
qed

lemma sar_word_ok:
  assumes "unat (s :: u8) = n" "n < 16"
  shows "\<exists>x. sar_word d s flg = Some x \<and> sar_spec d (signed_drop_bit n d) n flg x"
proof (cases "n = 0")
  case True
  then have "s = 0" using assms(1) by (simp add: word_unat_eq_iff)
  then show ?thesis using True by (simp add: sar_word_def sar_spec_def)
next
  case False
  define cnt where "cnt = (ucast s mod 16 :: u32)"
  define res where "res = ((drop_bit n (ucast d) AND mask (16 - n)) OR (if bit d 15 then NOT (mask (16 - n)) else 0) :: u32)"
  define r where "r = signed_drop_bit n d"
  have n: "unat cnt = n" using assms by (simp add: cnt_def unat_count)
  have c: "cnt > 0" "cnt < 16" using n False assms(2) by (auto simp: word_less_nat_alt)
  note sh = shift_by [OF n] shift_pred [OF n] shift_diff [OF n, of 16]
  have r: "ucast res = r" using sar_bits [of n d] assms(2) by (cases "bit d 15") (simp_all add: res_def r_def)
  have lt: "16 - n < 32" "n - Suc 0 < 32" using False assms(2) by linarith+
  have R: "bit d 15 \<Longrightarrow> (drop_bit n (ucast d) AND mask (16 - n)) OR NOT (mask (16 - n)) = res"
    "\<not> bit d 15 \<Longrightarrow> drop_bit n (ucast d) AND mask (16 - n) = res" by (simp_all add: res_def)
  have "sar_word d s flg = Some (r, (let f = CONDITIONAL_SET_FLAG (r = 0) F_ZF (CONDITIONAL_SET_FLAG (bit d (n - 1)) F_CF flg) in
      CONDITIONAL_SET_FLAG (even_parity r) F_PF (CONDITIONAL_SET_FLAG (bit r 15) F_SF f)))"
    unfolding sar_word_def cnt_def [symmetric] or_if
    using c lt False assms(2)
    by (cases "bit d 15") (simp_all add: R sh Let_def exp_mask and_exp_0 bit_ucast_iff r res_tests(2) [OF r] x86_flags)
  then show ?thesis using False by (simp add: r_def [symmetric] sar_spec_def szp_def Let_def x86_flags)
qed

lemma sar_long_ok:
  assumes "unat (s :: u8) = n" "n < 32"
  shows "\<exists>x. sar_long d s flg = Some x \<and> sar_spec d (signed_drop_bit n d) n flg x"
proof (cases "n = 0")
  case True
  then have "s = 0" using assms(1) by (simp add: word_unat_eq_iff)
  then show ?thesis using True by (simp add: sar_long_def sar_spec_def)
next
  case False
  define cnt where "cnt = (ucast s mod 32 :: u32)"
  define res where "res = ((drop_bit n d AND mask (32 - n)) OR (if bit d 31 then NOT (mask (32 - n)) else 0) :: u32)"
  define r where "r = signed_drop_bit n d"
  have n: "unat cnt = n" using assms by (simp add: cnt_def unat_count)
  have c: "cnt > 0" "cnt < 32" using n False assms(2) by (auto simp: word_less_nat_alt)
  note sh = shift_by [OF n] shift_pred [OF n] shift_diff [OF n, of 32]
  have r: "res = r" using sar_bits [of n d] assms(2) by (cases "bit d 31") (simp_all add: res_def r_def)
  have lt: "32 - n < 32" "n - Suc 0 < 32" using False assms(2) by linarith+
  have R: "bit d 31 \<Longrightarrow> (drop_bit n d AND mask (32 - n)) OR NOT (mask (32 - n)) = res"
    "\<not> bit d 31 \<Longrightarrow> drop_bit n d AND mask (32 - n) = res" by (simp_all add: res_def)
  have "sar_long d s flg = Some (r, (let f = CONDITIONAL_SET_FLAG (r = 0) F_ZF (CONDITIONAL_SET_FLAG (bit d (n - 1)) F_CF flg) in
      CONDITIONAL_SET_FLAG (even_parity r) F_PF (CONDITIONAL_SET_FLAG (bit r 31) F_SF f)))"
    unfolding sar_long_def cnt_def [symmetric] or_if
    using c lt False assms(2)
    by (cases "bit d 31") (simp_all add: R sh Let_def exp_mask and_exp_0 bit_ucast_iff r full_mask x86_flags)
  then show ?thesis using False by (simp add: r_def [symmetric] sar_spec_def szp_def Let_def x86_flags)
qed

section \<open>Properties\<close>

text \<open>The rotations permute the bits of the operand cyclically, \<^verbatim>\<open>rcl\<close> and \<^verbatim>\<open>rcr\<close> together with the carry
  flag; \<^verbatim>\<open>rol\<close> and \<^verbatim>\<open>ror\<close> copy the bit that went around into carry, and after a rotation by one overflow
  compares the two bits the instruction set defines. The 32-bit \<^verbatim>\<open>rcl\<close> is defined for all counts but 1 and
  32 modulo 33 and \<^verbatim>\<open>rcr\<close> for all but 32, for which the C code shifts by 32.\<close>

theorem x86_rotate_correct:
  fixes s :: u8
  shows "((\<exists>r flg'. rol_byte d1 s flg = Some (r, flg') \<and> rotated 8 (unat s mod 8) (bit d1) (bit r) \<and>
      on F_CF flg' = (if s = 0 then on F_CF flg else bit r 0) \<and> (s = 1 \<longrightarrow> on F_OF flg' = (bit r 7 \<noteq> bit r 0)) \<and> same_flags F_ARITH flg flg')) \<and>
    ((\<exists>r flg'. rol_word d2 s flg = Some (r, flg') \<and> rotated 16 (unat s mod 16) (bit d2) (bit r) \<and>
      on F_CF flg' = (if s = 0 then on F_CF flg else bit r 0) \<and> (s = 1 \<longrightarrow> on F_OF flg' = (bit r 15 \<noteq> bit r 0)) \<and> same_flags F_ARITH flg flg')) \<and>
    ((\<exists>r flg'. rol_long d4 s flg = Some (r, flg') \<and> rotated 32 (unat s mod 32) (bit d4) (bit r) \<and>
      on F_CF flg' = (if s = 0 then on F_CF flg else bit r 0) \<and> (s = 1 \<longrightarrow> on F_OF flg' = (bit r 31 \<noteq> bit r 0)) \<and> same_flags F_ARITH flg flg')) \<and>
    ((\<exists>r flg'. ror_byte d1 s flg = Some (r, flg') \<and> rotated 8 (unat s mod 8) (bit r) (bit d1) \<and>
      on F_CF flg' = (if s = 0 then on F_CF flg else bit r 7) \<and> (s = 1 \<longrightarrow> on F_OF flg' = (bit r 7 \<noteq> bit r 6)) \<and> same_flags F_ARITH flg flg')) \<and>
    ((\<exists>r flg'. ror_word d2 s flg = Some (r, flg') \<and> rotated 16 (unat s mod 16) (bit r) (bit d2) \<and>
      on F_CF flg' = (if s = 0 then on F_CF flg else bit r 15) \<and> (s = 1 \<longrightarrow> on F_OF flg' = (bit r 15 \<noteq> bit r 14)) \<and> same_flags F_ARITH flg flg')) \<and>
    ((\<exists>r flg'. ror_long d4 s flg = Some (r, flg') \<and> rotated 32 (unat s mod 32) (bit r) (bit d4) \<and>
      on F_CF flg' = (if s = 0 then on F_CF flg else bit r 31) \<and> (s = 1 \<longrightarrow> on F_OF flg' = (bit r 31 \<noteq> bit r 30)) \<and> same_flags F_ARITH flg flg')) \<and>
    ((\<exists>r flg'. rcl_byte d1 s flg = Some (r, flg') \<and> rotated 9 (unat s mod 9) (with_carry d1 flg) (with_carry r flg') \<and>
      (unat s mod 9 = 1 \<longrightarrow> on F_OF flg' = (bit r 7 \<noteq> on F_CF flg')) \<and> same_flags F_ARITH flg flg')) \<and>
    ((\<exists>r flg'. rcl_word d2 s flg = Some (r, flg') \<and> rotated 17 (unat s mod 17) (with_carry d2 flg) (with_carry r flg') \<and>
      (unat s mod 17 = 1 \<longrightarrow> on F_OF flg' = (bit r 15 \<noteq> on F_CF flg')) \<and> same_flags F_ARITH flg flg')) \<and>
    (unat s mod 33 \<notin> {1, 32} \<longrightarrow> (\<exists>r flg'. rcl_long d4 s flg = Some (r, flg') \<and> rotated 33 (unat s mod 33) (with_carry d4 flg) (with_carry r flg') \<and>
      (unat s mod 33 = 1 \<longrightarrow> on F_OF flg' = (bit r 31 \<noteq> on F_CF flg')) \<and> same_flags F_ARITH flg flg')) \<and>
    ((\<exists>r flg'. rcr_byte d1 s flg = Some (r, flg') \<and> rotated 9 (unat s mod 9) (with_carry r flg') (with_carry d1 flg) \<and>
      (unat s mod 9 = 1 \<longrightarrow> on F_OF flg' = (bit r 7 \<noteq> bit r 6)) \<and> same_flags F_ARITH flg flg')) \<and>
    ((\<exists>r flg'. rcr_word d2 s flg = Some (r, flg') \<and> rotated 17 (unat s mod 17) (with_carry r flg') (with_carry d2 flg) \<and>
      (unat s mod 17 = 1 \<longrightarrow> on F_OF flg' = (bit r 15 \<noteq> bit r 14)) \<and> same_flags F_ARITH flg flg')) \<and>
    (unat s mod 33 \<noteq> 32 \<longrightarrow> (\<exists>r flg'. rcr_long d4 s flg = Some (r, flg') \<and> rotated 33 (unat s mod 33) (with_carry r flg') (with_carry d4 flg) \<and>
      (unat s mod 33 = 1 \<longrightarrow> on F_OF flg' = (bit r 31 \<noteq> bit r 30)) \<and> same_flags F_ARITH flg flg'))"
proof (intro conjI)
  show "((\<exists>r flg'. rol_byte d1 s flg = Some (r, flg') \<and> rotated 8 (unat s mod 8) (bit d1) (bit r) \<and>
      on F_CF flg' = (if s = 0 then on F_CF flg else bit r 0) \<and> (s = 1 \<longrightarrow> on F_OF flg' = (bit r 7 \<noteq> bit r 0)) \<and> same_flags F_ARITH flg flg'))"
    by (rule rol_byte_ok)
  show "((\<exists>r flg'. rol_word d2 s flg = Some (r, flg') \<and> rotated 16 (unat s mod 16) (bit d2) (bit r) \<and>
      on F_CF flg' = (if s = 0 then on F_CF flg else bit r 0) \<and> (s = 1 \<longrightarrow> on F_OF flg' = (bit r 15 \<noteq> bit r 0)) \<and> same_flags F_ARITH flg flg'))"
    by (rule rol_word_ok)
  show "((\<exists>r flg'. rol_long d4 s flg = Some (r, flg') \<and> rotated 32 (unat s mod 32) (bit d4) (bit r) \<and>
      on F_CF flg' = (if s = 0 then on F_CF flg else bit r 0) \<and> (s = 1 \<longrightarrow> on F_OF flg' = (bit r 31 \<noteq> bit r 0)) \<and> same_flags F_ARITH flg flg'))"
    by (rule rol_long_ok)
  show "((\<exists>r flg'. ror_byte d1 s flg = Some (r, flg') \<and> rotated 8 (unat s mod 8) (bit r) (bit d1) \<and>
      on F_CF flg' = (if s = 0 then on F_CF flg else bit r 7) \<and> (s = 1 \<longrightarrow> on F_OF flg' = (bit r 7 \<noteq> bit r 6)) \<and> same_flags F_ARITH flg flg'))"
    by (rule ror_byte_ok)
  show "((\<exists>r flg'. ror_word d2 s flg = Some (r, flg') \<and> rotated 16 (unat s mod 16) (bit r) (bit d2) \<and>
      on F_CF flg' = (if s = 0 then on F_CF flg else bit r 15) \<and> (s = 1 \<longrightarrow> on F_OF flg' = (bit r 15 \<noteq> bit r 14)) \<and> same_flags F_ARITH flg flg'))"
    by (rule ror_word_ok)
  show "((\<exists>r flg'. ror_long d4 s flg = Some (r, flg') \<and> rotated 32 (unat s mod 32) (bit r) (bit d4) \<and>
      on F_CF flg' = (if s = 0 then on F_CF flg else bit r 31) \<and> (s = 1 \<longrightarrow> on F_OF flg' = (bit r 31 \<noteq> bit r 30)) \<and> same_flags F_ARITH flg flg'))"
    by (rule ror_long_ok)
  show "((\<exists>r flg'. rcl_byte d1 s flg = Some (r, flg') \<and> rotated 9 (unat s mod 9) (with_carry d1 flg) (with_carry r flg') \<and>
      (unat s mod 9 = 1 \<longrightarrow> on F_OF flg' = (bit r 7 \<noteq> on F_CF flg')) \<and> same_flags F_ARITH flg flg'))"
    by (rule rcl_byte_ok)
  show "((\<exists>r flg'. rcl_word d2 s flg = Some (r, flg') \<and> rotated 17 (unat s mod 17) (with_carry d2 flg) (with_carry r flg') \<and>
      (unat s mod 17 = 1 \<longrightarrow> on F_OF flg' = (bit r 15 \<noteq> on F_CF flg')) \<and> same_flags F_ARITH flg flg'))"
    by (rule rcl_word_ok)
  show "(unat s mod 33 \<notin> {1, 32} \<longrightarrow> (\<exists>r flg'. rcl_long d4 s flg = Some (r, flg') \<and> rotated 33 (unat s mod 33) (with_carry d4 flg) (with_carry r flg') \<and>
      (unat s mod 33 = 1 \<longrightarrow> on F_OF flg' = (bit r 31 \<noteq> on F_CF flg')) \<and> same_flags F_ARITH flg flg'))"
    by (intro impI rcl_long_ok) simp
  show "((\<exists>r flg'. rcr_byte d1 s flg = Some (r, flg') \<and> rotated 9 (unat s mod 9) (with_carry r flg') (with_carry d1 flg) \<and>
      (unat s mod 9 = 1 \<longrightarrow> on F_OF flg' = (bit r 7 \<noteq> bit r 6)) \<and> same_flags F_ARITH flg flg'))"
    by (rule rcr_byte_ok)
  show "((\<exists>r flg'. rcr_word d2 s flg = Some (r, flg') \<and> rotated 17 (unat s mod 17) (with_carry r flg') (with_carry d2 flg) \<and>
      (unat s mod 17 = 1 \<longrightarrow> on F_OF flg' = (bit r 15 \<noteq> bit r 14)) \<and> same_flags F_ARITH flg flg'))"
    by (rule rcr_word_ok)
  show "(unat s mod 33 \<noteq> 32 \<longrightarrow> (\<exists>r flg'. rcr_long d4 s flg = Some (r, flg') \<and> rotated 33 (unat s mod 33) (with_carry r flg') (with_carry d4 flg) \<and>
      (unat s mod 33 = 1 \<longrightarrow> on F_OF flg' = (bit r 31 \<noteq> bit r 30)) \<and> same_flags F_ARITH flg flg'))"
    by (intro impI rcr_long_ok) simp
qed

theorem x86_rotate_correct_witness:
  "\<exists>r flg'. rcl_long 0x80000001 4 0 = Some (r, flg') \<and> rotated 33 4 (with_carry (0x80000001 :: u32) 0) (with_carry r flg')"
  using x86_rotate_correct [where s = 4 and flg = 0 and ?d4.0 = "0x80000001"] by simp blast

text \<open>The shifts move the bits of the operand by the count, fill with zeros, with copies of the sign bit or
  with bits of the second operand, and set carry to the last bit that leaves the operand, overflow for
  a shift by one, and sign, zero and parity of the result. This holds for counts below the width
  and, for the left shifts and the 8-bit \<^verbatim>\<open>shr\<close>, up to 32.\<close>

theorem x86_shift_correct:
  assumes "unat (s :: u8) = n" "n \<le> 32"
  shows "(\<exists>x. shl_byte d1 s flg = Some x \<and> shl_spec d1 (push_bit n d1) n flg x) \<and>
    (\<exists>x. shl_word d2 s flg = Some x \<and> shl_spec d2 (push_bit n d2) n flg x) \<and>
    (\<exists>x. shl_long d4 s flg = Some x \<and> shl_spec d4 (push_bit n d4) n flg x) \<and>
    (\<exists>x. shr_byte d1 s flg = Some x \<and> shr_spec d1 (drop_bit n d1) n flg x) \<and>
    (n < 16 \<longrightarrow> (\<exists>x. shr_word d2 s flg = Some x \<and> shr_spec d2 (drop_bit n d2) n flg x)) \<and>
    (n < 32 \<longrightarrow> (\<exists>x. shr_long d4 s flg = Some x \<and> shr_spec d4 (drop_bit n d4) n flg x)) \<and>
    (n < 8 \<longrightarrow> (\<exists>x. sar_byte d1 s flg = Some x \<and> sar_spec d1 (signed_drop_bit n d1) n flg x)) \<and>
    (n < 16 \<longrightarrow> (\<exists>x. sar_word d2 s flg = Some x \<and> sar_spec d2 (signed_drop_bit n d2) n flg x)) \<and>
    (n < 32 \<longrightarrow> (\<exists>x. sar_long d4 s flg = Some x \<and> sar_spec d4 (signed_drop_bit n d4) n flg x)) \<and>
    (n < 16 \<longrightarrow> (\<exists>x. shld_word d2 f2 s flg = Some x \<and> shl_spec d2 (push_bit n d2 OR drop_bit (16 - n) f2) n flg x)) \<and>
    (n < 32 \<longrightarrow> (\<exists>x. shld_long d4 f4 s flg = Some x \<and> shl_spec d4 (push_bit n d4 OR drop_bit (32 - n) f4) n flg x)) \<and>
    (n < 16 \<longrightarrow> (\<exists>x. shrd_word d2 f2 s flg = Some x \<and> shr_spec d2 (drop_bit n d2 OR push_bit (16 - n) f2) n flg x)) \<and>
    (n < 32 \<longrightarrow> (\<exists>x. shrd_long d4 f4 s flg = Some x \<and> shr_spec d4 (drop_bit n d4 OR push_bit (32 - n) f4) n flg x))"
  using shl_byte_ok [OF assms] shl_word_ok [OF assms] shl_long_ok [OF assms] shr_byte_ok [OF assms]
    shr_word_ok [OF assms(1)] shr_long_ok [OF assms(1)] sar_byte_ok [OF assms(1)] sar_word_ok [OF assms(1)] sar_long_ok [OF assms(1)]
    shld_word_ok [OF assms, of d2 f2 flg] shld_long_ok [OF assms, of d4 f4 flg] shrd_word_ok [OF assms(1)] shrd_long_ok [OF assms(1)]
  by auto

theorem x86_shift_correct_witness:
  "(\<exists>x. shl_byte 0xC1 2 0 = Some x \<and> shl_spec (0xC1 :: u8) (push_bit 2 0xC1) 2 0 x) \<and> (\<exists>x. sar_byte 0xC1 2 0 = Some x \<and> sar_spec (0xC1 :: u8) (signed_drop_bit 2 0xC1) 2 0 x)"
  using x86_shift_correct [where s = 2 and n = 2 and flg = 0 and ?d1.0 = "0xC1"] by simp

text \<open>The arithmetic right shift reduces its count modulo the width, so that a shift by the width returns
  the operand unchanged instead of its sign, and its branch for larger counts is never reached; the
  16- and 32-bit \<^verbatim>\<open>shr\<close> by the width lose the last bit moved out and clear parity although the result
  is zero, unlike the 8-bit one.\<close>

theorem x86_shift_wrong:
  "sar_byte d1 8 flg = Some (d1, flg) \<and> sar_word d2 16 flg = Some (d2, flg) \<and>
   (\<exists>f. shr_word 0x8000 16 flg = Some (0, f) \<and> \<not> on F_CF f \<and> \<not> on F_PF f) \<and>
   (\<exists>f. shr_long 0x80000000 32 flg = Some (0, f) \<and> \<not> on F_CF f \<and> \<not> on F_PF f) \<and>
   (\<exists>f. shr_byte 0x80 8 flg = Some (0, f) \<and> on F_CF f \<and> on F_PF f)"
  by (simp add: sar_byte_def sar_word_def shr_word_def shr_long_def shr_byte_def c_shr_def SET_cond x86_flags)

end
