(* ===== verification/PCIBus.thy ===== *)
theory PCIBus
  imports Esc_Prelude
begin

unbundle bit_operations_syntax

text \<open>
  The port functions of the video driver (\<^verbatim>\<open>pcibus.h\<close>, \<^verbatim>\<open>VBE::inx\<close> and \<^verbatim>\<open>VBE::outx\<close> of \<^verbatim>\<open>vbe.cc\<close>). The code of
  the video BIOS is emulated, but its port accesses reach the hardware, except for those to the PCI
  configuration ports: the driver answers them itself and shows the BIOS only the graphics card. The hardware
  is a parameter that answers a read from the accesses made so far; the state records these accesses. The
  template argument \<^verbatim>\<open>T\<close> is the number of bytes of the access (\<open>n\<close>), 1, 2 or 4.
\<close>

datatype io_event = In nat u16 u32 | Out nat u16 u32 | PciRead u32 u32

record pci_device =
  d_bus :: u8
  d_dev :: u8
  d_func :: u8
  d_deviceId :: u16
  d_vendorId :: u16

record hardware =
  hw_in :: "io_event list \<Rightarrow> nat \<Rightarrow> u16 \<Rightarrow> u32"
  hw_pci :: "io_event list \<Rightarrow> u32 \<Rightarrow> u32"

record pio =
  pci_dev :: pci_device
  pci_addr :: u32
  pci_addrValid :: bool
  io_log :: "io_event list"

definition PCI_ADDR_REG :: u16 where "PCI_ADDR_REG = 0xCF8"
definition PCI_DATA_REG :: u16 where "PCI_DATA_REG = 0xCFC"

definition vgabdf :: "pci_device \<Rightarrow> u32" where
  "vgabdf d = push_bit 8 (ucast (d_bus d)) OR push_bit 3 (ucast (d_dev d)) OR ucast (d_func d)"

definition PCIBus_write :: "nat \<Rightarrow> u16 \<Rightarrow> u32 \<Rightarrow> pio \<Rightarrow> bool \<times> pio" where
  "PCIBus_write n port val p =
     (if port = PCI_ADDR_REG then
        if n \<noteq> 4 then (True, p)
        else
          let devbdf = drop_bit 8 val AND 0xFFFF in
          if devbdf \<noteq> vgabdf (pci_dev p) then (True, p\<lparr>pci_addrValid := False\<rparr>)
          else (True, p\<lparr>pci_addrValid := True, pci_addr := val AND 0xFC\<rparr>)
      else if port = PCI_DATA_REG then (True, p)
      else (False, p))"

definition PCIBus_read :: "hardware \<Rightarrow> nat \<Rightarrow> u16 \<Rightarrow> pio \<Rightarrow> bool \<times> u32 \<times> pio" where
  "PCIBus_read hw n port p =
     (if port AND NOT 3 = PCI_ADDR_REG then (True, take_bit (8 * n) (pci_addr p), p)
      else if port AND NOT 3 = PCI_DATA_REG then
        if \<not> pci_addrValid p then (True, 0, p)
        else
          let result = \<lambda>raw_val. take_bit (8 * n) (drop_bit (unat (port AND 3) * 8) raw_val) in
          if pci_addr p = 0 then
            (True, result (ucast (d_vendorId (pci_dev p)) OR push_bit 16 (ucast (d_deviceId (pci_dev p)))), p)
          else if pci_addr p \<in> {4, 8, 0x10, 0x14, 0x18, 0x1c, 0x20, 0x24} then
            let raw_val = hw_pci hw (io_log p) (pci_addr p) in
            (True, result raw_val, p\<lparr>io_log := io_log p @ [PciRead (pci_addr p) raw_val]\<rparr>)
          else (True, 0, p)
      else (False, 0, p))"

definition VBE_inx :: "hardware \<Rightarrow> nat \<Rightarrow> u16 \<Rightarrow> pio \<Rightarrow> u32 \<times> pio" where
  "VBE_inx hw n port p =
     (case PCIBus_read hw n port p of (done, ret, p) \<Rightarrow>
        if \<not> done then
          let ret = take_bit (8 * n) (hw_in hw (io_log p) n port) in
          (ret, p\<lparr>io_log := io_log p @ [In n port ret]\<rparr>)
        else (ret, p))"

definition VBE_outx :: "nat \<Rightarrow> u16 \<Rightarrow> u32 \<Rightarrow> pio \<Rightarrow> pio" where
  "VBE_outx n port val p =
     (case PCIBus_write n port val p of (done, p) \<Rightarrow>
        if \<not> done then p\<lparr>io_log := io_log p @ [Out n port val]\<rparr> else p)"

text \<open>The functions the emulator calls, one per width.\<close>

definition sys_inb :: "hardware \<Rightarrow> u16 \<Rightarrow> pio \<Rightarrow> u8 \<times> pio" where
  "sys_inb hw port p = map_prod ucast id (VBE_inx hw 1 port p)"

definition sys_inw :: "hardware \<Rightarrow> u16 \<Rightarrow> pio \<Rightarrow> u16 \<times> pio" where
  "sys_inw hw port p = map_prod ucast id (VBE_inx hw 2 port p)"

definition sys_inl :: "hardware \<Rightarrow> u16 \<Rightarrow> pio \<Rightarrow> u32 \<times> pio" where
  "sys_inl hw port p = VBE_inx hw 4 port p"

definition sys_outb :: "u16 \<Rightarrow> u8 \<Rightarrow> pio \<Rightarrow> pio" where
  "sys_outb port val p = VBE_outx 1 port (ucast val) p"

definition sys_outw :: "u16 \<Rightarrow> u16 \<Rightarrow> pio \<Rightarrow> pio" where
  "sys_outw port val p = VBE_outx 2 port (ucast val) p"

definition sys_outl :: "u16 \<Rightarrow> u32 \<Rightarrow> pio \<Rightarrow> pio" where
  "sys_outl port val p = VBE_outx 4 port val p"

section \<open>What the BIOS can reach\<close>

text \<open>A sequence of port accesses, and the accesses among them that reach the hardware.\<close>

datatype io_access = Read nat u16 | Write nat u16 u32

fun io_run :: "hardware \<Rightarrow> io_access list \<Rightarrow> pio \<Rightarrow> pio" where
  "io_run hw [] p = p"
| "io_run hw (Read n port # as) p = io_run hw as (snd (VBE_inx hw n port p))"
| "io_run hw (Write n port v # as) p = io_run hw as (VBE_outx n port v p)"

definition config_port :: "u16 \<Rightarrow> bool" where
  "config_port port \<longleftrightarrow> port AND NOT 3 = PCI_ADDR_REG \<or> port AND NOT 3 = PCI_DATA_REG"

definition config_regs :: "u32 set" where
  "config_regs = {4, 8, 0x10, 0x14, 0x18, 0x1c, 0x20, 0x24}"

fun harmless :: "io_event \<Rightarrow> bool" where
  "harmless (In n port v) = (\<not> config_port port)"
| "harmless (Out n port v) = (port \<noteq> PCI_ADDR_REG \<and> port \<noteq> PCI_DATA_REG)"
| "harmless (PciRead a v) = (a \<in> config_regs)"

lemma PCIBus_read_harmless:
  "PCIBus_read hw n port p = (done, v, p') \<Longrightarrow>
     done = config_port port \<and> pci_dev p' = pci_dev p \<and> (\<forall>e\<in>set (io_log p'). e \<in> set (io_log p) \<or> harmless e)"
  by (auto simp: PCIBus_read_def Let_def config_port_def config_regs_def split: if_splits)

lemma VBE_inx_harmless: "e \<in> set (io_log (snd (VBE_inx hw n port p))) \<Longrightarrow> e \<in> set (io_log p) \<or> harmless e"
  by (auto simp: VBE_inx_def Let_def split: prod.splits if_splits dest!: PCIBus_read_harmless)

lemma VBE_outx_harmless: "e \<in> set (io_log (VBE_outx n port v p)) \<Longrightarrow> e \<in> set (io_log p) \<or> harmless e"
  by (auto simp: VBE_outx_def PCIBus_write_def Let_def split: prod.splits if_splits)

lemma io_run_harmless: "e \<in> set (io_log (io_run hw as p)) \<Longrightarrow> e \<in> set (io_log p) \<or> harmless e"
  by (induction hw as p rule: io_run.induct) (auto dest: VBE_inx_harmless VBE_outx_harmless)

lemma VBE_inx_dev: "pci_dev (snd (VBE_inx hw n port p)) = pci_dev p"
  by (auto simp: VBE_inx_def Let_def split: prod.splits if_splits dest!: PCIBus_read_harmless)

lemma io_run_dev: "pci_dev (io_run hw as p) = pci_dev p"
  by (induction hw as p rule: io_run.induct)
    (auto simp: VBE_inx_dev VBE_outx_def PCIBus_write_def Let_def split: prod.splits if_splits)

text \<open>Whatever sequence of port accesses the emulated BIOS makes, no read of the PCI configuration ports reaches the
  hardware, no write to the address or data register does, and the only configuration reads the driver makes are of the
  command, class and base address registers of the graphics card. After the BIOS has selected a register of
  another device it reads 0, and after it has selected one of the card it reads that register, at every offset and
  width.\<close>

theorem PCIBus_isolates:
  assumes "port AND NOT 3 = PCI_DATA_REG" and "p' = io_run hw [Write 4 PCI_ADDR_REG val] p"
  shows "(\<forall>e\<in>set (io_log (io_run hw as p)). e \<in> set (io_log p) \<or> harmless e)
    \<and> (drop_bit 8 val AND 0xFFFF \<noteq> vgabdf (pci_dev p) \<longrightarrow> fst (VBE_inx hw n port p') = 0)
    \<and> (drop_bit 8 val AND 0xFFFF = vgabdf (pci_dev p) \<and> val AND 0xFC \<in> config_regs \<longrightarrow>
         fst (VBE_inx hw n port p') = take_bit (8 * n) (drop_bit (unat (port AND 3) * 8) (hw_pci hw (io_log p) (val AND 0xFC))))"
proof -
  have "PCI_DATA_REG \<noteq> PCI_ADDR_REG" by (simp add: PCI_DATA_REG_def PCI_ADDR_REG_def)
  moreover have "val AND 0xFC \<in> config_regs \<Longrightarrow> val AND 0xFC \<noteq> 0" by (auto simp: config_regs_def)
  ultimately show ?thesis
    using io_run_harmless [of _ hw as p] assms
    by (auto simp: VBE_inx_def VBE_outx_def PCIBus_read_def PCIBus_write_def Let_def config_regs_def)
qed

definition sample_pio :: pio where
  "sample_pio = \<lparr>pci_dev = \<lparr>d_bus = 0, d_dev = 2, d_func = 0, d_deviceId = 0x1111, d_vendorId = 0x1234\<rparr>, pci_addr = 0,
     pci_addrValid = False, io_log = []\<rparr>"

theorem PCIBus_isolates_witness:
  "fst (VBE_inx \<lparr>hw_in = (\<lambda>_ _ _. 0), hw_pci = (\<lambda>_ a. if a = 0x10 then 0xE0000008 else 0)\<rparr> 1 0xCFF
     (io_run \<lparr>hw_in = (\<lambda>_ _ _. 0), hw_pci = (\<lambda>_ a. if a = 0x10 then 0xE0000008 else 0)\<rparr> [Write 4 PCI_ADDR_REG 0x80001010] sample_pio)) = 0xE0"
proof -
  let ?hw = "\<lparr>hw_in = (\<lambda>_ _ _. 0), hw_pci = (\<lambda>_ a. if a = 0x10 then 0xE0000008 else 0)\<rparr>"
  have "(0xCFF :: u16) AND NOT 3 = PCI_DATA_REG" "drop_bit 8 (0x80001010 :: u32) AND 0xFFFF = vgabdf (pci_dev sample_pio)"
    "(0x80001010 :: u32) AND 0xFC \<in> config_regs" "unat ((0xCFF :: u16) AND 3) = 3" "(0x80001010 :: u32) AND 0xFC = 0x10"
    by (simp_all add: PCI_DATA_REG_def vgabdf_def sample_pio_def config_regs_def push_bit_eq_mult drop_bit_eq_div)
  then show ?thesis
    using PCIBus_isolates [where port = "0xCFF" and hw = ?hw and val = "0x80001010" and p = sample_pio and n = 1] by (simp add: take_bit_eq_mod drop_bit_eq_div)
qed

text \<open>The read function compares the port rounded down to a multiple of four, the write function the port itself: a write
  to one of the upper three bytes of the data register is passed to the hardware.\<close>

lemma PCIBus_write_leaks:
  "config_port 0xCFD" "VBE_outx 1 0xCFD v p = p\<lparr>io_log := io_log p @ [Out 1 0xCFD v]\<rparr>"
  by (simp_all add: config_port_def VBE_outx_def PCIBus_write_def PCI_ADDR_REG_def PCI_DATA_REG_def)

end
