(* ===== verification/X86_Machine.thy ===== *)
theory X86_Machine
  imports X86_Flags PCIBus "HOL-Library.Monad_Syntax"
begin

unbundle bit_operations_syntax

text \<open>
  The machine state of the emulator (\<^verbatim>\<open>x86emu/regs.h\<close>), its memory functions (\<^verbatim>\<open>sys.c\<close>), the stack
  operations of \<^verbatim>\<open>prim_ops.c\<close>, and instruction fetch, operand decoding and interrupt handling
  (\<^verbatim>\<open>decode.c\<close>). Registers are stored at 32 bit; the 16- and 8-bit registers are views of them, as the
  union of the source makes them on a little-endian machine; \<open>x_pio\<close> is the state of the port functions the
  driver installs (theory \<open>PCIBus\<close>), and \<open>x_tsc\<close> is the static counter of the \<open>rdtsc\<close> handler. The emulated memory is a block of
  \<open>mem_size\<close> bytes. An access outside of the block first sets the halted flag and is then still carried out
  by the source; since this reads or writes foreign memory, the model stops with \<^term>\<open>None\<close>. The tracing and
  checking code of the debug configuration is left out.
\<close>

section \<open>State\<close>

record x86 =
  R_EAX :: u32
  R_EBX :: u32
  R_ECX :: u32
  R_EDX :: u32
  R_ESP :: u32
  R_EBP :: u32
  R_ESI :: u32
  R_EDI :: u32
  R_EIP :: u32
  R_FLG :: u32
  R_CS :: u16
  R_DS :: u16
  R_SS :: u16
  R_ES :: u16
  R_FS :: u16
  R_GS :: u16
  x_mode :: u32
  x_intr :: u32
  x_intno :: u8
  mem_size :: u32
  x_mem :: "u32 \<Rightarrow> u8"
  x_pio :: pio
  x_tsc :: u32

text \<open>The views of a 32-bit register.\<close>

definition lo16 :: "u32 \<Rightarrow> u16" where "lo16 r = ucast r"
definition lo8 :: "u32 \<Rightarrow> u8" where "lo8 r = ucast r"
definition hi8 :: "u32 \<Rightarrow> u8" where "hi8 r = ucast (drop_bit 8 r)"

definition set_lo16 :: "u16 \<Rightarrow> u32 \<Rightarrow> u32" where
  "set_lo16 v r = (r AND 0xFFFF0000) OR ucast v"

definition set_lo8 :: "u8 \<Rightarrow> u32 \<Rightarrow> u32" where
  "set_lo8 v r = (r AND 0xFFFFFF00) OR ucast v"

definition set_hi8 :: "u8 \<Rightarrow> u32 \<Rightarrow> u32" where
  "set_hi8 v r = (r AND 0xFFFF00FF) OR push_bit 8 (ucast v)"

abbreviation R_AX :: "x86 \<Rightarrow> u16" where "R_AX M \<equiv> lo16 (R_EAX M)"
abbreviation R_BX :: "x86 \<Rightarrow> u16" where "R_BX M \<equiv> lo16 (R_EBX M)"
abbreviation R_CX :: "x86 \<Rightarrow> u16" where "R_CX M \<equiv> lo16 (R_ECX M)"
abbreviation R_DX :: "x86 \<Rightarrow> u16" where "R_DX M \<equiv> lo16 (R_EDX M)"
abbreviation R_SP :: "x86 \<Rightarrow> u16" where "R_SP M \<equiv> lo16 (R_ESP M)"
abbreviation R_BP :: "x86 \<Rightarrow> u16" where "R_BP M \<equiv> lo16 (R_EBP M)"
abbreviation R_SI :: "x86 \<Rightarrow> u16" where "R_SI M \<equiv> lo16 (R_ESI M)"
abbreviation R_DI :: "x86 \<Rightarrow> u16" where "R_DI M \<equiv> lo16 (R_EDI M)"
abbreviation R_IP :: "x86 \<Rightarrow> u16" where "R_IP M \<equiv> lo16 (R_EIP M)"
abbreviation R_AL :: "x86 \<Rightarrow> u8" where "R_AL M \<equiv> lo8 (R_EAX M)"
abbreviation R_AH :: "x86 \<Rightarrow> u8" where "R_AH M \<equiv> hi8 (R_EAX M)"

definition SYSMODE_SEG_DS_SS :: u32 where "SYSMODE_SEG_DS_SS = 0x00000001"
definition SYSMODE_SEGOVR_CS :: u32 where "SYSMODE_SEGOVR_CS = 0x00000002"
definition SYSMODE_SEGOVR_DS :: u32 where "SYSMODE_SEGOVR_DS = 0x00000004"
definition SYSMODE_SEGOVR_ES :: u32 where "SYSMODE_SEGOVR_ES = 0x00000008"
definition SYSMODE_SEGOVR_FS :: u32 where "SYSMODE_SEGOVR_FS = 0x00000010"
definition SYSMODE_SEGOVR_GS :: u32 where "SYSMODE_SEGOVR_GS = 0x00000020"
definition SYSMODE_SEGOVR_SS :: u32 where "SYSMODE_SEGOVR_SS = 0x00000040"
definition SYSMODE_PREFIX_REPE :: u32 where "SYSMODE_PREFIX_REPE = 0x00000080"
definition SYSMODE_PREFIX_REPNE :: u32 where "SYSMODE_PREFIX_REPNE = 0x00000100"
definition SYSMODE_PREFIX_DATA :: u32 where "SYSMODE_PREFIX_DATA = 0x00000200"
definition SYSMODE_PREFIX_ADDR :: u32 where "SYSMODE_PREFIX_ADDR = 0x00000400"

definition SYSMODE_SEGMASK :: u32 where
  "SYSMODE_SEGMASK = SYSMODE_SEG_DS_SS OR SYSMODE_SEGOVR_CS OR SYSMODE_SEGOVR_DS OR SYSMODE_SEGOVR_ES OR
     SYSMODE_SEGOVR_FS OR SYSMODE_SEGOVR_GS OR SYSMODE_SEGOVR_SS"

definition SYSMODE_CLRMASK :: u32 where
  "SYSMODE_CLRMASK = SYSMODE_SEG_DS_SS OR SYSMODE_SEGOVR_CS OR SYSMODE_SEGOVR_DS OR SYSMODE_SEGOVR_ES OR
     SYSMODE_SEGOVR_FS OR SYSMODE_SEGOVR_GS OR SYSMODE_SEGOVR_SS OR SYSMODE_PREFIX_DATA OR SYSMODE_PREFIX_ADDR"

definition INTR_SYNCH :: u32 where "INTR_SYNCH = 0x1"
definition INTR_HALTED :: u32 where "INTR_HALTED = 0x4"

definition X86EMU_halt_sys :: "x86 \<Rightarrow> x86" where
  "X86EMU_halt_sys M = M\<lparr>x_intr := x_intr M OR INTR_HALTED\<rparr>"

definition x86emu_intr_raise :: "u8 \<Rightarrow> x86 \<Rightarrow> x86" where
  "x86emu_intr_raise intrnum M = M\<lparr>x_intno := intrnum, x_intr := x_intr M OR INTR_SYNCH\<rparr>"

section \<open>Memory\<close>

definition bytes_in :: "nat \<Rightarrow> u32 \<Rightarrow> x86 \<Rightarrow> bool" where
  "bytes_in n addr M \<longleftrightarrow> unat addr + n \<le> unat (mem_size M)"

definition rdb :: "u32 \<Rightarrow> x86 \<Rightarrow> (u8 \<times> x86) option" where
  "rdb addr M =
     (let M = (if addr > mem_size M - 1 then X86EMU_halt_sys M else M) in
      if bytes_in 1 addr M then Some (x_mem M addr, M) else None)"

definition rdw :: "u32 \<Rightarrow> x86 \<Rightarrow> (u16 \<times> x86) option" where
  "rdw addr M =
     (let M = (if addr > mem_size M - 2 then X86EMU_halt_sys M else M) in
      if bytes_in 2 addr M then Some (ucast (x_mem M addr) OR push_bit 8 (ucast (x_mem M (addr + 1))), M) else None)"

definition rdl :: "u32 \<Rightarrow> x86 \<Rightarrow> (u32 \<times> x86) option" where
  "rdl addr M =
     (let M = (if addr > mem_size M - 4 then X86EMU_halt_sys M else M) in
      if bytes_in 4 addr M then
        Some (ucast (x_mem M addr) OR push_bit 8 (ucast (x_mem M (addr + 1))) OR
          push_bit 16 (ucast (x_mem M (addr + 2))) OR push_bit 24 (ucast (x_mem M (addr + 3))), M)
      else None)"

definition wrb :: "u32 \<Rightarrow> u8 \<Rightarrow> x86 \<Rightarrow> x86 option" where
  "wrb addr val M =
     (let M = (if addr > mem_size M - 1 then X86EMU_halt_sys M else M) in
      if bytes_in 1 addr M then Some (M\<lparr>x_mem := (x_mem M)(addr := val)\<rparr>) else None)"

definition wrw :: "u32 \<Rightarrow> u16 \<Rightarrow> x86 \<Rightarrow> x86 option" where
  "wrw addr val M =
     (let M = (if addr > mem_size M - 2 then X86EMU_halt_sys M else M) in
      if bytes_in 2 addr M then
        Some (M\<lparr>x_mem := (x_mem M)(addr := ucast val, addr + 1 := ucast (drop_bit 8 val))\<rparr>)
      else None)"

definition wrl :: "u32 \<Rightarrow> u32 \<Rightarrow> x86 \<Rightarrow> x86 option" where
  "wrl addr val M =
     (let M = (if addr > mem_size M - 4 then X86EMU_halt_sys M else M) in
      if bytes_in 4 addr M then
        Some (M\<lparr>x_mem := (x_mem M)(addr := ucast val, addr + 1 := ucast (drop_bit 8 val),
          addr + 2 := ucast (drop_bit 16 val), addr + 3 := ucast (drop_bit 24 val))\<rparr>)
      else None)"

definition mem_access_word :: "u32 \<Rightarrow> x86 \<Rightarrow> (u16 \<times> x86) option" where
  "mem_access_word addr M = rdw addr M"

section \<open>Stack\<close>

definition push_word :: "u16 \<Rightarrow> x86 \<Rightarrow> x86 option" where
  "push_word w M =
     (let M = M\<lparr>R_ESP := set_lo16 (R_SP M - 2) (R_ESP M)\<rparr> in
      wrw (push_bit 4 (ucast (R_SS M)) + ucast (R_SP M)) w M)"

definition push_long :: "u32 \<Rightarrow> x86 \<Rightarrow> x86 option" where
  "push_long w M =
     (let M = M\<lparr>R_ESP := set_lo16 (R_SP M - 4) (R_ESP M)\<rparr> in
      wrl (push_bit 4 (ucast (R_SS M)) + ucast (R_SP M)) w M)"

definition pop_word :: "x86 \<Rightarrow> (u16 \<times> x86) option" where
  "pop_word M =
     do {
       (res, M) \<leftarrow> rdw (push_bit 4 (ucast (R_SS M)) + ucast (R_SP M)) M;
       Some (res, M\<lparr>R_ESP := set_lo16 (R_SP M + 2) (R_ESP M)\<rparr>)
     }"

definition pop_long :: "x86 \<Rightarrow> (u32 \<times> x86) option" where
  "pop_long M =
     do {
       (res, M) \<leftarrow> rdl (push_bit 4 (ucast (R_SS M)) + ucast (R_SP M)) M;
       Some (res, M\<lparr>R_ESP := set_lo16 (R_SP M + 4) (R_ESP M)\<rparr>)
     }"

section \<open>Interrupts\<close>

text \<open>A handler that the client installed for the interrupt is the argument \<open>hook\<close>.\<close>

definition x86emu_intr_handle :: "(u8 \<Rightarrow> (x86 \<Rightarrow> x86 option) option) \<Rightarrow> x86 \<Rightarrow> x86 option" where
  "x86emu_intr_handle hook M =
     (if x_intr M AND INTR_SYNCH \<noteq> 0 then
        (let intno = x_intno M in
         case hook intno of
           Some h \<Rightarrow> h M
         | None \<Rightarrow>
             do {
               M \<leftarrow> push_word (ucast (R_FLG M)) M;
               let M = M\<lparr>R_FLG := CLEAR_FLAG F_IF (R_FLG M)\<rparr>;
               let M = M\<lparr>R_FLG := CLEAR_FLAG F_TF (R_FLG M)\<rparr>;
               M \<leftarrow> push_word (R_CS M) M;
               (cs, M) \<leftarrow> mem_access_word (ucast intno * 4 + 2) M;
               let M = M\<lparr>R_CS := cs\<rparr>;
               M \<leftarrow> push_word (R_IP M) M;
               (ip, M) \<leftarrow> mem_access_word (ucast intno * 4) M;
               let M = M\<lparr>R_EIP := set_lo16 ip (R_EIP M)\<rparr>;
               Some (M\<lparr>x_intr := 0\<rparr>)
             })
      else Some M)"

definition X86EMU_prepareForInt :: "u32 \<Rightarrow> x86 \<Rightarrow> x86 option" where
  "X86EMU_prepareForInt num M =
     do {
       M \<leftarrow> push_word (ucast (R_FLG M)) M;
       let M = M\<lparr>R_FLG := CLEAR_FLAG F_IF (R_FLG M)\<rparr>;
       let M = M\<lparr>R_FLG := CLEAR_FLAG F_TF (R_FLG M)\<rparr>;
       M \<leftarrow> push_word (R_CS M) M;
       (cs, M) \<leftarrow> mem_access_word (num * 4 + 2) M;
       let M = M\<lparr>R_CS := cs\<rparr>;
       M \<leftarrow> push_word (R_IP M) M;
       (ip, M) \<leftarrow> mem_access_word (num * 4) M;
       let M = M\<lparr>R_EIP := set_lo16 ip (R_EIP M)\<rparr>;
       Some (M\<lparr>x_intr := 0\<rparr>)
     }"

definition x86emuOp_iret :: "x86 \<Rightarrow> x86 option" where
  "x86emuOp_iret M =
     do {
       (ip, M) \<leftarrow> pop_word M;
       let M = M\<lparr>R_EIP := set_lo16 ip (R_EIP M)\<rparr>;
       (cs, M) \<leftarrow> pop_word M;
       let M = M\<lparr>R_CS := cs\<rparr>;
       (flg, M) \<leftarrow> pop_word M;
       let M = M\<lparr>R_FLG := ucast flg\<rparr>;
       Some (M\<lparr>x_mode := x_mode M AND NOT SYSMODE_CLRMASK\<rparr>)
     }"

section \<open>Instruction fetch\<close>

definition fetch_byte_imm :: "x86 \<Rightarrow> (u8 \<times> x86) option" where
  "fetch_byte_imm M =
     (let ip = R_IP M; M = M\<lparr>R_EIP := set_lo16 (ip + 1) (R_EIP M)\<rparr> in
      rdb (push_bit 4 (ucast (R_CS M)) + ucast ip) M)"

definition fetch_word_imm :: "x86 \<Rightarrow> (u16 \<times> x86) option" where
  "fetch_word_imm M =
     do {
       (fetched, M) \<leftarrow> rdw (push_bit 4 (ucast (R_CS M)) + ucast (R_IP M)) M;
       Some (fetched, M\<lparr>R_EIP := set_lo16 (R_IP M + 2) (R_EIP M)\<rparr>)
     }"

definition fetch_long_imm :: "x86 \<Rightarrow> (u32 \<times> x86) option" where
  "fetch_long_imm M =
     do {
       (fetched, M) \<leftarrow> rdl (push_bit 4 (ucast (R_CS M)) + ucast (R_IP M)) M;
       Some (fetched, M\<lparr>R_EIP := set_lo16 (R_IP M + 4) (R_EIP M)\<rparr>)
     }"

definition fetch_decode_modrm :: "x86 \<Rightarrow> ((nat \<times> nat \<times> nat) \<times> x86) option" where
  "fetch_decode_modrm M =
     (let ip = R_IP M; M = M\<lparr>R_EIP := set_lo16 (ip + 1) (R_EIP M)\<rparr> in
      do {
        (fetched, M) \<leftarrow> rdb (push_bit 4 (ucast (R_CS M)) + ucast ip) M;
        Some ((unat (drop_bit 6 fetched AND 0x03), unat (drop_bit 3 fetched AND 0x07), unat (fetched AND 0x07)), M)
      })"

section \<open>Data access\<close>

definition get_data_segment :: "x86 \<Rightarrow> u32 \<times> x86" where
  "get_data_segment M =
     (let m = x_mode M AND SYSMODE_SEGMASK in
      if m = 0 \<or> m = SYSMODE_SEGOVR_DS \<or> m = SYSMODE_SEGOVR_DS OR SYSMODE_SEG_DS_SS then (ucast (R_DS M), M)
      else if m = SYSMODE_SEG_DS_SS then (ucast (R_SS M), M)
      else if m = SYSMODE_SEGOVR_CS \<or> m = SYSMODE_SEGOVR_CS OR SYSMODE_SEG_DS_SS then (ucast (R_CS M), M)
      else if m = SYSMODE_SEGOVR_ES \<or> m = SYSMODE_SEGOVR_ES OR SYSMODE_SEG_DS_SS then (ucast (R_ES M), M)
      else if m = SYSMODE_SEGOVR_FS \<or> m = SYSMODE_SEGOVR_FS OR SYSMODE_SEG_DS_SS then (ucast (R_FS M), M)
      else if m = SYSMODE_SEGOVR_GS \<or> m = SYSMODE_SEGOVR_GS OR SYSMODE_SEG_DS_SS then (ucast (R_GS M), M)
      else if m = SYSMODE_SEGOVR_SS \<or> m = SYSMODE_SEGOVR_SS OR SYSMODE_SEG_DS_SS then (ucast (R_SS M), M)
      else (0, X86EMU_halt_sys M))"

definition fetch_data_byte :: "u32 \<Rightarrow> x86 \<Rightarrow> (u8 \<times> x86) option" where
  "fetch_data_byte offset M = (case get_data_segment M of (seg, M) \<Rightarrow> rdb (push_bit 4 seg + offset) M)"

definition fetch_data_word :: "u32 \<Rightarrow> x86 \<Rightarrow> (u16 \<times> x86) option" where
  "fetch_data_word offset M = (case get_data_segment M of (seg, M) \<Rightarrow> rdw (push_bit 4 seg + offset) M)"

definition fetch_data_long :: "u32 \<Rightarrow> x86 \<Rightarrow> (u32 \<times> x86) option" where
  "fetch_data_long offset M = (case get_data_segment M of (seg, M) \<Rightarrow> rdl (push_bit 4 seg + offset) M)"

definition fetch_data_byte_abs :: "u32 \<Rightarrow> u32 \<Rightarrow> x86 \<Rightarrow> (u8 \<times> x86) option" where
  "fetch_data_byte_abs segment offset M = rdb (push_bit 4 segment + offset) M"

definition fetch_data_word_abs :: "u32 \<Rightarrow> u32 \<Rightarrow> x86 \<Rightarrow> (u16 \<times> x86) option" where
  "fetch_data_word_abs segment offset M = rdw (push_bit 4 segment + offset) M"

definition fetch_data_long_abs :: "u32 \<Rightarrow> u32 \<Rightarrow> x86 \<Rightarrow> (u32 \<times> x86) option" where
  "fetch_data_long_abs segment offset M = rdl (push_bit 4 segment + offset) M"

definition store_data_byte :: "u32 \<Rightarrow> u8 \<Rightarrow> x86 \<Rightarrow> x86 option" where
  "store_data_byte offset val M = (case get_data_segment M of (seg, M) \<Rightarrow> wrb (push_bit 4 seg + offset) val M)"

definition store_data_word :: "u32 \<Rightarrow> u16 \<Rightarrow> x86 \<Rightarrow> x86 option" where
  "store_data_word offset val M = (case get_data_segment M of (seg, M) \<Rightarrow> wrw (push_bit 4 seg + offset) val M)"

definition store_data_long :: "u32 \<Rightarrow> u32 \<Rightarrow> x86 \<Rightarrow> x86 option" where
  "store_data_long offset val M = (case get_data_segment M of (seg, M) \<Rightarrow> wrl (push_bit 4 seg + offset) val M)"

definition store_data_byte_abs :: "u32 \<Rightarrow> u32 \<Rightarrow> u8 \<Rightarrow> x86 \<Rightarrow> x86 option" where
  "store_data_byte_abs segment offset val M = wrb (push_bit 4 segment + offset) val M"

definition store_data_word_abs :: "u32 \<Rightarrow> u32 \<Rightarrow> u16 \<Rightarrow> x86 \<Rightarrow> x86 option" where
  "store_data_word_abs segment offset val M = wrw (push_bit 4 segment + offset) val M"

definition store_data_long_abs :: "u32 \<Rightarrow> u32 \<Rightarrow> u32 \<Rightarrow> x86 \<Rightarrow> x86 option" where
  "store_data_long_abs segment offset val M = wrl (push_bit 4 segment + offset) val M"

section \<open>Registers of an instruction\<close>

text \<open>The decoders return a pointer into the registers; here it is the name of the register, with its
  read and write access. A number without a register halts the machine and gives a null pointer.\<close>

datatype reg8 = AL | CL | DL | BL | AH | CH | DH | BH
datatype reg16 = AX | CX | DX | BX | SP | BP | SI | DI
datatype reg32 = EAX | ECX | EDX | EBX | ESP | EBP | ESI | EDI
datatype segreg = ES | CS | SS | DS | FS | GS

fun get_reg32 :: "reg32 \<Rightarrow> x86 \<Rightarrow> u32" where
  "get_reg32 EAX M = R_EAX M"
| "get_reg32 ECX M = R_ECX M"
| "get_reg32 EDX M = R_EDX M"
| "get_reg32 EBX M = R_EBX M"
| "get_reg32 ESP M = R_ESP M"
| "get_reg32 EBP M = R_EBP M"
| "get_reg32 ESI M = R_ESI M"
| "get_reg32 EDI M = R_EDI M"

fun upd_reg32 :: "reg32 \<Rightarrow> (u32 \<Rightarrow> u32) \<Rightarrow> x86 \<Rightarrow> x86" where
  "upd_reg32 EAX f M = M\<lparr>R_EAX := f (R_EAX M)\<rparr>"
| "upd_reg32 ECX f M = M\<lparr>R_ECX := f (R_ECX M)\<rparr>"
| "upd_reg32 EDX f M = M\<lparr>R_EDX := f (R_EDX M)\<rparr>"
| "upd_reg32 EBX f M = M\<lparr>R_EBX := f (R_EBX M)\<rparr>"
| "upd_reg32 ESP f M = M\<lparr>R_ESP := f (R_ESP M)\<rparr>"
| "upd_reg32 EBP f M = M\<lparr>R_EBP := f (R_EBP M)\<rparr>"
| "upd_reg32 ESI f M = M\<lparr>R_ESI := f (R_ESI M)\<rparr>"
| "upd_reg32 EDI f M = M\<lparr>R_EDI := f (R_EDI M)\<rparr>"

fun wide16 :: "reg16 \<Rightarrow> reg32" where
  "wide16 AX = EAX" | "wide16 CX = ECX" | "wide16 DX = EDX" | "wide16 BX = EBX"
| "wide16 SP = ESP" | "wide16 BP = EBP" | "wide16 SI = ESI" | "wide16 DI = EDI"

definition get_reg16 :: "reg16 \<Rightarrow> x86 \<Rightarrow> u16" where
  "get_reg16 r M = lo16 (get_reg32 (wide16 r) M)"

definition set_reg16 :: "reg16 \<Rightarrow> u16 \<Rightarrow> x86 \<Rightarrow> x86" where
  "set_reg16 r v M = upd_reg32 (wide16 r) (set_lo16 v) M"

definition set_reg32 :: "reg32 \<Rightarrow> u32 \<Rightarrow> x86 \<Rightarrow> x86" where
  "set_reg32 r v M = upd_reg32 r (\<lambda>_. v) M"

fun wide8 :: "reg8 \<Rightarrow> reg32 \<times> bool" where
  "wide8 AL = (EAX, False)" | "wide8 CL = (ECX, False)" | "wide8 DL = (EDX, False)" | "wide8 BL = (EBX, False)"
| "wide8 AH = (EAX, True)" | "wide8 CH = (ECX, True)" | "wide8 DH = (EDX, True)" | "wide8 BH = (EBX, True)"

definition get_reg8 :: "reg8 \<Rightarrow> x86 \<Rightarrow> u8" where
  "get_reg8 r M = (case wide8 r of (w, high) \<Rightarrow> (if high then hi8 else lo8) (get_reg32 w M))"

definition set_reg8 :: "reg8 \<Rightarrow> u8 \<Rightarrow> x86 \<Rightarrow> x86" where
  "set_reg8 r v M = (case wide8 r of (w, high) \<Rightarrow> upd_reg32 w (if high then set_hi8 v else set_lo8 v) M)"

fun get_segreg :: "segreg \<Rightarrow> x86 \<Rightarrow> u16" where
  "get_segreg ES M = R_ES M" | "get_segreg CS M = R_CS M" | "get_segreg SS M = R_SS M"
| "get_segreg DS M = R_DS M" | "get_segreg FS M = R_FS M" | "get_segreg GS M = R_GS M"

fun set_segreg :: "segreg \<Rightarrow> u16 \<Rightarrow> x86 \<Rightarrow> x86" where
  "set_segreg ES v M = M\<lparr>R_ES := v\<rparr>" | "set_segreg CS v M = M\<lparr>R_CS := v\<rparr>" | "set_segreg SS v M = M\<lparr>R_SS := v\<rparr>"
| "set_segreg DS v M = M\<lparr>R_DS := v\<rparr>" | "set_segreg FS v M = M\<lparr>R_FS := v\<rparr>" | "set_segreg GS v M = M\<lparr>R_GS := v\<rparr>"

definition switch_reg :: "'r list \<Rightarrow> nat \<Rightarrow> x86 \<Rightarrow> 'r option \<times> x86" where
  "switch_reg rs reg M = (if reg < length rs then (Some (rs ! reg), M) else (None, X86EMU_halt_sys M))"

definition decode_rm_byte_register :: "nat \<Rightarrow> x86 \<Rightarrow> reg8 option \<times> x86" where
  "decode_rm_byte_register reg M = switch_reg [AL, CL, DL, BL, AH, CH, DH, BH] reg M"

definition decode_rm_word_register :: "nat \<Rightarrow> x86 \<Rightarrow> reg16 option \<times> x86" where
  "decode_rm_word_register reg M = switch_reg [AX, CX, DX, BX, SP, BP, SI, DI] reg M"

definition decode_rm_long_register :: "nat \<Rightarrow> x86 \<Rightarrow> reg32 option \<times> x86" where
  "decode_rm_long_register reg M = switch_reg [EAX, ECX, EDX, EBX, ESP, EBP, ESI, EDI] reg M"

definition decode_rm_seg_register :: "nat \<Rightarrow> x86 \<Rightarrow> segreg option \<times> x86" where
  "decode_rm_seg_register reg M = switch_reg [ES, CS, SS, DS, FS, GS] reg M"

section \<open>Addressing modes\<close>

definition use_ss :: "x86 \<Rightarrow> x86" where
  "use_ss M = M\<lparr>x_mode := x_mode M OR SYSMODE_SEG_DS_SS\<rparr>"

definition decode_sib_address :: "nat \<Rightarrow> nat \<Rightarrow> x86 \<Rightarrow> (u32 \<times> x86) option" where
  "decode_sib_address sib md M =
     do {
       let b = sib mod 8;
       (base, M) \<leftarrow>
         (if b = 0 then Some (R_EAX M, M)
          else if b = 1 then Some (R_ECX M, M)
          else if b = 2 then Some (R_EDX M, M)
          else if b = 3 then Some (R_EBX M, M)
          else if b = 4 then Some (R_ESP M, use_ss M)
          else if b = 5 then (if md = 0 then fetch_long_imm M else Some (R_ESP M, use_ss M))
          else if b = 6 then Some (R_ESI M, M)
          else Some (R_EDI M, M));
       let x = sib div 8 mod 8;
       let i =
         (if x = 0 then R_EAX M
          else if x = 1 then R_ECX M
          else if x = 2 then R_EDX M
          else if x = 3 then R_EBX M
          else if x = 4 then 0
          else if x = 5 then R_EBP M
          else if x = 6 then R_ESI M
          else R_EDI M);
       let scale = push_bit (sib div 64 mod 4) 1;
       Some (base + i * scale, M)
     }"

definition decode_rm00_address :: "nat \<Rightarrow> x86 \<Rightarrow> (u32 \<times> x86) option" where
  "decode_rm00_address rm M =
     (if x_mode M AND SYSMODE_PREFIX_ADDR \<noteq> 0 then
        if rm = 0 then Some (R_EAX M, M)
        else if rm = 1 then Some (R_ECX M, M)
        else if rm = 2 then Some (R_EDX M, M)
        else if rm = 3 then Some (R_EBX M, M)
        else if rm = 4 then do { (sib, M) \<leftarrow> fetch_byte_imm M; decode_sib_address (unat sib) 0 M }
        else if rm = 5 then fetch_long_imm M
        else if rm = 6 then Some (R_ESI M, M)
        else if rm = 7 then Some (R_EDI M, M)
        else Some (0, X86EMU_halt_sys M)
      else
        if rm = 0 then Some ((ucast (R_BX M) + ucast (R_SI M)) AND 0xffff, M)
        else if rm = 1 then Some ((ucast (R_BX M) + ucast (R_DI M)) AND 0xffff, M)
        else if rm = 2 then Some ((ucast (R_BP M) + ucast (R_SI M)) AND 0xffff, use_ss M)
        else if rm = 3 then Some ((ucast (R_BP M) + ucast (R_DI M)) AND 0xffff, use_ss M)
        else if rm = 4 then Some (ucast (R_SI M), M)
        else if rm = 5 then Some (ucast (R_DI M), M)
        else if rm = 6 then do { (offset, M) \<leftarrow> fetch_word_imm M; Some (ucast offset, M) }
        else if rm = 7 then Some (ucast (R_BX M), M)
        else Some (0, X86EMU_halt_sys M))"

definition decode_rm01_address :: "nat \<Rightarrow> x86 \<Rightarrow> (u32 \<times> x86) option" where
  "decode_rm01_address rm M =
     do {
       (displacement, M) \<leftarrow>
         (if \<not> (x_mode M AND SYSMODE_PREFIX_ADDR \<noteq> 0 \<and> rm = 4) then
            do { (b, M) \<leftarrow> fetch_byte_imm M; Some (scast b, M) }
          else Some (0, M));
       if x_mode M AND SYSMODE_PREFIX_ADDR \<noteq> 0 then
         if rm = 0 then Some (R_EAX M + displacement, M)
         else if rm = 1 then Some (R_ECX M + displacement, M)
         else if rm = 2 then Some (R_EDX M + displacement, M)
         else if rm = 3 then Some (R_EBX M + displacement, M)
         else if rm = 4 then
           do {
             (sib, M) \<leftarrow> fetch_byte_imm M;
             (b, M) \<leftarrow> fetch_byte_imm M;
             (a, M) \<leftarrow> decode_sib_address (unat sib) 1 M;
             Some (a + scast b, M)
           }
         else if rm = 5 then Some (R_EBP M + displacement, M)
         else if rm = 6 then Some (R_ESI M + displacement, M)
         else if rm = 7 then Some (R_EDI M + displacement, M)
         else Some (0, X86EMU_halt_sys M)
       else
         if rm = 0 then Some ((ucast (R_BX M) + ucast (R_SI M) + displacement) AND 0xffff, M)
         else if rm = 1 then Some ((ucast (R_BX M) + ucast (R_DI M) + displacement) AND 0xffff, M)
         else if rm = 2 then Some ((ucast (R_BP M) + ucast (R_SI M) + displacement) AND 0xffff, use_ss M)
         else if rm = 3 then Some ((ucast (R_BP M) + ucast (R_DI M) + displacement) AND 0xffff, use_ss M)
         else if rm = 4 then Some ((ucast (R_SI M) + displacement) AND 0xffff, M)
         else if rm = 5 then Some ((ucast (R_DI M) + displacement) AND 0xffff, M)
         else if rm = 6 then Some ((ucast (R_BP M) + displacement) AND 0xffff, use_ss M)
         else if rm = 7 then Some ((ucast (R_BX M) + displacement) AND 0xffff, M)
         else Some (0, X86EMU_halt_sys M)
     }"

definition decode_rm10_address :: "nat \<Rightarrow> x86 \<Rightarrow> (u32 \<times> x86) option" where
  "decode_rm10_address rm M =
     do {
       (displacement, M) \<leftarrow>
         (if x_mode M AND SYSMODE_PREFIX_ADDR = 0 then
            do { (w, M) \<leftarrow> fetch_word_imm M; Some (ucast w, M) }
          else if rm \<noteq> 4 then fetch_long_imm M
          else Some (0, M));
       if x_mode M AND SYSMODE_PREFIX_ADDR \<noteq> 0 then
         if rm = 0 then Some (R_EAX M + displacement, M)
         else if rm = 1 then Some (R_ECX M + displacement, M)
         else if rm = 2 then Some (R_EDX M + displacement, use_ss M)
         else if rm = 3 then Some (R_EBX M + displacement, M)
         else if rm = 4 then
           do {
             (sib, M) \<leftarrow> fetch_byte_imm M;
             (displacement, M) \<leftarrow> fetch_long_imm M;
             (a, M) \<leftarrow> decode_sib_address (unat sib) 2 M;
             Some (a + displacement, M)
           }
         else if rm = 5 then Some (R_EBP M + displacement, M)
         else if rm = 6 then Some (R_ESI M + displacement, M)
         else if rm = 7 then Some (R_EDI M + displacement, M)
         else Some (0, X86EMU_halt_sys M)
       else
         if rm = 0 then Some ((ucast (R_BX M) + ucast (R_SI M) + displacement) AND 0xffff, M)
         else if rm = 1 then Some ((ucast (R_BX M) + ucast (R_DI M) + displacement) AND 0xffff, M)
         else if rm = 2 then Some ((ucast (R_BP M) + ucast (R_SI M) + displacement) AND 0xffff, use_ss M)
         else if rm = 3 then Some ((ucast (R_BP M) + ucast (R_DI M) + displacement) AND 0xffff, use_ss M)
         else if rm = 4 then Some ((ucast (R_SI M) + displacement) AND 0xffff, M)
         else if rm = 5 then Some ((ucast (R_DI M) + displacement) AND 0xffff, M)
         else if rm = 6 then Some ((ucast (R_BP M) + displacement) AND 0xffff, use_ss M)
         else if rm = 7 then Some ((ucast (R_BX M) + displacement) AND 0xffff, M)
         else Some (0, X86EMU_halt_sys M)
     }"

section \<open>Register views\<close>

named_theorems reg_views

lemma high_mask: "(0xFFFF0000 :: u32) = NOT (mask 16)" "(0xFFFFFF00 :: u32) = NOT (mask 8)"
    "(0xFFFF00FF :: u32) = NOT (push_bit 8 (mask 8))"
  by (simp_all add: mask_eq_exp_minus_1 push_bit_eq_mult)

lemma lo16_set [reg_views]: "lo16 (set_lo16 v r) = v"
  unfolding lo16_def set_lo16_def high_mask by (rule bit_eqI) (auto simp: bit_simps)

lemma set_lo16_set [reg_views]: "set_lo16 v (set_lo16 v' r) = set_lo16 v r"
  unfolding set_lo16_def high_mask by (rule bit_eqI) (auto simp: bit_simps dest: bit_imp_le_length)

lemma set_lo16_same [reg_views]: "set_lo16 (lo16 r) r = r"
  unfolding set_lo16_def lo16_def high_mask by (rule bit_eqI) (auto simp: bit_simps)

lemma views8 [reg_views]: "lo8 (set_lo8 v r) = v" "hi8 (set_hi8 v r) = v" "hi8 (set_lo8 v r) = hi8 r" "lo8 (set_hi8 v r) = lo8 r"
  unfolding lo8_def hi8_def set_lo8_def set_hi8_def high_mask by (rule bit_eqI, auto simp: bit_simps dest: bit_imp_le_length)+

section \<open>Words in memory\<close>

definition load16 :: "(u32 \<Rightarrow> u8) \<Rightarrow> u32 \<Rightarrow> u16" where
  "load16 m a = ucast (m a) OR push_bit 8 (ucast (m (a + 1)))"

definition store16 :: "u32 \<Rightarrow> u16 \<Rightarrow> (u32 \<Rightarrow> u8) \<Rightarrow> u32 \<Rightarrow> u8" where
  "store16 a v m = m(a := ucast v, a + 1 := ucast (drop_bit 8 v))"

lemma load_store16: "load16 (store16 a v m) a = v"
proof -
  have "a + 1 \<noteq> a" by simp
  then have "load16 (store16 a v m) a = ucast (ucast v :: u8) OR push_bit 8 (ucast (ucast (drop_bit 8 v) :: u8))"
    by (simp add: load16_def store16_def)
  also have "\<dots> = v" by (rule bit_eqI) (auto simp: bit_simps)
  finally show ?thesis .
qed

lemma load_store16_other: "a \<notin> {b, b + 1} \<Longrightarrow> a + 1 \<notin> {b, b + 1} \<Longrightarrow> load16 (store16 b v m) a = load16 m a"
  by (simp add: load16_def store16_def)

lemma not_past_end: "bytes_in n addr M \<Longrightarrow> 0 < n \<Longrightarrow> n < 2 ^ 32 \<Longrightarrow> \<not> addr > mem_size M - word_of_nat n"
  by (simp add: bytes_in_def word_less_nat_alt unat_sub word_le_nat_alt unat_of_nat_u32 wrap_simps)

lemma rdw_ok: "bytes_in 2 addr M \<Longrightarrow> rdw addr M = Some (load16 (x_mem M) addr, M)"
  using not_past_end [of 2 addr M] by (simp add: rdw_def load16_def)

lemma wrw_ok: "bytes_in 2 addr M \<Longrightarrow> wrw addr v M = Some (M\<lparr>x_mem := store16 addr v (x_mem M)\<rparr>)"
  using not_past_end [of 2 addr M] by (simp add: wrw_def store16_def)

section \<open>The stack\<close>

definition sp_addr :: "x86 \<Rightarrow> u32" where
  "sp_addr M = push_bit 4 (ucast (R_SS M)) + ucast (R_SP M)"

lemma unat_sp_addr: "unat (sp_addr M) = unat (R_SS M) * 16 + unat (R_SP M)"
proof -
  have "unat (push_bit 4 (ucast (R_SS M) :: u32)) = unat (R_SS M) * 16"
    using unsigned_less [of "R_SS M", where 'a = nat]
    by (simp add: push_bit_eq_mult unat_word_ariths unsigned_ucast_eq take_bit_nat_eq_self)
  moreover have "unat (ucast (R_SP M) :: u32) = unat (R_SP M)"
    using unsigned_less [of "R_SP M", where 'a = nat] by (simp add: unsigned_ucast_eq take_bit_nat_eq_self)
  ultimately show ?thesis
    using unsigned_less [of "R_SP M", where 'a = nat] unsigned_less [of "R_SS M", where 'a = nat]
    by (simp add: sp_addr_def unat_word_ariths)
qed

text \<open>The stack pointer is at least \<open>n\<close> bytes above the start of its segment, and the stack lies in memory.\<close>

definition stack_room :: "nat \<Rightarrow> x86 \<Rightarrow> bool" where
  "stack_room n M \<longleftrightarrow> n \<le> unat (R_SP M) \<and> unat (sp_addr M) \<le> unat (mem_size M)"

definition pushed :: "u16 \<Rightarrow> x86 \<Rightarrow> x86" where
  "pushed w M = M\<lparr>R_ESP := set_lo16 (R_SP M - 2) (R_ESP M), x_mem := store16 (sp_addr M - 2) w (x_mem M)\<rparr>"

lemma sp_addr_move:
  assumes "2 \<le> unat (R_SP M)"
  shows "sp_addr (M\<lparr>R_ESP := set_lo16 (R_SP M - 2) (R_ESP M)\<rparr>) = sp_addr M - 2"
    "unat (R_SP M - 2) = unat (R_SP M) - 2" "unat (sp_addr M - 2) = unat (sp_addr M) - 2"
proof -
  show d: "unat (R_SP M - 2) = unat (R_SP M) - 2" using assms by (simp add: unat_sub word_le_nat_alt)
  show a: "unat (sp_addr M - 2) = unat (sp_addr M) - 2" using assms by (simp add: unat_sub word_le_nat_alt unat_sp_addr)
  show "sp_addr (M\<lparr>R_ESP := set_lo16 (R_SP M - 2) (R_ESP M)\<rparr>) = sp_addr M - 2"
    using assms by (subst word_unat_eq_iff) (simp add: unat_sp_addr reg_views d a)
qed

lemma room_bytes:
  assumes "stack_room 2 M"
  shows "unat (sp_addr M - 2) + 2 \<le> unat (mem_size M)"
proof -
  have sp: "2 \<le> unat (R_SP M)" using assms by (simp add: stack_room_def)
  have "unat (sp_addr M) \<le> unat (mem_size M)" using assms by (simp add: stack_room_def)
  then show ?thesis unfolding sp_addr_move(3) [OF sp] unat_sp_addr using sp by linarith
qed

lemma push_word_ok:
  assumes "stack_room 2 M"
  shows "push_word w M = Some (pushed w M)"
proof -
  let ?M = "M\<lparr>R_ESP := set_lo16 (R_SP M - 2) (R_ESP M)\<rparr>"
  have sp: "2 \<le> unat (R_SP M)" using assms by (simp add: stack_room_def)
  have "bytes_in 2 (sp_addr M - 2) ?M"
    using room_bytes [OF assms] by (simp add: bytes_in_def)
  then have "wrw (sp_addr ?M) w ?M = Some (pushed w M)"
    using wrw_ok [of "sp_addr M - 2" ?M w] by (simp add: sp_addr_move(1) [OF sp] pushed_def)
  then show ?thesis unfolding push_word_def Let_def sp_addr_def [symmetric] .
qed

lemma pop_word_ok:
  assumes "stack_room 2 M" "R_ESP M' = set_lo16 (R_SP M - 2) (R_ESP M)" "R_SS M' = R_SS M" "mem_size M' = mem_size M"
  shows "pop_word M' = Some (load16 (x_mem M') (sp_addr M - 2), M'\<lparr>R_ESP := R_ESP M\<rparr>)"
proof -
  have sp: "2 \<le> unat (R_SP M)" using assms by (simp add: stack_room_def)
  have a: "sp_addr M' = sp_addr M - 2"
    using sp_addr_move(1) [OF sp] assms(2,3) by (simp add: sp_addr_def)
  moreover have "bytes_in 2 (sp_addr M') M'"
    using room_bytes [OF assms(1)] a assms(4) by (simp add: bytes_in_def)
  ultimately show ?thesis
    unfolding pop_word_def sp_addr_def [symmetric] using assms(2) rdw_ok [of "sp_addr M'" M'] by (simp add: reg_views)
qed

lemma stack_room_pushed: "stack_room (n + 2) M \<Longrightarrow> stack_room n (pushed w M)"
  using sp_addr_move [of M] by (auto simp: stack_room_def pushed_def unat_sp_addr reg_views)

lemma stack_room_mono: "stack_room n M \<Longrightarrow> k \<le> n \<Longrightarrow> stack_room k M"
  by (simp add: stack_room_def)

lemma sp_addr_pushed: "stack_room 2 M \<Longrightarrow> sp_addr (pushed w M) = sp_addr M - 2"
  using sp_addr_move(1) [of M] by (simp add: stack_room_def pushed_def sp_addr_def)

section \<open>Delivery of an interrupt\<close>

text \<open>The state after the delivery: flags, code segment and instruction pointer on the stack, the
  interrupt and trap flags cleared, and execution at the vector.\<close>

definition vec :: "u8 \<Rightarrow> u32" where
  "vec intno = ucast intno * 4"

lemma unat_vec: "unat (vec intno) = unat intno * 4" "unat (vec intno + 2) = unat intno * 4 + 2" "unat intno < 256"
  using unsigned_less [of intno, where 'a = nat]
  by (simp_all add: vec_def unat_word_ariths unsigned_ucast_eq take_bit_nat_eq_self)

definition delivered :: "x86 \<Rightarrow> x86" where
  "delivered M =
     (let M = pushed (ucast (R_FLG M)) M;
          M = M\<lparr>R_FLG := CLEAR_FLAG F_TF (CLEAR_FLAG F_IF (R_FLG M))\<rparr>;
          M = pushed (R_CS M) M;
          M = M\<lparr>R_CS := load16 (x_mem M) (vec (x_intno M) + 2)\<rparr>;
          M = pushed (R_IP M) M
      in M\<lparr>R_EIP := set_lo16 (load16 (x_mem M) (vec (x_intno M))) (R_EIP M), x_intr := 0\<rparr>)"

lemma pushed_simps [simp]:
  "R_FLG (pushed w M) = R_FLG M" "R_CS (pushed w M) = R_CS M" "R_SS (pushed w M) = R_SS M" "R_EIP (pushed w M) = R_EIP M"
  "mem_size (pushed w M) = mem_size M" "x_intno (pushed w M) = x_intno M" "x_mode (pushed w M) = x_mode M"
  "x_mem (pushed w M) = store16 (sp_addr M - 2) w (x_mem M)" "R_ESP (pushed w M) = set_lo16 (R_SP M - 2) (R_ESP M)"
  by (simp_all add: pushed_def)

lemma stack_room_upd [simp]:
  "stack_room n (M\<lparr>R_FLG := f\<rparr>) = stack_room n M" "stack_room n (M\<lparr>R_CS := c\<rparr>) = stack_room n M"
  "sp_addr (M\<lparr>R_FLG := f\<rparr>) = sp_addr M" "sp_addr (M\<lparr>R_CS := c\<rparr>) = sp_addr M"
  by (simp_all add: stack_room_def sp_addr_def)

lemma intr_handle_delivers:
  assumes "x_intr M AND INTR_SYNCH \<noteq> 0" "hook (x_intno M) = None" "stack_room 6 M" "1024 \<le> unat (mem_size M)"
  shows "x86emu_intr_handle hook M = Some (delivered M)"
proof -
  have r4: "stack_room 4 (pushed w M)" for w using stack_room_pushed [of 4 M w] assms(3) by simp
  have r2: "stack_room 2 (pushed w (pushed w' M\<lparr>R_FLG := f\<rparr>))" for w w' f
    using stack_room_pushed [of 2 "pushed w' M\<lparr>R_FLG := f\<rparr>" w] r4 [of w'] by simp
  have v: "bytes_in 2 (vec (x_intno M)) M'" "bytes_in 2 (vec (x_intno M) + 2) M'" if "mem_size M' = mem_size M" for M'
    using that assms(4) unat_vec [of "x_intno M"] by (simp_all add: bytes_in_def)
  show ?thesis
    using assms(1,2) stack_room_mono [OF assms(3), of 2] r4 [THEN stack_room_mono, of 2] r2
    by (simp add: x86emu_intr_handle_def vec_def [symmetric] push_word_ok mem_access_word_def rdw_ok v delivered_def Let_def)
qed

lemma delivered_simps:
  assumes "stack_room 6 M"
  shows "R_SS (delivered M) = R_SS M" "mem_size (delivered M) = mem_size M"
    "R_ESP (delivered M) = set_lo16 (R_SP M - 6) (R_ESP M)"
    "x_mem (delivered M) = store16 (sp_addr M - 6) (R_IP M) (store16 (sp_addr M - 4) (R_CS M)
       (store16 (sp_addr M - 2) (ucast (R_FLG M)) (x_mem M)))"
    "R_FLG (delivered M) = CLEAR_FLAG F_TF (CLEAR_FLAG F_IF (R_FLG M))"
    "x_intr (delivered M) = 0" "x_mode (delivered M) = x_mode M"
proof -
  have r: "stack_room 2 M" using stack_room_mono [OF assms, of 2] by simp
  have r4: "stack_room 2 (pushed w M)" for w
    using stack_room_pushed [of 4 M w] stack_room_mono [of 4 "pushed w M" 2] assms by simp
  show "x_mem (delivered M) = store16 (sp_addr M - 6) (R_IP M) (store16 (sp_addr M - 4) (R_CS M)
       (store16 (sp_addr M - 2) (ucast (R_FLG M)) (x_mem M)))"
    by (simp add: delivered_def Let_def sp_addr_pushed r r4)
  show "R_ESP (delivered M) = set_lo16 (R_SP M - 6) (R_ESP M)"
    by (simp add: delivered_def Let_def reg_views)
qed (simp_all add: delivered_def Let_def)

lemma iret_delivered:
  assumes "stack_room 6 M"
  shows "x86emuOp_iret (delivered M) = Some ((delivered M)\<lparr>R_EIP := set_lo16 (R_IP M) (R_EIP (delivered M)), R_ESP := R_ESP M,
    R_CS := R_CS M, R_FLG := ucast (ucast (R_FLG M) :: u16), x_mode := x_mode M AND NOT SYSMODE_CLRMASK\<rparr>)"
proof -
  define M1 where "M1 = pushed 0 M"
  define M2 where "M2 = pushed 0 M1"
  have r: "stack_room 2 M" "stack_room 2 M1" "stack_room 2 M2"
    using stack_room_pushed [of 4 M 0] stack_room_pushed [of 2 M1 0] stack_room_mono [of _ M 2] stack_room_mono [of _ M1 2] assms
    by (simp_all add: M1_def M2_def)
  have p1: "pop_word M' = Some (load16 (x_mem M') (sp_addr M - 6), M'\<lparr>R_ESP := set_lo16 (R_SP M - 4) (R_ESP M)\<rparr>)"
    if "R_ESP M' = set_lo16 (R_SP M - 6) (R_ESP M)" "R_SS M' = R_SS M" "mem_size M' = mem_size M" for M'
    using pop_word_ok [OF r(3), of M'] that r by (simp add: M1_def M2_def sp_addr_pushed reg_views)
  have p2: "pop_word M' = Some (load16 (x_mem M') (sp_addr M - 4), M'\<lparr>R_ESP := set_lo16 (R_SP M - 2) (R_ESP M)\<rparr>)"
    if "R_ESP M' = set_lo16 (R_SP M - 4) (R_ESP M)" "R_SS M' = R_SS M" "mem_size M' = mem_size M" for M'
    using pop_word_ok [OF r(2), of M'] that r by (simp add: M1_def M2_def sp_addr_pushed reg_views)
  show ?thesis
    by (simp add: x86emuOp_iret_def delivered_simps assms p1 p2 pop_word_ok [OF r(1)] load_store16 load_store16_other)
qed

lemma unat_offset: "unat a + 6 = unat b \<Longrightarrow> unat k \<le> 6 \<Longrightarrow> unat (a + k) = unat a + unat k" for a b k :: u32
proof -
  assume "unat a + 6 = unat b" "unat k \<le> 6"
  moreover have "unat b < 4294967296" using unsigned_less [of b, where 'a = nat] by simp
  ultimately have "unat a + unat k < 4294967296" by linarith
  then show ?thesis by (simp add: unat_word_ariths)
qed

lemma delivered_below:
  assumes "stack_room 6 M" "6 \<le> unat (sp_addr M)" "x_mem (delivered M) b \<noteq> x_mem M b"
  shows "sp_addr M - 6 \<le> b \<and> b < sp_addr M"
proof -
  define a where "a = sp_addr M - 6"
  have a: "unat a + 6 = unat (sp_addr M)" using assms(2) by (simp add: a_def unat_sub word_le_nat_alt)
  have d: "sp_addr M - 4 = a + 2" "sp_addr M - 2 = a + 4" by (simp_all add: a_def)
  have "b \<in> {a, a + 1, a + 2, a + 3, a + 4, a + 5}"
    using assms(3) unfolding delivered_simps(4) [OF assms(1)] d a_def [symmetric]
    by (auto simp: store16_def add.assoc split: if_splits)
  then have "unat a \<le> unat b \<and> unat b < unat a + 6"
    using unat_offset [OF a] by (elim insertE emptyE) simp_all
  then show ?thesis using a unfolding word_le_nat_alt word_less_nat_alt a_def by simp
qed

lemma delivered_vector:
  assumes "stack_room 6 M" "1030 \<le> unat (sp_addr M)"
  shows "R_CS (delivered M) = load16 (x_mem M) (vec (x_intno M) + 2)" "R_IP (delivered M) = load16 (x_mem M) (vec (x_intno M))"
proof -
  have r: "stack_room 2 M" using stack_room_mono [OF assms(1), of 2] by simp
  have r4: "stack_room 2 (pushed w M)" for w
    using stack_room_pushed [of 4 M w] stack_room_mono [of 4 "pushed w M" 2] assms(1) by simp
  have far: "load16 (store16 (sp_addr M - k) w m) v = load16 m v"
    if "unat v < 1023" "k = 2 \<or> k = 4 \<or> k = 6" for k w m and v :: u32
  proof (rule load_store16_other)
    have b: "unat (sp_addr M) < 4294967296" using unsigned_less [of "sp_addr M", where 'a = nat] by simp
    have u: "unat (sp_addr M - k) = unat (sp_addr M) - unat k" "2 \<le> unat k" "unat k \<le> 6"
      using that(2) assms(2) by (auto simp: unat_sub word_le_nat_alt)
    then have "unat (sp_addr M - k) + 1 < 4294967296" "1024 \<le> unat (sp_addr M - k)" using b assms(2) by linarith+
    then have k: "1024 \<le> unat (sp_addr M - k)" "unat (sp_addr M - k + 1) = unat (sp_addr M - k) + 1"
      by (simp_all add: unat_word_ariths(1))
    have "unat (v + 1) = unat v + 1" using that(1) by (simp add: unat_word_ariths)
    then show "v \<notin> {sp_addr M - k, sp_addr M - k + 1}" "v + 1 \<notin> {sp_addr M - k, sp_addr M - k + 1}"
      using k that(1) by (auto simp del: unat_add_lem dest: arg_cong [where f = unat])
  qed
  have v: "unat (vec (x_intno M)) < 1023" "unat (vec (x_intno M) + 2) < 1023" using unat_vec [of "x_intno M"] by simp_all
  show "R_CS (delivered M) = load16 (x_mem M) (vec (x_intno M) + 2)"
    by (simp add: delivered_def Let_def sp_addr_pushed r r4 far v)
  show "R_IP (delivered M) = load16 (x_mem M) (vec (x_intno M))"
    by (simp add: delivered_def Let_def sp_addr_pushed r r4 far v reg_views)
qed

lemma ucast_low: "ucast (ucast x :: u16) = x AND (0xFFFF :: u32)"
proof -
  have "(0xFFFF :: u32) = mask 16" by (simp add: mask_eq_exp_minus_1)
  then show ?thesis by (simp add: bit_eq_iff bit_simps) (auto simp: bit_simps)
qed

lemma iret_restores:
  assumes "stack_room 6 M"
  shows "x86emuOp_iret (delivered M) = Some (M\<lparr>R_FLG := R_FLG M AND 0xFFFF, x_mode := x_mode M AND NOT SYSMODE_CLRMASK, x_intr := 0,
    x_mem := x_mem (delivered M)\<rparr>)"
  unfolding iret_delivered [OF assms]
  by (simp add: delivered_def Let_def pushed_def reg_views ucast_low)

text \<open>C26: an interrupt without an installed handler is delivered as the real mode of the processor does
  it, and \<open>iret\<close> undoes it: \<open>x86emu_intr_handle\<close> continues at the vector in the table at address 0 with
  the interrupt and the trap flag off, writes only the six bytes below the stack pointer, and
  \<open>x86emuOp_iret\<close> in the state it leaves brings back the interrupted code segment, instruction and stack
  pointer and every other register; of the flags it brings back the lower half.\<close>

theorem x86_intr_iret:
  assumes "x_intr M AND INTR_SYNCH \<noteq> 0" "hook (x_intno M) = None"
    and "stack_room 6 M" "1024 \<le> unat (mem_size M)" "1030 \<le> unat (sp_addr M)"
  shows "\<exists>M1. x86emu_intr_handle hook M = Some M1
    \<and> R_CS M1 = load16 (x_mem M) (vec (x_intno M) + 2) \<and> R_IP M1 = load16 (x_mem M) (vec (x_intno M))
    \<and> R_FLG M1 = R_FLG M AND NOT F_IF AND NOT F_TF \<and> x_intr M1 = 0
    \<and> (\<forall>b. x_mem M1 b \<noteq> x_mem M b \<longrightarrow> sp_addr M - 6 \<le> b \<and> b < sp_addr M)
    \<and> x86emuOp_iret M1 = Some (M\<lparr>R_FLG := R_FLG M AND 0xFFFF, x_mode := x_mode M AND NOT SYSMODE_CLRMASK, x_intr := 0,
        x_mem := x_mem M1\<rparr>)"
proof (intro exI [of _ "delivered M"] conjI allI impI)
  have "6 \<le> unat (sp_addr M)" using assms(5) by simp
  then show "sp_addr M - 6 \<le> b" "b < sp_addr M" if "x_mem (delivered M) b \<noteq> x_mem M b" for b
    using delivered_below [OF assms(3) _ that] by simp_all
qed (use assms in \<open>simp_all add: intr_handle_delivers delivered_vector delivered_simps iret_restores CLEAR_FLAG_def and.assoc\<close>)

definition sample :: x86 where
  "sample = \<lparr>R_EAX = 1, R_EBX = 2, R_ECX = 3, R_EDX = 4, R_ESP = 0x100, R_EBP = 6, R_ESI = 7, R_EDI = 8, R_EIP = 0x42, R_FLG = 0x202,
     R_CS = 0x10, R_DS = 0x20, R_SS = 0x100, R_ES = 0, R_FS = 0, R_GS = 0, x_mode = 0, x_intr = 1, x_intno = 0x21,
     mem_size = 0x2000, x_mem = (\<lambda>_. 0)(0x84 := 0x34, 0x85 := 0x12, 0x86 := 0x78, 0x87 := 0x56),
     x_pio = sample_pio, x_tsc = 0\<rparr>"

theorem x86_intr_iret_witness:
  "\<exists>M1. x86emu_intr_handle (\<lambda>_. None) sample = Some M1 \<and> R_CS M1 = 0x5678 \<and> R_IP M1 = 0x1234 \<and> R_FLG M1 = 2
    \<and> (\<exists>M2. x86emuOp_iret M1 = Some M2 \<and> R_CS M2 = 0x10 \<and> R_EIP M2 = 0x42 \<and> R_FLG M2 = 0x202 \<and> R_ESP M2 = 0x100)"
proof -
  have "x_intr sample AND INTR_SYNCH \<noteq> 0" by (simp add: sample_def INTR_SYNCH_def)
  moreover have u: "unat (R_SP sample) = 256" "unat (R_SS sample) = 256" by (simp_all add: sample_def lo16_def)
  moreover have "stack_room 6 sample" using u by (simp add: stack_room_def unat_sp_addr) (simp add: sample_def)
  moreover have "1024 \<le> unat (mem_size sample)" by (simp add: sample_def)
  moreover have "1030 \<le> unat (sp_addr sample)" using u by (simp add: unat_sp_addr)
  moreover have "load16 (x_mem sample) (vec (x_intno sample) + 2) = 0x5678" "load16 (x_mem sample) (vec (x_intno sample)) = 0x1234"
    "R_FLG sample AND NOT F_IF AND NOT F_TF = 2" "R_FLG sample AND 0xFFFF = 0x202"
    "R_CS sample = 0x10" "R_EIP sample = 0x42" "R_ESP sample = 0x100"
    by (simp_all add: sample_def load16_def vec_def F_IF_def F_TF_def push_bit_eq_mult)
  ultimately show ?thesis
    using x86_intr_iret [of sample "\<lambda>_. None"] by (elim meta_impE; simp) fastforce
qed

section \<open>Effective addresses\<close>

text \<open>The address of a memory operand with 16-bit addressing: the sum of the registers that the field \<open>rm\<close>
  names and the displacement, modulo \<open>2\<^sup>1\<^sup>6\<close>; in the stack segment when BP is one of them.\<close>

definition ea16_regs :: "nat \<Rightarrow> reg16 list" where
  "ea16_regs rm = [[BX, SI], [BX, DI], [BP, SI], [BP, DI], [SI], [DI], [BP], [BX]] ! rm"

definition ea16 :: "nat \<Rightarrow> u16 \<Rightarrow> x86 \<Rightarrow> u32" where
  "ea16 rm d M = ucast ((\<Sum>r\<leftarrow>ea16_regs rm. get_reg16 r M) + d)"

definition ea16_seg :: "nat \<Rightarrow> x86 \<Rightarrow> x86" where
  "ea16_seg rm M = (if BP \<in> set (ea16_regs rm) then use_ss M else M)"

lemma rm_cases: "rm < 8 \<Longrightarrow> rm \<in> {0, 1, 2, 3, 4, 5, 6, 7}" for rm :: nat
  by auto

lemma ucast_add16: "ucast (x + y) = (ucast x + ucast y :: u16)" for x y :: u32
proof -
  have "take_bit 16 (unat x + unat y) = take_bit 16 (take_bit 16 (unat x) + take_bit 16 (unat y))" by (simp add: take_bit_add)
  then show ?thesis
    by (simp add: word_unat_eq_iff unsigned_ucast_eq unat_word_ariths take_bit_eq_mod mod_mod_cancel)
qed

lemma narrow16: "ucast (ucast a :: u32) = a" "ucast (scast b :: u32) = (scast b :: u16)" for a :: u16 and b :: u8
  by (auto simp: bit_eq_iff bit_simps)

lemmas ea16_arith = ucast_low [symmetric] ucast_add16 narrow16

text \<open>A fetch moves the instruction pointer and may halt the machine.\<close>

definition same_regs :: "x86 \<Rightarrow> x86 \<Rightarrow> bool" where
  "same_regs M M' \<longleftrightarrow> M' = M\<lparr>R_EIP := R_EIP M', x_intr := x_intr M'\<rparr>"

lemma fetch_same:
  "fetch_byte_imm M = Some (b, M') \<Longrightarrow> same_regs M M'"
  "fetch_word_imm M = Some (w, M') \<Longrightarrow> same_regs M M'"
  "fetch_long_imm M = Some (l, M') \<Longrightarrow> same_regs M M'"
  by (auto simp: same_regs_def fetch_byte_imm_def fetch_word_imm_def fetch_long_imm_def rdb_def rdw_def rdl_def X86EMU_halt_sys_def
      Let_def split: if_splits)

lemma same_regsD:
  assumes "same_regs M M'"
  shows "x_mode M' = x_mode M" "get_reg32 r M' = get_reg32 r M" "get_reg16 q M' = get_reg16 q M"
proof -
  have M': "M' = M\<lparr>R_EIP := R_EIP M', x_intr := x_intr M'\<rparr>" using assms unfolding same_regs_def .
  show "x_mode M' = x_mode M" by (subst M') simp
  show *: "get_reg32 r M' = get_reg32 r M" for r by (subst M') (cases r; simp)
  show "get_reg16 q M' = get_reg16 q M" by (simp add: get_reg16_def *)
qed

lemmas ea16_defs = ea16_def ea16_seg_def ea16_regs_def get_reg16_def

lemma decode_rm00_16:
  assumes "rm < 8" "x_mode M AND SYSMODE_PREFIX_ADDR = 0" "rm \<noteq> 6"
  shows "decode_rm00_address rm M = Some (ea16 rm 0 M, ea16_seg rm M)"
  using rm_cases [OF assms(1)] assms(2,3)
  by (elim insertE emptyE) (simp_all add: decode_rm00_address_def ea16_defs ea16_arith)

lemma decode_rm01_16:
  assumes "rm < 8" "x_mode M AND SYSMODE_PREFIX_ADDR = 0" "fetch_byte_imm M = Some (b, M')"
  shows "decode_rm01_address rm M = Some (ea16 rm (scast b) M, ea16_seg rm M')"
proof -
  note same = same_regsD [OF fetch_same(1) [OF assms(3)]]
  have "decode_rm01_address rm M = Some (ea16 rm (scast b) M', ea16_seg rm M')"
    using rm_cases [OF assms(1)] assms(2,3) same(1)
    by (elim insertE emptyE) (simp_all add: decode_rm01_address_def ea16_defs ea16_arith)
  then show ?thesis by (simp add: ea16_def same(3))
qed

lemma decode_rm10_16:
  assumes "rm < 8" "x_mode M AND SYSMODE_PREFIX_ADDR = 0" "fetch_word_imm M = Some (w, M')"
  shows "decode_rm10_address rm M = Some (ea16 rm w M, ea16_seg rm M')"
proof -
  note same = same_regsD [OF fetch_same(2) [OF assms(3)]]
  have "decode_rm10_address rm M = Some (ea16 rm w M', ea16_seg rm M')"
    using rm_cases [OF assms(1)] assms(2,3) same(1)
    by (elim insertE emptyE) (simp_all add: decode_rm10_address_def ea16_defs ea16_arith)
  then show ?thesis by (simp add: ea16_def same(3))
qed

lemma default_segment:
  assumes "x_mode M AND SYSMODE_SEGMASK = 0"
  shows "get_data_segment M = (ucast (R_DS M), M)" "get_data_segment (use_ss M) = (ucast (R_SS M), use_ss M)"
proof -
  have "(x_mode M OR SYSMODE_SEG_DS_SS) AND SYSMODE_SEGMASK = SYSMODE_SEG_DS_SS AND SYSMODE_SEGMASK"
    using assms by (simp add: bit.conj_disj_distrib2)
  also have "\<dots> = 1" by (simp add: SYSMODE_SEGMASK_def SYSMODE_SEG_DS_SS_def)
  finally show "get_data_segment (use_ss M) = (ucast (R_SS M), use_ss M)"
    by (simp add: get_data_segment_def use_ss_def SYSMODE_SEG_DS_SS_def SYSMODE_SEGOVR_DS_def)
qed (use assms in \<open>simp add: get_data_segment_def\<close>)

text \<open>C38: with 16-bit addressing the three decoders compute the address that the field names: the sum of
  its registers and the displacement modulo \<open>2\<^sup>1\<^sup>6\<close>, with the byte displacement sign-extended, and the
  address without registers for \<open>rm = 6\<close> of the first form. The operand is in the stack segment exactly
  if BP takes part and no segment prefix says otherwise.\<close>

theorem x86_decode16_correct:
  assumes "rm < 8" "x_mode M AND SYSMODE_PREFIX_ADDR = 0"
  shows "(rm \<noteq> 6 \<longrightarrow> decode_rm00_address rm M = Some (ea16 rm 0 M, ea16_seg rm M))
    \<and> (fetch_word_imm M = Some (w, M1) \<longrightarrow> decode_rm00_address 6 M = Some (ucast w, M1))
    \<and> (fetch_byte_imm M = Some (b, M2) \<longrightarrow> decode_rm01_address rm M = Some (ea16 rm (scast b) M, ea16_seg rm M2))
    \<and> (fetch_word_imm M = Some (w, M1) \<longrightarrow> decode_rm10_address rm M = Some (ea16 rm w M, ea16_seg rm M1))
    \<and> (x_mode M AND SYSMODE_SEGMASK = 0 \<longrightarrow>
        fst (get_data_segment (ea16_seg rm M)) = ucast (if BP \<in> set (ea16_regs rm) then R_SS M else R_DS M))"
proof (intro conjI impI)
  show "decode_rm00_address 6 M = Some (ucast w, M1)" if "fetch_word_imm M = Some (w, M1)"
    using that assms(2) by (simp add: decode_rm00_address_def)
qed (use assms in \<open>simp_all add: decode_rm00_16 decode_rm01_16 decode_rm10_16 default_segment ea16_seg_def\<close>)

theorem x86_decode16_correct_witness:
  "decode_rm00_address 2 sample = Some (13, use_ss sample) \<and> fst (get_data_segment (use_ss sample)) = 0x100"
proof -
  have *: "decode_rm00_address 2 sample = Some (ea16 2 0 sample, ea16_seg 2 sample)
      \<and> fst (get_data_segment (ea16_seg 2 sample)) = ucast (if BP \<in> set (ea16_regs 2) then R_SS sample else R_DS sample)"
    using x86_decode16_correct [of 2 sample undefined undefined undefined undefined] by (simp add: sample_def)
  moreover have "ea16 2 0 sample = 13" "ea16_seg 2 sample = use_ss sample" "BP \<in> set (ea16_regs 2)"
    by (simp_all add: ea16_defs lo16_def sample_def)
  ultimately show ?thesis by (simp add: sample_def)
qed

text \<open>32-bit addressing confuses registers and segments. A scaled address with base EBP and a
  displacement is computed with ESP, as if the base field were that of ESP; EDX with a 32-bit displacement
  addresses the stack segment and EBP the data segment, which is the wrong way round.\<close>

theorem x86_decode32_wrong:
  assumes "x_mode M AND SYSMODE_PREFIX_ADDR \<noteq> 0" "fetch_long_imm M = Some (d, M')" "md \<noteq> 0"
  shows "decode_sib_address (8 * x + 5) md M = decode_sib_address (8 * x + 4) md M
    \<and> decode_rm10_address 2 M = Some (R_EDX M + d, use_ss M')
    \<and> decode_rm10_address 5 M = Some (R_EBP M + d, M')"
proof (intro conjI)
  have "(8 * x + 5) mod 8 = 5" "(8 * x + 5) div 8 = x" "(8 * x + 5) div 64 = x div 8"
    "(8 * x + 4) mod 8 = 4" "(8 * x + 4) div 8 = x" "(8 * x + 4) div 64 = x div 8" by presburger+
  then show "decode_sib_address (8 * x + 5) md M = decode_sib_address (8 * x + 4) md M"
    using assms(3) by (simp add: decode_sib_address_def)
  note same = same_regsD(1) [OF fetch_same(3) [OF assms(2)]] same_regsD(2) [OF fetch_same(3) [OF assms(2)], of EDX]
    same_regsD(2) [OF fetch_same(3) [OF assms(2)], of EBP]
  show "decode_rm10_address 2 M = Some (R_EDX M + d, use_ss M')" "decode_rm10_address 5 M = Some (R_EBP M + d, M')"
    using assms(1,2) same by (simp_all add: decode_rm10_address_def)
qed

theorem x86_decode32_wrong_witness:
  "\<exists>M'. decode_sib_address 0x25 1 (sample\<lparr>x_mode := SYSMODE_PREFIX_ADDR\<rparr>) = decode_sib_address 0x24 1 (sample\<lparr>x_mode := SYSMODE_PREFIX_ADDR\<rparr>)
    \<and> decode_rm10_address 2 (sample\<lparr>x_mode := SYSMODE_PREFIX_ADDR\<rparr>) = Some (4, use_ss M')"
proof -
  let ?M = "sample\<lparr>x_mode := SYSMODE_PREFIX_ADDR\<rparr>"
  have "bytes_in 4 0x142 ?M" by (simp add: bytes_in_def sample_def)
  then obtain M' where "fetch_long_imm ?M = Some (0, M')"
    by (simp add: fetch_long_imm_def rdl_def sample_def lo16_def push_bit_eq_mult)
  then show ?thesis
    using x86_decode32_wrong [of ?M 0 M' 1 4] by (auto simp: sample_def SYSMODE_PREFIX_ADDR_def)
qed

end
