(* ===== verification/X86_MulDiv.thy ===== *)
theory X86_MulDiv
  imports X86_Arith X86_Machine "HOL-Library.Signed_Division"
begin

unbundle bit_operations_syntax

text \<open>
  Multiplication and division of the emulator (\<^verbatim>\<open>prim_ops.c\<close>). The build does not define
  \<^verbatim>\<open>__HAS_LONG_LONG__\<close>, so that the 32-bit operations are composed of 16-bit products, and divisions are
  done bit by bit. A product of two 16-bit operands is computed in a signed integer and the absolute
  value of the smallest integer does not exist; both are the value \<^term>\<open>None\<close>. A left shift of a
  signed integer wraps, as the compiler documents it. The shift of the divisor by \<open>-1\<close> in the last round of
  a division is the shift by 31 of the processor; its result is not used.
\<close>

section \<open>Multiplication\<close>

definition INT_MIN :: int where "INT_MIN = - 2147483648"
definition INT_MAX :: int where "INT_MAX = 2147483647"

definition c_mul :: "int \<Rightarrow> int \<Rightarrow> int option" where
  "c_mul x y = (if INT_MIN \<le> x * y \<and> x * y \<le> INT_MAX then Some (x * y) else None)"

definition c_abs :: "int \<Rightarrow> int option" where
  "c_abs n = (if n < 0 then if n = INT_MIN then None else Some (- n) else Some n)"

definition mul_flags :: "bool \<Rightarrow> x86 \<Rightarrow> x86" where
  "mul_flags fits_low M =
     (if fits_low then M\<lparr>R_FLG := CLEAR_FLAG F_OF (CLEAR_FLAG F_CF (R_FLG M))\<rparr>
      else M\<lparr>R_FLG := SET_FLAG F_OF (SET_FLAG F_CF (R_FLG M))\<rparr>)"

definition imul_byte :: "u8 \<Rightarrow> x86 \<Rightarrow> x86" where
  "imul_byte s M =
     (let res = (word_of_int (sint (R_AL M) * sint s) :: u16);
          M = M\<lparr>R_EAX := set_lo16 res (R_EAX M)\<rparr>
      in mul_flags ((R_AL M AND 0x80 = 0 \<and> R_AH M = 0x00) \<or> (R_AL M AND 0x80 \<noteq> 0 \<and> R_AH M = 0xFF)) M)"

definition imul_word :: "u16 \<Rightarrow> x86 \<Rightarrow> x86 option" where
  "imul_word s M =
     do {
       res \<leftarrow> c_mul (sint (R_AX M)) (sint s);
       let M = M\<lparr>R_EAX := set_lo16 (word_of_int res) (R_EAX M)\<rparr>;
       let M = M\<lparr>R_EDX := set_lo16 (word_of_int (drop_bit 16 res)) (R_EDX M)\<rparr>;
       Some (mul_flags ((R_AX M AND 0x8000 = 0 \<and> R_DX M = 0x00) \<or> (R_AX M AND 0x8000 \<noteq> 0 \<and> R_DX M = 0xFF)) M)
     }"

definition imul_long_direct :: "u32 \<Rightarrow> u32 \<Rightarrow> u32 \<times> u32" where
  "imul_long_direct d s =
     (let d_sign = d AND 0x80000000;
          d = (if d_sign \<noteq> 0 then - d else d);
          d_lo = d AND 0xFFFF;
          d_hi = drop_bit 16 d;
          s_sign = s AND 0x80000000;
          s = (if s_sign \<noteq> 0 then - s else s);
          s_lo = s AND 0xFFFF;
          s_hi = drop_bit 16 s;
          rlo_lo = d_lo * s_lo;
          rlo_hi = (d_hi * s_lo + d_lo * s_hi) + drop_bit 16 rlo_lo;
          rhi_lo = d_hi * s_hi + drop_bit 16 rlo_hi;
          res_lo = push_bit 16 rlo_hi OR (rlo_lo AND 0xFFFF);
          res_hi = rhi_lo
      in if d_sign \<noteq> s_sign then
           let d = NOT res_lo;
               s = drop_bit 16 ((d AND 0xFFFF) + 1) + drop_bit 16 d
           in (NOT res_lo + 1, NOT res_hi + drop_bit 16 s)
         else (res_lo, res_hi))"

definition imul_long :: "u32 \<Rightarrow> x86 \<Rightarrow> x86" where
  "imul_long s M =
     (case imul_long_direct (R_EAX M) s of (lo, hi) \<Rightarrow>
        let M = M\<lparr>R_EAX := lo, R_EDX := hi\<rparr> in
        mul_flags ((R_EAX M AND 0x80000000 = 0 \<and> R_EDX M = 0x00) \<or> (R_EAX M AND 0x80000000 \<noteq> 0 \<and> R_EDX M = 0xFF)) M)"

definition mul_byte :: "u8 \<Rightarrow> x86 \<Rightarrow> x86" where
  "mul_byte s M =
     (let res = (ucast (R_AL M) * ucast s :: u16);
          M = M\<lparr>R_EAX := set_lo16 res (R_EAX M)\<rparr>
      in mul_flags (R_AH M = 0) M)"

definition mul_word :: "u16 \<Rightarrow> x86 \<Rightarrow> x86 option" where
  "mul_word s M =
     do {
       p \<leftarrow> c_mul (uint (R_AX M)) (uint s);
       let res = (word_of_int p :: u32);
       let M = M\<lparr>R_EAX := set_lo16 (ucast res) (R_EAX M)\<rparr>;
       let M = M\<lparr>R_EDX := set_lo16 (ucast (drop_bit 16 res)) (R_EDX M)\<rparr>;
       Some (mul_flags (R_DX M = 0) M)
     }"

definition mul_long :: "u32 \<Rightarrow> x86 \<Rightarrow> x86" where
  "mul_long s M =
     (let a = R_EAX M;
          a_lo = a AND 0xFFFF;
          a_hi = drop_bit 16 a;
          s_lo = s AND 0xFFFF;
          s_hi = drop_bit 16 s;
          rlo_lo = a_lo * s_lo;
          rlo_hi = (a_hi * s_lo + a_lo * s_hi) + drop_bit 16 rlo_lo;
          rhi_lo = a_hi * s_hi + drop_bit 16 rlo_hi;
          M = M\<lparr>R_EAX := push_bit 16 rlo_hi OR (rlo_lo AND 0xFFFF), R_EDX := rhi_lo\<rparr>
      in mul_flags (R_EDX M = 0) M)"

section \<open>Division\<close>

definition idiv_byte :: "u8 \<Rightarrow> x86 \<Rightarrow> x86" where
  "idiv_byte s M =
     (let dvdd = sint (R_AX M) in
      if s = 0 then x86emu_intr_raise 0 M
      else
        let d = dvdd sdiv sint s; m = dvdd smod sint s in
        if \<bar>d\<bar> > 0x7f then x86emu_intr_raise 0 M
        else
          let M = M\<lparr>R_EAX := set_lo8 (word_of_int d) (R_EAX M)\<rparr> in
          M\<lparr>R_EAX := set_hi8 (word_of_int m) (R_EAX M)\<rparr>)"

definition idiv_word :: "u16 \<Rightarrow> x86 \<Rightarrow> x86 option" where
  "idiv_word s M =
     (let dvdd = sint (push_bit 16 (ucast (R_DX M)) OR ucast (R_AX M) :: u32) in
      if s = 0 then Some (x86emu_intr_raise 0 M)
      else if dvdd = INT_MIN \<and> sint s = - 1 then None
      else
        do {
          let d = dvdd sdiv sint s;
          let m = dvdd smod sint s;
          a \<leftarrow> c_abs d;
          if a > 0x7fff then Some (x86emu_intr_raise 0 M)
          else
            let M = M\<lparr>R_FLG := CLEAR_FLAG F_SF (CLEAR_FLAG F_CF (R_FLG M))\<rparr>;
                M = M\<lparr>R_FLG := CONDITIONAL_SET_FLAG (d = 0) F_ZF (R_FLG M)\<rparr>;
                M = M\<lparr>R_FLG := CONDITIONAL_SET_FLAG (PARITY (word_of_int m AND 0xff)) F_PF (R_FLG M)\<rparr>;
                M = M\<lparr>R_EAX := set_lo16 (word_of_int d) (R_EAX M)\<rparr>
            in Some (M\<lparr>R_EDX := set_lo16 (word_of_int m) (R_EDX M)\<rparr>)
        })"

definition shl_count :: "u32 \<Rightarrow> int \<Rightarrow> u32" where
  "shl_count s counter = push_bit (nat (counter mod 32)) s"

partial_function (option) div_loop ::
    "u32 \<Rightarrow> u32 \<Rightarrow> u32 \<Rightarrow> u32 \<Rightarrow> u32 \<Rightarrow> u32 \<Rightarrow> int \<Rightarrow> (u32 \<times> u32 \<times> u32) option" where
  "div_loop s dv h_dvd l_dvd h_s l_s counter =
     (let dv = push_bit 1 dv;
          cy = (if l_dvd \<ge> l_s then 0 else 1) in
      if h_dvd < h_s + cy then
        let h_s = drop_bit 1 h_s;
            counter = counter - 1;
            l_s = shl_count s counter in
        if counter > - 1 then div_loop s dv h_dvd l_dvd h_s l_s counter else Some (dv, h_dvd, l_dvd)
      else
        let h_dvd = h_dvd - (h_s + cy);
            l_dvd = (if cy \<noteq> 0 then (0xFFFFFFFF - l_s) + l_dvd + 1 else l_dvd - l_s);
            h_s = drop_bit 1 h_s;
            counter = counter - 1;
            l_s = shl_count s counter;
            dv = dv OR 1 in
        if counter > - 1 then div_loop s dv h_dvd l_dvd h_s l_s counter else Some (dv, h_dvd, l_dvd))"

definition div_done :: "u32 \<Rightarrow> u32 \<Rightarrow> x86 \<Rightarrow> x86" where
  "div_done d m M =
     (let M = M\<lparr>R_FLG := SET_FLAG F_ZF (CLEAR_FLAG F_SF (CLEAR_FLAG F_AF (CLEAR_FLAG F_CF (R_FLG M))))\<rparr>;
          M = M\<lparr>R_FLG := CONDITIONAL_SET_FLAG (PARITY (m AND 0xff)) F_PF (R_FLG M)\<rparr>
      in M\<lparr>R_EAX := d, R_EDX := m\<rparr>)"

definition idiv_long :: "u32 \<Rightarrow> x86 \<Rightarrow> x86 option" where
  "idiv_long s M =
     (let h_dvd = R_EDX M;
          l_dvd = R_EAX M;
          abs_s = s AND 0x7FFFFFFF;
          abs_h_dvd = h_dvd AND 0x7FFFFFFF;
          h_s = drop_bit 1 abs_s;
          l_s = push_bit 31 abs_s in
      if s = 0 then Some (x86emu_intr_raise 0 M)
      else
        do {
          (dv, abs_h_dvd, l_dvd) \<leftarrow> div_loop abs_s 0 abs_h_dvd l_dvd h_s l_s 31;
          if abs_h_dvd \<noteq> 0 \<or> l_dvd > abs_s then Some (x86emu_intr_raise 0 M)
          else
            let dv = dv OR ((h_dvd AND 0x10000000) XOR (s AND 0x10000000)) in
            Some (div_done dv l_dvd M)
        })"

definition div_byte :: "u8 \<Rightarrow> x86 \<Rightarrow> x86 option" where
  "div_byte s M =
     (let dvdd = (ucast (R_AX M) :: u32) in
      if s = 0 then Some (x86emu_intr_raise 0 M)
      else
        do {
          let d = dvdd div ucast s;
          let m = dvdd mod ucast s;
          a \<leftarrow> c_abs (sint d);
          if a > 0xff then Some (x86emu_intr_raise 0 M)
          else
            let M = M\<lparr>R_EAX := set_lo8 (ucast d) (R_EAX M)\<rparr> in
            Some (M\<lparr>R_EAX := set_hi8 (ucast m) (R_EAX M)\<rparr>)
        })"

definition div_word :: "u16 \<Rightarrow> x86 \<Rightarrow> x86 option" where
  "div_word s M =
     (let dvdd = (push_bit 16 (ucast (R_DX M)) OR ucast (R_AX M) :: u32) in
      if s = 0 then Some (x86emu_intr_raise 0 M)
      else
        do {
          let d = dvdd div ucast s;
          let m = dvdd mod ucast s;
          a \<leftarrow> c_abs (sint d);
          if a > 0xffff then Some (x86emu_intr_raise 0 M)
          else
            let M = M\<lparr>R_FLG := CLEAR_FLAG F_SF (CLEAR_FLAG F_CF (R_FLG M))\<rparr>;
                M = M\<lparr>R_FLG := CONDITIONAL_SET_FLAG (d = 0) F_ZF (R_FLG M)\<rparr>;
                M = M\<lparr>R_FLG := CONDITIONAL_SET_FLAG (PARITY (m AND 0xff)) F_PF (R_FLG M)\<rparr>;
                M = M\<lparr>R_EAX := set_lo16 (ucast d) (R_EAX M)\<rparr>
            in Some (M\<lparr>R_EDX := set_lo16 (ucast m) (R_EDX M)\<rparr>)
        })"

definition div_long :: "u32 \<Rightarrow> x86 \<Rightarrow> x86 option" where
  "div_long s M =
     (let h_dvd = R_EDX M;
          l_dvd = R_EAX M;
          h_s = s;
          l_s = 0 in
      if s = 0 then Some (x86emu_intr_raise 0 M)
      else
        do {
          (dv, h_dvd, l_dvd) \<leftarrow> div_loop s 0 h_dvd l_dvd h_s l_s 32;
          if h_dvd \<noteq> 0 \<or> l_dvd > s then Some (x86emu_intr_raise 0 M)
          else Some (div_done dv l_dvd M)
        })"

section \<open>The division loop\<close>

lemma two_digits_less:
  fixes h l H L B :: nat
  assumes "l < B" "L < B"
  shows "h * B + l < H * B + L \<longleftrightarrow> h < H + (if L \<le> l then 0 else 1)"
proof -
  have *: "a * B + B \<le> b * B" if "a < b" for a b :: nat
    using mult_le_mono1 [of "Suc a" b B] that by simp
  consider "h < H" | "h = H" | "H < h" by linarith
  then show ?thesis
  proof cases
    case 1 then show ?thesis using * [of h H] assms by simp
  next
    case 2 then show ?thesis by simp
  next
    case 3 then show ?thesis using * [of H h] assms by simp
  qed
qed

text \<open>The 64-bit value of two words.\<close>

definition pair64 :: "u32 \<Rightarrow> u32 \<Rightarrow> nat" where
  "pair64 h l = unat h * 4294967296 + unat l"

definition divisor_words :: "u32 \<Rightarrow> nat \<Rightarrow> u32 \<Rightarrow> u32 \<Rightarrow> bool" where
  "divisor_words s n h_s l_s \<longleftrightarrow> pair64 h_s l_s = unat s * 2 ^ n"

lemma unat_u32_less: "unat (x :: u32) < 4294967296"
  using unsigned_less [of x, where 'a = nat] by simp

lemma pair64_div_mod: "pair64 h l div 4294967296 = unat h" "pair64 h l mod 4294967296 = unat l"
  using unat_u32_less [of l] by (simp_all add: pair64_def)

lemma pair64_split: "pair64 h l = pair64 h' l' \<Longrightarrow> h = h' \<and> l = l'"
  using pair64_div_mod [of h l] pair64_div_mod [of h' l'] by (simp add: word_unat_eq_iff)

lemma pair64_high: "h = 0 \<longleftrightarrow> \<not> 4294967296 \<le> pair64 h l"
  unfolding unat_eq_0 [symmetric] pair64_div_mod(1) [of h l, symmetric] div_eq_0_iff by auto

lemma sub_words:
  assumes "unat h_s + (if l_s \<le> l then 0 else 1) < 4294967296"
  defines "cy \<equiv> (if l_s \<le> l then 0 else 1 :: u32)"
  shows "h < h_s + cy \<longleftrightarrow> pair64 h l < pair64 h_s l_s"
    "pair64 h_s l_s \<le> pair64 h l \<Longrightarrow> pair64 (h - (h_s + cy)) (l - l_s) = pair64 h l - pair64 h_s l_s"
proof -
  have c: "unat (h_s + cy) = unat h_s + (if l_s \<le> l then 0 else 1)"
    using assms(1) by (auto simp: cy_def unat_word_ariths)
  show less: "h < h_s + cy \<longleftrightarrow> pair64 h l < pair64 h_s l_s"
    unfolding word_less_nat_alt c pair64_def
    using two_digits_less [OF unat_u32_less unat_u32_less, of "unat h" l "unat h_s" l_s] by (simp add: word_le_nat_alt)
  assume "pair64 h_s l_s \<le> pair64 h l"
  then have "h_s + cy \<le> h" using less by (simp add: not_less)
  then have "unat (h - (h_s + cy)) = unat h - (unat h_s + (if l_s \<le> l then 0 else 1))"
    and le: "unat h_s + (if l_s \<le> l then 0 else 1) \<le> unat h"
    using c by (simp_all add: unat_sub word_le_nat_alt)
  moreover have "unat (l - l_s) = (if l_s \<le> l then unat l - unat l_s else unat l + 4294967296 - unat l_s)"
    by (simp add: unat_sub_if' word_le_nat_alt)
  then have "unat (l - l_s) + unat l_s = unat l + (if l_s \<le> l then 0 else 4294967296)"
    using unat_u32_less [of l_s] unfolding word_le_nat_alt by presburger
  ultimately show "pair64 (h - (h_s + cy)) (l - l_s) = pair64 h l - pair64 h_s l_s"
    unfolding pair64_def by (auto split: if_splits)
qed

lemma divisor_room:
  assumes "divisor_words s n h_s l_s" "n \<le> 32"
  shows "unat h_s + (if l_s \<le> l then 0 else 1) < 4294967296"
proof (cases "n = 32")
  case True
  then have "pair64 h_s l_s = pair64 s 0" using assms(1) by (simp add: divisor_words_def pair64_def)
  then show ?thesis using pair64_split [of h_s l_s s 0] unat_u32_less [of h_s] by simp
next
  case False
  then have "2 ^ n \<le> (2 :: nat) ^ 31" using assms(2) by (intro power_increasing) simp_all
  then have "unat s * 2 ^ n \<le> unat s * 2147483648" by simp
  then have "unat h_s * 4294967296 \<le> unat s * 2147483648" using assms(1) unfolding divisor_words_def pair64_def by linarith
  then have "unat h_s + 1 < 4294967296" using unat_u32_less [of s] by linarith
  then show ?thesis by simp
qed

lemma divisor_next:
  assumes "divisor_words s (Suc n) h_s l_s" "n \<le> 31"
  shows "divisor_words s n (drop_bit 1 h_s) (shl_count s (int n))"
proof -
  have "pair64 h_s l_s = 2 * (unat s * 2 ^ n)" using assms(1) by (simp add: divisor_words_def)
  then have h: "unat h_s = unat s * 2 ^ n div 2147483648"
    using unat_u32_less [of l_s] unfolding pair64_def by linarith
  have "nat (int n mod 32) = n" using assms(2) by simp
  then have "unat (shl_count s (int n)) = unat s * 2 ^ n mod 4294967296"
    by (simp add: shl_count_def unsigned_push_bit_eq) (simp add: push_bit_eq_mult take_bit_eq_mod)
  moreover have "unat (drop_bit 1 h_s) = unat s * 2 ^ n div 2147483648 div 2"
    unfolding unat_drop_bit_eq h by (simp add: drop_bit_eq_div)
  moreover have "unat s * 2 ^ n div 2147483648 div 2 = unat s * 2 ^ n div 4294967296"
    by (simp add: div_mult2_eq [symmetric])
  ultimately show ?thesis unfolding divisor_words_def pair64_def by simp
qed

text \<open>The loop ends for every input, and with a quotient of the remaining bits it divides.\<close>

lemma div_loop_returns: "\<exists>r. div_loop s dv h_dvd l_dvd h_s l_s (int n) = Some r"
proof (induction n arbitrary: dv h_dvd l_dvd h_s l_s)
  case 0
  then show ?case by (subst div_loop.simps) (simp add: Let_def)
next
  case (Suc n)
  have "int (Suc n) - 1 = int n" "- 1 < int n" by simp_all
  then show ?case using Suc.IH by (subst div_loop.simps) (simp add: Let_def)
qed

lemma or_shifted: "dv * 2 OR 1 = 2 * dv + (1 :: u32)"
proof -
  have "push_bit 1 dv OR 1 = push_bit 1 dv + 1"
    by (rule disjunctive_add [symmetric]) (simp only: bit_push_bit_iff bit_1_iff, simp)
  then show ?thesis by (simp add: push_bit_eq_mult mult.commute)
qed

lemma div_loop_step:
  assumes "divisor_words s n h_s l_s" "n \<le> 32" "pair64 h l < unat s * 2 ^ Suc n"
  obtains dv' h' l' where "pair64 h' l' = pair64 h l mod (unat s * 2 ^ n)"
    "dv' = 2 * dv + word_of_nat (pair64 h l div (unat s * 2 ^ n))"
    "div_loop s dv h l h_s l_s (int n) = (if n = 0 then Some (dv', h', l')
       else div_loop s dv' h' l' (drop_bit 1 h_s) (shl_count s (int n - 1)) (int n - 1))"
proof (cases "pair64 h l < unat s * 2 ^ n")
  let ?cy = "if l_s \<le> l then 0 else 1 :: u32"
  note cmp = sub_words [where h = h and l = l, OF divisor_room [OF assms(1,2)]]
  have D: "pair64 h_s l_s = unat s * 2 ^ n" using assms(1) by (simp add: divisor_words_def)
  have go: "(int n - 1 > - 1) = (n \<noteq> 0)" by auto
  {
    case True
    then have "h < h_s + ?cy" using cmp(1) D by simp
    then have "div_loop s dv h l h_s l_s (int n) = (if n = 0 then Some (push_bit 1 dv, h, l)
        else div_loop s (push_bit 1 dv) h l (drop_bit 1 h_s) (shl_count s (int n - 1)) (int n - 1))"
      by (subst div_loop.simps) (simp only: Let_def go if_True if_not_P simp_thms if_False split: if_split, blast)
    with True show thesis by (intro that [of h l "push_bit 1 dv"]) (simp_all add: push_bit_eq_mult)
  next
    case False
    then have h: "\<not> h < h_s + ?cy" using cmp(1) D by simp
    have l': "(if ?cy \<noteq> 0 then (0xFFFFFFFF - l_s) + l + 1 else l - l_s) = l - l_s" by simp
    have q: "pair64 h l div (unat s * 2 ^ n) = 1"
      using False assms(3) by (simp add: div_nat_eqI)
    then have m: "pair64 h l mod (unat s * 2 ^ n) = pair64 h l - unat s * 2 ^ n"
      by (simp add: minus_div_mult_eq_mod [symmetric])
    have "div_loop s dv h l h_s l_s (int n) = (if n = 0 then Some (push_bit 1 dv OR 1, h - (h_s + ?cy), l - l_s)
        else div_loop s (push_bit 1 dv OR 1) (h - (h_s + ?cy)) (l - l_s) (drop_bit 1 h_s) (shl_count s (int n - 1)) (int n - 1))"
      using h by (subst div_loop.simps) (simp only: Let_def go l' if_True if_not_P simp_thms if_False split: if_split, blast)
    then show thesis
      using cmp(2) False D q m
      by (intro that [of "h - (h_s + ?cy)" "l - l_s" "push_bit 1 dv OR 1"]) (simp_all add: push_bit_eq_mult or_shifted)
  }
qed

lemma quotient_step: "(v :: nat) mod (s * 2 ^ n) div s + v div (s * 2 ^ n) * 2 ^ n = v div s" "v mod (s * 2 ^ n) mod s = v mod s"
proof -
  have v: "v = v mod (s * 2 ^ n) + s * (v div (s * 2 ^ n) * 2 ^ n)" by (simp add: mult.assoc [symmetric] mult.commute)
  show "v mod (s * 2 ^ n) mod s = v mod s" by (simp add: mod_mod_cancel)
  show "v mod (s * 2 ^ n) div s + v div (s * 2 ^ n) * 2 ^ n = v div s"
  proof (cases "s = 0")
    case False
    then show ?thesis using arg_cong [OF v, of "\<lambda>v. v div s"] by simp
  qed simp
qed

lemma div_loop_divides:
  assumes "divisor_words s n h_s l_s" "n \<le> 32" "pair64 h l < unat s * 2 ^ Suc n"
  shows "\<exists>h' l'. div_loop s dv h l h_s l_s (int n)
      = Some (dv * 2 ^ Suc n + word_of_nat (pair64 h l div unat s), h', l') \<and> pair64 h' l' = pair64 h l mod unat s"
  using assms
proof (induction n arbitrary: dv h l h_s l_s)
  case 0
  from div_loop_step [OF 0, of dv] obtain h' l' where
    "pair64 h' l' = pair64 h l mod unat s"
    "div_loop s dv h l h_s l_s (int 0) = Some (2 * dv + word_of_nat (pair64 h l div unat s), h', l')"
    by (metis mult_1_right power_0)
  then show ?case by (simp add: mult.commute)
next
  case (Suc n)
  let ?V = "pair64 h l" and ?D = "unat s * 2 ^ Suc n"
  from div_loop_step [OF Suc.prems, of dv] obtain h1 l1 where V1: "pair64 h1 l1 = ?V mod ?D"
    and st: "div_loop s dv h l h_s l_s (int (Suc n))
      = div_loop s (2 * dv + word_of_nat (?V div ?D)) h1 l1 (drop_bit 1 h_s) (shl_count s (int n)) (int n)"
    by (metis (no_types, lifting) nat.distinct(1) of_nat_Suc add_diff_cancel_left')
  have "0 < ?D" using Suc.prems(3) by (cases "unat s = 0") simp_all
  then have "pair64 h1 l1 < unat s * 2 ^ Suc n" by (simp add: V1)
  from Suc.IH [OF divisor_next [OF Suc.prems(1)] _ this, of "2 * dv + word_of_nat (?V div ?D)"] Suc.prems(2)
  obtain h' l' where r: "div_loop s (2 * dv + word_of_nat (?V div ?D)) h1 l1 (drop_bit 1 h_s) (shl_count s (int n)) (int n)
      = Some ((2 * dv + word_of_nat (?V div ?D)) * 2 ^ Suc n + word_of_nat (pair64 h1 l1 div unat s), h', l')"
    and m: "pair64 h' l' = pair64 h1 l1 mod unat s" by auto
  have "(2 * dv + word_of_nat (?V div ?D)) * 2 ^ Suc n + word_of_nat (pair64 h1 l1 div unat s)
      = dv * 2 ^ Suc (Suc n) + word_of_nat (pair64 h1 l1 div unat s + ?V div ?D * 2 ^ Suc n)"
    by (simp add: algebra_simps)
  then show ?case
    using r m unfolding st V1 quotient_step by auto
qed

section \<open>Unsigned division\<close>

lemma high_word_less: "h < s \<Longrightarrow> pair64 h l < unat s * 4294967296"
proof -
  assume "h < s"
  then have "unat h + 1 \<le> unat s" by (simp add: word_less_nat_alt)
  then have "(unat h + 1) * 4294967296 \<le> unat s * 4294967296" by (rule mult_le_mono1)
  then show ?thesis using unat_u32_less [of l] unfolding pair64_def add_mult_distrib by linarith
qed

lemma div_long_ok:
  assumes "R_EDX M < s"
  defines "V \<equiv> pair64 (R_EDX M) (R_EAX M)"
  shows "div_long s M = Some (div_done (word_of_nat (V div unat s)) (word_of_nat (V mod unat s)) M)"
    "V div unat s < 4294967296" "V mod unat s < unat s"
proof -
  have V: "V < unat s * 4294967296" using high_word_less [OF assms(1)] by (simp add: V_def)
  have s: "0 < unat s" using assms(1) by (simp add: word_less_nat_alt)
  show q: "V div unat s < 4294967296" using V by (simp add: less_mult_imp_div_less mult.commute)
  show m: "V mod unat s < unat s" using s by simp
  have "divisor_words s 32 s 0" by (simp add: divisor_words_def pair64_def)
  from div_loop_divides [OF this, of "R_EDX M" "R_EAX M" 0] V
  obtain h l where l: "div_loop s 0 (R_EDX M) (R_EAX M) s 0 32 = Some (word_of_nat (V div unat s), h, l)" "pair64 h l = V mod unat s"
    by (auto simp: V_def)
  have "unat (word_of_nat (V mod unat s) :: u32) = V mod unat s"
    using unat_of_nat_u32 [of "V mod unat s"] less_trans [OF m unat_u32_less] by simp
  then have "pair64 h l = pair64 0 (word_of_nat (V mod unat s))" using l(2) by (simp add: pair64_def)
  then have "h = 0" "l = word_of_nat (V mod unat s)" using pair64_split by blast+
  moreover have "\<not> l > s" using m \<open>unat (word_of_nat _) = _\<close> calculation(2) by (simp add: word_less_nat_alt)
  ultimately show "div_long s M = Some (div_done (word_of_nat (V div unat s)) (word_of_nat (V mod unat s)) M)"
    using l(1) s by (auto simp: div_long_def)
qed

lemma signed_nat: "n < 2147483648 \<Longrightarrow> signed_take_bit 31 (int n) = int n"
  by (intro signed_take_bit_int_eq_self) simp_all

lemma sint_small: "unat (d :: u32) < 2147483648 \<Longrightarrow> sint d = int (unat d)"
  using signed_nat [of "unat d"] by (simp add: sint_uint)

lemma c_abs_small: "unat (d :: u32) < 2147483648 \<Longrightarrow> c_abs (sint d) = Some (int (unat d))"
  by (simp add: sint_small c_abs_def)

lemma unat_ucast_small: "unat (x :: u32) < 256 \<Longrightarrow> unat (ucast x :: u8) = unat x" "unat x < 65536 \<Longrightarrow> unat (ucast x :: u16) = unat x"
  by (simp_all add: unsigned_ucast_eq take_bit_nat_eq_self)

lemma halves: "unat (R_AX M) = unat (R_AH M) * 256 + unat (R_AL M)"
proof -
  have "unat (R_EAX M) mod (256 * 256) = 256 * (unat (R_EAX M) div 256 mod 256) + unat (R_EAX M) mod 256" by (rule mod_mult2_eq)
  then show ?thesis
    unfolding lo16_def hi8_def lo8_def unsigned_ucast_eq unsigned_drop_bit_eq
    by (simp add: take_bit_eq_mod drop_bit_eq_div)
qed

lemma div_byte_ok:
  assumes "R_AH M < s"
  defines "V \<equiv> unat (R_AX M)"
  shows "\<exists>M'. div_byte s M = Some M' \<and> unat (R_AL M') = V div unat s \<and> unat (R_AH M') = V mod unat s \<and> R_EAX_update (\<lambda>_. 0) M' = R_EAX_update (\<lambda>_. 0) M"
proof -
  have s: "unat (R_AH M) + 1 \<le> unat s" using assms(1) by (simp add: word_less_nat_alt)
  then have "(unat (R_AH M) + 1) * 256 \<le> unat s * 256" by (rule mult_le_mono1)
  moreover have "unat (R_AL M) < 256" using unsigned_less [of "R_AL M", where 'a = nat] by simp
  ultimately have "V < unat s * 256" unfolding V_def halves add_mult_distrib by linarith
  then have q: "V div unat s < 256" by (simp add: less_mult_imp_div_less mult.commute)
  have m: "V mod unat s < 256" using s unsigned_less [of s, where 'a = nat] less_trans [of "V mod unat s" "unat s" 256] by simp
  have d: "unat (ucast (R_AX M) div ucast s :: u32) = V div unat s" "unat (ucast (R_AX M) mod ucast s :: u32) = V mod unat s"
    by (simp_all add: unat_div unat_mod unat_up V_def)
  let ?d = "ucast (R_AX M) div ucast s :: u32" and ?m = "ucast (R_AX M) mod ucast s :: u32"
  have "c_abs (sint ?d) = Some (int (V div unat s))" using c_abs_small [of ?d] q d by simp
  then have "div_byte s M = Some (M\<lparr>R_EAX := set_hi8 (ucast ?m) (set_lo8 (ucast ?d) (R_EAX M))\<rparr>)"
    using s q by (auto simp: div_byte_def Let_def)
  moreover have "unat (ucast ?d :: u8) = V div unat s" "unat (ucast ?m :: u8) = V mod unat s"
    using unat_ucast_small [of ?d] unat_ucast_small [of ?m] q m d by simp_all
  ultimately show ?thesis by (simp add: reg_views)
qed

lemma div_byte_overflow:
  assumes "s \<le> R_AH M"
  shows "div_byte s M = Some (x86emu_intr_raise 0 M)"
proof (cases "s = 0")
  case False
  let ?d = "ucast (R_AX M) div ucast s :: u32"
  have d: "unat ?d = unat (R_AX M) div unat s" by (simp add: unat_div unat_up)
  also have "\<dots> \<le> unat (R_AX M)" by (rule div_le_dividend)
  also have "\<dots> < 65536" using unsigned_less [of "R_AX M", where 'a = nat] by simp
  finally have "c_abs (sint ?d) = Some (int (unat ?d))" by (intro c_abs_small) simp
  moreover have "256 * unat s \<le> unat (R_AX M)" using assms unfolding halves word_le_nat_alt by simp
  then have "256 \<le> unat ?d" unfolding d using False div_le_mono [of "256 * unat s" "unat (R_AX M)" "unat s"] by (simp add: unat_eq_0)
  then have "255 < int (unat ?d)" by linarith
  ultimately show ?thesis using False by (simp add: div_byte_def Let_def)
qed (simp add: div_byte_def)

lemma word_pair: "unat (push_bit 16 (ucast h) OR ucast l :: u32) = unat h * 65536 + unat l" for h l :: u16
proof -
  have "push_bit 16 (ucast h) OR ucast l = push_bit 16 (ucast h) + (ucast l :: u32)"
    by (rule disjunctive_add [symmetric]) (auto simp: bit_simps dest: bit_imp_le_length)
  moreover have "unat (push_bit 16 (ucast h) :: u32) = unat h * 65536"
    using unsigned_less [of h, where 'a = nat]
    by (simp add: push_bit_eq_mult unat_word_ariths unat_up)
  ultimately show ?thesis
    using unsigned_less [of h, where 'a = nat] unsigned_less [of l, where 'a = nat] by (simp add: unat_word_ariths unat_up)
qed

lemma div_word_ok:
  assumes "R_DX M < s"
  defines "V \<equiv> unat (R_DX M) * 65536 + unat (R_AX M)"
  shows "\<exists>M'. div_word s M = Some M' \<and> unat (R_AX M') = V div unat s \<and> unat (R_DX M') = V mod unat s
    \<and> (\<not> on F_CF (R_FLG M')) \<and> on F_ZF (R_FLG M') = (V div unat s = 0)"
proof -
  have s: "unat (R_DX M) + 1 \<le> unat s" using assms(1) by (simp add: word_less_nat_alt)
  then have "(unat (R_DX M) + 1) * 65536 \<le> unat s * 65536" by (rule mult_le_mono1)
  moreover have "unat (R_AX M) < 65536" using unsigned_less [of "R_AX M", where 'a = nat] by simp
  ultimately have "V < unat s * 65536" unfolding V_def add_mult_distrib by linarith
  then have q: "V div unat s < 65536" by (simp add: less_mult_imp_div_less mult.commute)
  have m: "V mod unat s < 65536" using s unsigned_less [of s, where 'a = nat] less_trans [of "V mod unat s" "unat s" 65536] by simp
  let ?v = "push_bit 16 (ucast (R_DX M)) OR ucast (R_AX M) :: u32"
  let ?d = "?v div ucast s :: u32" and ?m = "?v mod ucast s :: u32"
  have d: "unat ?d = V div unat s" "unat ?m = V mod unat s" unfolding unat_div unat_mod word_pair by (simp_all add: unat_up V_def)
  have "c_abs (sint ?d) = Some (int (V div unat s))" using c_abs_small [of ?d] q d by simp
  moreover define flg where "flg = CONDITIONAL_SET_FLAG (PARITY (?m AND 0xff)) F_PF (CONDITIONAL_SET_FLAG (?d = 0) F_ZF
    (CLEAR_FLAG F_SF (CLEAR_FLAG F_CF (R_FLG M))))"
  ultimately have "div_word s M = Some (M\<lparr>R_FLG := flg, R_EAX := set_lo16 (ucast ?d) (R_EAX M), R_EDX := set_lo16 (ucast ?m) (R_EDX M)\<rparr>)"
    using s q by (auto simp: div_word_def Let_def)
  moreover have "\<not> on F_CF flg" "on F_ZF flg = (?d = 0)" by (simp_all add: flg_def SET_cond x86_flags)
  moreover have "?d = 0 \<longleftrightarrow> V div unat s = 0" unfolding d(1) [symmetric] unat_eq_0 ..
  moreover have "unat (ucast ?d :: u16) = V div unat s" "unat (ucast ?m :: u16) = V mod unat s"
    using unat_ucast_small [of ?d] unat_ucast_small [of ?m] q m d by simp_all
  ultimately show ?thesis by (simp add: reg_views)
qed

section \<open>Products\<close>

lemma mul_flags_simps [simp]:
  "R_EAX (mul_flags c M) = R_EAX M" "R_EDX (mul_flags c M) = R_EDX M"
  "on F_CF (R_FLG (mul_flags c M)) = (\<not> c)" "on F_OF (R_FLG (mul_flags c M)) = (\<not> c)"
  by (simp_all add: mul_flags_def SET_cond x86_flags)

lemma unat_halves: "unat (x AND 0xFFFF) = unat x mod 65536" "unat (drop_bit 16 x) = unat x div 65536" for x :: u32
proof -
  have m: "(0xFFFF :: u32) = mask 16" by (simp add: mask_eq_exp_minus_1)
  show "unat (x AND 0xFFFF) = unat x mod 65536"
    unfolding m take_bit_eq_mask [symmetric] unsigned_take_bit_eq by (simp add: take_bit_eq_mod)
  show "unat (drop_bit 16 x) = unat x div 65536" unfolding unat_drop_bit_eq by (simp add: drop_bit_eq_div)
qed

lemma unat_mul_exact: "unat x * unat y < 4294967296 \<Longrightarrow> unat (x * y) = unat x * unat y" for x y :: u32
  by (simp add: unat_word_ariths)

lemma unat_add_exact: "unat x + unat y < 4294967296 \<Longrightarrow> unat (x + y) = unat x + unat y" for x y :: u32
  by (simp add: unat_word_ariths)

lemma half_product: "x < 65536 \<Longrightarrow> y < 65536 \<Longrightarrow> x * y \<le> 65535 * 65535" for x y :: nat
  using mult_le_mono [of x 65535 y 65535] by simp

text \<open>The sum of the middle products; a product is exact if it fits into a word.\<close>

definition middle :: "nat \<Rightarrow> nat \<Rightarrow> nat" where
  "middle x y = (x div 65536) * (y mod 65536) + (x mod 65536) * (y div 65536) + (x mod 65536) * (y mod 65536) div 65536"

lemma long_product: "x * y = ((x div 65536) * (y div 65536) + middle x y div 65536) * 4294967296
    + middle x y mod 65536 * 65536 + (x mod 65536) * (y mod 65536) mod 65536" for x y :: nat
proof -
  define xh xl yh yl where d: "xh = x div 65536" "xl = x mod 65536" "yh = y div 65536" "yl = y mod 65536"
  have "x = xh * 65536 + xl" "y = yh * 65536 + yl" unfolding d by simp_all
  then have "x * y = xh * yh * 4294967296 + (xh * yl + xl * yh) * 65536 + xl * yl" by (simp add: algebra_simps)
  moreover have "xl * yl = xl * yl div 65536 * 65536 + xl * yl mod 65536" by simp
  moreover have "middle x y = middle x y div 65536 * 65536 + middle x y mod 65536" by simp
  moreover have "middle x y = xh * yl + xl * yh + xl * yl div 65536" by (simp add: middle_def d)
  ultimately show ?thesis unfolding d [symmetric] add_mult_distrib by linarith
qed

lemma or_halves: "unat (push_bit 16 x OR (y AND 0xFFFF)) = unat x mod 65536 * 65536 + unat y mod 65536" for x y :: u32
proof -
  have "push_bit 16 x = push_bit 16 (ucast (ucast x :: u16))" by (rule bit_eqI) (auto simp: bit_simps)
  then have e: "push_bit 16 x OR (y AND 0xFFFF) = push_bit 16 (ucast (ucast x :: u16)) OR ucast (ucast y :: u16)"
    by (simp only: ucast_low)
  have u: "unat (ucast z :: u16) = unat z mod 65536" for z :: u32 by (simp add: unsigned_ucast_eq take_bit_eq_mod)
  show ?thesis unfolding e word_pair u ..
qed

lemma product_words:
  fixes a s rlo_lo rlo_hi rhi_lo :: u32
  assumes fits: "middle (unat a) (unat s) < 4294967296"
    and lo: "rlo_lo = (a AND 0xFFFF) * (s AND 0xFFFF)"
    and mid: "rlo_hi = (drop_bit 16 a * (s AND 0xFFFF) + (a AND 0xFFFF) * drop_bit 16 s) + drop_bit 16 rlo_lo"
    and hi: "rhi_lo = drop_bit 16 a * drop_bit 16 s + drop_bit 16 rlo_hi"
  shows "pair64 rhi_lo (push_bit 16 rlo_hi OR (rlo_lo AND 0xFFFF)) = unat a * unat s"
proof -
  let ?ah = "unat a div 65536" and ?al = "unat a mod 65536" and ?sh = "unat s div 65536" and ?sl = "unat s mod 65536"
  have b: "?ah < 65536" "?al < 65536" "?sh < 65536" "?sl < 65536"
    using unat_u32_less [of a] unat_u32_less [of s] by (simp_all add: less_mult_imp_div_less)
  have p: "?al * ?sl < 4294967296" "?ah * ?sl < 4294967296" "?al * ?sh < 4294967296" "?ah * ?sh < 4294967296"
    using half_product [OF b(2) b(4)] half_product [OF b(1) b(4)] half_product [OF b(2) b(3)] half_product [OF b(1) b(3)] by simp_all
  have lo': "unat rlo_lo = ?al * ?sl" unfolding lo by (simp add: unat_mul_exact unat_halves p(1))
  have m1: "unat (drop_bit 16 a * (s AND 0xFFFF)) = ?ah * ?sl" "unat ((a AND 0xFFFF) * drop_bit 16 s) = ?al * ?sh"
    by (simp_all add: unat_mul_exact unat_halves p)
  have m2: "unat (drop_bit 16 a * (s AND 0xFFFF) + (a AND 0xFFFF) * drop_bit 16 s) = ?ah * ?sl + ?al * ?sh"
    using fits by (subst unat_add_exact) (simp_all add: m1 middle_def)
  have mid': "unat rlo_hi = middle (unat a) (unat s)"
    using fits unfolding mid by (subst unat_add_exact) (simp_all add: m2 unat_halves lo' middle_def)
  have "unat a * unat s < 4294967296 * 4294967296"
    by (rule mult_strict_mono') (simp_all add: unat_u32_less)
  then have h: "?ah * ?sh + middle (unat a) (unat s) div 65536 < 4294967296"
    unfolding long_product [of "unat a" "unat s"] by simp
  then have hi': "unat rhi_lo = ?ah * ?sh + middle (unat a) (unat s) div 65536"
    unfolding hi by (subst unat_add_exact) (simp_all add: unat_mul_exact unat_halves p mid')
  show ?thesis
    unfolding pair64_def or_halves hi' mid' lo' long_product [of "unat a" "unat s"] by simp
qed

lemma mul_byte_ok:
  shows "unat (R_AX (mul_byte s M)) = unat (R_AL M) * unat s"
    "on F_CF (R_FLG (mul_byte s M)) = (256 \<le> unat (R_AL M) * unat s)"
    "on F_OF (R_FLG (mul_byte s M)) = (256 \<le> unat (R_AL M) * unat s)"
proof -
  have b: "unat (R_AL M) \<le> 255" "unat s \<le> 255" using unsigned_less [of "R_AL M", where 'a = nat] unsigned_less [of s, where 'a = nat] by simp_all
  have "unat (R_AL M) * unat s \<le> 255 * 255" using b by (rule mult_le_mono)
  then have p: "unat (ucast (R_AL M) * ucast s :: u16) = unat (R_AL M) * unat s"
    using b by (simp add: unat_word_ariths unsigned_ucast_eq take_bit_nat_eq_self)
  then show ax: "unat (R_AX (mul_byte s M)) = unat (R_AL M) * unat s" by (simp add: mul_byte_def Let_def reg_views)
  have "R_AH (mul_byte s M) = 0 \<longleftrightarrow> \<not> 256 \<le> unat (R_AL M) * unat s"
    unfolding ax [symmetric] halves using unsigned_less [of "R_AL (mul_byte s M)", where 'a = nat]
    by (auto simp del: unsigned_less simp: unat_eq_0 [symmetric])
  then show "on F_CF (R_FLG (mul_byte s M)) = (256 \<le> unat (R_AL M) * unat s)"
    "on F_OF (R_FLG (mul_byte s M)) = (256 \<le> unat (R_AL M) * unat s)"
    by (simp_all add: mul_byte_def Let_def)
qed

lemma mul_long_ok:
  assumes "middle (unat (R_EAX M)) (unat s) < 4294967296"
  shows "pair64 (R_EDX (mul_long s M)) (R_EAX (mul_long s M)) = unat (R_EAX M) * unat s"
    "on F_CF (R_FLG (mul_long s M)) = (4294967296 \<le> unat (R_EAX M) * unat s)"
    "on F_OF (R_FLG (mul_long s M)) = (4294967296 \<le> unat (R_EAX M) * unat s)"
proof -
  note p = product_words [OF assms refl refl refl]
  show ax: "pair64 (R_EDX (mul_long s M)) (R_EAX (mul_long s M)) = unat (R_EAX M) * unat s"
    using p by (simp add: mul_long_def Let_def)
  have "R_EDX (mul_long s M) = 0 \<longleftrightarrow> \<not> 4294967296 \<le> unat (R_EAX M) * unat s"
    unfolding ax [symmetric] by (rule pair64_high)
  then show "on F_CF (R_FLG (mul_long s M)) = (4294967296 \<le> unat (R_EAX M) * unat s)"
    "on F_OF (R_FLG (mul_long s M)) = (4294967296 \<le> unat (R_EAX M) * unat s)"
    by (simp_all add: mul_long_def Let_def)
qed

lemma c_mul_nat: "x * y < 2147483648 \<Longrightarrow> c_mul (int x) (int y) = Some (int (x * y))"
proof -
  assume "x * y < 2147483648"
  then have "int (x * y) < int 2147483648" by (simp only: of_nat_less_iff)
  moreover have "- 2147483648 \<le> int (x * y)" by (rule order_trans [OF _ of_nat_0_le_iff]) simp
  ultimately show ?thesis unfolding c_mul_def INT_MIN_def INT_MAX_def of_nat_mult by simp
qed

lemma mul_word_ok:
  assumes "unat (R_AX M) * unat s < 2147483648"
  shows "\<exists>M'. mul_word s M = Some M' \<and> unat (R_DX M') * 65536 + unat (R_AX M') = unat (R_AX M) * unat s
    \<and> on F_CF (R_FLG M') = (65536 \<le> unat (R_AX M) * unat s) \<and> on F_OF (R_FLG M') = (65536 \<le> unat (R_AX M) * unat s)"
proof -
  let ?p = "unat (R_AX M) * unat s"
  have c: "c_mul (uint (R_AX M)) (uint s) = Some (int ?p)"
    using c_mul_nat [OF assms] by simp
  define w where "w = (word_of_int (int ?p) :: u32)"
  have u: "unat w = ?p" using unat_of_nat_u32 [of ?p] assms by (simp add: w_def)
  have l: "unat (ucast w :: u16) = ?p mod 65536" "unat (ucast (drop_bit 16 w) :: u16) = ?p div 65536"
    using assms u unat_ucast_small(2) [of "drop_bit 16 w"]
    by (simp_all add: unsigned_ucast_eq [of w] take_bit_eq_mod unat_halves less_mult_imp_div_less)
  have z: "ucast (drop_bit 16 w) = (0 :: u16) \<longleftrightarrow> \<not> 65536 \<le> ?p"
    unfolding unat_eq_0 [symmetric] l div_eq_0_iff by auto
  have "mul_word s M = Some (mul_flags (ucast (drop_bit 16 w) = (0 :: u16))
      (M\<lparr>R_EAX := set_lo16 (ucast w) (R_EAX M), R_EDX := set_lo16 (ucast (drop_bit 16 w)) (R_EDX M)\<rparr>))"
    unfolding mul_word_def c w_def by (simp add: Let_def reg_views)
  then show ?thesis using l z by (simp add: reg_views)
qed

lemma fits_byte: "(\<not> bit w 7 \<and> ucast (drop_bit 8 w) = (0 :: u8)) \<or> (bit w 7 \<and> ucast (drop_bit 8 w) = (0xFF :: u8))
    \<longleftrightarrow> - 128 \<le> sint w \<and> sint w < 128" for w :: u16
proof -
  define u where "u = unat w"
  have u: "u < 65536" using unsigned_less [of w, where 'a = nat] by (simp add: u_def)
  define q where "q = u div 128"
  have h: "unat (ucast (drop_bit 8 w) :: u8) = q div 2"
    using u unfolding unsigned_ucast_eq unat_drop_bit_eq u_def [symmetric]
    by (simp add: drop_bit_eq_div take_bit_eq_mod q_def div_mult2_eq [symmetric] less_mult_imp_div_less)
  have b: "bit w 7 = odd q" by (simp add: bit_unat bit_iff_odd u_def q_def)
  have "sint w = int u - (if 32768 \<le> u then 65536 else 0)"
  proof -
    have "bit w 15 = odd (u div 32768)" by (simp add: bit_unat bit_iff_odd u_def)
    moreover have "u div 32768 = (if 32768 \<le> u then 1 else 0)" using u by (auto intro: div_nat_eqI)
    moreover have "u mod 32768 = u - (if 32768 \<le> u then 32768 else 0)" using u by (simp add: mod_if)
    ultimately show ?thesis by (simp add: sint_parts u_def [symmetric] take_bit_eq_mod)
  qed
  then have "- 128 \<le> sint w \<and> sint w < 128 \<longleftrightarrow> u < 128 \<or> 65408 \<le> u" using u by auto
  also have "\<dots> \<longleftrightarrow> q = 0 \<or> q = 511" using u unfolding q_def by auto
  also have "\<dots> \<longleftrightarrow> even q \<and> q div 2 = 0 \<or> odd q \<and> q div 2 = 255" by presburger
  finally show ?thesis unfolding b word_unat_eq_iff h by simp
qed

lemma sint_byte_bounds: "- 128 \<le> sint (x :: u8)" "sint x \<le> 127"
  using sint_greater_eq [of x] sint_less [of x] by simp_all

lemma sint_word_bounds: "- 32768 \<le> sint (x :: u16)" "sint x \<le> 32767"
  using sint_greater_eq [of x] sint_less [of x] by simp_all

lemma product_bound: "\<bar>x\<bar> \<le> b \<Longrightarrow> \<bar>y\<bar> \<le> b \<Longrightarrow> \<bar>x * y\<bar> \<le> b * b" for x y b :: int
  by (simp add: abs_mult mult_mono')

lemma sint_of_int: "\<bar>z\<bar> < 32768 \<Longrightarrow> sint (word_of_int z :: u16) = z"
  by (simp add: signed_of_int signed_take_bit_int_eq_self)

lemma imul_byte_ok:
  shows "sint (R_AX (imul_byte s M)) = sint (R_AL M) * sint s"
    "on F_CF (R_FLG (imul_byte s M)) = (\<not> fits s (sint (R_AL M) * sint s))"
    "on F_OF (R_FLG (imul_byte s M)) = (\<not> fits s (sint (R_AL M) * sint s))"
proof -
  let ?p = "sint (R_AL M) * sint s"
  have "\<bar>?p\<bar> \<le> 128 * 128"
    using sint_byte_bounds [of "R_AL M"] sint_byte_bounds [of s] by (intro product_bound) simp_all
  then have w: "sint (word_of_int ?p :: u16) = ?p" by (intro sint_of_int) simp
  then show ax: "sint (R_AX (imul_byte s M)) = ?p" unfolding imul_byte_def Let_def mul_flags_simps by (simp add: reg_views)
  let ?w = "R_AX (imul_byte s M)"
  have v: "R_AL (imul_byte s M) = ucast ?w" "R_AH (imul_byte s M) = ucast (drop_bit 8 ?w)"
    by (auto simp: lo8_def hi8_def lo16_def bit_eq_iff bit_simps)
  have "(ucast ?w AND 0x80 = (0 :: u8)) = (\<not> bit ?w 7)" 
    unfolding and_bit_test_narrow_0 by (simp add: bit_simps)
  then show "on F_CF (R_FLG (imul_byte s M)) = (\<not> fits s ?p)" "on F_OF (R_FLG (imul_byte s M)) = (\<not> fits s ?p)"
    using fits_byte [of ?w] v unfolding ax by (simp_all add: imul_byte_def Let_def fits_def)
qed

lemma imul_word_ok:
  "\<exists>M'. imul_word s M = Some M' \<and> int (unat (R_DX M') * 65536 + unat (R_AX M')) = (sint (R_AX M) * sint s) mod 4294967296"
proof -
  define p where "p = sint (R_AX M) * sint s"
  have "\<bar>p\<bar> \<le> 32768 * 32768"
    using sint_word_bounds [of "R_AX M"] sint_word_bounds [of s] unfolding p_def by (intro product_bound) simp_all
  then have c: "c_mul (sint (R_AX M)) (sint s) = Some p" by (auto simp: p_def c_mul_def INT_MIN_def INT_MAX_def abs_le_iff)
  obtain cond where r: "imul_word s M = Some (mul_flags cond (M\<lparr>R_EAX := set_lo16 (word_of_int p) (R_EAX M),
      R_EDX := set_lo16 (word_of_int (drop_bit 16 p)) (R_EDX M)\<rparr>))"
    by (simp add: imul_word_def c Let_def)
  have u: "int (unat (word_of_int z :: u16)) = z mod 65536" for z
    by (simp add: uint_word_of_int)
  have "p mod (65536 * 65536) = 65536 * (p div 65536 mod 65536) + p mod 65536" by (rule zmod_zmult2_eq) simp
  then show ?thesis
    unfolding r of_nat_add of_nat_mult p_def [symmetric] by (simp add: reg_views u drop_bit_eq_div uint_word_of_int)
qed

text \<open>The negation of a 64-bit value, with the carry into the upper word.\<close>

lemma carry_halves: "((n :: nat) mod 65536 + 1) div 65536 + n div 65536 = (n + 1) div 65536"
  using half_sum [of n 0 1] by simp

lemma unat_not: "unat (NOT lo) = 4294967295 - unat lo" for lo :: u32
proof -
  have "unat lo \<le> 4294967295" using unat_u32_less [of lo] by linarith
  then have "lo \<le> 0xFFFFFFFF" by (simp add: word_le_nat_alt)
  then have "unat (0xFFFFFFFF - lo) = 4294967295 - unat lo" by (simp add: unat_sub)
  moreover have "NOT lo = 0xFFFFFFFF - lo" by (simp add: not_eq_complement)
  ultimately show ?thesis by simp
qed

lemma negate_carry: "drop_bit 16 (drop_bit 16 ((NOT lo AND 0xFFFF) + 1) + drop_bit 16 (NOT lo)) = (if lo = 0 then 1 else 0)" for lo :: u32
proof -
  let ?n = "unat (NOT lo)"
  have n: "?n = 4294967295 - unat lo" by (rule unat_not)
  have m: "?n mod 65536 \<le> 65535" "?n div 65536 \<le> 65535" using unat_u32_less [of "NOT lo"] by (simp_all add: less_Suc_eq_le [symmetric] less_mult_imp_div_less)
  have "unat ((NOT lo AND 0xFFFF) + 1) = ?n mod 65536 + 1"
    using m by (subst unat_add_exact) (simp_all add: unat_halves)
  then have "unat (drop_bit 16 ((NOT lo AND 0xFFFF) + 1)) = (?n mod 65536 + 1) div 65536" by (simp only: unat_halves)
  moreover have "(?n mod 65536 + 1) div 65536 \<le> 1" using m(1) by linarith
  ultimately have "unat (drop_bit 16 ((NOT lo AND 0xFFFF) + 1) + drop_bit 16 (NOT lo)) = (?n + 1) div 65536"
    using m(2) carry_halves [of ?n] by (subst unat_add_exact) (simp_all add: unat_halves(2))
  then have "unat (drop_bit 16 (drop_bit 16 ((NOT lo AND 0xFFFF) + 1) + drop_bit 16 (NOT lo))) = (?n + 1) div 4294967296"
    by (simp only: unat_halves(2) div_mult2_eq [symmetric]) simp
  also have "\<dots> = (if lo = 0 then 1 else 0)"
    using unat_u32_less [of lo] unfolding n by (auto simp: unat_eq_0 [symmetric] simp del: unat_eq_0 intro!: div_less)
  finally show ?thesis by (auto simp: word_unat_eq_iff)
qed

lemma neg_mod: "0 < x \<Longrightarrow> x < n \<Longrightarrow> int (n - x) = (- int x) mod int n"
  using mod_add_self2 [of "- int x" "int n"] mod_pos_pos_trivial [of "int n - int x" "int n"] by (simp add: of_nat_diff)

lemma negate_words:
  "int (pair64 (NOT hi + (if lo = 0 then 1 else 0)) (NOT lo + 1)) = (- int (pair64 hi lo)) mod 18446744073709551616"
proof -
  have l: "unat lo < 4294967296" "unat hi < 4294967296" by (rule unat_u32_less)+
  have p: "pair64 hi lo < 18446744073709551616" unfolding pair64_def using l by linarith
  have u: "unat (NOT x + 1) = (if x = 0 then 0 else 4294967296 - unat x)" for x :: u32
  proof (cases "x = 0")
    case False
    then have "0 < unat x" by (simp add: unat_gt_0)
    then have "unat (NOT x + 1) = unat (NOT x) + 1" by (subst unat_add_exact) (simp_all add: unat_not)
    also have "\<dots> = 4294967296 - unat x" unfolding unat_not using unat_u32_less [of x] by linarith
    finally show ?thesis using False by simp
  qed simp
  consider "pair64 hi lo = 0" | "lo = 0" "hi \<noteq> 0" | "lo \<noteq> 0" unfolding pair64_def by (auto simp: unat_eq_0)
  then show ?thesis
  proof cases
    case 1
    then have "lo = 0" "hi = 0" unfolding pair64_def by (simp_all add: unat_eq_0)
    then show ?thesis by (simp add: pair64_def)
  next
    case 2
    have "0 < unat hi" using 2 by (simp add: unat_gt_0)
    have "unat (NOT hi + 1) = 4294967296 - unat hi" "unat (NOT lo + 1) = 0" "unat lo = 0" using u [of hi] u [of lo] 2 by simp_all
    then have "pair64 (NOT hi + 1) (NOT lo + 1) = 18446744073709551616 - pair64 hi lo"
      unfolding pair64_def using l by linarith
    moreover have "0 < pair64 hi lo" unfolding pair64_def using \<open>0 < unat hi\<close> by simp
    moreover have "(if lo = 0 then 1 else 0 :: u32) = 1" using 2 by simp
    ultimately show ?thesis using neg_mod [OF _ p] by (simp only: add_0_right) simp
  next
    case 3
    have "0 < unat lo" using 3 by (simp add: unat_gt_0)
    have "unat (NOT hi) = 4294967295 - unat hi" "unat (NOT lo + 1) = 4294967296 - unat lo" using u [of lo] 3 by (simp_all add: unat_not)
    then have "pair64 (NOT hi) (NOT lo + 1) = 18446744073709551616 - pair64 hi lo"
      unfolding pair64_def using l by linarith
    moreover have "0 < pair64 hi lo" unfolding pair64_def using \<open>0 < unat lo\<close> by simp
    moreover have "(if lo = 0 then 1 else 0 :: u32) = 0" using 3 by simp
    ultimately show ?thesis using neg_mod [OF _ p] by (simp only: add_0_right) simp
  qed
qed

lemma and_exp_cases: "x AND 2 ^ n = (if bit x n then 2 ^ n else 0)" for x :: "'a::len word"
  by (rule bit_eqI) (auto simp: bit_and_iff bit_exp_iff dest: bit_imp_le_length)

lemma sign_bit: "x AND 0x80000000 = (if sint x < 0 then 0x80000000 else 0)" for x :: u32
proof -
  have "x AND 2 ^ 31 = (if bit x 31 then 2 ^ 31 else 0)" by (rule and_exp_cases)
  moreover have "bit x 31 \<longleftrightarrow> sint x < 0" using bit_last_iff [of x] by simp
  ultimately show ?thesis by simp
qed

lemma uint_of_int: "0 \<le> z \<Longrightarrow> z < 4294967296 \<Longrightarrow> uint (word_of_int z :: u32) = z"
  by (simp add: uint_word_of_int)

lemma sint_long_bounds: "- 2147483648 \<le> sint (x :: u32)" "sint x \<le> 2147483647"
  using sint_greater_eq [of x] sint_less [of x] by simp_all

lemma magnitude: "int (unat (if sint x < 0 then - x else x)) = \<bar>sint x\<bar>" for x :: u32
proof (cases "sint x < 0")
  case True
  have "uint (word_of_int (- sint x) :: u32) = - sint x"
    using True sint_long_bounds [of x] by (intro uint_of_int) simp_all
  then show ?thesis using True by simp
next
  case False
  have "uint (word_of_int (sint x) :: u32) = sint x"
    using False sint_long_bounds [of x] by (intro uint_of_int) simp_all
  then show ?thesis using False by simp
qed

lemma middle_small:
  assumes "x \<le> 2147483648" "y \<le> 2147483648"
  shows "middle x y < 4294967296"
proof -
  have h: "x div 65536 \<le> 32768" "y div 65536 \<le> 32768" using assms by linarith+
  have l: "x mod 65536 \<le> 65535" "y mod 65536 \<le> 65535" by simp_all
  have "x div 65536 * (y mod 65536) \<le> 32768 * 65535" using h(1) l(2) by (rule mult_le_mono)
  moreover have "x mod 65536 * (y div 65536) \<le> 65535 * 32768" using l(1) h(2) by (rule mult_le_mono)
  moreover have "x mod 65536 * (y mod 65536) \<le> 65535 * 65535" using l by (rule mult_le_mono)
  then have "x mod 65536 * (y mod 65536) div 65536 \<le> 65535 * 65535 div 65536" by (rule div_le_mono)
  ultimately show ?thesis unfolding middle_def by simp
qed

lemma imul_long_direct_ok:
  "imul_long_direct d s = (lo, hi) \<Longrightarrow> int (pair64 hi lo) = (sint d * sint s) mod 18446744073709551616"
proof -
  assume r: "imul_long_direct d s = (lo, hi)"
  define d' s' where m: "d' = (if sint d < 0 then - d else d)" "s' = (if sint s < 0 then - s else s)"
  have n: "int (unat d') = \<bar>sint d\<bar>" "int (unat s') = \<bar>sint s\<bar>" unfolding m by (rule magnitude)+
  then have "unat d' \<le> 2147483648" "unat s' \<le> 2147483648"
    using sint_long_bounds [of d] sint_long_bounds [of s] by linarith+
  then have "middle (unat d') (unat s') < 4294967296" by (rule middle_small)
  note words = product_words [OF this refl refl refl]
  define lo' hi' where p: "lo' = push_bit 16 ((drop_bit 16 d' * (s' AND 0xFFFF) + (d' AND 0xFFFF) * drop_bit 16 s')
      + drop_bit 16 ((d' AND 0xFFFF) * (s' AND 0xFFFF))) OR ((d' AND 0xFFFF) * (s' AND 0xFFFF) AND 0xFFFF)"
    "hi' = drop_bit 16 d' * drop_bit 16 s' + drop_bit 16 ((drop_bit 16 d' * (s' AND 0xFFFF) + (d' AND 0xFFFF) * drop_bit 16 s')
      + drop_bit 16 ((d' AND 0xFFFF) * (s' AND 0xFFFF)))"
  have P: "pair64 hi' lo' = unat d' * unat s'" using words unfolding p .
  have sg: "(d AND 0x80000000 \<noteq> s AND 0x80000000) = ((sint d < 0) \<noteq> (sint s < 0))" unfolding sign_bit by auto
  have cd: "(d AND 0x80000000 \<noteq> 0) = (sint d < 0)" "(s AND 0x80000000 \<noteq> 0) = (sint s < 0)" unfolding sign_bit by auto
  have res: "(lo, hi) = (if (sint d < 0) \<noteq> (sint s < 0) then (NOT lo' + 1, NOT hi' + (if lo' = 0 then 1 else 0)) else (lo', hi'))"
    unfolding r [symmetric] imul_long_direct_def Let_def cd m [symmetric] p [symmetric] sg negate_carry ..
  have P': "int (pair64 hi' lo') = \<bar>sint d * sint s\<bar>" unfolding P of_nat_mult n abs_mult ..
  show ?thesis
  proof (cases "(sint d < 0) \<noteq> (sint s < 0)")
    case True
    then have "sint d * sint s \<le> 0" by (auto simp: mult_le_0_iff)
    then show ?thesis using res True negate_words [of hi' lo'] P' by simp
  next
    case False
    then have "0 \<le> sint d * sint s" by (auto simp: zero_le_mult_iff)
    moreover have "pair64 hi' lo' < 18446744073709551616"
      unfolding pair64_def using unat_u32_less [of hi'] unat_u32_less [of lo'] by linarith
    then have "int (pair64 hi' lo') < 18446744073709551616" by linarith
    ultimately show ?thesis using res False P' by (simp add: mod_pos_pos_trivial)
  qed
qed

section \<open>Signed division\<close>

lemma sint_of_int_byte: "\<bar>z\<bar> < 128 \<Longrightarrow> sint (word_of_int z :: u8) = z"
  by (simp add: signed_of_int signed_take_bit_int_eq_self)

lemma smod_bound: "y \<noteq> 0 \<Longrightarrow> \<bar>y\<bar> \<le> b \<Longrightarrow> \<bar>x smod y\<bar> < b" for x y b :: int
  using smod_int_range [of y x] by auto

lemma idiv_byte_ok:
  assumes "s \<noteq> 0" and q_def: "q = sint (R_AX M) sdiv sint s"
  shows "\<bar>q\<bar> \<le> 127 \<Longrightarrow> sint (R_AL (idiv_byte s M)) = q \<and> sint (R_AH (idiv_byte s M)) = sint (R_AX M) smod sint s"
    "128 \<le> \<bar>q\<bar> \<Longrightarrow> idiv_byte s M = x86emu_intr_raise 0 M"
proof -
  have "sint s \<noteq> 0" using assms(1) by (metis signed_0 signed_word_eqI)
  then have m: "\<bar>sint (R_AX M) smod sint s\<bar> < 128" using sint_byte_bounds [of s] by (intro smod_bound) simp_all
  {
    assume "\<bar>q\<bar> \<le> 127"
    then have "idiv_byte s M = M\<lparr>R_EAX := set_hi8 (word_of_int (sint (R_AX M) smod sint s)) (set_lo8 (word_of_int q) (R_EAX M))\<rparr>"
      using assms(1) by (simp add: idiv_byte_def Let_def q_def)
    then show "sint (R_AL (idiv_byte s M)) = q \<and> sint (R_AH (idiv_byte s M)) = sint (R_AX M) smod sint s"
      using m sint_of_int_byte [of q] sint_of_int_byte [OF m] \<open>\<bar>q\<bar> \<le> 127\<close> by (simp add: reg_views)
  next
    assume "128 \<le> \<bar>q\<bar>"
    then show "idiv_byte s M = x86emu_intr_raise 0 M" using assms(1) by (simp add: idiv_byte_def Let_def q_def)
  }
qed

section \<open>Properties\<close>






declare div_loop.simps [code]

text \<open>Where multiplication and division go wrong. The product of \<open>0xFFFFFFFF\<close> with itself loses the carry of
  its middle products. \<^verbatim>\<open>imul_word\<close> and \<^verbatim>\<open>imul_long\<close> report an overflow for the product \<open>-1\<close>, which fits. The quotients
  \<open>2^32\<close> and \<open>0xFFFFFFFF\<close> do not fit, but \<^verbatim>\<open>div_long\<close> and \<^verbatim>\<open>div_word\<close> return their lower half without an interrupt, while
  \<^verbatim>\<open>idiv_byte\<close> raises one for the quotient \<open>-128\<close>, which fits. \<^verbatim>\<open>idiv_long\<close> takes the sign bit of a two's complement number for the
  sign of a magnitude and finds that \<open>-1\<close> divided by \<open>1\<close> overflows. The smallest 32-bit number divided by \<open>-1\<close> stops the
  emulator itself.\<close>

theorem x86_muldiv_wrong:
  "R_EDX (mul_long 0xFFFFFFFF (sample\<lparr>R_EAX := 0xFFFFFFFF\<rparr>)) = 0xFFFEFFFE
    \<and> map_option (\<lambda>M. (on F_CF (R_FLG M), R_AX M, R_DX M)) (imul_word 1 (sample\<lparr>R_EAX := 0xFFFF\<rparr>)) = Some (True, 0xFFFF, 0xFFFF)
    \<and> on F_CF (R_FLG (imul_long 1 (sample\<lparr>R_EAX := 0xFFFFFFFF\<rparr>)))
    \<and> map_option (\<lambda>M. (R_EAX M, x_intr M)) (div_long 1 (sample\<lparr>R_EAX := 0, R_EDX := 1, x_intr := 0\<rparr>)) = Some (0, 0)
    \<and> map_option (\<lambda>M. (R_AX M, x_intr M)) (div_word 1 (sample\<lparr>R_EAX := 0xFFFF, R_EDX := 0xFFFF, x_intr := 0\<rparr>)) = Some (0xFFFF, 0)
    \<and> x_intr (idiv_byte 1 (sample\<lparr>R_EAX := 0xFF80, x_intr := 0\<rparr>)) = INTR_SYNCH
    \<and> map_option x_intr (idiv_long 1 (sample\<lparr>R_EAX := 0xFFFFFFFF, R_EDX := 0xFFFFFFFF, x_intr := 0\<rparr>)) = Some INTR_SYNCH
    \<and> idiv_word 0xFFFF (sample\<lparr>R_EAX := 0, R_EDX := 0x8000\<rparr>) = None"
  by (intro conjI; code_simp)

end
