(* ===== verification/X86_Operand.thy ===== *)
theory X86_Operand
  imports X86_Machine
begin

unbundle bit_operations_syntax

text \<open>
  The common shape of the instruction handlers of \<^verbatim>\<open>ops.c\<close> and \<^verbatim>\<open>ops2.c\<close>. A handler fetches the ModRM byte,
  switches on its mode field between a memory operand (modes 0 to 2, which differ only in the function that
  computes the address) and a register operand (mode 3), and, for the word instructions, on the
  operand-size prefix between 16 and 32 bit. The source writes all of these cases out. Here the functions that differ
  between the 8-, 16- and 32-bit case are the fields of a \<open>width\<close>, and the combinators below are the cases of
  one width. A handler returns \<^term>\<open>None\<close> if it touches memory outside of the emulated block, dereferences a null
  register pointer or performs a computation that is undefined in C.
\<close>

section \<open>The widths\<close>

record ('w, 'r) width =
  w_fetch :: "u32 \<Rightarrow> x86 \<Rightarrow> ('w \<times> x86) option"
  w_store :: "u32 \<Rightarrow> 'w \<Rightarrow> x86 \<Rightarrow> x86 option"
  w_imm :: "x86 \<Rightarrow> ('w \<times> x86) option"
  w_reg :: "nat \<Rightarrow> x86 \<Rightarrow> ('r \<times> x86) option"
  w_get :: "'r \<Rightarrow> x86 \<Rightarrow> 'w"
  w_set :: "'r \<Rightarrow> 'w \<Rightarrow> x86 \<Rightarrow> x86"
  w_acc :: 'r

text \<open>The pointer a register decoder returns is dereferenced by every caller.\<close>

definition deref :: "'r option \<times> x86 \<Rightarrow> ('r \<times> x86) option" where
  "deref p = (case p of (Some r, M) \<Rightarrow> Some (r, M) | (None, M) \<Rightarrow> None)"

definition BYTE :: "(u8, reg8) width" where
  "BYTE = \<lparr>w_fetch = fetch_data_byte, w_store = store_data_byte, w_imm = fetch_byte_imm,
     w_reg = (\<lambda>n M. deref (decode_rm_byte_register n M)), w_get = get_reg8, w_set = set_reg8, w_acc = AL\<rparr>"

definition WORD :: "(u16, reg16) width" where
  "WORD = \<lparr>w_fetch = fetch_data_word, w_store = store_data_word, w_imm = fetch_word_imm,
     w_reg = (\<lambda>n M. deref (decode_rm_word_register n M)), w_get = get_reg16, w_set = set_reg16, w_acc = AX\<rparr>"

definition LONG :: "(u32, reg32) width" where
  "LONG = \<lparr>w_fetch = fetch_data_long, w_store = store_data_long, w_imm = fetch_long_imm,
     w_reg = (\<lambda>n M. deref (decode_rm_long_register n M)), w_get = get_reg32, w_set = set_reg32, w_acc = EAX\<rparr>"

section \<open>Frame of a handler\<close>

definition DECODE_CLEAR_SEGOVR :: "x86 \<Rightarrow> x86" where
  "DECODE_CLEAR_SEGOVR M = M\<lparr>x_mode := x_mode M AND NOT SYSMODE_CLRMASK\<rparr>"

definition clearing :: "(x86 \<Rightarrow> x86 option) \<Rightarrow> x86 \<Rightarrow> x86 option" where
  "clearing body M = do { M \<leftarrow> body M; Some (DECODE_CLEAR_SEGOVR M) }"

definition modrm :: "(nat \<Rightarrow> nat \<Rightarrow> nat \<Rightarrow> x86 \<Rightarrow> x86 option) \<Rightarrow> x86 \<Rightarrow> x86 option" where
  "modrm body M =
     do {
       ((md, rh, rl), M) \<leftarrow> fetch_decode_modrm M;
       M \<leftarrow> body md rh rl M;
       Some (DECODE_CLEAR_SEGOVR M)
     }"

definition by_data_size :: "(x86 \<Rightarrow> 'a) \<Rightarrow> (x86 \<Rightarrow> 'a) \<Rightarrow> x86 \<Rightarrow> 'a" where
  "by_data_size long word M = (if x_mode M AND SYSMODE_PREFIX_DATA \<noteq> 0 then long M else word M)"

definition by_data_size_rm ::
    "(nat \<Rightarrow> nat \<Rightarrow> nat \<Rightarrow> x86 \<Rightarrow> 'a) \<Rightarrow> (nat \<Rightarrow> nat \<Rightarrow> nat \<Rightarrow> x86 \<Rightarrow> 'a) \<Rightarrow> nat \<Rightarrow> nat \<Rightarrow> nat \<Rightarrow> x86 \<Rightarrow> 'a" where
  "by_data_size_rm long word md rh rl M = by_data_size (long md rh rl) (word md rh rl) M"

section \<open>Operands\<close>

definition decode_rm_address :: "nat \<Rightarrow> nat \<Rightarrow> x86 \<Rightarrow> (u32 \<times> x86) option" where
  "decode_rm_address md rl M =
     (if md = 0 then decode_rm00_address rl M
      else if md = 1 then decode_rm01_address rl M
      else decode_rm10_address rl M)"

text \<open>What an operation returns: the value to write back, if any, and the new state.\<close>

type_synonym 'w effect = "('w option \<times> x86) option"

definition alu :: "('a \<Rightarrow> 'b \<Rightarrow> u32 \<Rightarrow> 'w \<times> u32) \<Rightarrow> 'a \<Rightarrow> 'b \<Rightarrow> x86 \<Rightarrow> 'w effect" where
  "alu f a b M = (case f a b (R_FLG M) of (res, flg) \<Rightarrow> Some (Some res, M\<lparr>R_FLG := flg\<rparr>))"

definition alu1 :: "('a \<Rightarrow> u32 \<Rightarrow> 'w \<times> u32) \<Rightarrow> 'a \<Rightarrow> x86 \<Rightarrow> 'w effect" where
  "alu1 f a M = (case f a (R_FLG M) of (res, flg) \<Rightarrow> Some (Some res, M\<lparr>R_FLG := flg\<rparr>))"

definition compare :: "('a \<Rightarrow> 'b \<Rightarrow> u32 \<Rightarrow> 'w \<times> u32) \<Rightarrow> 'a \<Rightarrow> 'b \<Rightarrow> x86 \<Rightarrow> 'w effect" where
  "compare f a b M = Some (None, M\<lparr>R_FLG := snd (f a b (R_FLG M))\<rparr>)"

definition testing :: "('a \<Rightarrow> 'b \<Rightarrow> u32 \<Rightarrow> u32) \<Rightarrow> 'a \<Rightarrow> 'b \<Rightarrow> x86 \<Rightarrow> 'w effect" where
  "testing f a b M = Some (None, M\<lparr>R_FLG := f a b (R_FLG M)\<rparr>)"

definition shift :: "('a \<Rightarrow> 'b \<Rightarrow> u32 \<Rightarrow> ('w \<times> u32) option) \<Rightarrow> 'a \<Rightarrow> 'b \<Rightarrow> x86 \<Rightarrow> 'w effect" where
  "shift f a b M = do { (res, flg) \<leftarrow> f a b (R_FLG M); Some (Some res, M\<lparr>R_FLG := flg\<rparr>) }"

definition machine :: "('a \<Rightarrow> x86 \<Rightarrow> x86 option) \<Rightarrow> 'a \<Rightarrow> x86 \<Rightarrow> 'w effect" where
  "machine f a M = do { M \<leftarrow> f a M; Some (None, M) }"

definition put_reg :: "('w, 'r) width \<Rightarrow> 'r \<Rightarrow> 'w option \<Rightarrow> x86 \<Rightarrow> x86" where
  "put_reg W r res M = (case res of Some v \<Rightarrow> w_set W r v M | None \<Rightarrow> M)"

text \<open>A read of the r/m operand, an update of it, and the value of an immediate operand that the source fetches
  between the address and the data.\<close>

definition read_rm :: "('w, 'r) width \<Rightarrow> nat \<Rightarrow> nat \<Rightarrow> x86 \<Rightarrow> ('w \<times> x86) option" where
  "read_rm W md rl M =
     (if md < 3 then do { (srcoffset, M) \<leftarrow> decode_rm_address md rl M; w_fetch W srcoffset M }
      else do { (srcreg, M) \<leftarrow> w_reg W rl M; Some (w_get W srcreg M, M) })"

definition no_imm :: "x86 \<Rightarrow> (unit \<times> x86) option" where
  "no_imm M = Some ((), M)"

definition update_rm :: "('w, 'r) width \<Rightarrow> (x86 \<Rightarrow> ('i \<times> x86) option) \<Rightarrow> ('i \<Rightarrow> 'w \<Rightarrow> x86 \<Rightarrow> 'w effect) \<Rightarrow>
    nat \<Rightarrow> nat \<Rightarrow> x86 \<Rightarrow> x86 option" where
  "update_rm W imm f md rl M =
     (if md < 3 then
        do {
          (destoffset, M) \<leftarrow> decode_rm_address md rl M;
          (i, M) \<leftarrow> imm M;
          (destval, M) \<leftarrow> w_fetch W destoffset M;
          (res, M) \<leftarrow> f i destval M;
          case res of Some v \<Rightarrow> w_store W destoffset v M | None \<Rightarrow> Some M
        }
      else
        do {
          (destreg, M) \<leftarrow> w_reg W rl M;
          (i, M) \<leftarrow> imm M;
          (res, M) \<leftarrow> f i (w_get W destreg M) M;
          Some (put_reg W destreg res M)
        })"

definition write_rm :: "('w, 'r) width \<Rightarrow> (x86 \<Rightarrow> ('w \<times> x86) option) \<Rightarrow> nat \<Rightarrow> nat \<Rightarrow> x86 \<Rightarrow> x86 option" where
  "write_rm W src md rl M =
     (if md < 3 then
        do { (destoffset, M) \<leftarrow> decode_rm_address md rl M; (v, M) \<leftarrow> src M; w_store W destoffset v M }
      else
        do { (destreg, M) \<leftarrow> w_reg W rl M; (v, M) \<leftarrow> src M; Some (w_set W destreg v M) })"

definition reg_value :: "('w, 'r) width \<Rightarrow> nat \<Rightarrow> x86 \<Rightarrow> ('w \<times> x86) option" where
  "reg_value W n M = do { (srcreg, M) \<leftarrow> w_reg W n M; Some (w_get W srcreg M, M) }"

section \<open>Instruction forms\<close>

definition op_RM_R :: "('w, 'r) width \<Rightarrow> ('w \<Rightarrow> 'w \<Rightarrow> x86 \<Rightarrow> 'w effect) \<Rightarrow> nat \<Rightarrow> nat \<Rightarrow> nat \<Rightarrow> x86 \<Rightarrow> x86 option" where
  "op_RM_R W f md rh rl M =
     update_rm W no_imm (\<lambda>_ destval M. do { (srcval, M) \<leftarrow> reg_value W rh M; f destval srcval M }) md rl M"

definition op_R_RM :: "('w, 'r) width \<Rightarrow> ('w \<Rightarrow> 'w \<Rightarrow> x86 \<Rightarrow> 'w effect) \<Rightarrow> nat \<Rightarrow> nat \<Rightarrow> nat \<Rightarrow> x86 \<Rightarrow> x86 option" where
  "op_R_RM W f md rh rl M =
     do {
       (destreg, M) \<leftarrow> w_reg W rh M;
       (srcval, M) \<leftarrow> read_rm W md rl M;
       (res, M) \<leftarrow> f (w_get W destreg M) srcval M;
       Some (put_reg W destreg res M)
     }"

definition op_A_IMM :: "('w, 'r) width \<Rightarrow> ('w \<Rightarrow> 'w \<Rightarrow> x86 \<Rightarrow> 'w effect) \<Rightarrow> x86 \<Rightarrow> x86 option" where
  "op_A_IMM W f M =
     do {
       (srcval, M) \<leftarrow> w_imm W M;
       (res, M) \<leftarrow> f (w_get W (w_acc W) M) srcval M;
       Some (put_reg W (w_acc W) res M)
     }"

definition op_reg :: "('w, 'r) width \<Rightarrow> ('w \<Rightarrow> x86 \<Rightarrow> 'w effect) \<Rightarrow> 'r \<Rightarrow> x86 \<Rightarrow> x86 option" where
  "op_reg W f r M = do { (res, M) \<leftarrow> f (w_get W r M) M; Some (put_reg W r res M) }"

definition op_RM_IMM :: "('w, 'r) width \<Rightarrow> (x86 \<Rightarrow> ('w \<times> x86) option) \<Rightarrow> (nat \<Rightarrow> 'w \<Rightarrow> 'w \<Rightarrow> x86 \<Rightarrow> 'w effect) \<Rightarrow>
    nat \<Rightarrow> nat \<Rightarrow> nat \<Rightarrow> x86 \<Rightarrow> x86 option" where
  "op_RM_IMM W imm f md rh rl M =
     update_rm W no_imm (\<lambda>_ destval M. do { (i, M) \<leftarrow> imm M; f rh destval i M }) md rl M"

section \<open>What the widths have in common\<close>

text \<open>The registers of one width. A register number of three bits names a register, the registers are independent of each
  other, and writing one of them changes nothing but the general registers.\<close>

definition same_but_regs :: "x86 \<Rightarrow> x86 \<Rightarrow> bool" where
  "same_but_regs M M' \<longleftrightarrow> M' = M\<lparr>R_EAX := R_EAX M', R_EBX := R_EBX M', R_ECX := R_ECX M', R_EDX := R_EDX M',
     R_ESP := R_ESP M', R_EBP := R_EBP M', R_ESI := R_ESI M', R_EDI := R_EDI M'\<rparr>"

locale operand_width =
  fixes W :: "('w, 'r) width" and reg_of :: "nat \<Rightarrow> 'r"
  assumes reg_ok: "n < 8 \<Longrightarrow> w_reg W n M = Some (reg_of n, M)"
    and reg_inj: "n < 8 \<Longrightarrow> k < 8 \<Longrightarrow> reg_of n = reg_of k \<longleftrightarrow> n = k"
    and get_set: "w_get W r (w_set W r v M) = v"
    and get_set_other: "r \<noteq> r' \<Longrightarrow> w_get W r (w_set W r' v M) = w_get W r M"
    and set_set: "w_set W r v (w_set W r v' M) = w_set W r v M"
    and set_get: "w_set W r (w_get W r M) M = M"
    and set_swap: "r \<noteq> r' \<Longrightarrow> w_set W r v (w_set W r' v' M) = w_set W r' v' (w_set W r v M)"
    and get_flags: "w_get W r (M\<lparr>R_FLG := flg\<rparr>) = w_get W r M"
    and set_frame: "same_but_regs M (w_set W r v M)"
begin

lemma reg_value_ok: "n < 8 \<Longrightarrow> reg_value W n M = Some (w_get W (reg_of n) M, M)"
  by (simp add: reg_value_def reg_ok)

lemma read_rm_reg: "n < 8 \<Longrightarrow> read_rm W 3 n M = Some (w_get W (reg_of n) M, M)"
  by (simp add: read_rm_def reg_ok)

lemma op_RM_R_reg:
  assumes "rh < 8" "rl < 8"
  shows "op_RM_R W f 3 rh rl M =
    do { (res, M) \<leftarrow> f (w_get W (reg_of rl) M) (w_get W (reg_of rh) M) M; Some (put_reg W (reg_of rl) res M) }"
  using assms by (simp add: op_RM_R_def update_rm_def reg_ok no_imm_def reg_value_ok)

text \<open>An instruction on two registers can be encoded in two ways.\<close>

lemma op_encodings:
  assumes "rh < 8" "rl < 8"
  shows "op_RM_R W f 3 rh rl M = op_R_RM W f 3 rl rh M"
  using assms by (simp add: op_RM_R_reg op_R_RM_def reg_ok read_rm_reg)

end

text \<open>The registers in the order of their numbers.\<close>

definition regs8 :: "reg8 list" where "regs8 = [AL, CL, DL, BL, AH, CH, DH, BH]"
definition regs16 :: "reg16 list" where "regs16 = [AX, CX, DX, BX, SP, BP, SI, DI]"
definition regs32 :: "reg32 list" where "regs32 = [EAX, ECX, EDX, EBX, ESP, EBP, ESI, EDI]"

lemma deref_reg:
  "n < 8 \<Longrightarrow> deref (decode_rm_byte_register n M) = Some (regs8 ! n, M)"
  "n < 8 \<Longrightarrow> deref (decode_rm_word_register n M) = Some (regs16 ! n, M)"
  "n < 8 \<Longrightarrow> deref (decode_rm_long_register n M) = Some (regs32 ! n, M)"
  by (simp_all add: deref_def decode_rm_byte_register_def decode_rm_word_register_def decode_rm_long_register_def
      switch_reg_def regs8_def regs16_def regs32_def)

lemma regs_inj:
  "n < 8 \<Longrightarrow> k < 8 \<Longrightarrow> regs8 ! n = regs8 ! k \<longleftrightarrow> n = k" "n < 8 \<Longrightarrow> k < 8 \<Longrightarrow> regs16 ! n = regs16 ! k \<longleftrightarrow> n = k"
  "n < 8 \<Longrightarrow> k < 8 \<Longrightarrow> regs32 ! n = regs32 ! k \<longleftrightarrow> n = k"
  by (simp_all add: regs8_def regs16_def regs32_def nth_eq_iff_index_eq)

lemma upd_reg32_simps [simp]:
  "get_reg32 r (upd_reg32 r f M) = f (get_reg32 r M)" "r \<noteq> r' \<Longrightarrow> get_reg32 r (upd_reg32 r' f M) = get_reg32 r M"
  "upd_reg32 r f (upd_reg32 r g M) = upd_reg32 r (\<lambda>x. f (g x)) M"
  "get_reg32 r (M\<lparr>R_FLG := flg\<rparr>) = get_reg32 r M" "same_but_regs M (upd_reg32 r f M)"
  by (cases r; cases r'; simp add: same_but_regs_def)+

lemma upd_reg32_swap: "r \<noteq> r' \<Longrightarrow> upd_reg32 r f (upd_reg32 r' g M) = upd_reg32 r' g (upd_reg32 r f M)"
  by (cases r; cases r'; simp)

lemma upd_reg32_id: "f (get_reg32 r M) = get_reg32 r M \<Longrightarrow> upd_reg32 r f M = M"
  by (cases r) simp_all

lemma views8_more [reg_views]:
  "set_lo8 v (set_lo8 v' r) = set_lo8 v r" "set_hi8 v (set_hi8 v' r) = set_hi8 v r"
  "set_lo8 (lo8 r) r = r" "set_hi8 (hi8 r) r = r" "set_lo8 v (set_hi8 v' r) = set_hi8 v' (set_lo8 v r)"
  unfolding lo8_def hi8_def set_lo8_def set_hi8_def high_mask
  by (rule bit_eqI, auto simp: bit_simps dest: bit_imp_le_length)+

lemma wide8_eq: "wide8 r = wide8 r' \<longleftrightarrow> r = r'"
  by (cases r; cases r'; simp)

lemma wide16_eq: "wide16 r = wide16 r' \<longleftrightarrow> r = r'"
  by (cases r; cases r'; simp)

interpretation byte_width: operand_width BYTE "\<lambda>n. regs8 ! n"
proof
  fix r r' :: reg8 and v v' :: u8 and M :: x86
  obtain w h where w: "wide8 r = (w, h)" by fastforce
  obtain w' h' where w': "wide8 r' = (w', h')" by fastforce
  have n: "w \<noteq> w' \<or> h \<noteq> h'" if "r \<noteq> r'" using that wide8_eq [of r r'] w w' by simp
  show "w_get BYTE r (w_set BYTE r v M) = v" by (simp add: BYTE_def get_reg8_def set_reg8_def w reg_views)
  show "w_get BYTE r (w_set BYTE r' v M) = w_get BYTE r M" if "r \<noteq> r'"
    using n [OF that] by (cases "w = w'") (auto simp: BYTE_def get_reg8_def set_reg8_def w w' reg_views)
  show "w_set BYTE r v (w_set BYTE r v' M) = w_set BYTE r v M"
    by (cases h) (simp_all add: BYTE_def set_reg8_def w reg_views)
  show "w_set BYTE r (w_get BYTE r M) M = M"
    by (cases h) (simp_all add: BYTE_def get_reg8_def set_reg8_def w reg_views upd_reg32_id)
  show "w_set BYTE r v (w_set BYTE r' v' M) = w_set BYTE r' v' (w_set BYTE r v M)" if "r \<noteq> r'"
    using n [OF that] by (cases "w = w'") (auto simp: BYTE_def set_reg8_def w w' reg_views upd_reg32_swap [of w w'])
qed (simp_all add: BYTE_def deref_reg regs_inj get_reg8_def set_reg8_def split: prod.split)

interpretation word_width: operand_width WORD "\<lambda>n. regs16 ! n"
proof
  show "w_set WORD r (w_get WORD r M) M = M" for r M
    by (simp add: WORD_def get_reg16_def set_reg16_def reg_views upd_reg32_id)
  show "w_set WORD r v (w_set WORD r' v' M) = w_set WORD r' v' (w_set WORD r v M)" if "r \<noteq> r'" for r r' v v' M
    using that by (simp add: WORD_def set_reg16_def upd_reg32_swap wide16_eq)
qed (simp_all add: WORD_def deref_reg regs_inj get_reg16_def set_reg16_def reg_views wide16_eq)

interpretation long_width: operand_width LONG "\<lambda>n. regs32 ! n"
proof
  show "w_set LONG r (w_get LONG r M) M = M" for r M by (simp add: LONG_def set_reg32_def upd_reg32_id)
  show "w_set LONG r v (w_set LONG r' v' M) = w_set LONG r' v' (w_set LONG r v M)" if "r \<noteq> r'" for r r' v v' M
    using that by (simp add: LONG_def set_reg32_def upd_reg32_swap)
qed (simp_all add: LONG_def deref_reg regs_inj set_reg32_def)

end
