(* ===== verification/X86_Ops_Move.thy ===== *)
theory X86_Ops_Move
  imports X86_Operand
begin

unbundle bit_operations_syntax

text \<open>
  The handlers of \<^verbatim>\<open>ops.c\<close> that move data: between registers and memory, on the stack, into and out of the segment and
  flag registers, and through the ports; and the prefixes, which only change the mode word.
\<close>

section \<open>Moves\<close>

definition move :: "'w \<Rightarrow> 'w \<Rightarrow> x86 \<Rightarrow> 'w effect" where
  "move dest src M = Some (Some src, M)"

definition x86emuOp_mov_byte_RM_R :: "x86 \<Rightarrow> x86 option" where
  "x86emuOp_mov_byte_RM_R = modrm (\<lambda>md rh rl. write_rm BYTE (reg_value BYTE rh) md rl)"

definition x86emuOp_mov_word_RM_R :: "x86 \<Rightarrow> x86 option" where
  "x86emuOp_mov_word_RM_R = modrm (by_data_size_rm (\<lambda>md rh rl. write_rm LONG (reg_value LONG rh) md rl)
     (\<lambda>md rh rl. write_rm WORD (reg_value WORD rh) md rl))"

definition x86emuOp_mov_byte_R_RM :: "x86 \<Rightarrow> x86 option" where
  "x86emuOp_mov_byte_R_RM = modrm (op_R_RM BYTE move)"

definition x86emuOp_mov_word_R_RM :: "x86 \<Rightarrow> x86 option" where
  "x86emuOp_mov_word_R_RM = modrm (by_data_size_rm (op_R_RM LONG move) (op_R_RM WORD move))"

definition seg_value :: "nat \<Rightarrow> x86 \<Rightarrow> (u16 \<times> x86) option" where
  "seg_value n M = do { (srcreg, M) \<leftarrow> deref (decode_rm_seg_register n M); Some (get_segreg srcreg M, M) }"

definition x86emuOp_mov_word_RM_SR :: "x86 \<Rightarrow> x86 option" where
  "x86emuOp_mov_word_RM_SR = modrm (\<lambda>md rh rl. write_rm WORD (seg_value rh) md rl)"

definition x86emuOp_mov_word_SR_RM :: "x86 \<Rightarrow> x86 option" where
  "x86emuOp_mov_word_SR_RM = modrm (\<lambda>md rh rl M. do {
     (destreg, M) \<leftarrow> deref (decode_rm_seg_register rh M);
     (srcval, M) \<leftarrow> read_rm WORD md rl M;
     Some (set_segreg destreg srcval M)
   })"

text \<open>The immediate moves of opcodes \<open>0xC6\<close> and \<open>0xC7\<close> halt the machine if the reg field is not 0, but carry on; so
  does \<open>pop_RM\<close>.\<close>

definition expect_0 :: "(nat \<Rightarrow> nat \<Rightarrow> x86 \<Rightarrow> x86 option) \<Rightarrow> nat \<Rightarrow> nat \<Rightarrow> nat \<Rightarrow> x86 \<Rightarrow> x86 option" where
  "expect_0 f md rh rl M = (let M = (if rh \<noteq> 0 then X86EMU_halt_sys M else M) in f md rl M)"

definition x86emuOp_mov_byte_RM_IMM :: "x86 \<Rightarrow> x86 option" where
  "x86emuOp_mov_byte_RM_IMM = modrm (expect_0 (write_rm BYTE fetch_byte_imm))"

definition x86emuOp_mov_word_RM_IMM :: "x86 \<Rightarrow> x86 option" where
  "x86emuOp_mov_word_RM_IMM = modrm (expect_0 (\<lambda>md rl. by_data_size (write_rm LONG fetch_long_imm md rl)
     (write_rm WORD fetch_word_imm md rl)))"

text \<open>The source has one handler per register for the following moves, exchanges, pushes and pops; here the register
  is an argument.\<close>

definition load_imm :: "('w, 'r) width \<Rightarrow> 'r \<Rightarrow> x86 \<Rightarrow> x86 option" where
  "load_imm W r M = do { (imm, M) \<leftarrow> w_imm W M; Some (w_set W r imm M) }"

definition x86emuOp_mov_byte_reg_IMM :: "reg8 \<Rightarrow> x86 \<Rightarrow> x86 option" where
  "x86emuOp_mov_byte_reg_IMM r = clearing (load_imm BYTE r)"

definition x86emuOp_mov_word_reg_IMM :: "reg16 \<Rightarrow> x86 \<Rightarrow> x86 option" where
  "x86emuOp_mov_word_reg_IMM r = clearing (by_data_size (load_imm LONG (wide16 r)) (load_imm WORD r))"

text \<open>Moves between the accumulator and a direct address.\<close>

definition load_moffs :: "('w, 'r) width \<Rightarrow> u16 \<Rightarrow> x86 \<Rightarrow> x86 option" where
  "load_moffs W offset M = do { (v, M) \<leftarrow> w_fetch W (ucast offset) M; Some (w_set W (w_acc W) v M) }"

definition store_moffs :: "('w, 'r) width \<Rightarrow> u16 \<Rightarrow> x86 \<Rightarrow> x86 option" where
  "store_moffs W offset M = w_store W (ucast offset) (w_get W (w_acc W) M) M"

definition x86emuOp_mov_AL_M_IMM :: "x86 \<Rightarrow> x86 option" where
  "x86emuOp_mov_AL_M_IMM = clearing (\<lambda>M. do { (offset, M) \<leftarrow> fetch_word_imm M; load_moffs BYTE offset M })"

definition x86emuOp_mov_AX_M_IMM :: "x86 \<Rightarrow> x86 option" where
  "x86emuOp_mov_AX_M_IMM = clearing (\<lambda>M. do {
     (offset, M) \<leftarrow> fetch_word_imm M;
     by_data_size (load_moffs LONG offset) (load_moffs WORD offset) M
   })"

definition x86emuOp_mov_M_AL_IMM :: "x86 \<Rightarrow> x86 option" where
  "x86emuOp_mov_M_AL_IMM = clearing (\<lambda>M. do { (offset, M) \<leftarrow> fetch_word_imm M; store_moffs BYTE offset M })"

definition x86emuOp_mov_M_AX_IMM :: "x86 \<Rightarrow> x86 option" where
  "x86emuOp_mov_M_AX_IMM = clearing (\<lambda>M. do {
     (offset, M) \<leftarrow> fetch_word_imm M;
     by_data_size (store_moffs LONG offset) (store_moffs WORD offset) M
   })"

definition x86emuOp_xlat :: "x86 \<Rightarrow> x86 option" where
  "x86emuOp_xlat = clearing (\<lambda>M. do {
     let addr = R_BX M + ucast (R_AL M);
     (v, M) \<leftarrow> fetch_data_byte (ucast addr) M;
     Some (set_reg8 AL v M)
   })"

section \<open>Exchanges\<close>

definition xchg_RM_R :: "('w, 'r) width \<Rightarrow> nat \<Rightarrow> nat \<Rightarrow> nat \<Rightarrow> x86 \<Rightarrow> x86 option" where
  "xchg_RM_R W md rh rl M =
     update_rm W no_imm (\<lambda>_ destval M. do {
       (srcreg, M) \<leftarrow> w_reg W rh M;
       let tmp = w_get W srcreg M;
       Some (Some tmp, w_set W srcreg destval M)
     }) md rl M"

definition xchg_reg :: "('w, 'r) width \<Rightarrow> 'r \<Rightarrow> 'r \<Rightarrow> x86 \<Rightarrow> x86 option" where
  "xchg_reg W a b M = (let tmp = w_get W a M in Some (w_set W b tmp (w_set W a (w_get W b M) M)))"

definition x86emuOp_xchg_byte_RM_R :: "x86 \<Rightarrow> x86 option" where
  "x86emuOp_xchg_byte_RM_R = modrm (xchg_RM_R BYTE)"

definition x86emuOp_xchg_word_RM_R :: "x86 \<Rightarrow> x86 option" where
  "x86emuOp_xchg_word_RM_R = modrm (by_data_size_rm (xchg_RM_R LONG) (xchg_RM_R WORD))"

definition x86emuOp_xchg_word_AX_reg :: "reg16 \<Rightarrow> x86 \<Rightarrow> x86 option" where
  "x86emuOp_xchg_word_AX_reg r = clearing (by_data_size (xchg_reg LONG EAX (wide16 r)) (xchg_reg WORD AX r))"

definition x86emuOp_nop :: "x86 \<Rightarrow> x86 option" where
  "x86emuOp_nop = clearing Some"

definition x86emuOp_wait :: "x86 \<Rightarrow> x86 option" where
  "x86emuOp_wait = clearing Some"

section \<open>Addresses\<close>

definition x86emuOp_lea_word_R_M :: "x86 \<Rightarrow> x86 option" where
  "x86emuOp_lea_word_R_M = modrm (\<lambda>md rh rl M.
     if md < 3 then
       if x_mode M AND SYSMODE_PREFIX_ADDR \<noteq> 0 then
         do {
           (srcreg, M) \<leftarrow> w_reg LONG rh M;
           (destoffset, M) \<leftarrow> decode_rm_address md rl M;
           Some (set_reg32 srcreg destoffset M)
         }
       else
         do {
           (srcreg, M) \<leftarrow> w_reg WORD rh M;
           (destoffset, M) \<leftarrow> decode_rm_address md rl M;
           Some (set_reg16 srcreg (ucast destoffset) M)
         }
     else Some M)"

definition load_far :: "segreg \<Rightarrow> nat \<Rightarrow> nat \<Rightarrow> nat \<Rightarrow> x86 \<Rightarrow> x86 option" where
  "load_far seg md rh rl M =
     (if md < 3 then
        do {
          (dstreg, M) \<leftarrow> w_reg WORD rh M;
          (srcoffset, M) \<leftarrow> decode_rm_address md rl M;
          (v, M) \<leftarrow> fetch_data_word srcoffset M;
          let M = set_reg16 dstreg v M;
          (s, M) \<leftarrow> fetch_data_word (srcoffset + 2) M;
          Some (set_segreg seg s M)
        }
      else Some M)"

definition x86emuOp_les_R_IMM :: "x86 \<Rightarrow> x86 option" where
  "x86emuOp_les_R_IMM = modrm (load_far ES)"

definition x86emuOp_lds_R_IMM :: "x86 \<Rightarrow> x86 option" where
  "x86emuOp_lds_R_IMM = modrm (load_far DS)"

section \<open>Sign extension\<close>

definition x86emuOp_cbw :: "x86 \<Rightarrow> x86 option" where
  "x86emuOp_cbw = clearing (by_data_size
     (\<lambda>M. Some (if R_AX M AND 0x8000 \<noteq> 0 then M\<lparr>R_EAX := R_EAX M OR 0xffff0000\<rparr>
       else M\<lparr>R_EAX := R_EAX M AND 0x0000ffff\<rparr>))
     (\<lambda>M. Some (if R_AL M AND 0x80 \<noteq> 0 then set_reg8 AH 0xff M else set_reg8 AH 0x0 M)))"

definition x86emuOp_cwd :: "x86 \<Rightarrow> x86 option" where
  "x86emuOp_cwd = clearing (by_data_size
     (\<lambda>M. Some (if R_EAX M AND 0x80000000 \<noteq> 0 then M\<lparr>R_EDX := 0xffffffff\<rparr> else M\<lparr>R_EDX := 0x0\<rparr>))
     (\<lambda>M. Some (if R_AX M AND 0x8000 \<noteq> 0 then set_reg16 DX 0xffff M else set_reg16 DX 0x0 M)))"

section \<open>Stack\<close>

definition push_reg :: "reg16 \<Rightarrow> x86 \<Rightarrow> x86 option" where
  "push_reg r M = by_data_size (\<lambda>M. push_long (get_reg32 (wide16 r) M) M) (\<lambda>M. push_word (get_reg16 r M) M) M"

definition pop_into_word :: "reg16 \<Rightarrow> x86 \<Rightarrow> x86 option" where
  "pop_into_word r M = do { (v, M) \<leftarrow> pop_word M; Some (set_reg16 r v M) }"

definition pop_into_long :: "reg32 \<Rightarrow> x86 \<Rightarrow> x86 option" where
  "pop_into_long r M = do { (v, M) \<leftarrow> pop_long M; Some (set_reg32 r v M) }"

definition pop_reg :: "reg16 \<Rightarrow> x86 \<Rightarrow> x86 option" where
  "pop_reg r M = by_data_size (pop_into_long (wide16 r)) (pop_into_word r) M"

definition push_seg :: "segreg \<Rightarrow> x86 \<Rightarrow> x86 option" where
  "push_seg s M = push_word (get_segreg s M) M"

definition pop_seg :: "segreg \<Rightarrow> x86 \<Rightarrow> x86 option" where
  "pop_seg s M = do { (v, M) \<leftarrow> pop_word M; Some (set_segreg s v M) }"

definition x86emuOp_push_reg :: "reg16 \<Rightarrow> x86 \<Rightarrow> x86 option" where
  "x86emuOp_push_reg r = clearing (push_reg r)"

definition x86emuOp_pop_reg :: "reg16 \<Rightarrow> x86 \<Rightarrow> x86 option" where
  "x86emuOp_pop_reg r = clearing (pop_reg r)"

definition x86emuOp_push_ES :: "x86 \<Rightarrow> x86 option" where
  "x86emuOp_push_ES = clearing (push_seg ES)"

definition x86emuOp_push_CS :: "x86 \<Rightarrow> x86 option" where
  "x86emuOp_push_CS = clearing (push_seg CS)"

definition x86emuOp_push_SS :: "x86 \<Rightarrow> x86 option" where
  "x86emuOp_push_SS = clearing (push_seg SS)"

definition x86emuOp_push_DS :: "x86 \<Rightarrow> x86 option" where
  "x86emuOp_push_DS = clearing (push_seg DS)"

definition x86emuOp_pop_ES :: "x86 \<Rightarrow> x86 option" where
  "x86emuOp_pop_ES = clearing (pop_seg ES)"

definition x86emuOp_pop_SS :: "x86 \<Rightarrow> x86 option" where
  "x86emuOp_pop_SS = clearing (pop_seg SS)"

definition x86emuOp_pop_DS :: "x86 \<Rightarrow> x86 option" where
  "x86emuOp_pop_DS = clearing (pop_seg DS)"

definition x86emuOp_push_word_IMM :: "x86 \<Rightarrow> x86 option" where
  "x86emuOp_push_word_IMM = clearing (by_data_size (\<lambda>M. do { (imm, M) \<leftarrow> fetch_long_imm M; push_long imm M })
     (\<lambda>M. do { (imm, M) \<leftarrow> fetch_word_imm M; push_word imm M }))"

definition x86emuOp_push_byte_IMM :: "x86 \<Rightarrow> x86 option" where
  "x86emuOp_push_byte_IMM = clearing (\<lambda>M. do {
     (imm, M) \<leftarrow> fetch_byte_imm M;
     by_data_size (push_long (scast imm)) (push_word (scast imm)) M
   })"

definition x86emuOp_pop_RM :: "x86 \<Rightarrow> x86 option" where
  "x86emuOp_pop_RM = modrm (expect_0 (\<lambda>md rl. by_data_size (write_rm LONG pop_long md rl) (write_rm WORD pop_word md rl)))"

definition push_words :: "u16 list \<Rightarrow> x86 \<Rightarrow> x86 option" where
  "push_words ws M = fold (\<lambda>w M. do { M \<leftarrow> M; push_word w M }) ws (Some M)"

definition push_longs :: "u32 list \<Rightarrow> x86 \<Rightarrow> x86 option" where
  "push_longs ws M = fold (\<lambda>w M. do { M \<leftarrow> M; push_long w M }) ws (Some M)"

text \<open>The argument of each push is read before any of them; no push changes the registers that follow it in
  the source.\<close>

definition x86emuOp_push_all :: "x86 \<Rightarrow> x86 option" where
  "x86emuOp_push_all = clearing (by_data_size
     (\<lambda>M. let old_sp = R_ESP M in
       push_longs [R_EAX M, R_ECX M, R_EDX M, R_EBX M, old_sp, R_EBP M, R_ESI M, R_EDI M] M)
     (\<lambda>M. let old_sp = R_SP M in
       push_words [R_AX M, R_CX M, R_DX M, R_BX M, old_sp, R_BP M, R_SI M, R_DI M] M))"

definition x86emuOp_pop_all :: "x86 \<Rightarrow> x86 option" where
  "x86emuOp_pop_all = clearing (by_data_size
     (\<lambda>M. do {
       M \<leftarrow> pop_into_long EDI M;
       M \<leftarrow> pop_into_long ESI M;
       M \<leftarrow> pop_into_long EBP M;
       let M = M\<lparr>R_ESP := R_ESP M + 4\<rparr>;
       M \<leftarrow> pop_into_long EBX M;
       M \<leftarrow> pop_into_long EDX M;
       M \<leftarrow> pop_into_long ECX M;
       pop_into_long EAX M
     })
     (\<lambda>M. do {
       M \<leftarrow> pop_into_word DI M;
       M \<leftarrow> pop_into_word SI M;
       M \<leftarrow> pop_into_word BP M;
       let M = set_reg16 SP (R_SP M + 2) M;
       M \<leftarrow> pop_into_word BX M;
       M \<leftarrow> pop_into_word DX M;
       M \<leftarrow> pop_into_word CX M;
       pop_into_word AX M
     }))"

section \<open>Stack frames\<close>

fun enter_levels :: "nat \<Rightarrow> x86 \<Rightarrow> x86 option" where
  "enter_levels 0 M = Some M"
| "enter_levels (Suc n) M =
     do {
       let M = set_reg16 BP (R_BP M - 2) M;
       (v, M) \<leftarrow> fetch_data_word_abs (ucast (R_SS M)) (ucast (R_BP M)) M;
       M \<leftarrow> push_word v M;
       enter_levels n M
     }"

definition x86emuOp_enter :: "x86 \<Rightarrow> x86 option" where
  "x86emuOp_enter = clearing (\<lambda>M. do {
     (local, M) \<leftarrow> fetch_word_imm M;
     (nesting, M) \<leftarrow> fetch_byte_imm M;
     M \<leftarrow> push_word (R_BP M) M;
     let frame_pointer = R_SP M;
     M \<leftarrow> (if nesting > 0 then do { M \<leftarrow> enter_levels (unat nesting - 1) M; push_word frame_pointer M } else Some M);
     let M = set_reg16 BP frame_pointer M;
     Some (set_reg16 SP (R_SP M - local) M)
   })"

definition x86emuOp_leave :: "x86 \<Rightarrow> x86 option" where
  "x86emuOp_leave = clearing (\<lambda>M. pop_into_word BP (set_reg16 SP (R_BP M) M))"

section \<open>Flags\<close>

definition F_ALWAYS_ON :: u32 where "F_ALWAYS_ON = 0x0002"

definition F_MSK :: u32 where
  "F_MSK = F_CF OR F_PF OR F_AF OR F_ZF OR F_SF OR F_TF OR F_IF OR F_DF OR F_OF"

definition TOGGLE_FLAG :: "u32 \<Rightarrow> u32 \<Rightarrow> u32" where
  "TOGGLE_FLAG flag flg = flg XOR flag"

definition x86emuOp_pushf_word :: "x86 \<Rightarrow> x86 option" where
  "x86emuOp_pushf_word = clearing (\<lambda>M.
     let flags = (R_FLG M AND F_MSK) OR F_ALWAYS_ON in by_data_size (push_long flags) (push_word (ucast flags)) M)"

definition x86emuOp_popf_word :: "x86 \<Rightarrow> x86 option" where
  "x86emuOp_popf_word = clearing (by_data_size (\<lambda>M. do { (flags, M) \<leftarrow> pop_long M; Some (M\<lparr>R_FLG := flags\<rparr>) })
     (\<lambda>M. do { (flags, M) \<leftarrow> pop_word M; Some (M\<lparr>R_FLG := ucast flags\<rparr>) }))"

definition x86emuOp_sahf :: "x86 \<Rightarrow> x86 option" where
  "x86emuOp_sahf = clearing (\<lambda>M. Some (M\<lparr>R_FLG := (R_FLG M AND 0xffffff00) OR ucast (R_AH M)\<rparr>))"

definition x86emuOp_lahf :: "x86 \<Rightarrow> x86 option" where
  "x86emuOp_lahf = clearing (\<lambda>M.
     let M = set_reg8 AH (ucast (R_FLG M AND 0xff)) M in Some (set_reg8 AH (R_AH M OR 0x2) M))"

definition x86emuOp_cmc :: "x86 \<Rightarrow> x86 option" where
  "x86emuOp_cmc = clearing (\<lambda>M. Some (M\<lparr>R_FLG := TOGGLE_FLAG F_CF (R_FLG M)\<rparr>))"

definition x86emuOp_clc :: "x86 \<Rightarrow> x86 option" where
  "x86emuOp_clc = clearing (\<lambda>M. Some (M\<lparr>R_FLG := CLEAR_FLAG F_CF (R_FLG M)\<rparr>))"

definition x86emuOp_stc :: "x86 \<Rightarrow> x86 option" where
  "x86emuOp_stc = clearing (\<lambda>M. Some (M\<lparr>R_FLG := SET_FLAG F_CF (R_FLG M)\<rparr>))"

definition x86emuOp_cli :: "x86 \<Rightarrow> x86 option" where
  "x86emuOp_cli = clearing (\<lambda>M. Some (M\<lparr>R_FLG := CLEAR_FLAG F_IF (R_FLG M)\<rparr>))"

definition x86emuOp_sti :: "x86 \<Rightarrow> x86 option" where
  "x86emuOp_sti = clearing (\<lambda>M. Some (M\<lparr>R_FLG := SET_FLAG F_IF (R_FLG M)\<rparr>))"

definition x86emuOp_cld :: "x86 \<Rightarrow> x86 option" where
  "x86emuOp_cld = clearing (\<lambda>M. Some (M\<lparr>R_FLG := CLEAR_FLAG F_DF (R_FLG M)\<rparr>))"

definition x86emuOp_std :: "x86 \<Rightarrow> x86 option" where
  "x86emuOp_std = clearing (\<lambda>M. Some (M\<lparr>R_FLG := SET_FLAG F_DF (R_FLG M)\<rparr>))"

definition x86emuOp_halt :: "x86 \<Rightarrow> x86 option" where
  "x86emuOp_halt = clearing (\<lambda>M. Some (X86EMU_halt_sys M))"

section \<open>Prefixes\<close>

text \<open>A segment override, operand-size or address-size prefix sets its bit and keeps the others. The handlers of
  \<open>lock\<close>, \<open>repne\<close> and \<open>repe\<close> also clear the bits of the other prefixes.\<close>

definition set_mode :: "u32 \<Rightarrow> x86 \<Rightarrow> x86 option" where
  "set_mode b M = Some (M\<lparr>x_mode := x_mode M OR b\<rparr>)"

definition x86emuOp_segovr_ES :: "x86 \<Rightarrow> x86 option" where
  "x86emuOp_segovr_ES = set_mode SYSMODE_SEGOVR_ES"

definition x86emuOp_segovr_CS :: "x86 \<Rightarrow> x86 option" where
  "x86emuOp_segovr_CS = set_mode SYSMODE_SEGOVR_CS"

definition x86emuOp_segovr_SS :: "x86 \<Rightarrow> x86 option" where
  "x86emuOp_segovr_SS = set_mode SYSMODE_SEGOVR_SS"

definition x86emuOp_segovr_DS :: "x86 \<Rightarrow> x86 option" where
  "x86emuOp_segovr_DS = set_mode SYSMODE_SEGOVR_DS"

definition x86emuOp_segovr_FS :: "x86 \<Rightarrow> x86 option" where
  "x86emuOp_segovr_FS = set_mode SYSMODE_SEGOVR_FS"

definition x86emuOp_segovr_GS :: "x86 \<Rightarrow> x86 option" where
  "x86emuOp_segovr_GS = set_mode SYSMODE_SEGOVR_GS"

definition x86emuOp_prefix_data :: "x86 \<Rightarrow> x86 option" where
  "x86emuOp_prefix_data = set_mode SYSMODE_PREFIX_DATA"

definition x86emuOp_prefix_addr :: "x86 \<Rightarrow> x86 option" where
  "x86emuOp_prefix_addr = set_mode SYSMODE_PREFIX_ADDR"

definition x86emuOp_lock :: "x86 \<Rightarrow> x86 option" where
  "x86emuOp_lock = clearing Some"

definition x86emuOp_repne :: "x86 \<Rightarrow> x86 option" where
  "x86emuOp_repne = clearing (set_mode SYSMODE_PREFIX_REPNE)"

definition x86emuOp_repe :: "x86 \<Rightarrow> x86 option" where
  "x86emuOp_repe = clearing (set_mode SYSMODE_PREFIX_REPE)"

section \<open>Ports\<close>

definition port_in :: "(u16 \<Rightarrow> pio \<Rightarrow> 'w \<times> pio) \<Rightarrow> u16 \<Rightarrow> x86 \<Rightarrow> 'w \<times> x86" where
  "port_in sys_in port M = (case sys_in port (x_pio M) of (v, p) \<Rightarrow> (v, M\<lparr>x_pio := p\<rparr>))"

definition port_out :: "(u16 \<Rightarrow> 'w \<Rightarrow> pio \<Rightarrow> pio) \<Rightarrow> u16 \<Rightarrow> 'w \<Rightarrow> x86 \<Rightarrow> x86" where
  "port_out sys_out port v M = M\<lparr>x_pio := sys_out port v (x_pio M)\<rparr>"

definition in_acc :: "('w, 'r) width \<Rightarrow> (u16 \<Rightarrow> pio \<Rightarrow> 'w \<times> pio) \<Rightarrow> u16 \<Rightarrow> x86 \<Rightarrow> x86 option" where
  "in_acc W sys_in port M = (case port_in sys_in port M of (v, M) \<Rightarrow> Some (w_set W (w_acc W) v M))"

definition out_acc :: "('w, 'r) width \<Rightarrow> (u16 \<Rightarrow> 'w \<Rightarrow> pio \<Rightarrow> pio) \<Rightarrow> u16 \<Rightarrow> x86 \<Rightarrow> x86 option" where
  "out_acc W sys_out port M = Some (port_out sys_out port (w_get W (w_acc W) M) M)"

definition x86emuOp_in_byte_AL_IMM :: "hardware \<Rightarrow> x86 \<Rightarrow> x86 option" where
  "x86emuOp_in_byte_AL_IMM hw = clearing (\<lambda>M. do { (port, M) \<leftarrow> fetch_byte_imm M; in_acc BYTE (sys_inb hw) (ucast port) M })"

definition x86emuOp_in_word_AX_IMM :: "hardware \<Rightarrow> x86 \<Rightarrow> x86 option" where
  "x86emuOp_in_word_AX_IMM hw = clearing (\<lambda>M. do {
     (port, M) \<leftarrow> fetch_byte_imm M;
     by_data_size (in_acc LONG (sys_inl hw) (ucast port)) (in_acc WORD (sys_inw hw) (ucast port)) M
   })"

definition x86emuOp_out_byte_IMM_AL :: "x86 \<Rightarrow> x86 option" where
  "x86emuOp_out_byte_IMM_AL = clearing (\<lambda>M. do { (port, M) \<leftarrow> fetch_byte_imm M; out_acc BYTE sys_outb (ucast port) M })"

definition x86emuOp_out_word_IMM_AX :: "x86 \<Rightarrow> x86 option" where
  "x86emuOp_out_word_IMM_AX = clearing (\<lambda>M. do {
     (port, M) \<leftarrow> fetch_byte_imm M;
     by_data_size (out_acc LONG sys_outl (ucast port)) (out_acc WORD sys_outw (ucast port)) M
   })"

definition x86emuOp_in_byte_AL_DX :: "hardware \<Rightarrow> x86 \<Rightarrow> x86 option" where
  "x86emuOp_in_byte_AL_DX hw = clearing (\<lambda>M. in_acc BYTE (sys_inb hw) (R_DX M) M)"

definition x86emuOp_in_word_AX_DX :: "hardware \<Rightarrow> x86 \<Rightarrow> x86 option" where
  "x86emuOp_in_word_AX_DX hw = clearing (by_data_size (\<lambda>M. in_acc LONG (sys_inl hw) (R_DX M) M) (\<lambda>M. in_acc WORD (sys_inw hw) (R_DX M) M))"

definition x86emuOp_out_byte_DX_AL :: "x86 \<Rightarrow> x86 option" where
  "x86emuOp_out_byte_DX_AL = clearing (\<lambda>M. out_acc BYTE sys_outb (R_DX M) M)"

definition x86emuOp_out_word_DX_AX :: "x86 \<Rightarrow> x86 option" where
  "x86emuOp_out_word_DX_AX = clearing (by_data_size (\<lambda>M. out_acc LONG sys_outl (R_DX M) M) (\<lambda>M. out_acc WORD sys_outw (R_DX M) M))"

end
