(* ===== verification/X86_Ops_String.thy ===== *)
theory X86_Ops_String
  imports X86_Ops_Move X86_Arith
begin

unbundle bit_operations_syntax

text \<open>
  The string instructions: \<open>movs\<close>, \<open>cmps\<close>, \<open>stos\<close>, \<open>lods\<close> and \<open>scas\<close> of \<^verbatim>\<open>ops.c\<close>, and \<open>ins\<close> and \<open>outs\<close> with their functions in
  \<^verbatim>\<open>prim_ops.c\<close>. A handler takes the size of its element and the access functions of that size. The loops of the
  source that count a local variable down are recursions on the count; the loops on the register \<open>cx\<close> are a
  partial function, which returns because their bodies decrement it.
\<close>

section \<open>Repetition\<close>

definition PREFIX_REP :: u32 where
  "PREFIX_REP = SYSMODE_PREFIX_REPE OR SYSMODE_PREFIX_REPNE"

definition clear_mode :: "u32 \<Rightarrow> x86 \<Rightarrow> x86" where
  "clear_mode b M = M\<lparr>x_mode := x_mode M AND NOT b\<rparr>"

definition step_inc :: "u16 \<Rightarrow> x86 \<Rightarrow> u16" where
  "step_inc n M = (if ACCESS_FLAG F_DF (R_FLG M) \<noteq> 0 then - n else n)"

definition take_count :: "x86 \<Rightarrow> nat \<times> x86" where
  "take_count M =
     (if x_mode M AND PREFIX_REP \<noteq> 0 then (unat (R_CX M), clear_mode PREFIX_REP (set_reg16 CX 0 M)) else (1, M))"

primrec repeat_n :: "nat \<Rightarrow> (x86 \<Rightarrow> x86 option) \<Rightarrow> x86 \<Rightarrow> x86 option" where
  "repeat_n 0 body M = Some M"
| "repeat_n (Suc n) body M = do { M \<leftarrow> body M; repeat_n n body M }"

partial_function (option) while_CX :: "(x86 \<Rightarrow> x86 option) \<Rightarrow> (x86 \<Rightarrow> bool) \<Rightarrow> x86 \<Rightarrow> x86 option" where
  "while_CX body stop M =
     (if R_CX M \<noteq> 0 then do { M \<leftarrow> body M; if stop M then Some M else while_CX body stop M } else Some M)"

declare while_CX.simps [code]

definition dec_CX :: "x86 \<Rightarrow> x86" where "dec_CX M = set_reg16 CX (R_CX M - 1) M"
definition move_SI :: "u16 \<Rightarrow> x86 \<Rightarrow> x86" where "move_SI inc M = set_reg16 SI (R_SI M + inc) M"
definition move_DI :: "u16 \<Rightarrow> x86 \<Rightarrow> x86" where "move_DI inc M = set_reg16 DI (R_DI M + inc) M"

definition at_SI :: "(u32 \<Rightarrow> x86 \<Rightarrow> 'a) \<Rightarrow> x86 \<Rightarrow> 'a" where
  "at_SI fetch M = fetch (ucast (R_SI M)) M"

definition at_ES_DI :: "(u32 \<Rightarrow> u32 \<Rightarrow> 'a) \<Rightarrow> x86 \<Rightarrow> 'a" where
  "at_ES_DI access M = access (ucast (R_ES M)) (ucast (R_DI M))"

section \<open>movs\<close>

definition movs_step :: "(u32 \<Rightarrow> x86 \<Rightarrow> ('w \<times> x86) option) \<Rightarrow> (u32 \<Rightarrow> u32 \<Rightarrow> 'w \<Rightarrow> x86 \<Rightarrow> x86 option) \<Rightarrow> u16 \<Rightarrow> x86 \<Rightarrow> x86 option" where
  "movs_step fetch store_abs inc M =
     do {
       (val, M) \<leftarrow> at_SI fetch M;
       M \<leftarrow> at_ES_DI store_abs M val M;
       Some (move_DI inc (move_SI inc M))
     }"

definition movs :: "u16 \<Rightarrow> (u32 \<Rightarrow> x86 \<Rightarrow> ('w \<times> x86) option) \<Rightarrow> (u32 \<Rightarrow> u32 \<Rightarrow> 'w \<Rightarrow> x86 \<Rightarrow> x86 option) \<Rightarrow> x86 \<Rightarrow> x86 option" where
  "movs n fetch store_abs M =
     (let inc = step_inc n M; (count, M) = take_count M in repeat_n count (movs_step fetch store_abs inc) M)"

definition x86emuOp_movs_byte :: "x86 \<Rightarrow> x86 option" where
  "x86emuOp_movs_byte = clearing (movs 1 fetch_data_byte store_data_byte_abs)"

definition x86emuOp_movs_word :: "x86 \<Rightarrow> x86 option" where
  "x86emuOp_movs_word = clearing (by_data_size (movs 4 fetch_data_long store_data_long_abs)
     (movs 2 fetch_data_word store_data_word_abs))"

section \<open>cmps and scas\<close>

definition set_flags :: "('w \<Rightarrow> 'w \<Rightarrow> u32 \<Rightarrow> 'w \<times> u32) \<Rightarrow> 'w \<Rightarrow> 'w \<Rightarrow> x86 \<Rightarrow> x86" where
  "set_flags cmp a b M = M\<lparr>R_FLG := snd (cmp a b (R_FLG M))\<rparr>"

definition compare_rep :: "(x86 \<Rightarrow> x86 option) \<Rightarrow> (x86 \<Rightarrow> x86) \<Rightarrow> x86 \<Rightarrow> x86 option" where
  "compare_rep comparison advance M =
     (if x_mode M AND SYSMODE_PREFIX_REPE \<noteq> 0 then
        do {
          M \<leftarrow> while_CX (\<lambda>M. do { M \<leftarrow> comparison M; Some (advance (dec_CX M)) })
                 (\<lambda>M. ACCESS_FLAG F_ZF (R_FLG M) = 0) M;
          Some (clear_mode SYSMODE_PREFIX_REPE M)
        }
      else if x_mode M AND SYSMODE_PREFIX_REPNE \<noteq> 0 then
        do {
          M \<leftarrow> while_CX (\<lambda>M. do { M \<leftarrow> comparison M; Some (advance (dec_CX M)) })
                 (\<lambda>M. ACCESS_FLAG F_ZF (R_FLG M) \<noteq> 0) M;
          Some (clear_mode SYSMODE_PREFIX_REPNE M)
        }
      else do { M \<leftarrow> comparison M; Some (advance M) })"

definition cmps :: "u16 \<Rightarrow> (u32 \<Rightarrow> x86 \<Rightarrow> ('w \<times> x86) option) \<Rightarrow> (u32 \<Rightarrow> u32 \<Rightarrow> x86 \<Rightarrow> ('w \<times> x86) option) \<Rightarrow>
    ('w \<Rightarrow> 'w \<Rightarrow> u32 \<Rightarrow> 'w \<times> u32) \<Rightarrow> x86 \<Rightarrow> x86 option" where
  "cmps n fetch fetch_abs cmp M =
     (let inc = step_inc n M in
      compare_rep
        (\<lambda>M. do { (val1, M) \<leftarrow> at_SI fetch M; (val2, M) \<leftarrow> at_ES_DI fetch_abs M M; Some (set_flags cmp val1 val2 M) })
        (\<lambda>M. move_DI inc (move_SI inc M)) M)"

definition scas :: "u16 \<Rightarrow> ('w, 'r) width \<Rightarrow> (u32 \<Rightarrow> u32 \<Rightarrow> x86 \<Rightarrow> ('w \<times> x86) option) \<Rightarrow>
    ('w \<Rightarrow> 'w \<Rightarrow> u32 \<Rightarrow> 'w \<times> u32) \<Rightarrow> x86 \<Rightarrow> x86 option" where
  "scas n W fetch_abs cmp M =
     (let inc = step_inc n M in
      compare_rep
        (\<lambda>M. do { (val2, M) \<leftarrow> at_ES_DI fetch_abs M M; Some (set_flags cmp (w_get W (w_acc W) M) val2 M) })
        (move_DI inc) M)"

definition x86emuOp_cmps_byte :: "x86 \<Rightarrow> x86 option" where
  "x86emuOp_cmps_byte = clearing (cmps 1 fetch_data_byte fetch_data_byte_abs cmp_byte)"

definition x86emuOp_cmps_word :: "x86 \<Rightarrow> x86 option" where
  "x86emuOp_cmps_word = clearing (by_data_size (cmps 4 fetch_data_long fetch_data_long_abs cmp_long)
     (cmps 2 fetch_data_word fetch_data_word_abs cmp_word))"

definition x86emuOp_scas_byte :: "x86 \<Rightarrow> x86 option" where
  "x86emuOp_scas_byte = clearing (scas 1 BYTE fetch_data_byte_abs cmp_byte)"

definition x86emuOp_scas_word :: "x86 \<Rightarrow> x86 option" where
  "x86emuOp_scas_word = clearing (by_data_size (scas 4 LONG fetch_data_long_abs cmp_long)
     (scas 2 WORD fetch_data_word_abs cmp_word))"

section \<open>stos and lods\<close>

definition stos_step :: "('w, 'r) width \<Rightarrow> (u32 \<Rightarrow> u32 \<Rightarrow> 'w \<Rightarrow> x86 \<Rightarrow> x86 option) \<Rightarrow> u16 \<Rightarrow> x86 \<Rightarrow> x86 option" where
  "stos_step W store_abs inc M = do { M \<leftarrow> at_ES_DI store_abs M (w_get W (w_acc W) M) M; Some (move_DI inc M) }"

definition lods_step :: "('w, 'r) width \<Rightarrow> u16 \<Rightarrow> x86 \<Rightarrow> x86 option" where
  "lods_step W inc M = do { (v, M) \<leftarrow> at_SI (w_fetch W) M; Some (move_SI inc (w_set W (w_acc W) v M)) }"

text \<open>The byte variants count in the register, the others in a local variable.\<close>

definition rep_byte :: "(x86 \<Rightarrow> x86 option) \<Rightarrow> x86 \<Rightarrow> x86 option" where
  "rep_byte step M =
     (if x_mode M AND PREFIX_REP \<noteq> 0 then
        do {
          M \<leftarrow> while_CX (\<lambda>M. do { M \<leftarrow> step M; Some (dec_CX M) }) (\<lambda>_. False) M;
          Some (clear_mode PREFIX_REP M)
        }
      else step M)"

definition rep_word :: "(x86 \<Rightarrow> x86 option) \<Rightarrow> x86 \<Rightarrow> x86 option" where
  "rep_word step M = (let (count, M) = take_count M in repeat_n count step M)"

definition x86emuOp_stos_byte :: "x86 \<Rightarrow> x86 option" where
  "x86emuOp_stos_byte = clearing (\<lambda>M. rep_byte (stos_step BYTE store_data_byte_abs (step_inc 1 M)) M)"

definition x86emuOp_stos_word :: "x86 \<Rightarrow> x86 option" where
  "x86emuOp_stos_word = clearing (by_data_size (\<lambda>M. rep_word (stos_step LONG store_data_long_abs (step_inc 4 M)) M)
     (\<lambda>M. rep_word (stos_step WORD store_data_word_abs (step_inc 2 M)) M))"

definition x86emuOp_lods_byte :: "x86 \<Rightarrow> x86 option" where
  "x86emuOp_lods_byte = clearing (\<lambda>M. rep_byte (lods_step BYTE (step_inc 1 M)) M)"

definition x86emuOp_lods_word :: "x86 \<Rightarrow> x86 option" where
  "x86emuOp_lods_word = clearing (by_data_size (\<lambda>M. rep_word (lods_step LONG (step_inc 4 M)) M)
     (\<lambda>M. rep_word (lods_step WORD (step_inc 2 M)) M))"

section \<open>ins and outs\<close>

definition ins_step :: "(u16 \<Rightarrow> pio \<Rightarrow> 'w \<times> pio) \<Rightarrow> (u32 \<Rightarrow> u32 \<Rightarrow> 'w \<Rightarrow> x86 \<Rightarrow> x86 option) \<Rightarrow> u16 \<Rightarrow> x86 \<Rightarrow> x86 option" where
  "ins_step sys_in store_abs inc M =
     (case port_in sys_in (R_DX M) M of (v, M) \<Rightarrow>
        do { M \<leftarrow> at_ES_DI store_abs M v M; Some (move_DI inc M) })"

definition outs_step :: "(u16 \<Rightarrow> 'w \<Rightarrow> pio \<Rightarrow> pio) \<Rightarrow> (u32 \<Rightarrow> u32 \<Rightarrow> x86 \<Rightarrow> ('w \<times> x86) option) \<Rightarrow> u16 \<Rightarrow> x86 \<Rightarrow> x86 option" where
  "outs_step sys_out fetch_abs inc M =
     do {
       (v, M) \<leftarrow> fetch_abs (ucast (R_ES M)) (ucast (R_SI M)) M;
       Some (move_SI inc (port_out sys_out (R_DX M) v M))
     }"

text \<open>The loop of size 4 is left by a \<^verbatim>\<open>break\<close> at the end of its body.\<close>

definition io_rep :: "nat \<Rightarrow> (x86 \<Rightarrow> x86 option) \<Rightarrow> x86 \<Rightarrow> x86 option" where
  "io_rep n step M =
     (if x_mode M AND PREFIX_REP \<noteq> 0 then
        let count = (if x_mode M AND SYSMODE_PREFIX_DATA \<noteq> 0 then unat (R_ECX M) else unat (R_CX M)) in
        do {
          M \<leftarrow> (if n = 4 then repeat_n (min 1 count) step M else repeat_n count step M);
          let M = set_reg16 CX 0 M;
          let M = (if x_mode M AND SYSMODE_PREFIX_DATA \<noteq> 0 then set_reg32 ECX 0 M else M);
          Some (clear_mode PREFIX_REP M)
        }
      else step M)"

definition ins :: "hardware \<Rightarrow> nat \<Rightarrow> x86 \<Rightarrow> x86 option" where
  "ins hw n M =
     (let inc = step_inc (word_of_nat n) M in
      if n = 1 then io_rep n (ins_step (sys_inb hw) store_data_byte_abs inc) M
      else if n = 2 then io_rep n (ins_step (sys_inw hw) store_data_word_abs inc) M
      else io_rep n (ins_step (sys_inl hw) store_data_long_abs inc) M)"

definition outs :: "nat \<Rightarrow> x86 \<Rightarrow> x86 option" where
  "outs n M =
     (let inc = step_inc (word_of_nat n) M in
      if n = 1 then io_rep n (outs_step sys_outb fetch_data_byte_abs inc) M
      else if n = 2 then io_rep n (outs_step sys_outw fetch_data_word_abs inc) M
      else io_rep n (outs_step sys_outl fetch_data_long_abs inc) M)"

definition x86emuOp_ins_byte :: "hardware \<Rightarrow> x86 \<Rightarrow> x86 option" where
  "x86emuOp_ins_byte hw = clearing (ins hw 1)"

definition x86emuOp_ins_word :: "hardware \<Rightarrow> x86 \<Rightarrow> x86 option" where
  "x86emuOp_ins_word hw = clearing (by_data_size (ins hw 4) (ins hw 2))"

definition x86emuOp_outs_byte :: "x86 \<Rightarrow> x86 option" where
  "x86emuOp_outs_byte = clearing (outs 1)"

definition x86emuOp_outs_word :: "x86 \<Rightarrow> x86 option" where
  "x86emuOp_outs_word = clearing (by_data_size (outs 4) (outs 2))"

end
