(* ===== verification/X86_BCD.thy ===== *)
theory X86_BCD
  imports X86_Arith
begin

unbundle bit_operations_syntax

text \<open>
  The decimal adjustments of \<^verbatim>\<open>prim_ops.c\<close>: \<open>aaa\<close>, \<open>aas\<close>, \<open>aad\<close> and \<open>aam\<close> for one decimal digit per byte, \<open>daa\<close> and
  \<open>das\<close> for two. An operation takes its operand and the flags and returns the result and the new flags.
\<close>

definition aaa_word :: "u16 \<Rightarrow> u32 \<Rightarrow> u16 \<times> u32" where
  "aaa_word d flg =
     (let (d, flg) =
            (if d AND 0xf > 0x9 \<or> ACCESS_FLAG F_AF flg \<noteq> 0 then (d + 0x6 + 0x100, SET_FLAG F_CF (SET_FLAG F_AF flg))
             else (d, CLEAR_FLAG F_AF (CLEAR_FLAG F_CF flg)));
          res = d AND 0xFF0F;
          flg = CLEAR_FLAG F_SF flg;
          flg = CONDITIONAL_SET_FLAG (res = 0) F_ZF flg;
          flg = CONDITIONAL_SET_FLAG (PARITY (ucast (res AND 0xff))) F_PF flg
      in (res, flg))"

definition aas_word :: "u16 \<Rightarrow> u32 \<Rightarrow> u16 \<times> u32" where
  "aas_word d flg =
     (let (d, flg) =
            (if d AND 0xf > 0x9 \<or> ACCESS_FLAG F_AF flg \<noteq> 0 then (d - 0x6 - 0x100, SET_FLAG F_CF (SET_FLAG F_AF flg))
             else (d, CLEAR_FLAG F_AF (CLEAR_FLAG F_CF flg)));
          res = d AND 0xFF0F;
          flg = CLEAR_FLAG F_SF flg;
          flg = CONDITIONAL_SET_FLAG (res = 0) F_ZF flg;
          flg = CONDITIONAL_SET_FLAG (PARITY (ucast (res AND 0xff))) F_PF flg
      in (res, flg))"

definition aad_word :: "u16 \<Rightarrow> u32 \<Rightarrow> u16 \<times> u32" where
  "aad_word d flg =
     (let hb = drop_bit 8 d AND 0xff;
          lb = d AND 0xff;
          l = (lb + 10 * hb) AND 0xFF;
          flg = CLEAR_FLAG F_CF flg;
          flg = CLEAR_FLAG F_AF flg;
          flg = CLEAR_FLAG F_OF flg;
          flg = CONDITIONAL_SET_FLAG (l AND 0x80 \<noteq> 0) F_SF flg;
          flg = CONDITIONAL_SET_FLAG (l = 0) F_ZF flg;
          flg = CONDITIONAL_SET_FLAG (PARITY (ucast (l AND 0xff))) F_PF flg
      in (l, flg))"

definition aam_word :: "u8 \<Rightarrow> u32 \<Rightarrow> u16 \<times> u32" where
  "aam_word d flg =
     (let h = ucast (d div 10);
          l = ucast (d mod 10);
          l = l OR push_bit 8 h;
          flg = CLEAR_FLAG F_CF flg;
          flg = CLEAR_FLAG F_AF flg;
          flg = CLEAR_FLAG F_OF flg;
          flg = CONDITIONAL_SET_FLAG (l AND 0x80 \<noteq> 0) F_SF flg;
          flg = CONDITIONAL_SET_FLAG (l = 0) F_ZF flg;
          flg = CONDITIONAL_SET_FLAG (PARITY (ucast (l AND 0xff))) F_PF flg
      in (l, flg))"

definition daa_byte :: "u8 \<Rightarrow> u32 \<Rightarrow> u8 \<times> u32" where
  "daa_byte d flg =
     (let res = (ucast d :: u32);
          (res, flg) =
            (if d AND 0xf > 9 \<or> ACCESS_FLAG F_AF flg \<noteq> 0 then (res + 6, SET_FLAG F_AF flg) else (res, flg));
          (res, flg) =
            (if res > 0x9F \<or> ACCESS_FLAG F_CF flg \<noteq> 0 then (res + 0x60, SET_FLAG F_CF flg) else (res, flg));
          flg = CONDITIONAL_SET_FLAG (res AND 0x80 \<noteq> 0) F_SF flg;
          flg = CONDITIONAL_SET_FLAG (res AND 0xFF = 0) F_ZF flg;
          flg = CONDITIONAL_SET_FLAG (PARITY (res AND 0xff)) F_PF flg
      in (ucast res, flg))"

definition das_byte :: "u8 \<Rightarrow> u32 \<Rightarrow> u8 \<times> u32" where
  "das_byte d flg =
     (let (d, flg) =
            (if d AND 0xf > 9 \<or> ACCESS_FLAG F_AF flg \<noteq> 0 then (d - 6, SET_FLAG F_AF flg) else (d, flg));
          (d, flg) =
            (if d > 0x9F \<or> ACCESS_FLAG F_CF flg \<noteq> 0 then (d - 0x60, SET_FLAG F_CF flg) else (d, flg));
          flg = CONDITIONAL_SET_FLAG (d AND 0x80 \<noteq> 0) F_SF flg;
          flg = CONDITIONAL_SET_FLAG (d = 0) F_ZF flg;
          flg = CONDITIONAL_SET_FLAG (PARITY (ucast d AND 0xff)) F_PF flg
      in (d, flg))"

section \<open>Packed decimal numbers\<close>

text \<open>A number below 100 as two decimal digits, and the values of the adjustments as numbers.\<close>

definition packed :: "nat \<Rightarrow> u8" where
  "packed n = word_of_nat (16 * (n div 10) + n mod 10)"

lemma unat_packed: "n < 100 \<Longrightarrow> unat (packed n) = 16 * (n div 10) + n mod 10"
proof -
  assume "n < 100"
  then have "16 * (n div 10) + n mod 10 < 2 ^ 8" by simp
  then show ?thesis unfolding packed_def unat_of_nat by simp
qed

lemma two_digits: "n < 100 \<Longrightarrow> n div 10 < 10" "n mod 10 < 10" "10 * (n div 10) + n mod 10 = n" for n :: nat
  by auto

lemma digit_sum: "10 * x + y = a \<Longrightarrow> 10 * u + v = b \<Longrightarrow> 10 * (x + u) + (y + v + c) = a + b + c" for x y u v a b c :: nat
  by simp

lemma digit_diff: "10 * x + y = a \<Longrightarrow> 10 * u + v = b \<Longrightarrow>
    10 * (int x - int u) + (int y - int v - c) = int a - int b - c" for x y u v a b :: nat
  by auto

lemma low_nibble: "d AND 0xf > 9 \<longleftrightarrow> 9 < unat (d :: u8) mod 16" "9 < unat (d AND 0xf) \<longleftrightarrow> 9 < unat d mod 16"
proof -
  have "d AND 0xf = take_bit 4 d" by (simp add: take_bit_eq_mask mask_eq_exp_minus_1)
  then have "unat (d AND 0xf) = unat d mod 16" by (simp only: unsigned_take_bit_eq) (simp add: take_bit_eq_mod)
  then show "d AND 0xf > 9 \<longleftrightarrow> 9 < unat d mod 16" "9 < unat (d AND 0xf) \<longleftrightarrow> 9 < unat d mod 16" by (simp_all add: word_less_nat_alt)
qed

lemma of_nat_unat_u8: "(ucast (x :: u32) :: u8) = word_of_nat (unat x)"
  by (rule of_nat_unat [symmetric])

definition adjust1 :: "u8 \<Rightarrow> u32 \<Rightarrow> nat" where
  "adjust1 d flg = (if 9 < unat d mod 16 \<or> on F_AF flg then 6 else 0)"

lemma daa_byte_value:
  assumes "c = (0x9F < unat d + adjust1 d flg \<or> on F_CF flg)"
  shows "fst (daa_byte d flg) = word_of_nat (unat d + adjust1 d flg + (if c then 0x60 else 0))"
    and "on F_CF (snd (daa_byte d flg)) = c"
proof -
  let ?res = "ucast d + (if 9 < unat d mod 16 \<or> on F_AF flg then 6 else 0) :: u32"
  have d: "unat d < 256" using unsigned_less [of d, where 'a = nat] by simp
  have u: "unat (ucast d :: u32) = unat d" by (simp add: unat_up)
  have r: "unat ?res = unat d + adjust1 d flg" using d u by (simp add: adjust1_def unat_word_ariths)
  have r60: "unat (?res + 0x60) = unat d + adjust1 d flg + 0x60" using r d by (simp add: adjust1_def unat_word_ariths)
  have c: "c = (?res > 0x9F \<or> on F_CF flg)" using r by (simp add: assms word_less_nat_alt)
  show "on F_CF (snd (daa_byte d flg)) = c"
    by (simp add: c daa_byte_def Let_def low_nibble on_def [symmetric] SET_cond x86_flags split: prod.splits)
  have "fst (daa_byte d flg) = ucast (?res + (if c then 0x60 else 0))"
    by (simp add: c daa_byte_def Let_def low_nibble on_def [symmetric] SET_cond x86_flags split: prod.splits)
  then show "fst (daa_byte d flg) = word_of_nat (unat d + adjust1 d flg + (if c then 0x60 else 0))"
    unfolding of_nat_unat_u8 by (cases c) (simp_all only: r r60 if_True if_False add_0_right)
qed

lemma das_byte_value:
  assumes "d' = d - word_of_nat (adjust1 d flg)" "c = (0x9F < unat d' \<or> on F_CF flg)"
  shows "fst (das_byte d flg) = d' - (if c then 0x60 else 0)" and "on F_CF (snd (das_byte d flg)) = c"
  using assms
  by (auto simp: das_byte_def Let_def low_nibble on_def [symmetric] SET_cond x86_flags adjust1_def word_less_nat_alt
      split: prod.splits)

section \<open>Decimal arithmetic\<close>

text \<open>The high and the low digits of the operands add up to at most 18 and 19, or differ by at most 9 and 10.\<close>

lemma daa_digits:
  fixes h l :: nat
  assumes "h < 19" "l < 20"
  defines "s \<equiv> 16 * h + l" and "t \<equiv> 10 * h + l"
  defines "adj \<equiv> (if 9 < s mod 256 mod 16 \<or> 16 \<le> l then 6 else 0)"
  shows "(0x9F < s mod 256 + adj \<or> 256 \<le> s) = (100 \<le> t)"
    and "(s mod 256 + adj + (if 100 \<le> t then 0x60 else 0)) mod 256 = 16 * (t mod 100 div 10) + t mod 100 mod 10"
proof -
  define q where "q = (if 10 \<le> l then 1 else 0 :: nat)"
  define m d where "m = h + q" and "d = l - 10 * q"
  have md: "m \<le> 19" "d < 10" "t = 10 * m + d" "s + 6 * q = 16 * m + d" "q \<le> 1"
    using assms(1,2) by (auto simp: m_def d_def q_def s_def t_def)
  have "s mod 256 mod 16 = l mod 16" by (simp add: s_def mod_mod_cancel)
  then have adj: "adj = 6 * q" using assms(2) by (auto simp: adj_def q_def not_le)
  have s: "s mod 256 = (if s < 256 then s else s - 256)" using assms(1,2) by (simp add: s_def mod_if)
  have big: "100 \<le> t \<longleftrightarrow> 10 \<le> m" using md(2,3) by linarith
  show k: "(0x9F < s mod 256 + adj \<or> 256 \<le> s) = (100 \<le> t)"
    unfolding s adj big using md by (cases "s < 256") auto
  define m' where "m' = (if 10 \<le> m then m - 10 else m)"
  have m': "m' < 10" "m = m' + (if 10 \<le> m then 10 else 0)" using md(1) by (auto simp: m'_def)
  have "t = 10 * m' + d + (if 10 \<le> m then 100 else 0)" "10 * m' + d < 100" using md(2,3) m' by auto
  then have "t mod 100 = 10 * m' + d" by (auto simp del: add_is_0)
  then have T: "16 * (t mod 100 div 10) + t mod 100 mod 10 = 16 * m' + d" using md(2) by simp
  have "16 * m + d + (if 10 \<le> m then 0x60 else 0) = 16 * m' + d + (if 10 \<le> m then 256 else 0)" "16 * m' + d < 256"
    using md(2) m' by auto
  then have "(16 * m + d + (if 10 \<le> m then 0x60 else 0)) mod 256 = 16 * m' + d" by (auto simp del: add_is_0)
  moreover have "(s mod 256 + adj + (if 100 \<le> t then 0x60 else 0)) mod 256 = (16 * m + d + (if 10 \<le> m then 0x60 else 0)) mod 256"
    unfolding adj big md(4) [symmetric] by (simp add: mod_simps add.assoc)
  ultimately show "(s mod 256 + adj + (if 100 \<le> t then 0x60 else 0)) mod 256 = 16 * (t mod 100 div 10) + t mod 100 mod 10"
    unfolding T by simp
qed

lemma das_digits:
  "\<forall>h\<in>set [-9..9]. \<forall>l\<in>set [-10..9].
     let s = 16 * h + l; r = s mod 256; r' = (r - (if 9 < r mod 16 \<or> l < 0 then 6 else 0)) mod 256; t = 10 * h + l;
         k = (0x9F < r' \<or> s < 0)
     in k = (t < 0) \<and> (r' - (if k then 0x60 else 0)) mod 256 = 16 * (t mod 100 div 10) + t mod 100 mod (10 :: int)"
  by code_simp

lemma daa_packed:
  assumes "a < 100" "b < 100" "flg' = snd (adc_byte (packed a) (packed b) flg)" "r = fst (adc_byte (packed a) (packed b) flg)"
  shows "fst (daa_byte r flg') = packed ((a + b + of_bool (on F_CF flg)) mod 100)"
    and "on F_CF (snd (daa_byte r flg')) \<longleftrightarrow> 100 \<le> a + b + of_bool (on F_CF flg)"
proof -
  define c :: nat where "c = of_bool (on F_CF flg)"
  define h l where "h = a div 10 + b div 10" and "l = a mod 10 + b mod 10 + c"
  have c: "c \<le> 1" by (simp add: c_def)
  have hl: "h < 19" "l < 20"
    using two_digits(1) [OF assms(1)] two_digits(1) [OF assms(2)] two_digits(2) [of a] two_digits(2) [of b] c
    unfolding h_def l_def by linarith+
  have t: "10 * h + l = a + b + c" unfolding h_def l_def by (rule digit_sum [OF two_digits(3) two_digits(3)])
  have sum: "unat (packed a) + unat (packed b) + c = 16 * h + l" using assms(1,2) by (simp add: unat_packed h_def l_def)
  have spec: "add_spec (packed a) (packed b) (on F_CF flg) flg (adc_byte (packed a) (packed b) flg)"
    "on F_CF flg' = carry_out (packed a) (packed b) (on F_CF flg)"
    using adc_byte_ok [of "on F_CF flg" flg "packed a" "packed b"] by (simp_all add: assms(3))
  have cf: "on F_CF flg' \<longleftrightarrow> 256 \<le> 16 * h + l"
    unfolding spec(2) carry_out_def c_def [symmetric] sum by simp
  have af: "on F_AF flg' \<longleftrightarrow> 16 \<le> l"
    using spec(1) assms(1,2) by (simp add: add_spec_def assms(3) case_prod_beta unat_packed l_def c_def)
  have "r = word_of_nat (16 * h + l)"
    using spec(1) unfolding sum [symmetric] by (simp add: add_spec_def assms(4) case_prod_beta c_def)
  then have r: "unat r = (16 * h + l) mod 256" by (simp only: unat_of_nat) simp
  define k where "k = (0x9F < unat r + adjust1 r flg' \<or> on F_CF flg')"
  have *: "k = (100 \<le> a + b + c)"
      "(unat r + adjust1 r flg' + (if k then 0x60 else 0)) mod 256 = 16 * ((a + b + c) mod 100 div 10) + (a + b + c) mod 100 mod 10"
    using daa_digits [OF hl(1,2)] unfolding k_def r cf af adjust1_def t [symmetric] by simp_all
  show "on F_CF (snd (daa_byte r flg')) \<longleftrightarrow> 100 \<le> a + b + of_bool (on F_CF flg)"
    using daa_byte_value(2) [OF k_def] * by (simp add: c_def)
  have "unat (fst (daa_byte r flg')) = unat (packed ((a + b + c) mod 100))"
    unfolding daa_byte_value(1) [OF k_def] unat_packed [OF mod_less_divisor [OF zero_less_numeral]] *(2) [symmetric]
    unfolding unat_of_nat by simp
  then show "fst (daa_byte r flg') = packed ((a + b + of_bool (on F_CF flg)) mod 100)"
    by (simp add: c_def word_unat_eq_iff)
qed

lemma borrow_int: "m < n + of_bool x \<longleftrightarrow> int m - int n - of_bool x < 0"
  by auto

lemma nibble_int: "9 < n mod 16 \<longleftrightarrow> 9 < int n mod 16"
  by presburger

lemma das_packed:
  assumes "a < 100" "b < 100" "flg' = snd (sbb_byte (packed a) (packed b) flg)" "r = fst (sbb_byte (packed a) (packed b) flg)"
  shows "fst (das_byte r flg') = packed (nat ((int a - int b - of_bool (on F_CF flg)) mod 100))"
    and "on F_CF (snd (das_byte r flg')) \<longleftrightarrow> a < b + of_bool (on F_CF flg)"
proof -
  define c :: int where "c = of_bool (on F_CF flg)"
  define h l where "h = int (a div 10) - int (b div 10)" and "l = int (a mod 10) - int (b mod 10) - c"
  have c: "0 \<le> c" "c \<le> 1" by (simp_all add: c_def)
  have hl: "-9 \<le> h" "h \<le> 9" "-10 \<le> l" "l \<le> 9"
    using two_digits(1) [OF assms(1)] two_digits(1) [OF assms(2)] two_digits(2) [of a] two_digits(2) [of b] c
    unfolding h_def l_def by linarith+
  have t: "10 * h + l = int a - int b - c" unfolding h_def l_def by (rule digit_diff [OF two_digits(3) two_digits(3)])
  have diff: "int (unat (packed a)) - int (unat (packed b)) - c = 16 * h + l" using assms(1,2) by (simp add: unat_packed h_def l_def)
  have spec: "sub_spec (packed a) (packed b) (on F_CF flg) flg (sbb_byte (packed a) (packed b) flg)"
    "on F_CF flg' = borrow_out (packed a) (packed b) (on F_CF flg)"
    using sbb_byte_ok [of "on F_CF flg" flg "packed a" "packed b"] by (simp_all add: assms(3))
  have cf: "on F_CF flg' \<longleftrightarrow> 16 * h + l < 0"
    unfolding spec(2) borrow_out_def diff [symmetric] c_def by (rule borrow_int)
  have af: "on F_AF flg' \<longleftrightarrow> l < 0"
    using spec(1) assms(1,2) by (auto simp: sub_spec_def assms(3) case_prod_beta unat_packed l_def c_def)
  have rw: "r = word_of_int (16 * h + l)"
    using spec(1) unfolding diff [symmetric] by (simp add: sub_spec_def assms(4) case_prod_beta c_def)
  have r: "int (unat r) = (16 * h + l) mod 256" unfolding uint_nat [symmetric] rw uint_word_of_int by simp
  define r' where "r' = r - word_of_nat (adjust1 r flg')"
  define k where "k = (0x9F < unat r' \<or> on F_CF flg')"
  have adj: "int (adjust1 r flg') = (if 9 < (16 * h + l) mod 256 mod 16 \<or> l < 0 then 6 else 0)"
    unfolding adjust1_def r [symmetric] af nibble_int by simp
  have r': "int (unat r') = ((16 * h + l) mod 256 - int (adjust1 r flg')) mod 256"
    unfolding r'_def r [symmetric] by (simp add: uint_word_ariths adjust1_def)
  have res: "int (unat (r' - (if k then 0x60 else 0))) = (int (unat r') - (if k then 0x60 else 0)) mod 256"
    by (simp add: uint_word_ariths)
  have m: "h \<in> set [-9..9]" "l \<in> set [-10..9]" using hl by auto
  have k: "k \<longleftrightarrow> 0x9F < int (unat r') \<or> 16 * h + l < 0" unfolding k_def cf by linarith
  have *: "k = (int a - int b - c < 0)"
      "(int (unat r') - (if k then 0x60 else 0)) mod 256
        = 16 * ((int a - int b - c) mod 100 div 10) + (int a - int b - c) mod 100 mod 10"
    unfolding k r' adj t [symmetric] using bspec [OF bspec [OF das_digits m(1)] m(2)] unfolding Let_def by blast+
  show "on F_CF (snd (das_byte r flg')) \<longleftrightarrow> a < b + of_bool (on F_CF flg)"
    using das_byte_value(2) [OF r'_def k_def] * by (auto simp: c_def)
  have "unat (fst (das_byte r flg')) = unat (packed (nat ((int a - int b - c) mod 100)))"
    unfolding das_byte_value(1) [OF r'_def k_def] of_nat_eq_iff [where 'a = int, symmetric] res *(2)
    by (simp add: unat_packed nat_less_iff zdiv_int zmod_int)
  then show "fst (das_byte r flg') = packed (nat ((int a - int b - of_bool (on F_CF flg)) mod 100))"
    by (simp add: c_def word_unat_eq_iff)
qed

lemma aam_value: "unat (fst (aam_word d flg)) = 256 * (unat d div 10) + unat d mod 10"
proof -
  have d: "unat d < 256" using unsigned_less [of d, where 'a = nat] by simp
  have "d mod 10 < 10" by (simp add: word_less_nat_alt unat_mod)
  have "(ucast (d mod 10) :: u16) AND push_bit 8 (ucast (d div 10)) = 0"
    by (rule bit_eqI) (auto simp: bit_simps dest: bit_imp_le_length)
  then have "fst (aam_word d flg) = ucast (d mod 10) + push_bit 8 (ucast (d div 10))"
    by (simp add: aam_word_def Let_def disjunctive_add_eq_or)
  moreover have "unat (ucast (d mod 10) :: u16) = unat d mod 10" "unat (ucast (d div 10) :: u16) = unat d div 10"
    using d by (simp_all add: unsigned_ucast_eq take_bit_nat_eq_self unat_mod unat_div)
  ultimately show ?thesis using d by (simp add: unat_word_ariths push_bit_eq_mult)
qed

lemma and_mask_ucast: "ucast (d :: u8) AND mask 8 = (ucast d :: u16)"
  by (rule bit_eqI) (auto simp: bit_simps dest: bit_imp_le_length)

lemma aad_aam: "fst (aad_word (fst (aam_word d flg)) flg') = ucast d"
proof -
  define w where "w = fst (aam_word d flg)"
  have d: "unat d < 256" using unsigned_less [of d, where 'a = nat] by simp
  have u: "unat w = 256 * (unat d div 10) + unat d mod 10"
    unfolding w_def by (rule aam_value)
  have lo: "unat (w AND 0xff) = unat w mod 256" and hi: "unat (drop_bit 8 w AND 0xff) = unat w div 256 mod 256"
  proof -
    have m: "(0xff :: u16) = mask 8" by (simp add: mask_eq_exp_minus_1)
    show "unat (w AND 0xff) = unat w mod 256" unfolding m take_bit_eq_mask [symmetric] unsigned_take_bit_eq by (simp add: take_bit_eq_mod)
    show "unat (drop_bit 8 w AND 0xff) = unat w div 256 mod 256"
      unfolding m take_bit_eq_mask [symmetric] unsigned_take_bit_eq unat_drop_bit_eq by (simp add: take_bit_eq_mod drop_bit_eq_div)
  qed
  have "unat w mod 256 = unat d mod 10" "unat w div 256 mod 256 = unat d div 10" using d unfolding u by simp_all
  then have "unat ((w AND 0xff) + 10 * (drop_bit 8 w AND 0xff)) = unat d"
    using d lo hi by (simp add: unat_word_ariths)
  then have e: "(w AND 0xff) + 10 * (drop_bit 8 w AND 0xff) = ucast d"
    using d by (simp add: word_unat_eq_iff unsigned_ucast_eq take_bit_nat_eq_self)
  have "ucast d AND 0xff = (ucast d :: u16)"
    using and_mask_ucast [of d] by (simp add: mask_eq_exp_minus_1)
  then show ?thesis unfolding w_def [symmetric] by (simp add: aad_word_def Let_def e)
qed

text \<open>The decimal adjustments compute decimal arithmetic. After an addition or subtraction with carry of two
  numbers below 100 in packed form, \<open>daa\<close> and \<open>das\<close> leave the packed form of the sum or difference modulo
  100 in the register and the decimal carry or borrow in the carry flag, so that numbers of any length can be added
  byte by byte; \<open>aam\<close> splits a byte below 100 into its two digits, and \<open>aad\<close> puts them together again.\<close>

theorem x86_bcd_correct:
  assumes "a < 100" "b < 100"
  shows "(case adc_byte (packed a) (packed b) flg of (r, flg') \<Rightarrow>
        fst (daa_byte r flg') = packed ((a + b + of_bool (on F_CF flg)) mod 100)
        \<and> on F_CF (snd (daa_byte r flg')) = (100 \<le> a + b + of_bool (on F_CF flg)))
    \<and> (case sbb_byte (packed a) (packed b) flg of (r, flg') \<Rightarrow>
        fst (das_byte r flg') = packed (nat ((int a - int b - of_bool (on F_CF flg)) mod 100))
        \<and> on F_CF (snd (das_byte r flg')) = (a < b + of_bool (on F_CF flg)))
    \<and> unat (fst (aam_word d flg)) = 256 * (unat d div 10) + unat d mod 10
    \<and> fst (aad_word (fst (aam_word d flg)) flg') = ucast d"
  using daa_packed [OF assms refl refl] das_packed [OF assms refl refl] aam_value aad_aam
  by (simp add: case_prod_beta)

theorem x86_bcd_correct_witness:
  "case adc_byte (packed 57) (packed 68) F_CF of (r, flg') \<Rightarrow> fst (daa_byte r flg') = 0x26 \<and> on F_CF (snd (daa_byte r flg'))"
  using x86_bcd_correct [of 57 68 F_CF] by (simp add: packed_def x86_flags bit_F)

end
