(* ===== verification/X86_Ops_Arith.thy ===== *)
theory X86_Ops_Arith
  imports X86_Operand X86_Arith X86_Shift X86_MulDiv X86_BCD
begin

unbundle bit_operations_syntax

text \<open>
  The handlers of \<^verbatim>\<open>ops.c\<close> for arithmetic, logic, shifts, multiplication and division, one definition per handler
  under its name in the source. They connect the operand forms of theory \<open>X86_Operand\<close> with the primitive
  operations of \<^verbatim>\<open>prim_ops.c\<close>.
\<close>

section \<open>Two operands\<close>

definition x86emuOp_add_byte_RM_R :: "x86 \<Rightarrow> x86 option" where
  "x86emuOp_add_byte_RM_R = modrm (op_RM_R BYTE (alu add_byte))"

definition x86emuOp_add_word_RM_R :: "x86 \<Rightarrow> x86 option" where
  "x86emuOp_add_word_RM_R = modrm (by_data_size_rm (op_RM_R LONG (alu add_long)) (op_RM_R WORD (alu add_word)))"

definition x86emuOp_add_byte_R_RM :: "x86 \<Rightarrow> x86 option" where
  "x86emuOp_add_byte_R_RM = modrm (op_R_RM BYTE (alu add_byte))"

definition x86emuOp_add_word_R_RM :: "x86 \<Rightarrow> x86 option" where
  "x86emuOp_add_word_R_RM = modrm (by_data_size_rm (op_R_RM LONG (alu add_long)) (op_R_RM WORD (alu add_word)))"

definition x86emuOp_add_byte_AL_IMM :: "x86 \<Rightarrow> x86 option" where
  "x86emuOp_add_byte_AL_IMM = clearing (op_A_IMM BYTE (alu add_byte))"

definition x86emuOp_add_word_AX_IMM :: "x86 \<Rightarrow> x86 option" where
  "x86emuOp_add_word_AX_IMM = clearing (by_data_size (op_A_IMM LONG (alu add_long)) (op_A_IMM WORD (alu add_word)))"

definition x86emuOp_or_byte_RM_R :: "x86 \<Rightarrow> x86 option" where
  "x86emuOp_or_byte_RM_R = modrm (op_RM_R BYTE (alu or_byte))"

definition x86emuOp_or_word_RM_R :: "x86 \<Rightarrow> x86 option" where
  "x86emuOp_or_word_RM_R = modrm (by_data_size_rm (op_RM_R LONG (alu or_long)) (op_RM_R WORD (alu or_word)))"

definition x86emuOp_or_byte_R_RM :: "x86 \<Rightarrow> x86 option" where
  "x86emuOp_or_byte_R_RM = modrm (op_R_RM BYTE (alu or_byte))"

definition x86emuOp_or_word_R_RM :: "x86 \<Rightarrow> x86 option" where
  "x86emuOp_or_word_R_RM = modrm (by_data_size_rm (op_R_RM LONG (alu or_long)) (op_R_RM WORD (alu or_word)))"

definition x86emuOp_or_byte_AL_IMM :: "x86 \<Rightarrow> x86 option" where
  "x86emuOp_or_byte_AL_IMM = clearing (op_A_IMM BYTE (alu or_byte))"

definition x86emuOp_or_word_AX_IMM :: "x86 \<Rightarrow> x86 option" where
  "x86emuOp_or_word_AX_IMM = clearing (by_data_size (op_A_IMM LONG (alu or_long)) (op_A_IMM WORD (alu or_word)))"

definition x86emuOp_adc_byte_RM_R :: "x86 \<Rightarrow> x86 option" where
  "x86emuOp_adc_byte_RM_R = modrm (op_RM_R BYTE (alu adc_byte))"

definition x86emuOp_adc_word_RM_R :: "x86 \<Rightarrow> x86 option" where
  "x86emuOp_adc_word_RM_R = modrm (by_data_size_rm (op_RM_R LONG (alu adc_long)) (op_RM_R WORD (alu adc_word)))"

definition x86emuOp_adc_byte_R_RM :: "x86 \<Rightarrow> x86 option" where
  "x86emuOp_adc_byte_R_RM = modrm (op_R_RM BYTE (alu adc_byte))"

definition x86emuOp_adc_word_R_RM :: "x86 \<Rightarrow> x86 option" where
  "x86emuOp_adc_word_R_RM = modrm (by_data_size_rm (op_R_RM LONG (alu adc_long)) (op_R_RM WORD (alu adc_word)))"

definition x86emuOp_adc_byte_AL_IMM :: "x86 \<Rightarrow> x86 option" where
  "x86emuOp_adc_byte_AL_IMM = clearing (op_A_IMM BYTE (alu adc_byte))"

definition x86emuOp_adc_word_AX_IMM :: "x86 \<Rightarrow> x86 option" where
  "x86emuOp_adc_word_AX_IMM = clearing (by_data_size (op_A_IMM LONG (alu adc_long)) (op_A_IMM WORD (alu adc_word)))"

definition x86emuOp_sbb_byte_RM_R :: "x86 \<Rightarrow> x86 option" where
  "x86emuOp_sbb_byte_RM_R = modrm (op_RM_R BYTE (alu sbb_byte))"

definition x86emuOp_sbb_word_RM_R :: "x86 \<Rightarrow> x86 option" where
  "x86emuOp_sbb_word_RM_R = modrm (by_data_size_rm (op_RM_R LONG (alu sbb_long)) (op_RM_R WORD (alu sbb_word)))"

definition x86emuOp_sbb_byte_R_RM :: "x86 \<Rightarrow> x86 option" where
  "x86emuOp_sbb_byte_R_RM = modrm (op_R_RM BYTE (alu sbb_byte))"

definition x86emuOp_sbb_word_R_RM :: "x86 \<Rightarrow> x86 option" where
  "x86emuOp_sbb_word_R_RM = modrm (by_data_size_rm (op_R_RM LONG (alu sbb_long)) (op_R_RM WORD (alu sbb_word)))"

definition x86emuOp_sbb_byte_AL_IMM :: "x86 \<Rightarrow> x86 option" where
  "x86emuOp_sbb_byte_AL_IMM = clearing (op_A_IMM BYTE (alu sbb_byte))"

definition x86emuOp_sbb_word_AX_IMM :: "x86 \<Rightarrow> x86 option" where
  "x86emuOp_sbb_word_AX_IMM = clearing (by_data_size (op_A_IMM LONG (alu sbb_long)) (op_A_IMM WORD (alu sbb_word)))"

definition x86emuOp_and_byte_RM_R :: "x86 \<Rightarrow> x86 option" where
  "x86emuOp_and_byte_RM_R = modrm (op_RM_R BYTE (alu and_byte))"

definition x86emuOp_and_word_RM_R :: "x86 \<Rightarrow> x86 option" where
  "x86emuOp_and_word_RM_R = modrm (by_data_size_rm (op_RM_R LONG (alu and_long)) (op_RM_R WORD (alu and_word)))"

definition x86emuOp_and_byte_R_RM :: "x86 \<Rightarrow> x86 option" where
  "x86emuOp_and_byte_R_RM = modrm (op_R_RM BYTE (alu and_byte))"

definition x86emuOp_and_word_R_RM :: "x86 \<Rightarrow> x86 option" where
  "x86emuOp_and_word_R_RM = modrm (by_data_size_rm (op_R_RM LONG (alu and_long)) (op_R_RM WORD (alu and_word)))"

definition x86emuOp_and_byte_AL_IMM :: "x86 \<Rightarrow> x86 option" where
  "x86emuOp_and_byte_AL_IMM = clearing (op_A_IMM BYTE (alu and_byte))"

definition x86emuOp_and_word_AX_IMM :: "x86 \<Rightarrow> x86 option" where
  "x86emuOp_and_word_AX_IMM = clearing (by_data_size (op_A_IMM LONG (alu and_long)) (op_A_IMM WORD (alu and_word)))"

definition x86emuOp_sub_byte_RM_R :: "x86 \<Rightarrow> x86 option" where
  "x86emuOp_sub_byte_RM_R = modrm (op_RM_R BYTE (alu sub_byte))"

definition x86emuOp_sub_word_RM_R :: "x86 \<Rightarrow> x86 option" where
  "x86emuOp_sub_word_RM_R = modrm (by_data_size_rm (op_RM_R LONG (alu sub_long)) (op_RM_R WORD (alu sub_word)))"

definition x86emuOp_sub_byte_R_RM :: "x86 \<Rightarrow> x86 option" where
  "x86emuOp_sub_byte_R_RM = modrm (op_R_RM BYTE (alu sub_byte))"

definition x86emuOp_sub_word_R_RM :: "x86 \<Rightarrow> x86 option" where
  "x86emuOp_sub_word_R_RM = modrm (by_data_size_rm (op_R_RM LONG (alu sub_long)) (op_R_RM WORD (alu sub_word)))"

definition x86emuOp_sub_byte_AL_IMM :: "x86 \<Rightarrow> x86 option" where
  "x86emuOp_sub_byte_AL_IMM = clearing (op_A_IMM BYTE (alu sub_byte))"

definition x86emuOp_sub_word_AX_IMM :: "x86 \<Rightarrow> x86 option" where
  "x86emuOp_sub_word_AX_IMM = clearing (by_data_size (op_A_IMM LONG (alu sub_long)) (op_A_IMM WORD (alu sub_word)))"

definition x86emuOp_xor_byte_RM_R :: "x86 \<Rightarrow> x86 option" where
  "x86emuOp_xor_byte_RM_R = modrm (op_RM_R BYTE (alu xor_byte))"

definition x86emuOp_xor_word_RM_R :: "x86 \<Rightarrow> x86 option" where
  "x86emuOp_xor_word_RM_R = modrm (by_data_size_rm (op_RM_R LONG (alu xor_long)) (op_RM_R WORD (alu xor_word)))"

definition x86emuOp_xor_byte_R_RM :: "x86 \<Rightarrow> x86 option" where
  "x86emuOp_xor_byte_R_RM = modrm (op_R_RM BYTE (alu xor_byte))"

definition x86emuOp_xor_word_R_RM :: "x86 \<Rightarrow> x86 option" where
  "x86emuOp_xor_word_R_RM = modrm (by_data_size_rm (op_R_RM LONG (alu xor_long)) (op_R_RM WORD (alu xor_word)))"

definition x86emuOp_xor_byte_AL_IMM :: "x86 \<Rightarrow> x86 option" where
  "x86emuOp_xor_byte_AL_IMM = clearing (op_A_IMM BYTE (alu xor_byte))"

definition x86emuOp_xor_word_AX_IMM :: "x86 \<Rightarrow> x86 option" where
  "x86emuOp_xor_word_AX_IMM = clearing (by_data_size (op_A_IMM LONG (alu xor_long)) (op_A_IMM WORD (alu xor_word)))"

definition x86emuOp_cmp_byte_RM_R :: "x86 \<Rightarrow> x86 option" where
  "x86emuOp_cmp_byte_RM_R = modrm (op_RM_R BYTE (compare cmp_byte))"

definition x86emuOp_cmp_word_RM_R :: "x86 \<Rightarrow> x86 option" where
  "x86emuOp_cmp_word_RM_R = modrm (by_data_size_rm (op_RM_R LONG (compare cmp_long)) (op_RM_R WORD (compare cmp_word)))"

definition x86emuOp_cmp_byte_R_RM :: "x86 \<Rightarrow> x86 option" where
  "x86emuOp_cmp_byte_R_RM = modrm (op_R_RM BYTE (compare cmp_byte))"

definition x86emuOp_cmp_word_R_RM :: "x86 \<Rightarrow> x86 option" where
  "x86emuOp_cmp_word_R_RM = modrm (by_data_size_rm (op_R_RM LONG (compare cmp_long)) (op_R_RM WORD (compare cmp_word)))"

definition x86emuOp_cmp_byte_AL_IMM :: "x86 \<Rightarrow> x86 option" where
  "x86emuOp_cmp_byte_AL_IMM = clearing (op_A_IMM BYTE (compare cmp_byte))"

definition x86emuOp_cmp_word_AX_IMM :: "x86 \<Rightarrow> x86 option" where
  "x86emuOp_cmp_word_AX_IMM = clearing (by_data_size (op_A_IMM LONG (compare cmp_long)) (op_A_IMM WORD (compare cmp_word)))"

definition x86emuOp_test_byte_RM_R :: "x86 \<Rightarrow> x86 option" where
  "x86emuOp_test_byte_RM_R = modrm (op_RM_R BYTE (testing test_byte))"

definition x86emuOp_test_word_RM_R :: "x86 \<Rightarrow> x86 option" where
  "x86emuOp_test_word_RM_R = modrm (by_data_size_rm (op_RM_R LONG (testing test_long)) (op_RM_R WORD (testing test_word)))"

definition x86emuOp_test_AL_IMM :: "x86 \<Rightarrow> x86 option" where
  "x86emuOp_test_AL_IMM = clearing (op_A_IMM BYTE (testing test_byte))"

definition x86emuOp_test_AX_IMM :: "x86 \<Rightarrow> x86 option" where
  "x86emuOp_test_AX_IMM = clearing (by_data_size (op_A_IMM LONG (testing test_long)) (op_A_IMM WORD (testing test_word)))"

section \<open>Increment and decrement of a register\<close>

text \<open>One handler per register in the source, all of the same form.\<close>

definition x86emuOp_inc_reg :: "reg16 \<Rightarrow> x86 \<Rightarrow> x86 option" where
  "x86emuOp_inc_reg r = clearing (by_data_size (op_reg LONG (alu1 inc_long) (wide16 r)) (op_reg WORD (alu1 inc_word) r))"

definition x86emuOp_dec_reg :: "reg16 \<Rightarrow> x86 \<Rightarrow> x86 option" where
  "x86emuOp_dec_reg r = clearing (by_data_size (op_reg LONG (alu1 dec_long) (wide16 r)) (op_reg WORD (alu1 dec_word) r))"

section \<open>Tables of operations\<close>

text \<open>The reg field of the ModRM byte selects the operation; the result of \<open>cmp\<close>, the last one, is not stored.\<close>

definition opc80_byte_operation :: "(u8 \<Rightarrow> u8 \<Rightarrow> u32 \<Rightarrow> u8 \<times> u32) list" where
  "opc80_byte_operation = [add_byte, or_byte, adc_byte, sbb_byte, and_byte, sub_byte, xor_byte, cmp_byte]"

definition opc81_word_operation :: "(u16 \<Rightarrow> u16 \<Rightarrow> u32 \<Rightarrow> u16 \<times> u32) list" where
  "opc81_word_operation = [add_word, or_word, adc_word, sbb_word, and_word, sub_word, xor_word, cmp_word]"

definition opc81_long_operation :: "(u32 \<Rightarrow> u32 \<Rightarrow> u32 \<Rightarrow> u32 \<times> u32) list" where
  "opc81_long_operation = [add_long, or_long, adc_long, sbb_long, and_long, sub_long, xor_long, cmp_long]"

definition opc82_byte_operation :: "(u8 \<Rightarrow> u8 \<Rightarrow> u32 \<Rightarrow> u8 \<times> u32) list" where
  "opc82_byte_operation = [add_byte, or_byte, adc_byte, sbb_byte, and_byte, sub_byte, xor_byte, cmp_byte]"

definition opc83_word_operation :: "(u16 \<Rightarrow> u16 \<Rightarrow> u32 \<Rightarrow> u16 \<times> u32) list" where
  "opc83_word_operation = [add_word, or_word, adc_word, sbb_word, and_word, sub_word, xor_word, cmp_word]"

definition opc83_long_operation :: "(u32 \<Rightarrow> u32 \<Rightarrow> u32 \<Rightarrow> u32 \<times> u32) list" where
  "opc83_long_operation = [add_long, or_long, adc_long, sbb_long, and_long, sub_long, xor_long, cmp_long]"

definition opcD0_byte_operation :: "(u8 \<Rightarrow> u8 \<Rightarrow> u32 \<Rightarrow> (u8 \<times> u32) option) list" where
  "opcD0_byte_operation = [rol_byte, ror_byte, rcl_byte, rcr_byte, shl_byte, shr_byte, shl_byte, sar_byte]"

definition opcD1_word_operation :: "(u16 \<Rightarrow> u8 \<Rightarrow> u32 \<Rightarrow> (u16 \<times> u32) option) list" where
  "opcD1_word_operation = [rol_word, ror_word, rcl_word, rcr_word, shl_word, shr_word, shl_word, sar_word]"

definition opcD1_long_operation :: "(u32 \<Rightarrow> u8 \<Rightarrow> u32 \<Rightarrow> (u32 \<times> u32) option) list" where
  "opcD1_long_operation = [rol_long, ror_long, rcl_long, rcr_long, shl_long, shr_long, shl_long, sar_long]"

definition by_table :: "('w \<Rightarrow> 'w \<Rightarrow> u32 \<Rightarrow> 'w \<times> u32) list \<Rightarrow> nat \<Rightarrow> 'w \<Rightarrow> 'w \<Rightarrow> x86 \<Rightarrow> 'w effect" where
  "by_table operation rh d s M = (if rh \<noteq> 7 then alu (operation ! rh) d s M else compare (operation ! rh) d s M)"

definition fetch_signed_byte_imm :: "x86 \<Rightarrow> ('w::len word \<times> x86) option" where
  "fetch_signed_byte_imm M = do { (imm, M) \<leftarrow> fetch_byte_imm M; Some (scast imm, M) }"

definition x86emuOp_opc80_byte_RM_IMM :: "x86 \<Rightarrow> x86 option" where
  "x86emuOp_opc80_byte_RM_IMM = modrm (op_RM_IMM BYTE fetch_byte_imm (by_table opc80_byte_operation))"

definition x86emuOp_opc81_word_RM_IMM :: "x86 \<Rightarrow> x86 option" where
  "x86emuOp_opc81_word_RM_IMM = modrm (by_data_size_rm (op_RM_IMM LONG fetch_long_imm (by_table opc81_long_operation))
     (op_RM_IMM WORD fetch_word_imm (by_table opc81_word_operation)))"

definition x86emuOp_opc82_byte_RM_IMM :: "x86 \<Rightarrow> x86 option" where
  "x86emuOp_opc82_byte_RM_IMM = modrm (op_RM_IMM BYTE fetch_byte_imm (by_table opc82_byte_operation))"

definition x86emuOp_opc83_word_RM_IMM :: "x86 \<Rightarrow> x86 option" where
  "x86emuOp_opc83_word_RM_IMM = modrm (by_data_size_rm (op_RM_IMM LONG fetch_signed_byte_imm (by_table opc83_long_operation))
     (op_RM_IMM WORD fetch_signed_byte_imm (by_table opc83_word_operation)))"

section \<open>Shifts\<close>

text \<open>The count is an immediate byte, one, or the register \<open>cl\<close>.\<close>

definition shift_RM :: "('w, 'r) width \<Rightarrow> (x86 \<Rightarrow> (u8 \<times> x86) option) \<Rightarrow> ('w \<Rightarrow> u8 \<Rightarrow> u32 \<Rightarrow> ('w \<times> u32) option) list \<Rightarrow>
    nat \<Rightarrow> nat \<Rightarrow> nat \<Rightarrow> x86 \<Rightarrow> x86 option" where
  "shift_RM W count operation md rh rl M = update_rm W count (\<lambda>amt destval. shift (operation ! rh) destval amt) md rl M"

definition count_1 :: "x86 \<Rightarrow> (u8 \<times> x86) option" where
  "count_1 M = Some (1, M)"

definition count_CL :: "x86 \<Rightarrow> (u8 \<times> x86) option" where
  "count_CL M = Some (get_reg8 CL M, M)"

definition x86emuOp_opcC0_byte_RM_MEM :: "x86 \<Rightarrow> x86 option" where
  "x86emuOp_opcC0_byte_RM_MEM = modrm (shift_RM BYTE fetch_byte_imm opcD0_byte_operation)"

definition x86emuOp_opcC1_word_RM_MEM :: "x86 \<Rightarrow> x86 option" where
  "x86emuOp_opcC1_word_RM_MEM = modrm (by_data_size_rm (shift_RM LONG fetch_byte_imm opcD1_long_operation)
     (shift_RM WORD fetch_byte_imm opcD1_word_operation))"

definition x86emuOp_opcD0_byte_RM_1 :: "x86 \<Rightarrow> x86 option" where
  "x86emuOp_opcD0_byte_RM_1 = modrm (shift_RM BYTE count_1 opcD0_byte_operation)"

definition x86emuOp_opcD1_word_RM_1 :: "x86 \<Rightarrow> x86 option" where
  "x86emuOp_opcD1_word_RM_1 = modrm (by_data_size_rm (shift_RM LONG count_1 opcD1_long_operation)
     (shift_RM WORD count_1 opcD1_word_operation))"

definition x86emuOp_opcD2_byte_RM_CL :: "x86 \<Rightarrow> x86 option" where
  "x86emuOp_opcD2_byte_RM_CL = modrm (shift_RM BYTE count_CL opcD0_byte_operation)"

definition x86emuOp_opcD3_word_RM_CL :: "x86 \<Rightarrow> x86 option" where
  "x86emuOp_opcD3_word_RM_CL = modrm (by_data_size_rm (shift_RM LONG count_CL opcD1_long_operation)
     (shift_RM WORD count_CL opcD1_word_operation))"

section \<open>One operand\<close>

definition group3 :: "('w, 'r) width \<Rightarrow> ('w \<Rightarrow> 'w \<Rightarrow> u32 \<Rightarrow> u32) \<Rightarrow> ('w \<Rightarrow> 'w) \<Rightarrow> ('w \<Rightarrow> u32 \<Rightarrow> 'w \<times> u32) \<Rightarrow>
    ('w \<Rightarrow> x86 \<Rightarrow> x86 option) \<Rightarrow> ('w \<Rightarrow> x86 \<Rightarrow> x86 option) \<Rightarrow> ('w \<Rightarrow> x86 \<Rightarrow> x86 option) \<Rightarrow> ('w \<Rightarrow> x86 \<Rightarrow> x86 option) \<Rightarrow>
    nat \<Rightarrow> nat \<Rightarrow> nat \<Rightarrow> x86 \<Rightarrow> x86 option" where
  "group3 W test_op not_op neg_op mul_op imul_op div_op idiv_op md rh rl M =
     (if rh = 0 then update_rm W (w_imm W) (\<lambda>srcval destval. testing test_op destval srcval) md rl M
      else if rh = 1 then Some (X86EMU_halt_sys M)
      else if rh = 2 then update_rm W no_imm (\<lambda>_ destval M. Some (Some (not_op destval), M)) md rl M
      else if rh = 3 then update_rm W no_imm (\<lambda>_. alu1 neg_op) md rl M
      else if rh = 4 then update_rm W no_imm (\<lambda>_. machine mul_op) md rl M
      else if rh = 5 then update_rm W no_imm (\<lambda>_. machine imul_op) md rl M
      else if rh = 6 then update_rm W no_imm (\<lambda>_. machine div_op) md rl M
      else update_rm W no_imm (\<lambda>_. machine idiv_op) md rl M)"

definition x86emuOp_opcF6_byte_RM :: "x86 \<Rightarrow> x86 option" where
  "x86emuOp_opcF6_byte_RM = modrm (group3 BYTE test_byte not_byte neg_byte
     (\<lambda>s M. Some (mul_byte s M)) (\<lambda>s M. Some (imul_byte s M)) div_byte (\<lambda>s M. Some (idiv_byte s M)))"

definition x86emuOp_opcF7_word_RM :: "x86 \<Rightarrow> x86 option" where
  "x86emuOp_opcF7_word_RM = modrm (by_data_size_rm
     (group3 LONG test_long not_long neg_long
       (\<lambda>s M. Some (mul_long s M)) (\<lambda>s M. Some (imul_long s M)) div_long idiv_long)
     (group3 WORD test_word not_word neg_word mul_word imul_word div_word idiv_word))"

definition inc_dec :: "('w, 'r) width \<Rightarrow> ('w \<Rightarrow> u32 \<Rightarrow> 'w \<times> u32) \<Rightarrow> ('w \<Rightarrow> u32 \<Rightarrow> 'w \<times> u32) \<Rightarrow>
    nat \<Rightarrow> nat \<Rightarrow> nat \<Rightarrow> x86 \<Rightarrow> x86 option" where
  "inc_dec W inc_op dec_op md rh rl M =
     (if rh = 0 then update_rm W no_imm (\<lambda>_. alu1 inc_op) md rl M
      else update_rm W no_imm (\<lambda>_. alu1 dec_op) md rl M)"

text \<open>The other values of the reg field of opcode \<open>0xFE\<close> only decode the operand; the check that rejects them is
  active while decoding is traced, and only then.\<close>

definition skip_rm :: "('w, 'r) width \<Rightarrow> nat \<Rightarrow> nat \<Rightarrow> x86 \<Rightarrow> x86 option" where
  "skip_rm W md rl M =
     (if md < 3 then do { (destoffset, M) \<leftarrow> decode_rm_address md rl M; Some M }
      else do { (destreg, M) \<leftarrow> w_reg W rl M; Some M })"

definition x86emuOp_opcFE_byte_RM :: "x86 \<Rightarrow> x86 option" where
  "x86emuOp_opcFE_byte_RM = modrm (\<lambda>md rh rl.
     if rh < 2 then inc_dec BYTE inc_byte dec_byte md rh rl else skip_rm BYTE md rl)"

section \<open>Multiplication into a register\<close>

definition imul_flags :: "bool \<Rightarrow> x86 \<Rightarrow> x86" where
  "imul_flags overflow M =
     (if overflow then M\<lparr>R_FLG := SET_FLAG F_OF (SET_FLAG F_CF (R_FLG M))\<rparr>
      else M\<lparr>R_FLG := CLEAR_FLAG F_OF (CLEAR_FLAG F_CF (R_FLG M))\<rparr>)"

definition imul_word_into :: "u16 \<Rightarrow> u16 \<Rightarrow> x86 \<Rightarrow> u16 effect" where
  "imul_word_into a b M =
     (let res = (word_of_int (sint a * sint b) :: u32) in Some (Some (ucast res), imul_flags (res > 0xFFFF) M))"

definition imul_long_into :: "u32 \<Rightarrow> u32 \<Rightarrow> x86 \<Rightarrow> u32 effect" where
  "imul_long_into a b M =
     (let (res_lo, res_hi) = imul_long_direct a b in Some (Some res_lo, imul_flags (res_hi \<noteq> 0) M))"

definition with_imm :: "(x86 \<Rightarrow> ('w \<times> x86) option) \<Rightarrow> ('w \<Rightarrow> 'w \<Rightarrow> x86 \<Rightarrow> 'w effect) \<Rightarrow> 'w \<Rightarrow> 'w \<Rightarrow> x86 \<Rightarrow> 'w effect" where
  "with_imm fetch f dest srcval M = do { (imm, M) \<leftarrow> fetch M; f srcval imm M }"

definition x86emuOp_imul_word_IMM :: "x86 \<Rightarrow> x86 option" where
  "x86emuOp_imul_word_IMM = modrm (by_data_size_rm (op_R_RM LONG (with_imm fetch_long_imm imul_long_into))
     (op_R_RM WORD (with_imm fetch_word_imm imul_word_into)))"

definition x86emuOp_imul_byte_IMM :: "x86 \<Rightarrow> x86 option" where
  "x86emuOp_imul_byte_IMM = modrm (by_data_size_rm (op_R_RM LONG (with_imm fetch_signed_byte_imm imul_long_into))
     (op_R_RM WORD (with_imm fetch_signed_byte_imm imul_word_into)))"

section \<open>Decimal adjustment\<close>

definition x86emuOp_daa :: "x86 \<Rightarrow> x86 option" where
  "x86emuOp_daa = clearing (op_reg BYTE (alu1 daa_byte) AL)"

definition x86emuOp_das :: "x86 \<Rightarrow> x86 option" where
  "x86emuOp_das = clearing (op_reg BYTE (alu1 das_byte) AL)"

definition x86emuOp_aaa :: "x86 \<Rightarrow> x86 option" where
  "x86emuOp_aaa = clearing (op_reg WORD (alu1 aaa_word) AX)"

definition x86emuOp_aas :: "x86 \<Rightarrow> x86 option" where
  "x86emuOp_aas = clearing (op_reg WORD (alu1 aas_word) AX)"

text \<open>A base other than 10 halts the machine; the adjustment is still made, with base 10.\<close>

definition only_base_10 :: "x86 \<Rightarrow> x86 option" where
  "only_base_10 M = do { (a, M) \<leftarrow> fetch_byte_imm M; Some (if a \<noteq> 10 then X86EMU_halt_sys M else M) }"

definition x86emuOp_aam :: "x86 \<Rightarrow> x86 option" where
  "x86emuOp_aam = clearing (\<lambda>M. do {
     M \<leftarrow> only_base_10 M;
     (res, M) \<leftarrow> alu1 aam_word (R_AL M) M;
     Some (put_reg WORD AX res M)
   })"

definition x86emuOp_aad :: "x86 \<Rightarrow> x86 option" where
  "x86emuOp_aad = clearing (\<lambda>M. do { M \<leftarrow> only_base_10 M; op_reg WORD (alu1 aad_word) AX M })"

end
