(* ===== verification/X86_Ops_Flow.thy ===== *)
theory X86_Ops_Flow
  imports X86_Ops_Arith X86_Ops_Move
begin

unbundle bit_operations_syntax

text \<open>
  The handlers of \<^verbatim>\<open>ops.c\<close> that change the flow of control: jumps, loops, calls, returns, software interrupts, and the
  group of opcode \<open>0xFF\<close>. A handler that the client installed for an interrupt is the argument \<open>intrTab\<close>.
\<close>

section \<open>Conditional jumps\<close>

definition set_IP :: "u16 \<Rightarrow> x86 \<Rightarrow> x86" where
  "set_IP ip M = M\<lparr>R_EIP := set_lo16 ip (R_EIP M)\<rparr>"

definition jump_if :: "(u32 \<Rightarrow> bool) \<Rightarrow> x86 \<Rightarrow> x86 option" where
  "jump_if cond M =
     do {
       (offset, M) \<leftarrow> fetch_byte_imm M;
       let target = R_IP M + scast offset;
       Some (if cond (R_FLG M) then set_IP target M else M)
     }"

text \<open>The conditions, by the name of the jump.\<close>

definition x86emuOp_jump_near_O :: "x86 \<Rightarrow> x86 option" where
  "x86emuOp_jump_near_O = clearing (jump_if (\<lambda>flg. ACCESS_FLAG F_OF flg \<noteq> 0))"

definition x86emuOp_jump_near_NO :: "x86 \<Rightarrow> x86 option" where
  "x86emuOp_jump_near_NO = clearing (jump_if (\<lambda>flg. ACCESS_FLAG F_OF flg = 0))"

definition x86emuOp_jump_near_B :: "x86 \<Rightarrow> x86 option" where
  "x86emuOp_jump_near_B = clearing (jump_if (\<lambda>flg. ACCESS_FLAG F_CF flg \<noteq> 0))"

definition x86emuOp_jump_near_NB :: "x86 \<Rightarrow> x86 option" where
  "x86emuOp_jump_near_NB = clearing (jump_if (\<lambda>flg. ACCESS_FLAG F_CF flg = 0))"

definition x86emuOp_jump_near_Z :: "x86 \<Rightarrow> x86 option" where
  "x86emuOp_jump_near_Z = clearing (jump_if (\<lambda>flg. ACCESS_FLAG F_ZF flg \<noteq> 0))"

definition x86emuOp_jump_near_NZ :: "x86 \<Rightarrow> x86 option" where
  "x86emuOp_jump_near_NZ = clearing (jump_if (\<lambda>flg. ACCESS_FLAG F_ZF flg = 0))"

definition x86emuOp_jump_near_BE :: "x86 \<Rightarrow> x86 option" where
  "x86emuOp_jump_near_BE = clearing (jump_if (\<lambda>flg. ACCESS_FLAG F_CF flg \<noteq> 0 \<or> ACCESS_FLAG F_ZF flg \<noteq> 0))"

definition x86emuOp_jump_near_NBE :: "x86 \<Rightarrow> x86 option" where
  "x86emuOp_jump_near_NBE = clearing (jump_if (\<lambda>flg. \<not> (ACCESS_FLAG F_CF flg \<noteq> 0 \<or> ACCESS_FLAG F_ZF flg \<noteq> 0)))"

definition x86emuOp_jump_near_S :: "x86 \<Rightarrow> x86 option" where
  "x86emuOp_jump_near_S = clearing (jump_if (\<lambda>flg. ACCESS_FLAG F_SF flg \<noteq> 0))"

definition x86emuOp_jump_near_NS :: "x86 \<Rightarrow> x86 option" where
  "x86emuOp_jump_near_NS = clearing (jump_if (\<lambda>flg. ACCESS_FLAG F_SF flg = 0))"

definition x86emuOp_jump_near_P :: "x86 \<Rightarrow> x86 option" where
  "x86emuOp_jump_near_P = clearing (jump_if (\<lambda>flg. ACCESS_FLAG F_PF flg \<noteq> 0))"

definition x86emuOp_jump_near_NP :: "x86 \<Rightarrow> x86 option" where
  "x86emuOp_jump_near_NP = clearing (jump_if (\<lambda>flg. ACCESS_FLAG F_PF flg = 0))"

definition x86emuOp_jump_near_L :: "x86 \<Rightarrow> x86 option" where
  "x86emuOp_jump_near_L = clearing (jump_if (\<lambda>flg. let sf = (ACCESS_FLAG F_SF flg \<noteq> 0); ov = (ACCESS_FLAG F_OF flg \<noteq> 0) in sf \<noteq> ov))"

definition x86emuOp_jump_near_NL :: "x86 \<Rightarrow> x86 option" where
  "x86emuOp_jump_near_NL = clearing (jump_if (\<lambda>flg. let sf = (ACCESS_FLAG F_SF flg \<noteq> 0); ov = (ACCESS_FLAG F_OF flg \<noteq> 0) in sf = ov))"

definition x86emuOp_jump_near_LE :: "x86 \<Rightarrow> x86 option" where
  "x86emuOp_jump_near_LE = clearing (jump_if (\<lambda>flg. let sf = (ACCESS_FLAG F_SF flg \<noteq> 0); ov = (ACCESS_FLAG F_OF flg \<noteq> 0) in sf \<noteq> ov \<or> ACCESS_FLAG F_ZF flg \<noteq> 0))"

definition x86emuOp_jump_near_NLE :: "x86 \<Rightarrow> x86 option" where
  "x86emuOp_jump_near_NLE = clearing (jump_if (\<lambda>flg. let sf = (ACCESS_FLAG F_SF flg \<noteq> 0); ov = (ACCESS_FLAG F_OF flg \<noteq> 0) in sf = ov \<and> ACCESS_FLAG F_ZF flg = 0))"

section \<open>Loops\<close>

definition loop_if :: "(u32 \<Rightarrow> bool) \<Rightarrow> x86 \<Rightarrow> x86 option" where
  "loop_if cond M =
     do {
       (offset, M) \<leftarrow> fetch_byte_imm M;
       let ip = scast offset + R_IP M;
       let M = set_reg16 CX (R_CX M - 1) M;
       Some (if R_CX M \<noteq> 0 \<and> cond (R_FLG M) then set_IP ip M else M)
     }"

definition x86emuOp_loopne :: "x86 \<Rightarrow> x86 option" where
  "x86emuOp_loopne = clearing (loop_if (\<lambda>flg. ACCESS_FLAG F_ZF flg = 0))"

definition x86emuOp_loope :: "x86 \<Rightarrow> x86 option" where
  "x86emuOp_loope = clearing (loop_if (\<lambda>flg. ACCESS_FLAG F_ZF flg \<noteq> 0))"

definition x86emuOp_loop :: "x86 \<Rightarrow> x86 option" where
  "x86emuOp_loop = clearing (loop_if (\<lambda>_. True))"

definition x86emuOp_jcxz :: "x86 \<Rightarrow> x86 option" where
  "x86emuOp_jcxz = clearing (\<lambda>M. do {
     (offset, M) \<leftarrow> fetch_byte_imm M;
     let target = R_IP M + scast offset;
     Some (if R_CX M = 0 then set_IP target M else M)
   })"

section \<open>Jumps, calls and returns\<close>

text \<open>The sum of the 32-bit displacement and the instruction pointer of \<open>call\<close> is a signed one, undefined if it
  overflows.\<close>

definition c_add :: "int \<Rightarrow> int \<Rightarrow> int option" where
  "c_add x y = (if INT_MIN \<le> x + y \<and> x + y \<le> INT_MAX then Some (x + y) else None)"

definition x86emuOp_jump_byte_IMM :: "x86 \<Rightarrow> x86 option" where
  "x86emuOp_jump_byte_IMM = clearing (\<lambda>M. do {
     (offset, M) \<leftarrow> fetch_byte_imm M;
     let target = R_IP M + scast offset;
     Some (set_IP target M)
   })"

definition x86emuOp_jump_near_IMM :: "x86 \<Rightarrow> x86 option" where
  "x86emuOp_jump_near_IMM = clearing (by_data_size
     (\<lambda>M. do {
       (ip, M) \<leftarrow> fetch_long_imm M;
       let ip = ip + R_EIP M;
       Some (M\<lparr>R_EIP := ip\<rparr>)
     })
     (\<lambda>M. do {
       (w, M) \<leftarrow> fetch_word_imm M;
       let ip = (scast w + scast (R_IP M) :: u32);
       Some (set_IP (ucast ip) M)
     }))"

definition x86emuOp_jump_far_IMM :: "x86 \<Rightarrow> x86 option" where
  "x86emuOp_jump_far_IMM = clearing (\<lambda>M. do {
     (ip, M) \<leftarrow> by_data_size fetch_long_imm (\<lambda>M. do { (w, M) \<leftarrow> fetch_word_imm M; Some (ucast w, M) }) M;
     (cs, M) \<leftarrow> fetch_word_imm M;
     let M = M\<lparr>R_EIP := ip AND 0xffff\<rparr>;
     Some (M\<lparr>R_CS := cs\<rparr>)
   })"

definition x86emuOp_call_near_IMM :: "x86 \<Rightarrow> x86 option" where
  "x86emuOp_call_near_IMM = clearing (by_data_size
     (\<lambda>M. do {
       (w, M) \<leftarrow> fetch_long_imm M;
       ip32 \<leftarrow> c_add (sint w) (sint (R_IP M));
       M \<leftarrow> push_long (R_EIP M) M;
       Some (M\<lparr>R_EIP := word_of_int ip32 AND 0xffff\<rparr>)
     })
     (\<lambda>M. do {
       (w, M) \<leftarrow> fetch_word_imm M;
       let ip16 = w + R_IP M;
       M \<leftarrow> push_word (R_IP M) M;
       Some (M\<lparr>R_EIP := scast ip16\<rparr>)
     }))"

definition x86emuOp_call_far_IMM :: "x86 \<Rightarrow> x86 option" where
  "x86emuOp_call_far_IMM = clearing (\<lambda>M. do {
     (faroff, M) \<leftarrow> by_data_size fetch_long_imm (\<lambda>M. do { (w, M) \<leftarrow> fetch_word_imm M; Some (ucast w, M) }) M;
     (farseg, M) \<leftarrow> fetch_word_imm M;
     M \<leftarrow> push_word (R_CS M) M;
     let M = M\<lparr>R_CS := farseg\<rparr>;
     M \<leftarrow> by_data_size (\<lambda>M. push_long (R_EIP M) M) (\<lambda>M. push_word (R_IP M) M) M;
     Some (M\<lparr>R_EIP := faroff AND 0xffff\<rparr>)
   })"

definition pop_IP :: "x86 \<Rightarrow> x86 option" where
  "pop_IP M = do { (ip, M) \<leftarrow> pop_word M; Some (set_IP ip M) }"

definition pop_CS :: "x86 \<Rightarrow> x86 option" where
  "pop_CS M = do { (cs, M) \<leftarrow> pop_word M; Some (M\<lparr>R_CS := cs\<rparr>) }"

definition x86emuOp_ret_near :: "x86 \<Rightarrow> x86 option" where
  "x86emuOp_ret_near = clearing pop_IP"

definition x86emuOp_ret_near_IMM :: "x86 \<Rightarrow> x86 option" where
  "x86emuOp_ret_near_IMM = clearing (\<lambda>M. do {
     (imm, M) \<leftarrow> fetch_word_imm M;
     M \<leftarrow> pop_IP M;
     Some (set_reg16 SP (R_SP M + imm) M)
   })"

definition x86emuOp_ret_far :: "x86 \<Rightarrow> x86 option" where
  "x86emuOp_ret_far = clearing (\<lambda>M. do { M \<leftarrow> pop_IP M; pop_CS M })"

definition x86emuOp_ret_far_IMM :: "x86 \<Rightarrow> x86 option" where
  "x86emuOp_ret_far_IMM = clearing (\<lambda>M. do {
     (imm, M) \<leftarrow> fetch_word_imm M;
     M \<leftarrow> pop_IP M;
     M \<leftarrow> pop_CS M;
     Some (set_reg16 SP (R_SP M + imm) M)
   })"

section \<open>Software interrupts\<close>

type_synonym intrTab = "u8 \<Rightarrow> (x86 \<Rightarrow> x86 option) option"

definition soft_int :: "intrTab \<Rightarrow> u8 \<Rightarrow> x86 \<Rightarrow> x86 option" where
  "soft_int intrTab intnum M =
     (case intrTab intnum of
        Some handler \<Rightarrow> handler M
      | None \<Rightarrow>
          do {
            M \<leftarrow> push_word (ucast (R_FLG M)) M;
            let M = M\<lparr>R_FLG := CLEAR_FLAG F_IF (R_FLG M)\<rparr>;
            let M = M\<lparr>R_FLG := CLEAR_FLAG F_TF (R_FLG M)\<rparr>;
            M \<leftarrow> push_word (R_CS M) M;
            (cs, M) \<leftarrow> mem_access_word (ucast intnum * 4 + 2) M;
            let M = M\<lparr>R_CS := cs\<rparr>;
            M \<leftarrow> push_word (R_IP M) M;
            (ip, M) \<leftarrow> mem_access_word (ucast intnum * 4) M;
            Some (set_IP ip M)
          })"

definition x86emuOp_int3 :: "intrTab \<Rightarrow> x86 \<Rightarrow> x86 option" where
  "x86emuOp_int3 intrTab = clearing (soft_int intrTab 3)"

definition x86emuOp_int_IMM :: "intrTab \<Rightarrow> x86 \<Rightarrow> x86 option" where
  "x86emuOp_int_IMM intrTab = clearing (\<lambda>M. do { (intnum, M) \<leftarrow> fetch_byte_imm M; soft_int intrTab intnum M })"

definition x86emuOp_into :: "intrTab \<Rightarrow> x86 \<Rightarrow> x86 option" where
  "x86emuOp_into intrTab = clearing (\<lambda>M. if ACCESS_FLAG F_OF (R_FLG M) \<noteq> 0 then soft_int intrTab 4 M else Some M)"

section \<open>The group of opcode 0xFF\<close>

text \<open>With a memory operand the address is decoded before the switch on the operation, with a register operand the
  register is decoded in each case.\<close>

definition opcFF_mem :: "nat \<Rightarrow> u32 \<Rightarrow> x86 \<Rightarrow> x86 option" where
  "opcFF_mem rh destoffset M =
     (if rh = 2 then
        do {
          (destval, M) \<leftarrow> fetch_data_word destoffset M;
          M \<leftarrow> push_word (R_IP M) M;
          Some (set_IP destval M)
        }
      else if rh = 3 then
        do {
          (destval, M) \<leftarrow> fetch_data_word destoffset M;
          (destval2, M) \<leftarrow> fetch_data_word (destoffset + 2) M;
          M \<leftarrow> push_word (R_CS M) M;
          let M = M\<lparr>R_CS := destval2\<rparr>;
          M \<leftarrow> push_word (R_IP M) M;
          Some (set_IP destval M)
        }
      else if rh = 4 then
        do {
          (destval, M) \<leftarrow> fetch_data_word destoffset M;
          Some (set_IP destval M)
        }
      else if rh = 5 then
        do {
          (destval, M) \<leftarrow> fetch_data_word destoffset M;
          (destval2, M) \<leftarrow> fetch_data_word (destoffset + 2) M;
          let M = set_IP destval M;
          Some (M\<lparr>R_CS := destval2\<rparr>)
        }
      else if rh = 6 then
        by_data_size (\<lambda>M. do { (destval, M) \<leftarrow> fetch_data_long destoffset M; push_long destval M })
          (\<lambda>M. do { (destval, M) \<leftarrow> fetch_data_word destoffset M; push_word destval M }) M
      else Some M)"

definition opcFF_reg :: "nat \<Rightarrow> nat \<Rightarrow> x86 \<Rightarrow> x86 option" where
  "opcFF_reg rh rl M =
     (if rh = 2 then
        do {
          (destreg, M) \<leftarrow> w_reg WORD rl M;
          M \<leftarrow> push_word (R_IP M) M;
          Some (set_IP (get_reg16 destreg M) M)
        }
      else if rh = 3 then Some (X86EMU_halt_sys M)
      else if rh = 4 then
        do {
          (destreg, M) \<leftarrow> w_reg WORD rl M;
          Some (set_IP (get_reg16 destreg M) M)
        }
      else if rh = 5 then Some (X86EMU_halt_sys M)
      else if rh = 6 then
        by_data_size (\<lambda>M. do { (v, M) \<leftarrow> reg_value LONG rl M; push_long v M })
          (\<lambda>M. do { (v, M) \<leftarrow> reg_value WORD rl M; push_word v M }) M
      else Some M)"

definition x86emuOp_opcFF_word_RM :: "x86 \<Rightarrow> x86 option" where
  "x86emuOp_opcFF_word_RM = modrm (\<lambda>md rh rl M.
     if rh < 2 then by_data_size (inc_dec LONG inc_long dec_long md rh rl) (inc_dec WORD inc_word dec_word md rh rl) M
     else if md < 3 then do { (destoffset, M) \<leftarrow> decode_rm_address md rl M; opcFF_mem rh destoffset M }
     else opcFF_reg rh rl M)"

end
