(* ===== verification/X86_Ops2.thy ===== *)
theory X86_Ops2
  imports X86_Ops_Flow
begin

unbundle bit_operations_syntax

text \<open>
  The handlers of the two-byte instructions (\<^verbatim>\<open>ops2.c\<close>) and \<open>cpuid\<close> of \<^verbatim>\<open>prim_ops.c\<close>. The macro that would take the
  result of \<open>cpuid\<close> from the real processor is not set in this build.
\<close>

definition x86emuOp2_illegal_op :: "x86 \<Rightarrow> x86 option" where
  "x86emuOp2_illegal_op M = Some (X86EMU_halt_sys M)"

definition x86emuOp2_rdtsc :: "x86 \<Rightarrow> x86 option" where
  "x86emuOp2_rdtsc = clearing (\<lambda>M.
     let M = M\<lparr>x_tsc := x_tsc M + 0x10000\<rparr> in Some (M\<lparr>R_EAX := x_tsc M, R_EDX := 0\<rparr>))"

section \<open>Conditions\<close>

definition xorl :: "u32 \<Rightarrow> u32 \<Rightarrow> bool" where
  "xorl a b \<longleftrightarrow> (a \<noteq> 0 \<and> b = 0) \<or> (a = 0 \<and> b \<noteq> 0)"

definition x86emuOp2_long_jump :: "u8 \<Rightarrow> x86 \<Rightarrow> x86 option" where
  "x86emuOp2_long_jump op2 = clearing (\<lambda>M.
     let flg = R_FLG M;
         cond =
           (if op2 = 0x80 then ACCESS_FLAG F_OF flg \<noteq> 0
            else if op2 = 0x81 then ACCESS_FLAG F_OF flg = 0
            else if op2 = 0x82 then ACCESS_FLAG F_CF flg \<noteq> 0
            else if op2 = 0x83 then ACCESS_FLAG F_CF flg = 0
            else if op2 = 0x84 then ACCESS_FLAG F_ZF flg \<noteq> 0
            else if op2 = 0x85 then ACCESS_FLAG F_ZF flg = 0
            else if op2 = 0x86 then ACCESS_FLAG F_CF flg \<noteq> 0 \<or> ACCESS_FLAG F_ZF flg \<noteq> 0
            else if op2 = 0x87 then \<not> (ACCESS_FLAG F_CF flg \<noteq> 0 \<or> ACCESS_FLAG F_ZF flg \<noteq> 0)
            else if op2 = 0x88 then ACCESS_FLAG F_SF flg \<noteq> 0
            else if op2 = 0x89 then ACCESS_FLAG F_SF flg = 0
            else if op2 = 0x8a then ACCESS_FLAG F_PF flg \<noteq> 0
            else if op2 = 0x8b then ACCESS_FLAG F_PF flg = 0
            else if op2 = 0x8c then xorl (ACCESS_FLAG F_SF flg) (ACCESS_FLAG F_OF flg)
            else if op2 = 0x8d then \<not> xorl (ACCESS_FLAG F_SF flg) (ACCESS_FLAG F_OF flg)
            else if op2 = 0x8e then xorl (ACCESS_FLAG F_SF flg) (ACCESS_FLAG F_OF flg) \<or> ACCESS_FLAG F_ZF flg \<noteq> 0
            else if op2 = 0x8f then \<not> (xorl (ACCESS_FLAG F_SF flg) (ACCESS_FLAG F_OF flg) \<or> ACCESS_FLAG F_ZF flg \<noteq> 0)
            else False)
     in do {
       (w, M) \<leftarrow> fetch_word_imm M;
       let target = (scast w + scast (R_IP M) :: u32);
       Some (if cond then set_IP (ucast target) M else M)
     })"

definition x86emuOp2_set_byte :: "u8 \<Rightarrow> x86 \<Rightarrow> x86 option" where
  "x86emuOp2_set_byte op2 M =
     (let flg = R_FLG M;
          cond =
            (if op2 = 0x90 then ACCESS_FLAG F_OF flg \<noteq> 0
             else if op2 = 0x91 then ACCESS_FLAG F_OF flg = 0
             else if op2 = 0x92 then ACCESS_FLAG F_CF flg \<noteq> 0
             else if op2 = 0x93 then ACCESS_FLAG F_CF flg = 0
             else if op2 = 0x94 then ACCESS_FLAG F_ZF flg \<noteq> 0
             else if op2 = 0x95 then ACCESS_FLAG F_ZF flg = 0
             else if op2 = 0x96 then ACCESS_FLAG F_CF flg \<noteq> 0 \<or> ACCESS_FLAG F_ZF flg \<noteq> 0
             else if op2 = 0x97 then \<not> (ACCESS_FLAG F_CF flg \<noteq> 0 \<or> ACCESS_FLAG F_ZF flg \<noteq> 0)
             else if op2 = 0x98 then ACCESS_FLAG F_SF flg \<noteq> 0
             else if op2 = 0x99 then ACCESS_FLAG F_SF flg = 0
             else if op2 = 0x9a then ACCESS_FLAG F_PF flg \<noteq> 0
             else if op2 = 0x9b then ACCESS_FLAG F_PF flg = 0
             else if op2 = 0x9c then xorl (ACCESS_FLAG F_SF flg) (ACCESS_FLAG F_OF flg)
             else if op2 = 0x9d then xorl (ACCESS_FLAG F_SF flg) (ACCESS_FLAG F_OF flg)
             else if op2 = 0x9e then xorl (ACCESS_FLAG F_SF flg) (ACCESS_FLAG F_OF flg) \<or> ACCESS_FLAG F_ZF flg \<noteq> 0
             else if op2 = 0x9f then \<not> (xorl (ACCESS_FLAG F_SF flg) (ACCESS_FLAG F_OF flg) \<or> ACCESS_FLAG F_ZF flg \<noteq> 0)
             else False)
      in modrm (\<lambda>md rh rl. write_rm BYTE (\<lambda>M. Some (if cond then 0x01 else 0x00, M)) md rl) M)"

section \<open>Segments and cpuid\<close>

definition x86emuOp2_push_FS :: "x86 \<Rightarrow> x86 option" where "x86emuOp2_push_FS = clearing (push_seg FS)"
definition x86emuOp2_pop_FS :: "x86 \<Rightarrow> x86 option" where "x86emuOp2_pop_FS = clearing (pop_seg FS)"
definition x86emuOp2_push_GS :: "x86 \<Rightarrow> x86 option" where "x86emuOp2_push_GS = clearing (push_seg GS)"
definition x86emuOp2_pop_GS :: "x86 \<Rightarrow> x86 option" where "x86emuOp2_pop_GS = clearing (pop_seg GS)"
definition x86emuOp2_lss_R_IMM :: "x86 \<Rightarrow> x86 option" where "x86emuOp2_lss_R_IMM = modrm (load_far SS)"
definition x86emuOp2_lfs_R_IMM :: "x86 \<Rightarrow> x86 option" where "x86emuOp2_lfs_R_IMM = modrm (load_far FS)"
definition x86emuOp2_lgs_R_IMM :: "x86 \<Rightarrow> x86 option" where "x86emuOp2_lgs_R_IMM = modrm (load_far GS)"

definition cpuid :: "x86 \<Rightarrow> x86" where
  "cpuid M =
     (let feature = R_EAX M in
      if feature = 0 then M\<lparr>R_EAX := 1, R_EBX := 0x756e6547, R_EDX := 0x49656e69, R_ECX := 0x6c65746e\<rparr>
      else if feature = 1 then M\<lparr>R_EAX := 0x00000480, R_EBX := 0x00000000, R_ECX := 0x00000000, R_EDX := 0x00000002\<rparr>
      else M\<lparr>R_EAX := 0, R_EBX := 0, R_ECX := 0, R_EDX := 0\<rparr>)"

definition x86emuOp2_cpuid :: "x86 \<Rightarrow> x86 option" where
  "x86emuOp2_cpuid = clearing (\<lambda>M. Some (cpuid M))"

section \<open>Bit tests\<close>

text \<open>What \<open>bt\<close>, \<open>bts\<close>, \<open>btr\<close> and \<open>btc\<close> do with the tested bit. The number of the bit is taken from the low bits of a
  register; with a memory operand, the remaining bits of its lower half are a displacement, which the source adds
  to the address as a number of bytes.\<close>

datatype bit_op = Test | Set | Reset | Complement

fun change_bit :: "bit_op \<Rightarrow> 'a::len word \<Rightarrow> 'a word \<Rightarrow> 'a word option" where
  "change_bit Test v m = None"
| "change_bit Set v m = Some (v OR m)"
| "change_bit Reset v m = Some (v AND NOT m)"
| "change_bit Complement v m = Some (v XOR m)"

definition test_bit_op :: "bit_op \<Rightarrow> nat \<Rightarrow> 'a::len word \<Rightarrow> x86 \<Rightarrow> 'a word effect" where
  "test_bit_op f b srcval M =
     (let m = push_bit b 1 in
      Some (change_bit f srcval m, M\<lparr>R_FLG := CONDITIONAL_SET_FLAG (srcval AND m \<noteq> 0) F_CF (R_FLG M)\<rparr>))"

definition bt_R :: "bit_op \<Rightarrow> ('w::len word, 'r) width \<Rightarrow> nat \<Rightarrow> nat \<Rightarrow> nat \<Rightarrow> nat \<Rightarrow> x86 \<Rightarrow> x86 option" where
  "bt_R f W sh md rh rl M =
     (if md < 3 then
        do {
          (srcoffset, M) \<leftarrow> decode_rm_address md rl M;
          (shiftval, M) \<leftarrow> reg_value W rh M;
          let b = unat shiftval mod 2 ^ sh;
          let disp = word_of_int (sint (ucast shiftval :: u16) div 2 ^ sh);
          (srcval, M) \<leftarrow> w_fetch W (srcoffset + disp) M;
          (res, M) \<leftarrow> test_bit_op f b srcval M;
          case res of Some v \<Rightarrow> w_store W (srcoffset + disp) v M | None \<Rightarrow> Some M
        }
      else
        do {
          (srcreg, M) \<leftarrow> w_reg W rl M;
          (shiftval, M) \<leftarrow> reg_value W rh M;
          let b = unat shiftval mod 2 ^ sh;
          (res, M) \<leftarrow> test_bit_op f b (w_get W srcreg M) M;
          Some (put_reg W srcreg res M)
        })"

definition x86emuOp2_bt_R :: "x86 \<Rightarrow> x86 option" where
  "x86emuOp2_bt_R = modrm (by_data_size_rm (bt_R Test LONG 5) (bt_R Test WORD 4))"

definition x86emuOp2_bts_R :: "x86 \<Rightarrow> x86 option" where
  "x86emuOp2_bts_R = modrm (by_data_size_rm (bt_R Set LONG 5) (bt_R Set WORD 4))"

definition x86emuOp2_btr_R :: "x86 \<Rightarrow> x86 option" where
  "x86emuOp2_btr_R = modrm (by_data_size_rm (bt_R Reset LONG 5) (bt_R Reset WORD 4))"

definition x86emuOp2_btc_R :: "x86 \<Rightarrow> x86 option" where
  "x86emuOp2_btc_R = modrm (by_data_size_rm (bt_R Complement LONG 5) (bt_R Complement WORD 4))"

definition btX :: "('w::len word, 'r) width \<Rightarrow> nat \<Rightarrow> nat \<Rightarrow> nat \<Rightarrow> nat \<Rightarrow> x86 \<Rightarrow> x86 option" where
  "btX W sh md rh rl M =
     update_rm W fetch_byte_imm (\<lambda>amt srcval. test_bit_op
       (if rh = 5 then Set else if rh = 6 then Reset else if rh = 7 then Complement else Test)
       (unat amt mod 2 ^ sh) srcval) md rl M"

definition x86emuOp2_btX_I :: "x86 \<Rightarrow> x86 option" where
  "x86emuOp2_btX_I = modrm (\<lambda>md rh rl M.
     let M = (if rh < 4 then X86EMU_halt_sys M else M) in
     by_data_size_rm (btX LONG 5) (btX WORD 4) md rh rl M)"

section \<open>Bit scans\<close>

text \<open>The loop of \<open>bsf\<close> counts up to the first set bit or the width, the one of \<open>bsr\<close> down to a set bit or 0.\<close>

fun scan_up :: "nat \<Rightarrow> nat \<Rightarrow> 'a::len word \<Rightarrow> nat" where
  "scan_up 0 i v = i"
| "scan_up (Suc n) i v = (if drop_bit i v AND 1 \<noteq> 0 then i else scan_up n (i + 1) v)"

fun scan_down :: "nat \<Rightarrow> 'a::len word \<Rightarrow> nat" where
  "scan_down 0 v = 0"
| "scan_down (Suc i) v = (if drop_bit (Suc i) v AND 1 \<noteq> 0 then Suc i else scan_down i v)"

definition bit_scan :: "('w::len word, 'r) width \<Rightarrow> ('w word \<Rightarrow> nat) \<Rightarrow> nat \<Rightarrow> nat \<Rightarrow> nat \<Rightarrow> x86 \<Rightarrow> x86 option" where
  "bit_scan W scan md rh rl M =
     do {
       (srcval, M) \<leftarrow> read_rm W md rl M;
       (dstreg, M) \<leftarrow> w_reg W rh M;
       let M = M\<lparr>R_FLG := CONDITIONAL_SET_FLAG (srcval = 0) F_ZF (R_FLG M)\<rparr>;
       Some (w_set W dstreg (word_of_nat (scan srcval)) M)
     }"

definition x86emuOp2_bsf :: "x86 \<Rightarrow> x86 option" where
  "x86emuOp2_bsf = modrm (by_data_size_rm (bit_scan LONG (scan_up 32 0)) (bit_scan WORD (scan_up 16 0)))"

definition x86emuOp2_bsr :: "x86 \<Rightarrow> x86 option" where
  "x86emuOp2_bsr = modrm (by_data_size_rm (bit_scan LONG (scan_down 31)) (bit_scan WORD (scan_down 15)))"

section \<open>Double shifts and multiplication\<close>

definition shift2_RM :: "('w, 'r) width \<Rightarrow> (x86 \<Rightarrow> (u8 \<times> x86) option) \<Rightarrow> ('w \<Rightarrow> 'w \<Rightarrow> u8 \<Rightarrow> u32 \<Rightarrow> ('w \<times> u32) option) \<Rightarrow>
    nat \<Rightarrow> nat \<Rightarrow> nat \<Rightarrow> x86 \<Rightarrow> x86 option" where
  "shift2_RM W count f md rh rl M =
     update_rm W (\<lambda>M. do { (fill, M) \<leftarrow> reg_value W rh M; (amt, M) \<leftarrow> count M; Some ((fill, amt), M) })
       (\<lambda>(fill, amt) destval. shift (\<lambda>d (fill, amt). f d fill amt) destval (fill, amt)) md rl M"

definition x86emuOp2_shld_IMM :: "x86 \<Rightarrow> x86 option" where
  "x86emuOp2_shld_IMM = modrm (by_data_size_rm (shift2_RM LONG fetch_byte_imm shld_long) (shift2_RM WORD fetch_byte_imm shld_word))"

definition x86emuOp2_shld_CL :: "x86 \<Rightarrow> x86 option" where
  "x86emuOp2_shld_CL = modrm (by_data_size_rm (shift2_RM LONG count_CL shld_long) (shift2_RM WORD count_CL shld_word))"

definition x86emuOp2_shrd_IMM :: "x86 \<Rightarrow> x86 option" where
  "x86emuOp2_shrd_IMM = modrm (by_data_size_rm (shift2_RM LONG fetch_byte_imm shrd_long) (shift2_RM WORD fetch_byte_imm shrd_word))"

definition x86emuOp2_shrd_CL :: "x86 \<Rightarrow> x86 option" where
  "x86emuOp2_shrd_CL = modrm (by_data_size_rm (shift2_RM LONG count_CL shrd_long) (shift2_RM WORD count_CL shrd_word))"

definition x86emuOp2_imul_R_RM :: "x86 \<Rightarrow> x86 option" where
  "x86emuOp2_imul_R_RM = modrm (by_data_size_rm (op_R_RM LONG imul_long_into) (op_R_RM WORD imul_word_into))"

section \<open>Extending moves and byte swap\<close>

definition move_extended :: "('w, 'r) width \<Rightarrow> ('v, 's) width \<Rightarrow> ('v \<Rightarrow> 'w) \<Rightarrow> nat \<Rightarrow> nat \<Rightarrow> nat \<Rightarrow> x86 \<Rightarrow> x86 option" where
  "move_extended W V ext md rh rl M =
     do {
       (destreg, M) \<leftarrow> w_reg W rh M;
       (srcval, M) \<leftarrow> read_rm V md rl M;
       Some (w_set W destreg (ext srcval) M)
     }"

definition x86emuOp2_movzx_byte_R_RM :: "x86 \<Rightarrow> x86 option" where
  "x86emuOp2_movzx_byte_R_RM = modrm (by_data_size_rm (move_extended LONG BYTE ucast) (move_extended WORD BYTE ucast))"

definition x86emuOp2_movzx_word_R_RM :: "x86 \<Rightarrow> x86 option" where
  "x86emuOp2_movzx_word_R_RM = modrm (move_extended LONG WORD ucast)"

definition x86emuOp2_movsx_byte_R_RM :: "x86 \<Rightarrow> x86 option" where
  "x86emuOp2_movsx_byte_R_RM = modrm (by_data_size_rm (move_extended LONG BYTE scast) (move_extended WORD BYTE scast))"

definition x86emuOp2_movsx_word_R_RM :: "x86 \<Rightarrow> x86 option" where
  "x86emuOp2_movsx_word_R_RM = modrm (move_extended LONG WORD scast)"

definition bswap_32 :: "u32 \<Rightarrow> u32" where
  "bswap_32 x = drop_bit 24 (x AND 0xff000000) OR drop_bit 8 (x AND 0x00ff0000) OR
     push_bit 8 (x AND 0x0000ff00) OR push_bit 24 (x AND 0x000000ff)"

definition x86emuOp2_bswap :: "u8 \<Rightarrow> x86 \<Rightarrow> x86 option" where
  "x86emuOp2_bswap op2 = clearing (\<lambda>M. Some
     (if op2 = 0xc8 then M\<lparr>R_EAX := bswap_32 (R_EAX M)\<rparr>
      else if op2 = 0xc9 then M\<lparr>R_ECX := bswap_32 (R_ECX M)\<rparr>
      else if op2 = 0xca then M\<lparr>R_EDX := bswap_32 (R_EDX M)\<rparr>
      else if op2 = 0xcb then M\<lparr>R_EBX := bswap_32 (R_EBX M)\<rparr>
      else if op2 = 0xcc then M\<lparr>R_ESP := bswap_32 (R_ESP M)\<rparr>
      else if op2 = 0xcd then M\<lparr>R_EBP := bswap_32 (R_EBP M)\<rparr>
      else if op2 = 0xce then M\<lparr>R_ESI := bswap_32 (R_ESI M)\<rparr>
      else if op2 = 0xcf then M\<lparr>R_EDI := bswap_32 (R_EDI M)\<rparr>
      else M))"

end
