(* ===== verification/X86_Exec.thy ===== *)
theory X86_Exec
  imports X86_Ops_String X86_Ops2
begin

unbundle bit_operations_syntax

text \<open>
  The instruction tables of \<^verbatim>\<open>ops.c\<close> and \<^verbatim>\<open>ops2.c\<close>, the coprocessor escapes of \<^verbatim>\<open>fpu.c\<close> (which decode their operand and
  do nothing else, since no coprocessor is configured), the execution loop of \<^verbatim>\<open>decode.c\<close>, and the calls that the video
  driver makes into the emulator (\<^verbatim>\<open>VBE::x86emuExec\<close>). The environment of the emulator is the hardware behind the ports and
  the table of interrupt handlers the client may install. The loop returns when the machine is halted; as a partial
  function it has the value \<^term>\<open>None\<close> if it runs forever.
\<close>

record x86_env =
  e_hw :: hardware
  e_intrTab :: intrTab

section \<open>Coprocessor escapes\<close>

definition x86emuOp_esc_coprocess_d8 :: "x86 \<Rightarrow> x86 option" where
  "x86emuOp_esc_coprocess_d8 = clearing Some"

definition esc_coprocess :: "nat \<Rightarrow> nat \<Rightarrow> nat \<Rightarrow> x86 \<Rightarrow> x86 option" where
  "esc_coprocess md rh rl M =
     (if md < 3 then do { (destoffset, M) \<leftarrow> decode_rm_address md rl M; Some M } else Some M)"

definition x86emuOp_esc_coprocess_d9 :: "x86 \<Rightarrow> x86 option" where "x86emuOp_esc_coprocess_d9 = modrm esc_coprocess"
definition x86emuOp_esc_coprocess_da :: "x86 \<Rightarrow> x86 option" where "x86emuOp_esc_coprocess_da = modrm esc_coprocess"
definition x86emuOp_esc_coprocess_db :: "x86 \<Rightarrow> x86 option" where "x86emuOp_esc_coprocess_db = modrm esc_coprocess"
definition x86emuOp_esc_coprocess_dc :: "x86 \<Rightarrow> x86 option" where "x86emuOp_esc_coprocess_dc = modrm esc_coprocess"
definition x86emuOp_esc_coprocess_dd :: "x86 \<Rightarrow> x86 option" where "x86emuOp_esc_coprocess_dd = modrm esc_coprocess"
definition x86emuOp_esc_coprocess_de :: "x86 \<Rightarrow> x86 option" where "x86emuOp_esc_coprocess_de = modrm esc_coprocess"
definition x86emuOp_esc_coprocess_df :: "x86 \<Rightarrow> x86 option" where "x86emuOp_esc_coprocess_df = modrm esc_coprocess"

section \<open>Instruction tables\<close>

definition x86emuOp_illegal_op :: "x86 \<Rightarrow> x86 option" where
  "x86emuOp_illegal_op M = Some (X86EMU_halt_sys M)"

definition x86emu_optab2 :: "(u8 \<Rightarrow> x86 \<Rightarrow> x86 option) list" where
  "x86emu_optab2 = [
    \<lambda>op2. x86emuOp2_illegal_op, \<lambda>op2. x86emuOp2_illegal_op, \<lambda>op2. x86emuOp2_illegal_op, \<lambda>op2. x86emuOp2_illegal_op,
    \<lambda>op2. x86emuOp2_illegal_op, \<lambda>op2. x86emuOp2_illegal_op, \<lambda>op2. x86emuOp2_illegal_op, \<lambda>op2. x86emuOp2_illegal_op,
    \<lambda>op2. x86emuOp2_illegal_op, \<lambda>op2. x86emuOp2_illegal_op, \<lambda>op2. x86emuOp2_illegal_op, \<lambda>op2. x86emuOp2_illegal_op,
    \<lambda>op2. x86emuOp2_illegal_op, \<lambda>op2. x86emuOp2_illegal_op, \<lambda>op2. x86emuOp2_illegal_op, \<lambda>op2. x86emuOp2_illegal_op,
    \<lambda>op2. x86emuOp2_illegal_op, \<lambda>op2. x86emuOp2_illegal_op, \<lambda>op2. x86emuOp2_illegal_op, \<lambda>op2. x86emuOp2_illegal_op,
    \<lambda>op2. x86emuOp2_illegal_op, \<lambda>op2. x86emuOp2_illegal_op, \<lambda>op2. x86emuOp2_illegal_op, \<lambda>op2. x86emuOp2_illegal_op,
    \<lambda>op2. x86emuOp2_illegal_op, \<lambda>op2. x86emuOp2_illegal_op, \<lambda>op2. x86emuOp2_illegal_op, \<lambda>op2. x86emuOp2_illegal_op,
    \<lambda>op2. x86emuOp2_illegal_op, \<lambda>op2. x86emuOp2_illegal_op, \<lambda>op2. x86emuOp2_illegal_op, \<lambda>op2. x86emuOp2_illegal_op,
    \<lambda>op2. x86emuOp2_illegal_op, \<lambda>op2. x86emuOp2_illegal_op, \<lambda>op2. x86emuOp2_illegal_op, \<lambda>op2. x86emuOp2_illegal_op,
    \<lambda>op2. x86emuOp2_illegal_op, \<lambda>op2. x86emuOp2_illegal_op, \<lambda>op2. x86emuOp2_illegal_op, \<lambda>op2. x86emuOp2_illegal_op,
    \<lambda>op2. x86emuOp2_illegal_op, \<lambda>op2. x86emuOp2_illegal_op, \<lambda>op2. x86emuOp2_illegal_op, \<lambda>op2. x86emuOp2_illegal_op,
    \<lambda>op2. x86emuOp2_illegal_op, \<lambda>op2. x86emuOp2_illegal_op, \<lambda>op2. x86emuOp2_illegal_op, \<lambda>op2. x86emuOp2_illegal_op,
    \<lambda>op2. x86emuOp2_illegal_op, \<lambda>op2. x86emuOp2_rdtsc, \<lambda>op2. x86emuOp2_illegal_op, \<lambda>op2. x86emuOp2_illegal_op,
    \<lambda>op2. x86emuOp2_illegal_op, \<lambda>op2. x86emuOp2_illegal_op, \<lambda>op2. x86emuOp2_illegal_op, \<lambda>op2. x86emuOp2_illegal_op,
    \<lambda>op2. x86emuOp2_illegal_op, \<lambda>op2. x86emuOp2_illegal_op, \<lambda>op2. x86emuOp2_illegal_op, \<lambda>op2. x86emuOp2_illegal_op,
    \<lambda>op2. x86emuOp2_illegal_op, \<lambda>op2. x86emuOp2_illegal_op, \<lambda>op2. x86emuOp2_illegal_op, \<lambda>op2. x86emuOp2_illegal_op,
    \<lambda>op2. x86emuOp2_illegal_op, \<lambda>op2. x86emuOp2_illegal_op, \<lambda>op2. x86emuOp2_illegal_op, \<lambda>op2. x86emuOp2_illegal_op,
    \<lambda>op2. x86emuOp2_illegal_op, \<lambda>op2. x86emuOp2_illegal_op, \<lambda>op2. x86emuOp2_illegal_op, \<lambda>op2. x86emuOp2_illegal_op,
    \<lambda>op2. x86emuOp2_illegal_op, \<lambda>op2. x86emuOp2_illegal_op, \<lambda>op2. x86emuOp2_illegal_op, \<lambda>op2. x86emuOp2_illegal_op,
    \<lambda>op2. x86emuOp2_illegal_op, \<lambda>op2. x86emuOp2_illegal_op, \<lambda>op2. x86emuOp2_illegal_op, \<lambda>op2. x86emuOp2_illegal_op,
    \<lambda>op2. x86emuOp2_illegal_op, \<lambda>op2. x86emuOp2_illegal_op, \<lambda>op2. x86emuOp2_illegal_op, \<lambda>op2. x86emuOp2_illegal_op,
    \<lambda>op2. x86emuOp2_illegal_op, \<lambda>op2. x86emuOp2_illegal_op, \<lambda>op2. x86emuOp2_illegal_op, \<lambda>op2. x86emuOp2_illegal_op,
    \<lambda>op2. x86emuOp2_illegal_op, \<lambda>op2. x86emuOp2_illegal_op, \<lambda>op2. x86emuOp2_illegal_op, \<lambda>op2. x86emuOp2_illegal_op,
    \<lambda>op2. x86emuOp2_illegal_op, \<lambda>op2. x86emuOp2_illegal_op, \<lambda>op2. x86emuOp2_illegal_op, \<lambda>op2. x86emuOp2_illegal_op,
    \<lambda>op2. x86emuOp2_illegal_op, \<lambda>op2. x86emuOp2_illegal_op, \<lambda>op2. x86emuOp2_illegal_op, \<lambda>op2. x86emuOp2_illegal_op,
    \<lambda>op2. x86emuOp2_illegal_op, \<lambda>op2. x86emuOp2_illegal_op, \<lambda>op2. x86emuOp2_illegal_op, \<lambda>op2. x86emuOp2_illegal_op,
    \<lambda>op2. x86emuOp2_illegal_op, \<lambda>op2. x86emuOp2_illegal_op, \<lambda>op2. x86emuOp2_illegal_op, \<lambda>op2. x86emuOp2_illegal_op,
    \<lambda>op2. x86emuOp2_illegal_op, \<lambda>op2. x86emuOp2_illegal_op, \<lambda>op2. x86emuOp2_illegal_op, \<lambda>op2. x86emuOp2_illegal_op,
    \<lambda>op2. x86emuOp2_illegal_op, \<lambda>op2. x86emuOp2_illegal_op, \<lambda>op2. x86emuOp2_illegal_op, \<lambda>op2. x86emuOp2_illegal_op,
    \<lambda>op2. x86emuOp2_illegal_op, \<lambda>op2. x86emuOp2_illegal_op, \<lambda>op2. x86emuOp2_illegal_op, \<lambda>op2. x86emuOp2_illegal_op,
    \<lambda>op2. x86emuOp2_illegal_op, \<lambda>op2. x86emuOp2_illegal_op, \<lambda>op2. x86emuOp2_illegal_op, \<lambda>op2. x86emuOp2_illegal_op,
    \<lambda>op2. x86emuOp2_illegal_op, \<lambda>op2. x86emuOp2_illegal_op, \<lambda>op2. x86emuOp2_illegal_op, \<lambda>op2. x86emuOp2_illegal_op,
    x86emuOp2_long_jump, x86emuOp2_long_jump, x86emuOp2_long_jump, x86emuOp2_long_jump,
    x86emuOp2_long_jump, x86emuOp2_long_jump, x86emuOp2_long_jump, x86emuOp2_long_jump,
    x86emuOp2_long_jump, x86emuOp2_long_jump, x86emuOp2_long_jump, x86emuOp2_long_jump,
    x86emuOp2_long_jump, x86emuOp2_long_jump, x86emuOp2_long_jump, x86emuOp2_long_jump,
    x86emuOp2_set_byte, x86emuOp2_set_byte, x86emuOp2_set_byte, x86emuOp2_set_byte,
    x86emuOp2_set_byte, x86emuOp2_set_byte, x86emuOp2_set_byte, x86emuOp2_set_byte,
    x86emuOp2_set_byte, x86emuOp2_set_byte, x86emuOp2_set_byte, x86emuOp2_set_byte,
    x86emuOp2_set_byte, x86emuOp2_set_byte, x86emuOp2_set_byte, x86emuOp2_set_byte,
    \<lambda>op2. x86emuOp2_push_FS, \<lambda>op2. x86emuOp2_pop_FS, \<lambda>op2. x86emuOp2_cpuid, \<lambda>op2. x86emuOp2_bt_R,
    \<lambda>op2. x86emuOp2_shld_IMM, \<lambda>op2. x86emuOp2_shld_CL, \<lambda>op2. x86emuOp2_illegal_op, \<lambda>op2. x86emuOp2_illegal_op,
    \<lambda>op2. x86emuOp2_push_GS, \<lambda>op2. x86emuOp2_pop_GS, \<lambda>op2. x86emuOp2_illegal_op, \<lambda>op2. x86emuOp2_bts_R,
    \<lambda>op2. x86emuOp2_shrd_IMM, \<lambda>op2. x86emuOp2_shrd_CL, \<lambda>op2. x86emuOp2_illegal_op, \<lambda>op2. x86emuOp2_imul_R_RM,
    \<lambda>op2. x86emuOp2_illegal_op, \<lambda>op2. x86emuOp2_illegal_op, \<lambda>op2. x86emuOp2_lss_R_IMM, \<lambda>op2. x86emuOp2_btr_R,
    \<lambda>op2. x86emuOp2_lfs_R_IMM, \<lambda>op2. x86emuOp2_lgs_R_IMM, \<lambda>op2. x86emuOp2_movzx_byte_R_RM, \<lambda>op2. x86emuOp2_movzx_word_R_RM,
    \<lambda>op2. x86emuOp2_illegal_op, \<lambda>op2. x86emuOp2_illegal_op, \<lambda>op2. x86emuOp2_btX_I, \<lambda>op2. x86emuOp2_btc_R,
    \<lambda>op2. x86emuOp2_bsf, \<lambda>op2. x86emuOp2_bsr, \<lambda>op2. x86emuOp2_movsx_byte_R_RM, \<lambda>op2. x86emuOp2_movsx_word_R_RM,
    \<lambda>op2. x86emuOp2_illegal_op, \<lambda>op2. x86emuOp2_illegal_op, \<lambda>op2. x86emuOp2_illegal_op, \<lambda>op2. x86emuOp2_illegal_op,
    \<lambda>op2. x86emuOp2_illegal_op, \<lambda>op2. x86emuOp2_illegal_op, \<lambda>op2. x86emuOp2_illegal_op, \<lambda>op2. x86emuOp2_illegal_op,
    x86emuOp2_bswap, x86emuOp2_bswap, x86emuOp2_bswap, x86emuOp2_bswap,
    x86emuOp2_bswap, x86emuOp2_bswap, x86emuOp2_bswap, x86emuOp2_bswap,
    \<lambda>op2. x86emuOp2_illegal_op, \<lambda>op2. x86emuOp2_illegal_op, \<lambda>op2. x86emuOp2_illegal_op, \<lambda>op2. x86emuOp2_illegal_op,
    \<lambda>op2. x86emuOp2_illegal_op, \<lambda>op2. x86emuOp2_illegal_op, \<lambda>op2. x86emuOp2_illegal_op, \<lambda>op2. x86emuOp2_illegal_op,
    \<lambda>op2. x86emuOp2_illegal_op, \<lambda>op2. x86emuOp2_illegal_op, \<lambda>op2. x86emuOp2_illegal_op, \<lambda>op2. x86emuOp2_illegal_op,
    \<lambda>op2. x86emuOp2_illegal_op, \<lambda>op2. x86emuOp2_illegal_op, \<lambda>op2. x86emuOp2_illegal_op, \<lambda>op2. x86emuOp2_illegal_op,
    \<lambda>op2. x86emuOp2_illegal_op, \<lambda>op2. x86emuOp2_illegal_op, \<lambda>op2. x86emuOp2_illegal_op, \<lambda>op2. x86emuOp2_illegal_op,
    \<lambda>op2. x86emuOp2_illegal_op, \<lambda>op2. x86emuOp2_illegal_op, \<lambda>op2. x86emuOp2_illegal_op, \<lambda>op2. x86emuOp2_illegal_op,
    \<lambda>op2. x86emuOp2_illegal_op, \<lambda>op2. x86emuOp2_illegal_op, \<lambda>op2. x86emuOp2_illegal_op, \<lambda>op2. x86emuOp2_illegal_op,
    \<lambda>op2. x86emuOp2_illegal_op, \<lambda>op2. x86emuOp2_illegal_op, \<lambda>op2. x86emuOp2_illegal_op, \<lambda>op2. x86emuOp2_illegal_op,
    \<lambda>op2. x86emuOp2_illegal_op, \<lambda>op2. x86emuOp2_illegal_op, \<lambda>op2. x86emuOp2_illegal_op, \<lambda>op2. x86emuOp2_illegal_op,
    \<lambda>op2. x86emuOp2_illegal_op, \<lambda>op2. x86emuOp2_illegal_op, \<lambda>op2. x86emuOp2_illegal_op, \<lambda>op2. x86emuOp2_illegal_op,
    \<lambda>op2. x86emuOp2_illegal_op, \<lambda>op2. x86emuOp2_illegal_op, \<lambda>op2. x86emuOp2_illegal_op, \<lambda>op2. x86emuOp2_illegal_op,
    \<lambda>op2. x86emuOp2_illegal_op, \<lambda>op2. x86emuOp2_illegal_op, \<lambda>op2. x86emuOp2_illegal_op, \<lambda>op2. x86emuOp2_illegal_op]"

definition fetch_opcode :: "x86 \<Rightarrow> (u8 \<times> x86) option" where
  "fetch_opcode M =
     (let ip = R_IP M; M = set_IP (ip + 1) M in rdb (push_bit 4 (ucast (R_CS M)) + ucast ip) M)"

definition x86emuOp_two_byte :: "x86 \<Rightarrow> x86 option" where
  "x86emuOp_two_byte M = do { (op2, M) \<leftarrow> fetch_opcode M; (x86emu_optab2 ! unat op2) op2 M }"

definition x86emu_optab :: "(x86_env \<Rightarrow> u8 \<Rightarrow> x86 \<Rightarrow> x86 option) list" where
  "x86emu_optab = [
    \<lambda>E op1. x86emuOp_add_byte_RM_R, \<lambda>E op1. x86emuOp_add_word_RM_R, \<lambda>E op1. x86emuOp_add_byte_R_RM, \<lambda>E op1. x86emuOp_add_word_R_RM,
    \<lambda>E op1. x86emuOp_add_byte_AL_IMM, \<lambda>E op1. x86emuOp_add_word_AX_IMM, \<lambda>E op1. x86emuOp_push_ES, \<lambda>E op1. x86emuOp_pop_ES,
    \<lambda>E op1. x86emuOp_or_byte_RM_R, \<lambda>E op1. x86emuOp_or_word_RM_R, \<lambda>E op1. x86emuOp_or_byte_R_RM, \<lambda>E op1. x86emuOp_or_word_R_RM,
    \<lambda>E op1. x86emuOp_or_byte_AL_IMM, \<lambda>E op1. x86emuOp_or_word_AX_IMM, \<lambda>E op1. x86emuOp_push_CS, \<lambda>E op1. x86emuOp_two_byte,
    \<lambda>E op1. x86emuOp_adc_byte_RM_R, \<lambda>E op1. x86emuOp_adc_word_RM_R, \<lambda>E op1. x86emuOp_adc_byte_R_RM, \<lambda>E op1. x86emuOp_adc_word_R_RM,
    \<lambda>E op1. x86emuOp_adc_byte_AL_IMM, \<lambda>E op1. x86emuOp_adc_word_AX_IMM, \<lambda>E op1. x86emuOp_push_SS, \<lambda>E op1. x86emuOp_pop_SS,
    \<lambda>E op1. x86emuOp_sbb_byte_RM_R, \<lambda>E op1. x86emuOp_sbb_word_RM_R, \<lambda>E op1. x86emuOp_sbb_byte_R_RM, \<lambda>E op1. x86emuOp_sbb_word_R_RM,
    \<lambda>E op1. x86emuOp_sbb_byte_AL_IMM, \<lambda>E op1. x86emuOp_sbb_word_AX_IMM, \<lambda>E op1. x86emuOp_push_DS, \<lambda>E op1. x86emuOp_pop_DS,
    \<lambda>E op1. x86emuOp_and_byte_RM_R, \<lambda>E op1. x86emuOp_and_word_RM_R, \<lambda>E op1. x86emuOp_and_byte_R_RM, \<lambda>E op1. x86emuOp_and_word_R_RM,
    \<lambda>E op1. x86emuOp_and_byte_AL_IMM, \<lambda>E op1. x86emuOp_and_word_AX_IMM, \<lambda>E op1. x86emuOp_segovr_ES, \<lambda>E op1. x86emuOp_daa,
    \<lambda>E op1. x86emuOp_sub_byte_RM_R, \<lambda>E op1. x86emuOp_sub_word_RM_R, \<lambda>E op1. x86emuOp_sub_byte_R_RM, \<lambda>E op1. x86emuOp_sub_word_R_RM,
    \<lambda>E op1. x86emuOp_sub_byte_AL_IMM, \<lambda>E op1. x86emuOp_sub_word_AX_IMM, \<lambda>E op1. x86emuOp_segovr_CS, \<lambda>E op1. x86emuOp_das,
    \<lambda>E op1. x86emuOp_xor_byte_RM_R, \<lambda>E op1. x86emuOp_xor_word_RM_R, \<lambda>E op1. x86emuOp_xor_byte_R_RM, \<lambda>E op1. x86emuOp_xor_word_R_RM,
    \<lambda>E op1. x86emuOp_xor_byte_AL_IMM, \<lambda>E op1. x86emuOp_xor_word_AX_IMM, \<lambda>E op1. x86emuOp_segovr_SS, \<lambda>E op1. x86emuOp_aaa,
    \<lambda>E op1. x86emuOp_cmp_byte_RM_R, \<lambda>E op1. x86emuOp_cmp_word_RM_R, \<lambda>E op1. x86emuOp_cmp_byte_R_RM, \<lambda>E op1. x86emuOp_cmp_word_R_RM,
    \<lambda>E op1. x86emuOp_cmp_byte_AL_IMM, \<lambda>E op1. x86emuOp_cmp_word_AX_IMM, \<lambda>E op1. x86emuOp_segovr_DS, \<lambda>E op1. x86emuOp_aas,
    \<lambda>E op1. x86emuOp_inc_reg AX, \<lambda>E op1. x86emuOp_inc_reg CX, \<lambda>E op1. x86emuOp_inc_reg DX, \<lambda>E op1. x86emuOp_inc_reg BX,
    \<lambda>E op1. x86emuOp_inc_reg SP, \<lambda>E op1. x86emuOp_inc_reg BP, \<lambda>E op1. x86emuOp_inc_reg SI, \<lambda>E op1. x86emuOp_inc_reg DI,
    \<lambda>E op1. x86emuOp_dec_reg AX, \<lambda>E op1. x86emuOp_dec_reg CX, \<lambda>E op1. x86emuOp_dec_reg DX, \<lambda>E op1. x86emuOp_dec_reg BX,
    \<lambda>E op1. x86emuOp_dec_reg SP, \<lambda>E op1. x86emuOp_dec_reg BP, \<lambda>E op1. x86emuOp_dec_reg SI, \<lambda>E op1. x86emuOp_dec_reg DI,
    \<lambda>E op1. x86emuOp_push_reg AX, \<lambda>E op1. x86emuOp_push_reg CX, \<lambda>E op1. x86emuOp_push_reg DX, \<lambda>E op1. x86emuOp_push_reg BX,
    \<lambda>E op1. x86emuOp_push_reg SP, \<lambda>E op1. x86emuOp_push_reg BP, \<lambda>E op1. x86emuOp_push_reg SI, \<lambda>E op1. x86emuOp_push_reg DI,
    \<lambda>E op1. x86emuOp_pop_reg AX, \<lambda>E op1. x86emuOp_pop_reg CX, \<lambda>E op1. x86emuOp_pop_reg DX, \<lambda>E op1. x86emuOp_pop_reg BX,
    \<lambda>E op1. x86emuOp_pop_reg SP, \<lambda>E op1. x86emuOp_pop_reg BP, \<lambda>E op1. x86emuOp_pop_reg SI, \<lambda>E op1. x86emuOp_pop_reg DI,
    \<lambda>E op1. x86emuOp_push_all, \<lambda>E op1. x86emuOp_pop_all, \<lambda>E op1. x86emuOp_illegal_op, \<lambda>E op1. x86emuOp_illegal_op,
    \<lambda>E op1. x86emuOp_segovr_FS, \<lambda>E op1. x86emuOp_segovr_GS, \<lambda>E op1. x86emuOp_prefix_data, \<lambda>E op1. x86emuOp_prefix_addr,
    \<lambda>E op1. x86emuOp_push_word_IMM, \<lambda>E op1. x86emuOp_imul_word_IMM, \<lambda>E op1. x86emuOp_push_byte_IMM, \<lambda>E op1. x86emuOp_imul_byte_IMM,
    \<lambda>E op1. x86emuOp_ins_byte (e_hw E), \<lambda>E op1. x86emuOp_ins_word (e_hw E), \<lambda>E op1. x86emuOp_outs_byte, \<lambda>E op1. x86emuOp_outs_word,
    \<lambda>E op1. x86emuOp_jump_near_O, \<lambda>E op1. x86emuOp_jump_near_NO, \<lambda>E op1. x86emuOp_jump_near_B, \<lambda>E op1. x86emuOp_jump_near_NB,
    \<lambda>E op1. x86emuOp_jump_near_Z, \<lambda>E op1. x86emuOp_jump_near_NZ, \<lambda>E op1. x86emuOp_jump_near_BE, \<lambda>E op1. x86emuOp_jump_near_NBE,
    \<lambda>E op1. x86emuOp_jump_near_S, \<lambda>E op1. x86emuOp_jump_near_NS, \<lambda>E op1. x86emuOp_jump_near_P, \<lambda>E op1. x86emuOp_jump_near_NP,
    \<lambda>E op1. x86emuOp_jump_near_L, \<lambda>E op1. x86emuOp_jump_near_NL, \<lambda>E op1. x86emuOp_jump_near_LE, \<lambda>E op1. x86emuOp_jump_near_NLE,
    \<lambda>E op1. x86emuOp_opc80_byte_RM_IMM, \<lambda>E op1. x86emuOp_opc81_word_RM_IMM, \<lambda>E op1. x86emuOp_opc82_byte_RM_IMM, \<lambda>E op1. x86emuOp_opc83_word_RM_IMM,
    \<lambda>E op1. x86emuOp_test_byte_RM_R, \<lambda>E op1. x86emuOp_test_word_RM_R, \<lambda>E op1. x86emuOp_xchg_byte_RM_R, \<lambda>E op1. x86emuOp_xchg_word_RM_R,
    \<lambda>E op1. x86emuOp_mov_byte_RM_R, \<lambda>E op1. x86emuOp_mov_word_RM_R, \<lambda>E op1. x86emuOp_mov_byte_R_RM, \<lambda>E op1. x86emuOp_mov_word_R_RM,
    \<lambda>E op1. x86emuOp_mov_word_RM_SR, \<lambda>E op1. x86emuOp_lea_word_R_M, \<lambda>E op1. x86emuOp_mov_word_SR_RM, \<lambda>E op1. x86emuOp_pop_RM,
    \<lambda>E op1. x86emuOp_nop, \<lambda>E op1. x86emuOp_xchg_word_AX_reg CX, \<lambda>E op1. x86emuOp_xchg_word_AX_reg DX, \<lambda>E op1. x86emuOp_xchg_word_AX_reg BX,
    \<lambda>E op1. x86emuOp_xchg_word_AX_reg SP, \<lambda>E op1. x86emuOp_xchg_word_AX_reg BP, \<lambda>E op1. x86emuOp_xchg_word_AX_reg SI, \<lambda>E op1. x86emuOp_xchg_word_AX_reg DI,
    \<lambda>E op1. x86emuOp_cbw, \<lambda>E op1. x86emuOp_cwd, \<lambda>E op1. x86emuOp_call_far_IMM, \<lambda>E op1. x86emuOp_wait,
    \<lambda>E op1. x86emuOp_pushf_word, \<lambda>E op1. x86emuOp_popf_word, \<lambda>E op1. x86emuOp_sahf, \<lambda>E op1. x86emuOp_lahf,
    \<lambda>E op1. x86emuOp_mov_AL_M_IMM, \<lambda>E op1. x86emuOp_mov_AX_M_IMM, \<lambda>E op1. x86emuOp_mov_M_AL_IMM, \<lambda>E op1. x86emuOp_mov_M_AX_IMM,
    \<lambda>E op1. x86emuOp_movs_byte, \<lambda>E op1. x86emuOp_movs_word, \<lambda>E op1. x86emuOp_cmps_byte, \<lambda>E op1. x86emuOp_cmps_word,
    \<lambda>E op1. x86emuOp_test_AL_IMM, \<lambda>E op1. x86emuOp_test_AX_IMM, \<lambda>E op1. x86emuOp_stos_byte, \<lambda>E op1. x86emuOp_stos_word,
    \<lambda>E op1. x86emuOp_lods_byte, \<lambda>E op1. x86emuOp_lods_word, \<lambda>E op1. x86emuOp_scas_byte, \<lambda>E op1. x86emuOp_scas_word,
    \<lambda>E op1. x86emuOp_mov_byte_reg_IMM AL, \<lambda>E op1. x86emuOp_mov_byte_reg_IMM CL, \<lambda>E op1. x86emuOp_mov_byte_reg_IMM DL, \<lambda>E op1. x86emuOp_mov_byte_reg_IMM BL,
    \<lambda>E op1. x86emuOp_mov_byte_reg_IMM AH, \<lambda>E op1. x86emuOp_mov_byte_reg_IMM CH, \<lambda>E op1. x86emuOp_mov_byte_reg_IMM DH, \<lambda>E op1. x86emuOp_mov_byte_reg_IMM BH,
    \<lambda>E op1. x86emuOp_mov_word_reg_IMM AX, \<lambda>E op1. x86emuOp_mov_word_reg_IMM CX, \<lambda>E op1. x86emuOp_mov_word_reg_IMM DX, \<lambda>E op1. x86emuOp_mov_word_reg_IMM BX,
    \<lambda>E op1. x86emuOp_mov_word_reg_IMM SP, \<lambda>E op1. x86emuOp_mov_word_reg_IMM BP, \<lambda>E op1. x86emuOp_mov_word_reg_IMM SI, \<lambda>E op1. x86emuOp_mov_word_reg_IMM DI,
    \<lambda>E op1. x86emuOp_opcC0_byte_RM_MEM, \<lambda>E op1. x86emuOp_opcC1_word_RM_MEM, \<lambda>E op1. x86emuOp_ret_near_IMM, \<lambda>E op1. x86emuOp_ret_near,
    \<lambda>E op1. x86emuOp_les_R_IMM, \<lambda>E op1. x86emuOp_lds_R_IMM, \<lambda>E op1. x86emuOp_mov_byte_RM_IMM, \<lambda>E op1. x86emuOp_mov_word_RM_IMM,
    \<lambda>E op1. x86emuOp_enter, \<lambda>E op1. x86emuOp_leave, \<lambda>E op1. x86emuOp_ret_far_IMM, \<lambda>E op1. x86emuOp_ret_far,
    \<lambda>E op1. x86emuOp_int3 (e_intrTab E), \<lambda>E op1. x86emuOp_int_IMM (e_intrTab E), \<lambda>E op1. x86emuOp_into (e_intrTab E), \<lambda>E op1. x86emuOp_iret,
    \<lambda>E op1. x86emuOp_opcD0_byte_RM_1, \<lambda>E op1. x86emuOp_opcD1_word_RM_1, \<lambda>E op1. x86emuOp_opcD2_byte_RM_CL, \<lambda>E op1. x86emuOp_opcD3_word_RM_CL,
    \<lambda>E op1. x86emuOp_aam, \<lambda>E op1. x86emuOp_aad, \<lambda>E op1. x86emuOp_illegal_op, \<lambda>E op1. x86emuOp_xlat,
    \<lambda>E op1. x86emuOp_esc_coprocess_d8, \<lambda>E op1. x86emuOp_esc_coprocess_d9, \<lambda>E op1. x86emuOp_esc_coprocess_da, \<lambda>E op1. x86emuOp_esc_coprocess_db,
    \<lambda>E op1. x86emuOp_esc_coprocess_dc, \<lambda>E op1. x86emuOp_esc_coprocess_dd, \<lambda>E op1. x86emuOp_esc_coprocess_de, \<lambda>E op1. x86emuOp_esc_coprocess_df,
    \<lambda>E op1. x86emuOp_loopne, \<lambda>E op1. x86emuOp_loope, \<lambda>E op1. x86emuOp_loop, \<lambda>E op1. x86emuOp_jcxz,
    \<lambda>E op1. x86emuOp_in_byte_AL_IMM (e_hw E), \<lambda>E op1. x86emuOp_in_word_AX_IMM (e_hw E), \<lambda>E op1. x86emuOp_out_byte_IMM_AL, \<lambda>E op1. x86emuOp_out_word_IMM_AX,
    \<lambda>E op1. x86emuOp_call_near_IMM, \<lambda>E op1. x86emuOp_jump_near_IMM, \<lambda>E op1. x86emuOp_jump_far_IMM, \<lambda>E op1. x86emuOp_jump_byte_IMM,
    \<lambda>E op1. x86emuOp_in_byte_AL_DX (e_hw E), \<lambda>E op1. x86emuOp_in_word_AX_DX (e_hw E), \<lambda>E op1. x86emuOp_out_byte_DX_AL, \<lambda>E op1. x86emuOp_out_word_DX_AX,
    \<lambda>E op1. x86emuOp_lock, \<lambda>E op1. x86emuOp_illegal_op, \<lambda>E op1. x86emuOp_repne, \<lambda>E op1. x86emuOp_repe,
    \<lambda>E op1. x86emuOp_halt, \<lambda>E op1. x86emuOp_cmc, \<lambda>E op1. x86emuOp_opcF6_byte_RM, \<lambda>E op1. x86emuOp_opcF7_word_RM,
    \<lambda>E op1. x86emuOp_clc, \<lambda>E op1. x86emuOp_stc, \<lambda>E op1. x86emuOp_cli, \<lambda>E op1. x86emuOp_sti,
    \<lambda>E op1. x86emuOp_cld, \<lambda>E op1. x86emuOp_std, \<lambda>E op1. x86emuOp_opcFE_byte_RM, \<lambda>E op1. x86emuOp_opcFF_word_RM]"

section \<open>Execution\<close>

definition X86EMU_step :: "x86_env \<Rightarrow> x86 \<Rightarrow> x86 option" where
  "X86EMU_step E M =
     do {
       M \<leftarrow> (if x_intr M \<noteq> 0 \<and> (x_intr M AND INTR_SYNCH \<noteq> 0 \<and> (x_intno M = 0 \<or> x_intno M = 2) \<or> ACCESS_FLAG F_IF (R_FLG M) = 0)
            then x86emu_intr_handle (e_intrTab E) M else Some M);
       (op1, M) \<leftarrow> fetch_opcode M;
       (x86emu_optab ! unat op1) E op1 M
     }"

partial_function (option) X86EMU_loop :: "x86_env \<Rightarrow> x86 \<Rightarrow> x86 option" where
  "X86EMU_loop E M =
     (if x_intr M \<noteq> 0 \<and> x_intr M AND INTR_HALTED \<noteq> 0 then Some M
      else do { M \<leftarrow> X86EMU_step E M; X86EMU_loop E M })"

declare X86EMU_loop.simps [code]

definition X86EMU_exec :: "x86_env \<Rightarrow> x86 \<Rightarrow> x86 option" where
  "X86EMU_exec E M = X86EMU_loop E (M\<lparr>x_intr := 0\<rparr>)"

section \<open>Calls of the video driver\<close>

definition ADDR_OFF :: "u32 \<Rightarrow> u16" where "ADDR_OFF addr = ucast (addr AND 0xFFFF)"
definition ADDR_SEG :: "u32 \<Rightarrow> u16" where "ADDR_SEG addr = ucast (drop_bit 4 (addr AND 0xF0000))"
definition VBE_ENTRY :: u32 where "VBE_ENTRY = 0x7000"
definition VBE_DATA :: u32 where "VBE_DATA = 0x4000"
definition VBE_STACK :: u32 where "VBE_STACK = 0x7DF8"

text \<open>The part of \<^verbatim>\<open>VBE::init\<close> that sets up the emulator: the size of the memory and the startup code, an
  \<open>int 10h\<close> followed by \<open>hlt\<close>.\<close>

definition VBE_init :: "x86 \<Rightarrow> x86" where
  "VBE_init M = M\<lparr>mem_size := push_bit 20 1,
     x_mem := (x_mem M)(VBE_ENTRY := 0xcd, VBE_ENTRY + 1 := 0x10, VBE_ENTRY + 2 := 0xf4, VBE_ENTRY + 3 := 0)\<rparr>"

definition VBE_setup :: "u16 \<Rightarrow> u16 \<Rightarrow> u16 \<Rightarrow> u16 \<Rightarrow> u16 \<Rightarrow> x86 \<Rightarrow> x86" where
  "VBE_setup eax ebx ecx edi es M =
     (let M = M\<lparr>R_EAX := ucast eax, R_EBX := ucast ebx, R_ECX := ucast ecx, R_EDI := ucast edi\<rparr>;
          M = set_IP (ADDR_OFF VBE_ENTRY) M;
          M = M\<lparr>R_CS := ADDR_SEG VBE_ENTRY, R_DS := ADDR_SEG VBE_DATA, R_ES := es\<rparr>;
          M = set_reg16 SP (ADDR_OFF VBE_STACK) M
      in M\<lparr>R_SS := ADDR_SEG VBE_STACK\<rparr>)"

definition VBE_x86emuExec :: "x86_env \<Rightarrow> u16 \<Rightarrow> u16 \<Rightarrow> u16 \<Rightarrow> u16 \<Rightarrow> u16 \<Rightarrow> x86 \<Rightarrow> (u16 \<times> x86) option" where
  "VBE_x86emuExec E eax ebx ecx edi es M =
     do { M \<leftarrow> X86EMU_exec E (VBE_setup eax ebx ecx edi es M); Some (R_AX M, M) }"

end
