(* ===== verification/X86_Frame.thy ===== *)
theory X86_Frame
  imports X86_Exec
begin

unbundle bit_operations_syntax

text \<open>
  What no instruction of the emulator can do. The relation \<open>frame\<close> between the states before and after holds for every
  primitive of the machine, for the operand forms of theory \<open>X86_Operand\<close>, and so for every handler of the two instruction
  tables, for a step and for a whole run: the size of the emulated memory stays, nothing outside of it is
  written, the accesses that reach the hardware are among those the driver admits (theory \<open>PCIBus\<close>), and the state stays well
  formed (\<open>x86_wf\<close>): the mode word holds only the bits of the prefixes, the interrupt word only its two flags, and the
  PCI address only a register number. The rules are collected in \<open>frame_rules\<close>, one per construct of the
  model, so that a handler is checked by applying them along its definition. The rules for the operand forms are proved once
  for all widths, in the locale \<open>framed_width\<close>.
\<close>

named_theorems frame_rules

definition MODE_BITS :: u32 where
  "MODE_BITS = SYSMODE_CLRMASK OR SYSMODE_PREFIX_REPE OR SYSMODE_PREFIX_REPNE"

definition within :: "u32 \<Rightarrow> u32 \<Rightarrow> bool" where
  "within m x \<longleftrightarrow> x AND NOT m = 0"

definition x86_wf :: "x86 \<Rightarrow> bool" where
  "x86_wf M \<longleftrightarrow> within MODE_BITS (x_mode M) \<and> within (INTR_SYNCH OR INTR_HALTED) (x_intr M) \<and> within 0xFC (pci_addr (x_pio M))"

definition pio_frame :: "pio \<Rightarrow> pio \<Rightarrow> bool" where
  "pio_frame p p' \<longleftrightarrow> pci_dev p' = pci_dev p \<and> (\<exists>es. io_log p' = io_log p @ es \<and> list_all harmless es)
     \<and> (within 0xFC (pci_addr p) \<longrightarrow> within 0xFC (pci_addr p'))"

definition frame :: "x86 \<Rightarrow> x86 \<Rightarrow> bool" where
  "frame M M' \<longleftrightarrow> mem_size M' = mem_size M
     \<and> (\<forall>a. unat (mem_size M) \<le> unat a \<longrightarrow> x_mem M' a = x_mem M a)
     \<and> pio_frame (x_pio M) (x_pio M')
     \<and> (x86_wf M \<longrightarrow> x86_wf M')"

definition okS :: "x86 \<Rightarrow> x86 option \<Rightarrow> bool" where
  "okS M x \<longleftrightarrow> (\<forall>M'. x = Some M' \<longrightarrow> frame M M')"

definition okV :: "x86 \<Rightarrow> ('a \<times> x86) option \<Rightarrow> bool" where
  "okV M x \<longleftrightarrow> (\<forall>v M'. x = Some (v, M') \<longrightarrow> frame M M')"

definition keeps :: "(x86 \<Rightarrow> x86 option) \<Rightarrow> bool" where
  "keeps h \<longleftrightarrow> (\<forall>M0 M. frame M0 M \<longrightarrow> okS M0 (h M))"

definition keepsV :: "(x86 \<Rightarrow> ('a \<times> x86) option) \<Rightarrow> bool" where
  "keepsV h \<longleftrightarrow> (\<forall>M0 M. frame M0 M \<longrightarrow> okV M0 (h M))"

section \<open>Structure\<close>

lemma pio_frame_trans: "pio_frame p p1 \<Longrightarrow> pio_frame p1 p2 \<Longrightarrow> pio_frame p p2"
  by (fastforce simp: pio_frame_def)

lemma frame_refl: "frame M M"
  by (simp add: frame_def pio_frame_def)

lemma frame_trans: "frame M M1 \<Longrightarrow> frame M1 M2 \<Longrightarrow> frame M M2"
  using pio_frame_trans by (fastforce simp: frame_def)

lemma okS_simps [frame_rules]: "okS M None" "frame M M' \<Longrightarrow> okS M (Some M')"
  by (simp_all add: okS_def)

lemma okV_simps [frame_rules]: "okV M None" "frame M M' \<Longrightarrow> okV M (Some (v, M'))"
  by (simp_all add: okV_def)

lemma ok_bindV [frame_rules]:
  "okV M x \<Longrightarrow> (\<And>v M'. frame M M' \<Longrightarrow> okS M (g v M')) \<Longrightarrow> okS M (Option.bind x (\<lambda>(v, M'). g v M'))"
  "okV M x \<Longrightarrow> (\<And>v M'. frame M M' \<Longrightarrow> okV M (h v M')) \<Longrightarrow> okV M (Option.bind x (\<lambda>(v, M'). h v M'))"
  by (cases x; auto simp: okS_def okV_def)+

lemma ok_bindS [frame_rules]:
  "okS M x \<Longrightarrow> (\<And>M'. frame M M' \<Longrightarrow> okS M (g M')) \<Longrightarrow> okS M (Option.bind x g)"
  "okS M x \<Longrightarrow> (\<And>M'. frame M M' \<Longrightarrow> okV M (h M')) \<Longrightarrow> okV M (Option.bind x h)"
  by (cases x; auto simp: okS_def okV_def)+

lemma ok_bind_pure:
  "(\<And>v. okS M (g v)) \<Longrightarrow> okS M (Option.bind x g)" "(\<And>v. okV M (h v)) \<Longrightarrow> okV M (Option.bind x h)"
  by (cases x; auto simp: okS_def okV_def)+

lemma ok_if [frame_rules]:
  "(b \<Longrightarrow> okS M x) \<Longrightarrow> (\<not> b \<Longrightarrow> okS M y) \<Longrightarrow> okS M (if b then x else y)"
  "(b \<Longrightarrow> okV M z) \<Longrightarrow> (\<not> b \<Longrightarrow> okV M w) \<Longrightarrow> okV M (if b then z else w)"
  "(b \<Longrightarrow> frame M M1) \<Longrightarrow> (\<not> b \<Longrightarrow> frame M M2) \<Longrightarrow> frame M (if b then M1 else M2)"
  by simp_all

lemma ok_case_option [frame_rules]:
  "okS M x \<Longrightarrow> (\<And>v. okS M (g v)) \<Longrightarrow> okS M (case r of None \<Rightarrow> x | Some v \<Rightarrow> g v)"
  "frame M M1 \<Longrightarrow> (\<And>v. frame M (f v)) \<Longrightarrow> frame M (case r of None \<Rightarrow> M1 | Some v \<Rightarrow> f v)"
  by (simp_all split: option.split)

lemma keepsD: "keeps h \<Longrightarrow> frame M0 M \<Longrightarrow> okS M0 (h M)" "keepsV k \<Longrightarrow> frame M0 M \<Longrightarrow> okV M0 (k M)"
  by (simp_all add: keeps_def keepsV_def)

lemma keepsI [frame_rules]: "(\<And>M0 M. frame M0 M \<Longrightarrow> okS M0 (h M)) \<Longrightarrow> keeps h" "(\<And>M0 M. frame M0 M \<Longrightarrow> okV M0 (k M)) \<Longrightarrow> keepsV k"
  by (simp_all add: keeps_def keepsV_def)

lemma okS_trans: "okS M x \<Longrightarrow> frame M0 M \<Longrightarrow> okS M0 x" "okV M y \<Longrightarrow> frame M0 M \<Longrightarrow> okV M0 y"
  using frame_trans by (auto simp: okS_def okV_def)

section \<open>Registers, flags and mode\<close>

lemma frame_upd [frame_rules]:
  assumes "frame M0 M"
  shows "frame M0 (M\<lparr>R_EAX := a\<rparr>)" "frame M0 (M\<lparr>R_EBX := a\<rparr>)" "frame M0 (M\<lparr>R_ECX := a\<rparr>)" "frame M0 (M\<lparr>R_EDX := a\<rparr>)"
    "frame M0 (M\<lparr>R_ESP := a\<rparr>)" "frame M0 (M\<lparr>R_EBP := a\<rparr>)" "frame M0 (M\<lparr>R_ESI := a\<rparr>)" "frame M0 (M\<lparr>R_EDI := a\<rparr>)"
    "frame M0 (M\<lparr>R_EIP := a\<rparr>)" "frame M0 (M\<lparr>R_FLG := a\<rparr>)" "frame M0 (M\<lparr>R_CS := w\<rparr>)" "frame M0 (M\<lparr>R_DS := w\<rparr>)"
    "frame M0 (M\<lparr>R_SS := w\<rparr>)" "frame M0 (M\<lparr>R_ES := w\<rparr>)" "frame M0 (M\<lparr>R_FS := w\<rparr>)" "frame M0 (M\<lparr>R_GS := w\<rparr>)"
    "frame M0 (M\<lparr>x_tsc := a\<rparr>)" "frame M0 (M\<lparr>x_intno := n\<rparr>)"
  using assms by (simp_all add: frame_def x86_wf_def)

lemma frame_regs [frame_rules]:
  assumes "frame M0 M"
  shows "frame M0 (upd_reg32 r f M)" "frame M0 (set_reg32 r v M)" "frame M0 (set_reg16 r16 v16 M)" "frame M0 (set_reg8 r8 v8 M)"
    "frame M0 (set_segreg s v16 M)" "frame M0 (X86_Ops_Flow.set_IP v16 M)"
proof -
  show u: "frame M0 (upd_reg32 r f M)" for r f using assms by (cases r) (simp_all add: frame_upd)
  then show "frame M0 (set_reg32 r v M)" "frame M0 (set_reg16 r16 v16 M)" "frame M0 (set_reg8 r8 v8 M)"
    by (simp_all add: set_reg32_def set_reg16_def set_reg8_def split: prod.split)
  show "frame M0 (set_segreg s v16 M)" using assms by (cases s) (simp_all add: frame_upd)
  show "frame M0 (X86_Ops_Flow.set_IP v16 M)" using assms by (simp add: frame_upd set_IP_def)
qed

lemma within_ops: "within m x \<Longrightarrow> within m y \<Longrightarrow> within m (x OR y)" "within m x \<Longrightarrow> within m (x AND z)" "within m 0"
proof -
  show "within m x \<Longrightarrow> within m y \<Longrightarrow> within m (x OR y)" by (simp add: within_def bit.conj_disj_distrib2)
  show "within m x \<Longrightarrow> within m (x AND z)" by (auto simp: within_def bit_eq_iff bit_simps)
qed (simp add: within_def)

lemma mode_bits [frame_rules]:
  "within MODE_BITS SYSMODE_SEG_DS_SS" "within MODE_BITS SYSMODE_SEGOVR_CS" "within MODE_BITS SYSMODE_SEGOVR_DS"
  "within MODE_BITS SYSMODE_SEGOVR_ES" "within MODE_BITS SYSMODE_SEGOVR_FS" "within MODE_BITS SYSMODE_SEGOVR_GS"
  "within MODE_BITS SYSMODE_SEGOVR_SS" "within MODE_BITS SYSMODE_PREFIX_REPE" "within MODE_BITS SYSMODE_PREFIX_REPNE"
  "within MODE_BITS SYSMODE_PREFIX_DATA" "within MODE_BITS SYSMODE_PREFIX_ADDR" "within (INTR_SYNCH OR INTR_HALTED) INTR_HALTED"
  by code_simp+

lemma frame_mode [frame_rules]:
  "frame M0 M \<Longrightarrow> within MODE_BITS b \<Longrightarrow> frame M0 (M\<lparr>x_mode := x_mode M OR b\<rparr>)"
  "frame M0 M \<Longrightarrow> frame M0 (M\<lparr>x_mode := x_mode M AND b\<rparr>)"
  by (simp_all add: frame_def x86_wf_def within_ops)

lemma frame_mode_ops [frame_rules]:
  "frame M0 M \<Longrightarrow> frame M0 (DECODE_CLEAR_SEGOVR M)" "frame M0 M \<Longrightarrow> frame M0 (clear_mode b M)" "frame M0 M \<Longrightarrow> frame M0 (use_ss M)"
  "frame M0 M \<Longrightarrow> within MODE_BITS b \<Longrightarrow> okS M0 (set_mode b M)"
  by (simp_all add: DECODE_CLEAR_SEGOVR_def clear_mode_def use_ss_def set_mode_def frame_rules)

lemma frame_intr [frame_rules]:
  "frame M0 M \<Longrightarrow> frame M0 (X86EMU_halt_sys M)" "frame M0 M \<Longrightarrow> frame M0 (M\<lparr>x_intr := 0\<rparr>)"
  by (simp_all add: frame_def x86_wf_def X86EMU_halt_sys_def within_ops mode_bits)

section \<open>Memory\<close>

lemma bytes_in_less: "bytes_in n a N \<Longrightarrow> unat k < n \<Longrightarrow> unat (a + k) < unat (mem_size N)"
  using le_less_trans [OF mod_less_eq_dividend, of "unat a + unat k" "2 ^ 32"] by (simp add: bytes_in_def unat_word_ariths)

lemma frame_write:
  assumes "frame M0 N" "bytes_in n a N" "\<And>x. x \<notin> (\<lambda>k. a + k) ` {k. unat k < n} \<Longrightarrow> m x = x_mem N x"
  shows "frame M0 (N\<lparr>x_mem := m\<rparr>)"
proof -
  have "m x = x_mem N x" if "unat (mem_size N) \<le> unat x" for x
    using assms(3) [of x] bytes_in_less [OF assms(2)] that by fastforce
  then show ?thesis using assms(1) by (simp add: frame_def x86_wf_def)
qed

lemma frame_access [frame_rules]:
  assumes "frame M0 M"
  shows "okV M0 (rdb a M)" "okV M0 (rdw a M)" "okV M0 (rdl a M)"
    "okS M0 (wrb a b M)" "okS M0 (wrw a w M)" "okS M0 (wrl a l M)"
proof -
  have h: "frame M0 (if c then X86EMU_halt_sys M else M)" for c using assms by (simp add: frame_intr)
  show "okV M0 (rdb a M)" "okV M0 (rdw a M)" "okV M0 (rdl a M)"
    using h by (simp_all add: rdb_def rdw_def rdl_def Let_def okV_def)
  have i: "a + k \<in> (\<lambda>k. a + k) ` {k. unat k < n}" "a \<in> (\<lambda>k. a + k) ` {k. unat k < n}" if "unat k < n" for k n
    using that by (auto intro: image_eqI [where x = 0])
  show "okS M0 (wrb a b M)" unfolding wrb_def Let_def
    by (intro ok_if okS_simps frame_write [OF h, where n = 1 and a = a]) (use i [of 0 1] in auto)
  show "okS M0 (wrw a w M)" unfolding wrw_def Let_def
    by (intro ok_if okS_simps frame_write [OF h, where n = 2 and a = a]) (use i [of 1 2] in auto)
  show "okS M0 (wrl a l M)" unfolding wrl_def Let_def
    by (intro ok_if okS_simps frame_write [OF h, where n = 4 and a = a]) (use i [of 1 4] i [of 2 4] i [of 3 4] in auto)
qed

section \<open>Stack, fetch and decoding\<close>

lemma ok_case_prod [frame_rules]:
  "frame M (snd p) \<Longrightarrow> (\<And>a b. frame M b \<Longrightarrow> okS M (g a b)) \<Longrightarrow> okS M (case p of (a, b) \<Rightarrow> g a b)"
  "frame M (snd p) \<Longrightarrow> (\<And>a b. frame M b \<Longrightarrow> okV M (h a b)) \<Longrightarrow> okV M (case p of (a, b) \<Rightarrow> h a b)"
  by (cases p; simp)+

lemma frame_stack [frame_rules]:
  assumes "frame M0 M"
  shows "okS M0 (push_word w M)" "okS M0 (push_long l M)" "okV M0 (pop_word M)" "okV M0 (pop_long M)"
  unfolding push_word_def push_long_def pop_word_def pop_long_def Let_def by (intro frame_rules assms; assumption)+

lemma frame_fetch [frame_rules]:
  assumes "frame M0 M"
  shows "okV M0 (fetch_byte_imm M)" "okV M0 (fetch_word_imm M)" "okV M0 (fetch_long_imm M)" "okV M0 (fetch_decode_modrm M)"
    "okV M0 (fetch_opcode M)" "okV M0 (mem_access_word a M)"
  unfolding fetch_byte_imm_def fetch_word_imm_def fetch_long_imm_def fetch_decode_modrm_def fetch_opcode_def mem_access_word_def Let_def
  by (intro frame_rules assms; assumption)+

lemma frame_segment [frame_rules]: "frame M0 M \<Longrightarrow> frame M0 (snd (get_data_segment M))"
  by (simp add: get_data_segment_def Let_def frame_intr)

lemma frame_data [frame_rules]:
  assumes "frame M0 M"
  shows "okV M0 (fetch_data_byte a M)" "okV M0 (fetch_data_word a M)" "okV M0 (fetch_data_long a M)"
    "okV M0 (fetch_data_byte_abs s a M)" "okV M0 (fetch_data_word_abs s a M)" "okV M0 (fetch_data_long_abs s a M)"
    "okS M0 (store_data_byte a b M)" "okS M0 (store_data_word a w M)" "okS M0 (store_data_long a l M)"
    "okS M0 (store_data_byte_abs s a b M)" "okS M0 (store_data_word_abs s a w M)" "okS M0 (store_data_long_abs s a l M)"
  unfolding fetch_data_byte_def fetch_data_word_def fetch_data_long_def fetch_data_byte_abs_def fetch_data_word_abs_def
    fetch_data_long_abs_def store_data_byte_def store_data_word_def store_data_long_def store_data_byte_abs_def
    store_data_word_abs_def store_data_long_abs_def
  by (intro frame_rules assms; assumption)+

lemma frame_register [frame_rules]:
  assumes "frame M0 M"
  shows "okV M0 (deref (decode_rm_byte_register n M))" "okV M0 (deref (decode_rm_word_register n M))"
    "okV M0 (deref (decode_rm_long_register n M))" "okV M0 (deref (decode_rm_seg_register n M))"
  using assms by (auto simp: okV_def deref_def decode_rm_byte_register_def decode_rm_word_register_def
      decode_rm_long_register_def decode_rm_seg_register_def switch_reg_def split: if_splits)

lemma frame_sib [frame_rules]: "frame M0 M \<Longrightarrow> okV M0 (decode_sib_address sib md M)"
  unfolding decode_sib_address_def Let_def by (intro frame_rules; assumption)

lemma frame_address [frame_rules]:
  assumes "frame M0 M"
  shows "okV M0 (decode_rm00_address rm M)" "okV M0 (decode_rm01_address rm M)" "okV M0 (decode_rm10_address rm M)"
    "okV M0 (decode_rm_address md rm M)"
proof -
  show a: "okV M0 (decode_rm00_address rm M)" unfolding decode_rm00_address_def by (intro frame_rules assms; assumption)
  show b: "okV M0 (decode_rm01_address rm M)" unfolding decode_rm01_address_def by (intro frame_rules assms; assumption)
  show c: "okV M0 (decode_rm10_address rm M)" unfolding decode_rm10_address_def by (intro frame_rules assms; assumption)
  show "okV M0 (decode_rm_address md rm M)" unfolding decode_rm_address_def by (intro frame_rules a b c)
qed

section \<open>Operations\<close>

lemma frame_effects [frame_rules]:
  assumes "frame M0 M"
  shows "okV M0 (alu f a b M)" "okV M0 (alu1 g a M)" "okV M0 (compare f a b M)" "okV M0 (testing h a b M)" "okV M0 (shift k a b M)"
    "okV M0 (by_table op rh c d M)" "okV M0 (no_imm M)" "okV M0 (count_1 M)" "okV M0 (count_CL M)" "okV M0 (move c d M)"
    "okV M0 (test_bit_op bop i x M)"
  using assms frame_upd(10) [OF assms]
  by (auto simp: okV_def alu_def alu1_def compare_def testing_def shift_def by_table_def no_imm_def count_1_def count_CL_def
      move_def test_bit_op_def Let_def split: prod.splits bind_splits if_splits)

lemma frame_raise [frame_rules]: "frame M0 M \<Longrightarrow> frame M0 (x86emu_intr_raise n M)"
proof -
  have "within (INTR_SYNCH OR INTR_HALTED) INTR_SYNCH" by code_simp
  then show "frame M0 M \<Longrightarrow> frame M0 (x86emu_intr_raise n M)"
    by (simp add: frame_def x86_wf_def x86emu_intr_raise_def within_ops)
qed

lemma frame_muldiv_parts [frame_rules]:
  "frame M0 M \<Longrightarrow> frame M0 (mul_flags b M)" "frame M0 M \<Longrightarrow> frame M0 (div_done d m M)" "frame M0 M \<Longrightarrow> frame M0 (imul_flags b M)"
  unfolding mul_flags_def div_done_def imul_flags_def Let_def by (intro frame_rules; assumption)+

lemma frame_muldiv [frame_rules]:
  assumes "frame M0 M"
  shows "frame M0 (mul_byte s8 M)" "okS M0 (mul_word s16 M)" "frame M0 (mul_long s M)"
    "frame M0 (imul_byte s8 M)" "okS M0 (imul_word s16 M)" "frame M0 (imul_long s M)"
    "okS M0 (div_byte s8 M)" "okS M0 (div_word s16 M)" "okS M0 (div_long s M)"
    "frame M0 (idiv_byte s8 M)" "okS M0 (idiv_word s16 M)" "okS M0 (idiv_long s M)"
proof -
  show "frame M0 (imul_long s M)" by (cases "imul_long_direct (R_EAX M) s") (auto simp: imul_long_def Let_def intro!: frame_rules assms)
  show "okS M0 (div_long s M)" "okS M0 (idiv_long s M)"
    unfolding div_long_def idiv_long_def Let_def by (auto intro!: frame_rules ok_bind_pure assms)
qed (unfold mul_byte_def mul_word_def mul_long_def imul_byte_def imul_word_def div_byte_def div_word_def idiv_byte_def idiv_word_def
    Let_def, (intro frame_rules ok_bind_pure assms)+)

lemma frame_imul_into [frame_rules]:
  "frame M0 M \<Longrightarrow> okV M0 (imul_word_into a b M)" "frame M0 M \<Longrightarrow> okV M0 (imul_long_into c d M)"
  by (auto simp: imul_word_into_def imul_long_into_def Let_def split: prod.split intro!: frame_rules)

section \<open>Operand forms\<close>

locale framed_width =
  fixes W :: "('w, 'r) width"
  assumes frame_w_fetch: "frame M0 M \<Longrightarrow> okV M0 (w_fetch W a M)"
    and frame_w_store: "frame M0 M \<Longrightarrow> okS M0 (w_store W a v M)"
    and frame_w_imm: "frame M0 M \<Longrightarrow> okV M0 (w_imm W M)"
    and frame_w_reg: "frame M0 M \<Longrightarrow> okV M0 (w_reg W n M)"
    and frame_w_set: "frame M0 M \<Longrightarrow> frame M0 (w_set W r v M)"
begin

lemmas w_rules = frame_w_fetch frame_w_store frame_w_imm frame_w_reg frame_w_set frame_rules

lemma put_reg: "frame M0 M \<Longrightarrow> frame M0 (put_reg W r res M)"
  by (simp add: put_reg_def frame_w_set split: option.split)

lemma read_rm: "frame M0 M \<Longrightarrow> okV M0 (read_rm W md rl M)"
  unfolding read_rm_def by (intro w_rules; assumption)

lemma reg_value: "frame M0 M \<Longrightarrow> okV M0 (reg_value W n M)"
  unfolding reg_value_def by (intro w_rules; assumption)

lemma update_rm:
  assumes "frame M0 M" "keepsV imm" "\<And>i v. keepsV (f i v)"
  shows "okS M0 (update_rm W imm f md rl M)"
  unfolding update_rm_def by (intro w_rules put_reg keepsD(2) [OF assms(2)] keepsD(2) [OF assms(3)] assms(1); assumption)

lemma write_rm:
  assumes "frame M0 M" "keepsV src"
  shows "okS M0 (write_rm W src md rl M)"
  unfolding write_rm_def by (intro w_rules keepsD(2) [OF assms(2)] assms(1); assumption)

lemma op_RM_R:
  assumes "frame M0 M" "\<And>a b. keepsV (f a b)"
  shows "okS M0 (op_RM_R W f md rh rl M)"
  unfolding op_RM_R_def by (intro update_rm w_rules reg_value keepsD(2) [OF assms(2)] assms(1); assumption)

lemma op_R_RM:
  assumes "frame M0 M" "\<And>a b. keepsV (f a b)"
  shows "okS M0 (op_R_RM W f md rh rl M)"
  unfolding op_R_RM_def by (intro w_rules put_reg read_rm keepsD(2) [OF assms(2)] assms(1); assumption)

lemma op_A_IMM:
  assumes "frame M0 M" "\<And>a b. keepsV (f a b)"
  shows "okS M0 (op_A_IMM W f M)"
  unfolding op_A_IMM_def by (intro w_rules put_reg keepsD(2) [OF assms(2)] assms(1); assumption)

lemma op_reg:
  assumes "frame M0 M" "\<And>a. keepsV (f a)"
  shows "okS M0 (op_reg W f r M)"
  unfolding op_reg_def by (intro w_rules put_reg keepsD(2) [OF assms(2)] assms(1); assumption)

lemma op_RM_IMM:
  assumes "frame M0 M" "keepsV imm" "\<And>n a b. keepsV (f n a b)"
  shows "okS M0 (op_RM_IMM W imm f md rh rl M)"
  unfolding op_RM_IMM_def by (intro update_rm w_rules keepsD(2) [OF assms(2)] keepsD(2) [OF assms(3)] assms(1); assumption)

lemmas forms = put_reg read_rm reg_value update_rm write_rm op_RM_R op_R_RM op_A_IMM op_reg op_RM_IMM
  frame_w_fetch frame_w_store frame_w_imm frame_w_reg frame_w_set

end

interpretation byte_frame: framed_width BYTE
  by unfold_locales (simp_all add: BYTE_def frame_rules)

interpretation word_frame: framed_width WORD
  by unfold_locales (simp_all add: WORD_def frame_rules)

interpretation long_frame: framed_width LONG
  by unfold_locales (simp_all add: LONG_def frame_rules)

lemmas frame_forms [frame_rules] = byte_frame.forms word_frame.forms long_frame.forms

section \<open>Instruction forms\<close>

lemma frame_handler [frame_rules]:
  "keeps body \<Longrightarrow> frame M0 M \<Longrightarrow> okS M0 (clearing body M)"
  "(\<And>md rh rl. keeps (f md rh rl)) \<Longrightarrow> frame M0 M \<Longrightarrow> okS M0 (modrm f M)"
  "okS M0 (l M) \<Longrightarrow> okS M0 (w M) \<Longrightarrow> okS M0 (by_data_size l w M)"
  "okV M0 (l' M) \<Longrightarrow> okV M0 (w' M) \<Longrightarrow> okV M0 (by_data_size l' w' M)"
  "okS M0 (lr md rh rl M) \<Longrightarrow> okS M0 (wr md rh rl M) \<Longrightarrow> okS M0 (by_data_size_rm lr wr md rh rl M)"
  "(\<And>md rl. keeps (g md rl)) \<Longrightarrow> frame M0 M \<Longrightarrow> okS M0 (expect_0 g md rh rl M)"
proof -
  show "okS M0 (clearing body M)" if f: "keeps body" and M: "frame M0 M"
    unfolding clearing_def by (intro frame_rules keepsD(1) [OF f] M; assumption)
  show "okS M0 (modrm f M)" if f: "\<And>md rh rl. keeps (f md rh rl)" and M: "frame M0 M"
    unfolding modrm_def by (intro frame_rules M) (auto intro!: ok_bindS okS_simps frame_mode_ops keepsD(1) [OF f])
  show "okS M0 (expect_0 g md rh rl M)" if f: "\<And>md rl. keeps (g md rl)" and M: "frame M0 M"
    unfolding expect_0_def Let_def by (intro frame_rules keepsD(1) [OF f] M)
qed (simp_all add: by_data_size_def by_data_size_rm_def)

lemma frame_machine [frame_rules]:
  assumes "frame M0 M"
  shows "keeps (f a) \<Longrightarrow> okV M0 (machine f a M)" "keepsV g \<Longrightarrow> (\<And>a b. keepsV (h a b)) \<Longrightarrow> okV M0 (with_imm g h c d M)"
    "okV M0 (fetch_signed_byte_imm M)" "okS M0 (only_base_10 M)" "okV M0 (seg_value n M)"
proof -
  show "okV M0 (machine f a M)" if f: "keeps (f a)"
    unfolding machine_def by (intro frame_rules keepsD(1) [OF f] assms; assumption)
  show "okV M0 (with_imm g h c d M)" if g: "keepsV g" and h: "\<And>a b. keepsV (h a b)"
    unfolding with_imm_def by (intro frame_rules keepsD(2) [OF g] keepsD(2) [OF h] assms; assumption)
qed (unfold fetch_signed_byte_imm_def only_base_10_def seg_value_def, (intro frame_rules assms; assumption)+)

context framed_width
begin

lemma load_store:
  assumes "frame M0 M"
  shows "okS M0 (load_imm W r M)" "okS M0 (load_moffs W off M)" "okS M0 (store_moffs W off M)" "okS M0 (xchg_reg W r r' M)"
    "okS M0 (skip_rm W md rl M)" "okS M0 (lods_step W inc M)"
  unfolding load_imm_def load_moffs_def store_moffs_def xchg_reg_def skip_rm_def lods_step_def at_SI_def move_SI_def Let_def
  by (intro w_rules assms; assumption)+

lemma xchg_RM_R: "frame M0 M \<Longrightarrow> okS M0 (xchg_RM_R W md rh rl M)"
  unfolding xchg_RM_R_def Let_def by (intro update_rm w_rules; assumption)

lemma shift_RM: "frame M0 M \<Longrightarrow> keepsV count \<Longrightarrow> okS M0 (shift_RM W count op md rh rl M)"
  unfolding shift_RM_def by (rule update_rm) (auto intro: frame_rules)

lemma shift2_RM:
  assumes "frame M0 M" "keepsV count"
  shows "okS M0 (shift2_RM W count f md rh rl M)"
  unfolding shift2_RM_def by (rule update_rm) (auto intro!: frame_rules reg_value assms(1) keepsD(2) [OF assms(2)])

lemma inc_dec: "frame M0 M \<Longrightarrow> okS M0 (inc_dec W f g md rh rl M)"
  unfolding inc_dec_def by (intro update_rm w_rules; assumption)

lemma group3:
  assumes "frame M0 M" "\<And>s. keeps (mul s)" "\<And>s. keeps (imul s)" "\<And>s. keeps (dv s)" "\<And>s. keeps (idv s)"
  shows "okS M0 (group3 W t n g mul imul dv idv md rh rl M)"
  unfolding group3_def by (intro update_rm frame_machine w_rules assms; assumption)

end

lemmas frame_forms2 [frame_rules] =
  byte_frame.load_store byte_frame.xchg_RM_R byte_frame.shift_RM byte_frame.shift2_RM byte_frame.inc_dec byte_frame.group3
  word_frame.load_store word_frame.xchg_RM_R word_frame.shift_RM word_frame.shift2_RM word_frame.inc_dec word_frame.group3
  long_frame.load_store long_frame.xchg_RM_R long_frame.shift_RM long_frame.shift2_RM long_frame.inc_dec long_frame.group3

lemma frame_bits:
  assumes "framed_width W" "frame M0 M"
  shows "okS M0 (bt_R f W sh md rh rl M)" "okS M0 (btX W sh md rh rl M)" "okS M0 (bit_scan W scan md rh rl M)"
  unfolding bt_R_def btX_def bit_scan_def Let_def by (intro framed_width.forms [OF assms(1)] frame_rules assms(2); assumption)+

lemma frame_extended: "framed_width W \<Longrightarrow> framed_width V \<Longrightarrow> frame M0 M \<Longrightarrow> okS M0 (move_extended W V ext md rh rl M)"
  unfolding move_extended_def
  by (intro frame_rules framed_width.read_rm [of V] framed_width.frame_w_reg [of W] framed_width.frame_w_set [of W]; assumption)

lemmas frame_forms3 [frame_rules] =
  frame_bits [OF word_frame.framed_width_axioms] frame_bits [OF long_frame.framed_width_axioms]
  frame_extended [OF word_frame.framed_width_axioms byte_frame.framed_width_axioms]
  frame_extended [OF long_frame.framed_width_axioms byte_frame.framed_width_axioms]
  frame_extended [OF long_frame.framed_width_axioms word_frame.framed_width_axioms]

section \<open>Stack, control flow and ports\<close>

lemma frame_moves [frame_rules]:
  assumes "frame M0 M"
  shows "okS M0 (push_reg r M)" "okS M0 (pop_reg r M)" "okS M0 (pop_into_word r M)" "okS M0 (pop_into_long l M)"
    "okS M0 (push_seg s M)" "okS M0 (pop_seg s M)" "okS M0 (load_far s md rh rl M)" "okS M0 (pop_IP M)" "okS M0 (pop_CS M)"
  unfolding push_reg_def pop_reg_def pop_into_word_def pop_into_long_def push_seg_def pop_seg_def load_far_def pop_IP_def pop_CS_def Let_def
  by (intro frame_rules assms; assumption)+

lemma frame_pushes [frame_rules]:
  assumes "frame M0 M"
  shows "okS M0 (push_words ws M)" "okS M0 (push_longs ls M)"
proof -
  have "okS M0 (fold (\<lambda>w M. do { M \<leftarrow> M; push_word w M }) ws X)" if "okS M0 X" for X
    using that by (induction ws arbitrary: X) (simp_all add: ok_bindS frame_stack)
  moreover have "okS M0 (fold (\<lambda>w M. do { M \<leftarrow> M; push_long w M }) ls X)" if "okS M0 X" for X
    using that by (induction ls arbitrary: X) (simp_all add: ok_bindS frame_stack)
  ultimately show "okS M0 (push_words ws M)" "okS M0 (push_longs ls M)"
    using assms by (simp_all add: push_words_def push_longs_def okS_simps)
qed

lemma frame_levels [frame_rules]: "frame M0 M \<Longrightarrow> okS M0 (enter_levels n M)"
  by (induction n arbitrary: M) (auto simp: Let_def intro!: frame_rules)

lemma frame_jumps [frame_rules]:
  assumes "frame M0 M"
  shows "okS M0 (jump_if c M)" "okS M0 (loop_if c M)" "okS M0 (opcFF_mem rh a M)" "okS M0 (opcFF_reg rh rl M)"
    "okS M0 (esc_coprocess md rh rl M)"
  unfolding jump_if_def loop_if_def opcFF_mem_def opcFF_reg_def esc_coprocess_def Let_def
  by (intro frame_rules assms; assumption)+

text \<open>The handlers installed for interrupts are code of the client; what they change is a hypothesis.\<close>

definition hooks_keep :: "intrTab \<Rightarrow> bool" where
  "hooks_keep tab \<longleftrightarrow> (\<forall>n h. tab n = Some h \<longrightarrow> keeps h)"

lemma frame_interrupts [frame_rules]:
  assumes "frame M0 M" "hooks_keep tab"
  shows "okS M0 (soft_int tab n M)" "okS M0 (x86emu_intr_handle tab M)"
proof -
  have h: "okS M0 (h M)" if "tab n = Some h" for n h using that assms keepsD(1) by (simp add: hooks_keep_def)
  show "okS M0 (soft_int tab n M)"
    unfolding soft_int_def Let_def by (cases "tab n") (auto intro!: frame_rules assms(1) intro: h)
  show "okS M0 (x86emu_intr_handle tab M)"
    unfolding x86emu_intr_handle_def Let_def by (cases "tab (x_intno M)") (auto intro!: frame_rules assms(1) intro: h)
qed

lemma pio_read: "pio_frame p (snd (snd (PCIBus_read hw n port p)))"
  by (auto simp: PCIBus_read_def Let_def pio_frame_def config_regs_def)

lemma pio_in: "pio_frame p (snd (VBE_inx hw n port p))"
proof (cases "PCIBus_read hw n port p")
  case (fields dn v p')
  have "pio_frame p p'" using pio_read [of p hw n port] fields by simp
  moreover have "pio_frame p' (p'\<lparr>io_log := io_log p' @ [In n port w]\<rparr>)" if "\<not> dn" for w
    using PCIBus_read_harmless [OF fields] that by (auto simp: pio_frame_def)
  ultimately show ?thesis using pio_frame_trans by (auto simp: VBE_inx_def fields Let_def)
qed

lemma within_fc: "within 0xFC (v AND 0xFC)"
  by (rule bit_eqI [THEN within_def [THEN iffD2]]) (auto simp: bit_simps)

lemma pio_out: "pio_frame p (VBE_outx n port v p)"
  using within_fc by (auto simp: VBE_outx_def PCIBus_write_def Let_def pio_frame_def)

lemma pio_sys:
  "pio_frame p (snd (sys_inb hw port p))" "pio_frame p (snd (sys_inw hw port p))" "pio_frame p (snd (sys_inl hw port p))"
  "pio_frame p (sys_outb port b p)" "pio_frame p (sys_outw port w p)" "pio_frame p (sys_outl port l p)"
  by (simp_all add: sys_inb_def sys_inw_def sys_inl_def sys_outb_def sys_outw_def sys_outl_def pio_in pio_out)

lemma frame_pio:
  assumes "frame M0 M" "pio_frame (x_pio M) p"
  shows "frame M0 (M\<lparr>x_pio := p\<rparr>)"
  using assms pio_frame_trans [of "x_pio M0" "x_pio M" p] by (auto simp: frame_def x86_wf_def pio_frame_def [of "x_pio M" p])

lemma frame_ports [frame_rules]:
  assumes "frame M0 M"
  shows "frame M0 (snd (port_in (sys_inb hw) port M))" "frame M0 (snd (port_in (sys_inw hw) port M))"
    "frame M0 (snd (port_in (sys_inl hw) port M))"
    "frame M0 (port_out sys_outb port b M)" "frame M0 (port_out sys_outw port w M)" "frame M0 (port_out sys_outl port l M)"
  using assms pio_sys by (simp_all add: port_in_def port_out_def frame_pio split: prod.split) (metis frame_pio snd_conv)+

lemma frame_port_acc [frame_rules]:
  assumes "frame M0 M"
  shows "okS M0 (in_acc BYTE (sys_inb hw) port M)" "okS M0 (in_acc WORD (sys_inw hw) port M)" "okS M0 (in_acc LONG (sys_inl hw) port M)"
    "okS M0 (out_acc BYTE sys_outb port M)" "okS M0 (out_acc WORD sys_outw port M)" "okS M0 (out_acc LONG sys_outl port M)"
  unfolding in_acc_def out_acc_def by (intro frame_rules assms; assumption)+

section \<open>String instructions\<close>

lemma frame_index [frame_rules]:
  "frame M0 M \<Longrightarrow> frame M0 (dec_CX M)" "frame M0 M \<Longrightarrow> frame M0 (move_SI i M)" "frame M0 M \<Longrightarrow> frame M0 (move_DI i M)"
  "frame M0 M \<Longrightarrow> frame M0 (set_flags c a b M)" "frame M0 M \<Longrightarrow> frame M0 (snd (take_count M))"
  by (simp_all add: dec_CX_def move_SI_def move_DI_def set_flags_def take_count_def frame_rules)

lemma frame_repeat [frame_rules]: "keeps body \<Longrightarrow> frame M0 M \<Longrightarrow> okS M0 (repeat_n n body M)"
  by (induction n arbitrary: M) (auto intro!: frame_rules dest: keepsD)

lemma while_CX_frame:
  assumes "while_CX body stop M = Some M'" "keeps body"
  shows "frame M M'"
  using assms
proof (induction rule: while_CX.raw_induct [rotated, consumes 1, case_names step])
  case (step loop body stop M M')
  show ?case
  proof (cases "R_CX M = 0")
    case False
    then obtain N where N: "body M = Some N" "(if stop N then Some N else loop body stop N) = Some M'"
      using step(2) by (auto split: bind_splits)
    have "frame M N" using keepsD(1) [OF step(3) frame_refl, of M] N(1) by (simp add: okS_def)
    moreover have "frame N M'" using N(2) step(1) [OF _ step(3)] by (auto simp: frame_refl split: if_splits)
    ultimately show ?thesis by (rule frame_trans)
  qed (use step(2) frame_refl in simp)
qed

lemma frame_while [frame_rules]: "keeps body \<Longrightarrow> frame M0 M \<Longrightarrow> okS M0 (while_CX body stop M)"
  using while_CX_frame frame_trans unfolding okS_def by blast

lemma frame_rep [frame_rules]:
  assumes "frame M0 M" "keeps step"
  shows "okS M0 (rep_byte step M)" "okS M0 (rep_word step M)" "okS M0 (io_rep n step M)"
  unfolding rep_byte_def rep_word_def io_rep_def Let_def by (intro frame_rules keepsD(1) [OF assms(2)] assms; assumption)+

lemma frame_compare_rep [frame_rules]:
  assumes "frame M0 M" "keeps comparison" "\<And>M0 M. frame M0 M \<Longrightarrow> frame M0 (advance M)"
  shows "okS M0 (compare_rep comparison advance M)"
  unfolding compare_rep_def by (intro frame_rules keepsD(1) [OF assms(2)] assms(3) assms(1); assumption)

lemma frame_string [frame_rules]:
  assumes "frame M0 M"
  shows "okS M0 (movs n fetch_data_byte store_data_byte_abs M)" "okS M0 (movs n fetch_data_word store_data_word_abs M)"
    "okS M0 (movs n fetch_data_long store_data_long_abs M)"
    "okS M0 (cmps n fetch_data_byte fetch_data_byte_abs c8 M)" "okS M0 (cmps n fetch_data_word fetch_data_word_abs c16 M)"
    "okS M0 (cmps n fetch_data_long fetch_data_long_abs c32 M)"
    "okS M0 (scas n BYTE fetch_data_byte_abs c8 M)" "okS M0 (scas n WORD fetch_data_word_abs c16 M)"
    "okS M0 (scas n LONG fetch_data_long_abs c32 M)"
    "okS M0 (stos_step BYTE store_data_byte_abs i M)" "okS M0 (stos_step WORD store_data_word_abs i M)"
    "okS M0 (stos_step LONG store_data_long_abs i M)"
    "okS M0 (ins hw k M)" "okS M0 (outs k M)"
  unfolding movs_def movs_step_def cmps_def scas_def stos_step_def ins_def ins_step_def outs_def outs_step_def at_SI_def at_ES_DI_def Let_def
  by (intro frame_rules assms; assumption)+

section \<open>The instruction tables\<close>

lemmas arith_handlers =
  x86emuOp_add_byte_RM_R_def x86emuOp_add_word_RM_R_def x86emuOp_add_byte_R_RM_def x86emuOp_add_word_R_RM_def
  x86emuOp_add_byte_AL_IMM_def x86emuOp_add_word_AX_IMM_def x86emuOp_or_byte_RM_R_def x86emuOp_or_word_RM_R_def
  x86emuOp_or_byte_R_RM_def x86emuOp_or_word_R_RM_def x86emuOp_or_byte_AL_IMM_def x86emuOp_or_word_AX_IMM_def
  x86emuOp_adc_byte_RM_R_def x86emuOp_adc_word_RM_R_def x86emuOp_adc_byte_R_RM_def x86emuOp_adc_word_R_RM_def
  x86emuOp_adc_byte_AL_IMM_def x86emuOp_adc_word_AX_IMM_def x86emuOp_sbb_byte_RM_R_def x86emuOp_sbb_word_RM_R_def
  x86emuOp_sbb_byte_R_RM_def x86emuOp_sbb_word_R_RM_def x86emuOp_sbb_byte_AL_IMM_def x86emuOp_sbb_word_AX_IMM_def
  x86emuOp_and_byte_RM_R_def x86emuOp_and_word_RM_R_def x86emuOp_and_byte_R_RM_def x86emuOp_and_word_R_RM_def
  x86emuOp_and_byte_AL_IMM_def x86emuOp_and_word_AX_IMM_def x86emuOp_sub_byte_RM_R_def x86emuOp_sub_word_RM_R_def
  x86emuOp_sub_byte_R_RM_def x86emuOp_sub_word_R_RM_def x86emuOp_sub_byte_AL_IMM_def x86emuOp_sub_word_AX_IMM_def
  x86emuOp_xor_byte_RM_R_def x86emuOp_xor_word_RM_R_def x86emuOp_xor_byte_R_RM_def x86emuOp_xor_word_R_RM_def
  x86emuOp_xor_byte_AL_IMM_def x86emuOp_xor_word_AX_IMM_def x86emuOp_cmp_byte_RM_R_def x86emuOp_cmp_word_RM_R_def
  x86emuOp_cmp_byte_R_RM_def x86emuOp_cmp_word_R_RM_def x86emuOp_cmp_byte_AL_IMM_def x86emuOp_cmp_word_AX_IMM_def
  x86emuOp_test_byte_RM_R_def x86emuOp_test_word_RM_R_def x86emuOp_test_AL_IMM_def x86emuOp_test_AX_IMM_def
  x86emuOp_inc_reg_def x86emuOp_dec_reg_def x86emuOp_opc80_byte_RM_IMM_def x86emuOp_opc81_word_RM_IMM_def
  x86emuOp_opc82_byte_RM_IMM_def x86emuOp_opc83_word_RM_IMM_def x86emuOp_opcC0_byte_RM_MEM_def x86emuOp_opcC1_word_RM_MEM_def
  x86emuOp_opcD0_byte_RM_1_def x86emuOp_opcD1_word_RM_1_def x86emuOp_opcD2_byte_RM_CL_def x86emuOp_opcD3_word_RM_CL_def
  x86emuOp_opcF6_byte_RM_def x86emuOp_opcF7_word_RM_def x86emuOp_opcFE_byte_RM_def x86emuOp_imul_word_IMM_def
  x86emuOp_imul_byte_IMM_def x86emuOp_daa_def x86emuOp_das_def x86emuOp_aaa_def x86emuOp_aas_def x86emuOp_aam_def
  x86emuOp_aad_def

lemmas move_handlers =
  x86emuOp_mov_byte_RM_R_def x86emuOp_mov_word_RM_R_def x86emuOp_mov_byte_R_RM_def x86emuOp_mov_word_R_RM_def
  x86emuOp_mov_word_RM_SR_def x86emuOp_mov_word_SR_RM_def x86emuOp_mov_byte_RM_IMM_def x86emuOp_mov_word_RM_IMM_def
  x86emuOp_mov_byte_reg_IMM_def x86emuOp_mov_word_reg_IMM_def x86emuOp_mov_AL_M_IMM_def x86emuOp_mov_AX_M_IMM_def
  x86emuOp_mov_M_AL_IMM_def x86emuOp_mov_M_AX_IMM_def x86emuOp_xlat_def x86emuOp_xchg_byte_RM_R_def
  x86emuOp_xchg_word_RM_R_def x86emuOp_xchg_word_AX_reg_def x86emuOp_nop_def x86emuOp_wait_def x86emuOp_lea_word_R_M_def
  x86emuOp_les_R_IMM_def x86emuOp_lds_R_IMM_def x86emuOp_cbw_def x86emuOp_cwd_def x86emuOp_push_reg_def x86emuOp_pop_reg_def
  x86emuOp_push_ES_def x86emuOp_push_CS_def x86emuOp_push_SS_def x86emuOp_push_DS_def x86emuOp_pop_ES_def x86emuOp_pop_SS_def
  x86emuOp_pop_DS_def x86emuOp_push_word_IMM_def x86emuOp_push_byte_IMM_def x86emuOp_pop_RM_def x86emuOp_push_all_def
  x86emuOp_pop_all_def x86emuOp_enter_def x86emuOp_leave_def x86emuOp_pushf_word_def x86emuOp_popf_word_def x86emuOp_sahf_def
  x86emuOp_lahf_def x86emuOp_cmc_def x86emuOp_clc_def x86emuOp_stc_def x86emuOp_cli_def x86emuOp_sti_def x86emuOp_cld_def
  x86emuOp_std_def x86emuOp_halt_def x86emuOp_segovr_ES_def x86emuOp_segovr_CS_def x86emuOp_segovr_SS_def
  x86emuOp_segovr_DS_def x86emuOp_segovr_FS_def x86emuOp_segovr_GS_def x86emuOp_prefix_data_def x86emuOp_prefix_addr_def
  x86emuOp_lock_def x86emuOp_repne_def x86emuOp_repe_def x86emuOp_in_byte_AL_IMM_def x86emuOp_in_word_AX_IMM_def
  x86emuOp_out_byte_IMM_AL_def x86emuOp_out_word_IMM_AX_def x86emuOp_in_byte_AL_DX_def x86emuOp_in_word_AX_DX_def
  x86emuOp_out_byte_DX_AL_def x86emuOp_out_word_DX_AX_def

lemmas flow_handlers =
  x86emuOp_jump_near_O_def x86emuOp_jump_near_NO_def x86emuOp_jump_near_B_def x86emuOp_jump_near_NB_def
  x86emuOp_jump_near_Z_def x86emuOp_jump_near_NZ_def x86emuOp_jump_near_BE_def x86emuOp_jump_near_NBE_def
  x86emuOp_jump_near_S_def x86emuOp_jump_near_NS_def x86emuOp_jump_near_P_def x86emuOp_jump_near_NP_def
  x86emuOp_jump_near_L_def x86emuOp_jump_near_NL_def x86emuOp_jump_near_LE_def x86emuOp_jump_near_NLE_def x86emuOp_loopne_def
  x86emuOp_loope_def x86emuOp_loop_def x86emuOp_jcxz_def x86emuOp_jump_byte_IMM_def x86emuOp_jump_near_IMM_def
  x86emuOp_jump_far_IMM_def x86emuOp_call_near_IMM_def x86emuOp_call_far_IMM_def x86emuOp_ret_near_def
  x86emuOp_ret_near_IMM_def x86emuOp_ret_far_def x86emuOp_ret_far_IMM_def x86emuOp_int3_def x86emuOp_int_IMM_def
  x86emuOp_into_def x86emuOp_opcFF_word_RM_def x86emuOp_esc_coprocess_d8_def x86emuOp_esc_coprocess_d9_def
  x86emuOp_esc_coprocess_da_def x86emuOp_esc_coprocess_db_def x86emuOp_esc_coprocess_dc_def x86emuOp_esc_coprocess_dd_def
  x86emuOp_esc_coprocess_de_def x86emuOp_esc_coprocess_df_def

lemmas string_handlers =
  x86emuOp_movs_byte_def x86emuOp_movs_word_def x86emuOp_cmps_byte_def x86emuOp_cmps_word_def x86emuOp_scas_byte_def
  x86emuOp_scas_word_def x86emuOp_stos_byte_def x86emuOp_stos_word_def x86emuOp_lods_byte_def x86emuOp_lods_word_def
  x86emuOp_ins_byte_def x86emuOp_ins_word_def x86emuOp_outs_byte_def x86emuOp_outs_word_def

lemmas two_byte_handlers =
  x86emuOp2_rdtsc_def x86emuOp2_long_jump_def x86emuOp2_push_FS_def x86emuOp2_pop_FS_def x86emuOp2_push_GS_def
  x86emuOp2_pop_GS_def x86emuOp2_lss_R_IMM_def x86emuOp2_lfs_R_IMM_def x86emuOp2_lgs_R_IMM_def x86emuOp2_cpuid_def
  x86emuOp2_bt_R_def x86emuOp2_bts_R_def x86emuOp2_btr_R_def x86emuOp2_btc_R_def x86emuOp2_btX_I_def x86emuOp2_bsf_def
  x86emuOp2_bsr_def x86emuOp2_shld_IMM_def x86emuOp2_shld_CL_def x86emuOp2_shrd_IMM_def x86emuOp2_shrd_CL_def
  x86emuOp2_imul_R_RM_def x86emuOp2_movzx_byte_R_RM_def x86emuOp2_movzx_word_R_RM_def x86emuOp2_movsx_byte_R_RM_def
  x86emuOp2_movsx_word_R_RM_def x86emuOp2_bswap_def

lemma frame_plain [frame_rules]:
  assumes "frame M0 M"
  shows "okS M0 (x86emuOp_illegal_op M)" "okS M0 (x86emuOp2_illegal_op M)" "okS M0 (x86emuOp_iret M)" "okS M0 (x86emuOp2_set_byte op2 M)"
    "frame M0 (cpuid M)"
  unfolding x86emuOp_illegal_op_def x86emuOp2_illegal_op_def x86emuOp_iret_def x86emuOp2_set_byte_def cpuid_def Let_def
  by (intro frame_rules assms; assumption)+

lemma list_all_intros: "list_all P []" "P x \<Longrightarrow> list_all P xs \<Longrightarrow> list_all P (x # xs)"
  by simp_all

lemma ok_if_app [frame_rules]: "(b \<Longrightarrow> okS M0 (f M)) \<Longrightarrow> (\<not> b \<Longrightarrow> okS M0 (g M)) \<Longrightarrow> okS M0 ((if b then f else g) M)"
  by simp

lemma optab2_keeps: "list_all (\<lambda>h. keeps (h op2)) x86emu_optab2"
  unfolding x86emu_optab2_def two_byte_handlers Let_def
  by (intro list_all_intros frame_rules; assumption)

lemma unat_u8: "unat (b :: u8) < 256"
  using unsigned_less [of b, where 'a = nat] by simp

lemma optab_lengths: "length x86emu_optab2 = 256" "length x86emu_optab = 256"
  by (simp_all add: x86emu_optab2_def x86emu_optab_def)

lemma frame_two_byte [frame_rules]:
  assumes "frame M0 M"
  shows "okS M0 (x86emuOp_two_byte M)"
proof -
  have h: "keeps ((x86emu_optab2 ! unat op2) op2)" for op2
    using optab2_keeps [of op2] by (simp add: list_all_length optab_lengths unat_u8)
  show ?thesis unfolding x86emuOp_two_byte_def by (intro ok_bindV frame_fetch keepsD(1) [OF h] assms)
qed

lemma optab_keeps:
  assumes "hooks_keep (e_intrTab E)"
  shows "list_all (\<lambda>h. keeps (h E op1)) x86emu_optab"
  unfolding x86emu_optab_def arith_handlers move_handlers flow_handlers string_handlers Let_def
  by (intro list_all_intros frame_rules ok_bind_pure(1) [where x = "c_add i j" for i j] assms; assumption)

lemma frame_step:
  assumes "frame M0 M" "hooks_keep (e_intrTab E)"
  shows "okS M0 (X86EMU_step E M)"
proof -
  have h: "keeps ((x86emu_optab ! unat op1) E op1)" for op1
    using optab_keeps [OF assms(2), of op1] by (simp add: list_all_length optab_lengths unat_u8)
  show ?thesis unfolding X86EMU_step_def
    by (intro ok_bindV ok_bindS ok_if okS_simps frame_interrupts frame_fetch keepsD(1) [OF h] assms)
qed

lemma X86EMU_loop_frame:
  assumes "X86EMU_loop E M = Some M'" "hooks_keep (e_intrTab E)"
  shows "frame M M'"
  using assms
proof (induction rule: X86EMU_loop.raw_induct [rotated, consumes 1, case_names step])
  case (step loop E M M')
  show ?case
  proof (cases "x_intr M \<noteq> 0 \<and> x_intr M AND INTR_HALTED \<noteq> 0")
    case False
    then obtain N where N: "X86EMU_step E M = Some N" "loop E N = Some M'"
      using step(2) by (auto split: bind_splits)
    have "frame M N" using frame_step [OF frame_refl step(3), of M] N(1) by (simp add: okS_def)
    moreover have "frame N M'" using N(2) step(1) [OF _ step(3)] by simp
    ultimately show ?thesis by (rule frame_trans)
  qed (use step(2) frame_refl in simp)
qed

section \<open>Single instructions\<close>

definition pc :: "x86 \<Rightarrow> u32" where
  "pc M = push_bit 4 (ucast (R_CS M)) + ucast (R_IP M)"

definition next_ip :: "u16 \<Rightarrow> x86 \<Rightarrow> x86" where
  "next_ip n M = M\<lparr>R_EIP := set_lo16 (R_IP M + n) (R_EIP M)\<rparr>"

lemma rdb_ok: "bytes_in 1 a M \<Longrightarrow> rdb a M = Some (x_mem M a, M)"
  using not_past_end [of 1 a M] by (simp add: rdb_def)

lemma fetch_ok:
  "bytes_in 1 (pc M) M \<Longrightarrow> fetch_opcode M = Some (x_mem M (pc M), next_ip 1 M)"
  "bytes_in 1 (pc M) M \<Longrightarrow> fetch_byte_imm M = Some (x_mem M (pc M), next_ip 1 M)"
  "bytes_in 2 (pc M) M \<Longrightarrow> fetch_word_imm M = Some (load16 (x_mem M) (pc M), next_ip 2 M)"
  using rdb_ok [of "pc M" "next_ip 1 M"] rdw_ok [of "pc M" M]
  by (simp_all add: fetch_opcode_def fetch_byte_imm_def fetch_word_imm_def set_IP_def next_ip_def pc_def Let_def bytes_in_def)

lemma step_ok:
  assumes "x_intr M = 0" "bytes_in 1 (pc M) M"
  shows "X86EMU_step E M = (x86emu_optab ! unat (x_mem M (pc M))) E (x_mem M (pc M)) (next_ip 1 M)"
  using assms by (simp add: X86EMU_step_def fetch_ok)

lemma next_ip_simps [simp]:
  "x_mem (next_ip n M) = x_mem M" "mem_size (next_ip n M) = mem_size M" "x_intr (next_ip n M) = x_intr M" "x_mode (next_ip n M) = x_mode M"
  "R_IP (next_ip n M) = R_IP M + n" "R_CS (next_ip n M) = R_CS M" "R_SS (next_ip n M) = R_SS M" "R_ESP (next_ip n M) = R_ESP M"
  "R_FLG (next_ip n M) = R_FLG M" "R_EAX (next_ip n M) = R_EAX M" "x_pio (next_ip n M) = x_pio M" "next_ip m (next_ip n M) = next_ip (n + m) M"
  by (simp_all add: next_ip_def reg_views add.assoc)

lemma optab_halt: "x86emu_optab ! 0xF4 = (\<lambda>E op1. x86emuOp_halt)"
  by (simp add: x86emu_optab_def)

definition no_hardware :: hardware where
  "no_hardware = \<lparr>hw_in = (\<lambda>_ _ _. 0), hw_pci = (\<lambda>_ _. 0)\<rparr>"

section \<open>Well-formed states\<close>


definition halt_sample :: x86 where
  "halt_sample = sample\<lparr>x_intr := 0, x_mem := (\<lambda>_. 0)(0x142 := 0xF4)\<rparr>"

lemma sample_wf: "x86_wf halt_sample"
  by (simp add: x86_wf_def within_def halt_sample_def sample_def sample_pio_def)

lemma halt_sample_step:
  "X86EMU_step E halt_sample = Some (DECODE_CLEAR_SEGOVR (X86EMU_halt_sys (next_ip 1 halt_sample)))"
proof -
  have p: "pc halt_sample = 0x142" by (simp add: pc_def halt_sample_def sample_def lo16_def push_bit_eq_mult)
  have "bytes_in 1 (pc halt_sample) halt_sample" by (simp add: p bytes_in_def) (simp add: halt_sample_def sample_def)
  then have "X86EMU_step E halt_sample = (x86emu_optab ! unat (0xF4 :: u8)) E 0xF4 (next_ip 1 halt_sample)"
    using step_ok [of halt_sample E] by (simp add: p) (simp add: halt_sample_def)
  then show ?thesis by (simp add: optab_halt x86emuOp_halt_def clearing_def)
qed


end
