(* ===== verification/X86_Driver.thy ===== *)
theory X86_Driver
  imports X86_Frame
begin

unbundle bit_operations_syntax

text \<open>
  The calls of the video driver into the emulator as a whole (\<^verbatim>\<open>VBE::x86emuExec\<close>): the startup code, the software
  interrupt, the handler of the video BIOS, its return, and the halt. The driver installs no interrupt functions of its own.
  The handler is foreign code; what is shown holds for every handler, or for every handler that returns.
\<close>

definition driver_env :: "hardware \<Rightarrow> x86_env" where
  "driver_env hw = \<lparr>e_hw = hw, e_intrTab = (\<lambda>_. None)\<rparr>"

lemma driver_hooks: "hooks_keep (e_intrTab (driver_env hw))"
  by (simp add: hooks_keep_def driver_env_def)

definition VBE_ready :: "x86 \<Rightarrow> bool" where
  "VBE_ready M \<longleftrightarrow> mem_size M = 0x100000 \<and> x_mem M 0x7000 = 0xcd \<and> x_mem M 0x7001 = 0x10 \<and> x_mem M 0x7002 = 0xf4"

lemma VBE_init_ready: "VBE_ready (VBE_init M)"
  by (simp add: VBE_ready_def VBE_init_def VBE_ENTRY_def push_bit_eq_mult)

section \<open>Runs of the machine\<close>

text \<open>A number of instructions of a machine that is not halted.\<close>

primrec X86EMU_steps :: "x86_env \<Rightarrow> nat \<Rightarrow> x86 \<Rightarrow> x86 option" where
  "X86EMU_steps E 0 M = Some M"
| "X86EMU_steps E (Suc n) M =
     (if x_intr M AND INTR_HALTED \<noteq> 0 then None else do { M \<leftarrow> X86EMU_step E M; X86EMU_steps E n M })"

lemma loop_step: "x_intr M AND INTR_HALTED = 0 \<Longrightarrow> X86EMU_step E M = Some M' \<Longrightarrow> X86EMU_loop E M = X86EMU_loop E M'"
  by (subst X86EMU_loop.simps) simp

lemma loop_steps: "X86EMU_steps E n M = Some M' \<Longrightarrow> X86EMU_loop E M = X86EMU_loop E M'"
  by (induction n arbitrary: M) (auto split: if_splits bind_splits simp: loop_step)

lemma steps_frame:
  assumes "hooks_keep (e_intrTab E)" "X86EMU_steps E n M = Some M'"
  shows "frame M M'"
  using assms(2)
proof (induction n arbitrary: M)
  case (Suc n)
  then obtain N where N: "X86EMU_step E M = Some N" "X86EMU_steps E n N = Some M'" by (auto split: if_splits bind_splits)
  have "frame M N" using frame_step [OF frame_refl assms(1), of M] N(1) by (simp add: okS_def)
  then show ?case using Suc.IH [OF N(2)] frame_trans by blast
qed (simp add: frame_refl)

lemma setup_frame: "frame M ((VBE_setup ax bx cx di es M)\<lparr>x_intr := 0\<rparr>)"
  unfolding VBE_setup_def Let_def by (intro frame_rules frame_refl)

section \<open>What a call cannot change\<close>


section \<open>The startup code\<close>

definition entered :: "u16 \<Rightarrow> u16 \<Rightarrow> u16 \<Rightarrow> u16 \<Rightarrow> u16 \<Rightarrow> x86 \<Rightarrow> x86" where
  "entered ax bx cx di es M = (VBE_setup ax bx cx di es M)\<lparr>x_intr := 0\<rparr>"

lemma entered_simps:
  "R_CS (entered ax bx cx di es M) = 0" "R_IP (entered ax bx cx di es M) = 0x7000" "R_SS (entered ax bx cx di es M) = 0"
  "R_SP (entered ax bx cx di es M) = 0x7DF8" "x_mem (entered ax bx cx di es M) = x_mem M" "mem_size (entered ax bx cx di es M) = mem_size M"
  "x_intr (entered ax bx cx di es M) = 0" "x_mode (entered ax bx cx di es M) = x_mode M" "R_FLG (entered ax bx cx di es M) = R_FLG M"
  by (simp_all add: entered_def VBE_setup_def Let_def set_reg16_def set_IP_def reg_views ADDR_OFF_def ADDR_SEG_def VBE_ENTRY_def
      VBE_STACK_def)

lemma pushed_upd:
  "pushed w (M\<lparr>x_intno := n\<rparr>) = (pushed w M)\<lparr>x_intno := n\<rparr>" "sp_addr (M\<lparr>x_intno := n\<rparr>) = sp_addr M"
  "stack_room k (M\<lparr>x_intno := n\<rparr>) = stack_room k M" "x_intr (pushed w M) = x_intr M"
  by (simp_all add: pushed_def sp_addr_def stack_room_def)

lemma soft_int_delivers:
  assumes "tab n = None" "stack_room 6 M" "1024 \<le> unat (mem_size M)" "x_intr M = 0"
  shows "soft_int tab n M = Some ((delivered (M\<lparr>x_intno := n\<rparr>))\<lparr>x_intno := x_intno M\<rparr>)"
proof -
  have r4: "stack_room 4 (pushed w M)" for w using stack_room_pushed [of 4 M w] assms(2) by simp
  have r2: "stack_room 2 (pushed w (pushed w' M\<lparr>R_FLG := f\<rparr>))" for w w' f
    using stack_room_pushed [of 2 "pushed w' M\<lparr>R_FLG := f\<rparr>" w] r4 [of w'] by simp
  have v: "bytes_in 2 (vec n) M'" "bytes_in 2 (vec n + 2) M'" if "mem_size M' = mem_size M" for M'
    using that assms(3) unat_vec [of n] by (simp_all add: bytes_in_def)
  show ?thesis
    using assms(1) stack_room_mono [OF assms(2), of 2] r4 [THEN stack_room_mono, of 2] r2 assms(4)
    by (simp add: soft_int_def vec_def [symmetric] push_word_ok mem_access_word_def rdw_ok v delivered_def Let_def set_IP_def pushed_upd)
      (rule x86.equality; simp add: pushed_def sp_addr_def)
qed

lemma optab_entries:
  "x86emu_optab ! 0xCD = (\<lambda>E op1. x86emuOp_int_IMM (e_intrTab E))" "x86emu_optab ! 0xCF = (\<lambda>E op1. x86emuOp_iret)"
  "x86emu_optab ! 0xB8 = (\<lambda>E op1. x86emuOp_mov_word_reg_IMM AX)"
  by (simp_all add: x86emu_optab_def)

definition at_handler :: "u16 \<Rightarrow> u16 \<Rightarrow> u16 \<Rightarrow> u16 \<Rightarrow> u16 \<Rightarrow> x86 \<Rightarrow> x86" where
  "at_handler ax bx cx di es M =
     (let N = next_ip 2 (entered ax bx cx di es M)
      in DECODE_CLEAR_SEGOVR ((delivered (N\<lparr>x_intno := 0x10\<rparr>))\<lparr>x_intno := x_intno N\<rparr>))"

lemma entered_pc: "pc (next_ip n (entered ax bx cx di es M)) = 0x7000 + ucast n" if "unat n < 4096"
proof -
  have "unat (0x7000 + n) = 0x7000 + unat n" using that by (simp add: unat_word_ariths)
  then show ?thesis using that by (simp add: pc_def entered_simps word_unat_eq_iff unat_word_ariths unsigned_ucast_eq take_bit_nat_eq_self)
qed

lemma entered_room: "VBE_ready M \<Longrightarrow> stack_room 6 (next_ip n (entered ax bx cx di es M))"
  by (simp add: stack_room_def unat_sp_addr entered_simps VBE_ready_def)

lemma entered_step:
  assumes "VBE_ready M"
  shows "X86EMU_step (driver_env hw) (entered ax bx cx di es M) = Some (at_handler ax bx cx di es M)"
proof -
  let ?N = "entered ax bx cx di es M"
  have p: "pc ?N = 0x7000" "pc (next_ip 1 ?N) = 0x7001"
    using entered_pc [of 1] by (simp_all add: pc_def entered_simps)
  have b: "bytes_in 1 0x7000 ?N" "bytes_in 1 0x7001 (next_ip 1 ?N)"
    using assms by (simp_all add: bytes_in_def entered_simps VBE_ready_def)
  have "X86EMU_step (driver_env hw) ?N = x86emuOp_int_IMM (\<lambda>_. None) (next_ip 1 ?N)"
    using step_ok [of ?N] b(1) assms by (simp add: p entered_simps VBE_ready_def optab_entries driver_env_def)
  also have "\<dots> = clearing (soft_int (\<lambda>_. None) 0x10) (next_ip 2 ?N)"
    using fetch_ok(2) [of "next_ip 1 ?N"] b(2) assms by (simp add: x86emuOp_int_IMM_def clearing_def p entered_simps VBE_ready_def)
  also have "\<dots> = Some (at_handler ax bx cx di es M)"
    using assms by (simp add: clearing_def soft_int_delivers entered_room entered_simps VBE_ready_def at_handler_def Let_def)
  finally show ?thesis .
qed

lemma handler_state:
  assumes "VBE_ready M"
  shows "R_SS (at_handler ax bx cx di es M) = 0" "R_SP (at_handler ax bx cx di es M) = 0x7DF2" "x_intr (at_handler ax bx cx di es M) = 0"
    "mem_size (at_handler ax bx cx di es M) = 0x100000" "x_mode (at_handler ax bx cx di es M) = x_mode M AND NOT SYSMODE_CLRMASK"
    "x_mem (at_handler ax bx cx di es M) = store16 0x7DF2 0x7002 (store16 0x7DF4 0 (store16 0x7DF6 (ucast (R_FLG M)) (x_mem M)))"
    "R_CS (at_handler ax bx cx di es M) = load16 (x_mem M) 0x42" "R_IP (at_handler ax bx cx di es M) = load16 (x_mem M) 0x40"
proof -
  define N where "N = (next_ip 2 (entered ax bx cx di es M))\<lparr>x_intno := 0x10\<rparr>"
  have r: "stack_room 6 N" using entered_room [OF assms] by (simp add: N_def pushed_upd)
  have u: "unat (sp_addr N) = 0x7DF8" by (simp add: unat_sp_addr N_def entered_simps)
  then have s: "sp_addr N = 0x7DF8" by (simp add: word_unat_eq_iff)
  have i: "R_IP N = 0x7002" "R_CS N = 0" "R_SP N = 0x7DF8" "R_SS N = 0" "R_FLG N = R_FLG M" "x_mem N = x_mem M" "mem_size N = 0x100000"
      "x_mode N = x_mode M" "x_intno N = 0x10"
    using assms by (simp_all add: N_def entered_simps VBE_ready_def)
  show "R_SS (at_handler ax bx cx di es M) = 0" "R_SP (at_handler ax bx cx di es M) = 0x7DF2" "x_intr (at_handler ax bx cx di es M) = 0"
    "mem_size (at_handler ax bx cx di es M) = 0x100000" "x_mode (at_handler ax bx cx di es M) = x_mode M AND NOT SYSMODE_CLRMASK"
    "x_mem (at_handler ax bx cx di es M) = store16 0x7DF2 0x7002 (store16 0x7DF4 0 (store16 0x7DF6 (ucast (R_FLG M)) (x_mem M)))"
    by (simp_all add: at_handler_def Let_def DECODE_CLEAR_SEGOVR_def N_def [symmetric] delivered_simps [OF r] i s reg_views)
  show "R_CS (at_handler ax bx cx di es M) = load16 (x_mem M) 0x42" "R_IP (at_handler ax bx cx di es M) = load16 (x_mem M) 0x40"
    using delivered_vector [OF r] u
    by (simp_all add: at_handler_def Let_def DECODE_CLEAR_SEGOVR_def N_def [symmetric] i vec_def)
qed

lemma handler_registers:
  "R_EAX (at_handler ax bx cx di es M) = ucast ax" "R_EBX (at_handler ax bx cx di es M) = ucast bx"
  "R_ECX (at_handler ax bx cx di es M) = ucast cx" "R_EDI (at_handler ax bx cx di es M) = ucast di" "R_ES (at_handler ax bx cx di es M) = es"
  by (simp_all add: at_handler_def Let_def DECODE_CLEAR_SEGOVR_def delivered_def pushed_def next_ip_def entered_def VBE_setup_def
      set_reg16_def set_IP_def)

section \<open>The way back\<close>

definition returning :: "x86 \<Rightarrow> x86 \<Rightarrow> bool" where
  "returning M1 M2 \<longleftrightarrow> x_intr M2 = 0 \<and> unat (pc M2) < unat (mem_size M2) \<and> x_mem M2 (pc M2) = 0xCF
     \<and> R_SS M2 = R_SS M1 \<and> R_SP M2 = R_SP M1
     \<and> x_mem M2 0x7002 = x_mem M1 0x7002 \<and> (\<forall>a \<in> {0x7DF2, 0x7DF3, 0x7DF4, 0x7DF5}. x_mem M2 a = x_mem M1 a)"

lemma iret_back:
  assumes "R_SS N = 0" "R_SP N = 0x7DF2" "mem_size N = 0x100000" "load16 (x_mem N) 0x7DF2 = 0x7002" "load16 (x_mem N) 0x7DF4 = 0"
  shows "\<exists>N'. x86emuOp_iret N = Some N' \<and> R_CS N' = 0 \<and> R_IP N' = 0x7002 \<and> x_mem N' = x_mem N \<and> mem_size N' = mem_size N
    \<and> x_intr N' = x_intr N \<and> R_EAX N' = R_EAX N"
  using assms by (simp add: x86emuOp_iret_def pop_word_def rdw_ok bytes_in_def reg_views)

lemma halts:
  assumes "R_CS N = 0" "R_IP N = 0x7002" "x_mem N 0x7002 = 0xf4" "mem_size N = 0x100000" "x_intr N = 0"
  shows "\<exists>N'. X86EMU_loop E N = Some N' \<and> x_mem N' = x_mem N \<and> R_EAX N' = R_EAX N"
proof -
  let ?N = "DECODE_CLEAR_SEGOVR (X86EMU_halt_sys (next_ip 1 N))"
  have "pc N = 0x7002" using assms by (simp add: pc_def)
  then have "X86EMU_step E N = Some ?N"
    using step_ok [of N E] assms by (simp add: bytes_in_def optab_halt x86emuOp_halt_def clearing_def)
  then have "X86EMU_loop E N = X86EMU_loop E ?N" using loop_step assms(5) by simp
  also have "\<dots> = Some ?N"
    by (subst X86EMU_loop.simps) (simp add: DECODE_CLEAR_SEGOVR_def X86EMU_halt_sys_def INTR_HALTED_def assms(5))
  finally show ?thesis by (simp add: DECODE_CLEAR_SEGOVR_def X86EMU_halt_sys_def)
qed

lemma handler_returns:
  assumes "VBE_ready M" "X86EMU_steps (driver_env hw) n (at_handler ax bx cx di es M) = Some M2"
    "returning (at_handler ax bx cx di es M) M2"
  shows "\<exists>M3. VBE_x86emuExec (driver_env hw) ax bx cx di es M = Some (R_AX M2, M3) \<and> x_mem M3 = x_mem M2"
proof -
  let ?E = "driver_env hw"
  note h = handler_state [OF assms(1), of ax bx cx di es]
  have m: "mem_size M2 = 0x100000" using steps_frame [OF driver_hooks assms(2)] h(4) by (simp add: frame_def)
  have b: "bytes_in 1 (pc M2) M2" "x_intr M2 = 0" using assms(3) by (simp_all add: returning_def bytes_in_def)
  have f: "x_mem M2 0x7DF2 = x_mem (at_handler ax bx cx di es M) 0x7DF2" "x_mem M2 0x7DF3 = x_mem (at_handler ax bx cx di es M) 0x7DF3"
      "x_mem M2 0x7DF4 = x_mem (at_handler ax bx cx di es M) 0x7DF4" "x_mem M2 0x7DF5 = x_mem (at_handler ax bx cx di es M) 0x7DF5"
      "x_mem M2 0x7002 = 0xf4"
    using assms(1,3) by (simp_all add: returning_def h(6) store16_def VBE_ready_def)
  have w: "load16 (x_mem M2) 0x7DF2 = 0x7002" "load16 (x_mem M2) 0x7DF4 = 0"
    unfolding load16_def by (simp_all add: f h(6) store16_def)
  obtain N where N: "x86emuOp_iret (next_ip 1 M2) = Some N" "R_CS N = 0" "R_IP N = 0x7002" "x_mem N = x_mem M2" "mem_size N = 0x100000"
      "x_intr N = 0" "R_EAX N = R_EAX M2"
    using iret_back [of "next_ip 1 M2"] assms(3) h(1,2) m w b by (auto simp: returning_def)
  have "X86EMU_step ?E M2 = Some N"
    using step_ok [of M2 ?E] b assms(3) N(1) by (simp add: returning_def optab_entries)
  then have "X86EMU_loop ?E (at_handler ax bx cx di es M) = X86EMU_loop ?E N"
    using loop_steps [OF assms(2)] loop_step b(2) by simp
  moreover have "X86EMU_loop ?E (entered ax bx cx di es M) = X86EMU_loop ?E (at_handler ax bx cx di es M)"
    using loop_step entered_step [OF assms(1)] entered_simps(7) by simp
  moreover obtain M3 where "X86EMU_loop ?E N = Some M3" "x_mem M3 = x_mem N" "R_EAX M3 = R_EAX N"
    using halts [of N ?E] N f(5) by auto
  ultimately show ?thesis
    using N by (simp add: VBE_x86emuExec_def X86EMU_exec_def entered_def)
qed

text \<open>C8: a call of the driver enters the handler of interrupt 10h at the address in the interrupt table, with the
  registers of the call, and it returns if the handler does: if after any number of instructions, none of them halting
  the machine, the handler comes to its \<open>iret\<close> with the stack pointer it was entered with, and has not overwritten the return
  address or the instruction after the \<open>int\<close>, then the call ends and its result is the register AX at that point. No pending
  prefix, interrupt or register of an earlier call prevents this.\<close>

theorem VBE_call_returns:
  assumes "VBE_ready M"
  shows "\<exists>M1. X86EMU_step (driver_env hw) ((VBE_setup ax bx cx di es M)\<lparr>x_intr := 0\<rparr>) = Some M1
    \<and> R_CS M1 = load16 (x_mem M) 0x42 \<and> R_IP M1 = load16 (x_mem M) 0x40
    \<and> R_EAX M1 = ucast ax \<and> R_EBX M1 = ucast bx \<and> R_ECX M1 = ucast cx \<and> R_EDI M1 = ucast di \<and> R_ES M1 = es
    \<and> (\<forall>n M2. X86EMU_steps (driver_env hw) n M1 = Some M2 \<and> returning M1 M2 \<longrightarrow>
         (\<exists>M3. VBE_x86emuExec (driver_env hw) ax bx cx di es M = Some (R_AX M2, M3) \<and> x_mem M3 = x_mem M2))"
proof (rule exI [of _ "at_handler ax bx cx di es M"], intro conjI allI impI, fold entered_def)
  fix n M2
  assume "X86EMU_steps (driver_env hw) n (at_handler ax bx cx di es M) = Some M2 \<and> returning (at_handler ax bx cx di es M) M2"
  then show "\<exists>M3. VBE_x86emuExec (driver_env hw) ax bx cx di es M = Some (R_AX M2, M3) \<and> x_mem M3 = x_mem M2"
    using handler_returns [OF assms] by blast
qed (simp_all add: entered_step [OF assms] handler_state(7,8) [OF assms] handler_registers)

section \<open>A handler\<close>

text \<open>A video BIOS whose handler consists of \<open>mov ax, 004Fh\<close> and \<open>iret\<close>.\<close>

definition bios :: x86 where
  "bios = VBE_init (sample\<lparr>x_mem := (\<lambda>_. 0)(0x40 := 0x03, 0x43 := 0xC0, 0xC0003 := 0xB8, 0xC0004 := 0x4F, 0xC0006 := 0xCF)\<rparr>)"

lemma bios_ready: "VBE_ready bios"
  by (simp add: bios_def VBE_init_ready)

lemma bios_mode: "x_mode bios AND NOT SYSMODE_CLRMASK = 0" "load16 (x_mem bios) 0x40 = 3" "load16 (x_mem bios) 0x42 = 0xC000"
  by (simp_all add: bios_def VBE_init_def sample_def load16_def VBE_ENTRY_def push_bit_eq_mult)

lemma bios_handler:
  assumes "M1 = at_handler ax bx cx di es bios"
  shows "\<exists>M2. X86EMU_steps (driver_env hw) 1 M1 = Some M2 \<and> returning M1 M2 \<and> R_AX M2 = 0x4F"
proof -
  note h = handler_state [OF bios_ready, of ax bx cx di es, folded assms]
  let ?M2 = "DECODE_CLEAR_SEGOVR (set_reg16 AX 0x4F (next_ip 3 M1))"
  have mem: "x_mem M1 0xC0003 = 0xB8" "x_mem M1 0xC0004 = 0x4F" "x_mem M1 0xC0005 = 0" "x_mem M1 0xC0006 = 0xCF"
    by (simp_all add: h(6) store16_def bios_def VBE_init_def VBE_ENTRY_def)
  have p: "pc M1 = 0xC0003" "pc (next_ip 1 M1) = 0xC0004" "pc ?M2 = 0xC0006"
    using h(7,8) by (simp_all add: bios_mode pc_def push_bit_eq_mult DECODE_CLEAR_SEGOVR_def set_reg16_def)
  have w: "fetch_word_imm (next_ip 1 M1) = Some (0x4F, next_ip 3 M1)"
    using fetch_ok(3) [of "next_ip 1 M1"] h(4) p(2) by (simp add: bytes_in_def load16_def mem)
  have "X86EMU_step (driver_env hw) M1 = x86emuOp_mov_word_reg_IMM AX (next_ip 1 M1)"
    using step_ok [of M1] h(3,4) by (simp add: p(1) bytes_in_def mem optab_entries)
  also have "\<dots> = Some ?M2"
    using h(5) by (simp add: x86emuOp_mov_word_reg_IMM_def clearing_def by_data_size_def load_imm_def WORD_def w bios_mode)
  finally have s: "X86EMU_steps (driver_env hw) 1 M1 = Some ?M2" by (simp add: h(3))
  have "returning M1 ?M2"
    unfolding returning_def p(3) using h(3,4) by (simp add: DECODE_CLEAR_SEGOVR_def set_reg16_def mem)
  moreover have "R_AX ?M2 = 0x4F" by (simp add: DECODE_CLEAR_SEGOVR_def set_reg16_def reg_views)
  ultimately show ?thesis using s by blast
qed

theorem VBE_call_returns_witness:
  "\<exists>M3. VBE_x86emuExec (driver_env no_hardware) 0x4F00 0 0 0 0x4000 bios = Some (0x4F, M3)"
proof -
  obtain M1 where M1: "X86EMU_step (driver_env no_hardware) ((VBE_setup 0x4F00 0 0 0 0x4000 bios)\<lparr>x_intr := 0\<rparr>) = Some M1"
    and ret: "\<And>n M2. X86EMU_steps (driver_env no_hardware) n M1 = Some M2 \<Longrightarrow> returning M1 M2 \<Longrightarrow>
        \<exists>M3. VBE_x86emuExec (driver_env no_hardware) 0x4F00 0 0 0 0x4000 bios = Some (R_AX M2, M3)"
    using VBE_call_returns [OF bios_ready, of no_hardware "0x4F00" 0 0 0 "0x4000"] by blast
  have "M1 = at_handler 0x4F00 0 0 0 0x4000 bios"
    using M1 entered_step [OF bios_ready] by (simp add: entered_def)
  from bios_handler [OF this] obtain M2
    where M2: "X86EMU_steps (driver_env no_hardware) 1 M1 = Some M2" "returning M1 M2" "R_AX M2 = 0x4F" by blast
  show ?thesis using ret [OF M2(1,2)] M2(3) by simp
qed


end
