(* ===== verification/X86_Prefix.thy ===== *)
theory X86_Prefix
  imports X86_Frame
begin

unbundle bit_operations_syntax

text \<open>
  The scope of prefixes. A segment-override, operand-size or address-size prefix is a bit of the mode word that the handler of the
  prefix sets and that the handler of the instruction after it has to clear. Most handlers do this by a macro at their end, so
  that the property below is one of all entries of both instruction tables.
\<close>

definition cleared :: "x86 \<Rightarrow> bool" where
  "cleared M \<longleftrightarrow> x_mode M AND SYSMODE_CLRMASK = 0"

definition halted :: "x86 \<Rightarrow> bool" where
  "halted M \<longleftrightarrow> x_intr M AND INTR_HALTED \<noteq> 0"

definition ends :: "(x86 \<Rightarrow> x86 option) \<Rightarrow> bool" where
  "ends h \<longleftrightarrow> (\<forall>M M'. h M = Some M' \<longrightarrow> cleared M' \<or> halted M')"

lemma cleared_mode: "cleared (M\<lparr>x_mode := m AND NOT SYSMODE_CLRMASK\<rparr>)"
  by (simp add: cleared_def and.assoc)

lemma halted_halt: "halted (X86EMU_halt_sys M)"
  by (simp add: halted_def X86EMU_halt_sys_def bit.conj_disj_distrib2 INTR_HALTED_def)

lemma ends_forms [simp]:
  "ends (clearing body)" "ends (modrm f)" "ends (\<lambda>M. x86emuOp2_set_byte op2 M)" "ends x86emuOp_iret" "ends x86emuOp_illegal_op" "ends x86emuOp2_illegal_op"
  using cleared_mode halted_halt
  by (auto simp: ends_def clearing_def modrm_def x86emuOp2_set_byte_def x86emuOp_iret_def DECODE_CLEAR_SEGOVR_def x86emuOp_illegal_op_def
      x86emuOp2_illegal_op_def Let_def split: bind_splits)

lemma ends_optab2: "list_all (\<lambda>h. ends (h op2)) x86emu_optab2"
  by (simp add: x86emu_optab2_def two_byte_handlers)

lemma ends_two_byte [simp]: "ends x86emuOp_two_byte"
proof -
  have "ends ((x86emu_optab2 ! unat op2) op2)" for op2
    using ends_optab2 [of op2] by (simp add: list_all_length optab_lengths unat_u8)
  then show ?thesis by (auto simp: ends_def x86emuOp_two_byte_def split: bind_splits)
qed

definition prefixes :: "nat list" where
  "prefixes = [0x26, 0x2E, 0x36, 0x3E, 0x64, 0x65, 0x66, 0x67]"

text \<open>The table with the entries of the prefixes replaced by one that ends.\<close>

definition without :: "nat list \<Rightarrow> 'a \<Rightarrow> 'a list \<Rightarrow> 'a list" where
  "without is x t = fold (\<lambda>i t. t[i := x]) is t"

lemma without_nth: "j \<notin> set is \<Longrightarrow> without is x t ! j = t ! j" "length (without is x t) = length t"
  by (induction "is" arbitrary: t) (simp_all add: without_def)

lemma ends_optab: "list_all (\<lambda>h. ends (h E op1)) (without prefixes (\<lambda>E op1. x86emuOp_illegal_op) x86emu_optab)"
  unfolding without_def prefixes_def x86emu_optab_def
  by (simp add: arith_handlers move_handlers flow_handlers string_handlers)

lemma ends_entry:
  assumes "unat op1 \<notin> set prefixes"
  shows "ends ((x86emu_optab ! unat op1) E op1)"
proof -
  have "ends ((without prefixes (\<lambda>E op1. x86emuOp_illegal_op) x86emu_optab ! unat op1) E op1)"
    using ends_optab [of E op1] by (simp add: list_all_length without_nth optab_lengths unat_u8)
  then show ?thesis by (simp add: without_nth(1) [OF assms])
qed

section \<open>Properties\<close>

text \<open>The bit that each prefix stands for.\<close>

definition prefix_bit :: "nat \<Rightarrow> u32" where
  "prefix_bit i = (if i = 0x26 then SYSMODE_SEGOVR_ES else if i = 0x2E then SYSMODE_SEGOVR_CS else if i = 0x36 then SYSMODE_SEGOVR_SS
     else if i = 0x3E then SYSMODE_SEGOVR_DS else if i = 0x64 then SYSMODE_SEGOVR_FS else if i = 0x65 then SYSMODE_SEGOVR_GS
     else if i = 0x66 then SYSMODE_PREFIX_DATA else SYSMODE_PREFIX_ADDR)"

lemma prefix_entry:
  assumes "i \<in> set prefixes"
  shows "(x86emu_optab ! i) E op1 = set_mode (prefix_bit i)"
proof -
  have "x86emu_optab ! 0x26 = (\<lambda>E op1. x86emuOp_segovr_ES)" "x86emu_optab ! 0x2E = (\<lambda>E op1. x86emuOp_segovr_CS)"
    "x86emu_optab ! 0x36 = (\<lambda>E op1. x86emuOp_segovr_SS)" "x86emu_optab ! 0x3E = (\<lambda>E op1. x86emuOp_segovr_DS)"
    "x86emu_optab ! 0x64 = (\<lambda>E op1. x86emuOp_segovr_FS)" "x86emu_optab ! 0x65 = (\<lambda>E op1. x86emuOp_segovr_GS)"
    "x86emu_optab ! 0x66 = (\<lambda>E op1. x86emuOp_prefix_data)" "x86emu_optab ! 0x67 = (\<lambda>E op1. x86emuOp_prefix_addr)"
    by (simp_all add: x86emu_optab_def)
  then show ?thesis using assms by (auto simp: prefixes_def prefix_bit_def move_handlers)
qed

text \<open>C22: a segment-override, operand-size or address-size prefix applies to the instruction after it and to nothing else. The eight
  prefix opcodes set their own bit of the mode word, keep the others, and change nothing but the instruction
  pointer; after every other opcode of the two tables none of these bits is set, or the machine is halted.\<close>

theorem x86_prefix_scope:
  assumes "x_intr M = 0" "fetch_opcode M = Some (op1, N)" "X86EMU_step E M = Some M'"
  shows "if unat op1 \<in> set prefixes then M' = N\<lparr>x_mode := x_mode N OR prefix_bit (unat op1)\<rparr>
    else x_mode M' AND SYSMODE_CLRMASK = 0 \<or> x_intr M' AND INTR_HALTED \<noteq> 0"
proof -
  have "(x86emu_optab ! unat op1) E op1 N = Some M'" using assms by (simp add: X86EMU_step_def)
  then show ?thesis
    using prefix_entry [of "unat op1" E op1] ends_entry [of op1 E] by (auto simp: set_mode_def ends_def cleared_def halted_def)
qed

theorem x86_prefix_scope_witness:
  "\<exists>M'. X86EMU_step \<lparr>e_hw = no_hardware, e_intrTab = (\<lambda>_. None)\<rparr> halt_sample = Some M'
     \<and> (x_mode M' AND SYSMODE_CLRMASK = 0 \<or> x_intr M' AND INTR_HALTED \<noteq> 0)"
proof -
  let ?E = "\<lparr>e_hw = no_hardware, e_intrTab = (\<lambda>_. None)\<rparr>"
  have p: "pc halt_sample = 0x142" by (simp add: pc_def halt_sample_def sample_def lo16_def push_bit_eq_mult)
  have "bytes_in 1 (pc halt_sample) halt_sample" by (simp add: p bytes_in_def) (simp add: halt_sample_def sample_def)
  then have "fetch_opcode halt_sample = Some (0xF4, next_ip 1 halt_sample)"
    using fetch_ok(1) [of halt_sample] by (simp add: p) (simp add: halt_sample_def)
  moreover have "x_intr halt_sample = 0" by (simp add: halt_sample_def)
  moreover have "unat (0xF4 :: u8) \<notin> set prefixes" by (simp add: prefixes_def)
  ultimately show ?thesis using x86_prefix_scope [OF _ _ halt_sample_step [of ?E], where ?op1.0 = "0xF4" and N = "next_ip 1 halt_sample"] halt_sample_step [of ?E] by simp
qed

text \<open>The repeat prefixes break this. The handler of \<open>rep\<close> clears the bits of the prefixes before it, so that \<open>es rep movsb\<close> reads from
  the data segment; and the bit of \<open>rep\<close> itself is not cleared by an instruction that is not a string instruction, so that a string
  instruction after it is repeated although it has no prefix.\<close>

theorem x86_rep_prefix_wrong:
  "\<exists>M1 M2 M3. x86emuOp_segovr_ES (M\<lparr>x_mode := 0\<rparr>) = Some M1 \<and> fst (get_data_segment M1) = ucast (R_ES M)
     \<and> x86emuOp_repe M1 = Some M2 \<and> fst (get_data_segment M2) = ucast (R_DS M)
     \<and> x86emuOp_nop M2 = Some M3 \<and> fst (take_count M3) = unat (R_CX M)"
  by (simp add: move_handlers set_mode_def clearing_def DECODE_CLEAR_SEGOVR_def get_data_segment_def take_count_def PREFIX_REP_def Let_def
      SYSMODE_SEGMASK_def SYSMODE_CLRMASK_def SYSMODE_SEG_DS_SS_def SYSMODE_SEGOVR_CS_def SYSMODE_SEGOVR_DS_def SYSMODE_SEGOVR_ES_def
      SYSMODE_SEGOVR_FS_def SYSMODE_SEGOVR_GS_def SYSMODE_SEGOVR_SS_def SYSMODE_PREFIX_DATA_def SYSMODE_PREFIX_ADDR_def
      SYSMODE_PREFIX_REPE_def SYSMODE_PREFIX_REPNE_def)

end
