(* ===== verification/X86_Cond.thy ===== *)
theory X86_Cond
  imports X86_Frame
begin

unbundle bit_operations_syntax

text \<open>
  Conditions. The processor encodes a condition in four bits of the opcode; the emulator writes it out three times, in sixteen
  handlers for the short jumps and in two switches for the long jumps and for the instructions that store a
  condition. The three are compared with the encoding, and the encoding with the meaning it has after a comparison.
\<close>

section \<open>The encoding\<close>

definition cond :: "nat \<Rightarrow> u32 \<Rightarrow> bool" where
  "cond i flg \<longleftrightarrow>
     (if i div 2 = 0 then on F_OF flg
      else if i div 2 = 1 then on F_CF flg
      else if i div 2 = 2 then on F_ZF flg
      else if i div 2 = 3 then on F_CF flg \<or> on F_ZF flg
      else if i div 2 = 4 then on F_SF flg
      else if i div 2 = 5 then on F_PF flg
      else if i div 2 = 6 then on F_SF flg \<noteq> on F_OF flg
      else on F_ZF flg \<or> on F_SF flg \<noteq> on F_OF flg) \<noteq> odd i"

definition long_jump_if :: "(u32 \<Rightarrow> bool) \<Rightarrow> x86 \<Rightarrow> x86 option" where
  "long_jump_if c M = do { (w, N) \<leftarrow> fetch_word_imm M; Some (if c (R_FLG M) then set_IP (R_IP N + w) N else N) }"

definition set_if :: "(u32 \<Rightarrow> bool) \<Rightarrow> x86 \<Rightarrow> x86 option" where
  "set_if c M = modrm (\<lambda>md rh rl. write_rm BYTE (\<lambda>M'. Some (if c (R_FLG M) then 1 else 0, M')) md rl) M"

lemma access_on: "ACCESS_FLAG f flg = 0 \<longleftrightarrow> \<not> on f flg"
  by (simp add: on_def)

lemma jump_target: "ucast (scast w + scast ip :: u32) = ip + w" for w ip :: u16
proof -
  have "ucast (word_of_int (sint w + sint ip) :: u32) = (word_of_int (sint w + sint ip) :: u16)"
    by (rule ucast_down_wi) (simp add: is_down)
  then show ?thesis by (simp add: signed_scast_eq add.commute)
qed

lemma below_16: "i < 16 \<Longrightarrow> i \<in> {0, 1, 2, 3, 4, 5, 6, 7, 8, 9, 10, 11, 12, 13, 14, 15}" for i :: nat
  by (simp; presburger)

lemma short_jumps:
  assumes "i < 16"
  shows "(x86emu_optab ! (0x70 + i)) E op1 = clearing (jump_if (cond i))"
proof -
  have t: "x86emu_optab ! 0x70 = (\<lambda>E op1. x86emuOp_jump_near_O)" "x86emu_optab ! 0x71 = (\<lambda>E op1. x86emuOp_jump_near_NO)"
    "x86emu_optab ! 0x72 = (\<lambda>E op1. x86emuOp_jump_near_B)" "x86emu_optab ! 0x73 = (\<lambda>E op1. x86emuOp_jump_near_NB)"
    "x86emu_optab ! 0x74 = (\<lambda>E op1. x86emuOp_jump_near_Z)" "x86emu_optab ! 0x75 = (\<lambda>E op1. x86emuOp_jump_near_NZ)"
    "x86emu_optab ! 0x76 = (\<lambda>E op1. x86emuOp_jump_near_BE)" "x86emu_optab ! 0x77 = (\<lambda>E op1. x86emuOp_jump_near_NBE)"
    "x86emu_optab ! 0x78 = (\<lambda>E op1. x86emuOp_jump_near_S)" "x86emu_optab ! 0x79 = (\<lambda>E op1. x86emuOp_jump_near_NS)"
    "x86emu_optab ! 0x7a = (\<lambda>E op1. x86emuOp_jump_near_P)" "x86emu_optab ! 0x7b = (\<lambda>E op1. x86emuOp_jump_near_NP)"
    "x86emu_optab ! 0x7c = (\<lambda>E op1. x86emuOp_jump_near_L)" "x86emu_optab ! 0x7d = (\<lambda>E op1. x86emuOp_jump_near_NL)"
    "x86emu_optab ! 0x7e = (\<lambda>E op1. x86emuOp_jump_near_LE)" "x86emu_optab ! 0x7f = (\<lambda>E op1. x86emuOp_jump_near_NLE)"
    by (simp_all add: x86emu_optab_def)
  have c: "f = g \<Longrightarrow> clearing (jump_if f) = clearing (jump_if g)" for f g by simp
  show ?thesis using below_16 [OF assms]
    by (elim insertE emptyE) (simp_all add: t flow_handlers, (rule c, rule ext, auto simp: cond_def access_on Let_def)+)
qed

lemma long_jumps:
  assumes "i < 16"
  shows "x86emuOp2_long_jump (0x80 + word_of_nat i) = clearing (long_jump_if (cond i))"
  using below_16 [OF assms]
  by (elim insertE emptyE) (simp_all add: x86emuOp2_long_jump_def Let_def, (rule arg_cong [of _ _ clearing], rule ext,
      auto simp: long_jump_if_def cond_def access_on xorl_def jump_target intro!: arg_cong2 [of _ _ _ _ Option.bind])+)

lemma stores:
  assumes "i < 16" "i \<noteq> 13"
  shows "x86emuOp2_set_byte (0x90 + word_of_nat i) = set_if (cond i)"
  using below_16 [OF assms(1)] assms(2)
  by (elim insertE emptyE) (simp_all add: x86emuOp2_set_byte_def set_if_def fun_eq_iff cond_def access_on xorl_def Let_def, blast)

text \<open>C27: the sixteen short jumps, the long jumps and the instructions that store a condition all test the condition that the
  low four bits of their opcode encode, and jump to the same target modulo \<open>2\<^sup>1\<^sup>6\<close>. There is one exception: \<open>setnl\<close> stores
  the condition of \<open>setl\<close>, its opposite.\<close>

theorem x86_conditions:
  assumes "i < 16"
  shows "(x86emu_optab ! (0x70 + i)) E op1 = clearing (jump_if (cond i))
    \<and> x86emuOp2_long_jump (0x80 + word_of_nat i) = clearing (long_jump_if (cond i))
    \<and> (i \<noteq> 13 \<longrightarrow> x86emuOp2_set_byte (0x90 + word_of_nat i) = set_if (cond i))
    \<and> x86emuOp2_set_byte 0x9d = set_if (cond 12) \<and> (\<forall>flg. cond 13 flg \<longleftrightarrow> \<not> cond 12 flg)"
proof -
  have "x86emuOp2_set_byte 0x9d = x86emuOp2_set_byte 0x9c" by (simp add: x86emuOp2_set_byte_def fun_eq_iff)
  then show ?thesis using stores [of 12] assms by (simp add: short_jumps long_jumps stores cond_def)
qed

theorem x86_conditions_witness:
  "x86emuOp2_long_jump 0x84 = clearing (long_jump_if (\<lambda>flg. on F_ZF flg)) \<and> x86emuOp2_set_byte 0x9d = set_if (cond 12)"
proof -
  have "cond 4 = (\<lambda>flg. on F_ZF flg)" by (simp add: cond_def fun_eq_iff)
  then show ?thesis using x86_conditions [of 4] by simp
qed

section \<open>After a comparison\<close>

lemma order_conds:
  fixes d s :: "'a::len word"
  assumes "(on F_CF f \<longleftrightarrow> d < s) \<and> (on F_ZF f \<longleftrightarrow> d = s) \<and> (on F_SF f \<noteq> on F_OF f \<longleftrightarrow> sint d < sint s)"
  shows "map (\<lambda>i. cond i f) [2, 3, 4, 5, 6, 7] = [d < s, s \<le> d, d = s, d \<noteq> s, d \<le> s, s < d]
    \<and> map (\<lambda>i. cond i f) [12, 13, 14, 15] = [sint d < sint s, sint s \<le> sint d, sint d \<le> sint s, sint s < sint d]"
proof -
  have "sint d = sint s \<longleftrightarrow> d = s" using signed_word_eqI [of d s] by auto
  then show ?thesis using assms by (auto simp: cond_def)
qed

text \<open>C28: after \<open>cmp\<close>, at each width, the conditions of the jumps are the orders they are named after: below, not below, equal, not equal,
  below or equal, above, in the unsigned order, and less, not less, less or equal, greater, in the signed order.
  The operand compared is not changed.\<close>

theorem x86_compare_branch:
  "fst (cmp_byte d1 s1 flg) = d1 \<and> fst (cmp_word d2 s2 flg) = d2 \<and> fst (cmp_long d4 s4 flg) = d4
   \<and> (let f = snd (cmp_byte d1 s1 flg) in
        map (\<lambda>i. cond i f) [2, 3, 4, 5, 6, 7] = [d1 < s1, s1 \<le> d1, d1 = s1, d1 \<noteq> s1, d1 \<le> s1, s1 < d1]
      \<and> map (\<lambda>i. cond i f) [12, 13, 14, 15] = [sint d1 < sint s1, sint s1 \<le> sint d1, sint d1 \<le> sint s1, sint s1 < sint d1])
   \<and> (let f = snd (cmp_word d2 s2 flg) in
        map (\<lambda>i. cond i f) [2, 3, 4, 5, 6, 7] = [d2 < s2, s2 \<le> d2, d2 = s2, d2 \<noteq> s2, d2 \<le> s2, s2 < d2]
      \<and> map (\<lambda>i. cond i f) [12, 13, 14, 15] = [sint d2 < sint s2, sint s2 \<le> sint d2, sint d2 \<le> sint s2, sint s2 < sint d2])
   \<and> (let f = snd (cmp_long d4 s4 flg) in
        map (\<lambda>i. cond i f) [2, 3, 4, 5, 6, 7] = [d4 < s4, s4 \<le> d4, d4 = s4, d4 \<noteq> s4, d4 \<le> s4, s4 < d4]
      \<and> map (\<lambda>i. cond i f) [12, 13, 14, 15] = [sint d4 < sint s4, sint s4 \<le> sint d4, sint d4 \<le> sint s4, sint s4 < sint d4])"
proof -
  note o = cmp_byte_ok [of d1 s1 flg] cmp_word_ok [of d2 s2 flg] cmp_long_ok [of d4 s4 flg]
  note c = cmp_orders [of d1 s1 flg "snd (cmp_byte d1 s1 flg)"] cmp_orders [of d2 s2 flg "snd (cmp_word d2 s2 flg)"]
    cmp_orders [of d4 s4 flg "snd (cmp_long d4 s4 flg)"]
  have "(on F_CF f \<longleftrightarrow> d1 < s1) \<and> (on F_ZF f \<longleftrightarrow> d1 = s1) \<and> (on F_SF f \<noteq> on F_OF f \<longleftrightarrow> sint d1 < sint s1)"
    if "f = snd (cmp_byte d1 s1 flg)" for f using o(1) c(1) that by blast
  moreover have "(on F_CF f \<longleftrightarrow> d2 < s2) \<and> (on F_ZF f \<longleftrightarrow> d2 = s2) \<and> (on F_SF f \<noteq> on F_OF f \<longleftrightarrow> sint d2 < sint s2)"
    if "f = snd (cmp_word d2 s2 flg)" for f using o(2) c(2) that by blast
  moreover have "(on F_CF f \<longleftrightarrow> d4 < s4) \<and> (on F_ZF f \<longleftrightarrow> d4 = s4) \<and> (on F_SF f \<noteq> on F_OF f \<longleftrightarrow> sint d4 < sint s4)"
    if "f = snd (cmp_long d4 s4 flg)" for f using o(3) c(3) that by blast
  moreover have "fst (cmp_byte d1 s1 flg) = d1" "fst (cmp_word d2 s2 flg) = d2" "fst (cmp_long d4 s4 flg) = d4" using o by blast+
  ultimately show ?thesis unfolding Let_def by (intro conjI) (simp_all only: order_conds)
qed

end
