(* ===== verification/X86_Stack.thy ===== *)
theory X86_Stack
  imports X86_Frame
begin

unbundle bit_operations_syntax

text \<open>
  The stack of the emulated machine as a list of words, and the instructions that rely on it: \<open>pusha\<close> and \<open>popa\<close>, calls and
  returns. The words on the stack are read from memory at the stack pointer (\<open>stack_of\<close>); a push puts a word in front of
  the list, a pop takes it off.
\<close>

section \<open>The words on the stack\<close>

definition stack_of :: "nat \<Rightarrow> x86 \<Rightarrow> u16 list" where
  "stack_of n M = map (\<lambda>i. load16 (x_mem M) (sp_addr M + 2 * word_of_nat i)) [0..<n]"

text \<open>There are \<open>n\<close> words above the stack pointer, in memory and in the stack segment.\<close>

definition stack_holds :: "nat \<Rightarrow> x86 \<Rightarrow> bool" where
  "stack_holds n M \<longleftrightarrow> unat (R_SP M) + 2 * n < 65536 \<and> unat (sp_addr M) + 2 * n \<le> unat (mem_size M)"

lemma stack_of_Suc: "stack_of (Suc n) M = load16 (x_mem M) (sp_addr M) # map (\<lambda>i. load16 (x_mem M) (sp_addr M + 2 + 2 * word_of_nat i)) [0..<n]"
  unfolding stack_of_def upt_conv_Cons [OF zero_less_Suc] by (simp add: map_Suc_upt [symmetric] del: upt_Suc) (simp add: algebra_simps)

lemma unat_index: "unat (a :: u32) + 2 * n < 2 ^ 32 \<Longrightarrow> i < n \<Longrightarrow> unat (a + 2 * word_of_nat i) = unat a + 2 * i"
  by (simp add: unat_word_ariths unat_of_nat)

lemma unat_plus: "unat x + unat k < 2 ^ 32 \<Longrightarrow> unat (x + k) = unat x + unat k" for x k :: u32
  by (simp add: unat_word_ariths(1))

lemma u32_max: "unat (m :: u32) < 2 ^ 32"
  using unsigned_less [of m, where 'a = nat] by simp

lemma stack_of_pushed:
  assumes "stack_room 2 M" "stack_holds n M"
  shows "stack_of (Suc n) (pushed w M) = w # stack_of n M" "stack_holds (Suc n) (pushed w M)"
proof -
  let ?a = "sp_addr M - 2"
  have sp: "2 \<le> unat (R_SP M)" using assms(1) by (simp add: stack_room_def)
  have a: "sp_addr (pushed w M) = ?a" "unat ?a + 2 = unat (sp_addr M)"
    using sp_addr_pushed [OF assms(1)] sp_addr_move(3) [OF sp] sp by (simp_all add: unat_sp_addr)
  have "load16 (store16 ?a w (x_mem M)) (sp_addr M + 2 * word_of_nat i) = load16 (x_mem M) (sp_addr M + 2 * word_of_nat i)" if "i < n" for i
  proof (rule load_store16_other)
    have b: "unat (sp_addr M) + 2 * n < 2 ^ 32"
      using assms(2) u32_max [of "mem_size M"] unfolding stack_holds_def by linarith
    have i: "unat (sp_addr M + 2 * word_of_nat i) = unat (sp_addr M) + 2 * i" by (rule unat_index [OF b that])
    moreover have "unat (sp_addr M + 2 * word_of_nat i + 1) = unat (sp_addr M) + 2 * i + 1"
      using i b that by (simp add: unat_word_ariths(1))
    moreover have "unat (?a + 1) = unat ?a + 1" using a(2) b unat_plus [of ?a 1] by simp
    ultimately show "sp_addr M + 2 * word_of_nat i \<notin> {?a, ?a + 1}" "sp_addr M + 2 * word_of_nat i + 1 \<notin> {?a, ?a + 1}"
      using a(2) by (auto simp: word_unat_eq_iff)
  qed
  then show "stack_of (Suc n) (pushed w M) = w # stack_of n M"
    unfolding stack_of_Suc by (simp add: a(1) load_store16 stack_of_def)
  show "stack_holds (Suc n) (pushed w M)"
    unfolding stack_holds_def a(1) using assms(2) a(2) sp_addr_move(2) [OF sp] sp
    by (simp add: stack_holds_def reg_views) linarith
qed

lemma pop_stack:
  assumes "stack_holds (Suc n) M"
  shows "pop_word M = Some (hd (stack_of (Suc n) M), M\<lparr>R_ESP := set_lo16 (R_SP M + 2) (R_ESP M)\<rparr>)"
    "stack_of n (M\<lparr>R_ESP := set_lo16 (R_SP M + 2) (R_ESP M)\<rparr>) = tl (stack_of (Suc n) M)"
    "stack_holds n (M\<lparr>R_ESP := set_lo16 (R_SP M + 2) (R_ESP M)\<rparr>)"
proof -
  have b: "bytes_in 2 (sp_addr M) M" using assms by (simp add: stack_holds_def bytes_in_def)
  show "pop_word M = Some (hd (stack_of (Suc n) M), M\<lparr>R_ESP := set_lo16 (R_SP M + 2) (R_ESP M)\<rparr>)"
    unfolding pop_word_def sp_addr_def [symmetric] rdw_ok [OF b] stack_of_Suc by simp
  let ?M = "M\<lparr>R_ESP := set_lo16 (R_SP M + 2) (R_ESP M)\<rparr>"
  have s: "unat (R_SP M + 2) = unat (R_SP M) + 2" using assms by (simp add: stack_holds_def unat_word_ariths)
  have u: "unat (sp_addr ?M) = unat (sp_addr M) + 2" by (simp add: unat_sp_addr reg_views s)
  have "unat (sp_addr M + 2) = unat (sp_addr M) + 2"
  proof -
    have "unat (sp_addr M) + 2 < 2 ^ 32" using assms u32_max [of "mem_size M"] unfolding stack_holds_def mult_Suc_right by linarith
    then show ?thesis using unat_plus [of "sp_addr M" 2] by simp
  qed
  then have a: "sp_addr ?M = sp_addr M + 2" using u by (simp add: word_unat_eq_iff)
  show "stack_of n ?M = tl (stack_of (Suc n) M)" unfolding stack_of_Suc by (simp add: stack_of_def a)
  show "stack_holds n ?M" using assms u s by (simp add: stack_holds_def reg_views)
qed

section \<open>Several words\<close>

lemma fold_None: "fold (\<lambda>w M. do { M \<leftarrow> M; push_word w M }) ws None = None"
  by (induction ws) simp_all

lemma push_words_Cons: "push_words (w # ws) M = do { M \<leftarrow> push_word w M; push_words ws M }"
  by (cases "push_word w M") (simp_all add: push_words_def fold_None)

lemma push_words_ok:
  assumes "stack_room (2 * length ws) M" "stack_holds n M"
  shows "\<exists>M'. push_words ws M = Some M' \<and> stack_of (length ws + n) M' = rev ws @ stack_of n M \<and> stack_holds (length ws + n) M'
    \<and> M' = M\<lparr>R_ESP := R_ESP M', x_mem := x_mem M'\<rparr> \<and> R_SP M' = R_SP M - 2 * word_of_nat (length ws)"
  using assms
proof (induction ws arbitrary: M n)
  case Nil
  then show ?case by (simp add: push_words_def)
next
  case (Cons w ws)
  have r: "stack_room 2 M" "stack_room (2 * length ws) (pushed w M)"
    using Cons.prems(1) stack_room_mono [of "2 * length (w # ws)" M 2] stack_room_pushed [of "2 * length ws" M w] by simp_all
  obtain M' where "push_words ws (pushed w M) = Some M'" "stack_of (length ws + Suc n) M' = rev ws @ stack_of (Suc n) (pushed w M)"
      "stack_holds (length ws + Suc n) M'" "M' = (pushed w M)\<lparr>R_ESP := R_ESP M', x_mem := x_mem M'\<rparr>"
      "R_SP M' = R_SP (pushed w M) - 2 * word_of_nat (length ws)"
    using Cons.IH [OF r(2) stack_of_pushed(2) [OF r(1) Cons.prems(2)]] by blast
  then show ?case
    using stack_of_pushed(1) [OF r(1) Cons.prems(2)]
    by (intro exI [of _ M']) (simp add: push_words_Cons push_word_ok [OF r(1)] pushed_def reg_views algebra_simps)
qed

lemma get_set_reg16: "get_reg16 r (set_reg16 r' v M) = (if r = r' then v else get_reg16 r M)"
  by (simp add: get_reg16_def set_reg16_def wide16_eq reg_views)

lemma set_reg16_stack:
  assumes "r \<noteq> SP"
  shows "stack_of n (set_reg16 r v M) = stack_of n M" "stack_holds n (set_reg16 r v M) = stack_holds n M"
  using assms by (cases r; simp add: set_reg16_def stack_of_def stack_holds_def sp_addr_def)+

lemma mode_set_reg16: "x_mode (set_reg16 r v M) = x_mode M"
  by (cases r) (simp_all add: set_reg16_def)

lemma move_SP: "M\<lparr>R_ESP := set_lo16 v (R_ESP M)\<rparr> = set_reg16 SP v M"
  by (simp add: set_reg16_def)

lemma pop_into:
  assumes "r \<noteq> SP" "stack_holds (Suc n) M" "stack_of (Suc n) M = v # vs"
  shows "\<exists>M'. pop_into_word r M = Some M' \<and> stack_of n M' = vs \<and> stack_holds n M' \<and> get_reg16 r M' = v \<and> get_reg16 SP M' = get_reg16 SP M + 2
    \<and> (\<forall>r'. r' \<noteq> r \<longrightarrow> r' \<noteq> SP \<longrightarrow> get_reg16 r' M' = get_reg16 r' M) \<and> x_mode M' = x_mode M"
  using pop_stack [OF assms(2)] assms
  by (intro exI [of _ "set_reg16 r v (set_reg16 SP (R_SP M + 2) M)"])
    (simp add: pop_into_word_def move_SP set_reg16_stack get_set_reg16, simp add: get_reg16_def set_reg16_def, cases r; simp)

lemma skip_word:
  assumes "stack_holds (Suc n) M" "stack_of (Suc n) M = v # vs"
  shows "stack_of n (set_reg16 SP (R_SP M + 2) M) = vs \<and> stack_holds n (set_reg16 SP (R_SP M + 2) M)"
  using pop_stack [OF assms(1)] assms(2) by (simp add: move_SP)

lemma pop_all_ok:
  assumes "x_mode M AND SYSMODE_PREFIX_DATA = 0" "stack_holds 8 M" "stack_of 8 M = [di, si, bp, sp, bx, dx, cx, ax]"
  shows "\<exists>M'. x86emuOp_pop_all M = Some M' \<and> get_reg16 AX M' = ax \<and> get_reg16 CX M' = cx \<and> get_reg16 DX M' = dx \<and> get_reg16 BX M' = bx
    \<and> get_reg16 BP M' = bp \<and> get_reg16 SI M' = si \<and> get_reg16 DI M' = di \<and> get_reg16 SP M' = get_reg16 SP M + 16"
proof -
  obtain M1 where 1: "pop_into_word DI M = Some M1" "stack_of 7 M1 = [si, bp, sp, bx, dx, cx, ax]" "stack_holds 7 M1"
      "get_reg16 DI M1 = di" "get_reg16 SP M1 = get_reg16 SP M + 2"
    using pop_into [of DI 7 M] assms by auto
  obtain M2 where 2: "pop_into_word SI M1 = Some M2" "stack_of 6 M2 = [bp, sp, bx, dx, cx, ax]" "stack_holds 6 M2"
      "get_reg16 SI M2 = si" "get_reg16 SP M2 = get_reg16 SP M1 + 2" "get_reg16 DI M2 = get_reg16 DI M1"
    using pop_into [of SI 6 M1] 1 by auto
  obtain M3 where 3: "pop_into_word BP M2 = Some M3" "stack_of 5 M3 = [sp, bx, dx, cx, ax]" "stack_holds 5 M3"
      "get_reg16 BP M3 = bp" "get_reg16 SP M3 = get_reg16 SP M2 + 2" "get_reg16 DI M3 = get_reg16 DI M2" "get_reg16 SI M3 = get_reg16 SI M2"
    using pop_into [of BP 5 M2] 2 by auto
  define M4 where "M4 = set_reg16 SP (R_SP M3 + 2) M3"
  have 4: "stack_of 4 M4 = [bx, dx, cx, ax]" "stack_holds 4 M4" "get_reg16 SP M4 = get_reg16 SP M3 + 2"
      "get_reg16 DI M4 = get_reg16 DI M3" "get_reg16 SI M4 = get_reg16 SI M3" "get_reg16 BP M4 = get_reg16 BP M3"
    using skip_word [of 4 M3] 3 by (simp_all add: M4_def get_set_reg16) (simp add: get_reg16_def)
  obtain M5 where 5: "pop_into_word BX M4 = Some M5" "stack_of 3 M5 = [dx, cx, ax]" "stack_holds 3 M5"
      "get_reg16 BX M5 = bx" "get_reg16 SP M5 = get_reg16 SP M4 + 2" "\<And>r. r \<in> {DI, SI, BP} \<Longrightarrow> get_reg16 r M5 = get_reg16 r M4"
    using pop_into [of BX 3 M4] 4 by auto
  obtain M6 where 6: "pop_into_word DX M5 = Some M6" "stack_of 2 M6 = [cx, ax]" "stack_holds 2 M6"
      "get_reg16 DX M6 = dx" "get_reg16 SP M6 = get_reg16 SP M5 + 2" "\<And>r. r \<in> {DI, SI, BP, BX} \<Longrightarrow> get_reg16 r M6 = get_reg16 r M5"
    using pop_into [of DX 2 M5] 5 by auto
  obtain M7 where 7: "pop_into_word CX M6 = Some M7" "stack_of 1 M7 = [ax]" "stack_holds 1 M7"
      "get_reg16 CX M7 = cx" "get_reg16 SP M7 = get_reg16 SP M6 + 2" "\<And>r. r \<in> {DI, SI, BP, BX, DX} \<Longrightarrow> get_reg16 r M7 = get_reg16 r M6"
    using pop_into [of CX 1 M6] 6 by (auto simp: numeral_2_eq_2)
  obtain M8 where 8: "pop_into_word AX M7 = Some M8"
      "get_reg16 AX M8 = ax" "get_reg16 SP M8 = get_reg16 SP M7 + 2" "\<And>r. r \<in> {DI, SI, BP, BX, DX, CX} \<Longrightarrow> get_reg16 r M8 = get_reg16 r M7"
    using pop_into [of AX 0 M7] 7 by auto
  have "x86emuOp_pop_all M = Some (DECODE_CLEAR_SEGOVR M8)"
    using assms(1) 1(1) 2(1) 3(1) 5(1) 6(1) 7(1) 8(1) by (simp add: x86emuOp_pop_all_def clearing_def by_data_size_def M4_def)
  moreover have "get_reg16 r (DECODE_CLEAR_SEGOVR M8) = get_reg16 r M8" for r
    by (cases r) (simp_all add: get_reg16_def DECODE_CLEAR_SEGOVR_def)
  ultimately show ?thesis using 1 2 3 4 5 6 7 8 by simp
qed

lemma no_data_prefix: "(m AND NOT SYSMODE_CLRMASK) AND SYSMODE_PREFIX_DATA = 0"
proof -
  have "NOT SYSMODE_CLRMASK AND SYSMODE_PREFIX_DATA = 0" by code_simp
  then show ?thesis by (simp add: and.assoc)
qed

lemma push_all_ok:
  assumes "x_mode M AND SYSMODE_PREFIX_DATA = 0" "stack_room 16 M"
  shows "\<exists>M'. x86emuOp_push_all M = Some M' \<and> stack_of 8 M' = [R_DI M, R_SI M, R_BP M, R_SP M, R_BX M, R_DX M, R_CX M, R_AX M]
    \<and> stack_holds 8 M' \<and> get_reg16 SP M' = get_reg16 SP M - 16"
proof -
  have "unat (R_SP M) < 65536" using unsigned_less [of "R_SP M", where 'a = nat] by simp
  then have "stack_holds 0 M" using assms(2) by (simp add: stack_holds_def stack_room_def)
  from push_words_ok [OF _ this, of "[R_AX M, R_CX M, R_DX M, R_BX M, R_SP M, R_BP M, R_SI M, R_DI M]"] assms(2)
  obtain M' where "push_words [R_AX M, R_CX M, R_DX M, R_BX M, R_SP M, R_BP M, R_SI M, R_DI M] M = Some M'"
      "stack_of 8 M' = [R_DI M, R_SI M, R_BP M, R_SP M, R_BX M, R_DX M, R_CX M, R_AX M]" "stack_holds 8 M'" "R_SP M' = R_SP M - 16"
    by (auto simp: eval_nat_numeral stack_of_def [of 0])
  then show ?thesis using assms(1)
    by (simp add: x86emuOp_push_all_def clearing_def by_data_size_def Let_def DECODE_CLEAR_SEGOVR_def stack_of_def stack_holds_def
        sp_addr_def get_reg16_def)
qed

section \<open>Properties\<close>

text \<open>C23: the stack of the emulator implements a stack of words. With room for a word, \<open>push_word\<close> succeeds and puts its argument in front
  of the words on the stack; with a word on the stack, \<open>pop_word\<close> succeeds, returns the first word and takes it off. Neither changes
  a register but the stack pointer, and a pop changes no memory.\<close>

theorem x86_stack_refines:
  assumes "stack_holds n M"
  shows "(stack_room 2 M \<longrightarrow> (\<exists>M'. push_word w M = Some M' \<and> stack_of (Suc n) M' = w # stack_of n M \<and> stack_holds (Suc n) M'
      \<and> M' = M\<lparr>R_ESP := set_lo16 (R_SP M - 2) (R_ESP M), x_mem := x_mem M'\<rparr>))
    \<and> (n \<noteq> 0 \<longrightarrow> (\<exists>M'. pop_word M = Some (hd (stack_of n M), M') \<and> stack_of (n - 1) M' = tl (stack_of n M) \<and> stack_holds (n - 1) M'
      \<and> M' = M\<lparr>R_ESP := set_lo16 (R_SP M + 2) (R_ESP M)\<rparr>))"
proof (intro conjI impI)
  assume "stack_room 2 M"
  then show "\<exists>M'. push_word w M = Some M' \<and> stack_of (Suc n) M' = w # stack_of n M \<and> stack_holds (Suc n) M'
      \<and> M' = M\<lparr>R_ESP := set_lo16 (R_SP M - 2) (R_ESP M), x_mem := x_mem M'\<rparr>"
    using stack_of_pushed [OF _ assms] by (intro exI [of _ "pushed w M"]) (simp add: push_word_ok pushed_def)
next
  assume "n \<noteq> 0"
  then obtain k where "n = Suc k" using not0_implies_Suc by blast
  then show "\<exists>M'. pop_word M = Some (hd (stack_of n M), M') \<and> stack_of (n - 1) M' = tl (stack_of n M) \<and> stack_holds (n - 1) M'
      \<and> M' = M\<lparr>R_ESP := set_lo16 (R_SP M + 2) (R_ESP M)\<rparr>"
    using pop_stack [of k M] assms by (intro exI [of _ "M\<lparr>R_ESP := set_lo16 (R_SP M + 2) (R_ESP M)\<rparr>"]) simp
qed

theorem x86_stack_refines_witness:
  "\<exists>M'. push_word 0x1234 sample = Some M' \<and> stack_of 2 M' = [0x1234, 0] \<and> R_SP M' = 0xFE"
proof -
  have h: "stack_holds 1 sample" "stack_room 2 sample"
    by (simp_all add: stack_holds_def stack_room_def unat_sp_addr) (simp_all add: sample_def lo16_def)
  have "stack_of 1 sample = [0]" by (simp add: stack_of_def load16_def sp_addr_def) (simp add: sample_def lo16_def push_bit_eq_mult)
  moreover obtain M' where M': "push_word 0x1234 sample = Some M'" "stack_of (Suc 1) M' = 0x1234 # stack_of 1 sample"
      "M' = sample\<lparr>R_ESP := set_lo16 (R_SP sample - 2) (R_ESP sample), x_mem := x_mem M'\<rparr>"
    using x86_stack_refines [OF h(1), of "0x1234"] h(2) by blast
  moreover have "R_ESP M' = set_lo16 (R_SP sample - 2) (R_ESP sample)" by (subst M'(3)) simp
  then have "R_SP M' = 0xFE" by (simp add: reg_views) (simp add: sample_def lo16_def)
  ultimately show ?thesis by (metis Suc_1)
qed

text \<open>\<open>popa\<close> undoes \<open>pusha\<close>. With room for eight words, \<open>pusha\<close> succeeds; and from every later state that has the same words on the
  stack, \<open>popa\<close> succeeds and restores all eight 16-bit registers, the stack pointer among them, whatever they hold then.\<close>

theorem x86_pusha_popa:
  assumes "stack_room 16 M" "x_mode M AND SYSMODE_PREFIX_DATA = 0"
  shows "\<exists>M1. x86emuOp_push_all M = Some M1
    \<and> (\<forall>M2. stack_of 8 M2 = stack_of 8 M1 \<and> stack_holds 8 M2 \<and> get_reg16 SP M2 = get_reg16 SP M1 \<and> x_mode M2 AND SYSMODE_PREFIX_DATA = 0
         \<longrightarrow> (\<exists>M3. x86emuOp_pop_all M2 = Some M3 \<and> (\<forall>r. get_reg16 r M3 = get_reg16 r M)))"
proof -
  obtain M1 where 1: "x86emuOp_push_all M = Some M1" "stack_of 8 M1 = [R_DI M, R_SI M, R_BP M, R_SP M, R_BX M, R_DX M, R_CX M, R_AX M]"
      "stack_holds 8 M1" "get_reg16 SP M1 = get_reg16 SP M - 16"
    using push_all_ok [OF assms(2,1)] by blast
  have "\<exists>M3. x86emuOp_pop_all M2 = Some M3 \<and> (\<forall>r. get_reg16 r M3 = get_reg16 r M)"
    if s: "stack_of 8 M2 = stack_of 8 M1" "stack_holds 8 M2" "get_reg16 SP M2 = get_reg16 SP M1" "x_mode M2 AND SYSMODE_PREFIX_DATA = 0" for M2
  proof -
    obtain M3 where 3: "x86emuOp_pop_all M2 = Some M3" "get_reg16 AX M3 = R_AX M" "get_reg16 CX M3 = R_CX M" "get_reg16 DX M3 = R_DX M"
        "get_reg16 BX M3 = R_BX M" "get_reg16 BP M3 = R_BP M" "get_reg16 SI M3 = R_SI M" "get_reg16 DI M3 = R_DI M"
        "get_reg16 SP M3 = get_reg16 SP M2 + 16"
      using pop_all_ok [OF s(4,2)] s(1) 1(2) by metis
    have "get_reg16 r M3 = get_reg16 r M" for r
      using 3 1(4) s(3) by (cases r) (simp_all add: get_reg16_def)
    then show ?thesis using 3(1) by blast
  qed
  then show ?thesis using 1(1) by blast
qed

theorem x86_pusha_popa_witness:
  "\<exists>M1 M3. x86emuOp_push_all sample = Some M1 \<and> x86emuOp_pop_all (set_reg16 AX 0xFFFF M1) = Some M3 \<and> R_AX M3 = 1 \<and> R_SP M3 = 0x100"
proof -
  have r: "stack_room 16 sample" "x_mode sample AND SYSMODE_PREFIX_DATA = 0"
    by (simp_all add: stack_room_def unat_sp_addr) (simp_all add: sample_def lo16_def)
  obtain M1 where 1: "x86emuOp_push_all sample = Some M1" and popa: "\<And>M2. stack_of 8 M2 = stack_of 8 M1 \<Longrightarrow> stack_holds 8 M2 \<Longrightarrow>
      get_reg16 SP M2 = get_reg16 SP M1 \<Longrightarrow> x_mode M2 AND SYSMODE_PREFIX_DATA = 0 \<Longrightarrow>
      \<exists>M3. x86emuOp_pop_all M2 = Some M3 \<and> (\<forall>r. get_reg16 r M3 = get_reg16 r sample)"
    using x86_pusha_popa [OF r] by blast
  have "stack_holds 8 M1" using push_all_ok [OF r(2,1)] 1 by auto
  moreover have "x_mode M1 AND SYSMODE_PREFIX_DATA = 0"
    using 1 by (auto simp: x86emuOp_push_all_def clearing_def DECODE_CLEAR_SEGOVR_def no_data_prefix split: bind_splits)
  ultimately obtain M3 where "x86emuOp_pop_all (set_reg16 AX 0xFFFF M1) = Some M3" "\<forall>r. get_reg16 r M3 = get_reg16 r sample"
    using popa [of "set_reg16 AX 0xFFFF M1"] mode_set_reg16 [of AX "0xFFFF" M1] by (auto simp: set_reg16_stack get_set_reg16)
  moreover have "R_AX sample = 1" "R_SP sample = 0x100" by (simp_all add: sample_def lo16_def)
  ultimately show ?thesis using 1 by (metis get_reg16_def get_reg32.simps(1,5) wide16.simps(1,5))
qed

section \<open>Calls\<close>

lemma same_stack: "stack_holds 1 M \<Longrightarrow> pop_word M = Some (hd (stack_of 1 M), set_reg16 SP (R_SP M + 2) M)"
  using pop_stack(1) [of 0 M] by (simp add: move_SP)

lemma ret_near_ok:
  assumes "stack_holds 1 M" "stack_of 1 M = [ip]"
  shows "\<exists>M'. x86emuOp_ret_near M = Some M' \<and> R_IP M' = ip \<and> R_CS M' = R_CS M \<and> R_SP M' = R_SP M + 2"
  using assms
  by (simp add: x86emuOp_ret_near_def clearing_def pop_IP_def same_stack DECODE_CLEAR_SEGOVR_def set_IP_def set_reg16_def reg_views)

lemma ret_far_ok:
  assumes "stack_holds 2 M" "stack_of 2 M = [ip, cs]"
  shows "\<exists>M'. x86emuOp_ret_far M = Some M' \<and> R_IP M' = ip \<and> R_CS M' = cs \<and> R_SP M' = R_SP M + 4"
proof -
  let ?N = "set_reg16 SP (R_SP M + 2) M"
  have p: "pop_word M = Some (ip, ?N)" "stack_of 1 ?N = [cs]" "stack_holds 1 ?N"
    using pop_stack [of 1 M] assms by (simp_all add: move_SP numeral_2_eq_2)
  have i: "stack_holds 1 (X86_Ops_Flow.set_IP ip ?N)" "stack_of 1 (X86_Ops_Flow.set_IP ip ?N) = [cs]"
    using p by (simp_all add: set_IP_def stack_holds_def stack_of_def sp_addr_def)
  show ?thesis
    using i by (simp add: x86emuOp_ret_far_def clearing_def pop_IP_def pop_CS_def p(1) same_stack [OF i(1)])
      (simp add: DECODE_CLEAR_SEGOVR_def set_IP_def set_reg16_def reg_views)
qed

lemma lo16_ext: "lo16 (scast w) = w" "lo16 (ucast w AND 0xffff) = w" for w :: u16
proof -
  show "lo16 (scast w) = w" unfolding lo16_def by (rule bit_eqI) (auto simp: bit_simps)
  have m: "(0xffff :: u32) = mask 16" by (simp add: mask_eq_exp_minus_1)
  show "lo16 (ucast w AND 0xffff) = w" unfolding lo16_def m by (rule bit_eqI) (auto simp: bit_simps)
qed

lemma call_near_ok:
  assumes "fetch_word_imm M = Some (w, N)" "x_mode M AND SYSMODE_PREFIX_DATA = 0" "stack_room 2 N"
  shows "\<exists>M'. x86emuOp_call_near_IMM M = Some M' \<and> R_IP M' = R_IP N + w \<and> R_CS M' = R_CS N \<and> stack_holds 1 M' \<and> stack_of 1 M' = [R_IP N]
    \<and> R_SP M' = R_SP N - 2"
proof -
  have "unat (R_SP N) < 65536" using unsigned_less [of "R_SP N", where 'a = nat] by simp
  then have "stack_holds 0 N" using assms(3) by (simp add: stack_holds_def stack_room_def)
  from stack_of_pushed [OF assms(3) this, of "R_IP N"]
  have s: "stack_of 1 (pushed (R_IP N) N) = [R_IP N]" "stack_holds 1 (pushed (R_IP N) N)" by (simp_all add: stack_of_def [of 0])
  have "lo16 (scast (w + R_IP N)) = R_IP N + w" using lo16_ext(1) [of "w + R_IP N"] by (simp add: add.commute)
  then show ?thesis
    using assms(1,2) s
    by (simp add: x86emuOp_call_near_IMM_def clearing_def by_data_size_def push_word_ok [OF assms(3)] DECODE_CLEAR_SEGOVR_def reg_views
        stack_of_def stack_holds_def sp_addr_def)
qed

lemma call_far_ok:
  assumes "fetch_word_imm M = Some (off, N1)" "fetch_word_imm N1 = Some (seg, N)" "x_mode M AND SYSMODE_PREFIX_DATA = 0" "x_mode N = x_mode M"
    "stack_room 4 N"
  shows "\<exists>M'. x86emuOp_call_far_IMM M = Some M' \<and> R_IP M' = off \<and> R_CS M' = seg \<and> stack_holds 2 M' \<and> stack_of 2 M' = [R_IP N, R_CS N]
    \<and> R_SP M' = R_SP N - 4"
proof -
  let ?P = "(pushed (R_CS N) N)\<lparr>R_CS := seg\<rparr>"
  have "unat (R_SP N) < 65536" using unsigned_less [of "R_SP N", where 'a = nat] by simp
  then have h: "stack_holds 0 N" using assms(5) by (simp add: stack_holds_def stack_room_def)
  have r: "stack_room 2 N" using stack_room_mono [OF assms(5)] by simp
  have "stack_of 1 (pushed (R_CS N) N) = [R_CS N]" "stack_holds 1 (pushed (R_CS N) N)"
    using stack_of_pushed [OF r h, of "R_CS N"] by (simp_all add: stack_of_def [of 0])
  then have p: "stack_of 1 ?P = [R_CS N]" "stack_holds 1 ?P" by (simp_all add: stack_of_def stack_holds_def sp_addr_def)
  have r': "stack_room 2 ?P" using stack_room_pushed [of 2 N "R_CS N"] assms(5) by simp
  have q: "stack_of 2 (pushed (R_IP N) ?P) = [R_IP N, R_CS N]" "stack_holds 2 (pushed (R_IP N) ?P)"
    using stack_of_pushed [OF r' p(2), of "R_IP N"] p(1) by (simp_all add: numeral_2_eq_2)
  show ?thesis
    using assms(1-4) q
    by (simp add: x86emuOp_call_far_IMM_def clearing_def by_data_size_def push_word_ok [OF r] push_word_ok [OF r'] DECODE_CLEAR_SEGOVR_def
        reg_views stack_of_def stack_holds_def sp_addr_def algebra_simps lo16_ext)
qed

text \<open>A return undoes a call. \<open>call\<close> with a 16-bit displacement, and the far \<open>call\<close>, go to their target with the address of the
  next instruction on the stack; and from every later state that has the same words on the stack at the same stack pointer, the return
  goes to that address and leaves the stack pointer where it was before the call.\<close>

theorem x86_call_return:
  assumes "x_mode M AND SYSMODE_PREFIX_DATA = 0" "fetch_word_imm M = Some (w, N1)" "fetch_word_imm N1 = Some (seg, N2)" "x_mode N2 = x_mode M"
    "stack_room 4 N1" "stack_room 4 N2"
  shows "(\<exists>M1. x86emuOp_call_near_IMM M = Some M1 \<and> R_CS M1 = R_CS N1 \<and> R_IP M1 = R_IP N1 + w
      \<and> (\<forall>M2. stack_of 1 M2 = stack_of 1 M1 \<and> stack_holds 1 M2 \<and> R_SP M2 = R_SP M1 \<longrightarrow>
           (\<exists>M3. x86emuOp_ret_near M2 = Some M3 \<and> R_IP M3 = R_IP N1 \<and> R_CS M3 = R_CS M2 \<and> R_SP M3 = R_SP N1)))
    \<and> (\<exists>M1. x86emuOp_call_far_IMM M = Some M1 \<and> R_CS M1 = seg \<and> R_IP M1 = w
      \<and> (\<forall>M2. stack_of 2 M2 = stack_of 2 M1 \<and> stack_holds 2 M2 \<and> R_SP M2 = R_SP M1 \<longrightarrow>
           (\<exists>M3. x86emuOp_ret_far M2 = Some M3 \<and> R_IP M3 = R_IP N2 \<and> R_CS M3 = R_CS N2 \<and> R_SP M3 = R_SP N2)))"
proof -
  have r: "stack_room 2 N1" using stack_room_mono [OF assms(5)] by simp
  obtain A where A: "x86emuOp_call_near_IMM M = Some A" "R_CS A = R_CS N1" "R_IP A = R_IP N1 + w" "stack_of 1 A = [R_IP N1]" "R_SP A = R_SP N1 - 2"
    using call_near_ok [OF assms(2,1) r] by blast
  obtain B where B: "x86emuOp_call_far_IMM M = Some B" "R_CS B = seg" "R_IP B = w" "stack_of 2 B = [R_IP N2, R_CS N2]" "R_SP B = R_SP N2 - 4"
    using call_far_ok [OF assms(2,3,1,4,6)] by blast
  have "\<exists>M3. x86emuOp_ret_near M2 = Some M3 \<and> R_IP M3 = R_IP N1 \<and> R_CS M3 = R_CS M2 \<and> R_SP M3 = R_SP N1"
    if "stack_of 1 M2 = stack_of 1 A" "stack_holds 1 M2" "R_SP M2 = R_SP A" for M2
    using ret_near_ok [OF that(2), of "R_IP N1"] that A(4,5) by simp
  moreover have "\<exists>M3. x86emuOp_ret_far M2 = Some M3 \<and> R_IP M3 = R_IP N2 \<and> R_CS M3 = R_CS N2 \<and> R_SP M3 = R_SP N2"
    if "stack_of 2 M2 = stack_of 2 B" "stack_holds 2 M2" "R_SP M2 = R_SP B" for M2
    using ret_far_ok [OF that(2), of "R_IP N2" "R_CS N2"] that B(4,5) by simp
  ultimately show ?thesis using A(1-3) B(1-3) by blast
qed

theorem x86_call_return_witness:
  "\<exists>M1 M3. x86emuOp_call_far_IMM sample = Some M1 \<and> R_CS M1 = 0 \<and> x86emuOp_ret_far M1 = Some M3 \<and> R_IP M3 = 0x46 \<and> R_CS M3 = 0x10 \<and> R_SP M3 = 0x100"
proof -
  have s: "R_CS sample = 0x10" "R_IP sample = 0x42" "R_SP sample = 0x100" "R_SS sample = 0x100" "mem_size sample = 0x2000" "x_mode sample = 0"
    by (simp_all add: sample_def lo16_def)
  have p: "pc sample = 0x142" "pc (next_ip 2 sample) = 0x144"
    using s by (simp_all add: pc_def push_bit_eq_mult)
  have l: "load16 (x_mem sample) 0x142 = 0" "load16 (x_mem sample) 0x144 = 0" by (simp_all add: load16_def sample_def)
  have f: "fetch_word_imm sample = Some (0, next_ip 2 sample)" "fetch_word_imm (next_ip 2 sample) = Some (0, next_ip 4 sample)"
    using fetch_ok(3) [of sample] fetch_ok(3) [of "next_ip 2 sample"] s by (simp_all add: p l bytes_in_def)
  have r: "stack_room 4 (next_ip 2 sample)" "stack_room 4 (next_ip 4 sample)"
    using s by (simp_all add: stack_room_def unat_sp_addr)
  obtain M1 where 1: "x86emuOp_call_far_IMM sample = Some M1" "R_CS M1 = 0"
    and ret: "\<And>M2. stack_of 2 M2 = stack_of 2 M1 \<Longrightarrow> stack_holds 2 M2 \<Longrightarrow> R_SP M2 = R_SP M1 \<Longrightarrow>
      \<exists>M3. x86emuOp_ret_far M2 = Some M3 \<and> R_IP M3 = R_IP (next_ip 4 sample) \<and> R_CS M3 = R_CS (next_ip 4 sample) \<and> R_SP M3 = R_SP (next_ip 4 sample)"
    using x86_call_return [OF _ f _ r] s by auto
  have "stack_holds 2 M1" using call_far_ok [OF f _ _ r(2)] s 1(1) by auto
  then show ?thesis using ret [of M1] 1 s by auto
qed

end
