(* ===== verification/X86_Block.thy ===== *)
theory X86_Block
  imports X86_Stack
begin

unbundle bit_operations_syntax

text \<open>
  The repeated string instructions as operations on blocks of memory: \<open>rep movsb\<close> copies a block, \<open>rep stosb\<close> fills one. The
  first counts in a local variable, the second in the register CX.
\<close>

section \<open>Addresses\<close>

definition at :: "u16 \<Rightarrow> u16 \<Rightarrow> u32" where
  "at seg off = push_bit 4 (ucast seg) + ucast off"

lemma unat_at: "unat (at seg off) = unat seg * 16 + unat off"
proof -
  have "lo16 (ucast off) = off" unfolding lo16_def by (rule bit_eqI) (auto simp: bit_simps)
  then show ?thesis using unat_sp_addr [of "undefined\<lparr>R_SS := seg, R_ESP := ucast off\<rparr>"] by (simp add: sp_addr_def at_def)
qed

lemma at_Suc:
  assumes "unat off + 1 < 65536"
  shows "at seg (off + 1) = at seg off + 1" "unat (off + 1) = unat off + 1"
proof -
  show u: "unat (off + 1) = unat off + 1" using assms by (simp add: unat_word_ariths)
  have "unat seg < 65536" using unsigned_less [of seg, where 'a = nat] by simp
  then have "unat (at seg off + 1) = unat (at seg off) + 1" using unat_plus [of "at seg off" 1] assms by (simp add: unat_at)
  then show "at seg (off + 1) = at seg off + 1" using u by (simp add: word_unat_eq_iff unat_at)
qed

lemma wrb_ok: "bytes_in 1 a M \<Longrightarrow> wrb a v M = Some (M\<lparr>x_mem := (x_mem M)(a := v)\<rparr>)"
  using not_past_end [of 1 a M] by (simp add: wrb_def)

lemma at_offset: "unat seg * 16 + unat off + k < 2 ^ 32 \<Longrightarrow> i \<le> k \<Longrightarrow> unat (at seg off + word_of_nat i) = unat (at seg off) + i"
  using unat_plus [of "at seg off" "word_of_nat i"] by (simp add: unat_at unat_of_nat)

lemma bytes_in_upd [simp]:
  "bytes_in n a (M\<lparr>x_mem := m\<rparr>) = bytes_in n a M" "bytes_in n a (set_reg16 r v M) = bytes_in n a M" "mem_size (set_reg16 r v M) = mem_size M"
  by (cases r; simp add: bytes_in_def set_reg16_def)+

section \<open>Copying\<close>

text \<open>The machine after \<open>k\<close> steps: both index registers moved on, and the memory \<open>m\<close>.\<close>

definition copied :: "nat \<Rightarrow> (u32 \<Rightarrow> u8) \<Rightarrow> x86 \<Rightarrow> x86" where
  "copied k m M = (M\<lparr>R_ESI := set_lo16 (R_SI M + word_of_nat k) (R_ESI M), R_EDI := set_lo16 (R_DI M + word_of_nat k) (R_EDI M), x_mem := m\<rparr>)"

definition block_set :: "nat \<Rightarrow> u32 \<Rightarrow> (nat \<Rightarrow> u8) \<Rightarrow> (u32 \<Rightarrow> u8) \<Rightarrow> (u32 \<Rightarrow> u8) \<Rightarrow> bool" where
  "block_set k d f m m' \<longleftrightarrow> (\<forall>i<k. m' (d + word_of_nat i) = f i) \<and> (\<forall>a. (\<forall>i<k. a \<noteq> d + word_of_nat i) \<longrightarrow> m' a = m a)"

lemma block_set_Suc:
  assumes "block_set k (d + 1) g (m(d := f 0)) m'" "\<And>i. i < k \<Longrightarrow> g i = f (Suc i)" "unat d + k < 2 ^ 32"
  shows "block_set (Suc k) d f m m'"
proof -
  have apart: "d + 1 + word_of_nat i \<noteq> d" if "i < k" for i
  proof -
    have "unat (1 + word_of_nat i :: u32) = 1 + i" using that assms(3) by (simp add: unat_word_ariths unat_of_nat)
    then show ?thesis by (auto simp: add.assoc)
  qed
  have "m' (d + word_of_nat i) = f i" if "i < Suc k" for i
  proof (cases i)
    case 0
    then show ?thesis using assms(1) apart by (auto simp: block_set_def)
  next
    case (Suc j)
    then show ?thesis using assms(1) assms(2) [of j] that by (auto simp: block_set_def algebra_simps)
  qed
  moreover have "m' a = m a" if n: "\<forall>i<Suc k. a \<noteq> d + word_of_nat i" for a
  proof -
    have "a \<noteq> d" using n [rule_format, of 0] by simp
    moreover have "\<forall>j<k. a \<noteq> d + 1 + word_of_nat j" using n [rule_format, of "Suc j" for j] by (simp add: algebra_simps)
    ultimately show ?thesis using assms(1) by (simp add: block_set_def)
  qed
  ultimately show ?thesis by (simp add: block_set_def)
qed

lemma movs_step_ok:
  assumes "x_mode M AND SYSMODE_SEGMASK = 0" "bytes_in 1 (at (R_DS M) (R_SI M)) M" "bytes_in 1 (at (R_ES M) (R_DI M)) M"
  shows "movs_step fetch_data_byte store_data_byte_abs 1 M =
    Some (copied 1 ((x_mem M)(at (R_ES M) (R_DI M) := x_mem M (at (R_DS M) (R_SI M)))) M)"
proof -
  have "fetch_data_byte (ucast (R_SI M)) M = Some (x_mem M (at (R_DS M) (R_SI M)), M)"
    using rdb_ok [OF assms(2)] by (simp add: fetch_data_byte_def default_segment(1) [OF assms(1)] at_def)
  moreover have "store_data_byte_abs (ucast (R_ES M)) (ucast (R_DI M)) v M = Some (M\<lparr>x_mem := (x_mem M)(at (R_ES M) (R_DI M) := v)\<rparr>)" for v
    using wrb_ok [OF assms(3)] by (simp add: store_data_byte_abs_def at_def)
  ultimately show ?thesis
    by (simp add: movs_step_def at_SI_def at_ES_DI_def move_SI_def move_DI_def set_reg16_def copied_def)
qed

lemma copied_simps [simp]:
  "x_mode (copied k m M) = x_mode M" "R_DS (copied k m M) = R_DS M" "R_ES (copied k m M) = R_ES M" "mem_size (copied k m M) = mem_size M"
  "R_SI (copied k m M) = R_SI M + word_of_nat k" "R_DI (copied k m M) = R_DI M + word_of_nat k" "x_mem (copied k m M) = m"
  "bytes_in n a (copied k m M) = bytes_in n a M" "copied j m' (copied k m M) = copied (k + j) m' M" "R_ECX (copied k m M) = R_ECX M"
  "R_EAX (copied k m M) = R_EAX M" "R_FLG (copied k m M) = R_FLG M"
  by (simp_all add: copied_def reg_views bytes_in_def add.assoc)

lemma movs_loop:
  assumes "x_mode M AND SYSMODE_SEGMASK = 0" "unat (R_SI M) + k < 65536" "unat (R_DI M) + k < 65536"
    "bytes_in k (at (R_DS M) (R_SI M)) M" "bytes_in k (at (R_ES M) (R_DI M)) M"
    "unat (at (R_ES M) (R_DI M)) \<le> unat (at (R_DS M) (R_SI M)) \<or> unat (at (R_DS M) (R_SI M)) + k \<le> unat (at (R_ES M) (R_DI M))"
  shows "\<exists>m. repeat_n k (movs_step fetch_data_byte store_data_byte_abs 1) M = Some (copied k m M)
    \<and> block_set k (at (R_ES M) (R_DI M)) (\<lambda>i. x_mem M (at (R_DS M) (R_SI M) + word_of_nat i)) (x_mem M) m"
  using assms
proof (induction k arbitrary: M)
  case 0
  have "copied 0 (x_mem M) M = M" by (simp add: copied_def reg_views)
  then show ?case by (metis block_set_def not_less_zero repeat_n.simps(1))
next
  case (Suc k)
  let ?s = "at (R_DS M) (R_SI M)" and ?d = "at (R_ES M) (R_DI M)"
  define m1 where "m1 = (x_mem M)(?d := x_mem M ?s)"
  let ?M = "copied 1 m1 M"
  have step: "movs_step fetch_data_byte store_data_byte_abs 1 M = Some ?M"
    using movs_step_ok [OF Suc.prems(1)] Suc.prems(4,5) by (simp add: bytes_in_def m1_def)
  have s: "at (R_DS M) (R_SI M + 1) = ?s + 1" "unat (R_SI M + 1) = unat (R_SI M) + 1"
    and d: "at (R_ES M) (R_DI M + 1) = ?d + 1" "unat (R_DI M + 1) = unat (R_DI M) + 1"
    using at_Suc Suc.prems(2,3) by simp_all
  have us: "unat (?s + 1) = unat ?s + 1" and ud: "unat (?d + 1) = unat ?d + 1"
    using s d by (simp_all flip: s(1) d(1) add: unat_at)
  have k: "unat ?s + k < 2 ^ 32" "unat ?d + k < 2 ^ 32"
    using Suc.prems(4,5) u32_max [of "mem_size M"] unfolding bytes_in_def by linarith+
  obtain m where m: "repeat_n k (movs_step fetch_data_byte store_data_byte_abs 1) ?M = Some (copied k m ?M)"
      "block_set k (?d + 1) (\<lambda>i. m1 (?s + 1 + word_of_nat i)) m1 m"
    using Suc.IH [of ?M] Suc.prems s d us ud by (auto simp: bytes_in_def)
  have "block_set (Suc k) ?d (\<lambda>i. x_mem M (?s + word_of_nat i)) (x_mem M) m"
  proof (rule block_set_Suc [where g = "\<lambda>i. m1 (?s + 1 + word_of_nat i)"])
    fix i assume i: "i < k"
    have "unat (?s + 1 + word_of_nat i) = unat ?s + 1 + i"
      using unat_plus [of "?s + 1" "word_of_nat i"] k(1) i us by (simp add: unat_of_nat)
    then have "?s + 1 + word_of_nat i \<noteq> ?d" using Suc.prems(6) i by (auto simp: word_unat_eq_iff)
    then show "m1 (?s + 1 + word_of_nat i) = x_mem M (?s + word_of_nat (Suc i))" by (simp add: m1_def algebra_simps)
  qed (use m(2) k(2) in \<open>simp_all add: m1_def\<close>)
  then show ?case using step m(1) by (auto simp: add.commute)
qed

section \<open>Filling\<close>

definition filled :: "nat \<Rightarrow> (u32 \<Rightarrow> u8) \<Rightarrow> x86 \<Rightarrow> x86" where
  "filled k m M = M\<lparr>R_ECX := set_lo16 (R_CX M - word_of_nat k) (R_ECX M), R_EDI := set_lo16 (R_DI M + word_of_nat k) (R_EDI M), x_mem := m\<rparr>"

lemma filled_simps [simp]:
  "x_mode (filled k m M) = x_mode M" "R_ES (filled k m M) = R_ES M" "R_DI (filled k m M) = R_DI M + word_of_nat k"
  "R_CX (filled k m M) = R_CX M - word_of_nat k" "x_mem (filled k m M) = m" "bytes_in n a (filled k m M) = bytes_in n a M"
  "filled j m' (filled k m M) = filled (k + j) m' M" "mem_size (filled k m M) = mem_size M" "R_EAX (filled k m M) = R_EAX M" "R_ESI (filled k m M) = R_ESI M"
  by (simp_all add: filled_def reg_views bytes_in_def algebra_simps)

definition fill_body :: "x86 \<Rightarrow> x86 option" where
  "fill_body M = do { M \<leftarrow> stos_step BYTE store_data_byte_abs 1 M; Some (dec_CX M) }"

lemma stos_step_ok:
  assumes "bytes_in 1 (at (R_ES M) (R_DI M)) M"
  shows "fill_body M = Some (filled 1 ((x_mem M)(at (R_ES M) (R_DI M) := R_AL M)) M)"
  using wrb_ok [OF assms, of "R_AL M"]
  by (simp add: fill_body_def stos_step_def at_ES_DI_def store_data_byte_abs_def at_def BYTE_def get_reg8_def move_DI_def dec_CX_def set_reg16_def
      filled_def)

lemma stos_loop:
  assumes "unat (R_CX M) = k" "unat (R_DI M) + k < 65536" "bytes_in k (at (R_ES M) (R_DI M)) M"
  shows "\<exists>m. while_CX fill_body (\<lambda>_. False) M = Some (filled k m M)
    \<and> block_set k (at (R_ES M) (R_DI M)) (\<lambda>_. R_AL M) (x_mem M) m"
  using assms
proof (induction k arbitrary: M)
  case 0
  have "filled 0 (x_mem M) M = M" by (simp add: filled_def reg_views)
  moreover have "R_CX M = 0" using 0 by (simp add: unat_eq_zero)
  ultimately have "while_CX fill_body (\<lambda>_. False) M = Some (filled 0 (x_mem M) M)" by (subst while_CX.simps) simp
  then show ?case by (auto simp: block_set_def)
next
  case (Suc k)
  let ?d = "at (R_ES M) (R_DI M)"
  define m1 where "m1 = (x_mem M)(?d := R_AL M)"
  let ?M = "filled 1 m1 M"
  have d: "at (R_ES M) (R_DI M + 1) = ?d + 1" "unat (R_DI M + 1) = unat (R_DI M) + 1" using at_Suc Suc.prems(2) by simp_all
  have ud: "unat (?d + 1) = unat ?d + 1" using d by (simp flip: d(1) add: unat_at)
  have cx: "R_CX M \<noteq> 0" "unat (R_CX M - 1) = k" using Suc.prems(1) by (auto simp: unat_sub word_le_nat_alt)
  have "fill_body M = Some ?M" using stos_step_ok Suc.prems(3) by (simp add: bytes_in_def m1_def)
  then have step: "while_CX fill_body (\<lambda>_. False) M = while_CX fill_body (\<lambda>_. False) ?M"
    using cx(1) by (subst while_CX.simps) simp
  obtain m where m: "while_CX fill_body (\<lambda>_. False) ?M = Some (filled k m ?M)"
      "block_set k (?d + 1) (\<lambda>_. R_AL M) m1 m"
    using Suc.IH [of ?M] Suc.prems cx(2) d ud by (auto simp: bytes_in_def)
  have "unat ?d + k < 2 ^ 32" using Suc.prems(3) u32_max [of "mem_size M"] unfolding bytes_in_def by linarith
  then have "block_set (Suc k) ?d (\<lambda>_. R_AL M) (x_mem M) m" using block_set_Suc [OF m(2) [unfolded m1_def]] by simp
  then show ?case using step m(1) by (auto simp: add.commute)
qed

section \<open>Properties\<close>

lemma and_clear: "((m AND NOT p) AND x) AND p = 0" "m AND q = 0 \<Longrightarrow> (m AND NOT p) AND q = 0" for m p q x :: u32
  by (auto simp: bit_eq_iff bit_simps)

lemma forward: "ACCESS_FLAG F_DF (R_FLG M) = 0 \<Longrightarrow> step_inc n M = n"
  by (simp add: step_inc_def)

text \<open>C24: with the direction flag clear and without segment override, \<open>rep movsb\<close> is a copy of memory: if source and destination lie in
  memory and do not wrap around in their segments, and the destination does not overlap the source from above, then the instruction ends, the CX
  bytes at DS:SI as they were are at ES:DI, no other byte is changed, the index registers are behind the blocks, and
  CX is 0. In the same way \<open>rep stosb\<close> fills a block with the byte in AL.\<close>

theorem x86_rep_block:
  assumes "x_mode M AND PREFIX_REP \<noteq> 0" "x_mode M AND SYSMODE_SEGMASK = 0" "ACCESS_FLAG F_DF (R_FLG M) = 0"
    "n = unat (R_CX M)" "s = at (R_DS M) (R_SI M)" "d = at (R_ES M) (R_DI M)"
    "unat (R_SI M) + n < 65536" "unat (R_DI M) + n < 65536" "unat s + n \<le> unat (mem_size M)" "unat d + n \<le> unat (mem_size M)"
    "unat d \<le> unat s \<or> unat s + n \<le> unat d"
  shows "(\<exists>M'. x86emuOp_movs_byte M = Some M' \<and> block_set n d (\<lambda>i. x_mem M (s + word_of_nat i)) (x_mem M) (x_mem M')
      \<and> R_CX M' = 0 \<and> R_SI M' = R_SI M + R_CX M \<and> R_DI M' = R_DI M + R_CX M \<and> x_mode M' AND PREFIX_REP = 0)
    \<and> (\<exists>M'. x86emuOp_stos_byte M = Some M' \<and> block_set n d (\<lambda>_. R_AL M) (x_mem M) (x_mem M')
      \<and> R_CX M' = 0 \<and> R_SI M' = R_SI M \<and> R_DI M' = R_DI M + R_CX M \<and> x_mode M' AND PREFIX_REP = 0)"
proof
  have cx: "word_of_nat n = R_CX M" using assms(4) by simp
  let ?N = "clear_mode PREFIX_REP (set_reg16 CX 0 M)"
  have r: "R_SI ?N = R_SI M" "R_DI ?N = R_DI M" "R_DS ?N = R_DS M" "R_ES ?N = R_ES M" "x_mem ?N = x_mem M" "mem_size ?N = mem_size M"
      "R_CX ?N = 0" "x_mode ?N = x_mode M AND NOT PREFIX_REP"
    by (simp_all add: clear_mode_def set_reg16_def reg_views)
  obtain m where m: "repeat_n n (movs_step fetch_data_byte store_data_byte_abs 1) ?N = Some (copied n m ?N)"
      "block_set n d (\<lambda>i. x_mem M (s + word_of_nat i)) (x_mem M) m"
    using movs_loop [of ?N n] and_clear(2) [OF assms(2)] assms(5-11) unfolding r bytes_in_def by auto
  have "x86emuOp_movs_byte M = Some (DECODE_CLEAR_SEGOVR (copied n m ?N))"
    using assms(1) m(1) by (simp add: x86emuOp_movs_byte_def clearing_def movs_def Let_def forward [OF assms(3)] take_count_def assms(4))
  then show "\<exists>M'. x86emuOp_movs_byte M = Some M' \<and> block_set n d (\<lambda>i. x_mem M (s + word_of_nat i)) (x_mem M) (x_mem M')
      \<and> R_CX M' = 0 \<and> R_SI M' = R_SI M + R_CX M \<and> R_DI M' = R_DI M + R_CX M \<and> x_mode M' AND PREFIX_REP = 0"
    using m(2) r cx by (simp add: DECODE_CLEAR_SEGOVR_def and_clear)
  obtain m where f: "while_CX fill_body (\<lambda>_. False) M = Some (filled n m M)" "block_set n d (\<lambda>_. R_AL M) (x_mem M) m"
    using stos_loop [of M n] assms(4,6,8,10) by (auto simp: bytes_in_def)
  have "x86emuOp_stos_byte M = Some (DECODE_CLEAR_SEGOVR (clear_mode PREFIX_REP (filled n m M)))"
    using assms(1) f(1) by (simp add: x86emuOp_stos_byte_def clearing_def rep_byte_def forward [OF assms(3)] flip: fill_body_def)
  then show "\<exists>M'. x86emuOp_stos_byte M = Some M' \<and> block_set n d (\<lambda>_. R_AL M) (x_mem M) (x_mem M')
      \<and> R_CX M' = 0 \<and> R_SI M' = R_SI M \<and> R_DI M' = R_DI M + R_CX M \<and> x_mode M' AND PREFIX_REP = 0"
    using f(2) cx by (simp add: DECODE_CLEAR_SEGOVR_def clear_mode_def and_clear)
qed

theorem x86_rep_block_witness:
  "\<exists>M'. x86emuOp_movs_byte (sample\<lparr>x_mode := SYSMODE_PREFIX_REPE, R_EDI := 0x500, R_ESI := 0x84, R_DS := 0\<rparr>) = Some M'
     \<and> x_mem M' 0x500 = 0x34 \<and> x_mem M' 0x502 = 0x78 \<and> x_mem M' 0x503 = 0 \<and> R_CX M' = 0 \<and> R_DI M' = 0x503"
proof -
  let ?M = "sample\<lparr>x_mode := SYSMODE_PREFIX_REPE, R_EDI := 0x500, R_ESI := 0x84, R_DS := 0\<rparr>"
  have r: "R_CX ?M = 3" "R_SI ?M = 0x84" "R_DI ?M = 0x500" "R_DS ?M = 0" "R_ES ?M = 0" "mem_size ?M = 0x2000"
    by (simp_all add: sample_def lo16_def)
  have a: "at 0 0x84 = 0x84" "at 0 0x500 = 0x500" by (simp_all add: at_def)
  have m: "x_mode ?M AND PREFIX_REP \<noteq> 0" "x_mode ?M AND SYSMODE_SEGMASK = 0" "ACCESS_FLAG F_DF (R_FLG ?M) = 0" by code_simp+
  obtain M' where M': "x86emuOp_movs_byte ?M = Some M'" "block_set 3 0x500 (\<lambda>i. x_mem ?M (0x84 + word_of_nat i)) (x_mem ?M) (x_mem M')"
      "R_CX M' = 0" "R_DI M' = 0x503"
    using x86_rep_block [OF m refl refl refl, unfolded r a] by auto
  have "x_mem M' 0x500 = x_mem ?M 0x84" "x_mem M' 0x502 = x_mem ?M 0x86"
    using M'(2) [unfolded block_set_def, THEN conjunct1, rule_format, of 0] M'(2) [unfolded block_set_def, THEN conjunct1, rule_format, of 2] by simp_all
  moreover have "\<forall>i<3. (0x503 :: u32) \<noteq> 0x500 + word_of_nat i" by (auto simp: numeral_3_eq_3 less_Suc_eq)
  then have "x_mem M' 0x503 = x_mem ?M 0x503" using M'(2) by (simp add: block_set_def)
  moreover have "x_mem ?M 0x84 = 0x34" "x_mem ?M 0x86 = 0x78" "x_mem ?M 0x503 = 0" by (simp_all add: sample_def)
  ultimately show ?thesis using M' r by auto
qed

end
