(* ===== verification/X86_Encoding.thy ===== *)
theory X86_Encoding
  imports X86_Frame
begin

unbundle bit_operations_syntax

text \<open>
  What the instruction tables do, compared with the encoding of the processor: the eight arithmetic and logical operations in
  their forms, the bit scans and the byte swap.
\<close>

section \<open>The arithmetic and logical operations\<close>

lemma below_8: "k < 8 \<Longrightarrow> k \<in> {0, 1, 2, 3, 4, 5, 6, 7}" for k :: nat
  by (simp; presburger)

lemmas alu_tables = opc80_byte_operation_def opc81_word_operation_def opc81_long_operation_def opc82_byte_operation_def
  opc83_word_operation_def opc83_long_operation_def

lemma by_table_eq: "by_table t 7 = compare (t ! 7)" "k \<noteq> 7 \<Longrightarrow> by_table t k = alu (t ! k)"
  by (simp_all add: by_table_def fun_eq_iff)

definition alu_forms :: "nat \<Rightarrow> (x86 \<Rightarrow> x86 option) list" where
  "alu_forms k =
     [modrm (op_RM_R BYTE (by_table opc80_byte_operation k)),
      modrm (by_data_size_rm (op_RM_R LONG (by_table opc81_long_operation k)) (op_RM_R WORD (by_table opc81_word_operation k))),
      modrm (op_R_RM BYTE (by_table opc80_byte_operation k)),
      modrm (by_data_size_rm (op_R_RM LONG (by_table opc81_long_operation k)) (op_R_RM WORD (by_table opc81_word_operation k))),
      clearing (op_A_IMM BYTE (by_table opc80_byte_operation k)),
      clearing (by_data_size (op_A_IMM LONG (by_table opc81_long_operation k)) (op_A_IMM WORD (by_table opc81_word_operation k)))]"

lemma alu_rows:
  assumes "k < 8"
  shows "map (\<lambda>f. f E op1) (take 6 (drop (8 * k) x86emu_optab)) = alu_forms k"
  using below_8 [OF assms]
  by (elim insertE emptyE) (simp_all add: x86emu_optab_def alu_forms_def arith_handlers by_table_eq alu_tables numeral_2_eq_2 numeral_3_eq_3)

lemma by_table_result:
  "by_table t k d s M = (case (t ! k) d s (R_FLG M) of (res, flg) \<Rightarrow> Some (if k = 7 then None else Some res, M\<lparr>R_FLG := flg\<rparr>))"
  by (simp add: by_table_def alu_def compare_def split: prod.split)

text \<open>The rows of the instruction table agree with the encoding of the processor. Bits 3 to 5 of the opcode select one of the
  eight operations, in the order of the tables for immediate operands, and the low three bits select width, direction or
  the accumulator form. On two registers the two directions do the same; the result goes to the destination register, except for
  the last operation (\<open>cmp\<close>), which only sets the flags.\<close>

theorem x86_alu_encodings:
  assumes "k < 8" "rh < 8" "rl < 8"
  shows "map (\<lambda>f. f E op1) (take 6 (drop (8 * k) x86emu_optab)) = alu_forms k
    \<and> op_RM_R BYTE (by_table opc80_byte_operation k) 3 rh rl M = op_R_RM BYTE (by_table opc80_byte_operation k) 3 rl rh M
    \<and> op_RM_R WORD (by_table opc81_word_operation k) 3 rh rl M = op_R_RM WORD (by_table opc81_word_operation k) 3 rl rh M
    \<and> op_RM_R LONG (by_table opc81_long_operation k) 3 rh rl M = op_R_RM LONG (by_table opc81_long_operation k) 3 rl rh M
    \<and> op_RM_R WORD (by_table opc81_word_operation k) 3 rh rl M =
        (case (opc81_word_operation ! k) (get_reg16 (regs16 ! rl) M) (get_reg16 (regs16 ! rh) M) (R_FLG M) of (res, flg) \<Rightarrow>
           Some (if k = 7 then M\<lparr>R_FLG := flg\<rparr> else set_reg16 (regs16 ! rl) res (M\<lparr>R_FLG := flg\<rparr>)))"
proof -
  have "op_RM_R WORD (by_table opc81_word_operation k) 3 rh rl M =
        (case (opc81_word_operation ! k) (get_reg16 (regs16 ! rl) M) (get_reg16 (regs16 ! rh) M) (R_FLG M) of (res, flg) \<Rightarrow>
           Some (if k = 7 then M\<lparr>R_FLG := flg\<rparr> else set_reg16 (regs16 ! rl) res (M\<lparr>R_FLG := flg\<rparr>)))"
    unfolding word_width.op_RM_R_reg [OF assms(2,3)] by_table_result by (simp add: put_reg_def WORD_def split: prod.split)
  then show ?thesis
    using alu_rows [OF assms(1)] byte_width.op_encodings [OF assms(2,3)] word_width.op_encodings [OF assms(2,3)]
      long_width.op_encodings [OF assms(2,3)] by blast
qed

theorem x86_alu_encodings_witness:
  "op_RM_R WORD (by_table opc81_word_operation 7) 3 0 1 sample = Some (sample\<lparr>R_FLG := snd (cmp_word 3 1 0x202)\<rparr>)"
proof -
  have "regs16 ! 0 = AX" "regs16 ! 1 = CX" "get_reg16 CX sample = 3" "get_reg16 AX sample = 1" "R_FLG sample = 0x202"
    by (simp_all add: regs16_def get_reg16_def sample_def lo16_def)
  moreover have "opc81_word_operation ! 7 = cmp_word" by (simp add: opc81_word_operation_def)
  ultimately show ?thesis using x86_alu_encodings [of 7 0 1 undefined undefined sample] by (auto split: prod.splits)
qed

section \<open>Bits\<close>

lemma scan_up_ok: "scan_up n i v = (if \<exists>j. i \<le> j \<and> j < i + n \<and> bit v j then (LEAST j. i \<le> j \<and> bit v j) else i + n)"
proof (induction n arbitrary: i)
  case (Suc n)
  have b: "drop_bit i v AND 1 \<noteq> 0 \<longleftrightarrow> bit v i" by (simp add: and_one_eq bit_iff_odd_drop_bit mod_2_eq_odd)
  show ?case
  proof (cases "bit v i")
    case True
    then have "(LEAST j. i \<le> j \<and> bit v j) = i" by (intro Least_equality) auto
    then show ?thesis using True b by (auto intro!: exI [of _ i])
  next
    case False
    then have "(i \<le> j \<and> bit v j) = (Suc i \<le> j \<and> bit v j)" for j by (metis Suc_leD le_antisym not_less_eq_eq)
    then show ?thesis using Suc.IH [of "Suc i"] False b by (auto simp: Suc_le_eq)
  qed
qed auto

lemma scan_down_ok: "scan_down n v = (if \<exists>j \<le> n. bit v j then (GREATEST j. j \<le> n \<and> bit v j) else 0)"
proof (induction n)
  case 0
  show ?case by (auto intro: Greatest_equality)
next
  case (Suc n)
  have b: "drop_bit (Suc n) v AND 1 \<noteq> 0 \<longleftrightarrow> bit v (Suc n)" by (simp add: and_one_eq bit_iff_odd_drop_bit mod_2_eq_odd)
  show ?case
  proof (cases "bit v (Suc n)")
    case True
    then have "(GREATEST j. j \<le> Suc n \<and> bit v j) = Suc n" by (intro Greatest_equality) auto
    then show ?thesis using True b by auto
  next
    case False
    then have "(j \<le> Suc n \<and> bit v j) = (j \<le> n \<and> bit v j)" for j by (metis le_Suc_eq)
    then show ?thesis using Suc.IH False b by auto
  qed
qed

lemma scans:
  fixes v :: "'a::len word"
  assumes "v \<noteq> 0"
  shows "bit v (scan_up LENGTH('a) 0 v) \<and> (\<forall>j < scan_up LENGTH('a) 0 v. \<not> bit v j)"
    "bit v (scan_down (LENGTH('a) - 1) v) \<and> (\<forall>j > scan_down (LENGTH('a) - 1) v. \<not> bit v j)"
proof -
  obtain j where j: "bit v j" using assms by (metis bit_0_eq bit_eq_iff bot_apply bot_bool_def)
  then have l: "j < LENGTH('a)" by (rule bit_imp_le_length)
  have u: "scan_up LENGTH('a) 0 v = (LEAST j. bit v j)" using j l by (auto simp: scan_up_ok)
  show "bit v (scan_up LENGTH('a) 0 v) \<and> (\<forall>j < scan_up LENGTH('a) 0 v. \<not> bit v j)"
    unfolding u using LeastI [of "bit v", OF j] not_less_Least by blast
  let ?P = "\<lambda>j. j \<le> LENGTH('a) - 1 \<and> bit v j"
  have p: "?P j" using j l by auto
  have d: "scan_down (LENGTH('a) - 1) v = Greatest ?P" using p by (auto simp: scan_down_ok)
  have "bit v i \<Longrightarrow> ?P i" for i using bit_imp_le_length [of v i] by auto
  moreover have "?P (Greatest ?P)" by (rule GreatestI_nat [of ?P j "LENGTH('a)"]) (use p in auto)
  moreover have "?P i \<Longrightarrow> i \<le> Greatest ?P" for i by (rule Greatest_le_nat [of ?P i "LENGTH('a)"]) auto
  ultimately show "bit v (scan_down (LENGTH('a) - 1) v) \<and> (\<forall>j > scan_down (LENGTH('a) - 1) v. \<not> bit v j)"
    unfolding d by (metis linorder_not_less)
qed

lemma bit_scan_reg:
  assumes "rh < 8" "rl < 8"
  shows "bit_scan WORD scan 3 rh rl M = Some (set_reg16 (regs16 ! rh) (word_of_nat (scan (get_reg16 (regs16 ! rl) M)))
      (M\<lparr>R_FLG := CONDITIONAL_SET_FLAG (get_reg16 (regs16 ! rl) M = 0) F_ZF (R_FLG M)\<rparr>))"
  using assms word_width.read_rm_reg [OF assms(2)] word_width.reg_ok [OF assms(1)] by (simp add: bit_scan_def WORD_def)

lemma bswap_bytes: "take_bit 8 (drop_bit (8 * i) (bswap_32 x)) = take_bit 8 (drop_bit (8 * (3 - i)) x)" if "i < 4"
proof -
  have m: "(0xff000000 :: u32) = push_bit 24 (mask 8)" "(0x00ff0000 :: u32) = push_bit 16 (mask 8)" "(0x0000ff00 :: u32) = push_bit 8 (mask 8)"
      "(0x000000ff :: u32) = mask 8"
    by (simp_all add: mask_eq_exp_minus_1 push_bit_eq_mult)
  have i: "i = 0 \<or> i = 1 \<or> i = 2 \<or> i = 3" using that by linarith
  have "bit (bswap_32 x) (8 * i + n) = bit x (8 * (3 - i) + n)" if "n < 8" for n
    using i that unfolding bswap_32_def m by (elim disjE) (simp_all add: bit_simps)
  then show ?thesis by (intro bit_eqI) (auto simp: bit_simps add.commute)
qed

text \<open>The bit scans find the bit they are named after. If the operand is not 0, the loop of \<open>bsf\<close> ends at the lowest set bit
  and the loop of \<open>bsr\<close> at the highest, and the handler stores the index in the destination and clears the zero flag; if it is 0, the
  zero flag is set and the width, or 0, is stored. \<open>bswap\<close> reverses the four bytes of a register.\<close>

theorem x86_bits_correct:
  assumes "rh < 8" "rl < 8" "v = get_reg16 (regs16 ! rl) M"
  shows "bit_scan WORD scan 3 rh rl M =
      Some (set_reg16 (regs16 ! rh) (word_of_nat (scan v)) (M\<lparr>R_FLG := CONDITIONAL_SET_FLAG (v = 0) F_ZF (R_FLG M)\<rparr>))
    \<and> (v \<noteq> 0 \<longrightarrow> bit v (scan_up 16 0 v) \<and> (\<forall>j < scan_up 16 0 v. \<not> bit v j) \<and> bit v (scan_down 15 v) \<and> (\<forall>j > scan_down 15 v. \<not> bit v j))
    \<and> (w \<noteq> (0 :: u32) \<longrightarrow> bit w (scan_up 32 0 w) \<and> (\<forall>j < scan_up 32 0 w. \<not> bit w j) \<and> bit w (scan_down 31 w) \<and> (\<forall>j > scan_down 31 w. \<not> bit w j))
    \<and> scan_up 16 0 (0 :: u16) = 16 \<and> scan_down 15 (0 :: u16) = 0
    \<and> (\<forall>i<4. take_bit 8 (drop_bit (8 * i) (bswap_32 w)) = take_bit 8 (drop_bit (8 * (3 - i)) w))"
proof -
  have "bit v (scan_up 16 0 v) \<and> (\<forall>j < scan_up 16 0 v. \<not> bit v j) \<and> bit v (scan_down 15 v) \<and> (\<forall>j > scan_down 15 v. \<not> bit v j)" if "v \<noteq> 0"
    using scans [OF that] by simp
  moreover have "bit w (scan_up 32 0 w) \<and> (\<forall>j < scan_up 32 0 w. \<not> bit w j) \<and> bit w (scan_down 31 w) \<and> (\<forall>j > scan_down 31 w. \<not> bit w j)" if "w \<noteq> 0"
    using scans [OF that] by simp
  moreover have "scan_up 16 0 (0 :: u16) = 16" "scan_down 15 (0 :: u16) = 0" by (simp_all add: scan_up_ok scan_down_ok)
  moreover note bit_scan_reg [OF assms(1,2), of scan M, folded assms(3)]
  ultimately show ?thesis using bswap_bytes by (intro conjI allI impI) (assumption | blast)+
qed

theorem x86_bits_correct_witness:
  "bit_scan WORD (scan_up 16 0) 3 0 1 (sample\<lparr>R_ECX := 0x28\<rparr>) =
     Some (set_reg16 AX 3 (sample\<lparr>R_ECX := 0x28, R_FLG := CONDITIONAL_SET_FLAG False F_ZF (R_FLG sample)\<rparr>))"
proof -
  have "regs16 ! 0 = AX" "regs16 ! 1 = CX" "get_reg16 CX (sample\<lparr>R_ECX := 0x28\<rparr>) = 0x28"
    by (simp_all add: regs16_def get_reg16_def lo16_def)
  moreover have "scan_up 16 0 (0x28 :: u16) = 3" by code_simp
  ultimately show ?thesis
    using x86_bits_correct [of 0 1 "0x28" "sample\<lparr>R_ECX := 0x28\<rparr>" "scan_up 16 0" 0] by (simp add: sample_def)
qed

end
