(* ===== verification/Spec2Isabelle.thy ===== *)
theory Spec2Isabelle
  imports VMFreeMap Sched Sync Timer Signals Region PhysMem_Init KHeap X86_Shift X86_MulDiv X86_Driver X86_Prefix X86_Cond X86_Block X86_Encoding
begin

text \<open>
  Escape is a microkernel operating system in C++ (\<^verbatim>\<open>src/source\<close>). The kernel (\<^verbatim>\<open>kernel/\<close>) manages threads, memory, signals,
  timers and a virtual file system; drivers and file systems are user processes. This development models the core of
  the kernel's memory management and of its thread management, and one driver: the video driver, which runs the BIOS of the graphics
  card in an emulator of the real-mode processor, so that foreign code is kept away from the machine.

  The configuration is the default target of the build, i586: \<^verbatim>\<open>size_t\<close>, \<^verbatim>\<open>ulong\<close>, \<^verbatim>\<open>uintptr_t\<close> and \<^verbatim>\<open>frameno_t\<close> are 32-bit words, and sums,
  products and shifts wrap around as in the code. A failed assertion, a panic, a null-pointer dereference, an access outside of an array and
  a computation that C leaves undefined are the value \<^term>\<open>None\<close>; so a theorem that an operation returns \<^term>\<open>Some\<close> includes that none of them
  happens. A loop whose end is not obvious from its form is a \<^theory_text>\<open>partial_function (option)\<close>, for which not ending is \<^term>\<open>None\<close> as well; no fuel is used.
  Whether an allocation inside of an operation succeeds, the time, the hardware behind a port and the content of fresh memory are arguments.
  Definitions have the names of the source: \<^verbatim>\<open>Class_method\<close> for a method of the kernel, the C name for a function of the emulator. The
  locks of the code make each modelled operation atomic, unless it gives up the processor in the middle; such an operation is split there.

  \<^bold>\<open>Foundations.\<close>
  \<^item> \<open>Esc_Prelude\<close>: types, rounding macros (\<^verbatim>\<open>include/common.h\<close>, \<^verbatim>\<open>mem/pagedir.h\<close>), error codes, collections of rules, words and ranges.
  \<^item> \<open>Linked_Lists\<close>: the intrusive lists \<^verbatim>\<open>DList\<close> and \<^verbatim>\<open>SList\<close> (\<^verbatim>\<open>include/esc/col\<close>) on a store of link fields. They refine sequences, with a
    frame condition for other lists in the same store; the contract is the locale \<open>item_queue\<close>, interpreted for both.

  \<^bold>\<open>Threads\<close> (\<^verbatim>\<open>kernel/src/task\<close>, \<^verbatim>\<open>kernel/src/*.cc\<close>).
  \<^item> \<open>Sched\<close>: \<^verbatim>\<open>task/sched.cc\<close>. From the boot state every sequence of calls keeps each thread in the one queue its state says, the mask of
    ready queues exact and every assertion true; \<^verbatim>\<open>perform\<close> picks a thread of the highest priority; wakeups reach exactly the selected threads.
  \<^item> \<open>Sync\<close>: \<^verbatim>\<open>blockedlist.cc\<close>, \<^verbatim>\<open>semaphore.cc\<close>, \<^verbatim>\<open>mutex.cc\<close>, as step relations over interleaved threads. Mutual exclusion
    holds in all reachable states without signals, and fails with them.
  \<^item> \<open>Timer\<close>: \<^verbatim>\<open>task/timer.cc\<close>. The list of time differences implements a set of absolute deadlines.
  \<^item> \<open>Signals\<close>: \<^verbatim>\<open>task/signals.cc\<close> and the delivery to the threads of a process. Every pending signal is started, each once and in order.

  \<^bold>\<open>Memory\<close> (\<^verbatim>\<open>kernel/src/mem\<close>).
  \<^item> \<open>PhysMemAreas\<close>, \<open>PhysMem\<close>, \<open>PhysMem_Init\<close>: \<^verbatim>\<open>physmemareas.cc\<close> and \<^verbatim>\<open>physmem.cc\<close>, with \<^verbatim>\<open>reserveFrames\<close> of \<^verbatim>\<open>task/thread.cc\<close>. Removing a range from the
    areas removes exactly its pages; the initialization turns the areas into a bitmap and a stack of frames; afterwards frames are neither lost nor handed
    out twice in any sequence of requests; the search for contiguous frames is complete, and freeing them undoes it. The sessions are
    those of a machine without memory above \<^verbatim>\<open>DIR_MAP_AREA_SIZE\<close>; lemmas show what goes wrong on others.
  \<^item> \<open>KHeap\<close>: \<^verbatim>\<open>kheap.cc\<close>, on the linked area structures and the words of the heap with its guards. Whatever is allocated, released, resized and
    written, no assertion fails, the blocks are disjoint and keep their contents; an allocation fails for lack of memory only.
  \<^item> \<open>Range_Manager\<close>, \<open>VMFreeMap\<close>: \<^verbatim>\<open>vmfreemap.cc\<close>. The locale \<open>range_manager\<close> states what a client of an allocator of ranges may rely on, and what
    follows for any interleaving of requests; the free map is an instance.
  \<^item> \<open>Swap\<close>, \<open>Region\<close>: \<^verbatim>\<open>swapmap.cc\<close>, \<^verbatim>\<open>region.cc\<close> and the page flags that \<^verbatim>\<open>VirtMem::swapIn\<close> and \<^verbatim>\<open>swapOut\<close> change. The counter of a block is the number of
    pages that refer to it, so that no block in use is free. The contract between the two is the locale \<open>block_counter\<close>.

  \<^bold>\<open>Video driver\<close> (\<^verbatim>\<open>drivers/x86/video\<close>).
  \<^item> \<open>X86_Flags\<close>, \<open>X86_Arith\<close>, \<open>X86_Shift\<close>, \<open>X86_MulDiv\<close>, \<open>X86_BCD\<close>: the primitives of \<^verbatim>\<open>x86emu/prim_ops.c\<close> at 8, 16 and 32 bit, compared with integer
    arithmetic: result and every flag.
  \<^item> \<open>X86_Machine\<close>: registers (\<^verbatim>\<open>regs.h\<close>), memory (\<^verbatim>\<open>sys.c\<close>), decoding and interrupts (\<^verbatim>\<open>decode.c\<close>). \<open>X86_Operand\<close>: the operand forms that the handlers share,
    in the locale \<open>operand_width\<close> for the three widths. \<open>X86_Ops_Arith\<close>, \<open>X86_Ops_Move\<close>, \<open>X86_Ops_Flow\<close>, \<open>X86_Ops_String\<close>, \<open>X86_Ops2\<close>: one definition per
    handler of \<^verbatim>\<open>ops.c\<close> and \<^verbatim>\<open>ops2.c\<close>. \<open>X86_Exec\<close>: the two tables, \<^verbatim>\<open>fpu.c\<close>, the execution loop and the calls of the driver (\<^verbatim>\<open>vbe.cc\<close>).
  \<^item> \<open>PCIBus\<close>: \<^verbatim>\<open>pcibus.h\<close> and the port functions of \<^verbatim>\<open>vbe.cc\<close>. \<open>X86_Frame\<close> (locale \<open>framed_width\<close>) and \<open>X86_Driver\<close>: whatever code the BIOS contains, a call changes
    nothing outside of the emulated memory and configures no other PCI device; if the handler returns, the call returns its registers.
  \<^item> \<open>X86_Prefix\<close>, \<open>X86_Cond\<close>, \<open>X86_Stack\<close>, \<open>X86_Block\<close>, \<open>X86_Encoding\<close>: prefixes, conditions, the stack with calls and returns, the repeated string
    instructions, and the encoding of the tables, across all handlers.

  \<^bold>\<open>Not modelled.\<close>
  \<^item> In the modelled files: printing and debugging output, the spin locks themselves (a lock makes a step atomic), \<^verbatim>\<open>KHeap::calloc\<close> and the counting functions of
    the heap, the thread that swaps (\<^verbatim>\<open>PhysMem::swapper\<close>) with its list of jobs, the functions of the lists that no modelled component calls, and the
    tracing of the emulator.
  \<^item> The rest of the memory management: page tables and directories, \<^verbatim>\<open>VirtMem\<close> and \<^verbatim>\<open>VMTree\<close> except for the flags of swapped pages, \<^verbatim>\<open>CopyOnWrite\<close>, \<^verbatim>\<open>DynArray\<close>, \<^verbatim>\<open>Cache\<close>, user access.
    They work through the hardware page tables of each architecture.
  \<^item> Processes, ELF loading, the virtual file system, system calls, interrupts and the architecture-dependent code of the kernel: they are mostly
    composed of device accesses, context switches in assembler and copies between address spaces.
  \<^item> All other drivers, the libraries, the user programs, the boot loaders and the tools with the bundled third-party programs, which are not part of the
    kernel's core.
\<close>

end
